(* ===== verification/Json.thy ===== *)
theory Json
  imports Prelude
begin

text \<open>
  The JSON values of \<open>serde_json\<close> as the program uses them: the \<open>Value\<close> enum, object
  lookup and insertion (an object is a \<open>BTreeMap\<close>: its entries are kept in ascending key
  order, since no crate turns on \<open>preserve_order\<close>), dotted paths, and the pieces from which
  the derived \<open>Serialize\<close> and \<open>Deserialize\<close> of the stored records are written out.
  A number is one of the three variants of \<open>serde_json::Number\<close>; a float is its bit pattern.
  The text codec (\<open>to_vec\<close> and \<open>from_slice\<close>) is not modelled: it is a parameter of the
  memory store.
\<close>

section \<open>Values\<close>

datatype jnumber = PosInt u64 | NegInt int | FloatBits u64

datatype json =
    JNull
  | JBool bool
  | JNum jnumber
  | JStr string
  | JArr "json list"
  | JObj "(string \<times> json) list"

type_synonym jobject = "(string \<times> json) list"

text \<open>
  Equality of values. Two floats are equal as \<open>f64\<close> values, so the two zeros are; a number is
  never \<open>NaN\<close>.
\<close>

definition f64_zero :: "u64 \<Rightarrow> bool" where
  "f64_zero b \<longleftrightarrow> b = 0 \<or> b = push_bit 63 1"

fun num_eq :: "jnumber \<Rightarrow> jnumber \<Rightarrow> bool" where
  "num_eq (FloatBits a) (FloatBits b) \<longleftrightarrow> a = b \<or> f64_zero a \<and> f64_zero b"
| "num_eq a b \<longleftrightarrow> a = b"

fun json_eq :: "json \<Rightarrow> json \<Rightarrow> bool" where
  "json_eq (JNum a) (JNum b) \<longleftrightarrow> num_eq a b"
| "json_eq (JArr xs) (JArr ys) \<longleftrightarrow> list_all2 json_eq xs ys"
| "json_eq (JObj xs) (JObj ys) \<longleftrightarrow> list_all2 (rel_prod (=) json_eq) xs ys"
| "json_eq v w \<longleftrightarrow> v = w"

fun is_object :: "json \<Rightarrow> bool" where
  "is_object (JObj _) = True"
| "is_object _ = False"

fun as_object :: "json \<Rightarrow> jobject option" where
  "as_object (JObj m) = Some m"
| "as_object _ = None"

fun as_str :: "json \<Rightarrow> string option" where
  "as_str (JStr s) = Some s"
| "as_str _ = None"

fun jget :: "json \<Rightarrow> string \<Rightarrow> json option" where
  "jget (JObj m) k = map_of m k"
| "jget _ k = None"

fun obj_insert :: "string \<Rightarrow> json \<Rightarrow> jobject \<Rightarrow> jobject" where
  "obj_insert k v [] = [(k, v)]"
| "obj_insert k v ((k', v') # m) =
     (if k < k' then (k, v) # (k', v') # m
      else if k = k' then (k, v) # m
      else (k', v') # obj_insert k v m)"

text \<open>A struct serialized field by field; a skipped field is \<open>None\<close>.\<close>

definition jstruct :: "(string \<times> json option) list \<Rightarrow> json" where
  "jstruct fs = JObj (foldl (\<lambda>m (k, ov). case ov of None \<Rightarrow> m | Some v \<Rightarrow> obj_insert k v m) [] fs)"

lemma map_of_obj_insert [simp]: "map_of (obj_insert k v m) = (map_of m)(k \<mapsto> v)"
  by (induction m) (auto simp: fun_eq_iff)

lemma keys_obj_insert: "fst ` set (obj_insert k v m) = insert k (fst ` set m)"
  by (induction k v m rule: obj_insert.induct) auto

lemma obj_insert_sorted:
  "sorted_wrt (<) (map fst m) \<Longrightarrow> sorted_wrt (<) (map fst (obj_insert k v m))"
proof (induction m)
  case (Cons e m)
  then show ?case
    using keys_obj_insert [of k v m] by (cases e) (auto simp: image_iff)
qed simp

lemma map_of_jstruct_fold:
  "map_of (foldl (\<lambda>m (k, ov). case ov of None \<Rightarrow> m | Some v \<Rightarrow> obj_insert k v m) m0 fs) k =
     (case map_of (rev (filter (\<lambda>(k, ov). ov \<noteq> None) fs)) k of
        None \<Rightarrow> map_of m0 k | Some ov \<Rightarrow> ov)"
  by (induction fs arbitrary: m0) (auto simp: map_add_def split: option.splits)

lemma jget_jstruct:
  "jget (jstruct fs) k =
     (case map_of (rev (filter (\<lambda>(k, ov). ov \<noteq> None) fs)) k of None \<Rightarrow> None | Some ov \<Rightarrow> ov)"
  by (simp add: jstruct_def map_of_jstruct_fold split: option.split)

lemma is_object_jstruct [simp]: "is_object (jstruct fs)"
  by (simp add: jstruct_def)

section \<open>Dotted paths\<close>

text \<open>\<open>str::split\<close> on a byte: always at least one segment.\<close>

fun split_on :: "char \<Rightarrow> string \<Rightarrow> string list" where
  "split_on d [] = [[]]"
| "split_on d (c # cs) =
     (case split_on d cs of
        [] \<Rightarrow> [[c]]
      | seg # segs \<Rightarrow> if c = d then [] # seg # segs else (c # seg) # segs)"

fun lookup_segs :: "json \<Rightarrow> string list \<Rightarrow> json option" where
  "lookup_segs cur [] = Some cur"
| "lookup_segs cur (seg # segs) =
     (if seg = [] then None
      else case as_object cur of
             None \<Rightarrow> None
           | Some obj \<Rightarrow> (case map_of obj seg of
                 None \<Rightarrow> None | Some nxt \<Rightarrow> lookup_segs nxt segs))"

definition lookup_dot_path :: "json \<Rightarrow> string \<Rightarrow> json option" where
  "lookup_dot_path value path = lookup_segs value (split_on CHR ''.'' path)"

lemma split_on_nonempty: "split_on d s \<noteq> []"
  by (cases s) (auto split: list.splits)

lemma split_on_no_sep: "d \<notin> set s \<Longrightarrow> split_on d s = [s]"
  by (induction s) auto

lemma split_on_join: "d \<notin> set s \<Longrightarrow> split_on d (s @ d # t) = s # split_on d t"
proof (induction s)
  case Nil
  then show ?case using split_on_nonempty [of d t] by (auto split: list.splits)
qed auto

section \<open>Primitive fields\<close>

definition jstr :: "string \<Rightarrow> json" where "jstr s = JStr s"

definition ju64 :: "u64 \<Rightarrow> json" where "ju64 n = JNum (PosInt n)"

definition ju32 :: "u32 \<Rightarrow> json" where "ju32 n = JNum (PosInt (ucast n))"

fun un_str :: "json \<Rightarrow> string option" where
  "un_str (JStr s) = Some s"
| "un_str _ = None"

fun un_u64 :: "json \<Rightarrow> u64 option" where
  "un_u64 (JNum (PosInt n)) = Some n"
| "un_u64 _ = None"

fun un_u32 :: "json \<Rightarrow> u32 option" where
  "un_u32 (JNum (PosInt n)) = (if unat n < 2 ^ 32 then Some (ucast n) else None)"
| "un_u32 _ = None"

text \<open>An \<open>Option\<close> field: \<open>null\<close> is \<open>None\<close>; a missing optional or defaulted field too.\<close>

definition un_opt :: "(json \<Rightarrow> 'a option) \<Rightarrow> json \<Rightarrow> 'a option option" where
  "un_opt f v = (case v of JNull \<Rightarrow> Some None | _ \<Rightarrow> map_option Some (f v))"

definition opt_field :: "(json \<Rightarrow> 'a option) \<Rightarrow> json \<Rightarrow> string \<Rightarrow> 'a option option" where
  "opt_field f v k = (case jget v k of None \<Rightarrow> Some None | Some x \<Rightarrow> un_opt f x)"

definition req_field :: "(json \<Rightarrow> 'a option) \<Rightarrow> json \<Rightarrow> string \<Rightarrow> 'a option" where
  "req_field f v k = Option.bind (jget v k) f"

fun un_list :: "(json \<Rightarrow> 'a option) \<Rightarrow> json \<Rightarrow> 'a list option" where
  "un_list f (JArr xs) = those (map f xs)"
| "un_list f _ = None"

lemma un_jstr [simp]: "un_str (jstr s) = Some s"
  by (simp add: jstr_def)

lemma un_ju64 [simp]: "un_u64 (ju64 n) = Some n"
  by (simp add: ju64_def)

lemma un_ju32 [simp]: "un_u32 (ju32 n) = Some n"
proof -
  have lt: "unat n < 2 ^ 32"
    using unsigned_less [where 'a = nat, of n] by simp
  have "unat (ucast n :: u64) = unat n"
    using lt by (simp add: unsigned_ucast_eq take_bit_nat_eq_self)
  moreover note lt
  moreover have "ucast (ucast n :: u64) = n" 
    using lt by (simp add: word_unat_eq_iff unsigned_ucast_eq take_bit_nat_eq_self take_bit_word_eq_self)
  ultimately show ?thesis by (simp add: ju32_def)
qed

lemma jstr_not_null [simp]: "jstr s \<noteq> JNull" "ju64 n \<noteq> JNull" "ju32 m \<noteq> JNull"
  by (simp_all add: jstr_def ju64_def ju32_def)

lemma un_opt_Some: "v \<noteq> JNull \<Longrightarrow> un_opt f v = map_option Some (f v)"
  by (cases v) (auto simp: un_opt_def)

lemma those_map_Some: "(\<And>x. x \<in> set xs \<Longrightarrow> f (g x) = Some x) \<Longrightarrow> those (map (f \<circ> g) xs) = Some xs"
  by (induction xs) auto

lemma un_list_roundtrip:
  "(\<And>x. x \<in> set xs \<Longrightarrow> f (g x) = Some x) \<Longrightarrow> un_list f (JArr (map g xs)) = Some xs"
  using those_map_Some [of xs f g] by simp

end
