(* ===== verification/Memory_Scope.thy ===== *)
theory Memory_Scope
  imports Json
begin

text \<open>
  \<open>crates/tasty-memory/src/scope.rs\<close>: the scope tokens stored in the \<open>scope\<close> column, their
  parser, and the validation of keys; with \<open>component_key\<close> of \<open>crates/tasty-agent/src/lib.rs\<close>,
  which builds the key of a record from a name its caller chose. An error text is kept as the
  constructor of its format string with the arguments that are formatted into it.
\<close>

section \<open>Scopes\<close>

datatype scope =
    GlobalScope
  | Account string
  | Window u64
  | Workspace u32
  | Surface u32

fun as_token :: "scope \<Rightarrow> string" where
  "as_token GlobalScope = ''global''"
| "as_token (Account ident) = ''account:'' @ ident"
| "as_token (Window n) = ''window:'' @ show_nat (unat n)"
| "as_token (Workspace n) = ''workspace:'' @ show_nat (unat n)"
| "as_token (Surface n) = ''surface:'' @ show_nat (unat n)"

text \<open>\<open>split_once(':')\<close>: the text before and after the first colon.\<close>

fun split_once :: "char \<Rightarrow> string \<Rightarrow> (string \<times> string) option" where
  "split_once d [] = None"
| "split_once d (c # cs) =
     (if c = d then Some ([], cs)
      else map_option (\<lambda>(a, b). (c # a, b)) (split_once d cs))"

definition parse_scope :: "string \<Rightarrow> string + scope" where
  "parse_scope s =
     (if s = ''global'' then Inr GlobalScope
      else case split_once CHR '':'' s of
        None \<Rightarrow> Inl s
      | Some (kind, value) \<Rightarrow>
          if kind = ''account'' then
            (if value = [] then Inl s
             else if length value > 128 then Inl s
             else Inr (Account value))
          else if kind = ''window'' then
            (case parse_uint 64 value of Some n \<Rightarrow> Inr (Window (of_nat n)) | None \<Rightarrow> Inl s)
          else if kind = ''workspace'' then
            (case parse_uint 32 value of Some n \<Rightarrow> Inr (Workspace (of_nat n)) | None \<Rightarrow> Inl s)
          else if kind = ''surface'' then
            (case parse_uint 32 value of Some n \<Rightarrow> Inr (Surface (of_nat n)) | None \<Rightarrow> Inl s)
          else Inl s)"

fun scope_kind :: "scope \<Rightarrow> string" where
  "scope_kind GlobalScope = ''global''"
| "scope_kind (Account _) = ''account''"
| "scope_kind (Window _) = ''window''"
| "scope_kind (Workspace _) = ''workspace''"
| "scope_kind (Surface _) = ''surface''"

text \<open>The account names the parser takes back: the tokens of the other scopes always parse.\<close>

fun account_ok :: "scope \<Rightarrow> bool" where
  "account_ok (Account ident) \<longleftrightarrow> ident \<noteq> [] \<and> length ident \<le> 128"
| "account_ok _ \<longleftrightarrow> True"

lemma split_once_append: "d \<notin> set a \<Longrightarrow> split_once d (a @ d # b) = Some (a, b)"
  by (induction a) auto

lemma split_once_tokens:
  "split_once CHR '':'' (''account:'' @ v) = Some (''account'', v)"
  "split_once CHR '':'' (''window:'' @ v) = Some (''window'', v)"
  "split_once CHR '':'' (''workspace:'' @ v) = Some (''workspace'', v)"
  "split_once CHR '':'' (''surface:'' @ v) = Some (''surface'', v)"
  by simp_all

lemma parse_show_word [simp]:
  "parse_uint 64 (show_nat (unat (n :: u64))) = Some (unat n)"
  "parse_uint 32 (show_nat (unat (k :: u32))) = Some (unat k)"
  using unsigned_less [where 'a = nat, of n] unsigned_less [where 'a = nat, of k]
  by (simp_all add: parse_show_nat)

lemma parse_scope_token: "account_ok sc \<Longrightarrow> parse_scope (as_token sc) = Inr sc"
  by (cases sc) (simp_all add: parse_scope_def split_once_tokens)

text \<open>Every scope whose account name is between 1 and 128 bytes long is read back from its
  token as the scope it was, and two such scopes never share a token.\<close>

theorem parse_scope_as_token:
  assumes "account_ok sc" and "account_ok sc'"
  shows "parse_scope (as_token sc) = Inr sc \<and> (as_token sc' = as_token sc \<longleftrightarrow> sc' = sc)"
  using parse_scope_token [OF assms(1)] parse_scope_token [OF assms(2)] by auto

theorem parse_scope_as_token_witness:
  "parse_scope (as_token (Account ''dana:ops'')) = Inr (Account ''dana:ops'') \<and>
   (as_token (Surface 7) = as_token (Account ''dana:ops'') \<longleftrightarrow> Surface 7 = Account ''dana:ops'')"
  by (rule parse_scope_as_token) simp_all

section \<open>Keys\<close>

definition max_key_len :: nat where "max_key_len = 256"

datatype key_error = EmptyKey | KeyTooLong nat | InvalidKeyChar nat char

definition key_char_ok :: "char \<Rightarrow> bool" where
  "key_char_ok c \<longleftrightarrow>
     (97 \<le> (of_char c :: nat) \<and> (of_char c :: nat) \<le> 122) \<or> is_digit c
     \<or> c = CHR ''.'' \<or> c = CHR ''_'' \<or> c = CHR ''-''"

fun first_bad :: "nat \<Rightarrow> string \<Rightarrow> (nat \<times> char) option" where
  "first_bad i [] = None"
| "first_bad i (c # cs) = (if key_char_ok c then first_bad (Suc i) cs else Some (i, c))"

definition validate_key :: "string \<Rightarrow> key_error + unit" where
  "validate_key key =
     (if key = [] then Inl EmptyKey
      else if length key > max_key_len then Inl (KeyTooLong (length key))
      else case first_bad 0 key of
             Some (i, c) \<Rightarrow> Inl (InvalidKeyChar i c)
           | None \<Rightarrow> Inr ())"

lemma first_bad_None: "first_bad i s = None \<longleftrightarrow> list_all key_char_ok s"
  by (induction s arbitrary: i) auto

lemma validate_key_ok_iff:
  "validate_key key = Inr () \<longleftrightarrow> key \<noteq> [] \<and> length key \<le> 256 \<and> list_all key_char_ok key"
  using first_bad_None [of 0 key]
  by (auto simp: validate_key_def max_key_len_def split: option.splits)

text \<open>The code points of a valid UTF-8 string, each as its bytes.\<close>

definition utf8_cont :: "char \<Rightarrow> bool" where
  "utf8_cont c \<longleftrightarrow> 128 \<le> (of_char c :: nat) \<and> (of_char c :: nat) < 192"

function utf8_chars :: "string \<Rightarrow> string list" where
  "utf8_chars [] = []"
| "utf8_chars (c # cs) = (c # takeWhile utf8_cont cs) # utf8_chars (dropWhile utf8_cont cs)"
  by pat_completeness auto
termination
  by (relation "measure length") (auto simp: length_dropWhile_le le_imp_less_Suc)

fun first_bad_char :: "nat \<Rightarrow> string list \<Rightarrow> (nat \<times> string) option" where
  "first_bad_char i [] = None"
| "first_bad_char i (c # cs) =
     (if validate_key c = Inr () then first_bad_char (Suc i) cs else Some (i, c))"

datatype component_reason =
    BadCharAt nat string
  | ComponentTooLong nat nat
  | KeyReason key_error

record component_error =
  ce_label :: string
  ce_value :: string
  ce_reason :: component_reason
  ce_budget :: nat

definition component_key :: "string \<Rightarrow> string \<Rightarrow> string \<Rightarrow> component_error + string" where
  "component_key prefix label value =
     (let key = prefix @ value in
      case validate_key key of
        Inr _ \<Rightarrow> Inr key
      | Inl full \<Rightarrow>
          let budget = max_key_len - length prefix;
              reason = (case first_bad_char 0 (utf8_chars value) of
                          Some (i, c) \<Rightarrow> BadCharAt i c
                        | None \<Rightarrow> if value \<noteq> [] then ComponentTooLong (length value) budget
                                else KeyReason full)
          in Inl \<lparr>ce_label = label, ce_value = value, ce_reason = reason, ce_budget = budget\<rparr>)"

lemma component_key_ok:
  "component_key p l v = Inr k \<longleftrightarrow> validate_key (p @ v) = Inr () \<and> k = p @ v"
  by (auto simp: component_key_def Let_def split: sum.splits)

lemma component_key_inj:
  "component_key p l v = Inr k \<Longrightarrow> component_key p l' v' = Inr k \<Longrightarrow> v = v'"
  by (auto simp: component_key_ok)

end
