(* ===== verification/Memory.thy ===== *)
theory Memory
  imports Memory_Scope
begin

text \<open>
  \<open>crates/tasty-memory\<close>: the key-value store every other component persists through
  (\<open>lib.rs\<close>, \<open>write.rs\<close>, \<open>batch.rs\<close>). A SQLite table is the list of its rows, with no two
  rows of one primary key; a query is the filter its \<open>WHERE\<close> clause writes out, sorted by its
  \<open>ORDER BY\<close>. Regular rows are shared and guarded by their owner, secret rows have the owner in
  their primary key. A write runs inside a transaction (\<open>in_unit\<close>, \<open>step\<close>): its bookkeeping
  (the quota counter, the change events) is published at the commit.

  Parameters, carried by the state: the text codec of \<open>serde_json\<close> (\<open>m_text\<close>) and the
  clock reading \<open>unix_ms_now\<close> (\<open>m_now\<close>). SQLite is taken to succeed: \<open>MemoryError::Db\<close>
  and the abort of a unit it causes are not modelled.
\<close>

section \<open>Values and errors\<close>

record json_text =
  jt_print :: "json \<Rightarrow> bytes option"
  jt_parse :: "bytes \<Rightarrow> json option"

datatype mem_value = Text string | Json json | Binary bytes

datatype content_error = NotUtf8 | BadJson | UnknownContentType string | NotSerializable

datatype owner_error = OwnerEmpty | OwnerTooLong nat

datatype mem_area = RegularArea | SecretArea

datatype mem_error =
    NotFound string string
  | AlreadyExists string string
  | CasConflict nat nat
  | OwnedByOther string
  | QuotaExceeded mem_area nat nat
  | InvalidKey key_error
  | InvalidScope string
  | InvalidOwner owner_error
  | InvalidContentType content_error
  | ValueTooLarge nat nat

fun content_type :: "mem_value \<Rightarrow> string" where
  "content_type (Text _) = ''text/plain''"
| "content_type (Json _) = ''application/json''"
| "content_type (Binary _) = ''application/octet-stream''"

fun to_bytes :: "json_text \<Rightarrow> mem_value \<Rightarrow> bytes option" where
  "to_bytes jt (Text s) = Some s"
| "to_bytes jt (Json v) = jt_print jt v"
| "to_bytes jt (Binary b) = Some b"

text \<open>\<open>String::from_utf8\<close>: the well-formed byte sequences of the Unicode standard.\<close>

definition byte_in :: "char \<Rightarrow> nat \<Rightarrow> nat \<Rightarrow> bool" where
  "byte_in c lo hi \<longleftrightarrow> lo \<le> of_char c \<and> of_char c \<le> hi"

fun utf8_step :: "bytes \<Rightarrow> bytes option" where
  "utf8_step [] = None"
| "utf8_step (a # s) =
     (if byte_in a 0 127 then Some s
      else if byte_in a 194 223 then
        (case s of b # r \<Rightarrow> if utf8_cont b then Some r else None | _ \<Rightarrow> None)
      else if byte_in a 224 239 then
        (case s of b # c # r \<Rightarrow>
           if utf8_cont b \<and> utf8_cont c
              \<and> (byte_in a 224 224 \<longrightarrow> byte_in b 160 191)
              \<and> (byte_in a 237 237 \<longrightarrow> byte_in b 128 159) then Some r else None
         | _ \<Rightarrow> None)
      else if byte_in a 240 244 then
        (case s of b # c # d # r \<Rightarrow>
           if utf8_cont b \<and> utf8_cont c \<and> utf8_cont d
              \<and> (byte_in a 240 240 \<longrightarrow> byte_in b 144 191)
              \<and> (byte_in a 244 244 \<longrightarrow> byte_in b 128 143) then Some r else None
         | _ \<Rightarrow> None)
      else None)"

lemma utf8_step_shorter: "utf8_step s = Some r \<Longrightarrow> length r < length s"
  by (cases s) (auto split: if_splits list.splits)

function utf8_valid :: "bytes \<Rightarrow> bool" where
  "utf8_valid s = (s = [] \<or> (case utf8_step s of None \<Rightarrow> False | Some r \<Rightarrow> utf8_valid r))"
  by pat_completeness auto
termination
  by (relation "measure length") (auto dest: utf8_step_shorter)

declare utf8_valid.simps [simp del]

definition from_db :: "json_text \<Rightarrow> string \<Rightarrow> bytes \<Rightarrow> mem_error + mem_value" where
  "from_db jt ct b =
     (if ct = ''text/plain'' then
        (if utf8_valid b then Inr (Text b) else Inl (InvalidContentType NotUtf8))
      else if ct = ''application/json'' then
        (case jt_parse jt b of
           Some v \<Rightarrow> Inr (Json v) | None \<Rightarrow> Inl (InvalidContentType BadJson))
      else if ct = ''application/octet-stream'' then Inr (Binary b)
      else Inl (InvalidContentType (UnknownContentType ct)))"

definition serialize_value :: "json_text \<Rightarrow> mem_value \<Rightarrow> mem_error + bytes" where
  "serialize_value jt v =
     (case to_bytes jt v of
        Some b \<Rightarrow> Inr b | None \<Rightarrow> Inl (InvalidContentType NotSerializable))"

section \<open>State\<close>

record mem_config =
  entry_max_bytes :: nat
  secret_quota_per_owner_bytes :: nat
  regular_quota_total_bytes :: nat

definition default_config :: mem_config where
  "default_config = \<lparr>entry_max_bytes = 1024 * 1024,
     secret_quota_per_owner_bytes = 10 * 1024 * 1024,
     regular_quota_total_bytes = 1024 * 1024 * 1024\<rparr>"

record mem_row =
  r_scope :: string
  r_key :: string
  r_value :: bytes
  r_ctype :: string
  r_created :: int
  r_updated :: int
  r_expires :: "int option"
  r_version :: nat
  r_owner :: string

record mem_entry =
  e_scope :: string
  e_key :: string
  e_value :: mem_value
  e_created :: int
  e_updated :: int
  e_expires :: "int option"
  e_version :: nat
  e_owner :: "string option"

datatype change_kind = Created | Updated | Deleted | Expired

record mem_change =
  c_scope :: string
  c_key :: string
  c_kind :: change_kind
  c_version :: "nat option"

record put_opts =
  po_expires :: "int option"
  po_cas :: "nat option"

definition default_put :: put_opts where
  "default_put = \<lparr>po_expires = None, po_cas = None\<rparr>"

record list_opts =
  lo_prefix :: "string option"
  lo_limit :: "u64 option"
  lo_since :: "int option"
  lo_until :: "int option"
  lo_offset :: "u64 option"

definition default_list :: list_opts where
  "default_list = \<lparr>lo_prefix = None, lo_limit = None, lo_since = None, lo_until = None,
     lo_offset = None\<rparr>"

record mem_tables =
  t_regular :: "mem_row list"
  t_secret :: "mem_row list"

record effect =
  ef_used :: "int option"
  ef_changes :: "mem_change list"
  ef_wrote :: bool

record unit_stage =
  us_used :: int
  us_changes :: "mem_change list"
  us_writes :: nat

record memory =
  m_tables :: mem_tables
  m_config :: mem_config
  m_pending :: "mem_change list"
  m_used :: int
  m_unit :: "unit_stage option"
  m_now :: int
  m_text :: json_text

abbreviation regular :: "memory \<Rightarrow> mem_row list" where
  "regular m \<equiv> t_regular (m_tables m)"

abbreviation secret :: "memory \<Rightarrow> mem_row list" where
  "secret m \<equiv> t_secret (m_tables m)"

definition open_in_memory :: "json_text \<Rightarrow> mem_config \<Rightarrow> int \<Rightarrow> memory" where
  "open_in_memory jt cfg now =
     \<lparr>m_tables = \<lparr>t_regular = [], t_secret = []\<rparr>, m_config = cfg, m_pending = [], m_used = 0,
      m_unit = None, m_now = now, m_text = jt\<rparr>"

definition host_owner :: string where "host_owner = ''_host''"

definition owner_can_modify :: "string \<Rightarrow> string \<Rightarrow> bool" where
  "owner_can_modify caller existing \<longleftrightarrow> caller = host_owner \<or> caller = existing"

definition validate_owner :: "string \<Rightarrow> mem_error + unit" where
  "validate_owner owner =
     (if owner = [] then Inl (InvalidOwner OwnerEmpty)
      else if length owner > 256 then Inl (InvalidOwner (OwnerTooLong (length owner)))
      else Inr ())"

definition check_entry_size :: "memory \<Rightarrow> nat \<Rightarrow> mem_error + unit" where
  "check_entry_size m n =
     (if n > entry_max_bytes (m_config m)
      then Inl (ValueTooLarge n (entry_max_bytes (m_config m))) else Inr ())"

text \<open>The cast of an \<open>i64\<close> to \<open>u64\<close>.\<close>

definition as_u64 :: "int \<Rightarrow> nat" where
  "as_u64 i = nat (i mod 2 ^ 64)"

definition row_bytes :: "mem_row list \<Rightarrow> int" where
  "row_bytes rows = sum_list (map (\<lambda>r. int (length (r_value r))) rows)"

definition is_expired_at :: "int \<Rightarrow> int \<Rightarrow> bool" where
  "is_expired_at expires now \<longleftrightarrow> expires \<le> now"

definition row_expired :: "int \<Rightarrow> mem_row \<Rightarrow> bool" where
  "row_expired now r \<longleftrightarrow> (case r_expires r of None \<Rightarrow> False | Some e \<Rightarrow> is_expired_at e now)"

definition find_row :: "string \<Rightarrow> string \<Rightarrow> mem_row list \<Rightarrow> mem_row option" where
  "find_row sc key rows = find (\<lambda>r. (r_scope r, r_key r) = (sc, key)) rows"

definition drop_row :: "string \<Rightarrow> string \<Rightarrow> mem_row list \<Rightarrow> mem_row list" where
  "drop_row sc key rows = filter (\<lambda>r. (r_scope r, r_key r) \<noteq> (sc, key)) rows"

definition update_row ::
  "string \<Rightarrow> string \<Rightarrow> (mem_row \<Rightarrow> mem_row) \<Rightarrow> mem_row list \<Rightarrow> mem_row list" where
  "update_row sc key f rows =
     map (\<lambda>r. if (r_scope r, r_key r) = (sc, key) then f r else r) rows"

end
