(* ===== verification/Memory_Write.thy ===== *)
theory Memory_Write
  imports Memory
begin

text \<open>
  The writes of the memory store: \<open>write.rs\<close> (the bodies, each inside an open transaction) and
  \<open>batch.rs\<close> (the transaction around one body, an execution unit of several writes, and a
  batch). The lemmas show the invariant of the store (one row per primary key, versions from
  one, a quota counter equal to the bytes on disk), that a rejected write changes nothing, and
  that a unit publishes its bookkeeping at the commit only.
\<close>

type_synonym 'a body = "int \<Rightarrow> mem_tables \<Rightarrow> int \<Rightarrow> mem_error + ('a \<times> effect \<times> mem_tables)"

section \<open>The bodies\<close>

definition secret_write :: effect where
  "secret_write = \<lparr>ef_used = None, ef_changes = [], ef_wrote = True\<rparr>"

definition expired_bytes :: "int \<Rightarrow> mem_row list \<Rightarrow> int" where
  "expired_bytes now rows = row_bytes (filter (row_expired now) rows)"

definition live_or_expired :: "int \<Rightarrow> mem_row option \<Rightarrow> mem_row option \<times> bool" where
  "live_or_expired now row =
     (case row of
        Some r \<Rightarrow> if row_expired now r then (None, True) else (Some r, False)
      | None \<Rightarrow> (None, False))"

definition row_size :: "mem_row option \<Rightarrow> int" where
  "row_size row = (case row of Some r \<Rightarrow> int (length (r_value r)) | None \<Rightarrow> 0)"

text \<open>The row an \<open>INSERT\<close> adds and the row an \<open>UPDATE\<close> leaves.\<close>

definition fresh_row ::
  "string \<Rightarrow> string \<Rightarrow> bytes \<Rightarrow> string \<Rightarrow> int \<Rightarrow> put_opts \<Rightarrow> string \<Rightarrow> mem_row" where
  "fresh_row sc key b ct now opts owner =
     \<lparr>r_scope = sc, r_key = key, r_value = b, r_ctype = ct, r_created = now, r_updated = now,
      r_expires = po_expires opts, r_version = 1, r_owner = owner\<rparr>"

definition rewrite_row ::
  "bytes \<Rightarrow> string \<Rightarrow> int \<Rightarrow> put_opts \<Rightarrow> nat \<Rightarrow> mem_row \<Rightarrow> mem_row" where
  "rewrite_row b ct now opts v r =
     r\<lparr>r_value := b, r_ctype := ct, r_updated := now, r_expires := po_expires opts,
       r_version := v\<rparr>"

text \<open>The quota check of \<open>put_regular_rows\<close>: only over the limit are expired rows discounted.\<close>

definition check_regular_quota ::
  "int \<Rightarrow> mem_row list \<Rightarrow> nat \<Rightarrow> string \<Rightarrow> string \<Rightarrow> int \<Rightarrow> mem_error + unit" where
  "check_regular_quota now rows quota sc key projected =
     (if as_u64 projected > quota then
        (let live = projected - expired_bytes now (drop_row sc key rows)
         in if as_u64 live > quota
            then Inl (QuotaExceeded RegularArea (nat (max live 0)) quota)
            else Inr ())
      else Inr ())"

definition put_regular_rows ::
  "nat \<Rightarrow> string \<Rightarrow> string \<Rightarrow> string \<Rightarrow> bytes \<Rightarrow> string \<Rightarrow> put_opts \<Rightarrow> nat body" where
  "put_regular_rows quota owner sc key b ct opts now t used_before =
     (let rows = t_regular t;
          row = find_row sc key rows;
          (existing, expired) = live_or_expired now row;
          projected = used_before - row_size row + int (length b);
          done = (\<lambda>v chs rows'. Inr (v,
            \<lparr>ef_used = Some projected, ef_changes = chs, ef_wrote = True\<rparr>,
            t\<lparr>t_regular := rows'\<rparr>));
          create = (\<lambda>rows0 chs. done 1
            (chs @ [\<lparr>c_scope = sc, c_key = key, c_kind = Created, c_version = Some 1\<rparr>])
            (rows0 @ [fresh_row sc key b ct now opts owner]))
      in sbind (check_regular_quota now rows quota sc key projected) (\<lambda>_.
         case existing of
           None \<Rightarrow>
             (case po_cas opts of
                Some expected \<Rightarrow> Inl (CasConflict expected 0)
              | None \<Rightarrow>
                  if expired
                  then create (drop_row sc key rows)
                    [\<lparr>c_scope = sc, c_key = key, c_kind = Expired, c_version = None\<rparr>]
                  else create rows [])
         | Some r \<Rightarrow>
             (if po_cas opts \<noteq> None \<and> po_cas opts \<noteq> Some (r_version r)
              then Inl (CasConflict (the (po_cas opts)) (r_version r))
              else if \<not> owner_can_modify owner (r_owner r) then Inl (OwnedByOther (r_owner r))
              else let v = r_version r + 1 in
                done v [\<lparr>c_scope = sc, c_key = key, c_kind = Updated, c_version = Some v\<rparr>]
                  (update_row sc key (rewrite_row b ct now opts v) rows))))"

definition delete_regular_rows ::
  "string \<Rightarrow> string \<Rightarrow> string \<Rightarrow> nat option \<Rightarrow> unit body" where
  "delete_regular_rows owner sc key cas now t used_before =
     (case find_row sc key (t_regular t) of
        None \<Rightarrow> Inl (NotFound sc key)
      | Some r \<Rightarrow>
          (if cas \<noteq> None \<and> cas \<noteq> Some (r_version r)
           then Inl (CasConflict (the cas) (r_version r))
           else if \<not> owner_can_modify owner (r_owner r) then Inl (OwnedByOther (r_owner r))
           else Inr ((),
             \<lparr>ef_used = Some (max (used_before - row_size (Some r)) 0),
              ef_changes = [\<lparr>c_scope = sc, c_key = key, c_kind = Deleted, c_version = None\<rparr>],
              ef_wrote = True\<rparr>,
             t\<lparr>t_regular := drop_row sc key (t_regular t)\<rparr>)))"

text \<open>Secret rows: the owner is part of the primary key.\<close>

definition find_secret :: "string \<Rightarrow> string \<Rightarrow> string \<Rightarrow> mem_row list \<Rightarrow> mem_row option" where
  "find_secret owner sc key rows = find (\<lambda>r. (r_owner r, r_scope r, r_key r) = (owner, sc, key)) rows"

definition drop_secret :: "string \<Rightarrow> string \<Rightarrow> string \<Rightarrow> mem_row list \<Rightarrow> mem_row list" where
  "drop_secret owner sc key rows =
     filter (\<lambda>r. (r_owner r, r_scope r, r_key r) \<noteq> (owner, sc, key)) rows"

definition update_secret ::
  "string \<Rightarrow> string \<Rightarrow> string \<Rightarrow> (mem_row \<Rightarrow> mem_row) \<Rightarrow> mem_row list \<Rightarrow> mem_row list" where
  "update_secret owner sc key f rows =
     map (\<lambda>r. if (r_owner r, r_scope r, r_key r) = (owner, sc, key) then f r else r) rows"

definition put_secret_rows ::
  "nat \<Rightarrow> string \<Rightarrow> string \<Rightarrow> string \<Rightarrow> bytes \<Rightarrow> string \<Rightarrow> put_opts \<Rightarrow> nat body" where
  "put_secret_rows quota owner sc key b ct opts now t used_before =
     (let rows = t_secret t;
          (existing, expired) = live_or_expired now (find_secret owner sc key rows);
          current_used = row_bytes (filter (\<lambda>r. r_owner r = owner \<and> \<not> row_expired now r) rows);
          projected = current_used - row_size existing + int (length b)
      in if as_u64 projected > quota
         then Inl (QuotaExceeded SecretArea (nat (max projected 0)) quota)
         else case existing of
           None \<Rightarrow>
             (case po_cas opts of
                Some expected \<Rightarrow> Inl (CasConflict expected 0)
              | None \<Rightarrow> Inr (1, secret_write, t\<lparr>t_secret :=
                  (if expired then drop_secret owner sc key rows else rows) @
                  [fresh_row sc key b ct now opts owner]\<rparr>))
         | Some r \<Rightarrow>
             (if po_cas opts \<noteq> None \<and> po_cas opts \<noteq> Some (r_version r)
              then Inl (CasConflict (the (po_cas opts)) (r_version r))
              else let v = r_version r + 1 in
                Inr (v, secret_write, t\<lparr>t_secret :=
                  update_secret owner sc key (rewrite_row b ct now opts v) rows\<rparr>)))"

definition delete_secret_rows ::
  "string \<Rightarrow> string \<Rightarrow> string \<Rightarrow> nat option \<Rightarrow> unit body" where
  "delete_secret_rows owner sc key cas now t used_before =
     (case find_secret owner sc key (t_secret t) of
        None \<Rightarrow> Inl (NotFound sc key)
      | Some r \<Rightarrow>
          (if cas \<noteq> None \<and> cas \<noteq> Some (r_version r)
           then Inl (CasConflict (the cas) (r_version r))
           else Inr ((), secret_write, t\<lparr>t_secret := drop_secret owner sc key (t_secret t)\<rparr>)))"

record purge_stats =
  pg_regular :: nat
  pg_secret :: nat

definition purge_expired_rows :: "purge_stats body" where
  "purge_expired_rows now t used_before =
     (let dead = filter (row_expired now) (t_regular t);
          dead_secret = filter (row_expired now) (t_secret t);
          live = filter (\<lambda>r. \<not> row_expired now r) (t_regular t)
      in Inr (\<lparr>pg_regular = length dead, pg_secret = length dead_secret\<rparr>,
         \<lparr>ef_used = Some (row_bytes live),
          ef_changes = map (\<lambda>r. \<lparr>c_scope = r_scope r, c_key = r_key r, c_kind = Expired,
            c_version = None\<rparr>) dead,
          ef_wrote = (length dead + length dead_secret > 0)\<rparr>,
         \<lparr>t_regular = live, t_secret = filter (\<lambda>r. \<not> row_expired now r) (t_secret t)\<rparr>))"

definition purge_scope_rows :: "string \<Rightarrow> purge_stats body" where
  "purge_scope_rows token now t used_before =
     (let gone = filter (\<lambda>r. r_scope r = token) (t_regular t);
          gone_secret = filter (\<lambda>r. r_scope r = token) (t_secret t);
          kept = filter (\<lambda>r. r_scope r \<noteq> token) (t_regular t)
      in Inr (\<lparr>pg_regular = length gone, pg_secret = length gone_secret\<rparr>,
         \<lparr>ef_used = Some (row_bytes kept),
          ef_changes = map (\<lambda>r. \<lparr>c_scope = token, c_key = r_key r, c_kind = Deleted,
            c_version = None\<rparr>) gone,
          ef_wrote = (length gone + length gone_secret > 0)\<rparr>,
         \<lparr>t_regular = kept, t_secret = filter (\<lambda>r. r_scope r \<noteq> token) (t_secret t)\<rparr>))"

section \<open>Transactions\<close>

text \<open>What a body's error does to the unit around it.\<close>

datatype body_err = Rollback | KeepApplied

definition stage_effect :: "effect \<Rightarrow> unit_stage \<Rightarrow> unit_stage" where
  "stage_effect ef st =
     \<lparr>us_used = (case ef_used ef of Some u \<Rightarrow> u | None \<Rightarrow> us_used st),
      us_changes = us_changes st @ ef_changes ef,
      us_writes = us_writes st + (if ef_wrote ef then 1 else 0)\<rparr>"

text \<open>One body in an open unit, under its own savepoint: a rejected body leaves no trace.\<close>

definition step :: "'a body \<Rightarrow> (memory, mem_error, 'a) op" where
  "step body m =
     (let used = (case m_unit m of Some st \<Rightarrow> us_used st | None \<Rightarrow> m_used m) in
      case body (m_now m) (m_tables m) used of
        Inl e \<Rightarrow> (Inl e, m)
      | Inr (v, ef, t') \<Rightarrow>
          (Inr v, m\<lparr>m_tables := t', m_unit := map_option (stage_effect ef) (m_unit m)\<rparr>))"

definition begin_unit :: "memory \<Rightarrow> memory" where
  "begin_unit m = m\<lparr>m_unit := Some \<lparr>us_used = m_used m, us_changes = [], us_writes = 0\<rparr>\<rparr>"

definition commit_unit :: "memory \<Rightarrow> memory" where
  "commit_unit m =
     (case m_unit m of
        None \<Rightarrow> m
      | Some st \<Rightarrow> m\<lparr>m_unit := None, m_used := us_used st,
                    m_pending := m_pending m @ us_changes st\<rparr>)"

text \<open>Aborting a unit brings the tables back to what they were when it was opened.\<close>

definition in_unit :: "body_err \<Rightarrow> (memory, mem_error, 'a) op \<Rightarrow> (memory, mem_error, 'a) op" where
  "in_unit on_err body m =
     (if m_unit m \<noteq> None then body m
      else case body (begin_unit m) of
             (Inr v, m') \<Rightarrow> (Inr v, commit_unit m')
           | (Inl e, m') \<Rightarrow>
               (case on_err of Rollback \<Rightarrow> (Inl e, m) | KeepApplied \<Rightarrow> (Inl e, commit_unit m')))"

definition write_step :: "'a body \<Rightarrow> (memory, mem_error, 'a) op" where
  "write_step body m = (if m_unit m \<noteq> None then step body m else in_unit Rollback (step body) m)"

definition run_unit :: "(memory, mem_error, 'a) op \<Rightarrow> (memory, mem_error, 'a) op" where
  "run_unit body = in_unit KeepApplied body"

section \<open>The public writes\<close>

definition mem_put ::
  "string \<Rightarrow> scope \<Rightarrow> string \<Rightarrow> mem_value \<Rightarrow> put_opts \<Rightarrow> (memory, mem_error, nat) op" where
  "mem_put owner sc key value opts m =
     (case sbind (validate_owner owner) (\<lambda>_.
           sbind (map_err InvalidKey (validate_key key)) (\<lambda>_.
           sbind (serialize_value (m_text m) value) (\<lambda>b.
           sbind (check_entry_size m (length b)) (\<lambda>_. Inr b)))) of
        Inl e \<Rightarrow> (Inl e, m)
      | Inr b \<Rightarrow> write_step (put_regular_rows (regular_quota_total_bytes (m_config m)) owner
                    (as_token sc) key b (content_type value) opts) m)"

definition mem_delete ::
  "string \<Rightarrow> scope \<Rightarrow> string \<Rightarrow> nat option \<Rightarrow> (memory, mem_error, unit) op" where
  "mem_delete owner sc key cas m =
     (case sbind (validate_owner owner) (\<lambda>_. map_err InvalidKey (validate_key key)) of
        Inl e \<Rightarrow> (Inl e, m)
      | Inr _ \<Rightarrow> write_step (delete_regular_rows owner (as_token sc) key cas) m)"

definition mem_put_secret ::
  "string \<Rightarrow> scope \<Rightarrow> string \<Rightarrow> mem_value \<Rightarrow> put_opts \<Rightarrow> (memory, mem_error, nat) op" where
  "mem_put_secret owner sc key value opts m =
     (case sbind (validate_owner owner) (\<lambda>_.
           sbind (map_err InvalidKey (validate_key key)) (\<lambda>_.
           sbind (serialize_value (m_text m) value) (\<lambda>b.
           sbind (check_entry_size m (length b)) (\<lambda>_. Inr b)))) of
        Inl e \<Rightarrow> (Inl e, m)
      | Inr b \<Rightarrow> write_step (put_secret_rows (secret_quota_per_owner_bytes (m_config m)) owner
                    (as_token sc) key b (content_type value) opts) m)"

definition mem_delete_secret ::
  "string \<Rightarrow> scope \<Rightarrow> string \<Rightarrow> nat option \<Rightarrow> (memory, mem_error, unit) op" where
  "mem_delete_secret owner sc key cas m =
     (case sbind (validate_owner owner) (\<lambda>_. map_err InvalidKey (validate_key key)) of
        Inl e \<Rightarrow> (Inl e, m)
      | Inr _ \<Rightarrow> write_step (delete_secret_rows owner (as_token sc) key cas) m)"

definition mem_purge_expired :: "(memory, mem_error, purge_stats) op" where
  "mem_purge_expired = write_step purge_expired_rows"

definition mem_purge_scope :: "scope \<Rightarrow> (memory, mem_error, purge_stats) op" where
  "mem_purge_scope sc = write_step (purge_scope_rows (as_token sc))"

definition take_pending_changes :: "memory \<Rightarrow> mem_change list \<times> memory" where
  "take_pending_changes m = (m_pending m, m\<lparr>m_pending := []\<rparr>)"

section \<open>Batches\<close>

datatype write_op =
    Put string scope string mem_value put_opts
  | Delete string scope string "nat option"
  | PutSecret string scope string mem_value put_opts
  | DeleteSecret string scope string "nat option"

datatype write_output = Version nat | DeletedOut

datatype batch_mode = Atomic | Independent

record batch_failure =
  bf_index :: "nat option"
  bf_error :: mem_error

fun apply_op :: "write_op \<Rightarrow> (memory, mem_error, write_output) op" where
  "apply_op (Put owner sc key value opts) = bnd (mem_put owner sc key value opts) (\<lambda>v. ret (Version v))"
| "apply_op (Delete owner sc key cas) = bnd (mem_delete owner sc key cas) (\<lambda>_. ret DeletedOut)"
| "apply_op (PutSecret owner sc key value opts) =
     bnd (mem_put_secret owner sc key value opts) (\<lambda>v. ret (Version v))"
| "apply_op (DeleteSecret owner sc key cas) =
     bnd (mem_delete_secret owner sc key cas) (\<lambda>_. ret DeletedOut)"

text \<open>The loop of \<open>batch_body\<close>: the error carries the index of the request that stopped it.\<close>

fun batch_loop :: "batch_mode \<Rightarrow> nat \<Rightarrow> write_op list \<Rightarrow>
    (memory, nat \<times> mem_error, (mem_error + write_output) list) op" where
  "batch_loop mode i [] m = (Inr [], m)"
| "batch_loop mode i (op # ops) m =
     (case apply_op op m of
        (Inl e, m') \<Rightarrow>
          (case mode of
             Atomic \<Rightarrow> (Inl (i, e), m')
           | Independent \<Rightarrow>
               (case batch_loop mode (Suc i) ops m' of
                  (Inr outs, m'') \<Rightarrow> (Inr (Inl e # outs), m'')
                | (Inl f, m'') \<Rightarrow> (Inl f, m'')))
      | (Inr out, m') \<Rightarrow>
          (case batch_loop mode (Suc i) ops m' of
             (Inr outs, m'') \<Rightarrow> (Inr (Inr out # outs), m'')
           | (Inl f, m'') \<Rightarrow> (Inl f, m'')))"

text \<open>
  A batch of its own is a unit that is rolled back on an error. A batch that joins an open unit
  is atomic by a savepoint of its own, so an atomic failure takes back the batch's writes and
  their bookkeeping alone.
\<close>

definition write_batch :: "batch_mode \<Rightarrow> write_op list \<Rightarrow>
    (memory, batch_failure, (mem_error + write_output) list) op" where
  "write_batch mode ops m =
     (if m_unit m \<noteq> None then
        (case batch_loop mode 0 ops m of
           (Inr outs, m') \<Rightarrow> (Inr outs, m')
         | (Inl (i, e), m') \<Rightarrow> (Inl \<lparr>bf_index = Some i, bf_error = e\<rparr>, m))
      else
        (case batch_loop mode 0 ops (begin_unit m) of
           (Inr outs, m') \<Rightarrow> (Inr outs, commit_unit m')
         | (Inl (i, e), m') \<Rightarrow> (Inl \<lparr>bf_index = Some i, bf_error = e\<rparr>, m)))"

section \<open>Rows\<close>

definition row_pk :: "mem_row \<Rightarrow> string \<times> string" where
  "row_pk r = (r_scope r, r_key r)"

definition secret_pk :: "mem_row \<Rightarrow> string \<times> string \<times> string" where
  "secret_pk r = (r_owner r, r_scope r, r_key r)"

lemma find_row_pk: "find_row sc key rows = find (\<lambda>r. row_pk r = (sc, key)) rows"
  by (simp add: find_row_def row_pk_def)

lemma find_row_SomeD:
  "find_row sc key rows = Some r \<Longrightarrow> r \<in> set rows \<and> r_scope r = sc \<and> r_key r = key"
  by (auto simp: find_row_def find_Some_iff)

lemma find_row_None: "find_row sc key rows = None \<longleftrightarrow> (sc, key) \<notin> row_pk ` set rows"
  by (auto simp: find_row_def find_None_iff row_pk_def image_iff)

lemma find_row_drop:
  "find_row sc' key' (drop_row sc key rows) =
     (if (sc', key') = (sc, key) then None else find_row sc' key' rows)"
  by (induction rows) (auto simp: find_row_def drop_row_def)

lemma find_row_update:
  assumes "\<And>r. row_pk (f r) = row_pk r"
  shows "find_row sc' key' (update_row sc key f rows) =
     (if (sc', key') = (sc, key) then map_option f (find_row sc' key' rows)
      else find_row sc' key' rows)"
  using assms by (induction rows) (auto simp: find_row_def update_row_def row_pk_def)

lemma find_row_snoc:
  "find_row sc' key' (rows @ [r]) =
     (case find_row sc' key' rows of
        Some r' \<Rightarrow> Some r' | None \<Rightarrow> if row_pk r = (sc', key') then Some r else None)"
  by (auto simp: find_row_def find_append row_pk_def split: option.splits)

lemma row_bytes_simps [simp]:
  "row_bytes [] = 0" "row_bytes (r # rows) = int (length (r_value r)) + row_bytes rows"
  "row_bytes (rows @ rows') = row_bytes rows + row_bytes rows'"
  by (simp_all add: row_bytes_def)

lemma row_bytes_nonneg: "0 \<le> row_bytes rows"
  by (induction rows) auto

lemma drop_row_absent: "(sc, key) \<notin> row_pk ` set rows \<Longrightarrow> drop_row sc key rows = rows"
  by (induction rows) (auto simp: drop_row_def row_pk_def)

lemma update_row_absent: "(sc, key) \<notin> row_pk ` set rows \<Longrightarrow> update_row sc key f rows = rows"
  by (induction rows) (auto simp: update_row_def row_pk_def)

lemma row_bytes_drop:
  "distinct (map row_pk rows) \<Longrightarrow>
   row_bytes (drop_row sc key rows) = row_bytes rows - row_size (find_row sc key rows)"
proof (induction rows)
  case (Cons r rows)
  show ?case
  proof (cases "row_pk r = (sc, key)")
    case True
    with Cons.prems have "drop_row sc key rows = rows" by (intro drop_row_absent) auto
    with True show ?thesis by (simp add: drop_row_def find_row_def row_pk_def row_size_def)
  next
    case False
    with Cons show ?thesis by (auto simp: drop_row_def find_row_def row_pk_def)
  qed
qed (simp add: drop_row_def find_row_def row_size_def)

lemma row_bytes_update:
  assumes "\<And>r. r_value (f r) = b"
  shows "distinct (map row_pk rows) \<Longrightarrow> find_row sc key rows = Some r0 \<Longrightarrow>
   row_bytes (update_row sc key f rows) =
     row_bytes rows - int (length (r_value r0)) + int (length b)"
proof (induction rows)
  case (Cons r rows)
  show ?case
  proof (cases "row_pk r = (sc, key)")
    case True
    with Cons.prems have "update_row sc key f rows = rows" by (intro update_row_absent) auto
    with True Cons.prems assms show ?thesis
      by (auto simp: update_row_def find_row_def row_pk_def)
  next
    case False
    with Cons show ?thesis by (auto simp: update_row_def find_row_def row_pk_def)
  qed
qed (simp add: find_row_def)

lemma map_pk_update: "(\<And>r. row_pk (f r) = row_pk r) \<Longrightarrow> map row_pk (update_row sc key f rows) = map row_pk rows"
  by (simp add: update_row_def)

lemma set_drop_row: "row_pk ` set (drop_row sc key rows) = row_pk ` set rows - {(sc, key)}"
  by (auto simp: drop_row_def row_pk_def)

lemma distinct_drop_row: "distinct (map row_pk rows) \<Longrightarrow> distinct (map row_pk (drop_row sc key rows))"
  by (simp add: drop_row_def distinct_map_filter_key)

lemma in_update_row: "r \<in> set (update_row sc key f rows) \<Longrightarrow> r \<in> set rows \<or> (\<exists>r0. r = f r0)"
  by (auto simp: update_row_def)

lemma in_drop_row: "r \<in> set (drop_row sc key rows) \<Longrightarrow> r \<in> set rows"
  by (simp add: drop_row_def)

section \<open>The invariant\<close>

text \<open>
  One row per primary key in either table, versions that count from one, and a counter that is
  the bytes of the regular values.
\<close>

definition tables_wf :: "mem_tables \<Rightarrow> int \<Rightarrow> bool" where
  "tables_wf t used \<longleftrightarrow>
     distinct (map row_pk (t_regular t)) \<and> distinct (map secret_pk (t_secret t))
     \<and> (\<forall>r \<in> set (t_regular t) \<union> set (t_secret t). 1 \<le> r_version r)
     \<and> used = row_bytes (t_regular t)"

definition mem_wf :: "memory \<Rightarrow> bool" where
  "mem_wf m \<longleftrightarrow>
     tables_wf (m_tables m) (case m_unit m of Some st \<Rightarrow> us_used st | None \<Rightarrow> m_used m)"

definition new_used :: "effect \<Rightarrow> int \<Rightarrow> int" where
  "new_used ef used = (case ef_used ef of Some u \<Rightarrow> u | None \<Rightarrow> used)"

definition body_keeps :: "'a body \<Rightarrow> bool" where
  "body_keeps body \<longleftrightarrow>
     (\<forall>now t used v ef t'. tables_wf t used \<longrightarrow> body now t used = Inr (v, ef, t')
        \<longrightarrow> tables_wf t' (new_used ef used))"

lemma body_keepsI:
  "(\<And>now t used v ef t'. tables_wf t used \<Longrightarrow> body now t used = Inr (v, ef, t') \<Longrightarrow>
     tables_wf t' (new_used ef used)) \<Longrightarrow> body_keeps body"
  by (auto simp: body_keeps_def)

lemma row_pk_fresh [simp]:
  "row_pk (fresh_row sc key b ct now opts owner) = (sc, key)"
  "secret_pk (fresh_row sc key b ct now opts owner) = (owner, sc, key)"
  "r_value (fresh_row sc key b ct now opts owner) = b"
  "r_version (fresh_row sc key b ct now opts owner) = 1"
  by (simp_all add: fresh_row_def row_pk_def secret_pk_def)

lemma row_pk_rewrite [simp]:
  "row_pk (rewrite_row b ct now opts v r) = row_pk r"
  "secret_pk (rewrite_row b ct now opts v r) = secret_pk r"
  "r_value (rewrite_row b ct now opts v r) = b"
  "r_version (rewrite_row b ct now opts v r) = v"
  by (simp_all add: rewrite_row_def row_pk_def secret_pk_def)

text \<open>The two ways a regular put is accepted: a new row, or the live row rewritten.\<close>

lemma put_regular_rows_cases:
  assumes "put_regular_rows quota owner sc key b ct opts now t used = Inr (v, ef, t')"
  obtains
    (fresh) "find_row sc key (t_regular t) = None \<or>
        (\<exists>r0. find_row sc key (t_regular t) = Some r0 \<and> row_expired now r0)"
      "po_cas opts = None" "v = 1"
      "t' = t\<lparr>t_regular := drop_row sc key (t_regular t) @ [fresh_row sc key b ct now opts owner]\<rparr>"
      "ef_used ef = Some (used - row_size (find_row sc key (t_regular t)) + int (length b))"
  | (rewrite) r0 where "find_row sc key (t_regular t) = Some r0" "\<not> row_expired now r0"
      "po_cas opts = None \<or> po_cas opts = Some (r_version r0)"
      "owner_can_modify owner (r_owner r0)" "v = r_version r0 + 1"
      "t' = t\<lparr>t_regular := update_row sc key (rewrite_row b ct now opts v) (t_regular t)\<rparr>"
      "ef_used ef = Some (used - row_size (find_row sc key (t_regular t)) + int (length b))"
proof (cases "find_row sc key (t_regular t)")
  case None
  then have "drop_row sc key (t_regular t) = t_regular t"
    by (simp add: drop_row_absent find_row_None)
  with None assms show thesis
    by (intro fresh) (auto simp: put_regular_rows_def Let_def live_or_expired_def sbind_def
        split: sum.splits option.splits)
next
  case (Some r0)
  show thesis
  proof (cases "row_expired now r0")
    case True
    with Some assms show thesis
      by (intro fresh) (auto simp: put_regular_rows_def Let_def live_or_expired_def sbind_def
          split: sum.splits option.splits)
  next
    case False
    with Some assms show thesis
      by (intro rewrite [of r0]) (auto simp: put_regular_rows_def Let_def live_or_expired_def
          sbind_def split: sum.splits option.splits if_splits)
  qed
qed

text \<open>What it leaves: the row it wrote, and every other row as it was.\<close>

lemma put_regular_rows_find:
  assumes "put_regular_rows quota owner sc key b ct opts now t used = Inr (v, ef, t')"
  shows "\<exists>r. r_value r = b \<and> r_ctype r = ct \<and> r_expires r = po_expires opts \<and> r_version r = v \<and>
    r_updated r = now \<and> r_scope r = sc \<and> r_key r = key \<and>
    (\<forall>sc' key'. find_row sc' key' (t_regular t') =
      (if (sc', key') = (sc, key) then Some r else find_row sc' key' (t_regular t)))"
  using assms
proof (cases rule: put_regular_rows_cases)
  case fresh
  then show ?thesis
    by (intro exI [of _ "fresh_row sc key b ct now opts owner"])
      (auto simp: find_row_snoc find_row_drop fresh_row_def row_pk_def split: option.splits)
next
  case (rewrite r0)
  then show ?thesis
    using find_row_SomeD [OF rewrite(1)]
    by (intro exI [of _ "rewrite_row b ct now opts v r0"])
      (auto simp: find_row_update rewrite_row_def row_pk_def)
qed

lemma put_regular_rows_secret:
  "put_regular_rows quota owner sc key b ct opts now t used = Inr (v, ef, t') \<Longrightarrow>
   t_secret t' = t_secret t"
  by (elim put_regular_rows_cases) auto

lemma put_regular_rows_keeps: "body_keeps (put_regular_rows quota owner sc key b ct opts)"
proof (rule body_keepsI)
  fix now t used v ef t'
  assume wf: "tables_wf t used"
    and res: "put_regular_rows quota owner sc key b ct opts now t used = Inr (v, ef, t')"
  from wf have dist: "distinct (map row_pk (t_regular t))" by (simp add: tables_wf_def)
  from res show "tables_wf t' (new_used ef used)"
  proof (cases rule: put_regular_rows_cases)
    case fresh
    then show ?thesis using wf row_bytes_drop [OF dist, of sc key]
      by (auto simp: tables_wf_def new_used_def distinct_drop_row set_drop_row dest: in_drop_row)
  next
    case (rewrite r0)
    have "row_bytes (update_row sc key (rewrite_row b ct now opts v) (t_regular t)) =
        row_bytes (t_regular t) - int (length (r_value r0)) + int (length b)"
      by (rule row_bytes_update) (use dist rewrite in auto)
    with rewrite wf show ?thesis
      by (auto simp: tables_wf_def new_used_def map_pk_update row_size_def dest!: in_update_row)
  qed
qed

lemma delete_regular_rows_keeps: "body_keeps (delete_regular_rows owner sc key cas)"
proof (rule body_keepsI)
  fix now t used and v :: unit and ef t'
  assume wf: "tables_wf t used"
    and res: "delete_regular_rows owner sc key cas now t used = Inr (v, ef, t')"
  then obtain r where r: "find_row sc key (t_regular t) = Some r"
    "ef_used ef = Some (max (used - row_size (Some r)) 0)"
    "t' = t\<lparr>t_regular := drop_row sc key (t_regular t)\<rparr>"
    by (auto simp: delete_regular_rows_def split: option.splits if_splits)
  have "row_bytes (drop_row sc key (t_regular t)) = used - row_size (Some r)"
    using wf r(1) by (simp add: row_bytes_drop tables_wf_def)
  moreover from this have "0 \<le> used - row_size (Some r)"
    using row_bytes_nonneg [of "drop_row sc key (t_regular t)"] by simp
  ultimately show "tables_wf t' (new_used ef used)"
    using wf r by (auto simp: tables_wf_def new_used_def distinct_drop_row dest: in_drop_row)
qed

lemma distinct_filter_pk:
  "distinct (map secret_pk rows) \<Longrightarrow> distinct (map secret_pk (filter P rows))"
  "distinct (map row_pk rows') \<Longrightarrow> distinct (map row_pk (filter P rows'))"
  by (simp_all add: distinct_map_filter_key)

lemma find_secret_None:
  "find_secret owner sc key rows = None \<longleftrightarrow> (owner, sc, key) \<notin> secret_pk ` set rows"
  by (auto simp: find_secret_def find_None_iff secret_pk_def image_iff)

lemma set_drop_secret:
  "secret_pk ` set (drop_secret owner sc key rows) = secret_pk ` set rows - {(owner, sc, key)}"
  by (auto simp: drop_secret_def secret_pk_def)

lemma in_drop_secret: "r \<in> set (drop_secret owner sc key rows) \<Longrightarrow> r \<in> set rows"
  by (simp add: drop_secret_def)

lemma distinct_drop_secret:
  "distinct (map secret_pk rows) \<Longrightarrow> distinct (map secret_pk (drop_secret owner sc key rows))"
  by (simp add: drop_secret_def distinct_map_filter_key)

lemma in_update_secret:
  "r \<in> set (update_secret owner sc key f rows) \<Longrightarrow> r \<in> set rows \<or> (\<exists>r0. r = f r0)"
  by (auto simp: update_secret_def)

lemma map_pk_update_secret:
  "(\<And>r. secret_pk (f r) = secret_pk r) \<Longrightarrow>
   map secret_pk (update_secret owner sc key f rows) = map secret_pk rows"
  by (simp add: update_secret_def)

lemma put_secret_rows_cases:
  assumes "put_secret_rows quota owner sc key b ct opts now t used = Inr (v, ef, t')"
  obtains
    (fresh) rows0 where "rows0 = t_secret t \<and> find_secret owner sc key (t_secret t) = None \<or>
        rows0 = drop_secret owner sc key (t_secret t) \<and>
        (\<exists>r0. find_secret owner sc key (t_secret t) = Some r0 \<and> row_expired now r0)"
      "ef = secret_write" "t' = t\<lparr>t_secret := rows0 @ [fresh_row sc key b ct now opts owner]\<rparr>"
  | (rewrite) r0 where "find_secret owner sc key (t_secret t) = Some r0" "\<not> row_expired now r0"
      "v = r_version r0 + 1"
      "ef = secret_write"
      "t' = t\<lparr>t_secret := update_secret owner sc key (rewrite_row b ct now opts v) (t_secret t)\<rparr>"
proof (cases "find_secret owner sc key (t_secret t)")
  case None
  with assms show thesis
    by (intro fresh [of "t_secret t"]) (auto simp: put_secret_rows_def Let_def
        live_or_expired_def split: if_splits option.splits)
next
  case (Some r0)
  show thesis
  proof (cases "row_expired now r0")
    case True
    with Some assms show thesis
      by (intro fresh [of "drop_secret owner sc key (t_secret t)"])
        (auto simp: put_secret_rows_def Let_def live_or_expired_def split: if_splits option.splits)
  next
    case False
    with Some assms show thesis
      by (intro rewrite [of r0]) (auto simp: put_secret_rows_def Let_def live_or_expired_def
          split: if_splits option.splits)
  qed
qed

lemma put_secret_rows_keeps: "body_keeps (put_secret_rows quota owner sc key b ct opts)"
proof (rule body_keepsI)
  fix now t used v ef t'
  assume wf: "tables_wf t used"
    and res: "put_secret_rows quota owner sc key b ct opts now t used = Inr (v, ef, t')"
  from res show "tables_wf t' (new_used ef used)"
  proof (cases rule: put_secret_rows_cases)
    case (fresh rows0)
    have "distinct (map secret_pk rows0)" "set rows0 \<subseteq> set (t_secret t)"
      using fresh(1) wf by (auto simp: tables_wf_def distinct_drop_secret dest: in_drop_secret)
    moreover have "(owner, sc, key) \<notin> secret_pk ` set rows0"
      using fresh(1) by (elim disjE) (auto simp: set_drop_secret find_secret_None)
    ultimately show ?thesis using fresh wf
      by (auto simp: tables_wf_def new_used_def secret_write_def)
  next
    case (rewrite r0)
    with wf show ?thesis
      by (auto simp: tables_wf_def new_used_def secret_write_def map_pk_update_secret
          dest!: in_update_secret)
  qed
qed

lemma delete_secret_rows_keeps: "body_keeps (delete_secret_rows owner sc key cas)"
  by (rule body_keepsI)
    (auto simp: delete_secret_rows_def tables_wf_def new_used_def secret_write_def drop_secret_def
      distinct_filter_pk split: option.splits if_splits)

lemma purge_expired_rows_keeps: "body_keeps purge_expired_rows"
  by (rule body_keepsI)
    (auto simp: purge_expired_rows_def Let_def tables_wf_def new_used_def distinct_filter_pk)

lemma purge_scope_rows_keeps: "body_keeps (purge_scope_rows token)"
  by (rule body_keepsI)
    (auto simp: purge_scope_rows_def Let_def tables_wf_def new_used_def distinct_filter_pk)

lemmas bodies_keep [intro] =
  put_regular_rows_keeps delete_regular_rows_keeps put_secret_rows_keeps
  delete_secret_rows_keeps purge_expired_rows_keeps purge_scope_rows_keeps

section \<open>Transactions keep the invariant and publish at the commit\<close>

text \<open>A write of its own: all of the body's effect, or nothing.\<close>

lemma write_step_alone:
  "m_unit m = None \<Longrightarrow> write_step body m =
     (case body (m_now m) (m_tables m) (m_used m) of
        Inl e \<Rightarrow> (Inl e, m)
      | Inr (v, ef, t') \<Rightarrow>
          (Inr v, m\<lparr>m_tables := t', m_used := new_used ef (m_used m),
                    m_pending := m_pending m @ ef_changes ef\<rparr>))"
  by (auto simp: write_step_def in_unit_def begin_unit_def step_def commit_unit_def
      stage_effect_def new_used_def split: sum.splits prod.splits option.splits)

lemma step_wf:
  assumes "body_keeps body" "mem_wf m" "m_unit m = Some st"
  shows "mem_wf (snd (step body m))"
proof (cases "body (m_now m) (m_tables m) (us_used st)")
  case (Inl e)
  with assms show ?thesis by (simp add: step_def Let_def)
next
  case (Inr res)
  obtain v ef t' where res: "res = (v, ef, t')" by (cases res)
  from assms Inr res have "tables_wf t' (new_used ef (us_used st))"
    by (auto simp: body_keeps_def mem_wf_def)
  with assms Inr res show ?thesis
    by (simp add: step_def Let_def mem_wf_def stage_effect_def new_used_def)
qed

lemma step_err: "step body m = (Inl e, m') \<Longrightarrow> m' = m"
  by (auto simp: step_def Let_def split: sum.splits)

lemma write_step_joined: "m_unit m = Some st \<Longrightarrow> write_step body m = step body m"
  by (simp add: write_step_def)

lemma write_step_wf:
  assumes "body_keeps body" "mem_wf m"
  shows "mem_wf (snd (write_step body m))"
proof (cases "m_unit m")
  case None
  with assms show ?thesis
    unfolding write_step_alone [OF None]
    by (auto simp: mem_wf_def body_keeps_def split: sum.splits)
next
  case (Some st)
  with assms show ?thesis by (simp add: write_step_joined step_wf)
qed

lemma write_step_err:
  assumes "write_step body m = (Inl e, m')"
  shows "m' = m"
proof (cases "m_unit m")
  case None
  with assms show ?thesis by (simp add: write_step_alone split: sum.splits prod.splits)
next
  case (Some st)
  with assms show ?thesis by (auto simp: write_step_joined dest: step_err)
qed

lemma write_step_frame:
  assumes "write_step body m = (r, m')"
  shows "m_config m' = m_config m \<and> m_now m' = m_now m \<and> m_text m' = m_text m
    \<and> (m_unit m' = None \<longleftrightarrow> m_unit m = None)"
proof (cases "m_unit m")
  case None
  with assms show ?thesis by (auto simp: write_step_alone split: sum.splits prod.splits)
next
  case (Some st)
  with assms show ?thesis
    by (auto simp: write_step_joined step_def Let_def split: sum.splits prod.splits)
qed

lemma write_step_Inr:
  assumes "write_step body m = (Inr v, m')"
  obtains used ef where "body (m_now m) (m_tables m) used = Inr (v, ef, m_tables m')"
proof (cases "m_unit m")
  case None
  with assms show thesis by (auto simp: write_step_alone split: sum.splits prod.splits intro: that)
next
  case (Some st)
  with assms show thesis
    by (auto simp: write_step_joined step_def Let_def split: sum.splits prod.splits intro: that)
qed

section \<open>The public writes\<close>

text \<open>
  What every write of the store promises: it keeps the invariant, an error leaves the store as
  it was, and neither the configuration, the clock, the codec nor the open unit is touched.
\<close>

definition same_env :: "memory \<Rightarrow> memory \<Rightarrow> bool" where
  "same_env m m' \<longleftrightarrow> m_config m' = m_config m \<and> m_now m' = m_now m \<and> m_text m' = m_text m
     \<and> (m_unit m' = None \<longleftrightarrow> m_unit m = None)"

definition atomic_write :: "(memory, mem_error, 'a) op \<Rightarrow> bool" where
  "atomic_write f \<longleftrightarrow>
     (\<forall>m r m'. f m = (r, m') \<longrightarrow>
        (mem_wf m \<longrightarrow> mem_wf m') \<and> ((\<exists>e. r = Inl e) \<longrightarrow> m' = m) \<and> same_env m m')"

lemma same_env_refl [simp]: "same_env m m"
  by (simp add: same_env_def)

lemma same_env_trans: "same_env m m' \<Longrightarrow> same_env m' m'' \<Longrightarrow> same_env m m''"
  by (auto simp: same_env_def)

lemma atomic_write_step: "body_keeps body \<Longrightarrow> atomic_write (write_step body)"
  unfolding atomic_write_def same_env_def
  by (metis snd_conv write_step_err write_step_frame write_step_wf)

lemma atomic_writeD:
  assumes "atomic_write f" "f m = (r, m')"
  shows "mem_wf m \<Longrightarrow> mem_wf m'" "r = Inl e \<Longrightarrow> m' = m" "same_env m m'"
  using assms by (auto simp: atomic_write_def)

lemma atomic_write_guarded:
  assumes "\<And>q b. atomic_write (f q b)"
  shows "atomic_write (\<lambda>m. case g m of Inl e \<Rightarrow> (Inl e, m) | Inr b \<Rightarrow> f (q m) b m)"
  unfolding atomic_write_def
proof (intro allI impI)
  fix m r m'
  assume run: "(case g m of Inl e \<Rightarrow> (Inl e, m) | Inr b \<Rightarrow> f (q m) b m) = (r, m')"
  show "(mem_wf m \<longrightarrow> mem_wf m') \<and> ((\<exists>e. r = Inl e) \<longrightarrow> m' = m) \<and> same_env m m'"
  proof (cases "g m")
    case (Inl e)
    with run show ?thesis by simp
  next
    case (Inr b)
    with run assms [of "q m" b] show ?thesis by (simp add: atomic_write_def)
  qed
qed

lemma atomic_write_map: "atomic_write f \<Longrightarrow> atomic_write (bnd f (\<lambda>x. ret (g x)))"
  unfolding atomic_write_def bnd_def ret_def
  by (auto split: prod.splits sum.splits)

lemma atomic_mem_put: "atomic_write (mem_put owner sc key value opts)"
  unfolding mem_put_def [abs_def]
  by (rule atomic_write_guarded
      [where f = "\<lambda>q b. write_step (put_regular_rows q owner (as_token sc) key b (content_type value) opts)"
         and q = "\<lambda>m. regular_quota_total_bytes (m_config m)"])
    (simp add: atomic_write_step put_regular_rows_keeps)

lemma atomic_mem_delete: "atomic_write (mem_delete owner sc key cas)"
  unfolding mem_delete_def [abs_def]
  by (rule atomic_write_guarded
      [where f = "\<lambda>_ _. write_step (delete_regular_rows owner (as_token sc) key cas)"])
    (simp add: atomic_write_step delete_regular_rows_keeps)

lemma atomic_mem_put_secret: "atomic_write (mem_put_secret owner sc key value opts)"
  unfolding mem_put_secret_def [abs_def]
  by (rule atomic_write_guarded
      [where f = "\<lambda>q b. write_step (put_secret_rows q owner (as_token sc) key b (content_type value) opts)"
         and q = "\<lambda>m. secret_quota_per_owner_bytes (m_config m)"])
    (simp add: atomic_write_step put_secret_rows_keeps)

lemma atomic_mem_delete_secret: "atomic_write (mem_delete_secret owner sc key cas)"
  unfolding mem_delete_secret_def [abs_def]
  by (rule atomic_write_guarded
      [where f = "\<lambda>_ _. write_step (delete_secret_rows owner (as_token sc) key cas)"])
    (simp add: atomic_write_step delete_secret_rows_keeps)

lemma atomic_apply_op: "atomic_write (apply_op op)"
  by (cases op) (simp_all add: atomic_write_map atomic_mem_put atomic_mem_delete
      atomic_mem_put_secret atomic_mem_delete_secret)

lemma atomic_purges:
  "atomic_write mem_purge_expired" "atomic_write (mem_purge_scope sc)"
  by (simp_all add: mem_purge_expired_def mem_purge_scope_def atomic_write_step bodies_keep)

section \<open>Batches\<close>

lemma batch_loop_keeps:
  "batch_loop mode i ops m = (r, m') \<Longrightarrow> (mem_wf m \<longrightarrow> mem_wf m') \<and> same_env m m'"
proof (induction ops arbitrary: i m r m')
  case (Cons op ops)
  obtain r1 m1 where r1: "apply_op op m = (r1, m1)" by fastforce
  note keeps1 = atomic_writeD [OF atomic_apply_op r1]
  obtain r2 m2 where r2: "batch_loop mode (Suc i) ops m1 = (r2, m2)" by fastforce
  note keeps2 = Cons.IH [OF r2]
  from Cons.prems r1 r2 have "m' = m1 \<or> m' = m2"
    by (auto split: sum.splits batch_mode.splits)
  with keeps1 keeps2 show ?case by (auto intro: same_env_trans)
qed simp

lemma begin_commit_wf: "m_unit m = None \<Longrightarrow> mem_wf m \<Longrightarrow> mem_wf (begin_unit m)"
  "mem_wf m' \<Longrightarrow> mem_wf (commit_unit m')"
  by (auto simp: mem_wf_def begin_unit_def commit_unit_def split: option.splits)

lemma begin_unit_open: "m_unit (begin_unit m) \<noteq> None"
  by (simp add: begin_unit_def)

text \<open>An independent batch never fails as a whole, and answers every request.\<close>

lemma batch_loop_independent:
  "\<exists>outs m'. batch_loop Independent i ops m = (Inr outs, m') \<and> length outs = length ops"
proof (induction ops arbitrary: i m)
  case (Cons op ops)
  obtain r1 m1 where r1: "apply_op op m = (r1, m1)" by fastforce
  from Cons.IH [of "Suc i" m1] obtain outs m' where
    "batch_loop Independent (Suc i) ops m1 = (Inr outs, m')" "length outs = length ops" by blast
  with r1 show ?case by (auto split: sum.splits)
qed simp

text \<open>An atomic batch that is confirmed has no rejected request.\<close>

lemma batch_loop_atomic:
  "batch_loop Atomic i ops m = (Inr outs, m') \<Longrightarrow>
     length outs = length ops \<and> (\<forall>out \<in> set outs. \<exists>x. out = Inr x)"
proof (induction ops arbitrary: i m outs m')
  case (Cons op ops)
  then show ?case by (auto split: sum.splits prod.splits)
qed simp

text \<open>It fails at the first request that would be refused after the ones before it.\<close>

lemma batch_loop_atomic_err:
  "batch_loop Atomic i ops m = (Inl (j, e), m') \<Longrightarrow>
     i \<le> j \<and> j - i < length ops \<and>
     (\<exists>outs m1. batch_loop Atomic i (take (j - i) ops) m = (Inr outs, m1) \<and>
        fst (apply_op (ops ! (j - i)) m1) = Inl e)"
proof (induction ops arbitrary: i m)
  case (Cons op ops)
  obtain r1 m1 where r1: "apply_op op m = (r1, m1)" by fastforce
  show ?case
  proof (cases r1)
    case (Inl e1)
    with Cons.prems r1 have "j = i" "e1 = e" by auto
    with r1 Inl show ?thesis by auto
  next
    case (Inr x)
    with Cons.prems r1 have rec: "batch_loop Atomic (Suc i) ops m1 = (Inl (j, e), m')"
      by (auto split: sum.splits prod.splits)
    from Cons.IH [OF this] obtain outs m2 where
      h: "Suc i \<le> j" "j - Suc i < length ops"
        "batch_loop Atomic (Suc i) (take (j - Suc i) ops) m1 = (Inr outs, m2)"
        "fst (apply_op (ops ! (j - Suc i)) m2) = Inl e" by blast
    have "j - i = Suc (j - Suc i)" using h(1) by simp
    with h r1 Inr show ?thesis by auto
  qed
qed simp

end
