(* ===== verification/Memory_Read.thy ===== *)
theory Memory_Read
  imports Memory_Write
begin

text \<open>
  The queries of the memory store (\<open>lib.rs\<close>) and the pruning of logs by key prefix
  (\<open>write.rs\<close>): the \<open>LIKE ... ESCAPE\<close> operator of SQLite with the two escaping functions of the
  code, the conversion of a row to an entry, lookup, listing with its filters, counting,
  statistics, the JSON path query, export and import. A row whose expiry has passed is invisible
  to every query.
\<close>

section \<open>Prefix patterns\<close>

definition ascii_lower :: "char \<Rightarrow> char" where
  "ascii_lower c =
     (if 65 \<le> (of_char c :: nat) \<and> (of_char c :: nat) \<le> 90 then char_of ((of_char c :: nat) + 32) else c)"

text \<open>
  \<open>s LIKE p ESCAPE '\'\<close>: a percent sign matches any text, an underscore one character, the
  escape makes the next character literal, and ASCII letters match without regard to case.
\<close>

fun like :: "string \<Rightarrow> string \<Rightarrow> bool" where
  "like [] s = (s = [])"
| "like (p # ps) s =
     (if p = CHR 0x5C then
        (case ps of
           [] \<Rightarrow> False
         | q # qs \<Rightarrow> (case s of [] \<Rightarrow> False
                    | c # cs \<Rightarrow> ascii_lower q = ascii_lower c \<and> like qs cs))
      else if p = CHR ''%'' then
        (like ps s \<or> (case s of [] \<Rightarrow> False | _ # cs \<Rightarrow> like (p # ps) cs))
      else if p = CHR ''_'' then
        (case s of [] \<Rightarrow> False | _ # cs \<Rightarrow> like ps (dropWhile utf8_cont cs))
      else (case s of [] \<Rightarrow> False | c # cs \<Rightarrow> ascii_lower p = ascii_lower c \<and> like ps cs))"

definition escape_like :: "string \<Rightarrow> string" where
  "escape_like input =
     concat (map (\<lambda>c. if c = CHR ''%'' \<or> c = CHR ''_'' \<or> c = CHR 0x5C then [CHR 0x5C, c] else [c]) input)"

definition replace_char :: "char \<Rightarrow> string \<Rightarrow> string \<Rightarrow> string" where
  "replace_char c r s = concat (map (\<lambda>x. if x = c then r else [x]) s)"

definition like_prefix :: "string \<Rightarrow> string" where
  "like_prefix prefix =
     replace_char CHR ''%'' [CHR 0x5C, CHR ''%'']
       (replace_char CHR ''_'' [CHR 0x5C, CHR ''_'']
         (replace_char CHR 0x5C [CHR 0x5C, CHR 0x5C] prefix)) @ ''%''"

text \<open>What both patterns are meant to say: the key starts with the prefix.\<close>

definition prefix_ci :: "string \<Rightarrow> string \<Rightarrow> bool" where
  "prefix_ci p k \<longleftrightarrow>
     length p \<le> length k \<and> map ascii_lower (take (length p) k) = map ascii_lower p"

lemma like_percent: "like ''%'' s"
  by (induction s) auto

lemma replace_char_simps [simp]:
  "replace_char c r [] = []"
  "replace_char c r (x # s) = (if x = c then r else [x]) @ replace_char c r s"
  "replace_char c r (s @ t) = replace_char c r s @ replace_char c r t"
  by (simp_all add: replace_char_def)

lemma escape_like_simps [simp]:
  "escape_like [] = []"
  "escape_like (c # s) =
     (if c = CHR ''%'' \<or> c = CHR ''_'' \<or> c = CHR 0x5C then [CHR 0x5C, c] else [c]) @ escape_like s"
  by (simp_all add: escape_like_def)

lemma like_prefix_eq: "like_prefix p = escape_like p @ ''%''"
  unfolding like_prefix_def by (induction p) auto

lemma like_escape: "like (escape_like p @ ''%'') k = prefix_ci p k"
proof (induction p arbitrary: k)
  case Nil
  show ?case using like_percent [of k] by (simp add: prefix_ci_def del: like.simps)
next
  case (Cons c p)
  then show ?case by (cases k) (auto simp: prefix_ci_def)
qed

section \<open>Rows as entries\<close>

definition row_entry :: "json_text \<Rightarrow> bool \<Rightarrow> mem_row \<Rightarrow> mem_error + mem_entry" where
  "row_entry jt with_owner r =
     sbind (from_db jt (r_ctype r) (r_value r)) (\<lambda>v.
       Inr \<lparr>e_scope = r_scope r, e_key = r_key r, e_value = v, e_created = r_created r,
            e_updated = r_updated r, e_expires = r_expires r, e_version = r_version r,
            e_owner = (if with_owner then Some (r_owner r) else None)\<rparr>)"

definition mem_get :: "memory \<Rightarrow> scope \<Rightarrow> string \<Rightarrow> mem_error + mem_entry option" where
  "mem_get m sc key =
     sbind (map_err InvalidKey (validate_key key)) (\<lambda>_.
       case find_row (as_token sc) key (regular m) of
         None \<Rightarrow> Inr None
       | Some r \<Rightarrow> if row_expired (m_now m) r then Inr None
                  else sbind (row_entry (m_text m) True r) (\<lambda>e. Inr (Some e)))"

definition mem_exists :: "memory \<Rightarrow> scope \<Rightarrow> string \<Rightarrow> mem_error + bool" where
  "mem_exists m sc key = sbind (mem_get m sc key) (\<lambda>e. Inr (e \<noteq> None))"

definition mem_get_secret ::
  "memory \<Rightarrow> string \<Rightarrow> scope \<Rightarrow> string \<Rightarrow> mem_error + mem_entry option" where
  "mem_get_secret m owner sc key =
     sbind (validate_owner owner) (\<lambda>_.
     sbind (map_err InvalidKey (validate_key key)) (\<lambda>_.
       case find_secret owner (as_token sc) key (secret m) of
         None \<Rightarrow> Inr None
       | Some r \<Rightarrow> if row_expired (m_now m) r then Inr None
                  else sbind (row_entry (m_text m) False r) (\<lambda>e. Inr (Some e))))"

definition mem_exists_secret :: "memory \<Rightarrow> string \<Rightarrow> scope \<Rightarrow> string \<Rightarrow> mem_error + bool" where
  "mem_exists_secret m owner sc key = sbind (mem_get_secret m owner sc key) (\<lambda>e. Inr (e \<noteq> None))"

section \<open>Listing\<close>

text \<open>The clauses \<open>push_list_filters\<close> appends, and its \<open>LIMIT\<close> and \<open>OFFSET\<close>: bound as an
  \<open>i64\<close>, and for SQLite a negative limit is no limit and a negative offset is zero.\<close>

definition list_filter :: "list_opts \<Rightarrow> mem_row \<Rightarrow> bool" where
  "list_filter opts r \<longleftrightarrow>
     (case lo_prefix opts of None \<Rightarrow> True | Some p \<Rightarrow> like (escape_like p @ ''%'') (r_key r))
     \<and> (case lo_since opts of None \<Rightarrow> True | Some s \<Rightarrow> r_updated r \<ge> s)
     \<and> (case lo_until opts of None \<Rightarrow> True | Some u \<Rightarrow> r_updated r < u)"

definition list_page :: "list_opts \<Rightarrow> 'a list \<Rightarrow> 'a list" where
  "list_page opts xs =
     (let limit = sint (case lo_limit opts of Some n \<Rightarrow> n | None \<Rightarrow> - 1);
          offset = sint (case lo_offset opts of Some n \<Rightarrow> n | None \<Rightarrow> 0);
          rest = drop (nat offset) xs
      in if limit < 0 then rest else take (nat limit) rest)"

definition visible :: "int \<Rightarrow> string \<Rightarrow> mem_row list \<Rightarrow> mem_row list" where
  "visible now token rows = filter (\<lambda>r. r_scope r = token \<and> \<not> row_expired now r) rows"

definition mem_list :: "memory \<Rightarrow> scope \<Rightarrow> list_opts \<Rightarrow> mem_error + mem_entry list" where
  "mem_list m sc opts =
     collect (row_entry (m_text m) True)
       (list_page opts
         (sort_key r_key (filter (list_filter opts) (visible (m_now m) (as_token sc) (regular m)))))"

definition mem_list_secret ::
  "memory \<Rightarrow> string \<Rightarrow> scope \<Rightarrow> list_opts \<Rightarrow> mem_error + mem_entry list" where
  "mem_list_secret m owner sc opts =
     sbind (validate_owner owner) (\<lambda>_.
     collect (row_entry (m_text m) False)
       (list_page opts
         (sort_key r_key (filter (\<lambda>r. r_owner r = owner \<and> list_filter opts r)
            (visible (m_now m) (as_token sc) (secret m))))))"

definition key_filter :: "string option \<Rightarrow> mem_row \<Rightarrow> bool" where
  "key_filter prefix r \<longleftrightarrow>
     (case prefix of None \<Rightarrow> True | Some p \<Rightarrow> like (escape_like p @ ''%'') (r_key r))"

definition mem_count :: "memory \<Rightarrow> scope \<Rightarrow> string option \<Rightarrow> nat" where
  "mem_count m sc prefix =
     length (filter (key_filter prefix) (visible (m_now m) (as_token sc) (regular m)))"

definition mem_count_secret ::
  "memory \<Rightarrow> string \<Rightarrow> scope \<Rightarrow> string option \<Rightarrow> mem_error + nat" where
  "mem_count_secret m owner sc prefix =
     sbind (validate_owner owner) (\<lambda>_.
       Inr (length (filter (\<lambda>r. r_owner r = owner \<and> key_filter prefix r)
         (visible (m_now m) (as_token sc) (secret m)))))"

text \<open>\<open>SELECT DISTINCT scope ... ORDER BY scope ASC\<close>.\<close>

definition mem_scopes :: "memory \<Rightarrow> string list" where
  "mem_scopes m = sort (remdups (map r_scope (regular m)))"

definition mem_scopes_secret :: "memory \<Rightarrow> string \<Rightarrow> mem_error + string list" where
  "mem_scopes_secret m owner =
     sbind (validate_owner owner) (\<lambda>_.
       Inr (sort (remdups (map r_scope (filter (\<lambda>r. r_owner r = owner) (secret m))))))"

record mem_stats =
  st_scope :: "string option"
  st_entries :: nat
  st_bytes :: nat

definition rows_stats :: "string option \<Rightarrow> mem_row list \<Rightarrow> mem_stats" where
  "rows_stats token rows =
     \<lparr>st_scope = token, st_entries = length rows, st_bytes = as_u64 (row_bytes rows)\<rparr>"

definition mem_stats_of :: "memory \<Rightarrow> scope option \<Rightarrow> mem_stats" where
  "mem_stats_of m sc =
     (case sc of
        Some s \<Rightarrow> rows_stats (Some (as_token s)) (visible (m_now m) (as_token s) (regular m))
      | None \<Rightarrow> rows_stats None (filter (\<lambda>r. \<not> row_expired (m_now m) r) (regular m)))"

definition mem_stats_secret :: "memory \<Rightarrow> string \<Rightarrow> scope option \<Rightarrow> mem_error + mem_stats" where
  "mem_stats_secret m owner sc =
     sbind (validate_owner owner) (\<lambda>_.
       let mine = filter (\<lambda>r. r_owner r = owner) (secret m) in
       Inr (case sc of
          Some s \<Rightarrow> rows_stats (Some (as_token s)) (visible (m_now m) (as_token s) mine)
        | None \<Rightarrow> rows_stats None (filter (\<lambda>r. \<not> row_expired (m_now m) r) mine)))"

section \<open>JSON path query, export, import\<close>

text \<open>
  The page of a query, as the code computes it: \<open>offset + limit\<close> is a \<open>usize\<close> addition (64 bits)
  that panics where overflow checks are on (\<open>None\<close>).
\<close>

definition query_page :: "list_opts \<Rightarrow> 'a list \<Rightarrow> 'a list option" where
  "query_page opts matched =
     (let offset = unat (case lo_offset opts of Some n \<Rightarrow> n | None \<Rightarrow> 0);
          limit = unat (case lo_limit opts of Some n \<Rightarrow> n | None \<Rightarrow> (- 1 :: u64))
      in if offset \<ge> length matched then Some []
         else if offset + limit \<ge> 2 ^ 64 then None
         else Some (drop offset (take (min (offset + limit) (length matched)) matched)))"

definition query_match :: "string \<Rightarrow> json \<Rightarrow> mem_entry \<Rightarrow> bool" where
  "query_match path expected e \<longleftrightarrow>
     (case e_value e of
        Json v \<Rightarrow> (case lookup_dot_path v path of Some hit \<Rightarrow> json_eq hit expected | None \<Rightarrow> False)
      | _ \<Rightarrow> False)"

definition mem_query ::
  "memory \<Rightarrow> scope \<Rightarrow> string \<Rightarrow> json \<Rightarrow> list_opts \<Rightarrow> mem_error + mem_entry list option" where
  "mem_query m sc path expected opts =
     sbind (mem_list m sc (opts\<lparr>lo_offset := None, lo_limit := None\<rparr>)) (\<lambda>candidates.
       Inr (query_page opts (filter (query_match path expected) candidates)))"

definition mem_export :: "memory \<Rightarrow> scope option \<Rightarrow> mem_error + mem_entry list" where
  "mem_export m sc =
     collect (row_entry (m_text m) True)
       (sort_key (\<lambda>r. (r_scope r, r_key r))
         (filter (\<lambda>r. \<not> row_expired (m_now m) r
            \<and> (case sc of None \<Rightarrow> True | Some s \<Rightarrow> r_scope r = as_token s)) (regular m)))"

record import_stats =
  is_applied :: nat
  is_skipped :: nat

fun import_loop ::
  "string \<Rightarrow> bool \<Rightarrow> mem_entry list \<Rightarrow> import_stats \<Rightarrow> (memory, mem_error, import_stats) op" where
  "import_loop caller replace [] acc m = (Inr acc, m)"
| "import_loop caller replace (e # es) acc m =
     (case sbind (map_err InvalidKey (validate_key (e_key e))) (\<lambda>_.
           sbind (map_err InvalidScope (parse_scope (e_scope e))) (\<lambda>sc.
           sbind (mem_get m sc (e_key e)) (\<lambda>cur. Inr (sc, cur \<noteq> None)))) of
        Inl err \<Rightarrow> (Inl err, m)
      | Inr (sc, exists_now) \<Rightarrow>
          if exists_now \<and> \<not> replace
          then import_loop caller replace es (acc\<lparr>is_skipped := is_skipped acc + 1\<rparr>) m
          else (case mem_put caller sc (e_key e) (e_value e)
                       \<lparr>po_expires = e_expires e, po_cas = None\<rparr> m of
                  (Inl err, m') \<Rightarrow> (Inl err, m')
                | (Inr _, m') \<Rightarrow>
                    import_loop caller replace es (acc\<lparr>is_applied := is_applied acc + 1\<rparr>) m'))"

definition mem_import ::
  "string \<Rightarrow> mem_entry list \<Rightarrow> bool \<Rightarrow> (memory, mem_error, import_stats) op" where
  "mem_import caller entries replace m =
     (case validate_owner caller of
        Inl e \<Rightarrow> (Inl e, m)
      | Inr _ \<Rightarrow> import_loop caller replace entries \<lparr>is_applied = 0, is_skipped = 0\<rparr> m)"

section \<open>Log pruning\<close>

definition pruned_effect :: "mem_row list \<Rightarrow> nat \<Rightarrow> effect" where
  "pruned_effect rows deleted =
     \<lparr>ef_used = (if deleted > 0 then Some (row_bytes rows) else None), ef_changes = [],
      ef_wrote = (deleted > 0)\<rparr>"

definition delete_where :: "(mem_row \<Rightarrow> bool) \<Rightarrow> nat body" where
  "delete_where P now t used_before =
     (let kept = filter (\<lambda>r. \<not> P r) (t_regular t);
          n = length (t_regular t) - length kept
      in Inr (n, pruned_effect kept n, t\<lparr>t_regular := kept\<rparr>))"

text \<open>The key at position \<open>keep_recent\<close> from the newest, if there is one.\<close>

definition prune_cutoff :: "string \<Rightarrow> nat \<Rightarrow> mem_row list \<Rightarrow> string option" where
  "prune_cutoff pat keep rows =
     (let ks = rev (sort (map r_key (filter (\<lambda>r. like pat (r_key r)) rows)))
      in if keep < length ks then Some (ks ! keep) else None)"

definition prune_keep_rows :: "string \<Rightarrow> nat \<Rightarrow> nat body" where
  "prune_keep_rows prefix keep_recent now t used_before =
     (let pat = like_prefix prefix;
          cutoff = prune_cutoff pat (min keep_recent (2 ^ 63 - 1)) (t_regular t)
      in delete_where (\<lambda>r. like pat (r_key r) \<and> (case cutoff of None \<Rightarrow> False | Some k \<Rightarrow> r_key r \<le> k))
           now t used_before)"

definition mem_prune_keep_recent :: "string \<Rightarrow> nat \<Rightarrow> (memory, mem_error, nat) op" where
  "mem_prune_keep_recent prefix keep_recent = write_step (prune_keep_rows prefix keep_recent)"

text \<open>\<open>{n:0w}\<close>: decimal, padded with zeros to the width.\<close>

definition show_padded :: "nat \<Rightarrow> nat \<Rightarrow> string" where
  "show_padded w n = replicate (w - length (show_nat n)) CHR ''0'' @ show_nat n"

definition prune_older_rows :: "string \<Rightarrow> u64 \<Rightarrow> nat body" where
  "prune_older_rows prefix cutoff_ms =
     delete_where (\<lambda>r. like (like_prefix prefix) (r_key r)
       \<and> r_key r < prefix @ show_padded 13 (unat cutoff_ms))"

definition mem_prune_older_than :: "string \<Rightarrow> u64 \<Rightarrow> (memory, mem_error, nat) op" where
  "mem_prune_older_than prefix cutoff_ms = write_step (prune_older_rows prefix cutoff_ms)"

end
