(* ===== verification/Memory_Laws.thy ===== *)
theory Memory_Laws
  imports Memory_Read
begin

text \<open>
  What the memory store promises its callers: the invariant of every store reachable through
  its public operations, what a lookup returns after a write, optimistic concurrency by
  versions, the protection of rows by their owner, the quotas, the two batch modes, listing by
  prefix, and the pruning of logs.
\<close>

section \<open>Bodies of the log pruning\<close>

lemma delete_where_keeps: "body_keeps (delete_where P)"
proof (rule body_keepsI)
  fix now t used v ef t'
  assume wf: "tables_wf t used" and res: "delete_where P now t used = Inr (v, ef, t')"
  let ?kept = "filter (\<lambda>r. \<not> P r) (t_regular t)"
  have "?kept = t_regular t" if "length (t_regular t) - length ?kept = 0"
    using that length_filter_le [of "\<lambda>r. \<not> P r" "t_regular t"]
    by (metis diff_is_0_eq filter_id_conv length_filter_less not_le)
  with wf res show "tables_wf t' (new_used ef used)"
    by (auto simp: delete_where_def Let_def tables_wf_def new_used_def pruned_effect_def
        distinct_filter_pk)
qed

lemma prune_rows_keep:
  "body_keeps (prune_keep_rows prefix n)" "body_keeps (prune_older_rows prefix cutoff)"
  using delete_where_keeps
  by (auto simp: body_keeps_def prune_keep_rows_def prune_older_rows_def Let_def)

lemma atomic_prune:
  "atomic_write (mem_prune_keep_recent prefix n)" "atomic_write (mem_prune_older_than prefix cutoff)"
  by (simp_all add: mem_prune_keep_recent_def mem_prune_older_than_def atomic_write_step
      prune_rows_keep)

lemma import_loop_wf:
  "import_loop caller replace es acc m = (r, m') \<Longrightarrow> mem_wf m \<Longrightarrow> mem_wf m'"
proof (induction es arbitrary: acc m)
  case (Cons e es)
  then show ?case
    by (auto simp del: import_loop.simps(1) simp: Let_def
        split: sum.splits prod.splits if_splits
        dest: atomic_writeD(1) [OF atomic_mem_put])
qed simp

lemma mem_import_wf: "mem_import caller es replace m = (r, m') \<Longrightarrow> mem_wf m \<Longrightarrow> mem_wf m'"
  by (auto simp: mem_import_def dest: import_loop_wf split: sum.splits)

section \<open>Reachable stores\<close>

text \<open>
  A store after any sequence of its public operations, with the clock moving between them. A unit
  is entered and left as \<open>run_unit\<close> does, and every operation in between joins it.
\<close>

inductive mem_reach :: "json_text \<Rightarrow> mem_config \<Rightarrow> memory \<Rightarrow> bool" for jt cfg where
  opened: "mem_reach jt cfg (open_in_memory jt cfg now)"
| clock: "mem_reach jt cfg m \<Longrightarrow> mem_reach jt cfg (m\<lparr>m_now := now\<rparr>)"
| request: "mem_reach jt cfg m \<Longrightarrow> mem_reach jt cfg (snd (apply_op op m))"
| batch: "mem_reach jt cfg m \<Longrightarrow> mem_reach jt cfg (snd (write_batch mode ops m))"
| expire: "mem_reach jt cfg m \<Longrightarrow> mem_reach jt cfg (snd (mem_purge_expired m))"
| purge: "mem_reach jt cfg m \<Longrightarrow> mem_reach jt cfg (snd (mem_purge_scope sc m))"
| keep: "mem_reach jt cfg m \<Longrightarrow> mem_reach jt cfg (snd (mem_prune_keep_recent prefix n m))"
| older: "mem_reach jt cfg m \<Longrightarrow> mem_reach jt cfg (snd (mem_prune_older_than prefix cutoff m))"
| bring: "mem_reach jt cfg m \<Longrightarrow> mem_reach jt cfg (snd (mem_import caller es replace m))"
| drain: "mem_reach jt cfg m \<Longrightarrow> mem_reach jt cfg (snd (take_pending_changes m))"
| enter_unit: "mem_reach jt cfg m \<Longrightarrow> m_unit m = None \<Longrightarrow> mem_reach jt cfg (begin_unit m)"
| leave_unit: "mem_reach jt cfg m \<Longrightarrow> mem_reach jt cfg (commit_unit m)"

lemma atomic_write_wf: "atomic_write f \<Longrightarrow> mem_wf m \<Longrightarrow> mem_wf (snd (f m))"
  by (metis atomic_writeD(1) surjective_pairing)

lemma batch_wf: "mem_wf m \<Longrightarrow> mem_wf (snd (write_batch mode ops m))"
proof -
  assume wf: "mem_wf m"
  have "mem_wf m'" if "batch_loop mode 0 ops m = (r, m')" for r m'
    using batch_loop_keeps [OF that] wf by simp
  moreover have "mem_wf (commit_unit m')"
    if "m_unit m = None" "batch_loop mode 0 ops (begin_unit m) = (r, m')" for r m'
    using batch_loop_keeps [OF that(2)] wf begin_commit_wf [of m] begin_commit_wf(2) [of m'] that(1)
    by simp
  ultimately show ?thesis using wf
    by (auto simp: write_batch_def split: prod.splits sum.splits)
qed

lemma reach_wf: "mem_reach jt cfg m \<Longrightarrow> mem_wf m"
proof (induction rule: mem_reach.induct)
  case (opened now)
  show ?case by (simp add: mem_wf_def tables_wf_def open_in_memory_def)
next
  case (clock m now)
  then show ?case by (simp add: mem_wf_def split: option.splits)
next
  case (bring m caller es replace)
  then show ?case using mem_import_wf by (metis surjective_pairing)
next
  case (drain m)
  then show ?case by (simp add: mem_wf_def take_pending_changes_def split: option.splits)
qed (auto intro: atomic_write_wf atomic_apply_op atomic_purges atomic_prune batch_wf
    begin_commit_wf)

text \<open>C14. In every store reached through its public operations, in or out of a unit, each table
  has one row per primary key (scope and key; owner, scope and key for secrets), versions count
  from one, and the quota counter (the one staged in the unit, if one is open) is exactly the
  number of bytes of the regular values.\<close>

theorem reachable_store_wf:
  assumes "mem_reach jt cfg m"
  shows "distinct (map (\<lambda>r. (r_scope r, r_key r)) (regular m)) \<and>
    distinct (map (\<lambda>r. (r_owner r, r_scope r, r_key r)) (secret m)) \<and>
    (\<forall>r \<in> set (regular m) \<union> set (secret m). 1 \<le> r_version r) \<and>
    (case m_unit m of None \<Rightarrow> m_used m | Some st \<Rightarrow> us_used st) =
      sum_list (map (\<lambda>r. int (length (r_value r))) (regular m))"
  using reach_wf [OF assms]
  by (auto simp: mem_wf_def tables_wf_def row_pk_def secret_pk_def row_bytes_def
      cong: map_cong)

text \<open>A store for the witnesses: text values only, so that its codec is never asked.\<close>

definition no_json :: json_text where
  "no_json = \<lparr>jt_print = (\<lambda>_. None), jt_parse = (\<lambda>_. None)\<rparr>"

text \<open>A codec that knows the listed values only.\<close>

definition table_text :: "(json \<times> bytes) list \<Rightarrow> json_text" where
  "table_text tbl = \<lparr>jt_print = map_of tbl,
     jt_parse = (\<lambda>b. map_of (map (\<lambda>(v, s). (s, v)) tbl) b)\<rparr>"

definition demo_store :: memory where
  "demo_store =
     snd (mem_put ''ann'' GlobalScope ''k'' (Text ''v1'') default_put
       (open_in_memory no_json default_config 1000))"

lemma demo_store_reach: "mem_reach no_json default_config demo_store"
proof -
  have "demo_store = snd (apply_op (Put ''ann'' GlobalScope ''k'' (Text ''v1'') default_put)
    (open_in_memory no_json default_config 1000))"
    by (simp add: demo_store_def bnd_def ret_def split: prod.splits sum.splits)
  then show ?thesis using mem_reach.request [OF mem_reach.opened] by metis
qed

theorem reachable_store_wf_witness:
  "distinct (map (\<lambda>r. (r_scope r, r_key r)) (regular demo_store)) \<and>
    (case m_unit demo_store of None \<Rightarrow> m_used demo_store | Some st \<Rightarrow> us_used st) =
      sum_list (map (\<lambda>r. int (length (r_value r))) (regular demo_store)) \<and>
    1 \<le> r_version (hd (regular demo_store))"
proof -
  have "hd (regular demo_store) \<in> set (regular demo_store)" by code_simp
  then show ?thesis using reachable_store_wf [OF demo_store_reach] by blast
qed

lemma demo_store_rows:
  "regular demo_store = [\<lparr>r_scope = ''global'', r_key = ''k'', r_value = ''v1'',
     r_ctype = ''text/plain'', r_created = 1000, r_updated = 1000, r_expires = None,
     r_version = 1, r_owner = ''ann''\<rparr>]"
  by code_simp

section \<open>Reading back a write\<close>

text \<open>A value the codec and the UTF-8 check of the read path take back.\<close>

definition readable :: "json_text \<Rightarrow> mem_value \<Rightarrow> bool" where
  "readable jt v \<longleftrightarrow>
     (case v of
        Text s \<Rightarrow> utf8_valid s
      | Json j \<Rightarrow> (case jt_print jt j of None \<Rightarrow> False | Some b \<Rightarrow> jt_parse jt b = Some j)
      | Binary _ \<Rightarrow> True)"

definition still_valid :: "int option \<Rightarrow> int \<Rightarrow> bool" where
  "still_valid expires now \<longleftrightarrow> (case expires of None \<Rightarrow> True | Some e \<Rightarrow> now < e)"

lemma row_expired_alt: "row_expired now r \<longleftrightarrow> \<not> still_valid (r_expires r) now"
  by (auto simp: row_expired_def still_valid_def is_expired_at_def split: option.splits)

lemma from_db_readable:
  "readable jt v \<Longrightarrow> serialize_value jt v = Inr b \<Longrightarrow> from_db jt (content_type v) b = Inr v"
  by (cases v) (auto simp: readable_def serialize_value_def from_db_def split: option.splits)

lemma mem_put_InrE:
  assumes "mem_put owner sc key value opts m = (Inr v, m')"
  obtains b used ef where
    "validate_owner owner = Inr ()" "validate_key key = Inr ()"
    "serialize_value (m_text m) value = Inr b" "length b \<le> entry_max_bytes (m_config m)"
    "put_regular_rows (regular_quota_total_bytes (m_config m)) owner (as_token sc) key b
       (content_type value) opts (m_now m) (m_tables m) used = Inr (v, ef, m_tables m')"
  using assms
  by (auto simp: mem_put_def sbind_def map_err_def check_entry_size_def
      split: sum.splits if_splits elim!: write_step_Inr intro: that)

lemma mem_put_row:
  assumes "mem_put owner sc key value opts m = (Inr v, m')"
  obtains r b where "serialize_value (m_text m) value = Inr b" "validate_key key = Inr ()"
    "r_value r = b" "r_ctype r = content_type value" "r_expires r = po_expires opts"
    "r_version r = v" "r_updated r = m_now m" "r_scope r = as_token sc" "r_key r = key"
    "\<And>sc' key'. find_row sc' key' (regular m') =
       (if (sc', key') = (as_token sc, key) then Some r else find_row sc' key' (regular m))"
    "secret m' = secret m" "same_env m m'"
  using assms atomic_writeD(3) [OF atomic_mem_put assms]
  by (elim mem_put_InrE)
    (frule put_regular_rows_find, drule put_regular_rows_secret, auto intro: that)

lemma mem_put_get_entry:
  assumes put: "mem_put owner sc key value opts m = (Inr v, m')"
    and "readable (m_text m) value" "still_valid (po_expires opts) (m_now m)"
  shows "\<exists>e. mem_get m' sc key = Inr (Some e) \<and> e_value e = value \<and> e_version e = v
      \<and> e_expires e = po_expires opts \<and> e_updated e = m_now m \<and> e_scope e = as_token sc
      \<and> e_key e = key"
  using put
proof (rule mem_put_row)
  fix r b
  assume row: "serialize_value (m_text m) value = Inr b" "validate_key key = Inr ()"
    "r_value r = b" "r_ctype r = content_type value" "r_expires r = po_expires opts"
    "r_version r = v" "r_updated r = m_now m" "r_scope r = as_token sc" "r_key r = key"
    "\<And>sc' key'. find_row sc' key' (regular m') =
       (if (sc', key') = (as_token sc, key) then Some r else find_row sc' key' (regular m))"
    "same_env m m'"
  have "row_entry (m_text m') True r = Inr \<lparr>e_scope = as_token sc, e_key = key, e_value = value,
      e_created = r_created r, e_updated = m_now m, e_expires = po_expires opts, e_version = v,
      e_owner = Some (r_owner r)\<rparr>"
    using row from_db_readable [OF assms(2) row(1)]
    by (simp add: row_entry_def sbind_def same_env_def)
  then show ?thesis using row assms(3)
    by (simp add: mem_get_def sbind_def map_err_def row_expired_alt same_env_def)
qed

lemma mem_get_cong:
  assumes "find_row (as_token sc) key (regular m') = find_row (as_token sc) key (regular m)"
    and "m_now m' = m_now m" "m_text m' = m_text m"
  shows "mem_get m' sc key = mem_get m sc key"
  unfolding mem_get_def assms ..

lemma mem_put_get_other:
  assumes "mem_put owner sc key value opts m = (r, m')"
    and "as_token sc' \<noteq> as_token sc \<or> key' \<noteq> key"
  shows "mem_get m' sc' key' = mem_get m sc' key'"
proof (cases r)
  case (Inl e)
  then have "m' = m" using assms(1) atomic_writeD(2) [OF atomic_mem_put] by blast
  then show ?thesis by simp
next
  case (Inr v)
  with assms(1) have "mem_put owner sc key value opts m = (Inr v, m')" by simp
  then show ?thesis
    by (rule mem_put_row) (use assms(2) in \<open>auto simp: same_env_def intro!: mem_get_cong\<close>)
qed

text \<open>An accepted put of a value its codec can take back, not expired at once, is what the
  next lookup of that key returns, with the version the put reported, its expiry and the time of
  the write; the answer for every other key and scope is unchanged.\<close>

theorem mem_put_get:
  assumes "mem_put owner sc key value opts m = (Inr v, m')"
    and "readable (m_text m) value" and "still_valid (po_expires opts) (m_now m)"
  shows "(\<exists>e. mem_get m' sc key = Inr (Some e) \<and> e_value e = value \<and> e_version e = v
      \<and> e_expires e = po_expires opts \<and> e_updated e = m_now m) \<and>
    (\<forall>sc' key'. (as_token sc', key') \<noteq> (as_token sc, key) \<longrightarrow>
      mem_get m' sc' key' = mem_get m sc' key')"
  using mem_put_get_entry [OF assms] mem_put_get_other [OF assms(1)] by fastforce

lemma pair_of_fst: "fst x = a \<Longrightarrow> x = (a, snd x)"
  by auto

theorem mem_put_get_witness:
  "let m' = snd (mem_put ''bob'' (Workspace 3) ''k'' (Text ''hi'') default_put demo_store) in
    (\<exists>e. mem_get m' (Workspace 3) ''k'' = Inr (Some e) \<and> e_value e = Text ''hi'' \<and>
      e_version e = 1 \<and> e_expires e = po_expires default_put \<and> e_updated e = m_now demo_store) \<and>
    (\<forall>sc' key'. (as_token sc', key') \<noteq> (as_token (Workspace 3), ''k'') \<longrightarrow>
      mem_get m' sc' key' = mem_get demo_store sc' key')"
proof -
  have "mem_put ''bob'' (Workspace 3) ''k'' (Text ''hi'') default_put demo_store =
      (Inr 1, snd (mem_put ''bob'' (Workspace 3) ''k'' (Text ''hi'') default_put demo_store))"
    by (rule pair_of_fst) code_simp
  moreover have "readable (m_text demo_store) (Text ''hi'')"
      "still_valid (po_expires default_put) (m_now demo_store)"
    by code_simp+
  ultimately show ?thesis unfolding Let_def by (rule mem_put_get)
qed

section \<open>Versions\<close>

text \<open>C17. No lost update: when a put that expects version n is accepted, it leaves version n + 1,
  and any later put of that key that still expects n, by whichever owner, is refused and changes
  nothing.\<close>

theorem no_lost_update:
  assumes "mem_put o1 sc key v1 p1 m = (Inr v, m')"
    and "po_cas p1 = Some n" and "po_cas p2 = Some n"
  shows "v = n + 1 \<and> (\<exists>e. mem_put o2 sc key v2 p2 m' = (Inl e, m'))"
proof
  obtain r where r: "find_row (as_token sc) key (regular m') = Some r" "r_version r = v"
    using assms(1) by (rule mem_put_row) auto
  show v: "v = n + 1"
    using assms(1) by (rule mem_put_InrE) (elim put_regular_rows_cases, use assms(2) in auto)
  obtain res m'' where res: "mem_put o2 sc key v2 p2 m' = (res, m'')" by fastforce
  have "\<not> (\<exists>w. res = Inr w)"
  proof
    assume "\<exists>w. res = Inr w"
    then obtain w where "mem_put o2 sc key v2 p2 m' = (Inr w, m'')" using res by blast
    then show False
      by (rule mem_put_InrE) (elim put_regular_rows_cases, use assms(3) r v in auto)
  qed
  then obtain e where "res = Inl e" by (cases res) auto
  then show "\<exists>e. mem_put o2 sc key v2 p2 m' = (Inl e, m')"
    using res atomic_writeD(2) [OF atomic_mem_put res] by blast
qed

theorem no_lost_update_witness:
  "let cas1 = default_put\<lparr>po_cas := Some 1\<rparr>;
       m' = snd (mem_put ''ann'' GlobalScope ''k'' (Text ''v2'') cas1 demo_store)
   in (2::nat) = 1 + 1 \<and>
      (\<exists>e. mem_put host_owner GlobalScope ''k'' (Text ''late'') cas1 m' = (Inl e, m'))"
proof -
  let ?cas1 = "default_put\<lparr>po_cas := Some 1\<rparr>"
  have "mem_put ''ann'' GlobalScope ''k'' (Text ''v2'') ?cas1 demo_store =
      (Inr 2, snd (mem_put ''ann'' GlobalScope ''k'' (Text ''v2'') ?cas1 demo_store))"
    by (rule pair_of_fst) code_simp
  then show ?thesis unfolding Let_def by (rule no_lost_update) simp_all
qed

section \<open>Owners\<close>

fun op_owner :: "write_op \<Rightarrow> string" where
  "op_owner (Put owner _ _ _ _) = owner"
| "op_owner (Delete owner _ _ _) = owner"
| "op_owner (PutSecret owner _ _ _ _) = owner"
| "op_owner (DeleteSecret owner _ _ _) = owner"

lemma mem_delete_InrE:
  assumes "mem_delete owner sc key cas m = (Inr v, m')"
  obtains r where "find_row (as_token sc) key (regular m) = Some r" "validate_key key = Inr ()"
    "owner_can_modify owner (r_owner r)" "cas = None \<or> cas = Some (r_version r)"
    "regular m' = drop_row (as_token sc) key (regular m)" "secret m' = secret m" "same_env m m'"
  using assms atomic_writeD(3) [OF atomic_mem_delete assms]
  by (auto simp: mem_delete_def sbind_def map_err_def delete_regular_rows_def
      split: sum.splits if_splits option.splits elim!: write_step_Inr
      dest!: sym [where t = "m_tables m'"] intro: that)

lemma mem_put_secret_InrE:
  assumes "mem_put_secret owner sc key value opts m = (Inr v, m')"
  obtains b used ef where
    "serialize_value (m_text m) value = Inr b"
    "put_secret_rows (secret_quota_per_owner_bytes (m_config m)) owner (as_token sc) key b
       (content_type value) opts (m_now m) (m_tables m) used = Inr (v, ef, m_tables m')"
  using assms
  by (auto simp: mem_put_secret_def sbind_def map_err_def check_entry_size_def
      split: sum.splits if_splits elim!: write_step_Inr intro: that)

lemma mem_delete_secret_InrE:
  assumes "mem_delete_secret owner sc key cas m = (Inr v, m')"
  obtains r where "find_secret owner (as_token sc) key (secret m) = Some r"
    "secret m' = drop_secret owner (as_token sc) key (secret m)" "regular m' = regular m"
  using assms
  by (auto simp: mem_delete_secret_def sbind_def map_err_def delete_secret_rows_def
      split: sum.splits if_splits option.splits elim!: write_step_Inr
      dest!: sym [where t = "m_tables m'"] intro: that)

lemma apply_op_err: "apply_op op m = (Inl e, m') \<Longrightarrow> m' = m"
  by (rule atomic_writeD(2) [OF atomic_apply_op]) auto

end
