(* ===== verification/Memory_Owners.thy ===== *)
theory Memory_Owners
  imports Memory_Laws
begin

text \<open>
  Who may change what in the memory store, how much of it, and what a batch of requests does:
  live rows are protected by their owner, secrets are invisible to the requests of others, both
  quotas hold after an accepted write, an atomic batch happens as a whole or not at all, and an
  independent batch is its requests one after the other.
\<close>

section \<open>Protection\<close>

lemma put_protects:
  assumes "mem_put owner sc key value opts m = (Inr v, m')"
    and "find_row token k (regular m) = Some r" "\<not> row_expired (m_now m) r"
    and "owner \<noteq> host_owner" "owner \<noteq> r_owner r"
  shows "find_row token k (regular m') = Some r"
proof (cases "(token, k) = (as_token sc, key)")
  case True
  from assms(1) have False
    by (rule mem_put_InrE)
      (elim put_regular_rows_cases, use True assms in \<open>auto simp: owner_can_modify_def\<close>)
  then show ?thesis ..
next
  case False
  then show ?thesis using assms(1) by (rule_tac mem_put_row) (auto simp: assms(2))
qed

lemma delete_protects:
  assumes "mem_delete owner sc key cas m = (Inr v, m')"
    and "find_row token k (regular m) = Some r"
    and "owner \<noteq> host_owner" "owner \<noteq> r_owner r"
  shows "find_row token k (regular m') = Some r"
  using assms(1)
  by (rule mem_delete_InrE) (use assms(2-) in \<open>auto simp: find_row_drop owner_can_modify_def\<close>)

lemma put_secret_regular:
  "mem_put_secret owner sc key value opts m = (Inr v, m') \<Longrightarrow> regular m' = regular m"
  by (elim mem_put_secret_InrE put_secret_rows_cases) auto

lemma apply_op_Inr:
  assumes "apply_op op m = (Inr out, m')"
  shows "case op of
      Put owner sc key value opts \<Rightarrow> \<exists>v. mem_put owner sc key value opts m = (Inr v, m')
    | Delete owner sc key cas \<Rightarrow> mem_delete owner sc key cas m = (Inr (), m')
    | PutSecret owner sc key value opts \<Rightarrow>
        \<exists>v. mem_put_secret owner sc key value opts m = (Inr v, m')
    | DeleteSecret owner sc key cas \<Rightarrow> mem_delete_secret owner sc key cas m = (Inr (), m')"
  using assms by (cases op) (auto simp: ret_def elim!: bnd_InrE)

lemma apply_op_protects:
  assumes run: "apply_op op m = (res, m')"
    and row: "find_row token k (regular m) = Some r" "\<not> row_expired (m_now m) r"
    and other: "op_owner op \<noteq> host_owner" "op_owner op \<noteq> r_owner r"
  shows "find_row token k (regular m') = Some r"
proof (cases res)
  case (Inl e)
  with run row show ?thesis using apply_op_err by blast
next
  case (Inr out)
  with run have "apply_op op m = (Inr out, m')" by simp
  from apply_op_Inr [OF this] show ?thesis using row other
    by (cases op) (auto intro: put_protects delete_protects simp: put_secret_regular
        elim!: mem_delete_secret_InrE)
qed

lemma batch_loop_protects:
  "batch_loop mode i ops m = (res, m') \<Longrightarrow> find_row token k (regular m) = Some r \<Longrightarrow>
   \<not> row_expired (m_now m) r \<Longrightarrow> \<forall>op \<in> set ops. op_owner op \<noteq> host_owner \<and> op_owner op \<noteq> r_owner r \<Longrightarrow>
   find_row token k (regular m') = Some r"
proof (induction ops arbitrary: i m res m')
  case (Cons op ops)
  obtain r1 m1 where r1: "apply_op op m = (r1, m1)" by fastforce
  have row: "find_row token k (regular m1) = Some r" "\<not> row_expired (m_now m1) r"
    using apply_op_protects [OF r1] Cons.prems atomic_writeD(3) [OF atomic_apply_op r1]
    by (auto simp: same_env_def)
  obtain r2 m2 where r2: "batch_loop mode (Suc i) ops m1 = (r2, m2)" by fastforce
  have "m' = m1 \<or> m' = m2"
    using Cons.prems(1) r1 r2 by (auto split: sum.splits batch_mode.splits)
  then show ?case using Cons.IH [OF r2 row] Cons.prems(4) row by auto
qed simp

lemma write_batch_tables:
  assumes "write_batch mode ops m = (res, m')"
  shows "m_tables m' = m_tables m \<or> (\<exists>m0 res0 m1. batch_loop mode 0 ops m0 = (res0, m1) \<and>
    m_tables m0 = m_tables m \<and> m_now m0 = m_now m \<and> m_tables m' = m_tables m1)"
proof (cases "m_unit m")
  case None
  with assms show ?thesis
    by (auto simp: write_batch_def begin_unit_def commit_unit_def split: prod.splits sum.splits
        option.splits intro!: exI [of _ "begin_unit m"])
next
  case (Some st)
  with assms show ?thesis
    by (auto simp: write_batch_def split: prod.splits sum.splits)
qed

text \<open>C18. A batch of requests in either mode, none of them made by the host or by the owner of a
  live regular row, leaves that row exactly as it was: value, version, expiry and owner.\<close>

theorem batch_protects_rows:
  assumes "write_batch mode ops m = (res, m')"
    and "find_row token k (regular m) = Some r" and "\<not> row_expired (m_now m) r"
    and "\<forall>op \<in> set ops. op_owner op \<noteq> host_owner \<and> op_owner op \<noteq> r_owner r"
  shows "find_row token k (regular m') = Some r"
  using write_batch_tables [OF assms(1)]
proof (elim disjE exE conjE)
  fix m0 res0 m1
  assume loop: "batch_loop mode 0 ops m0 = (res0, m1)" "m_tables m0 = m_tables m"
    "m_now m0 = m_now m" "m_tables m' = m_tables m1"
  have "find_row token k (regular m1) = Some r"
    by (rule batch_loop_protects [OF loop(1)]) (simp_all add: loop assms)
  then show ?thesis by (simp add: loop)
qed (simp add: assms)

section \<open>Secrets\<close>

lemma others_drop_secret:
  "o' \<noteq> owner \<Longrightarrow> filter (\<lambda>r. r_owner r = o') (drop_secret owner sc key rows) =
     filter (\<lambda>r. r_owner r = o') rows"
  by (auto simp: drop_secret_def intro!: filter_cong)

lemma others_update_secret:
  "o' \<noteq> owner \<Longrightarrow> filter (\<lambda>r. r_owner r = o') (update_secret owner sc key (rewrite_row b ct now opts v) rows) =
     filter (\<lambda>r. r_owner r = o') rows"
  by (induction rows) (auto simp: update_secret_def rewrite_row_def)

lemma put_secret_others:
  assumes "mem_put_secret owner sc key value opts m = (Inr v, m')" "o' \<noteq> owner"
  shows "filter (\<lambda>r. r_owner r = o') (secret m') = filter (\<lambda>r. r_owner r = o') (secret m)"
  using assms(1)
proof (rule mem_put_secret_InrE)
  fix b used ef
  assume "put_secret_rows (secret_quota_per_owner_bytes (m_config m)) owner (as_token sc) key b
       (content_type value) opts (m_now m) (m_tables m) used = Inr (v, ef, m_tables m')"
  then show ?thesis
  proof (cases rule: put_secret_rows_cases)
    case (fresh rows0)
    then show ?thesis using assms(2)
      by (auto simp: others_drop_secret fresh_row_def)
  next
    case (rewrite r0)
    then show ?thesis using assms(2) by (simp add: others_update_secret)
  qed
qed

lemma apply_op_secrets:
  assumes run: "apply_op op m = (res, m')" and other: "o' \<noteq> op_owner op"
  shows "filter (\<lambda>r. r_owner r = o') (secret m') = filter (\<lambda>r. r_owner r = o') (secret m)"
proof (cases res)
  case (Inl e)
  with run show ?thesis using apply_op_err by blast
next
  case (Inr out)
  with run have "apply_op op m = (Inr out, m')" by simp
  from apply_op_Inr [OF this] show ?thesis using other
    by (cases op) (auto intro: put_secret_others elim!: mem_put_row mem_delete_InrE
        mem_delete_secret_InrE simp: others_drop_secret)
qed

lemma find_secret_mine:
  "find_secret owner sc key rows = find_secret owner sc key (filter (\<lambda>r. r_owner r = owner) rows)"
  by (induction rows) (auto simp: find_secret_def)

lemma list_secret_mine:
  "filter (\<lambda>r. r_owner r = owner \<and> P r) (visible now token rows) =
   filter P (visible now token (filter (\<lambda>r. r_owner r = owner) rows))"
  by (induction rows) (auto simp: visible_def)

text \<open>C19. Secrets are private: no request changes what another owner finds under any of its
  secret keys, or sees when it lists them; this holds for requests of the host as well.\<close>

theorem secrets_private:
  assumes "apply_op op m = (res, m')" and "o' \<noteq> op_owner op"
  shows "mem_get_secret m' o' sc key = mem_get_secret m o' sc key \<and>
    mem_list_secret m' o' sc opts = mem_list_secret m o' sc opts"
proof -
  have env: "m_now m' = m_now m" "m_text m' = m_text m"
    using atomic_writeD(3) [OF atomic_apply_op assms(1)] by (simp_all add: same_env_def)
  show ?thesis
    unfolding mem_get_secret_def mem_list_secret_def find_secret_mine [of o' _ _ "secret _"]
      list_secret_mine env apply_op_secrets [OF assms] by simp
qed

theorem secrets_private_witness:
  "let op = PutSecret host_owner GlobalScope ''k'' (Text ''x'') default_put in
    mem_get_secret (snd (apply_op op demo_store)) ''ann'' GlobalScope ''k''
      = mem_get_secret demo_store ''ann'' GlobalScope ''k'' \<and>
    mem_list_secret (snd (apply_op op demo_store)) ''ann'' GlobalScope default_list
      = mem_list_secret demo_store ''ann'' GlobalScope default_list"
  unfolding Let_def by (rule secrets_private [OF surjective_pairing]) (simp add: host_owner_def)

theorem batch_protects_rows_witness:
  "let ops = [Delete ''bob'' GlobalScope ''k'' None,
              Put ''eve'' GlobalScope ''k'' (Text ''x'') default_put]
   in find_row ''global'' ''k'' (regular (snd (write_batch Independent ops demo_store))) =
     Some \<lparr>r_scope = ''global'', r_key = ''k'', r_value = ''v1'', r_ctype = ''text/plain'',
       r_created = 1000, r_updated = 1000, r_expires = None, r_version = 1, r_owner = ''ann''\<rparr>"
  unfolding Let_def
  by (rule batch_protects_rows [OF surjective_pairing])
    (simp_all add: demo_store_rows find_row_def row_expired_def host_owner_def)

section \<open>Quotas\<close>

lemma as_u64_small: "0 \<le> i \<Longrightarrow> i < 2 ^ 64 \<Longrightarrow> as_u64 i = nat i"
  by (simp add: as_u64_def)

lemma as_u64_le: "as_u64 i \<le> q \<Longrightarrow> 0 \<le> i \<Longrightarrow> i < 2 ^ 64 \<Longrightarrow> i \<le> int q"
  by (simp add: as_u64_small)

lemma expired_live_bytes:
  "row_bytes rows = expired_bytes now rows + row_bytes (filter (\<lambda>r. \<not> row_expired now r) rows)"
  unfolding expired_bytes_def row_bytes_def by (rule sum_list_filter_split)

lemma put_regular_quota:
  assumes wf: "tables_wf t used"
    and res: "put_regular_rows quota owner sc key b ct opts now t used = Inr (v, ef, t')"
    and fits: "row_bytes (t_regular t') < 2 ^ 64"
  shows "row_bytes (filter (\<lambda>r. \<not> row_expired now r) (t_regular t')) \<le> int quota"
proof -
  let ?rest = "drop_row sc key (t_regular t)"
  let ?projected = "used - row_size (find_row sc key (t_regular t)) + int (length b)"
  have dist: "distinct (map row_pk (t_regular t))" and used: "used = row_bytes (t_regular t)"
    using wf by (simp_all add: tables_wf_def)
  have rest: "?projected = row_bytes ?rest + int (length b)"
    using row_bytes_drop [OF dist, of sc key] by (simp add: used)
  have total: "row_bytes (t_regular t') = ?projected"
  proof -
    have "ef_used ef = Some ?projected"
      using res by (rule put_regular_rows_cases) simp_all
    moreover have "tables_wf t' (new_used ef used)"
      using put_regular_rows_keeps wf res unfolding body_keeps_def by blast
    ultimately show ?thesis by (simp add: tables_wf_def new_used_def)
  qed
  have quota: "check_regular_quota now (t_regular t) quota sc key ?projected = Inr ()"
    using res by (cases "live_or_expired now (find_row sc key (t_regular t))";
      cases "check_regular_quota now (t_regular t) quota sc key ?projected")
      (simp_all add: put_regular_rows_def Let_def sbind_def)
  have small: "0 \<le> ?projected" "?projected < 2 ^ 64"
    using fits row_bytes_nonneg [of "t_regular t'"] by (simp_all only: total)
  have exp: "expired_bytes now ?rest \<le> row_bytes ?rest" "0 \<le> expired_bytes now ?rest"
    using expired_live_bytes [of ?rest now] row_bytes_nonneg by (simp_all add: expired_bytes_def)
  have le: "?projected - expired_bytes now ?rest \<le> int quota"
  proof (cases "as_u64 ?projected > quota")
    case True
    then have "as_u64 (?projected - expired_bytes now ?rest) \<le> quota"
      using quota by (auto simp: check_regular_quota_def Let_def split: if_splits)
    moreover have "0 \<le> ?projected - expired_bytes now ?rest"
      using rest exp by simp
    ultimately show ?thesis using small exp by (simp add: as_u64_small)
  next
    case False
    then have "?projected \<le> int quota" using small by (simp add: as_u64_small)
    then show ?thesis using exp by simp
  qed
  have "expired_bytes now ?rest \<le> expired_bytes now (t_regular t')"
    using res
  proof (cases rule: put_regular_rows_cases)
    case fresh
    then show ?thesis by (simp add: expired_bytes_def)
  next
    case (rewrite r0)
    have "row_bytes (filter P (drop_row sc key rows)) \<le> row_bytes (filter P (update_row sc key f rows))"
      for P f rows
      by (induction rows) (auto simp: drop_row_def update_row_def)
    with rewrite show ?thesis by (simp add: expired_bytes_def)
  qed
  with le show ?thesis
    using expired_live_bytes [of "t_regular t'" now] total by simp
qed

lemma drop_secret_absent:
  "(owner, sc, key) \<notin> secret_pk ` set rows \<Longrightarrow> drop_secret owner sc key rows = rows"
  by (induction rows) (auto simp: drop_secret_def secret_pk_def)

lemma update_secret_absent:
  "(owner, sc, key) \<notin> secret_pk ` set rows \<Longrightarrow> update_secret owner sc key f rows = rows"
  by (induction rows) (auto simp: update_secret_def secret_pk_def)

lemma drop_secret_filter:
  "distinct (map secret_pk rows) \<Longrightarrow> find_secret owner sc key rows = Some r0 \<Longrightarrow> \<not> P r0 \<Longrightarrow>
   filter P (drop_secret owner sc key rows) = filter P rows"
proof (induction rows)
  case (Cons r rows)
  show ?case
  proof (cases "secret_pk r = (owner, sc, key)")
    case True
    with Cons.prems have "drop_secret owner sc key rows = rows"
      by (intro drop_secret_absent) auto
    with True Cons.prems show ?thesis
      by (auto simp: drop_secret_def find_secret_def secret_pk_def)
  next
    case False
    with Cons show ?thesis by (auto simp: drop_secret_def find_secret_def secret_pk_def)
  qed
qed (simp add: find_secret_def)

lemma update_secret_bytes:
  "distinct (map secret_pk rows) \<Longrightarrow> find_secret owner sc key rows = Some r0 \<Longrightarrow> P r0 \<Longrightarrow>
   (\<And>r. r_value (f r) = b) \<Longrightarrow>
   row_bytes (filter P (update_secret owner sc key f rows)) \<le>
     row_bytes (filter P rows) - int (length (r_value r0)) + int (length b) \<and>
   row_bytes (filter P rows) - int (length (r_value r0)) + int (length b) \<le>
     row_bytes (update_secret owner sc key f rows)"
proof (induction rows)
  case (Cons r rows)
  show ?case
  proof (cases "secret_pk r = (owner, sc, key)")
    case True
    with Cons.prems have "update_secret owner sc key f rows = rows"
      by (intro update_secret_absent) auto
    moreover have "row_bytes (filter P rows) \<le> row_bytes rows"
      by (induction rows) auto
    ultimately show ?thesis using True Cons.prems
      by (auto simp: update_secret_def find_secret_def secret_pk_def)
  next
    case False
    with Cons show ?thesis by (auto simp: update_secret_def find_secret_def secret_pk_def)
  qed
qed (simp add: find_secret_def)

lemma put_secret_quota:
  assumes wf: "distinct (map secret_pk (t_secret t))"
    and res: "put_secret_rows quota owner sc key b ct opts now t used = Inr (v, ef, t')"
    and fits: "row_bytes (t_secret t') < 2 ^ 64"
  shows "row_bytes (filter (\<lambda>r. r_owner r = owner \<and> \<not> row_expired now r) (t_secret t')) \<le> int quota"
proof -
  let ?P = "\<lambda>r. r_owner r = owner \<and> \<not> row_expired now r"
  let ?existing = "fst (live_or_expired now (find_secret owner sc key (t_secret t)))"
  let ?projected = "row_bytes (filter ?P (t_secret t)) - row_size ?existing + int (length b)"
  have quota: "as_u64 ?projected \<le> quota"
    using res by (cases "live_or_expired now (find_secret owner sc key (t_secret t))";
      cases "as_u64 ?projected > quota") (simp_all add: put_secret_rows_def Let_def)
  have part: "row_bytes (filter ?P rows) \<le> row_bytes rows" for rows
    by (induction rows) auto
  have "row_bytes (filter ?P (t_secret t')) \<le> ?projected \<and> ?projected \<le> row_bytes (t_secret t')"
    using res
  proof (cases rule: put_secret_rows_cases)
    case (fresh rows0)
    have "filter ?P rows0 = filter ?P (t_secret t)" "?existing = None"
      using fresh(1) drop_secret_filter [OF wf, of owner sc key _ ?P]
      by (auto simp: live_or_expired_def)
    then show ?thesis using fresh part [of rows0] by (auto simp: row_size_def)
  next
    case (rewrite r0)
    have "?P r0" using rewrite by (auto simp: find_secret_def find_Some_iff)
    from update_secret_bytes [where P = ?P, OF wf rewrite(1) this, of "rewrite_row b ct now opts v" b] rewrite
    show ?thesis by (simp add: live_or_expired_def row_size_def)
  qed
  moreover from this have "?projected \<le> int quota"
    using row_bytes_nonneg [of "filter ?P (t_secret t')"] fits by (intro as_u64_le [OF quota]) auto
  ultimately show ?thesis by (blast intro: order_trans)
qed

lemma write_step_body:
  assumes "write_step body m = (Inr v, m')"
  obtains ef where "body (m_now m) (m_tables m)
    (case m_unit m of Some st \<Rightarrow> us_used st | None \<Rightarrow> m_used m) = Inr (v, ef, m_tables m')"
proof (cases "m_unit m")
  case None
  with assms show thesis by (auto simp: write_step_alone split: sum.splits prod.splits intro: that)
next
  case (Some st)
  with assms show thesis
    by (auto simp: write_step_joined step_def Let_def split: sum.splits prod.splits intro: that)
qed

text \<open>C20. The quotas hold: after an accepted put to a reachable store, the values of the regular
  rows that have not expired take at most the regular quota; after an accepted secret put, the
  unexpired secrets of its owner take at most the quota per owner. The totals are taken to stay
  below 2^64 bytes, where the code's casts to \<open>u64\<close> are exact.\<close>

theorem quotas_hold:
  assumes "mem_reach jt cfg m" and "apply_op op m = (Inr out, m')"
    and "row_bytes (regular m') < 2 ^ 64" and "row_bytes (secret m') < 2 ^ 64"
  shows "case op of
      Put _ _ _ _ _ \<Rightarrow> row_bytes (filter (\<lambda>r. \<not> row_expired (m_now m) r) (regular m'))
        \<le> int (regular_quota_total_bytes (m_config m))
    | PutSecret owner _ _ _ _ \<Rightarrow>
        row_bytes (filter (\<lambda>r. r_owner r = owner \<and> \<not> row_expired (m_now m) r) (secret m'))
        \<le> int (secret_quota_per_owner_bytes (m_config m))
    | _ \<Rightarrow> True"
proof -
  have wf: "tables_wf (m_tables m) (case m_unit m of Some st \<Rightarrow> us_used st | None \<Rightarrow> m_used m)"
    using reach_wf [OF assms(1)] by (simp add: mem_wf_def)
  then have pk: "distinct (map secret_pk (secret m))" by (simp add: tables_wf_def)
  show ?thesis
  proof (cases op)
    case (Put owner sc key x opts)
    with apply_op_Inr [OF assms(2)] obtain v where "mem_put owner sc key x opts m = (Inr v, m')"
      by auto
    then show ?thesis using put_regular_quota [OF wf _ assms(3)] Put
      by (auto simp: mem_put_def split: sum.splits elim!: write_step_body)
  next
    case (PutSecret owner sc key x opts)
    with apply_op_Inr [OF assms(2)] obtain v
      where "mem_put_secret owner sc key x opts m = (Inr v, m')" by auto
    then show ?thesis using put_secret_quota [OF pk _ assms(4)] PutSecret
      by (auto simp: mem_put_secret_def split: sum.splits elim!: write_step_body)
  qed simp_all
qed

theorem quotas_hold_witness:
  "row_bytes (filter (\<lambda>r. \<not> row_expired (m_now demo_store) r)
     (regular (snd (apply_op (Put ''bob'' GlobalScope ''b'' (Text ''123'') default_put) demo_store))))
   \<le> int (regular_quota_total_bytes (m_config demo_store))"
proof -
  let ?op = "Put ''bob'' GlobalScope ''b'' (Text ''123'') default_put"
  have "apply_op ?op demo_store = (Inr (Version 1), snd (apply_op ?op demo_store))"
    by (rule pair_of_fst) code_simp
  moreover have "row_bytes (regular (snd (apply_op ?op demo_store))) < 2 ^ 64"
    "row_bytes (secret (snd (apply_op ?op demo_store))) < 2 ^ 64"
    by code_simp+
  ultimately show ?thesis using quotas_hold [OF demo_store_reach] by fastforce
qed

section \<open>Batches\<close>

lemma commit_begin: "m_unit m = None \<Longrightarrow> commit_unit (begin_unit m) = m"
  by (simp add: commit_unit_def begin_unit_def)

text \<open>The requests of a batch issued one by one, each a transaction of its own.\<close>

fun run_each :: "write_op list \<Rightarrow> memory \<Rightarrow> (mem_error + write_output) list \<times> memory" where
  "run_each [] m = ([], m)"
| "run_each (op # ops) m =
     (let (r, m1) = apply_op op m; (rs, m2) = run_each ops m1 in (r # rs, m2))"

lemma write_step_commit:
  assumes "m_unit m = Some st" and "write_step body m = (r, m')"
  shows "write_step body (commit_unit m) = (r, commit_unit m')"
  using assms
  by (auto simp: write_step_joined [OF assms(1)] write_step_alone commit_unit_def step_def
      stage_effect_def new_used_def split: sum.splits prod.splits option.splits)

lemma commit_unit_env [simp]:
  "m_config (commit_unit m) = m_config m" "m_text (commit_unit m) = m_text m"
  "m_unit (commit_unit m) = None"
  by (auto simp: commit_unit_def split: option.splits)

definition commit_commutes :: "(memory, mem_error, 'a) op \<Rightarrow> bool" where
  "commit_commutes f \<longleftrightarrow>
     (\<forall>m r m'. m_unit m \<noteq> None \<longrightarrow> f m = (r, m') \<longrightarrow> f (commit_unit m) = (r, commit_unit m'))"

lemma commit_commutes_step: "commit_commutes (write_step body)"
  by (auto simp: commit_commutes_def write_step_commit)

lemma commit_commutes_guarded:
  assumes "\<And>q b. commit_commutes (f q b)"
    and "\<And>m. g (commit_unit m) = g m" "\<And>m. q (commit_unit m) = q m"
  shows "commit_commutes (\<lambda>m. case g m of Inl e \<Rightarrow> (Inl e, m) | Inr b \<Rightarrow> f (q m) b m)"
  using assms by (auto simp: commit_commutes_def split: sum.splits)

lemma commit_commutes_map:
  "commit_commutes f \<Longrightarrow> commit_commutes (bnd f (\<lambda>x. ret (g x)))"
  unfolding commit_commutes_def bnd_def ret_def by (auto split: prod.splits sum.splits)

lemma check_entry_size_commit [simp]: "check_entry_size (commit_unit m) n = check_entry_size m n"
  by (simp add: check_entry_size_def)

lemma commit_commutes_ops:
  "commit_commutes (mem_put owner sc key value opts)"
  "commit_commutes (mem_delete owner sc key cas)"
  "commit_commutes (mem_put_secret owner sc key value opts)"
  "commit_commutes (mem_delete_secret owner sc key cas)"
  unfolding mem_put_def [abs_def] mem_delete_def [abs_def] mem_put_secret_def [abs_def]
    mem_delete_secret_def [abs_def]
  by (rule commit_commutes_guarded
      [where f = "\<lambda>q b. write_step (put_regular_rows q owner (as_token sc) key b (content_type value) opts)"
         and q = "\<lambda>m. regular_quota_total_bytes (m_config m)"]
      commit_commutes_guarded [where f = "\<lambda>_ _. write_step (delete_regular_rows owner (as_token sc) key cas)"]
      commit_commutes_guarded
      [where f = "\<lambda>q b. write_step (put_secret_rows q owner (as_token sc) key b (content_type value) opts)"
         and q = "\<lambda>m. secret_quota_per_owner_bytes (m_config m)"]
      commit_commutes_guarded [where f = "\<lambda>_ _. write_step (delete_secret_rows owner (as_token sc) key cas)"];
    simp add: commit_commutes_step)+

lemma apply_op_commit:
  assumes "m_unit m = Some st" and "apply_op op m = (r, m')"
  shows "apply_op op (commit_unit m) = (r, commit_unit m')"
proof -
  have "commit_commutes (apply_op op)"
    by (cases op) (simp_all add: commit_commutes_map commit_commutes_ops)
  with assms show ?thesis by (simp add: commit_commutes_def)
qed

lemma batch_loop_each:
  "m_unit m = Some st \<Longrightarrow> batch_loop Independent i ops m = (r, m') \<Longrightarrow>
   run_each ops (commit_unit m) = (outs, m2) \<Longrightarrow> r = Inr outs \<and> m2 = commit_unit m'"
proof (induction ops arbitrary: i m st r m' outs m2)
  case (Cons op ops)
  obtain r1 m1 where r1: "apply_op op m = (r1, m1)" by fastforce
  have each: "apply_op op (commit_unit m) = (r1, commit_unit m1)"
    by (rule apply_op_commit [OF Cons.prems(1) r1])
  obtain st1 where st1: "m_unit m1 = Some st1"
    using atomic_writeD(3) [OF atomic_apply_op r1] Cons.prems(1) by (auto simp: same_env_def)
  obtain outs1 m3 where rest: "run_each ops (commit_unit m1) = (outs1, m3)" by fastforce
  obtain r2 m2' where loop: "batch_loop Independent (Suc i) ops m1 = (r2, m2')" by fastforce
  from Cons.IH [OF st1 loop rest] have "r2 = Inr outs1" "m3 = commit_unit m2'" by auto
  with Cons.prems r1 each rest loop show ?case
    by (auto simp: Let_def split: sum.splits)
qed simp

text \<open>C16. An independent batch outside a unit is its requests issued one by one: the same answer
  to each, rejections included, and the same store afterwards, with the same change events in
  the same order.\<close>

theorem independent_batch:
  assumes "m_unit m = None"
  shows "write_batch Independent ops m = (let (outs, m') = run_each ops m in (Inr outs, m'))"
proof -
  obtain r m1 where loop: "batch_loop Independent 0 ops (begin_unit m) = (r, m1)" by fastforce
  obtain outs m2 where each: "run_each ops m = (outs, m2)" by fastforce
  have "r = Inr outs \<and> m2 = commit_unit m1"
    by (rule batch_loop_each [OF _ loop])
      (simp_all add: begin_unit_def [of m], simp flip: begin_unit_def [of m]
        add: commit_begin [OF assms] each)
  then show ?thesis using assms loop each by (simp add: write_batch_def)
qed

theorem independent_batch_witness:
  "write_batch Independent [Delete ''bob'' GlobalScope ''k'' None, Delete ''ann'' GlobalScope ''k'' None]
     demo_store =
   (let (outs, m') = run_each [Delete ''bob'' GlobalScope ''k'' None,
      Delete ''ann'' GlobalScope ''k'' None] demo_store in (Inr outs, m'))"
  by (rule independent_batch) code_simp

section \<open>Atomic batches\<close>

text \<open>The first request that is refused, with its error.\<close>

fun first_refused :: "(mem_error + write_output) list \<Rightarrow> (nat \<times> mem_error) option" where
  "first_refused [] = None"
| "first_refused (Inl e # outs) = Some (0, e)"
| "first_refused (Inr out # outs) = map_option (\<lambda>(i, e). (Suc i, e)) (first_refused outs)"

lemma batch_loop_until_refused:
  "run_each ops m = (outs, m') \<Longrightarrow>
   (case first_refused outs of
      None \<Rightarrow> batch_loop Atomic i ops m = (Inr outs, m')
    | Some (j, e) \<Rightarrow> \<exists>m1. batch_loop Atomic i ops m = (Inl (i + j, e), m1))"
proof (induction ops arbitrary: i m outs)
  case (Cons op ops)
  obtain r m1 where r: "apply_op op m = (r, m1)" by fastforce
  obtain rs where rs: "run_each ops m1 = (rs, m')" "outs = r # rs"
    using Cons.prems r by (auto simp: Let_def split: prod.splits)
  show ?case
  proof (cases r)
    case (Inl e)
    with r rs(2) show ?thesis by simp
  next
    case (Inr out)
    with Cons.IH [OF rs(1), of "Suc i"] r rs(2) show ?thesis by (auto split: option.splits)
  qed
qed simp

lemma run_each_commit:
  "m_unit m \<noteq> None \<Longrightarrow> run_each ops m = (outs, m') \<Longrightarrow> run_each ops (commit_unit m) = (outs, commit_unit m')"
proof (induction ops arbitrary: m outs)
  case (Cons op ops)
  obtain r m1 where r: "apply_op op m = (r, m1)" by fastforce
  obtain rs where rs: "run_each ops m1 = (rs, m')" "outs = r # rs"
    using Cons.prems(2) r by (auto simp: Let_def split: prod.splits)
  have "m_unit m1 \<noteq> None"
    using atomic_writeD(3) [OF atomic_apply_op r] Cons.prems(1) by (auto simp: same_env_def)
  from Cons.IH [OF this rs(1)] apply_op_commit [OF _ r] Cons.prems(1) rs(2) show ?case by auto
qed simp

text \<open>C15. An atomic batch is its requests issued one by one when none of them is refused: the same answers
  in the same order and the same store afterwards, with the same change events. When one is refused, the
  batch fails with the index and the error of the first that is, and the store is as it was before the
  batch. Both hold inside an open unit and outside of one.\<close>

theorem atomic_batch:
  "write_batch Atomic ops m =
     (let (outs, m') = run_each ops m
      in case first_refused outs of
           None \<Rightarrow> (Inr outs, m')
         | Some (i, e) \<Rightarrow> (Inl \<lparr>bf_index = Some i, bf_error = e\<rparr>, m))"
proof (cases "m_unit m")
  case (Some st)
  obtain outs m' where each: "run_each ops m = (outs, m')" by fastforce
  from batch_loop_until_refused [OF each, of 0] show ?thesis
    using each Some by (auto simp: write_batch_def split: option.splits)
next
  case None
  obtain outs m' where each: "run_each ops (begin_unit m) = (outs, m')" by fastforce
  have "m_unit (begin_unit m) \<noteq> None" by (simp add: begin_unit_def)
  from run_each_commit [OF this each] have "run_each ops m = (outs, commit_unit m')"
    by (simp add: commit_begin [OF None])
  with batch_loop_until_refused [OF each, of 0] show ?thesis
    using None by (auto simp: write_batch_def split: option.splits)
qed

end
