(* ===== verification/Memory_Queries.thy ===== *)
theory Memory_Queries
  imports Memory_Owners
begin

text \<open>
  What the queries of the memory store return and what the log pruning removes: listing by
  prefix with its order, the agreement of \<open>count\<close> with \<open>list\<close>, the page of a JSON query with the
  overflow of its bounds, and the two pruning operations.
\<close>

section \<open>Listing\<close>

lemma list_filter_prefix:
  "list_filter opts r \<longleftrightarrow>
     (case lo_prefix opts of None \<Rightarrow> True | Some p \<Rightarrow> prefix_ci p (r_key r)) \<and>
     (case lo_since opts of None \<Rightarrow> True | Some s \<Rightarrow> s \<le> r_updated r) \<and>
     (case lo_until opts of None \<Rightarrow> True | Some u \<Rightarrow> r_updated r < u)"
  by (auto simp: list_filter_def like_escape split: option.splits)

lemma row_entry_InrD:
  "row_entry jt w r = Inr e \<Longrightarrow> e_key e = r_key r \<and> e_scope e = r_scope r \<and>
     e_updated e = r_updated r \<and> e_version e = r_version r \<and> e_expires e = r_expires r \<and>
     from_db jt (r_ctype r) (r_value r) = Inr (e_value e)"
  by (auto simp: row_entry_def sbind_def split: sum.splits)

lemma collect_map:
  assumes "collect f xs = Inr ys" and "\<And>x y. x \<in> set xs \<Longrightarrow> f x = Inr y \<Longrightarrow> g y = h x"
  shows "map g ys = map h xs"
  using collect_InrD [OF assms(1)] assms(2)
  by (induction rule: list_all2_induct) auto

lemma list_page_all: "lo_limit opts = None \<Longrightarrow> lo_offset opts = None \<Longrightarrow> list_page opts xs = xs"
  by (simp add: list_page_def)

lemma mem_list_keys:
  assumes "mem_list m sc opts = Inr es" "lo_limit opts = None" "lo_offset opts = None"
  shows "map e_key es =
    map r_key (sort_key r_key (filter (list_filter opts) (visible (m_now m) (as_token sc) (regular m))))"
  using assms by (auto simp: mem_list_def list_page_all dest: row_entry_InrD intro!: collect_map)

lemma find_row_in:
  "distinct (map row_pk rows) \<Longrightarrow> r \<in> set rows \<Longrightarrow> find_row (r_scope r) (r_key r) rows = Some r"
  by (induction rows) (auto simp: find_row_def row_pk_def)

lemma mem_list_sorted:
  assumes "mem_wf m" "mem_list m sc opts = Inr es" "lo_limit opts = None" "lo_offset opts = None"
  shows "sorted_wrt (<) (map e_key es)"
proof -
  let ?rows = "filter (list_filter opts) (visible (m_now m) (as_token sc) (regular m))"
  have wf: "distinct (map row_pk (regular m))"
    using assms(1) by (simp add: mem_wf_def tables_wf_def)
  have "distinct (map r_key (visible now token rows))" if "distinct (map row_pk rows)"
    for now token and rows :: "mem_row list"
    using that by (induction rows) (auto simp: visible_def row_pk_def image_iff)
  from this [OF wf] have "distinct (map r_key ?rows)" by (rule distinct_map_filter_key)
  then have "distinct (map r_key (sort_key r_key ?rows))" by (simp add: distinct_map)
  then show ?thesis
    unfolding mem_list_keys [OF assms(2-4)] by (simp add: strict_sorted_iff)
qed

text \<open>Listing a scope of a reachable store without a page returns exactly the live rows of
  that scope whose key has the asked prefix (letters compared without regard to ASCII case, and
  percent, underscore and backslash as themselves) and whose last write lies in the asked window;
  keys come in strictly ascending order, and each entry is the one a lookup of its key returns.\<close>

theorem list_by_prefix:
  assumes "mem_reach jt cfg m" and "mem_list m sc opts = Inr es"
    and "lo_limit opts = None" and "lo_offset opts = None"
  shows "sorted_wrt (<) (map e_key es) \<and>
    (\<forall>key. key \<in> e_key ` set es \<longleftrightarrow> (\<exists>r \<in> set (regular m).
       r_scope r = as_token sc \<and> r_key r = key \<and> \<not> row_expired (m_now m) r \<and>
       (case lo_prefix opts of None \<Rightarrow> True | Some p \<Rightarrow> prefix_ci p key) \<and>
       (case lo_since opts of None \<Rightarrow> True | Some s \<Rightarrow> s \<le> r_updated r) \<and>
       (case lo_until opts of None \<Rightarrow> True | Some u \<Rightarrow> r_updated r < u)))"
proof
  let ?rows = "filter (list_filter opts) (visible (m_now m) (as_token sc) (regular m))"
  have keys: "map e_key es = map r_key (sort_key r_key ?rows)"
    by (rule mem_list_keys [OF assms(2-4)])
  show "sorted_wrt (<) (map e_key es)"
    by (rule mem_list_sorted [OF reach_wf [OF assms(1)] assms(2-4)])
  have "e_key ` set es = set (map e_key es)" by simp
  also have "\<dots> = r_key ` set ?rows" unfolding keys by simp
  finally have set: "e_key ` set es = r_key ` set ?rows" .
  show "\<forall>key. key \<in> e_key ` set es \<longleftrightarrow> (\<exists>r \<in> set (regular m).
       r_scope r = as_token sc \<and> r_key r = key \<and> \<not> row_expired (m_now m) r \<and>
       (case lo_prefix opts of None \<Rightarrow> True | Some p \<Rightarrow> prefix_ci p key) \<and>
       (case lo_since opts of None \<Rightarrow> True | Some s \<Rightarrow> s \<le> r_updated r) \<and>
       (case lo_until opts of None \<Rightarrow> True | Some u \<Rightarrow> r_updated r < u))"
    unfolding set visible_def list_filter_prefix by auto
qed

theorem list_by_prefix_witness:
  "let es = [\<lparr>e_scope = ''global'', e_key = ''k'', e_value = Text ''v1'', e_created = 1000,
      e_updated = 1000, e_expires = None, e_version = 1, e_owner = Some ''ann''\<rparr>];
     opts = default_list\<lparr>lo_prefix := Some ''K''\<rparr>
   in sorted_wrt (<) (map e_key es) \<and>
    (\<forall>key. key \<in> e_key ` set es \<longleftrightarrow> (\<exists>r \<in> set (regular demo_store).
       r_scope r = as_token GlobalScope \<and> r_key r = key \<and> \<not> row_expired (m_now demo_store) r \<and>
       (case lo_prefix opts of None \<Rightarrow> True | Some p \<Rightarrow> prefix_ci p key) \<and>
       (case lo_since opts of None \<Rightarrow> True | Some s \<Rightarrow> s \<le> r_updated r) \<and>
       (case lo_until opts of None \<Rightarrow> True | Some u \<Rightarrow> r_updated r < u)))"
  unfolding Let_def
  by (rule list_by_prefix [OF demo_store_reach]) code_simp+

section \<open>JSON queries\<close>

lemma query_page_ok:
  assumes "unat (case lo_offset opts of Some n \<Rightarrow> n | None \<Rightarrow> 0)
      + unat (case lo_limit opts of Some n \<Rightarrow> n | None \<Rightarrow> - 1) < 2 ^ 64"
  shows "query_page opts xs = Some
    (take (unat (case lo_limit opts of Some n \<Rightarrow> n | None \<Rightarrow> - 1))
      (drop (unat (case lo_offset opts of Some n \<Rightarrow> n | None \<Rightarrow> 0)) xs))"
  using assms by (auto simp: query_page_def Let_def take_drop min_def add.commute)

lemma query_page_overflow:
  assumes "lo_limit opts = None" "lo_offset opts = Some n" "0 < n" "unat n < length xs"
  shows "query_page opts xs = None"
proof -
  have "0 < unat n" using assms(3) by (simp add: word_less_nat_alt)
  then show ?thesis using assms by (simp add: query_page_def unat_max_word)
qed

text \<open>C24. The page of a JSON query, exactly, for every limit and every offset. An offset past the matches
  gives no match. Otherwise, with a limit, the page is the \<open>limit\<close> matches after the first \<open>offset\<close>, and
  the call panics when the two bounds add up to \<open>2 ^ 64\<close> or more; without a limit the page is all matches when
  there is no offset, and the call panics as soon as there is one. The matches are those of a listing,
  which has fewer than \<open>2 ^ 64\<close> entries.\<close>

theorem query_page_exact:
  assumes "mem_query m sc path expected opts = Inr page"
    and "mem_list m sc (opts\<lparr>lo_offset := None, lo_limit := None\<rparr>) = Inr es"
    and "length es < 2 ^ 64"
  defines "matched \<equiv> filter (query_match path expected) es"
    and "offset \<equiv> unat (case lo_offset opts of Some n \<Rightarrow> n | None \<Rightarrow> 0)"
  shows "page =
    (if offset \<ge> length matched then Some []
     else case lo_limit opts of
       Some n \<Rightarrow> if offset + unat n < 2 ^ 64 then Some (take (unat n) (drop offset matched)) else None
     | None \<Rightarrow> if offset = 0 then Some matched else None)"
proof -
  have page: "page = query_page opts matched"
    using assms(1,2) by (simp add: mem_query_def sbind_def matched_def)
  have len: "length matched < 2 ^ 64"
    unfolding matched_def by (rule le_less_trans [OF length_filter_le assms(3)])
  show ?thesis
  proof (cases "lo_limit opts")
    case None
    then show ?thesis
      using len by (auto simp: page query_page_def Let_def offset_def unat_max_word
          min_def split: option.splits)
  next
    case (Some n)
    then show ?thesis
      using query_page_ok [of opts matched] by (auto simp: page query_page_def Let_def offset_def not_less)
  qed
qed

text \<open>Two JSON entries that match, and a query that skips the first without a limit.\<close>

definition hit :: json where
  "hit = JObj [(''done'', JBool True)]"

definition query_store :: memory where
  "query_store =
     snd (run_each [Put ''ann'' GlobalScope ''a'' (Json hit) default_put,
       Put ''ann'' GlobalScope ''b'' (Json hit) default_put]
       (open_in_memory (table_text [(hit, ''1'')]) default_config 5))"

theorem query_page_exact_witness:
  "mem_query query_store GlobalScope ''done'' (JBool True) (default_list\<lparr>lo_offset := Some 1\<rparr>)
     = Inr None"
proof -
  let ?es = "map (\<lambda>k. \<lparr>e_scope = ''global'', e_key = k, e_value = Json hit, e_created = 5,
      e_updated = 5, e_expires = None, e_version = 1, e_owner = Some ''ann''\<rparr>) [''a'', ''b'']"
  let ?opts = "default_list\<lparr>lo_offset := Some 1\<rparr>"
  have list: "mem_list query_store GlobalScope (?opts\<lparr>lo_offset := None, lo_limit := None\<rparr>) = Inr ?es"
    by code_simp
  obtain page where
    page: "mem_query query_store GlobalScope ''done'' (JBool True) ?opts = Inr page"
    using list by (simp add: mem_query_def sbind_def)
  have "page = (if unat (1 :: u64) \<ge> length (filter (query_match ''done'' (JBool True)) ?es)
      then Some [] else None)"
    using query_page_exact [OF page list]
    by (simp add: default_list_def)
  also have "\<dots> = None" by code_simp
  finally show ?thesis using page by simp
qed

section \<open>Pruning\<close>

lemma mem_prune_rows:
  assumes "mem_prune_keep_recent prefix n m = (r, m')"
  shows "\<exists>P. regular m' = filter (\<lambda>r. \<not> P r) (regular m) \<and> secret m' = secret m \<and>
    r = Inr (length (regular m) - length (regular m')) \<and>
    P = (\<lambda>r. prefix_ci prefix (r_key r) \<and>
      (case prune_cutoff (like_prefix prefix) (min n (2 ^ 63 - 1)) (regular m) of
         None \<Rightarrow> False | Some k \<Rightarrow> r_key r \<le> k))"
proof -
  note defs = mem_prune_keep_recent_def prune_keep_rows_def delete_where_def Let_def
    like_prefix_eq like_escape
  show ?thesis
  proof (cases "m_unit m")
    case None
    with assms show ?thesis by (simp add: defs write_step_alone) (auto simp: like_escape)
  next
    case (Some st)
    with assms show ?thesis
      by (simp add: defs write_step_joined step_def) (auto simp: like_escape)
  qed
qed

lemma above_position:
  assumes "sorted_wrt (\<ge>) (ks :: 'a::linorder list)" "n < length ks"
  shows "length (filter (\<lambda>k. ks ! n < k) ks) \<le> n"
proof -
  have "ks ! (n + i) \<le> ks ! n" if "n + i < length ks" for i
    using assms(1) that by (cases i) (auto simp: sorted_wrt_iff_nth_less)
  then have "filter (\<lambda>k. ks ! n < k) (drop n ks) = []"
    using assms(2) by (auto simp: filter_empty_conv in_set_conv_nth not_less)
  then have "filter (\<lambda>k. ks ! n < k) ks = filter (\<lambda>k. ks ! n < k) (take n ks)"
    by (metis append_Nil2 append_take_drop_id filter_append)
  then show ?thesis
    by (metis length_filter_le length_take min.cobounded2 order_trans)
qed

lemma newest_first: "sorted_wrt (\<ge>) (rev (sort (xs :: 'a::linorder list)))"
  by (simp add: sorted_wrt_rev)

lemma length_filter_sort: "length (filter P (rev (sort xs))) = length (filter P xs)"
  by (simp add: filter_sort flip: rev_filter)

lemma prune_survivors:
  fixes n prefix rows
  defines "cutoff \<equiv> prune_cutoff (like_prefix prefix) n rows"
  shows "length (filter (\<lambda>r. prefix_ci prefix (r_key r) \<and> \<not> (case cutoff of None \<Rightarrow> False | Some k \<Rightarrow> r_key r \<le> k)) rows) \<le> n"
proof -
  let ?keys = "map r_key (filter (\<lambda>r. prefix_ci prefix (r_key r)) rows)"
  let ?ks = "rev (sort ?keys)"
  have cutoff: "cutoff = (if n < length ?ks then Some (?ks ! n) else None)"
    by (simp add: cutoff_def prune_cutoff_def like_prefix_eq like_escape Let_def)
  show ?thesis
  proof (cases "n < length ?ks")
    case True
    have "length (filter (\<lambda>k. ?ks ! n < k) ?keys) \<le> n"
      using above_position [OF newest_first True] by (simp only: length_filter_sort)
    moreover have "filter (\<lambda>k. ?ks ! n < k) ?keys =
        map r_key (filter (\<lambda>r. prefix_ci prefix (r_key r) \<and> ?ks ! n < r_key r) rows)"
      by (simp add: filter_map o_def conj_commute)
    ultimately show ?thesis using True by (simp add: cutoff not_le)
  next
    case False
    then show ?thesis by (simp add: cutoff)
  qed
qed

text \<open>Pruning a log to its n newest entries: at most n rows with the prefix remain, in the
  whole table; rows without the prefix and secrets stay; a removed row is older by key than every
  row with the prefix that remains; and the answer is the number of rows removed.\<close>

theorem prune_keeps_newest:
  assumes "mem_prune_keep_recent prefix n m = (r, m')"
  shows "length (filter (\<lambda>x. prefix_ci prefix (r_key x)) (regular m')) \<le> n \<and>
    filter (\<lambda>x. \<not> prefix_ci prefix (r_key x)) (regular m') =
      filter (\<lambda>x. \<not> prefix_ci prefix (r_key x)) (regular m) \<and> secret m' = secret m \<and>
    (\<forall>x \<in> set (regular m) - set (regular m'). \<forall>y \<in> set (regular m').
       prefix_ci prefix (r_key y) \<longrightarrow> r_key x < r_key y) \<and>
    r = Inr (length (regular m) - length (regular m'))"
proof -
  let ?cut = "prune_cutoff (like_prefix prefix) (min n (2 ^ 63 - 1)) (regular m)"
  let ?old = "\<lambda>x. case ?cut of None \<Rightarrow> False | Some k \<Rightarrow> r_key x \<le> k"
  have rows: "regular m' = filter (\<lambda>x. \<not> (prefix_ci prefix (r_key x) \<and> ?old x)) (regular m)"
      "secret m' = secret m" "r = Inr (length (regular m) - length (regular m'))"
    using mem_prune_rows [OF assms] by auto
  have "filter (\<lambda>x. prefix_ci prefix (r_key x)) (regular m') =
      filter (\<lambda>x. prefix_ci prefix (r_key x) \<and> \<not> ?old x) (regular m)"
    unfolding rows(1) by (auto intro: filter_cong)
  then have "length (filter (\<lambda>x. prefix_ci prefix (r_key x)) (regular m')) \<le> min n (2 ^ 63 - 1)"
    using prune_survivors [of prefix "min n (2 ^ 63 - 1)" "regular m"] by simp
  moreover have "filter (\<lambda>x. \<not> prefix_ci prefix (r_key x)) (regular m') =
      filter (\<lambda>x. \<not> prefix_ci prefix (r_key x)) (regular m)"
    unfolding rows(1) by (auto intro: filter_cong)
  moreover have "r_key x < r_key y"
    if "x \<in> set (regular m) - set (regular m')" "y \<in> set (regular m')" "prefix_ci prefix (r_key y)" for x y
    using that unfolding rows(1) by (auto split: option.splits)
  ultimately show ?thesis using rows(2,3) by auto
qed

definition log_store :: memory where
  "log_store = snd (run_each (map (\<lambda>k. Put ''ann'' GlobalScope k (Text ''x'') default_put)
     [''log.1'', ''log.3'', ''other'', ''log.2'']) (open_in_memory no_json default_config 5))"

theorem prune_keeps_newest_witness:
  "map r_key (regular log_store) = [''log.1'', ''log.3'', ''other'', ''log.2''] \<and>
   (let m' = snd (mem_prune_keep_recent ''log.'' 1 log_store) in
    length (filter (\<lambda>x. prefix_ci ''log.'' (r_key x)) (regular m')) \<le> 1 \<and>
    filter (\<lambda>x. \<not> prefix_ci ''log.'' (r_key x)) (regular m') =
      filter (\<lambda>x. \<not> prefix_ci ''log.'' (r_key x)) (regular log_store) \<and>
    secret m' = secret log_store \<and>
    (\<forall>x \<in> set (regular log_store) - set (regular m'). \<forall>y \<in> set (regular m').
       prefix_ci ''log.'' (r_key y) \<longrightarrow> r_key x < r_key y) \<and>
    fst (mem_prune_keep_recent ''log.'' 1 log_store) =
      Inr (length (regular log_store) - length (regular m')))"
proof
  show "map r_key (regular log_store) = [''log.1'', ''log.3'', ''other'', ''log.2'']"
    by code_simp
qed (unfold Let_def, rule prune_keeps_newest [OF surjective_pairing])

end
