(* ===== verification/F64.thy ===== *)
theory F64
  imports Json
begin

text \<open>
  The \<open>f64\<close> values the typed tasks compare: a value is its bit pattern, and a finite value is the
  integer \<open>f64_scaled\<close> over \<open>2 ^ 1074\<close>, the smallest positive one. With it comparisons, \<open>as f64\<close>
  of an integer (rounding to nearest, ties to even) and the test whether a decimal text denotes a
  fraction are exact computations on integers.
\<close>

section \<open>Bit patterns\<close>

definition f64_exp :: "u64 \<Rightarrow> nat" where
  "f64_exp b = unat (take_bit 11 (drop_bit 52 b))"

definition f64_mant :: "u64 \<Rightarrow> nat" where
  "f64_mant b = unat (take_bit 52 b)"

definition f64_finite :: "u64 \<Rightarrow> bool" where
  "f64_finite b \<longleftrightarrow> f64_exp b \<noteq> 2047"

definition f64_scaled :: "u64 \<Rightarrow> int" where
  "f64_scaled b =
     (let m = (if f64_exp b = 0 then f64_mant b else (2 ^ 52 + f64_mant b) * 2 ^ (f64_exp b - 1))
      in if bit b 63 then - int m else int m)"

text \<open>\<open><\<close>, \<open><=\<close> and their like on values that are not \<open>NaN\<close>.\<close>

definition f64_less :: "u64 \<Rightarrow> u64 \<Rightarrow> bool" where
  "f64_less a b \<longleftrightarrow> f64_scaled a < f64_scaled b"

definition f64_le :: "u64 \<Rightarrow> u64 \<Rightarrow> bool" where
  "f64_le a b \<longleftrightarrow> f64_scaled a \<le> f64_scaled b"

text \<open>\<open>f.fract() == 0.0\<close> on a finite value.\<close>

definition f64_integral :: "u64 \<Rightarrow> bool" where
  "f64_integral b \<longleftrightarrow> (2 ^ 1074) dvd f64_scaled b"

section \<open>Rounding\<close>

fun bit_len :: "nat \<Rightarrow> nat" where
  "bit_len n = (if n = 0 then 0 else Suc (bit_len (n div 2)))"

declare bit_len.simps [simp del]

definition round_half_even :: "nat \<Rightarrow> nat \<Rightarrow> nat" where
  "round_half_even n d =
     (let q = n div d; r = n mod d
      in if 2 * r < d \<or> (2 * r = d \<and> even q) then q else q + 1)"

text \<open>
  \<open>i as f64\<close>: the 53 most significant bits, rounded; a carry out of the mantissa moves into the
  exponent field by itself.
\<close>

definition f64_of_int :: "int \<Rightarrow> u64" where
  "f64_of_int i =
     (let n = nat \<bar>i\<bar>; k = bit_len n;
          m = (if k \<le> 53 then n * 2 ^ (53 - k) else round_half_even n (2 ^ (k - 53)))
      in if n = 0 then 0
         else of_nat ((k + 1022) * 2 ^ 52 + (m - 2 ^ 52) + (if i < 0 then 2 ^ 63 else 0)))"

section \<open>Numbers of a JSON value\<close>

text \<open>\<open>Number::as_i64\<close>, \<open>is_u64\<close>, \<open>as_f64\<close>. A \<open>NegInt\<close> holds an \<open>i64\<close>.\<close>

definition in_i64 :: "int \<Rightarrow> bool" where
  "in_i64 i \<longleftrightarrow> - (2 ^ 63) \<le> i \<and> i < 2 ^ 63"

fun num_as_i64 :: "jnumber \<Rightarrow> int option" where
  "num_as_i64 (PosInt n) = (if unat n < 2 ^ 63 then Some (int (unat n)) else None)"
| "num_as_i64 (NegInt i) = (if in_i64 i then Some i else None)"
| "num_as_i64 (FloatBits _) = None"

fun num_is_u64 :: "jnumber \<Rightarrow> bool" where
  "num_is_u64 (PosInt _) = True"
| "num_is_u64 _ = False"

fun num_as_f64 :: "jnumber \<Rightarrow> u64" where
  "num_as_f64 (PosInt n) = f64_of_int (int (unat n))"
| "num_as_f64 (NegInt i) = f64_of_int i"
| "num_as_f64 (FloatBits b) = b"

text \<open>\<open>Number::from(i64)\<close>.\<close>

definition num_of_i64 :: "int \<Rightarrow> jnumber" where
  "num_of_i64 i = (if i < 0 then NegInt i else PosInt (of_nat (nat i)))"

lemma in_i64_of_nat: "in_i64 (int k) \<longleftrightarrow> k < 2 ^ 63"
  by (auto simp: in_i64_def)

lemma num_as_i64_range:
  assumes "num_as_i64 n = Some i"
  shows "in_i64 i"
proof (cases n)
  case (PosInt k)
  with assms have "unat k < 2 ^ 63" "i = int (unat k)" by (simp_all only: num_as_i64.simps option.inject split: if_splits) auto
  then show ?thesis by (simp only: in_i64_of_nat)
qed (use assms in \<open>auto split: if_splits\<close>)

lemma num_as_of_i64:
  assumes "in_i64 i"
  shows "num_as_i64 (num_of_i64 i) = Some i"
proof (cases "i < 0")
  case False
  have "unat (of_nat (nat i) :: u64) = nat i"
    using assms by (subst unat_of_nat) (auto simp: in_i64_def nat_less_iff intro!: mod_less)
  with False assms show ?thesis by (simp add: num_of_i64_def in_i64_def nat_less_iff del: of_nat_nat)
qed (use assms in \<open>simp add: num_of_i64_def\<close>)

section \<open>Decimal texts\<close>

text \<open>
  Whether the \<open>f64\<close> nearest to \<open>num / den\<close> is finite and not an integer. From \<open>2 ^ 52\<close> on every
  value is an integer; below, the grid is \<open>2 ^ - sh\<close>, at the finest \<open>2 ^ - 1074\<close>.
\<close>

definition rounds_to_fraction :: "nat \<Rightarrow> nat \<Rightarrow> bool" where
  "rounds_to_fraction num den =
     (if num = 0 \<or> 2 ^ 52 * den \<le> num then False
      else let sh = min 1074 (if den \<le> num then 53 - bit_len (num div den)
                              else 52 + bit_len ((den - 1) div num))
           in \<not> (2 ^ sh) dvd round_half_even (num * 2 ^ sh) den)"

text \<open>
  \<open>s.parse::<f64>().is_ok_and(|f| f.is_finite() && f.fract() != 0.0)\<close>: an optional sign, digits
  with at most one point and at least one digit, an optional exponent. The words for infinities
  and \<open>NaN\<close> parse to values that are not finite.
\<close>

definition strip_sign :: "string \<Rightarrow> string" where
  "strip_sign s = (case s of c # cs \<Rightarrow> if c = CHR ''+'' \<or> c = CHR ''-'' then cs else s | [] \<Rightarrow> [])"

definition parse_exponent :: "string \<Rightarrow> int option" where
  "parse_exponent s =
     (case s of
        [] \<Rightarrow> Some 0
      | c # cs \<Rightarrow>
          if c = CHR ''e'' \<or> c = CHR ''E'' then
            (let ds = strip_sign cs
             in if ds \<noteq> [] \<and> list_all is_digit ds
                then Some (if hd cs = CHR ''-'' then - int (digits_value ds) else int (digits_value ds))
                else None)
          else None)"

definition decimal_fraction :: "string \<Rightarrow> bool" where
  "decimal_fraction s =
     (let t = strip_sign s;
          whole = takeWhile is_digit t;
          rest = dropWhile is_digit t;
          (frac, tail) = (case rest of
             c # cs \<Rightarrow> if c = CHR ''.'' then (takeWhile is_digit cs, dropWhile is_digit cs)
                       else ([], rest)
           | [] \<Rightarrow> ([], []))
      in if whole @ frac = [] then False
         else case parse_exponent tail of
                None \<Rightarrow> False
              | Some e \<Rightarrow>
                  (let n = digits_value (whole @ frac); x = e - int (length frac)
                   in if 0 \<le> x then rounds_to_fraction (n * 10 ^ nat x) 1
                      else rounds_to_fraction n (10 ^ nat (- x))))"

lemma f64_samples:
  "f64_of_int 1 = 0x3FF0000000000000" "f64_of_int (- 2) = 0xC000000000000000"
  "f64_of_int (2 ^ 53 + 1) = f64_of_int (2 ^ 53)"
  by code_simp+

lemma decimal_fraction_samples:
  "\<not> decimal_fraction ''abc''" "\<not> decimal_fraction ''inf''"
  by code_simp+

end
