(* ===== verification/Task_Types.thy ===== *)
theory Task_Types
  imports F64 Memory
begin

text \<open>
  The value types of a task contract (\<open>task/types.rs\<close> with \<open>types/assign.rs\<close> and \<open>types/value.rs\<close>):
  schemas, their JSON form, the check of declarations, the validation of a value against a schema,
  typed values, and the assignability of one schema to another. A \<open>BTreeMap\<close> is an association
  list in ascending key order. The texts of an error are kept as what is put into them.
\<close>

section \<open>Schemas and errors\<close>

datatype type_schema = TypeSchema (ts_kind: type_kind) (ts_nullable: bool)
and type_kind =
    KBoolean
  | KInt64
  | KFloat64 "u64 option" "u64 option"
  | KString "u32 option"
  | KEnum "string list"
  | KObject "(string \<times> field_schema) list"
  | KList type_schema "u32 option"
  | KUnit
  | KJson
  | KRef string
and field_schema =
    FieldSchema (fs_schema: type_schema) (fs_optional: bool) (fs_default: "json option")

definition max_schema_depth :: nat where "max_schema_depth = 32"
definition max_value_depth :: nat where "max_value_depth = 64"
definition max_type_bytes :: nat where "max_type_bytes = 256 * 1024"

definition plain_schema :: "type_kind \<Rightarrow> type_schema" where
  "plain_schema k = TypeSchema k False"

abbreviation unit_schema :: type_schema where "unit_schema \<equiv> plain_schema KUnit"
abbreviation json_schema :: type_schema where "json_schema \<equiv> plain_schema KJson"
abbreviation int64_schema :: type_schema where "int64_schema \<equiv> plain_schema KInt64"
abbreviation string_schema :: type_schema where "string_schema \<equiv> plain_schema (KString None)"

datatype type_error_kind =
    InvalidSchema | UnknownTypeRef | RecursiveType | TypeMismatch | NotInteger | OutOfRange
  | NotFinite | UnknownEnumValue | NullNotAllowed | MissingField | UnexpectedField | TooLong
  | TooDeep | TooLarge | Incompatible

text \<open>\<open>Describe\<close> stands for the text of \<open>TypeSchema::describe\<close>, \<open>Shown\<close> for that of \<open>describe_value\<close>.\<close>

datatype type_text =
    Plain string
  | Describe type_schema
  | Shown json
  | Bounds u64 u64
  | RefChain "string list" string
  | NoMember type_schema string

record type_error =
  te_kind :: type_error_kind
  te_path :: string
  te_expected :: type_text
  te_actual :: type_text

definition terr :: "type_error_kind \<Rightarrow> string \<Rightarrow> type_text \<Rightarrow> type_text \<Rightarrow> type_error + 'a" where
  "terr k path expected actual =
     Inl \<lparr>te_kind = k, te_path = path, te_expected = expected, te_actual = actual\<rparr>"

definition invalid_schema :: "string \<Rightarrow> type_text \<Rightarrow> type_text \<Rightarrow> type_error + 'a" where
  "invalid_schema path expected actual = terr InvalidSchema path expected actual"

definition escape_token :: "string \<Rightarrow> string" where
  "escape_token token = concat (map (\<lambda>c.
     if c = CHR ''~'' then ''~0'' else if c = CHR ''/'' then ''~1'' else [c]) token)"

definition child_path :: "string \<Rightarrow> string \<Rightarrow> string" where
  "child_path path token = path @ CHR ''/'' # escape_token token"

definition dquoted :: "string \<Rightarrow> string" where
  "dquoted s = CHR 0x22 # s @ [CHR 0x22]"

definition squoted :: "string \<Rightarrow> string" where
  "squoted s = CHR 0x27 # s @ [CHR 0x27]"

section \<open>The JSON form of a schema\<close>

definition opt_entry :: "string \<Rightarrow> ('a \<Rightarrow> json) \<Rightarrow> 'a option \<Rightarrow> jobject \<Rightarrow> jobject" where
  "opt_entry k f ov m = (case ov of None \<Rightarrow> m | Some v \<Rightarrow> obj_insert k (f v) m)"

fun kind_name :: "type_kind \<Rightarrow> string" where
  "kind_name KBoolean = ''boolean''"
| "kind_name KInt64 = ''int64''"
| "kind_name (KFloat64 _ _) = ''float64''"
| "kind_name (KString _) = ''string''"
| "kind_name (KEnum _) = ''enum''"
| "kind_name (KObject _) = ''object''"
| "kind_name (KList _ _) = ''list''"
| "kind_name KUnit = ''unit''"
| "kind_name KJson = ''json''"
| "kind_name (KRef _) = ''ref''"

text \<open>\<open>write_json\<close>: the entries a schema adds to an object.\<close>

fun write_schema :: "type_schema \<Rightarrow> jobject \<Rightarrow> jobject"
and write_field :: "field_schema \<Rightarrow> json" where
  "write_schema (TypeSchema kind nullable) m0 =
     (let m1 = (case kind of
                  KRef name \<Rightarrow> obj_insert ''ref'' (JStr name) m0
                | _ \<Rightarrow> obj_insert ''type'' (JStr (kind_name kind)) m0);
          m2 = (case kind of
                  KFloat64 lo hi \<Rightarrow>
                    opt_entry ''max'' (\<lambda>b. JNum (FloatBits b)) hi
                      (opt_entry ''min'' (\<lambda>b. JNum (FloatBits b)) lo m1)
                | KString mx \<Rightarrow> opt_entry ''max_len'' ju32 mx m1
                | KEnum vs \<Rightarrow> obj_insert ''values'' (JArr (map JStr vs)) m1
                | KObject fs \<Rightarrow> obj_insert ''fields''
                    (JObj (map (\<lambda>(name, f). (name, write_field f)) fs)) m1
                | KList items mx \<Rightarrow> opt_entry ''max_len'' ju32 mx
                    (obj_insert ''items'' (JObj (write_schema items [])) m1)
                | _ \<Rightarrow> m1)
      in if nullable then obj_insert ''nullable'' (JBool True) m2 else m2)"
| "write_field (FieldSchema s opt dflt) =
     (let m = write_schema s [];
          m' = (if opt then obj_insert ''optional'' (JBool True) m else m)
      in JObj (opt_entry ''default'' (\<lambda>v. v) dflt m'))"

definition schema_to_json :: "type_schema \<Rightarrow> json" where
  "schema_to_json s = JObj (write_schema s [])"

definition opt_u32 :: "jobject \<Rightarrow> string \<Rightarrow> string \<Rightarrow> type_error + u32 option" where
  "opt_u32 m key path =
     (case map_of m key of
        None \<Rightarrow> Inr None
      | Some v \<Rightarrow>
          (case un_u32 v of
             Some n \<Rightarrow> Inr (Some n)
           | None \<Rightarrow> invalid_schema (child_path path key) (Plain ''unsigned 32-bit integer'') (Shown v)))"

definition opt_finite :: "jobject \<Rightarrow> string \<Rightarrow> string \<Rightarrow> type_error + u64 option" where
  "opt_finite m key path =
     (case map_of m key of
        None \<Rightarrow> Inr None
      | Some v \<Rightarrow>
          (case v of
             JNum n \<Rightarrow> if f64_finite (num_as_f64 n) then Inr (Some (num_as_f64 n))
               else invalid_schema (child_path path key) (Plain ''finite number'') (Shown v)
           | _ \<Rightarrow> invalid_schema (child_path path key) (Plain ''finite number'') (Shown v)))"

definition opt_flag :: "jobject \<Rightarrow> string \<Rightarrow> string \<Rightarrow> type_error + bool" where
  "opt_flag m key path =
     (case map_of m key of
        None \<Rightarrow> Inr False
      | Some (JBool b) \<Rightarrow> Inr b
      | Some other \<Rightarrow> invalid_schema (child_path path key) (Plain ''boolean'') (Shown other))"

fun enum_items :: "string \<Rightarrow> nat \<Rightarrow> string list \<Rightarrow> json list \<Rightarrow> type_error + string list" where
  "enum_items vpath i seen [] = Inr []"
| "enum_items vpath i seen (item # items) =
     (case item of
        JStr s \<Rightarrow>
          if s \<in> set seen
          then invalid_schema (child_path vpath (show_nat i)) (Plain ''unique value'')
                 (Plain (''duplicate '' @ dquoted s))
          else sbind (enum_items vpath (Suc i) (s # seen) items) (\<lambda>vs. Inr (s # vs))
      | _ \<Rightarrow> invalid_schema (child_path vpath (show_nat i)) (Plain ''string'') (Shown item))"

definition parse_enum_values :: "jobject \<Rightarrow> string \<Rightarrow> type_error + string list" where
  "parse_enum_values m path =
     (let vpath = child_path path ''values'' in
      case map_of m ''values'' of
        Some (JArr arr) \<Rightarrow>
          if arr = [] then invalid_schema vpath (Plain ''at least one value'') (Plain ''empty array'')
          else enum_items vpath 0 [] arr
      | _ \<Rightarrow> invalid_schema vpath (Plain ''array of strings'') (Plain ''missing or not an array''))"

definition parse_float_kind :: "jobject \<Rightarrow> string \<Rightarrow> type_error + type_kind" where
  "parse_float_kind m path =
     sbind (opt_finite m ''min'' path) (\<lambda>lo.
     sbind (opt_finite m ''max'' path) (\<lambda>hi.
       case (lo, hi) of
         (Some a, Some b) \<Rightarrow>
           if f64_less b a then invalid_schema path (Plain ''min <= max'') (Bounds a b)
           else Inr (KFloat64 lo hi)
       | _ \<Rightarrow> Inr (KFloat64 lo hi)))"

text \<open>The keys a kind of schema takes besides \<open>type\<close> and \<open>nullable\<close>.\<close>

fun kind_keys :: "type_kind \<Rightarrow> string list" where
  "kind_keys (KFloat64 _ _) = [''min'', ''max'']"
| "kind_keys (KString _) = [''max_len'']"
| "kind_keys (KEnum _) = [''values'']"
| "kind_keys (KObject _) = [''fields'']"
| "kind_keys (KList _ _) = [''items'', ''max_len'']"
| "kind_keys (KRef _) = [''ref'']"
| "kind_keys _ = []"

text \<open>What follows the kind: no key is unknown, and \<open>unit\<close> and \<open>json\<close> take no \<open>nullable\<close>.\<close>

definition finish_schema ::
  "jobject \<Rightarrow> string \<Rightarrow> bool \<Rightarrow> bool \<Rightarrow> type_kind \<Rightarrow> type_error + type_schema" where
  "finish_schema m path as_field nullable kind =
     (case find (\<lambda>k. \<not> (k \<in> set [''type'', ''nullable''] \<or> k \<in> set (kind_keys kind)
                  \<or> as_field \<and> k \<in> set [''optional'', ''default''])) (map fst m) of
        Some key \<Rightarrow> terr UnexpectedField (child_path path key) (Plain ''a declared schema key'')
          (Plain (dquoted key))
      | None \<Rightarrow>
          if nullable \<and> (kind = KUnit \<or> kind = KJson)
          then invalid_schema (child_path path ''nullable'') (Plain (''no '' @ squoted ''nullable'' @ '' on unit or json''))
                 (Plain ''nullable: true'')
          else Inr (TypeSchema kind nullable))"

text \<open>
  \<open>parse_schema\<close>: a schema with the flags of a field. The depth bound ends the recursion.
\<close>

function parse_schema ::
  "json \<Rightarrow> string \<Rightarrow> nat \<Rightarrow> bool \<Rightarrow> type_error + (type_schema \<times> bool \<times> json option)" where
  "parse_schema v path depth as_field =
     (if max_schema_depth < depth
      then terr TooDeep path (Plain ''schema depth <= 32'') (Plain ''deeper schema'')
      else case v of
        JObj m \<Rightarrow>
          sbind (opt_flag m ''nullable'' path) (\<lambda>nullable.
          sbind (if as_field then opt_flag m ''optional'' path else Inr False) (\<lambda>optional.
          let dflt = (if as_field then map_of m ''default'' else None) in
          sbind
            (case map_of m ''ref'' of
               Some r \<Rightarrow>
                 if map_of m ''type'' \<noteq> None
                 then invalid_schema path (Plain (''either '' @ squoted ''type'' @ '' or '' @ squoted ''ref''))
                        (Plain ''both'')
                 else (case r of
                     JStr name \<Rightarrow> Inr (KRef name)
                   | _ \<Rightarrow> invalid_schema (child_path path ''ref'') (Plain ''type name'') (Shown r))
             | None \<Rightarrow>
                 (case map_of m ''type'' of
                    None \<Rightarrow> invalid_schema path (Plain (squoted ''type'' @ '' or '' @ squoted ''ref''))
                      (Plain ''neither'')
                  | Some (JStr ty) \<Rightarrow>
                      if ty = ''boolean'' then Inr KBoolean
                      else if ty = ''int64'' then Inr KInt64
                      else if ty = ''float64'' then parse_float_kind m path
                      else if ty = ''string'' then
                        sbind (opt_u32 m ''max_len'' path) (\<lambda>mx. Inr (KString mx))
                      else if ty = ''enum'' then
                        sbind (parse_enum_values m path) (\<lambda>vs. Inr (KEnum vs))
                      else if ty = ''object'' then
                        (let fpath = child_path path ''fields'' in
                         case map_of m ''fields'' of
                           Some (JObj fm) \<Rightarrow>
                             sbind (collect (\<lambda>(name, fv).
                                 sbind (parse_schema fv (child_path fpath name) (depth + 1) True)
                                   (\<lambda>(s, opt, d). Inr (name, FieldSchema s opt d))) fm)
                               (\<lambda>fs. Inr (KObject fs))
                         | _ \<Rightarrow> invalid_schema fpath (Plain ''object of field schemas'')
                                 (Plain ''missing or not an object''))
                      else if ty = ''list'' then
                        (case map_of m ''items'' of
                           None \<Rightarrow> invalid_schema path (Plain (squoted ''items'' @ '' schema''))
                             (Plain ''missing'')
                         | Some iv \<Rightarrow>
                             sbind (parse_schema iv (child_path path ''items'') (depth + 1) False)
                               (\<lambda>(items, _). sbind (opt_u32 m ''max_len'' path)
                                 (\<lambda>mx. Inr (KList items mx))))
                      else if ty = ''unit'' then Inr KUnit
                      else if ty = ''json'' then Inr KJson
                      else invalid_schema (child_path path ''type'')
                        (Plain ''boolean|int64|float64|string|enum|object|list|unit|json'')
                        (Plain (dquoted ty))
                  | Some other \<Rightarrow>
                      invalid_schema (child_path path ''type'') (Plain ''type name'') (Shown other)))
            (\<lambda>kind. sbind (finish_schema m path as_field nullable kind)
               (\<lambda>s. Inr (s, optional, dflt)))))
      | _ \<Rightarrow> invalid_schema path (Plain ''schema object'') (Shown v))"
  by pat_completeness auto
termination
  by (relation "measure (\<lambda>(v, path, depth, as_field). Suc max_schema_depth - depth)")
    (auto simp: max_schema_depth_def)

declare parse_schema.simps [simp del]

definition schema_from_json :: "json \<Rightarrow> type_error + type_schema" where
  "schema_from_json v = sbind (parse_schema v [] 0 False) (\<lambda>(s, _). Inr s)"

section \<open>Named types\<close>

type_synonym type_defs = "(string \<times> type_schema) list"

text \<open>\<open>resolve\<close> follows references, at most \<open>MAX_SCHEMA_DEPTH\<close> of them, so that a cycle is an error.\<close>

fun resolve_loop :: "nat \<Rightarrow> type_defs \<Rightarrow> type_schema \<Rightarrow> bool \<Rightarrow> type_error + (type_kind \<times> bool)" where
  "resolve_loop left defs cur nullable =
     (case ts_kind cur of
        KRef name \<Rightarrow>
          (case left of
             0 \<Rightarrow> terr RecursiveType [] (Plain ''a non-recursive type'') (Plain (dquoted name))
           | Suc left' \<Rightarrow>
               (case map_of defs name of
                  None \<Rightarrow> terr UnknownTypeRef [] (Plain (''a type declared in '' @ squoted ''types''))
                    (Plain (dquoted name))
                | Some nxt \<Rightarrow> resolve_loop left' defs nxt (nullable \<or> ts_nullable nxt)))
      | k \<Rightarrow> Inr (k, nullable))"

declare resolve_loop.simps [simp del]

definition resolve :: "type_defs \<Rightarrow> type_schema \<Rightarrow> type_error + (type_kind \<times> bool)" where
  "resolve defs s = resolve_loop max_schema_depth defs s (ts_nullable s)"

section \<open>Values\<close>

text \<open>
  \<open>int64_of\<close>: a canonical decimal text or an integer token. A minus sign is not a digit, so
  \<open>parse::<i64>\<close> of a canonical text can only fail on its range.
\<close>

definition i64_of_text :: "string \<Rightarrow> int" where
  "i64_of_text s =
     (case s of
        c # cs \<Rightarrow> if c = CHR ''-'' then - int (digits_value cs) else int (digits_value s)
      | [] \<Rightarrow> 0)"

definition canonical_int :: "string \<Rightarrow> bool" where
  "canonical_int s \<longleftrightarrow>
     (let digits = (case s of c # cs \<Rightarrow> if c = CHR ''-'' then cs else s | [] \<Rightarrow> s)
      in digits \<noteq> [] \<and> list_all is_digit digits \<and> (digits = ''0'' \<or> hd digits \<noteq> CHR ''0'')
         \<and> s \<noteq> ''-0'')"

fun int64_of :: "json \<Rightarrow> type_error_kind + int" where
  "int64_of (JStr s) =
     (if canonical_int s
      then (if in_i64 (i64_of_text s) then Inr (i64_of_text s) else Inl OutOfRange)
      else if decimal_fraction s then Inl NotInteger
      else Inl TypeMismatch)"
| "int64_of (JNum n) =
     (case num_as_i64 n of
        Some i \<Rightarrow> Inr i
      | None \<Rightarrow>
          if num_is_u64 n then Inl OutOfRange
          else if f64_integral (num_as_f64 n) \<and> 2 ^ 63 * 2 ^ 1074 \<le> \<bar>f64_scaled (num_as_f64 n)\<bar>
          then Inl OutOfRange
          else Inl NotInteger)"
| "int64_of _ = Inl TypeMismatch"

text \<open>\<open>float_of\<close>: an integer token only if \<open>f64\<close> holds it exactly.\<close>

definition float_of :: "jnumber \<Rightarrow> u64 option" where
  "float_of n =
     (case n of
        FloatBits b \<Rightarrow> Some b
      | PosInt k \<Rightarrow> (let f = f64_of_int (int (unat k)) in
          if f64_scaled f = int (unat k) * 2 ^ 1074 then Some f else None)
      | NegInt i \<Rightarrow> (let f = f64_of_int i in
          if f64_scaled f = i * 2 ^ 1074 then Some f else None))"

text \<open>\<open>s.chars().count()\<close>: every character has one byte that does not continue another.\<close>

definition char_count :: "string \<Rightarrow> nat" where
  "char_count s = length (filter (\<lambda>c. \<not> utf8_cont c) s)"

text \<open>\<open>json_depth\<close> with its explicit stack; the head of the list is the top of the stack.\<close>

fun json_children :: "json \<Rightarrow> json list" where
  "json_children (JArr a) = a"
| "json_children (JObj m) = map snd m"
| "json_children _ = []"

lemma size_children: "sum_list (map (Suc \<circ> size) (json_children v)) < Suc (size v)"
proof (cases v)
  case (JArr a)
  then show ?thesis by (simp add: size_list_conv_sum_list sum_list_Suc comp_def)
next
  case (JObj m)
  have "sum_list (map (Suc \<circ> size \<circ> snd) m) \<le> size_list (size_prod (\<lambda>x. 0) size) m"
    by (induction m) (auto simp: size_prod_simp)
  with JObj show ?thesis by (simp add: comp_def)
qed auto

function depth_loop :: "nat \<Rightarrow> (json \<times> nat) list \<Rightarrow> nat" where
  "depth_loop mx [] = mx"
| "depth_loop mx ((cur, d) # stack) =
     depth_loop (max mx d) (rev (map (\<lambda>x. (x, d + 1)) (json_children cur)) @ stack)"
  by pat_completeness auto
termination
proof (relation "measure (\<lambda>(mx, stack). sum_list (map (Suc \<circ> size \<circ> fst) stack))")
  fix mx d :: nat and cur :: json and stack
  have "map (Suc \<circ> size \<circ> fst) (rev (map (\<lambda>x. (x, Suc d)) (json_children cur))) =
    rev (map (Suc \<circ> size) (json_children cur))"
    by (simp add: rev_map)
  then have "sum_list (map (Suc \<circ> size \<circ> fst) (rev (map (\<lambda>x. (x, Suc d)) (json_children cur)))) =
    sum_list (map (Suc \<circ> size) (json_children cur))"
    by (metis sum_list.rev)
  then show "((max mx d, rev (map (\<lambda>x. (x, d + 1)) (json_children cur)) @ stack), mx, (cur, d) # stack)
     \<in> measure (\<lambda>(mx, stack). sum_list (map (Suc \<circ> size \<circ> fst) stack))"
    using size_children [of cur] by simp
qed simp

definition json_depth :: "json \<Rightarrow> nat" where
  "json_depth v = depth_loop 0 [(v, 1)]"

section \<open>Validation\<close>

text \<open>The value of a field: the one given, or its default, which goes the same way.\<close>

definition field_source :: "jobject \<Rightarrow> string \<Rightarrow> field_schema \<Rightarrow> json option" where
  "field_source obj name f = (case map_of obj name of Some x \<Rightarrow> Some x | None \<Rightarrow> fs_default f)"

text \<open>
  \<open>validate_at\<close>: the value with its defaults filled in. The depth bound ends the recursion, which
  need not descend into the value: a default is validated too.
\<close>

function validate_at :: "type_defs \<Rightarrow> type_schema \<Rightarrow> json \<Rightarrow> string \<Rightarrow> nat \<Rightarrow> type_error + json" where
  "validate_at defs schema v path depth =
     (if max_value_depth < depth
      then terr TooDeep path (Plain ''value depth <= 64'') (Plain ''deeper value'')
      else sbind (map_err (\<lambda>e. e\<lparr>te_path := path\<rparr>) (resolve defs schema)) (\<lambda>(kind, nullable).
        if v = JNull \<and> kind \<noteq> KUnit \<and> kind \<noteq> KJson
        then (if nullable then Inr JNull else terr NullNotAllowed path (Describe schema) (Plain ''null''))
        else
          let mismatch = terr TypeMismatch path (Describe schema) (Shown v) in
          case kind of
            KBoolean \<Rightarrow> (case v of JBool b \<Rightarrow> Inr v | _ \<Rightarrow> mismatch)
          | KInt64 \<Rightarrow>
              (case int64_of v of
                 Inr i \<Rightarrow> Inr (JNum (num_of_i64 i))
               | Inl k \<Rightarrow> terr k path
                   (if k = OutOfRange then Plain ''int64 in [-9223372036854775808, 9223372036854775807]''
                    else Describe schema) (Shown v))
          | KFloat64 lo hi \<Rightarrow>
              (case v of
                 JNum n \<Rightarrow>
                   (case float_of n of
                      None \<Rightarrow> terr OutOfRange path
                        (Plain ''integer exactly representable as float64'') (Shown v)
                    | Some f \<Rightarrow>
                        if \<not> f64_finite f then terr NotFinite path (Describe schema) (Shown v)
                        else if (case lo of None \<Rightarrow> False | Some l \<Rightarrow> f64_less f l)
                             \<or> (case hi of None \<Rightarrow> False | Some h \<Rightarrow> f64_less h f)
                        then terr OutOfRange path (Describe schema) (Shown v)
                        else Inr v)
               | _ \<Rightarrow> mismatch)
          | KString mx \<Rightarrow>
              (case v of
                 JStr s \<Rightarrow>
                   if (case mx of None \<Rightarrow> False | Some n \<Rightarrow> unat n < char_count s)
                   then terr TooLong path (Describe schema)
                     (Plain (''string of '' @ show_nat (char_count s) @ '' chars''))
                   else Inr v
               | _ \<Rightarrow> mismatch)
          | KEnum vs \<Rightarrow>
              (case v of
                 JStr s \<Rightarrow> if s \<in> set vs then Inr v
                            else terr UnknownEnumValue path (Describe schema) (Shown v)
               | _ \<Rightarrow> mismatch)
          | KObject fs \<Rightarrow>
              (case v of
                 JObj obj \<Rightarrow>
                   (case find (\<lambda>k. map_of fs k = None) (map fst obj) of
                      Some extra \<Rightarrow> terr UnexpectedField (child_path path extra)
                        (Plain ''no undeclared field'') (Plain (''field '' @ dquoted extra))
                    | None \<Rightarrow>
                        sbind (collect (\<lambda>(name, field).
                            case field_source obj name field of
                              Some x \<Rightarrow>
                                sbind (validate_at defs (fs_schema field) x (child_path path name) (depth + 1))
                                  (\<lambda>y. Inr [(name, y)])
                            | None \<Rightarrow>
                                if fs_optional field then Inr []
                                else terr MissingField (child_path path name)
                                  (Describe (fs_schema field)) (Plain ''absent'')) fs)
                          (\<lambda>parts. Inr (JObj (concat parts))))
               | _ \<Rightarrow> mismatch)
          | KList items mx \<Rightarrow>
              (case v of
                 JArr arr \<Rightarrow>
                   if (case mx of None \<Rightarrow> False | Some n \<Rightarrow> unat n < length arr)
                   then terr TooLong path (Describe schema)
                     (Plain (''list of '' @ show_nat (length arr) @ '' items''))
                   else sbind (collect (\<lambda>(i, x).
                          validate_at defs items x (child_path path (show_nat i)) (depth + 1))
                          (enumerate 0 arr)) (\<lambda>ys. Inr (JArr ys))
               | _ \<Rightarrow> mismatch)
          | KUnit \<Rightarrow> (if v = JNull then Inr JNull else mismatch)
          | KJson \<Rightarrow>
              (if max_value_depth - depth < json_depth v
               then terr TooDeep path (Plain ''value depth <= 64'') (Plain ''deeper value'')
               else Inr v)
          | KRef _ \<Rightarrow> mismatch))"
  by pat_completeness auto
termination
  by (relation "measure (\<lambda>(defs, schema, v, path, depth). Suc max_value_depth - depth)")
    (auto simp: max_value_depth_def)

declare validate_at.simps [simp del]

text \<open>\<open>validate\<close> bounds the size of the serialized value first.\<close>

definition validate :: "json_text \<Rightarrow> type_defs \<Rightarrow> type_schema \<Rightarrow> json \<Rightarrow> type_error + json" where
  "validate jt defs schema v =
     (let size = (case jt_print jt v of Some b \<Rightarrow> length b | None \<Rightarrow> 2 ^ 64 - 1)
      in if max_type_bytes < size
         then terr TooLarge [] (Plain ''serialized value <= 262144 bytes'') (Plain (show_nat size @ '' bytes''))
         else validate_at defs schema v [] 0)"

section \<open>Checking declarations\<close>

function check_schema ::
  "type_defs \<Rightarrow> type_schema \<Rightarrow> string \<Rightarrow> string list \<Rightarrow> nat \<Rightarrow> type_error + unit" where
  "check_schema defs schema path stack depth =
     (if max_schema_depth < depth
      then terr TooDeep path (Plain ''schema depth <= 32'') (Plain ''deeper schema'')
      else case ts_kind schema of
        KRef name \<Rightarrow>
          (case map_of defs name of
             None \<Rightarrow> terr UnknownTypeRef path (Plain (''a type declared in '' @ squoted ''types''))
               (Plain (dquoted name))
           | Some target \<Rightarrow>
               if name \<in> set stack
               then terr RecursiveType path (Plain ''a non-recursive type'') (RefChain stack name)
               else check_schema defs target path (stack @ [name]) (depth + 1))
      | KObject fs \<Rightarrow>
          sbind (collect (\<lambda>(fname, field).
              let fpath = child_path (child_path path ''fields'') fname in
              sbind (check_schema defs (fs_schema field) fpath stack (depth + 1)) (\<lambda>_.
              case fs_default field of
                None \<Rightarrow> Inr ()
              | Some d \<Rightarrow> sbind (validate_at defs (fs_schema field) d (child_path fpath ''default'') 0)
                  (\<lambda>_. Inr ()))) fs) (\<lambda>_. Inr ())
      | KList items _ \<Rightarrow> check_schema defs items (child_path path ''items'') stack (depth + 1)
      | _ \<Rightarrow> Inr ())"
  by pat_completeness auto
termination
  by (relation "measure (\<lambda>(defs, schema, path, stack, depth). Suc max_schema_depth - depth)")
    (auto simp: max_schema_depth_def)

declare check_schema.simps [simp del]

definition check_schema_at :: "type_defs \<Rightarrow> type_schema \<Rightarrow> string \<Rightarrow> type_error + unit" where
  "check_schema_at defs schema path = check_schema defs schema path [] 0"

definition check_defs :: "type_defs \<Rightarrow> type_error + unit" where
  "check_defs defs =
     sbind (collect (\<lambda>(name, schema). check_schema defs schema (child_path ''/types'' name) [name] 0) defs)
       (\<lambda>_. Inr ())"

section \<open>Typed values\<close>

datatype typed_value =
    TVNull
  | TVBool bool
  | TVInt64 int
  | TVFloat64 jnumber
  | TVString string
  | TVList "typed_value list"
  | TVObject "(string \<times> typed_value) list"
  | TVJson json

text \<open>\<open>i.to_string()\<close> of an \<open>i64\<close>.\<close>

definition show_int :: "int \<Rightarrow> string" where
  "show_int i = (if i < 0 then CHR ''-'' # show_nat (nat (- i)) else show_nat (nat i))"

fun to_internal :: "typed_value \<Rightarrow> json" where
  "to_internal TVNull = JNull"
| "to_internal (TVBool b) = JBool b"
| "to_internal (TVInt64 i) = JNum (num_of_i64 i)"
| "to_internal (TVFloat64 n) = JNum n"
| "to_internal (TVString s) = JStr s"
| "to_internal (TVList items) = JArr (map to_internal items)"
| "to_internal (TVObject fs) = JObj (map (\<lambda>(k, v). (k, to_internal v)) fs)"
| "to_internal (TVJson v) = v"

text \<open>The wire form, which the \<open>Serialize\<close> of a typed value writes too: an int64 is a decimal text.\<close>

fun to_wire :: "typed_value \<Rightarrow> json" where
  "to_wire (TVInt64 i) = JStr (show_int i)"
| "to_wire (TVList items) = JArr (map to_wire items)"
| "to_wire (TVObject fs) = JObj (map (\<lambda>(k, v). (k, to_wire v)) fs)"
| "to_wire other = to_internal other"

lemma size_in_obj: "(k, x) \<in> set m \<Longrightarrow> size x < Suc (size_list (size_prod (\<lambda>x. 0) size) m)"
  unfolding less_Suc_eq_le by (rule size_list_estimation') (auto simp: size_prod_simp)

lemma enumerate_mem: "(i, x) \<in> set (enumerate n xs) \<Longrightarrow> x \<in> set xs"
  by (auto simp: in_set_enumerate_eq)

lemma size_in_arr: "(i, x) \<in> set (enumerate n xs) \<Longrightarrow> size x < Suc (size_list size xs)"
  unfolding less_Suc_eq_le by (rule size_list_estimation' [OF enumerate_mem]) auto

function typed_at :: "type_defs \<Rightarrow> type_schema \<Rightarrow> json \<Rightarrow> string \<Rightarrow> type_error + typed_value" where
  "typed_at defs schema v path =
     (if v = JNull then Inr TVNull
      else sbind (resolve defs schema) (\<lambda>(kind, _).
        let mismatch = terr TypeMismatch path (Describe schema) (Shown v) in
        case kind of
          KBoolean \<Rightarrow> (case v of JBool b \<Rightarrow> Inr (TVBool b) | _ \<Rightarrow> mismatch)
        | KInt64 \<Rightarrow>
            (case int64_of v of
               Inr i \<Rightarrow> Inr (TVInt64 i)
             | Inl k \<Rightarrow> terr k path (Plain ''int64'') (Shown v))
        | KFloat64 _ _ \<Rightarrow> (case v of JNum n \<Rightarrow> Inr (TVFloat64 n) | _ \<Rightarrow> mismatch)
        | KString _ \<Rightarrow> (case v of JStr s \<Rightarrow> Inr (TVString s) | _ \<Rightarrow> mismatch)
        | KEnum _ \<Rightarrow> (case v of JStr s \<Rightarrow> Inr (TVString s) | _ \<Rightarrow> mismatch)
        | KJson \<Rightarrow> Inr (TVJson v)
        | KList items _ \<Rightarrow>
            (case v of
               JArr arr \<Rightarrow>
                 sbind (collect (\<lambda>(i, x). typed_at defs items x (child_path path (show_nat i)))
                   (enumerate 0 arr)) (\<lambda>ys. Inr (TVList ys))
             | _ \<Rightarrow> mismatch)
        | KObject fs \<Rightarrow>
            (case v of
               JObj obj \<Rightarrow>
                 sbind (collect (\<lambda>(name, x).
                     case map_of fs name of
                       None \<Rightarrow> terr UnexpectedField (child_path path name) (Plain ''a declared field'') (Shown x)
                     | Some field \<Rightarrow>
                         sbind (typed_at defs (fs_schema field) x (child_path path name))
                           (\<lambda>y. Inr (name, y))) obj) (\<lambda>ys. Inr (TVObject ys))
             | _ \<Rightarrow> mismatch)
        | KUnit \<Rightarrow> mismatch
        | KRef _ \<Rightarrow> mismatch))"
  by pat_completeness auto
termination
  by (relation "measure (\<lambda>(defs, schema, v, path). size v)") (auto simp: size_in_obj size_in_arr)

declare typed_at.simps [simp del]

definition typed_value_of :: "type_defs \<Rightarrow> type_schema \<Rightarrow> json \<Rightarrow> type_error + typed_value" where
  "typed_value_of defs schema v = typed_at defs schema v []"

definition validate_typed ::
  "json_text \<Rightarrow> type_defs \<Rightarrow> type_schema \<Rightarrow> json \<Rightarrow> type_error + typed_value" where
  "validate_typed jt defs schema v =
     sbind (validate jt defs schema v) (\<lambda>checked. typed_value_of defs schema checked)"

section \<open>Assignability\<close>

definition opt_within :: "('a \<Rightarrow> 'a \<Rightarrow> bool) \<Rightarrow> 'a option \<Rightarrow> 'a option \<Rightarrow> bool" where
  "opt_within le s d = (case d of None \<Rightarrow> True | Some y \<Rightarrow> (case s of None \<Rightarrow> False | Some x \<Rightarrow> le x y))"

definition may_be_absent :: "field_schema \<Rightarrow> bool" where
  "may_be_absent f \<longleftrightarrow> fs_optional f \<and> fs_default f = None"

definition needs_value :: "field_schema \<Rightarrow> bool" where
  "needs_value f \<longleftrightarrow> \<not> fs_optional f \<and> fs_default f = None"

function assignable_at ::
  "type_defs \<Rightarrow> type_schema \<Rightarrow> type_defs \<Rightarrow> type_schema \<Rightarrow> string \<Rightarrow> nat \<Rightarrow> type_error + unit" where
  "assignable_at sd src dd dst path depth =
     (if max_schema_depth < depth
      then terr TooDeep path (Plain ''schema depth <= 32'') (Plain ''deeper schema'')
      else
        let no = terr Incompatible path (Describe dst) (Describe src) in
        sbind (resolve sd src) (\<lambda>(sk, snull).
        sbind (resolve dd dst) (\<lambda>(dk, dnull).
        if dk = KJson then Inr ()
        else if snull \<and> \<not> dnull then no
        else case (sk, dk) of
          (KBoolean, KBoolean) \<Rightarrow> Inr ()
        | (KInt64, KInt64) \<Rightarrow> Inr ()
        | (KUnit, KUnit) \<Rightarrow> Inr ()
        | (KFloat64 slo shi, KFloat64 dlo dhi) \<Rightarrow>
            if opt_within (\<lambda>s d. f64_le d s) slo dlo \<and> opt_within f64_le shi dhi then Inr () else no
        | (KString sl, KString dl) \<Rightarrow> if opt_within (\<le>) sl dl then Inr () else no
        | (KEnum sv, KEnum dv) \<Rightarrow> if set sv \<subseteq> set dv then Inr () else no
        | (KList si sl, KList di dl) \<Rightarrow>
            if opt_within (\<le>) sl dl
            then assignable_at sd si dd di (child_path path ''items'') (depth + 1) else no
        | (KObject sf, KObject df) \<Rightarrow>
            (case find (\<lambda>k. map_of df k = None) (map fst sf) of
               Some extra \<Rightarrow> terr UnexpectedField (child_path path extra)
                 (Plain ''no field outside the target type (project it explicitly)'')
                 (Plain (''field '' @ dquoted extra))
             | None \<Rightarrow>
                 sbind (collect (\<lambda>(name, dfield).
                   case map_of sf name of
                     Some sfield \<Rightarrow>
                       if may_be_absent sfield \<and> needs_value dfield
                       then terr MissingField (child_path path name) (Describe (fs_schema dfield))
                         (Plain ''optional field'')
                       else assignable_at sd (fs_schema sfield) dd (fs_schema dfield)
                              (child_path path name) (depth + 1)
                   | None \<Rightarrow>
                       if needs_value dfield
                       then terr MissingField (child_path path name) (Describe (fs_schema dfield))
                         (Plain ''absent'')
                       else Inr ()) df) (\<lambda>_. Inr ()))
        | _ \<Rightarrow> no)))"
  by pat_completeness auto
termination
  by (relation "measure (\<lambda>(sd, src, dd, dst, path, depth). Suc max_schema_depth - depth)")
    (auto simp: max_schema_depth_def)

declare assignable_at.simps [simp del]

definition check_assignable ::
  "type_defs \<Rightarrow> type_schema \<Rightarrow> type_defs \<Rightarrow> type_schema \<Rightarrow> type_error + unit" where
  "check_assignable sd src dd dst = assignable_at sd src dd dst [] 0"

end
