(* ===== verification/Task_Failure.thy ===== *)
theory Task_Failure
  imports Task_Types
begin

text \<open>
  The failure of a typed task (\<open>task/contract.rs\<close>): its stage, its code and its message. A message
  keeps the parts it is formatted from: a type error, a schema or a value whose rendering needs the
  printing of floats stays as it is (\<open>Debugged\<close> and \<open>DebuggedText\<close> for \<open>{:?}\<close>, \<open>Pretty\<close> for \<open>to_string_pretty\<close>,
  \<open>Utf8Error\<close> for the text of a failed \<open>from_utf8\<close>).
\<close>

datatype msg_part =
    Lit string
  | TypeErr type_error
  | Desc type_schema
  | Debugged "json option"
  | DebuggedText "string option"
  | Pretty json
  | Utf8Error bytes
  | KeyError component_error

type_synonym message = "msg_part list"

abbreviation msg :: "string \<Rightarrow> message" where
  "msg s \<equiv> [Lit s]"

datatype failure_stage =
    StageInput | StageExecution | StagePostprocess | StageOutput | StagePersistence | StageRoute

datatype failure_code =
    ResultMissing | AgentExited | AgentTurnError | TimedOutCode | AgentUnavailable

definition all_codes :: "failure_code list" where
  "all_codes = [ResultMissing, AgentExited, AgentTurnError, TimedOutCode, AgentUnavailable]"

fun code_str :: "failure_code \<Rightarrow> string" where
  "code_str ResultMissing = ''result_missing''"
| "code_str AgentExited = ''agent_exited''"
| "code_str AgentTurnError = ''agent_turn_error''"
| "code_str TimedOutCode = ''timed_out''"
| "code_str AgentUnavailable = ''agent_unavailable''"

definition code_message :: "failure_code \<Rightarrow> string \<Rightarrow> message" where
  "code_message c detail = msg (code_str c @ '': '' @ detail)"

text \<open>\<open>split_once(": ")\<close> of a text.\<close>

fun split_colon :: "string \<Rightarrow> (string \<times> string) option" where
  "split_colon (a # b # s) =
     (if a = CHR '':'' \<and> b = CHR '' '' then Some ([], s)
      else map_option (\<lambda>(h, t). (a # h, t)) (split_colon (b # s)))"
| "split_colon _ = None"

text \<open>The text before the first part whose rendering is kept open; no code has such a part.\<close>

fun lead_text :: "message \<Rightarrow> string" where
  "lead_text (Lit s # ps) = s @ lead_text ps"
| "lead_text _ = []"

definition parse_code :: "message \<Rightarrow> failure_code option" where
  "parse_code m =
     (case split_colon (lead_text m) of
        None \<Rightarrow> None
      | Some (head, _) \<Rightarrow> find (\<lambda>c. code_str c = head) all_codes)"

record task_failure =
  tf_stage :: failure_stage
  tf_code :: "failure_code option"
  tf_message :: message
  tf_task :: "string option"
  tf_type :: "type_error option"
  tf_location :: "string option"

definition failure_new :: "failure_stage \<Rightarrow> message \<Rightarrow> task_failure" where
  "failure_new stage m =
     \<lparr>tf_stage = stage, tf_code = None, tf_message = m, tf_task = None, tf_type = None, tf_location = None\<rparr>"

definition failure_typed :: "failure_stage \<Rightarrow> string option \<Rightarrow> type_error \<Rightarrow> task_failure" where
  "failure_typed stage tid e =
     \<lparr>tf_stage = stage, tf_code = None,
      tf_message = (case tid of Some i \<Rightarrow> [Lit (''task '' @ i @ '': ''), TypeErr e] | None \<Rightarrow> [TypeErr e]),
      tf_task = tid, tf_type = Some e, tf_location = None\<rparr>"

lemma split_colon_head: "CHR '':'' \<notin> set h \<Longrightarrow> split_colon (h @ '': '' @ t) = Some (h, t)"
proof (induction h)
  case (Cons a h)
  then show ?case by (cases h) auto
qed simp

text \<open>A code is read back from the message it heads.\<close>

lemma parse_code_message: "parse_code (code_message c detail) = Some c"
proof -
  have "split_colon (code_str c @ '': '' @ detail) = Some (code_str c, detail)"
    by (rule split_colon_head) (cases c; simp)
  then show ?thesis by (cases c) (simp_all add: parse_code_def code_message_def all_codes_def)
qed

end
