(* ===== verification/Agent_Store.thy ===== *)
theory Agent_Store
  imports Memory_Queries Task_Failure
begin

text \<open>
  The errors of \<open>crates/tasty-agent\<close> (\<open>lib.rs\<close>) and the way its stores keep their records: one
  JSON value per record, under a key built from the record's name, in the scope of a workspace.
  The locale \<open>record_store\<close> states what such a store promises the operations built on it
  (reading back a written record, leaving the others alone, changing nothing on an error); each
  store interprets it on its own \<open>get\<close> and \<open>put\<close>.
\<close>

section \<open>Errors\<close>

datatype completion_rejection = CompletionStale | DifferentReport | CompletionAlreadyTerminal

datatype report_rejection = TokenMismatch | ReportClosed | ReportNotTheSession

datatype submission_rejection =
    NotRunning | SubmissionStale | SubmissionConflict | TurnEnded | SubmissionNotTheSession | WrongToken

text \<open>
  The text of an invalid argument: a fixed message with the values formatted into it, or the
  message of \<open>component_key\<close>, kept as its parts, or a message with a part whose rendering is kept open.
\<close>

datatype arg_text = Msg string | ComponentMsg component_error | ArgMessage message

datatype agent_error =
    TaskNotFound string
  | DependencyCycle "string list"
  | UnknownDependency string
  | InvalidTransition string string
  | AlreadyTerminal string
  | InvalidArgument arg_text
  | LeaseConflict string string
  | LeasePoolExhausted "string list" string
  | TaskReferenced string "string list"
  | TaskRunning string
  | TypeContract task_failure
  | StoreNotDurable string
  | CompletionRejected string "string option" "string option" completion_rejection
  | GraphPartiallyActivated string agent_error
  | SubmissionRejected string string "string option" submission_rejection
  | ReportRejected string u32 report_rejection "string option"
  | MemoryErr mem_error
  | SerdeErr

abbreviation invalid :: "string \<Rightarrow> agent_error" where
  "invalid s \<equiv> InvalidArgument (Msg s)"

type_synonym 'a agent_op = "(memory, agent_error, 'a) op"

definition agent_key :: "string \<Rightarrow> string \<Rightarrow> string \<Rightarrow> agent_error + string" where
  "agent_key prefix label value =
     map_err (\<lambda>e. InvalidArgument (ComponentMsg e)) (component_key prefix label value)"

lemma agent_key_ok: "agent_key p l v = Inr k \<longleftrightarrow> validate_key (p @ v) = Inr () \<and> k = p @ v"
  using component_key_ok [of p l v]
  by (cases "component_key p l v") (auto simp: agent_key_def map_err_def)

section \<open>A JSON value under a key of a workspace\<close>

text \<open>
  The calls every store makes: \<open>mem.put(&owner, &Scope::Workspace(ws), &key, &Json(v), &default)\<close>,
  \<open>mem.get(&Scope::Workspace(ws), &key)\<close> and \<open>mem.delete(&owner, &Scope::Workspace(ws), &key, None)\<close>,
  their errors converted by \<open>?\<close>.
\<close>

definition kv_put :: "string \<Rightarrow> u32 \<Rightarrow> string \<Rightarrow> json \<Rightarrow> unit agent_op" where
  "kv_put owner ws key v m =
     (case mem_put owner (Workspace ws) key (Json v) default_put m of
        (Inl e, m') \<Rightarrow> (Inl (MemoryErr e), m')
      | (Inr _, m') \<Rightarrow> (Inr (), m'))"

definition kv_get :: "memory \<Rightarrow> u32 \<Rightarrow> string \<Rightarrow> agent_error + mem_value option" where
  "kv_get m ws key =
     map_err MemoryErr (sbind (mem_get m (Workspace ws) key) (\<lambda>e. Inr (map_option e_value e)))"

definition kv_delete :: "string \<Rightarrow> u32 \<Rightarrow> string \<Rightarrow> unit agent_op" where
  "kv_delete owner ws key m =
     (case mem_delete owner (Workspace ws) key None m of
        (Inl e, m') \<Rightarrow> (Inl (MemoryErr e), m')
      | (Inr _, m') \<Rightarrow> (Inr (), m'))"

lemma token_workspace: "as_token (Workspace a) = as_token (Workspace b) \<longleftrightarrow> a = b"
proof -
  have "as_token (Workspace a) = as_token (Workspace b) \<Longrightarrow> a = b"
    using parse_scope_token [of "Workspace a"] parse_scope_token [of "Workspace b"] by simp
  then show ?thesis by blast
qed

text \<open>The values the codec of a store takes back from their text.\<close>

definition text_stable :: "memory \<Rightarrow> json \<Rightarrow> bool" where
  "text_stable m v \<longleftrightarrow> readable (m_text m) (Json v)"

lemma text_stable_env: "m_text m' = m_text m \<Longrightarrow> text_stable m' v = text_stable m v"
  by (simp add: text_stable_def)

lemma kv_put_env: "kv_put owner ws key v m = (r, m') \<Longrightarrow> same_env m m'"
  by (auto simp: kv_put_def split: prod.splits sum.splits
      dest: atomic_writeD(3) [OF atomic_mem_put])

lemma kv_delete_env: "kv_delete owner ws key m = (r, m') \<Longrightarrow> same_env m m'"
  by (auto simp: kv_delete_def split: prod.splits sum.splits
      dest: atomic_writeD(3) [OF atomic_mem_delete])

lemma kv_put_err: "kv_put owner ws key v m = (Inl e, m') \<Longrightarrow> m' = m"
  by (auto simp: kv_put_def split: prod.splits sum.splits
      dest: atomic_writeD(2) [OF atomic_mem_put])

lemma kv_delete_err: "kv_delete owner ws key m = (Inl e, m') \<Longrightarrow> m' = m"
  by (auto simp: kv_delete_def split: prod.splits sum.splits
      dest: atomic_writeD(2) [OF atomic_mem_delete])

lemma kv_put_wf: "kv_put owner ws key v m = (r, m') \<Longrightarrow> mem_wf m \<Longrightarrow> mem_wf m'"
  by (auto simp: kv_put_def split: prod.splits sum.splits
      dest: atomic_writeD(1) [OF atomic_mem_put])

lemma kv_delete_wf: "kv_delete owner ws key m = (r, m') \<Longrightarrow> mem_wf m \<Longrightarrow> mem_wf m'"
  by (auto simp: kv_delete_def split: prod.splits sum.splits
      dest: atomic_writeD(1) [OF atomic_mem_delete])

lemma kv_put_get:
  assumes "kv_put owner ws key v m = (Inr u, m')" "text_stable m v"
  shows "kv_get m' ws key = Inr (Some (Json v))"
proof -
  from assms(1) obtain n where
    put: "mem_put owner (Workspace ws) key (Json v) default_put m = (Inr n, m')"
    by (auto simp: kv_put_def split: prod.splits sum.splits)
  have "still_valid (po_expires default_put) (m_now m)"
    by (simp add: still_valid_def default_put_def)
  from mem_put_get_entry [OF put _ this] assms(2) show ?thesis
    by (auto simp: text_stable_def kv_get_def sbind_def map_err_def)
qed

lemma kv_put_other:
  assumes "kv_put owner ws key v m = (r, m')" "ws' \<noteq> ws \<or> key' \<noteq> key"
  shows "kv_get m' ws' key' = kv_get m ws' key'"
proof -
  from assms(1) obtain r' where
    put: "mem_put owner (Workspace ws) key (Json v) default_put m = (r', m')"
    by (auto simp: kv_put_def split: prod.splits sum.splits)
  have "as_token (Workspace ws') \<noteq> as_token (Workspace ws) \<or> key' \<noteq> key"
    using assms(2) unfolding token_workspace .
  from mem_put_get_other [OF put this] show ?thesis by (simp add: kv_get_def)
qed

lemma kv_delete_get:
  assumes "kv_delete owner ws key m = (Inr u, m')"
  shows "kv_get m' ws key = Inr None"
    and "ws' \<noteq> ws \<or> key' \<noteq> key \<Longrightarrow> kv_get m' ws' key' = kv_get m ws' key'"
proof -
  from assms have del: "mem_delete owner (Workspace ws) key None m = (Inr (), m')"
    by (auto simp: kv_delete_def split: prod.splits sum.splits)
  show "kv_get m' ws key = Inr None"
    using del by (rule mem_delete_InrE)
      (simp add: kv_get_def mem_get_def sbind_def map_err_def find_row_drop)
  assume "ws' \<noteq> ws \<or> key' \<noteq> key"
  then have "as_token (Workspace ws') \<noteq> as_token (Workspace ws) \<or> key' \<noteq> key"
    unfolding token_workspace .
  with del have "mem_get m' (Workspace ws') key' = mem_get m (Workspace ws') key'"
    by (rule_tac mem_delete_InrE) (auto intro!: mem_get_cong simp: find_row_drop same_env_def)
  then show "kv_get m' ws' key' = kv_get m ws' key'" by (simp add: kv_get_def)
qed

text \<open>Every row the stores write has a key the memory store accepts, and no expiry.\<close>

definition rows_plain :: "memory \<Rightarrow> bool" where
  "rows_plain m \<longleftrightarrow> (\<forall>r \<in> set (regular m). validate_key (r_key r) = Inr () \<and> r_expires r = None)"

lemma kv_put_rows_plain:
  assumes "kv_put owner ws key v m = (r, m')" "rows_plain m"
  shows "rows_plain m'"
proof (cases r)
  case (Inl e)
  with assms show ?thesis using kv_put_err by fast
next
  case (Inr u)
  with assms(1) obtain n where
    "mem_put owner (Workspace ws) key (Json v) default_put m = (Inr n, m')"
    by (auto simp: kv_put_def split: prod.splits sum.splits)
  then show ?thesis
  proof (rule mem_put_InrE)
    fix b used ef
    assume key: "validate_key key = Inr ()"
      and put: "put_regular_rows (regular_quota_total_bytes (m_config m)) owner
        (as_token (Workspace ws)) key b (content_type (Json v)) default_put (m_now m) (m_tables m) used
        = Inr (n, ef, m_tables m')"
    from put show ?thesis
    proof (cases rule: put_regular_rows_cases)
      case fresh
      with key assms(2) show ?thesis
        by (auto simp: rows_plain_def fresh_row_def default_put_def dest: in_drop_row)
    next
      case (rewrite r0)
      then have "r \<in> set (regular m) \<or> (\<exists>r0 \<in> set (regular m).
          r_key r = r_key r0 \<and> r_expires r = None)" if "r \<in> set (regular m')" for r
        using that by (auto simp: update_row_def rewrite_row_def default_put_def split: if_splits)
      then show ?thesis
        using assms(2) unfolding rows_plain_def by metis
    qed
  qed
qed

lemma kv_delete_rows_plain:
  assumes "kv_delete owner ws key m = (r, m')" "rows_plain m"
  shows "rows_plain m'"
proof (cases r)
  case (Inl e)
  with assms show ?thesis using kv_delete_err by fast
next
  case (Inr u)
  with assms(1) have "mem_delete owner (Workspace ws) key None m = (Inr (), m')"
    by (auto simp: kv_delete_def split: prod.splits sum.splits)
  then show ?thesis
    by (rule mem_delete_InrE) (use assms(2) in \<open>auto simp: rows_plain_def dest: in_drop_row\<close>)
qed

text \<open>The keys a put or a deletion leaves in the table.\<close>

lemma kv_put_keys:
  assumes "kv_put owner ws key v m = (r, m')"
  shows "r_key ` set (regular m') \<subseteq> insert key (r_key ` set (regular m))"
proof (cases r)
  case (Inl e)
  with assms show ?thesis using kv_put_err by fast
next
  case (Inr u)
  with assms(1) obtain n where
    "mem_put owner (Workspace ws) key (Json v) default_put m = (Inr n, m')"
    by (auto simp: kv_put_def split: prod.splits sum.splits)
  then show ?thesis
  proof (rule mem_put_InrE)
    fix b used ef
    assume put: "put_regular_rows (regular_quota_total_bytes (m_config m)) owner
        (as_token (Workspace ws)) key b (content_type (Json v)) default_put (m_now m) (m_tables m) used
        = Inr (n, ef, m_tables m')"
    from put show ?thesis
    proof (cases rule: put_regular_rows_cases)
      case fresh
      then show ?thesis by (auto simp: fresh_row_def dest: in_drop_row)
    next
      case (rewrite r0)
      then show ?thesis by (auto simp: update_row_def rewrite_row_def)
    qed
  qed
qed

lemma kv_delete_keys:
  assumes "kv_delete owner ws key m = (r, m')"
  shows "r_key ` set (regular m') \<subseteq> r_key ` set (regular m)"
proof (cases r)
  case (Inl e)
  with assms show ?thesis using kv_delete_err by fast
next
  case (Inr u)
  with assms(1) have "mem_delete owner (Workspace ws) key None m = (Inr (), m')"
    by (auto simp: kv_delete_def split: prod.splits sum.splits)
  then show ?thesis
    by (rule mem_delete_InrE) (auto dest: in_drop_row)
qed

lemma list_all2_setD2: "list_all2 P xs ys \<Longrightarrow> y \<in> set ys \<Longrightarrow> \<exists>x. x \<in> set xs \<and> P x y"
  by (induction rule: list_all2_induct) auto

lemma ascii_lower_key_char: "key_char_ok c \<Longrightarrow> ascii_lower c = c"
  by (auto simp: key_char_ok_def ascii_lower_def is_digit_def)

lemma prefix_ci_exact:
  assumes "prefix_ci p k" "list_all key_char_ok p" "list_all key_char_ok k"
  shows "\<exists>n. k = p @ n"
proof -
  have "take (length p) k = p"
  proof (rule map_inj_on [where f = ascii_lower])
    show "map ascii_lower (take (length p) k) = map ascii_lower p"
      using assms(1) by (simp add: prefix_ci_def)
    have "key_char_ok c" if "c \<in> set (take (length p) k) \<union> set p" for c
      using that assms(2,3) by (auto simp: list_all_iff dest: in_set_takeD)
    then show "inj_on ascii_lower (set (take (length p) k) \<union> set p)"
      by (auto simp: inj_on_def ascii_lower_key_char)
  qed
  then show ?thesis by (metis append_take_drop_id)
qed

text \<open>What a listing by prefix yields is what the lookups of its keys yield.\<close>

lemma listed_entry:
  assumes "mem_wf m" "rows_plain m" "list_all key_char_ok p"
    and "mem_list m (Workspace ws) (default_list\<lparr>lo_prefix := Some p\<rparr>) = Inr es" "e \<in> set es"
  shows "kv_get m ws (e_key e) = Inr (Some (e_value e)) \<and> (\<exists>n. e_key e = p @ n) \<and>
    validate_key (e_key e) = Inr () \<and> e_key e \<in> r_key ` set (regular m)"
proof -
  let ?opts = "default_list\<lparr>lo_prefix := Some p\<rparr>"
  let ?rows = "sort_key r_key
    (filter (list_filter ?opts) (visible (m_now m) (as_token (Workspace ws)) (regular m)))"
  have "collect (row_entry (m_text m) True) ?rows = Inr es"
    using assms(4) by (simp add: mem_list_def list_page_def default_list_def)
  from collect_InrD [OF this] obtain r
    where "r \<in> set ?rows" and entry: "row_entry (m_text m) True r = Inr e"
    using assms(5) by (meson list_all2_setD2)
  then have r: "r \<in> set (regular m)" "r_scope r = as_token (Workspace ws)"
    "\<not> row_expired (m_now m) r" "list_filter ?opts r"
    by (simp_all add: visible_def)
  have key: "validate_key (r_key r) = Inr ()" using assms(2) r(1) by (simp add: rows_plain_def)
  have ek: "e_key e = r_key r" using row_entry_InrD [OF entry] by simp
  have "find_row (as_token (Workspace ws)) (r_key r) (regular m) = Some r"
    using find_row_in [of "regular m" r] assms(1) r(1,2) by (simp add: mem_wf_def tables_wf_def)
  then have "kv_get m ws (e_key e) = Inr (Some (e_value e))"
    using r(3) entry key by (simp add: kv_get_def mem_get_def sbind_def map_err_def ek)
  moreover have "prefix_ci p (r_key r)"
    using r(4) by (simp add: list_filter_prefix default_list_def)
  then have "\<exists>n. e_key e = p @ n"
    unfolding ek by (rule prefix_ci_exact) (use assms(3) key validate_key_ok_iff in auto)
  ultimately show ?thesis using key ek r(1) by simp
qed

text \<open>Nothing the stores keep depends on the clock of the memory store.\<close>

lemma kv_get_clock:
  assumes "rows_plain m"
  shows "kv_get (m\<lparr>m_now := t\<rparr>) ws key = kv_get m ws key"
proof -
  have "row_expired t' r = False" if "find_row sc key (regular m) = Some r" for t' sc r
    using find_row_SomeD [OF that] assms by (simp add: row_expired_def rows_plain_def)
  then show ?thesis
    by (auto simp: kv_get_def mem_get_def sbind_def map_err_def split: option.splits sum.splits)
qed

lemma clock_kept [simp]:
  "mem_wf (m\<lparr>m_now := t\<rparr>) = mem_wf m" "rows_plain (m\<lparr>m_now := t\<rparr>) = rows_plain m"
  by (simp_all add: mem_wf_def rows_plain_def split: option.splits)

lemma opened_store [simp]:
  "mem_wf (open_in_memory jt cfg now)" "rows_plain (open_in_memory jt cfg now)"
  "m_text (open_in_memory jt cfg now) = jt"
  "kv_get (open_in_memory jt cfg now) ws key \<noteq> Inr (Some v)"
  by (simp_all add: mem_wf_def tables_wf_def open_in_memory_def rows_plain_def kv_get_def
      mem_get_def find_row_def sbind_def map_err_def split: sum.split)

section \<open>Record stores\<close>

text \<open>
  \<open>key_of\<close> is what a record is looked up by, \<open>fresh r\<close> what a lookup makes of the stored record
  \<open>r\<close> (derived fields computed again), and \<open>storable m r\<close> that the codec of \<open>m\<close> takes the text of
  \<open>r\<close> back.
\<close>

locale record_store =
  fixes get :: "memory \<Rightarrow> 'k \<Rightarrow> agent_error + 'r option"
    and put :: "'r \<Rightarrow> memory \<Rightarrow> (agent_error + unit) \<times> memory"
    and key_of :: "'r \<Rightarrow> 'k"
    and fresh :: "'r \<Rightarrow> 'r"
    and storable :: "memory \<Rightarrow> 'r \<Rightarrow> bool"
  assumes put_get: "put r m = (Inr u, m') \<Longrightarrow> storable m r \<Longrightarrow>
      get m' (key_of r) = Inr (Some (fresh r))"
    and put_other: "put r m = (x, m') \<Longrightarrow> k \<noteq> key_of r \<Longrightarrow> get m' k = get m k"
    and put_err: "put r m = (Inl e, m') \<Longrightarrow> m' = m"
    and put_env: "put r m = (x, m') \<Longrightarrow> same_env m m'"
    and storable_text: "m_text m' = m_text m \<Longrightarrow> storable m' r = storable m r"
begin

lemma put_storable: "put r m = (x, m') \<Longrightarrow> storable m' r' = storable m r'"
  using put_env storable_text unfolding same_env_def by blast

text \<open>The last of two writes of a key is the one that is read.\<close>

lemma put_put:
  assumes "put r m = (Inr u, m1)" "put r' m1 = (Inr u', m2)" "storable m r'"
  shows "get m2 (key_of r') = Inr (Some (fresh r'))"
  using assms put_get put_storable by blast

text \<open>Whatever the outcome of a write, a key it does not write keeps its record.\<close>

lemma stored_after_put:
  assumes "put r m = (x, m')" "storable m r"
  shows "get m' k = (if k = key_of r \<and> (\<exists>u. x = Inr u) then Inr (Some (fresh r)) else get m k)"
proof (cases x)
  case (Inl e)
  with assms put_err show ?thesis by fastforce
next
  case (Inr u)
  with assms put_get put_other show ?thesis by auto
qed

end

text \<open>
  A store whose records keep an invariant \<open>good\<close>, and that can delete: the part of the invariant
  of every agent store that does not depend on what the records say.
\<close>

locale good_store = record_store get put key_of fresh storable
  for get :: "memory \<Rightarrow> 'k \<Rightarrow> agent_error + 'r option"
    and put :: "'r \<Rightarrow> memory \<Rightarrow> (agent_error + unit) \<times> memory"
    and key_of :: "'r \<Rightarrow> 'k" and fresh :: "'r \<Rightarrow> 'r" and storable :: "memory \<Rightarrow> 'r \<Rightarrow> bool" +
  fixes del :: "'k \<Rightarrow> memory \<Rightarrow> (agent_error + unit) \<times> memory"
    and good :: "'r \<Rightarrow> bool"
  assumes put_wf: "put r m = (x, m') \<Longrightarrow> mem_wf m \<and> rows_plain m \<Longrightarrow> mem_wf m' \<and> rows_plain m'"
    and good_fresh: "good (fresh r) = good r"
    and key_fresh: "key_of (fresh r) = key_of r"
    and get_clock: "rows_plain m \<Longrightarrow> get (m\<lparr>m_now := t\<rparr>) k = get m k"
    and get_opened: "get (open_in_memory jt cfg t) k \<noteq> Inr (Some r)"
    and del_get: "del k m = (Inr u, m') \<Longrightarrow> get m' k = Inr None"
    and del_other: "del k m = (x, m') \<Longrightarrow> k' \<noteq> k \<Longrightarrow> get m' k' = get m k'"
    and del_err: "del k m = (Inl e, m') \<Longrightarrow> m' = m"
    and del_wf: "del k m = (x, m') \<Longrightarrow> mem_wf m \<and> rows_plain m \<Longrightarrow> mem_wf m' \<and> rows_plain m'"
    and del_env: "del k m = (x, m') \<Longrightarrow> same_env m m'"
begin

definition store_ok :: "memory \<Rightarrow> bool" where
  "store_ok m \<longleftrightarrow> mem_wf m \<and> rows_plain m \<and> (\<forall>r. storable m r) \<and>
     (\<forall>k r. get m k = Inr (Some r) \<longrightarrow> key_of r = k \<and> good r)"

lemma found: "store_ok m \<Longrightarrow> get m k = Inr (Some r) \<Longrightarrow> key_of r = k \<and> good r"
  by (simp add: store_ok_def)

lemma store_ok_plain: "store_ok m \<Longrightarrow> mem_wf m \<and> rows_plain m"
  by (simp add: store_ok_def)

lemma store_ok_put:
  assumes "put r m = (x, m')" "store_ok m" "good r"
  shows "store_ok m'"
proof -
  have "get m' k = (if k = key_of r \<and> (\<exists>u. x = Inr u) then Inr (Some (fresh r)) else get m k)" for k
    using stored_after_put [OF assms(1)] assms(2) by (simp add: store_ok_def)
  then show ?thesis
    using assms put_wf [OF assms(1)] put_storable [OF assms(1)]
    by (auto simp: store_ok_def good_fresh key_fresh split: if_splits)
qed

lemma get_after_put:
  "put r m = (Inr u, m') \<Longrightarrow> store_ok m \<Longrightarrow> get m' (key_of r) = Inr (Some (fresh r))"
  by (simp add: put_get store_ok_def)

lemma store_ok_del:
  assumes "del k m = (x, m')" "store_ok m"
  shows "store_ok m'"
proof (cases x)
  case (Inl e)
  with assms del_err show ?thesis by fast
next
  case (Inr u)
  have "get m' k' = (if k' = k then Inr None else get m k')" for k'
    using del_get del_other assms(1) Inr by auto
  moreover have "m_text m' = m_text m" using del_env [OF assms(1)] by (simp add: same_env_def)
  ultimately show ?thesis
    using assms del_wf [OF assms(1)] storable_text [of m' m]
    by (auto simp: store_ok_def split: if_splits)
qed

lemma store_ok_clock: "store_ok m \<Longrightarrow> store_ok (m\<lparr>m_now := t\<rparr>)"
  using storable_text [of "m\<lparr>m_now := t\<rparr>" m] by (auto simp: store_ok_def get_clock)

lemma store_ok_opened:
  "(\<And>r. storable (open_in_memory jt cfg t) r) \<Longrightarrow> store_ok (open_in_memory jt cfg t)"
  by (simp add: store_ok_def get_opened)

end

text \<open>
  The shape all stores of the crate share: a key computed from the record's name, a JSON codec,
  and the three calls of the memory store. It gives the contract of \<open>good_store\<close>.
\<close>

locale json_store =
  fixes get :: "memory \<Rightarrow> u32 \<times> string \<Rightarrow> agent_error + 'r option"
    and put :: "'r \<Rightarrow> memory \<Rightarrow> (agent_error + unit) \<times> memory"
    and del :: "u32 \<times> string \<Rightarrow> memory \<Rightarrow> (agent_error + unit) \<times> memory"
    and owner :: string
    and key :: "string \<Rightarrow> agent_error + string"
    and json_of :: "'r \<Rightarrow> json" and of_json :: "json \<Rightarrow> 'r option"
    and ws_of :: "'r \<Rightarrow> u32" and name_of :: "'r \<Rightarrow> string"
    and fresh :: "'r \<Rightarrow> 'r" and good :: "'r \<Rightarrow> bool" and noise :: "string \<Rightarrow> agent_error"
  assumes get_eq: "get m (ws, name) = sbind (key name) (\<lambda>k. sbind (kv_get m ws k) (\<lambda>entry.
       case entry of
         None \<Rightarrow> Inr None
       | Some (Json v) \<Rightarrow>
           (case of_json v of None \<Rightarrow> Inl SerdeErr | Some r \<Rightarrow> Inr (Some (fresh r)))
       | Some _ \<Rightarrow> Inl (noise name)))"
    and put_eq: "put r m =
       (case key (name_of r) of
          Inl e \<Rightarrow> (Inl e, m) | Inr k \<Rightarrow> kv_put owner (ws_of r) k (json_of r) m)"
    and del_eq: "del (ws, name) m =
       (case key name of Inl e \<Rightarrow> (Inl e, m) | Inr k \<Rightarrow> kv_delete owner ws k m)"
    and key_inj: "key n = Inr k \<Longrightarrow> key n' = Inr k \<Longrightarrow> n = n'"
    and of_json_of: "of_json (json_of r) = Some r"
    and fresh_same: "good (fresh r) = good r" "ws_of (fresh r) = ws_of r"
      "name_of (fresh r) = name_of r"
begin

lemma putE:
  assumes "put r m = (x, m')"
  obtains (nokey) e where "key (name_of r) = Inl e" "x = Inl e" "m' = m"
  | (put) k where "key (name_of r) = Inr k" "kv_put owner (ws_of r) k (json_of r) m = (x, m')"
  using assms by (auto simp: put_eq split: sum.splits)

lemma delE:
  assumes "del (ws, name) m = (x, m')"
  obtains (nokey) e where "key name = Inl e" "x = Inl e" "m' = m"
  | (del) k where "key name = Inr k" "kv_delete owner ws k m = (x, m')"
  using assms by (auto simp: del_eq split: sum.splits)

lemma get_cong:
  assumes "\<And>k. key name = Inr k \<Longrightarrow> kv_get m' ws k = kv_get m ws k"
  shows "get m' (ws, name) = get m (ws, name)"
  using assms by (cases "key name") (simp_all add: get_eq sbind_def)

lemma put_frame:
  assumes "put r m = (x, m')" "(ws, name) \<noteq> (ws_of r, name_of r)"
  shows "get m' (ws, name) = get m (ws, name)"
  using assms(1)
proof (cases rule: putE)
  case (put k)
  show ?thesis
  proof (rule get_cong)
    fix k' assume "key name = Inr k'"
    with put(1) assms(2) have "ws \<noteq> ws_of r \<or> k' \<noteq> k" using key_inj by blast
    then show "kv_get m' ws k' = kv_get m ws k'" by (rule kv_put_other [OF put(2)])
  qed
qed simp

lemma del_frame:
  assumes "del (ws, name) m = (x, m')" "(ws', name') \<noteq> (ws, name)"
  shows "get m' (ws', name') = get m (ws', name')"
  using assms(1)
proof (cases rule: delE)
  case (del k)
  show ?thesis
  proof (rule get_cong)
    fix k' assume "key name' = Inr k'"
    with del(1) assms(2) have "ws' \<noteq> ws \<or> k' \<noteq> k" using key_inj by blast
    then show "kv_get m' ws' k' = kv_get m ws' k'"
      using del(2) kv_delete_get(2) [of owner ws k m _ m' ws' k']
        kv_delete_err [of owner ws k m _ m'] by (cases x) auto
  qed
qed simp

text \<open>An entry that a listing by the key prefix yields is the one its name is looked up by.\<close>

lemma listed_get:
  assumes "kv_get m ws k = Inr (Some (Json v))" "key name = Inr k" "of_json v = Some r"
  shows "get m (ws, name) = Inr (Some (fresh r))"
  using assms by (simp add: get_eq sbind_def)

end

sublocale json_store \<subseteq> good_store get put "\<lambda>r. (ws_of r, name_of r)" fresh
  "\<lambda>m r. text_stable m (json_of r)" del good
proof (unfold_locales, goal_cases)
  case (1 r m u m')
  then show ?case by (auto elim!: putE simp: get_eq sbind_def kv_put_get of_json_of)
next
  case (2 r m x m' k)
  then show ?case using put_frame by (cases k) auto
next
  case (3 r m e m')
  then show ?case by (auto elim!: putE dest: kv_put_err)
next
  case (4 r m x m')
  then show ?case by (auto elim!: putE dest: kv_put_env)
next
  case (5 m' m r)
  then show ?case by (rule text_stable_env)
next
  case (6 r m x m')
  then show ?case by (auto elim!: putE dest: kv_put_wf kv_put_rows_plain)
next
  case (9 m t k)
  then show ?case by (cases k) (auto intro: get_cong kv_get_clock)
next
  case (10 jt cfg t k r)
  obtain ws name where k: "k = (ws, name)" by (cases k)
  show ?case
  proof (cases "key name")
    case (Inr key)
    then show ?thesis
      by (cases "kv_get (open_in_memory jt cfg t) ws key") (auto simp: k get_eq sbind_def split: option.split)
  qed (simp add: k get_eq sbind_def)
next
  case (11 k m u m')
  then show ?case by (cases k) (auto elim!: delE simp: get_eq sbind_def kv_delete_get)
next
  case (12 k m x m' k')
  then show ?case using del_frame by (cases k; cases k') auto
next
  case (13 k m e m')
  then show ?case by (cases k) (auto elim!: delE dest: kv_delete_err)
next
  case (14 k m x m')
  then show ?case by (cases k) (auto elim!: delE dest: kv_delete_wf kv_delete_rows_plain)
next
  case (15 k m x m')
  then show ?case by (cases k) (auto elim!: delE dest: kv_delete_env)
qed (simp_all add: fresh_same)

context json_store
begin

text \<open>A write under a key that belongs to no record.\<close>

lemma foreign_put:
  assumes "kv_put owner' ws k v m = (x, m')" "\<And>n. key n \<noteq> Inr k" "store_ok m"
  shows "store_ok m' \<and> (\<forall>k. get m' k = get m k)"
proof -
  have same: "get m' (ws', n) = get m (ws', n)" for ws' n
    by (rule get_cong) (use assms(2) kv_put_other [OF assms(1), of ws'] in metis)
  have "m_text m' = m_text m" using kv_put_env [OF assms(1)] by (simp add: same_env_def)
  then have "\<forall>r. storable_rec m' r = storable_rec m r" if "storable_rec = (\<lambda>m r. text_stable m (json_of r))"
    for storable_rec
    using that by (simp add: text_stable_def)
  with same show ?thesis
    using assms(3) kv_put_wf [OF assms(1)] kv_put_rows_plain [OF assms(1)]
    by (auto simp: store_ok_def)
qed

end

end
