(* ===== verification/Semaphore.thy ===== *)
theory Semaphore
  imports Agent_Store
begin

text \<open>
  \<open>crates/tasty-agent/src/semaphore.rs\<close>: N permits held by named holders, kept as one JSON
  record per semaphore. The record with its stored form (the legacy list of holder names is read
  too), every operation of \<open>SemaphoreStore\<close>, and the interpretation of \<open>record_store\<close>.
\<close>

section \<open>Data\<close>

record sem_holder =
  h_id :: string
  h_acquired :: "u64 option"
  h_expires :: "u64 option"

record semaphore =
  s_ws :: u32
  s_name :: string
  s_total :: u32
  s_available :: u32
  s_holders :: "sem_holder list"
  s_created :: u64

definition holder_expired :: "u64 \<Rightarrow> sem_holder \<Rightarrow> bool" where
  "holder_expired now h \<longleftrightarrow> (case h_expires h of Some t \<Rightarrow> t \<le> now | None \<Rightarrow> False)"

definition recompute_available :: "semaphore \<Rightarrow> semaphore" where
  "recompute_available s =
     s\<lparr>s_available := sat_sub (s_total s) (u32_of_len (length (s_holders s)))\<rparr>"

definition live_holders :: "u64 \<Rightarrow> semaphore \<Rightarrow> sem_holder list" where
  "live_holders now s = filter (\<lambda>h. \<not> holder_expired now h) (s_holders s)"

text \<open>The eviction, with whether it removed anything.\<close>

definition sem_evict_expired :: "u64 \<Rightarrow> semaphore \<Rightarrow> bool \<times> semaphore" where
  "sem_evict_expired now s =
     (let kept = live_holders now s
      in (length kept \<noteq> length (s_holders s), s\<lparr>s_holders := kept\<rparr>))"

definition has_free_permit :: "semaphore \<Rightarrow> bool" where
  "has_free_permit s \<longleftrightarrow> length (s_holders s) < unat (s_total s)"

definition is_over_subscribed :: "semaphore \<Rightarrow> bool" where
  "is_over_subscribed s \<longleftrightarrow> length (s_holders s) > unat (s_total s)"

section \<open>Stored form\<close>

definition holder_json :: "sem_holder \<Rightarrow> json" where
  "holder_json h = jstruct
     [(''id'', Some (jstr (h_id h))),
      (''acquired_at'', map_option ju64 (h_acquired h)),
      (''expires_at'', map_option ju64 (h_expires h))]"

definition semaphore_json :: "semaphore \<Rightarrow> json" where
  "semaphore_json s = jstruct
     [(''workspace_id'', Some (ju32 (s_ws s))),
      (''name'', Some (jstr (s_name s))),
      (''permits_total'', Some (ju32 (s_total s))),
      (''permits_available'', Some (ju32 (s_available s))),
      (''holders'', Some (JArr (map holder_json (s_holders s)))),
      (''created_at'', Some (ju64 (s_created s)))]"

fun holder_of_json :: "json \<Rightarrow> sem_holder option" where
  "holder_of_json (JStr s) = Some \<lparr>h_id = s, h_acquired = None, h_expires = None\<rparr>"
| "holder_of_json (JObj fs) =
     (case (req_field un_str (JObj fs) ''id'', opt_field un_u64 (JObj fs) ''acquired_at'',
            opt_field un_u64 (JObj fs) ''expires_at'') of
        (Some i, Some a, Some e) \<Rightarrow> Some \<lparr>h_id = i, h_acquired = a, h_expires = e\<rparr>
      | _ \<Rightarrow> None)"
| "holder_of_json _ = None"

definition semaphore_of_json :: "json \<Rightarrow> semaphore option" where
  "semaphore_of_json v =
     (case (req_field un_u32 v ''workspace_id'', req_field un_str v ''name'',
            req_field un_u32 v ''permits_total'', req_field un_u32 v ''permits_available'',
            req_field (un_list holder_of_json) v ''holders'', req_field un_u64 v ''created_at'') of
        (Some w, Some n, Some t, Some a, Some hs, Some c) \<Rightarrow>
          Some \<lparr>s_ws = w, s_name = n, s_total = t, s_available = a, s_holders = hs, s_created = c\<rparr>
      | _ \<Rightarrow> None)"

lemma holder_json_roundtrip: "holder_of_json (holder_json h) = Some h"
proof -
  obtain fs where fs: "holder_json h = JObj fs"
    by (simp add: holder_json_def jstruct_def)
  have "req_field un_str (holder_json h) ''id'' = Some (h_id h)"
    "opt_field un_u64 (holder_json h) ''acquired_at'' = Some (h_acquired h)"
    "opt_field un_u64 (holder_json h) ''expires_at'' = Some (h_expires h)"
    by (auto simp: holder_json_def req_field_def opt_field_def jget_jstruct un_opt_Some
        split: option.splits)
  then show ?thesis by (simp add: fs)
qed

lemma semaphore_json_roundtrip: "semaphore_of_json (semaphore_json s) = Some s"
proof -
  have "un_list holder_of_json (JArr (map holder_json hs)) = Some hs" for hs
    by (rule un_list_roundtrip) (rule holder_json_roundtrip)
  then show ?thesis
    by (simp add: semaphore_of_json_def semaphore_json_def req_field_def jget_jstruct)
qed

section \<open>The store\<close>

definition semaphore_key :: "string \<Rightarrow> agent_error + string" where
  "semaphore_key name = agent_key ''tasty.agent.semaphore.'' ''semaphore name'' name"

definition semaphore_put :: "string \<Rightarrow> semaphore \<Rightarrow> unit agent_op" where
  "semaphore_put owner s m =
     (case semaphore_key (s_name s) of
        Inl e \<Rightarrow> (Inl e, m)
      | Inr key \<Rightarrow> kv_put owner (s_ws s) key (semaphore_json s) m)"

definition semaphore_get :: "memory \<Rightarrow> u32 \<Rightarrow> string \<Rightarrow> agent_error + semaphore option" where
  "semaphore_get m ws name =
     sbind (semaphore_key name) (\<lambda>key. sbind (kv_get m ws key) (\<lambda>entry.
       case entry of
         None \<Rightarrow> Inr None
       | Some (Json v) \<Rightarrow>
           (case semaphore_of_json v of
              None \<Rightarrow> Inl SerdeErr
            | Some s \<Rightarrow> Inr (Some (recompute_available s)))
       | Some _ \<Rightarrow> Inl (invalid (''semaphore entry is not json: '' @ name))))"

definition semaphore_require :: "memory \<Rightarrow> u32 \<Rightarrow> string \<Rightarrow> agent_error + semaphore" where
  "semaphore_require m ws name =
     sbind (semaphore_get m ws name) (\<lambda>r.
       case r of Some s \<Rightarrow> Inr s | None \<Rightarrow> Inl (invalid (''semaphore not found: '' @ name)))"

text \<open>The loop of \<open>list\<close>; an error stops it with what it has written so far.\<close>

fun semaphore_list_loop ::
  "string \<Rightarrow> u64 option \<Rightarrow> mem_entry list \<Rightarrow> semaphore list agent_op" where
  "semaphore_list_loop owner now [] m = (Inr [], m)"
| "semaphore_list_loop owner now (e # es) m =
     (case e_value e of
        Json v \<Rightarrow>
          (case semaphore_of_json v of
             None \<Rightarrow> (Inl SerdeErr, m)
           | Some s0 \<Rightarrow>
               (let (evicted, s1) = (case now of Some t \<Rightarrow> sem_evict_expired t s0 | None \<Rightarrow> (False, s0));
                    s = recompute_available s1
                in bnd (if evicted then semaphore_put owner s else ret ()) (\<lambda>_.
                   bnd (semaphore_list_loop owner now es) (\<lambda>rest. ret (s # rest))) m))
      | _ \<Rightarrow> semaphore_list_loop owner now es m)"

definition semaphore_list :: "string \<Rightarrow> u32 \<Rightarrow> u64 option \<Rightarrow> semaphore list agent_op" where
  "semaphore_list owner ws now m =
     (case mem_list m (Workspace ws) (default_list\<lparr>lo_prefix := Some ''tasty.agent.semaphore.''\<rparr>) of
        Inl e \<Rightarrow> (Inl (MemoryErr e), m)
      | Inr entries \<Rightarrow> semaphore_list_loop owner now entries m)"

definition permits_error :: agent_error where
  "permits_error = invalid ''semaphore.permits must be >= 1''"

definition semaphore_create ::
  "string \<Rightarrow> u32 \<Rightarrow> string \<Rightarrow> u32 \<Rightarrow> u64 \<Rightarrow> semaphore agent_op" where
  "semaphore_create owner ws name permits now =
     (if permits = 0 then fail permits_error
      else bnd (reads (\<lambda>m. semaphore_get m ws name)) (\<lambda>existing.
        case existing of
          Some s \<Rightarrow> fail (invalid (''semaphore '' @ CHR 0x27 # name @ CHR 0x27 #
            '' already exists (permits_total='' @ show_nat (unat (s_total s)) @ '') '' @
            [CHR 0xE2, CHR 0x80, CHR 0x94] @ '' use set_permits to change it''))
        | None \<Rightarrow>
            (let s = \<lparr>s_ws = ws, s_name = name, s_total = permits, s_available = permits,
               s_holders = [], s_created = now\<rparr>
             in bnd (semaphore_put owner s) (\<lambda>_. ret s))))"

definition semaphore_set_permits ::
  "string \<Rightarrow> u32 \<Rightarrow> string \<Rightarrow> u32 \<Rightarrow> u64 \<Rightarrow> semaphore agent_op" where
  "semaphore_set_permits owner ws name permits now =
     (if permits = 0 then fail permits_error
      else bnd (reads (\<lambda>m. semaphore_require m ws name)) (\<lambda>s0.
        let s = recompute_available ((snd (sem_evict_expired now s0))\<lparr>s_total := permits\<rparr>)
        in bnd (semaphore_put owner s) (\<lambda>_. ret s)))"

record sem_acquire =
  aq_acquired :: bool
  aq_semaphore :: semaphore

definition semaphore_acquire ::
  "string \<Rightarrow> u32 \<Rightarrow> string \<Rightarrow> string \<Rightarrow> u64 option \<Rightarrow> u64 \<Rightarrow> sem_acquire agent_op" where
  "semaphore_acquire owner ws name holder ttl now =
     (if holder = [] then fail (invalid ''holder must be non-empty'')
      else bnd (reads (\<lambda>m. semaphore_require m ws name)) (\<lambda>s0.
        let (evicted, s) = sem_evict_expired now s0;
            expires = map_option (sat_add now) ttl
        in if \<exists>h \<in> set (s_holders s). h_id h = holder then
             (let s' = recompute_available (s\<lparr>s_holders :=
                update_first (\<lambda>h. h_id h = holder)
                  (\<lambda>h. h\<lparr>h_acquired := Some now, h_expires := expires\<rparr>) (s_holders s)\<rparr>)
              in bnd (semaphore_put owner s') (\<lambda>_.
                 ret \<lparr>aq_acquired = True, aq_semaphore = s'\<rparr>))
           else if \<not> has_free_permit s then
             (let s' = recompute_available s
              in bnd (if evicted then semaphore_put owner s' else ret ()) (\<lambda>_.
                 ret \<lparr>aq_acquired = False, aq_semaphore = s'\<rparr>))
           else
             (let s' = recompute_available (s\<lparr>s_holders := s_holders s @
                [\<lparr>h_id = holder, h_acquired = Some now, h_expires = expires\<rparr>]\<rparr>)
              in bnd (semaphore_put owner s') (\<lambda>_.
                 ret \<lparr>aq_acquired = True, aq_semaphore = s'\<rparr>))))"

definition semaphore_renew ::
  "string \<Rightarrow> u32 \<Rightarrow> string \<Rightarrow> string \<Rightarrow> u64 \<Rightarrow> u64 \<Rightarrow> bool agent_op" where
  "semaphore_renew owner ws name holder ttl now =
     bnd (reads (\<lambda>m. semaphore_get m ws name)) (\<lambda>r.
       case r of
         None \<Rightarrow> ret False
       | Some s \<Rightarrow>
           if \<exists>h \<in> set (s_holders s). h_id h = holder then
             bnd (semaphore_put owner (s\<lparr>s_holders :=
                update_first (\<lambda>h. h_id h = holder)
                  (\<lambda>h. h\<lparr>h_expires := Some (sat_add now ttl)\<rparr>) (s_holders s)\<rparr>)) (\<lambda>_. ret True)
           else ret False)"

record sem_release =
  rl_released :: bool
  rl_semaphore :: semaphore

definition semaphore_release ::
  "string \<Rightarrow> u32 \<Rightarrow> string \<Rightarrow> string \<Rightarrow> sem_release agent_op" where
  "semaphore_release owner ws name holder =
     bnd (reads (\<lambda>m. semaphore_require m ws name)) (\<lambda>s0.
       let kept = filter (\<lambda>h. h_id h \<noteq> holder) (s_holders s0);
           released = (length kept \<noteq> length (s_holders s0));
           s = recompute_available (s0\<lparr>s_holders := kept\<rparr>)
       in bnd (if released then semaphore_put owner s else ret ()) (\<lambda>_.
          ret \<lparr>rl_released = released, rl_semaphore = s\<rparr>))"

definition semaphore_delete :: "string \<Rightarrow> u32 \<Rightarrow> string \<Rightarrow> unit agent_op" where
  "semaphore_delete owner ws name m =
     (case semaphore_key name of
        Inl e \<Rightarrow> (Inl e, m)
      | Inr key \<Rightarrow> kv_delete owner ws key m)"

section \<open>Interpretation\<close>

lemma semaphore_key_inj: "semaphore_key n = Inr k \<Longrightarrow> semaphore_key n' = Inr k \<Longrightarrow> n = n'"
  by (auto simp: semaphore_key_def agent_key_ok)

lemma semaphore_key_valid: "semaphore_key n = Inr k \<Longrightarrow> validate_key k = Inr ()"
  by (auto simp: semaphore_key_def agent_key_ok)

text \<open>With the flag \<open>bd\<close> a good semaphore has no more holders than permits.\<close>

definition sem_ok :: "bool \<Rightarrow> semaphore \<Rightarrow> bool" where
  "sem_ok bd s \<longleftrightarrow> s_total s \<noteq> 0 \<and> distinct (map h_id (s_holders s)) \<and>
     (bd \<longrightarrow> length (s_holders s) \<le> unat (s_total s))"

lemma recompute_fields [simp]:
  "s_ws (recompute_available s) = s_ws s" "s_name (recompute_available s) = s_name s"
  "s_total (recompute_available s) = s_total s" "s_holders (recompute_available s) = s_holders s"
  "s_created (recompute_available s) = s_created s"
  "sem_ok bd (recompute_available s) = sem_ok bd s"
  "recompute_available (recompute_available s) = recompute_available s"
  by (simp_all add: recompute_available_def sem_ok_def)

interpretation sem_good: json_store
  "\<lambda>m (ws, name). semaphore_get m ws name" "semaphore_put owner"
  "\<lambda>(ws, name). semaphore_delete owner ws name" owner semaphore_key semaphore_json
  semaphore_of_json s_ws s_name recompute_available "sem_ok bd"
  "\<lambda>name. invalid (''semaphore entry is not json: '' @ name)" for owner bd
proof (unfold_locales, goal_cases)
  case 1
  show ?case unfolding prod.case by (rule semaphore_get_def)
next
  case 2
  show ?case by (rule semaphore_put_def)
next
  case 3
  show ?case unfolding prod.case by (rule semaphore_delete_def)
qed (simp_all add: semaphore_key_inj semaphore_json_roundtrip)

end
