(* ===== verification/Sample_Codec.thy ===== *)
theory Sample_Codec
  imports Agent_Store
begin

text \<open>
  A text codec that takes every JSON value back, to instantiate the parameter of the memory store
  in the witnesses: a postfix notation read by a stack machine. A plus sign pushes the next
  character to a buffer, a letter makes a value of the buffer, and brackets gather what was
  pushed since they were opened. It stands for no code of the program.
\<close>

datatype item = V json | Mark

definition quoted :: "string \<Rightarrow> string" where
  "quoted s = concat (map (\<lambda>c. [CHR ''+'', c]) s)"

fun text_of :: "json \<Rightarrow> string" where
  "text_of JNull = ''n''"
| "text_of (JBool b) = (if b then ''t'' else ''f'')"
| "text_of (JNum (PosInt n)) = quoted (show_nat (unat n)) @ ''p''"
| "text_of (JNum (NegInt i)) = quoted (show_nat (nat (abs i))) @ (if i < 0 then ''m'' else ''q'')"
| "text_of (JNum (FloatBits n)) = quoted (show_nat (unat n)) @ ''x''"
| "text_of (JStr s) = quoted s @ ''s''"
| "text_of (JArr xs) = CHR ''('' # concat (map text_of xs) @ ''a''"
| "text_of (JObj m) = CHR ''('' # concat (map (\<lambda>(k, v). quoted k @ CHR ''s'' # text_of v) m) @ ''o''"

fun pair_up :: "json list \<Rightarrow> (string \<times> json) list" where
  "pair_up (JStr k # v # r) = (k, v) # pair_up r"
| "pair_up _ = []"

fun gather :: "json list \<Rightarrow> item list \<Rightarrow> json list \<times> item list" where
  "gather acc (V v # st) = gather (v # acc) st"
| "gather acc (Mark # st) = (acc, st)"
| "gather acc [] = (acc, [])"

definition number :: "string \<Rightarrow> nat" where
  "number buf = digits_value (rev buf)"

definition value_of :: "char \<Rightarrow> string \<Rightarrow> json" where
  "value_of c buf =
     (if c = CHR ''s'' then JStr (rev buf)
      else if c = CHR ''p'' then JNum (PosInt (of_nat (number buf)))
      else if c = CHR ''m'' then JNum (NegInt (- int (number buf)))
      else if c = CHR ''q'' then JNum (NegInt (int (number buf)))
      else if c = CHR ''x'' then JNum (FloatBits (of_nat (number buf)))
      else if c = CHR ''t'' then JBool True
      else if c = CHR ''f'' then JBool False
      else JNull)"

fun machine :: "string \<Rightarrow> string \<Rightarrow> item list \<Rightarrow> item list" where
  "machine [] buf st = st"
| "machine [c] buf st =
     (if c = CHR ''('' then Mark # st
      else if c = CHR ''a'' then (case gather [] st of (vs, st') \<Rightarrow> V (JArr vs) # st')
      else if c = CHR ''o'' then (case gather [] st of (vs, st') \<Rightarrow> V (JObj (pair_up vs)) # st')
      else V (value_of c buf) # st)"
| "machine (c # d # cs) buf st =
     (if c = CHR ''+'' then machine cs (d # buf) st
      else if c = CHR ''('' then machine (d # cs) [] (Mark # st)
      else if c = CHR ''a'' then
        (case gather [] st of (vs, st') \<Rightarrow> machine (d # cs) [] (V (JArr vs) # st'))
      else if c = CHR ''o'' then
        (case gather [] st of (vs, st') \<Rightarrow> machine (d # cs) [] (V (JObj (pair_up vs)) # st'))
      else machine (d # cs) [] (V (value_of c buf) # st))"

lemma machine_cons:
  assumes "c \<noteq> CHR ''+''"
  shows "machine (c # cs) buf st =
    (if c = CHR ''('' then machine cs [] (Mark # st)
     else if c = CHR ''a'' then
       (case gather [] st of (vs, st') \<Rightarrow> machine cs [] (V (JArr vs) # st'))
     else if c = CHR ''o'' then
       (case gather [] st of (vs, st') \<Rightarrow> machine cs [] (V (JObj (pair_up vs)) # st'))
     else machine cs [] (V (value_of c buf) # st))"
  using assms by (cases cs) (auto split: prod.splits)

lemma machine_quoted: "machine (quoted s @ cs) buf st = machine cs (rev s @ buf) st"
proof (induction s arbitrary: buf)
  case (Cons c s)
  show ?case using Cons.IH [of "c # buf"] by (simp add: quoted_def)
qed (simp add: quoted_def)

lemma gather_rev: "gather acc (rev (map V vs) @ Mark # st) = (vs @ acc, st)"
  by (induction vs arbitrary: acc rule: rev_induct) auto

lemma pair_up_flat: "pair_up (concat (map (\<lambda>(k, v). [JStr k, v]) m)) = m"
  by (induction m) auto

lemma machine_text: "machine (text_of v @ cs) [] st = machine cs [] (V v # st)"
proof (induction v arbitrary: cs st)
  case (JNum n)
  show ?case
    by (cases n) (auto simp: machine_quoted machine_cons value_of_def number_def show_nat_value abs_if)
next
  case (JArr xs)
  have "machine (concat (map text_of ys) @ cs) [] st = machine cs [] (rev (map V ys) @ st)"
    if "set ys \<subseteq> set xs" for ys cs st
    using that JArr by (induction ys arbitrary: st) auto
  from this [of xs "CHR ''a'' # cs" "Mark # st"] show ?case
    by (simp add: machine_cons gather_rev)
next
  case (JObj m)
  let ?flat = "\<lambda>ys. concat (map (\<lambda>(k, v). [JStr k, v]) ys)"
  have "machine (concat (map (\<lambda>(k, v). quoted k @ CHR ''s'' # text_of v) ys) @ cs) [] st =
      machine cs [] (rev (map V (?flat ys)) @ st)" if "set ys \<subseteq> set m" for ys cs st
    using that
  proof (induction ys arbitrary: st)
    case (Cons e ys)
    obtain k v where e: "e = (k, v)" by (cases e)
    with Cons.prems have "v \<in> Basic_BNFs.snds e" "e \<in> set m" by auto
    from JObj [OF this(2,1)] Cons e show ?case
      by (simp add: machine_quoted machine_cons value_of_def)
  qed simp
  from this [of m "CHR ''o'' # cs" "Mark # st"] show ?case
    by (simp add: machine_cons gather_rev pair_up_flat)
qed (auto simp: machine_cons machine_quoted value_of_def)

definition sample_text :: json_text where
  "sample_text = \<lparr>jt_print = (\<lambda>v. Some (text_of v)),
     jt_parse = (\<lambda>b. case machine b [] [] of [V v] \<Rightarrow> Some v | _ \<Rightarrow> None)\<rparr>"

lemma sample_text_readable: "readable sample_text (Json v)"
  using machine_text [of v "[]" "[]"] by (simp add: readable_def sample_text_def)

abbreviation demo_open :: memory where
  "demo_open \<equiv> open_in_memory sample_text default_config 0"

end
