(* ===== verification/Semaphore_Laws.thy ===== *)
theory Semaphore_Laws
  imports Semaphore Sample_Codec
begin

text \<open>
  What the semaphores promise: the invariant of every reachable store, the exact outcome of an
  acquire (who gets a permit, who keeps one, what is stored), the bound on the holders, and the
  draining of a semaphore whose permits were reduced.
\<close>

section \<open>The invariant\<close>

text \<open>
  That of \<open>good_store\<close> for semaphores; with the flag \<open>bd\<close> it also bounds the holders by the
  permits, as long as no operation changes the permits.
\<close>

abbreviation sem_store_ok :: "bool \<Rightarrow> memory \<Rightarrow> bool" where
  "sem_store_ok \<equiv> sem_good.store_ok"

text \<open>A codec that takes every stored semaphore back.\<close>

definition sem_text :: "json_text \<Rightarrow> bool" where
  "sem_text jt \<longleftrightarrow> (\<forall>s. readable jt (Json (semaphore_json s)))"

lemma get_recomputed:
  "semaphore_get m ws name = Inr (Some s) \<Longrightarrow> recompute_available s = s"
  by (auto simp: semaphore_get_def sbind_def split: sum.splits option.splits mem_value.splits)

lemma semaphore_put_ok:
  assumes "semaphore_put owner s m = (x, m')" "sem_store_ok bd m"
  shows "sem_ok bd s \<Longrightarrow> sem_store_ok bd m'"
    and "x = Inr u \<Longrightarrow> semaphore_get m' (s_ws s) (s_name s) = Inr (Some (recompute_available s))"
  using sem_good.store_ok_put [OF assms] sem_good.get_after_put [OF _ assms(2), of owner s u m'] assms(1)
  by auto

lemma distinct_live: "sem_ok bd s \<Longrightarrow> sem_ok bd (s\<lparr>s_holders := filter P (s_holders s)\<rparr>)"
  using le_trans [OF length_filter_le [of P "s_holders s"]]
  by (auto simp: sem_ok_def distinct_map_filter_key)

lemma sem_ok_snd_evict: "sem_ok bd s \<Longrightarrow> sem_ok bd (snd (sem_evict_expired now s))"
  by (simp add: sem_evict_expired_def Let_def live_holders_def distinct_live)

lemma evict_fields [simp]:
  "s_ws (snd (sem_evict_expired now s)) = s_ws s"
  "s_name (snd (sem_evict_expired now s)) = s_name s"
  "s_total (snd (sem_evict_expired now s)) = s_total s"
  "s_holders (snd (sem_evict_expired now s)) = live_holders now s"
  by (simp_all add: sem_evict_expired_def Let_def)

lemma evict_pair: "sem_evict_expired now s = (fst (sem_evict_expired now s), snd (sem_evict_expired now s))"
  by simp

lemma evict_nothing:
  "\<not> fst (sem_evict_expired now s) \<Longrightarrow> live_holders now s = s_holders s"
  by (auto simp: sem_evict_expired_def Let_def live_holders_def)
    (metis filter_id_conv length_filter_less less_irrefl)

section \<open>Every operation keeps it\<close>

lemma requireD:
  "semaphore_require m ws name = Inr s \<Longrightarrow> semaphore_get m ws name = Inr (Some s)"
  by (auto simp: semaphore_require_def sbind_def split: sum.splits option.splits)

lemma create_ok:
  assumes "semaphore_create owner ws name permits now m = (x, m')" "sem_store_ok bd m"
  shows "sem_store_ok bd m'"
proof -
  have "sem_ok bd \<lparr>s_ws = ws, s_name = name, s_total = permits, s_available = permits,
      s_holders = [], s_created = now\<rparr>" if "permits \<noteq> 0"
    using that by (simp add: sem_ok_def)
  with assms show ?thesis
    by (auto simp: semaphore_create_def op_simps Let_def intro: semaphore_put_ok(1)
      split: if_splits sum.splits option.splits prod.splits)
qed

lemma stored_ok:
  assumes "sem_store_ok bd m"
  shows "semaphore_get m ws name = Inr (Some s) \<Longrightarrow> s_ws s = ws \<and> s_name s = name \<and> sem_ok bd s"
    and "semaphore_require m ws name = Inr s \<Longrightarrow> s_ws s = ws \<and> s_name s = name \<and> sem_ok bd s"
  using sem_good.found [OF assms, of "(ws, name)" s] by (auto dest: requireD)

lemma set_permits_ok:
  assumes "semaphore_set_permits owner ws name permits now m = (x, m')" "sem_store_ok False m"
  shows "sem_store_ok False m'"
proof -
  have "sem_ok False (recompute_available ((snd (sem_evict_expired now s0))\<lparr>s_total := permits\<rparr>))"
    if "semaphore_require m ws name = Inr s0" "permits \<noteq> 0" for s0
    using sem_ok_snd_evict [of False s0 now] stored_ok(2) [OF assms(2) that(1)] that(2)
    by (simp add: sem_ok_def)
  with assms show ?thesis
    by (auto simp: semaphore_set_permits_def op_simps Let_def intro: semaphore_put_ok(1)
        split: if_splits sum.splits prod.splits)
qed

lemma sem_ok_update:
  "sem_ok bd s \<Longrightarrow> (\<And>h. h_id (f h) = h_id h) \<Longrightarrow>
   sem_ok bd (s\<lparr>s_holders := update_first P f (s_holders s)\<rparr>)"
  by (simp add: sem_ok_def update_first_map)

text \<open>The ways an acquire goes, over the semaphore with its expired holders removed.\<close>

lemma acquire_cases:
  assumes "semaphore_acquire owner ws name holder ttl now m = (x, m')"
  obtains
    (refused) e where "x = Inl e" "m' = m"
  | (again) s0 s' y where "semaphore_require m ws name = Inr s0"
      "holder \<in> h_id ` set (live_holders now s0)"
      "s' = recompute_available (s0\<lparr>s_holders := update_first (\<lambda>h. h_id h = holder)
         (\<lambda>h. h\<lparr>h_acquired := Some now, h_expires := map_option (sat_add now) ttl\<rparr>)
         (live_holders now s0)\<rparr>)"
      "semaphore_put owner s' m = (y, m')"
      "x = sbind y (\<lambda>_. Inr \<lparr>aq_acquired = True, aq_semaphore = s'\<rparr>)"
  | (full) s0 s' where "semaphore_require m ws name = Inr s0"
      "holder \<notin> h_id ` set (live_holders now s0)"
      "unat (s_total s0) \<le> length (live_holders now s0)"
      "s' = recompute_available (s0\<lparr>s_holders := live_holders now s0\<rparr>)"
      "live_holders now s0 = s_holders s0" "m' = m"
      "x = Inr \<lparr>aq_acquired = False, aq_semaphore = s'\<rparr>"
  | (evicted) s0 s' y where "semaphore_require m ws name = Inr s0"
      "holder \<notin> h_id ` set (live_holders now s0)"
      "unat (s_total s0) \<le> length (live_holders now s0)"
      "s' = recompute_available (s0\<lparr>s_holders := live_holders now s0\<rparr>)"
      "semaphore_put owner s' m = (y, m')"
      "x = sbind y (\<lambda>_. Inr \<lparr>aq_acquired = False, aq_semaphore = s'\<rparr>)"
  | (granted) s0 s' y where "semaphore_require m ws name = Inr s0"
      "holder \<notin> h_id ` set (live_holders now s0)"
      "length (live_holders now s0) < unat (s_total s0)"
      "s' = recompute_available (s0\<lparr>s_holders := live_holders now s0 @
         [\<lparr>h_id = holder, h_acquired = Some now, h_expires = map_option (sat_add now) ttl\<rparr>]\<rparr>)"
      "semaphore_put owner s' m = (y, m')"
      "x = sbind y (\<lambda>_. Inr \<lparr>aq_acquired = True, aq_semaphore = s'\<rparr>)"
proof (cases "holder = []")
  case True
  with assms show thesis by (intro refused) (auto simp: semaphore_acquire_def fail_def)
next
  case False
  show thesis
  proof (cases "semaphore_require m ws name")
    case (Inl e)
    with assms False show thesis by (intro refused) (auto simp: semaphore_acquire_def op_simps)
  next
    case (Inr s0)
    let ?live = "live_holders now s0"
    have run: "semaphore_acquire owner ws name holder ttl now m =
       (let s = s0\<lparr>s_holders := ?live\<rparr>; expires = map_option (sat_add now) ttl;
            finish = (\<lambda>a s'. bnd (semaphore_put owner s') (\<lambda>_. ret \<lparr>aq_acquired = a, aq_semaphore = s'\<rparr>))
        in if holder \<in> h_id ` set ?live then
             finish True (recompute_available (s\<lparr>s_holders := update_first (\<lambda>h. h_id h = holder)
               (\<lambda>h. h\<lparr>h_acquired := Some now, h_expires := expires\<rparr>) ?live\<rparr>)) m
           else if unat (s_total s0) \<le> length ?live then
             (if length ?live \<noteq> length (s_holders s0) then finish False (recompute_available s) m
              else (Inr \<lparr>aq_acquired = False, aq_semaphore = recompute_available s\<rparr>, m))
           else finish True (recompute_available (s\<lparr>s_holders := ?live @
             [\<lparr>h_id = holder, h_acquired = Some now, h_expires = expires\<rparr>]\<rparr>)) m)"
      using Inr False
      by (auto simp: semaphore_acquire_def sem_evict_expired_def Let_def bnd_def reads_def ret_def
          has_free_permit_def not_less image_iff)
    have quiet: "?live = s_holders s0" if "length ?live = length (s_holders s0)"
      using that by (simp add: live_holders_def) (metis filter_id_conv length_filter_less less_irrefl)
    show thesis
      using assms Inr quiet unfolding run Let_def
      by (auto simp: bnd_def ret_def sbind_def split: if_splits prod.splits sum.splits
          intro: again full evicted granted)
  qed
qed

lemma live_ok:
  assumes "sem_ok bd s"
  shows "sem_ok bd (s\<lparr>s_holders := live_holders now s\<rparr>)"
    and "sem_ok bd (s\<lparr>s_holders := update_first P
      (\<lambda>h. h\<lparr>h_acquired := a, h_expires := e\<rparr>) (live_holders now s)\<rparr>)"
    and "holder \<notin> h_id ` set (live_holders now s) \<Longrightarrow> h_id h = holder \<Longrightarrow>
      length (live_holders now s) < unat (s_total s) \<Longrightarrow>
      sem_ok bd (s\<lparr>s_holders := live_holders now s @ [h]\<rparr>)"
  using assms le_trans [OF length_filter_le]
  by (auto simp: sem_ok_def live_holders_def distinct_map_filter_key update_first_map)

lemma acquire_ok:
  assumes "semaphore_acquire owner ws name holder ttl now m = (x, m')" "sem_store_ok bd m"
  shows "sem_store_ok bd m'"
  using assms(1)
proof (cases rule: acquire_cases)
  case (again s0 s' y)
  then show ?thesis using stored_ok(2) [OF assms(2) again(1)] assms(2)
    by (auto intro!: semaphore_put_ok(1) [OF again(4)] live_ok)
next
  case (evicted s0 s' y)
  then show ?thesis using stored_ok(2) [OF assms(2) evicted(1)] assms(2)
    by (auto intro!: semaphore_put_ok(1) [OF evicted(5)] live_ok)
next
  case (granted s0 s' y)
  then show ?thesis using stored_ok(2) [OF assms(2) granted(1)] assms(2)
    by (auto intro!: semaphore_put_ok(1) [OF granted(5)] live_ok)
qed (use assms in simp_all)

lemma renew_ok:
  assumes "semaphore_renew owner ws name holder ttl now m = (x, m')" "sem_store_ok bd m"
  shows "sem_store_ok bd m'"
proof -
  have "sem_ok bd (s\<lparr>s_holders := update_first P (\<lambda>h. h\<lparr>h_expires := e\<rparr>) (s_holders s)\<rparr>)"
    if "semaphore_get m ws name = Inr (Some s)" for s P e
    using stored_ok(1) [OF assms(2) that] by (simp add: sem_ok_update)
  with assms show ?thesis
    by (auto simp: semaphore_renew_def op_simps intro: semaphore_put_ok(1)
        split: if_splits sum.splits prod.splits option.splits)
qed

lemma release_ok:
  assumes "semaphore_release owner ws name holder m = (x, m')" "sem_store_ok bd m"
  shows "sem_store_ok bd m'"
proof -
  have "sem_ok bd (recompute_available (s\<lparr>s_holders := filter P (s_holders s)\<rparr>))"
    if "semaphore_require m ws name = Inr s" for s P
    using stored_ok(2) [OF assms(2) that] by (simp add: distinct_live)
  with assms show ?thesis
    by (auto simp: semaphore_release_def op_simps Let_def intro: semaphore_put_ok(1)
        split: if_splits sum.splits prod.splits)
qed

lemma delete_ok:
  "semaphore_delete owner ws name m = (x, m') \<Longrightarrow> sem_store_ok bd m \<Longrightarrow> sem_store_ok bd m'"
  using sem_good.store_ok_del [of owner "(ws, name)"] by simp

lemma prefix_chars: "list_all key_char_ok ''tasty.agent.semaphore.''"
  by code_simp

lemma list_loop_ok:
  assumes "semaphore_list_loop owner now es m = (x, m')" "sem_store_ok bd m"
    and "\<forall>e \<in> set es. \<forall>v s. e_value e = Json v \<longrightarrow> semaphore_of_json v = Some s \<longrightarrow> sem_ok bd s"
  shows "sem_store_ok bd m'"
  using assms
proof (induction es arbitrary: m x m')
  case (Cons e es)
  have rest: "\<forall>e \<in> set es. \<forall>v s. e_value e = Json v \<longrightarrow> semaphore_of_json v = Some s \<longrightarrow> sem_ok bd s"
    using Cons.prems(3) by simp
  note IH = Cons.IH [OF _ _ rest]
  show ?case
  proof (cases "\<exists>v s0. e_value e = Json v \<and> semaphore_of_json v = Some s0")
    case False
    with Cons.prems(1,2) IH show ?thesis
      by (auto split: mem_value.splits option.splits)
  next
    case True
    then obtain v s0 where v: "e_value e = Json v" "semaphore_of_json v = Some s0" by blast
    define r where "r = (case now of Some t \<Rightarrow> sem_evict_expired t s0 | None \<Rightarrow> (False, s0))"
    have ok: "sem_ok bd (recompute_available (snd r))"
      using Cons.prems(3) v by (auto simp: r_def sem_ok_snd_evict split: option.splits)
    obtain y m1 where first:
      "(if fst r then semaphore_put owner (recompute_available (snd r)) else ret ()) m = (y, m1)"
      by fastforce
    have inv1: "sem_store_ok bd m1"
      using first Cons.prems(2) ok semaphore_put_ok(1)
      by (auto simp: ret_def split: if_splits)
    obtain z m2 where loop: "semaphore_list_loop owner now es m1 = (z, m2)" by fastforce
    have "m' = m1 \<or> m' = m2"
      using Cons.prems(1) v first loop unfolding r_def [symmetric]
      by (simp add: r_def [symmetric] split_beta Let_def bnd_def ret_def
          split: sum.splits prod.splits)
    with inv1 IH [OF loop inv1] show ?thesis by auto
  qed
qed simp

lemma list_ok:
  assumes "semaphore_list owner ws now m = (x, m')" "sem_store_ok bd m"
  shows "sem_store_ok bd m'"
proof (cases "mem_list m (Workspace ws) (default_list\<lparr>lo_prefix := Some ''tasty.agent.semaphore.''\<rparr>)")
  case (Inl e)
  with assms show ?thesis by (simp add: semaphore_list_def)
next
  case (Inr es)
  have wf: "mem_wf m" "rows_plain m" using sem_good.store_ok_plain [OF assms(2)] by simp_all
  have "sem_ok bd s" if "e \<in> set es" "e_value e = Json v" "semaphore_of_json v = Some s" for e v s
  proof -
    note e = that
    obtain n where n: "e_key e = ''tasty.agent.semaphore.'' @ n"
        "kv_get m ws (e_key e) = Inr (Some (Json v))" "validate_key (e_key e) = Inr ()"
      using listed_entry [OF wf prefix_chars Inr e(1)] e(2) by auto
    then have "semaphore_get m ws n = Inr (Some (recompute_available s))"
      using e(3) by (simp add: semaphore_get_def semaphore_key_def agent_key_ok [THEN iffD2] sbind_def)
    then show ?thesis using stored_ok(1) [OF assms(2)] by fastforce
  qed
  then show ?thesis
    using list_loop_ok [of owner now es m x m' bd] assms Inr by (simp add: semaphore_list_def)
qed

section \<open>Sequences of operations\<close>

datatype sem_cmd =
    SemCreate u32 string u32 u64
  | SemSetPermits u32 string u32 u64
  | SemAcquire u32 string string "u64 option" u64
  | SemRenew u32 string string u64 u64
  | SemRelease u32 string string
  | SemDelete u32 string
  | SemList u32 "u64 option"
  | SemClock int

fun sem_exec :: "string \<Rightarrow> sem_cmd \<Rightarrow> memory \<Rightarrow> memory" where
  "sem_exec owner (SemCreate ws name n now) m = snd (semaphore_create owner ws name n now m)"
| "sem_exec owner (SemSetPermits ws name n now) m = snd (semaphore_set_permits owner ws name n now m)"
| "sem_exec owner (SemAcquire ws name h ttl now) m = snd (semaphore_acquire owner ws name h ttl now m)"
| "sem_exec owner (SemRenew ws name h ttl now) m = snd (semaphore_renew owner ws name h ttl now m)"
| "sem_exec owner (SemRelease ws name h) m = snd (semaphore_release owner ws name h m)"
| "sem_exec owner (SemDelete ws name) m = snd (semaphore_delete owner ws name m)"
| "sem_exec owner (SemList ws now) m = snd (semaphore_list owner ws now m)"
| "sem_exec owner (SemClock t) m = m\<lparr>m_now := t\<rparr>"

definition sem_run :: "string \<Rightarrow> sem_cmd list \<Rightarrow> memory \<Rightarrow> memory" where
  "sem_run owner cmds m = foldl (\<lambda>m c. sem_exec owner c m) m cmds"

fun resizes :: "sem_cmd \<Rightarrow> bool" where
  "resizes (SemSetPermits _ _ _ _) = True"
| "resizes _ = False"

lemma sem_opened: "sem_text jt \<Longrightarrow> sem_store_ok bd (open_in_memory jt cfg now)"
  by (rule sem_good.store_ok_opened) (simp add: text_stable_def sem_text_def)

lemma sem_exec_ok:
  assumes "sem_store_ok bd m" "bd \<longrightarrow> \<not> resizes c"
  shows "sem_store_ok bd (sem_exec owner c m)"
proof -
  have *: "sem_store_ok bd (snd (f m))"
    if "\<And>x m'. f m = (x, m') \<Longrightarrow> sem_store_ok bd m \<Longrightarrow> sem_store_ok bd m'"
    for f :: "memory \<Rightarrow> (agent_error + 'b) \<times> memory"
    using that assms(1) by (cases "f m") simp
  have **: "sem_store_ok False (snd (semaphore_set_permits owner ws name n now m))"
    if "\<not> bd" for ws name n now
    using set_permits_ok [of owner ws name n now m] assms(1) that
    by (cases "semaphore_set_permits owner ws name n now m") simp
  show ?thesis
    using assms(2)
    by (cases c) (auto intro!: * ** sem_good.store_ok_clock assms(1) intro: create_ok acquire_ok
        renew_ok release_ok delete_ok list_ok)
qed

lemma sem_run_ok:
  assumes "sem_store_ok bd m" "bd \<longrightarrow> \<not> (\<exists>c \<in> set cmds. resizes c)"
  shows "sem_store_ok bd (sem_run owner cmds m)"
  using assms unfolding sem_run_def
  by (induction cmds arbitrary: m) (auto intro: sem_exec_ok)

lemma sem_run_from_open:
  "sem_text jt \<Longrightarrow> sem_store_ok False (sem_run owner cmds (open_in_memory jt cfg now))"
  by (rule sem_run_ok [OF sem_opened]) simp_all

section \<open>Properties\<close>

lemma unat_available:
  "recompute_available s = s \<Longrightarrow> unat (s_available s) = unat (s_total s) - length (s_holders s)"
proof -
  assume "recompute_available s = s"
  then have "s_available s = sat_sub (s_total s) (u32_of_len (length (s_holders s)))"
    unfolding recompute_available_def by (metis semaphore.ext_inject semaphore.surjective
        semaphore.update_convs(4))
  moreover have "unat (s_total s) < 2 ^ 32"
    using unsigned_less [where 'a = nat, of "s_total s"] by simp
  ultimately show ?thesis by (auto simp: unat_sat_sub unat_u32_of_len)
qed

text \<open>C21. After any sequence of semaphore operations on a fresh store, whatever their outcomes,
  a semaphore that is found has the name and workspace it is found under, at least one permit,
  no holder listed twice, and as available permits the total less its holders, or zero when
  there are more holders than permits; unless some operation resized a semaphore, the holders
  never outnumber the permits.\<close>

theorem semaphore_invariant:
  assumes "sem_text jt"
    and "semaphore_get (sem_run owner cmds (open_in_memory jt cfg now)) ws name = Inr (Some s)"
  shows "s_ws s = ws \<and> s_name s = name \<and> s_total s \<noteq> 0 \<and> distinct (map h_id (s_holders s)) \<and>
    unat (s_available s) = unat (s_total s) - length (s_holders s) \<and>
    (\<not> (\<exists>c \<in> set cmds. resizes c) \<longrightarrow> length (s_holders s) \<le> unat (s_total s))"
proof -
  let ?m = "sem_run owner cmds (open_in_memory jt cfg now)"
  have "sem_store_ok (\<not> (\<exists>c \<in> set cmds. resizes c)) ?m"
    by (rule sem_run_ok [OF sem_opened [OF assms(1)]]) simp
  from stored_ok(1) [OF this assms(2)] show ?thesis
    using unat_available [OF get_recomputed [OF assms(2)]] by (auto simp: sem_ok_def)
qed

text \<open>An acquire that returns, on any store reached by semaphore operations: the holders that
  have not expired all stay, in order; the holder gets a permit exactly if it had one or fewer of
  them than permits are left; it is then listed once, and no other name is added; the permits are
  not changed; and the answered record is the one stored afterwards.\<close>

theorem acquire_exact:
  assumes "sem_text jt"
    and "m = sem_run owner cmds (open_in_memory jt cfg t0)"
    and "semaphore_acquire owner ws name holder ttl now m = (Inr out, m')"
  shows "\<exists>s0. semaphore_get m ws name = Inr (Some s0) \<and>
    (aq_acquired out \<longleftrightarrow> holder \<in> h_id ` set (live_holders now s0) \<or>
       length (live_holders now s0) < unat (s_total s0)) \<and>
    map h_id (s_holders (aq_semaphore out)) = map h_id (live_holders now s0) @
      (if aq_acquired out \<and> holder \<notin> h_id ` set (live_holders now s0) then [holder] else []) \<and>
    s_total (aq_semaphore out) = s_total s0 \<and>
    semaphore_get m' ws name = Inr (Some (aq_semaphore out))"
proof -
  have inv: "sem_store_ok False m"
    unfolding assms(2) by (rule sem_run_from_open [OF assms(1)])
  note put = semaphore_put_ok(2) [OF _ inv]
  note ok = stored_ok(2) [OF inv]
  from assms(3) show ?thesis
  proof (cases rule: acquire_cases)
    case (again s0 s' y)
    then show ?thesis
      using put [OF again(4)] ok [OF again(1)] requireD [OF again(1)] live_ok(2)
      by (auto simp: sbind_def update_first_map split: sum.splits)
  next
    case (full s0 s')
    have "recompute_available (s0\<lparr>s_holders := live_holders now s0\<rparr>) = s0"
      using full(5) get_recomputed [OF requireD [OF full(1)]] by simp
    with full show ?thesis using requireD [OF full(1)] by auto
  next
    case (evicted s0 s' y)
    then show ?thesis
      using put [OF evicted(5)] ok [OF evicted(1)] requireD [OF evicted(1)] live_ok(1)
      by (auto simp: sbind_def split: sum.splits)
  next
    case (granted s0 s' y)
    then show ?thesis
      using put [OF granted(5)] ok [OF granted(1)] requireD [OF granted(1)] live_ok(3)
      by (auto simp: sbind_def split: sum.splits)
  qed simp
qed

text \<open>Reducing the permits drains, it does not revoke: a resize keeps every holder that has
  not expired, in order, sets the new total, and stores the record it answers.\<close>

theorem set_permits_drains:
  assumes "sem_text jt"
    and "m = sem_run owner cmds (open_in_memory jt cfg t0)"
    and "semaphore_set_permits owner ws name permits now m = (Inr s, m')"
  shows "\<exists>s0. semaphore_get m ws name = Inr (Some s0) \<and> s_holders s = live_holders now s0 \<and>
    s_total s = permits \<and> permits \<noteq> 0 \<and>
    unat (s_available s) = unat permits - length (live_holders now s0) \<and>
    semaphore_get m' ws name = Inr (Some s)"
proof -
  have inv: "sem_store_ok False m"
    unfolding assms(2) by (rule sem_run_from_open [OF assms(1)])
  from assms(3) obtain s0 u where s0: "semaphore_require m ws name = Inr s0" "permits \<noteq> 0"
    "s = recompute_available ((snd (sem_evict_expired now s0))\<lparr>s_total := permits\<rparr>)"
    "semaphore_put owner s m = (Inr u, m')"
    by (auto simp: semaphore_set_permits_def op_simps Let_def split: if_splits sum.splits prod.splits)
  have ok: "s_ws s0 = ws \<and> s_name s0 = name \<and> sem_ok False s0" by (rule stored_ok(2) [OF inv s0(1)])
  then have "sem_ok False s"
    using sem_ok_snd_evict [of False s0 now] s0(2) unfolding s0(3) by (simp add: sem_ok_def)
  from semaphore_put_ok(2) [OF s0(4) inv] show ?thesis
    using ok requireD [OF s0(1)] s0(2) unat_available [of s] unfolding s0(3) by auto
qed

section \<open>Witnesses\<close>

lemma sample_sem_text: "sem_text sample_text"
  by (simp add: sem_text_def sample_text_readable)

definition sem_demo :: "sem_cmd list" where
  "sem_demo = [SemCreate 1 ''s'' 2 1000, SemAcquire 1 ''s'' ''h1'' None 1000,
     SemAcquire 1 ''s'' ''h2'' (Some 100) 1000]"


definition sem_demo_state :: semaphore where
  "sem_demo_state = \<lparr>s_ws = 1, s_name = ''s'', s_total = 2, s_available = 0,
     s_holders = [\<lparr>h_id = ''h1'', h_acquired = Some 1000, h_expires = None\<rparr>,
       \<lparr>h_id = ''h2'', h_acquired = Some 1000, h_expires = Some 1100\<rparr>], s_created = 1000\<rparr>"

lemma sem_demo_get:
  "semaphore_get (sem_run ''_host'' sem_demo demo_open) 1 ''s'' = Inr (Some sem_demo_state)"
  by code_simp

abbreviation sem_demo_mem :: memory where
  "sem_demo_mem \<equiv> sem_run ''_host'' sem_demo demo_open"

lemma sem_demo_require: "semaphore_require sem_demo_mem 1 ''s'' = Inr sem_demo_state"
  by (simp add: semaphore_require_def sem_demo_get sbind_def)

theorem semaphore_invariant_witness:
  "s_ws sem_demo_state = 1 \<and> s_name sem_demo_state = ''s'' \<and> s_total sem_demo_state \<noteq> 0 \<and>
    distinct (map h_id (s_holders sem_demo_state)) \<and>
    unat (s_available sem_demo_state) = unat (s_total sem_demo_state) - length (s_holders sem_demo_state) \<and>
    length (s_holders sem_demo_state) \<le> unat (s_total sem_demo_state)"
  using semaphore_invariant [OF sample_sem_text sem_demo_get] by (simp add: sem_demo_def)

text \<open>A third holder is refused while both permits are held.\<close>

lemma sem_demo_full:
  "semaphore_acquire ''_host'' 1 ''s'' ''h3'' None 1050 sem_demo_mem =
     (Inr \<lparr>aq_acquired = False, aq_semaphore = sem_demo_state\<rparr>, sem_demo_mem)"
proof -
  have "sem_evict_expired 1050 sem_demo_state = (False, sem_demo_state)"
    "\<not> has_free_permit sem_demo_state" "recompute_available sem_demo_state = sem_demo_state"
    "\<not> (\<exists>h \<in> set (s_holders sem_demo_state). h_id h = ''h3'')"
    by code_simp+
  then show ?thesis
    by (simp add: semaphore_acquire_def bnd_def reads_def ret_def sem_demo_require)
qed

theorem acquire_exact_witness:
  "\<exists>s0. semaphore_get sem_demo_mem 1 ''s'' = Inr (Some s0) \<and>
    (False \<longleftrightarrow> ''h3'' \<in> h_id ` set (live_holders 1050 s0) \<or>
       length (live_holders 1050 s0) < unat (s_total s0)) \<and>
    map h_id (s_holders sem_demo_state) = map h_id (live_holders 1050 s0) @
      (if False \<and> ''h3'' \<notin> h_id ` set (live_holders 1050 s0) then [''h3''] else []) \<and>
    s_total sem_demo_state = s_total s0 \<and>
    semaphore_get sem_demo_mem 1 ''s'' = Inr (Some sem_demo_state)"
  using acquire_exact [OF sample_sem_text refl sem_demo_full] by simp

text \<open>A resize to one permit after the second holder's expiry keeps the first.\<close>

theorem set_permits_drains_witness:
  "let r = semaphore_set_permits ''_host'' 1 ''s'' 1 1200 sem_demo_mem;
       s = sem_demo_state\<lparr>s_total := 1, s_holders := [\<lparr>h_id = ''h1'', h_acquired = Some 1000,
         h_expires = None\<rparr>]\<rparr>
   in \<exists>s0. semaphore_get sem_demo_mem 1 ''s'' = Inr (Some s0) \<and> s_holders s = live_holders 1200 s0 \<and>
    s_total s = 1 \<and> (1 :: u32) \<noteq> 0 \<and>
    unat (s_available s) = unat (1 :: u32) - length (live_holders 1200 s0) \<and>
    semaphore_get (snd r) 1 ''s'' = Inr (Some s)"
  unfolding Let_def
  by (rule set_permits_drains [OF sample_sem_text refl], rule pair_of_fst) code_simp

end
