(* ===== verification/Barrier.thy ===== *)
theory Barrier
  imports Sample_Codec
begin

text \<open>
  \<open>crates/tasty-agent/src/barrier.rs\<close>: a gate that opens when enough signals have come. A
  barrier is \<open>Open\<close> until the required number of signals closes it or an operation finds its
  deadline passed; \<open>Closed\<close> and \<open>TimedOut\<close> are final. The lemmas show the state machine, that a
  final barrier is never changed, and what each signal does.
\<close>

section \<open>Data\<close>

datatype barrier_state = BarrierOpen | BarrierClosed | BarrierTimedOut

fun barrier_terminal :: "barrier_state \<Rightarrow> bool" where
  "barrier_terminal BarrierOpen = False"
| "barrier_terminal BarrierClosed = True"
| "barrier_terminal BarrierTimedOut = True"

record barrier =
  b_ws :: u32
  b_name :: string
  b_required :: u32
  b_signaled :: u32
  b_timeout :: "u64 option"
  b_state :: barrier_state
  b_created :: u64
  b_finished :: "u64 option"

definition barrier_expired :: "u64 \<Rightarrow> barrier \<Rightarrow> bool" where
  "barrier_expired now b \<longleftrightarrow>
     (case b_timeout b of Some t \<Rightarrow> sat_add (b_created b) t \<le> now | None \<Rightarrow> False)"

definition maybe_timeout :: "u64 \<Rightarrow> barrier \<Rightarrow> bool \<times> barrier" where
  "maybe_timeout now b =
     (if b_state b = BarrierOpen \<and> barrier_expired now b
      then (True, b\<lparr>b_state := BarrierTimedOut, b_finished := Some now\<rparr>)
      else (False, b))"

section \<open>Stored form\<close>

text \<open>The names \<open>serde\<close> writes, and those \<open>Debug\<close> prints.\<close>

fun barrier_state_name :: "barrier_state \<Rightarrow> string" where
  "barrier_state_name BarrierOpen = ''open''"
| "barrier_state_name BarrierClosed = ''closed''"
| "barrier_state_name BarrierTimedOut = ''timed_out''"

fun barrier_state_debug :: "barrier_state \<Rightarrow> string" where
  "barrier_state_debug BarrierOpen = ''Open''"
| "barrier_state_debug BarrierClosed = ''Closed''"
| "barrier_state_debug BarrierTimedOut = ''TimedOut''"

fun barrier_state_of :: "json \<Rightarrow> barrier_state option" where
  "barrier_state_of (JStr s) =
     (if s = ''open'' then Some BarrierOpen
      else if s = ''closed'' then Some BarrierClosed
      else if s = ''timed_out'' then Some BarrierTimedOut
      else None)"
| "barrier_state_of _ = None"

definition barrier_json :: "barrier \<Rightarrow> json" where
  "barrier_json b = jstruct
     [(''workspace_id'', Some (ju32 (b_ws b))),
      (''name'', Some (jstr (b_name b))),
      (''count_required'', Some (ju32 (b_required b))),
      (''count_signaled'', Some (ju32 (b_signaled b))),
      (''timeout_ms'', map_option ju64 (b_timeout b)),
      (''state'', Some (jstr (barrier_state_name (b_state b)))),
      (''created_at'', Some (ju64 (b_created b))),
      (''finished_at'', map_option ju64 (b_finished b))]"

definition barrier_of_json :: "json \<Rightarrow> barrier option" where
  "barrier_of_json v =
     (case (req_field un_u32 v ''workspace_id'', req_field un_str v ''name'',
            req_field un_u32 v ''count_required'', req_field un_u32 v ''count_signaled'',
            opt_field un_u64 v ''timeout_ms'', req_field barrier_state_of v ''state'',
            req_field un_u64 v ''created_at'', opt_field un_u64 v ''finished_at'') of
        (Some w, Some n, Some r, Some c, Some t, Some st, Some cr, Some f) \<Rightarrow>
          Some \<lparr>b_ws = w, b_name = n, b_required = r, b_signaled = c, b_timeout = t,
            b_state = st, b_created = cr, b_finished = f\<rparr>
      | _ \<Rightarrow> None)"

lemma barrier_state_roundtrip: "barrier_state_of (jstr (barrier_state_name st)) = Some st"
  by (cases st) (simp_all add: jstr_def)

lemma barrier_json_roundtrip: "barrier_of_json (barrier_json b) = Some b"
proof -
  have "opt_field un_u64 (barrier_json b) ''timeout_ms'' = Some (b_timeout b)"
    "opt_field un_u64 (barrier_json b) ''finished_at'' = Some (b_finished b)"
    by (auto simp: barrier_json_def opt_field_def jget_jstruct un_opt_Some split: option.splits)
  then show ?thesis
    by (simp add: barrier_of_json_def req_field_def)
      (simp add: barrier_json_def jget_jstruct barrier_state_roundtrip)
qed

section \<open>The store\<close>

definition barrier_key :: "string \<Rightarrow> agent_error + string" where
  "barrier_key name = agent_key ''tasty.agent.barrier.'' ''barrier name'' name"

definition check_barrier_name :: "string \<Rightarrow> agent_error + unit" where
  "check_barrier_name name = sbind (barrier_key name) (\<lambda>_. Inr ())"

definition barrier_put :: "string \<Rightarrow> barrier \<Rightarrow> unit agent_op" where
  "barrier_put owner b m =
     (case barrier_key (b_name b) of
        Inl e \<Rightarrow> (Inl e, m)
      | Inr key \<Rightarrow> kv_put owner (b_ws b) key (barrier_json b) m)"

definition barrier_get :: "memory \<Rightarrow> u32 \<Rightarrow> string \<Rightarrow> agent_error + barrier option" where
  "barrier_get m ws name =
     sbind (barrier_key name) (\<lambda>key. sbind (kv_get m ws key) (\<lambda>entry.
       case entry of
         None \<Rightarrow> Inr None
       | Some (Json v) \<Rightarrow>
           (case barrier_of_json v of None \<Rightarrow> Inl SerdeErr | Some b \<Rightarrow> Inr (Some b))
       | Some _ \<Rightarrow> Inl (invalid (''barrier entry is not json: '' @ name))))"

text \<open>\<open>list\<close> reads every entry first, then writes the barriers that timed out.\<close>

fun barrier_read_all :: "mem_entry list \<Rightarrow> agent_error + barrier list" where
  "barrier_read_all [] = Inr []"
| "barrier_read_all (e # es) =
     (case e_value e of
        Json v \<Rightarrow>
          (case barrier_of_json v of
             None \<Rightarrow> Inl SerdeErr
           | Some b \<Rightarrow> sbind (barrier_read_all es) (\<lambda>bs. Inr (b # bs)))
      | _ \<Rightarrow> barrier_read_all es)"

fun barrier_expire_all :: "string \<Rightarrow> u64 \<Rightarrow> barrier list \<Rightarrow> barrier list agent_op" where
  "barrier_expire_all owner now [] m = (Inr [], m)"
| "barrier_expire_all owner now (b # bs) m =
     (let (changed, b') = maybe_timeout now b in
      bnd (if changed then barrier_put owner b' else ret ()) (\<lambda>_.
      bnd (barrier_expire_all owner now bs) (\<lambda>rest. ret (b' # rest))) m)"

definition barrier_list :: "string \<Rightarrow> u32 \<Rightarrow> u64 option \<Rightarrow> barrier list agent_op" where
  "barrier_list owner ws now m =
     (case mem_list m (Workspace ws) (default_list\<lparr>lo_prefix := Some ''tasty.agent.barrier.''\<rparr>) of
        Inl e \<Rightarrow> (Inl (MemoryErr e), m)
      | Inr entries \<Rightarrow>
          (case barrier_read_all entries of
             Inl e \<Rightarrow> (Inl e, m)
           | Inr bs \<Rightarrow>
               (case now of None \<Rightarrow> (Inr bs, m) | Some t \<Rightarrow> barrier_expire_all owner t bs m)))"

definition barrier_create ::
  "string \<Rightarrow> u32 \<Rightarrow> string \<Rightarrow> u32 \<Rightarrow> u64 option \<Rightarrow> u64 \<Rightarrow> barrier agent_op" where
  "barrier_create owner ws name required timeout now =
     (if required = 0 then fail (invalid ''barrier.count_required must be >= 1'')
      else bnd (reads (\<lambda>m. barrier_get m ws name)) (\<lambda>existing.
        case existing of
          Some b \<Rightarrow> fail (invalid (''barrier '' @ CHR 0x27 # name @ CHR 0x27 #
            '' already exists (state='' @ barrier_state_debug (b_state b) @ '')''))
        | None \<Rightarrow>
            (let b = \<lparr>b_ws = ws, b_name = name, b_required = required, b_signaled = 0,
               b_timeout = timeout, b_state = BarrierOpen, b_created = now, b_finished = None\<rparr>
             in bnd (barrier_put owner b) (\<lambda>_. ret b))))"

definition barrier_found :: "memory \<Rightarrow> u32 \<Rightarrow> string \<Rightarrow> agent_error + barrier" where
  "barrier_found m ws name =
     sbind (barrier_get m ws name) (\<lambda>r.
       case r of Some b \<Rightarrow> Inr b | None \<Rightarrow> Inl (invalid (''barrier not found: '' @ name)))"

definition barrier_signal :: "string \<Rightarrow> u32 \<Rightarrow> string \<Rightarrow> u64 \<Rightarrow> barrier agent_op" where
  "barrier_signal owner ws name now =
     bnd (reads (\<lambda>m. barrier_found m ws name)) (\<lambda>b0.
       let (changed, b) = maybe_timeout now b0 in
       if changed then
         bnd (barrier_put owner b) (\<lambda>_.
           fail (invalid (''barrier '' @ CHR 0x27 # name @ CHR 0x27 # '' timed out'')))
       else if barrier_terminal (b_state b) then
         fail (AlreadyTerminal (CHR 0x22 # barrier_state_name (b_state b) @ [CHR 0x22]))
       else
         (let b1 = b\<lparr>b_signaled := sat_add (b_signaled b) 1\<rparr>;
              b2 = (if b_required b1 \<le> b_signaled b1
                    then b1\<lparr>b_state := BarrierClosed, b_finished := Some now\<rparr> else b1)
          in bnd (barrier_put owner b2) (\<lambda>_. ret b2)))"

definition barrier_query :: "string \<Rightarrow> u32 \<Rightarrow> string \<Rightarrow> u64 \<Rightarrow> barrier agent_op" where
  "barrier_query owner ws name now =
     bnd (reads (\<lambda>m. barrier_found m ws name)) (\<lambda>b0.
       let (changed, b) = maybe_timeout now b0 in
       bnd (if changed then barrier_put owner b else ret ()) (\<lambda>_. ret b))"

definition barrier_delete :: "string \<Rightarrow> u32 \<Rightarrow> string \<Rightarrow> unit agent_op" where
  "barrier_delete owner ws name m =
     (case barrier_key name of
        Inl e \<Rightarrow> (Inl e, m)
      | Inr key \<Rightarrow> kv_delete owner ws key m)"

section \<open>Interpretation\<close>

lemma barrier_key_inj: "barrier_key n = Inr k \<Longrightarrow> barrier_key n' = Inr k \<Longrightarrow> n = n'"
  by (auto simp: barrier_key_def agent_key_ok)

text \<open>
  A good barrier: open below the required count, closed exactly at it, timed out only when it had
  a deadline and was below the count; finished exactly when it is final.
\<close>

definition barrier_ok :: "barrier \<Rightarrow> bool" where
  "barrier_ok b \<longleftrightarrow> b_required b \<noteq> 0 \<and>
     (case b_state b of
        BarrierOpen \<Rightarrow> b_signaled b < b_required b \<and> b_finished b = None
      | BarrierClosed \<Rightarrow> b_signaled b = b_required b \<and> b_finished b \<noteq> None
      | BarrierTimedOut \<Rightarrow> b_signaled b < b_required b \<and> b_finished b \<noteq> None \<and>
          b_timeout b \<noteq> None)"

interpretation bar: json_store
  "\<lambda>m (ws, name). barrier_get m ws name" "barrier_put owner"
  "\<lambda>(ws, name). barrier_delete owner ws name" owner barrier_key barrier_json barrier_of_json
  b_ws b_name "\<lambda>b. b" barrier_ok
  "\<lambda>name. invalid (''barrier entry is not json: '' @ name)" for owner
proof (unfold_locales, goal_cases)
  case 1
  show ?case unfolding prod.case by (rule barrier_get_def)
next
  case 2
  show ?case by (rule barrier_put_def)
next
  case 3
  show ?case unfolding prod.case by (rule barrier_delete_def)
qed (simp_all add: barrier_key_inj barrier_json_roundtrip)

lemma barrier_stored:
  assumes "bar.store_ok m"
  shows "barrier_get m ws name = Inr (Some b) \<Longrightarrow> b_ws b = ws \<and> b_name b = name \<and> barrier_ok b"
  using bar.found [OF assms, of "(ws, name)" b] by simp

lemma barrier_found_get: "barrier_found m ws name = Inr b \<longleftrightarrow> barrier_get m ws name = Inr (Some b)"
  by (auto simp: barrier_found_def sbind_def split: sum.splits option.splits)

section \<open>One barrier\<close>

lemma maybe_timeout_fields [simp]:
  "b_ws (snd (maybe_timeout now b)) = b_ws b" "b_name (snd (maybe_timeout now b)) = b_name b"
  by (simp_all add: maybe_timeout_def)

lemma maybe_timeout_ok: "barrier_ok b \<Longrightarrow> barrier_ok (snd (maybe_timeout now b))"
proof (cases "b_state b = BarrierOpen \<and> barrier_expired now b")
  case True
  assume "barrier_ok b"
  with True show ?thesis
    by (auto simp: maybe_timeout_def barrier_ok_def barrier_expired_def split: option.splits)
next
  case False
  assume "barrier_ok b"
  moreover have "maybe_timeout now b = (False, b)"
    using False unfolding maybe_timeout_def by (rule if_not_P)
  ultimately show ?thesis by simp
qed

lemma maybe_timeout_same: "\<not> fst (maybe_timeout now b) \<Longrightarrow> snd (maybe_timeout now b) = b"
  by (auto simp: maybe_timeout_def split: if_splits)

lemma maybe_timeout_open: "fst (maybe_timeout now b) \<Longrightarrow> b_state b = BarrierOpen"
  by (simp add: maybe_timeout_def split: if_splits)

text \<open>The barrier a signal leaves when it is counted.\<close>

definition counted :: "u64 \<Rightarrow> barrier \<Rightarrow> barrier" where
  "counted now b =
     (let b1 = b\<lparr>b_signaled := sat_add (b_signaled b) 1\<rparr>
      in if b_required b1 \<le> b_signaled b1
         then b1\<lparr>b_state := BarrierClosed, b_finished := Some now\<rparr> else b1)"

lemma sat_add_one: "a < (b :: 'a::len word) \<Longrightarrow> unat (sat_add a 1) = unat a + 1"
proof -
  assume "a < b"
  then have "unat a < unat b" by (simp add: word_less_nat_alt)
  moreover have "unat b < 2 ^ LENGTH('a)" by (rule unsigned_less)
  ultimately have "unat a + 1 \<le> 2 ^ LENGTH('a) - 1" by linarith
  then show ?thesis by (simp add: unat_sat_add)
qed

lemma counted_ok:
  assumes "barrier_ok b" "b_state b = BarrierOpen"
  shows "barrier_ok (counted now b)"
    and "unat (b_signaled (counted now b)) = unat (b_signaled b) + 1"
    and "b_state (counted now b) = BarrierClosed \<longleftrightarrow> unat (b_signaled b) + 1 = unat (b_required b)"
proof -
  have lt: "b_signaled b < b_required b" using assms by (simp add: barrier_ok_def)
  note one = sat_add_one [OF lt]
  have iff: "b_required b \<le> sat_add (b_signaled b) 1 \<longleftrightarrow> unat (b_signaled b) + 1 = unat (b_required b)"
    using lt one by (auto simp: word_le_nat_alt word_less_nat_alt)
  show "unat (b_signaled (counted now b)) = unat (b_signaled b) + 1"
    by (simp add: counted_def Let_def one)
  show "b_state (counted now b) = BarrierClosed \<longleftrightarrow> unat (b_signaled b) + 1 = unat (b_required b)"
    using assms(2) iff by (simp add: counted_def Let_def)
  show "barrier_ok (counted now b)"
    using assms iff one lt
    by (auto simp: counted_def Let_def barrier_ok_def word_unat_eq_iff not_le)
qed

section \<open>The operations\<close>

lemma signal_cases:
  assumes "barrier_signal owner ws name now m = (x, m')"
  obtains (missing) e where "x = Inl e" "m' = m" "\<nexists>b. barrier_get m ws name = Inr (Some b)"
  | (final) b where "barrier_get m ws name = Inr (Some b)" "barrier_terminal (b_state b)"
      "x = Inl (AlreadyTerminal (CHR 0x22 # barrier_state_name (b_state b) @ [CHR 0x22]))" "m' = m"
  | (late) b y where "barrier_get m ws name = Inr (Some b)" "b_state b = BarrierOpen"
      "barrier_expired now b"
      "barrier_put owner (b\<lparr>b_state := BarrierTimedOut, b_finished := Some now\<rparr>) m = (y, m')"
      "\<exists>e. x = Inl e"
  | (counts) b y where "barrier_get m ws name = Inr (Some b)" "b_state b = BarrierOpen"
      "\<not> barrier_expired now b" "barrier_put owner (counted now b) m = (y, m')"
      "x = sbind y (\<lambda>_. Inr (counted now b))"
proof (cases "barrier_found m ws name")
  case (Inl e)
  with assms show thesis
    by (intro missing [of e], unfold barrier_found_get [symmetric])
      (auto simp add: barrier_signal_def bnd_def reads_def)
next
  case (Inr b)
  then have get: "barrier_get m ws name = Inr (Some b)" by (simp add: barrier_found_get)
  show thesis
  proof (cases "b_state b = BarrierOpen")
    case False
    then have "maybe_timeout now b = (False, b)" "barrier_terminal (b_state b)"
      by (cases "b_state b"; simp add: maybe_timeout_def)+
    with assms Inr get show thesis
      by (intro final [OF get]) (auto simp: barrier_signal_def op_simps)
  next
    case opened: True
    show thesis
    proof (cases "barrier_expired now b")
      case True
      obtain y where y: "barrier_put owner (b\<lparr>b_state := BarrierTimedOut, b_finished := Some now\<rparr>) m
          = (y, m')"
        using assms Inr opened True
        by (auto simp: barrier_signal_def maybe_timeout_def op_simps split: prod.splits sum.splits)
      moreover have "\<exists>e. x = Inl e"
        using assms Inr opened True y
        by (auto simp: barrier_signal_def maybe_timeout_def op_simps split: prod.splits sum.splits)
      ultimately show thesis using late get opened True by blast
    next
      case False
      obtain y m1 where y: "barrier_put owner (counted now b) m = (y, m1)" by fastforce
      have "m1 = m' \<and> x = sbind y (\<lambda>_. Inr (counted now b))"
        using assms Inr opened False y
        by (cases y) (auto simp: barrier_signal_def maybe_timeout_def bnd_def reads_def ret_def
            sbind_def Let_def counted_def)
      with counts [OF get opened False] y show thesis by simp
    qed
  qed
qed

text \<open>What an operation other than a deletion does to the barriers: a final one stays as it is.\<close>

definition barrier_step :: "memory \<Rightarrow> memory \<Rightarrow> bool" where
  "barrier_step m m' \<longleftrightarrow> bar.store_ok m' \<and>
     (\<forall>ws name b. barrier_get m ws name = Inr (Some b) \<longrightarrow> barrier_terminal (b_state b) \<longrightarrow>
        barrier_get m' ws name = Inr (Some b))"

lemma barrier_step_refl: "bar.store_ok m \<Longrightarrow> barrier_step m m"
  by (simp add: barrier_step_def)

lemma barrier_step_trans: "barrier_step m m' \<Longrightarrow> barrier_step m' m'' \<Longrightarrow> barrier_step m m''"
  by (auto simp: barrier_step_def)

lemma barrier_step_put:
  assumes "barrier_put owner b m = (x, m')" "bar.store_ok m" "barrier_ok b"
    and "\<And>b0. barrier_get m (b_ws b) (b_name b) = Inr (Some b0) \<Longrightarrow> \<not> barrier_terminal (b_state b0)"
  shows "barrier_step m m'"
proof -
  have "barrier_get m' ws name = barrier_get m ws name" if "(ws, name) \<noteq> (b_ws b, b_name b)" for ws name
    using bar.put_other [OF assms(1), of "(ws, name)"] that by simp
  then show ?thesis
    using bar.store_ok_put [OF assms(1-3)] assms(4) by (auto simp: barrier_step_def) metis
qed

lemma signal_step:
  assumes "barrier_signal owner ws name now m = (x, m')" "bar.store_ok m"
  shows "barrier_step m m'"
  using assms(1)
proof (cases rule: signal_cases)
  case (late b y)
  have "barrier_ok (b\<lparr>b_state := BarrierTimedOut, b_finished := Some now\<rparr>)"
    using maybe_timeout_ok [of b now] barrier_stored [OF assms(2) late(1)] late
    by (simp add: maybe_timeout_def)
  then show ?thesis
    using barrier_stored [OF assms(2) late(1)] late
    by (intro barrier_step_put [OF late(4) assms(2)]) auto
next
  case (counts b y)
  have "b_ws (counted now b) = b_ws b" "b_name (counted now b) = b_name b"
    by (simp_all add: counted_def Let_def)
  then show ?thesis
    using barrier_stored [OF assms(2) counts(1)] counts counted_ok(1)
    by (intro barrier_step_put [OF counts(4) assms(2)]) auto
qed (simp_all add: assms(2) barrier_step_refl)

lemma timeout_step:
  assumes "(if fst (maybe_timeout now b) then barrier_put owner (snd (maybe_timeout now b)) else ret ()) m
      = (x, m')" "bar.store_ok m"
    and "barrier_get m (b_ws b) (b_name b) = Inr (Some b)"
  shows "barrier_step m m'"
proof (cases "fst (maybe_timeout now b)")
  case True
  with assms barrier_stored [OF assms(2,3)] show ?thesis
    by (intro barrier_step_put [of owner "snd (maybe_timeout now b)" m x])
      (auto simp: maybe_timeout_ok dest: maybe_timeout_open)
next
  case False
  with assms show ?thesis by (simp add: ret_def barrier_step_refl)
qed

lemma query_step:
  assumes "barrier_query owner ws name now m = (x, m')" "bar.store_ok m"
  shows "barrier_step m m'"
proof (cases "barrier_found m ws name")
  case (Inl e)
  with assms show ?thesis by (simp add: barrier_query_def bnd_def reads_def barrier_step_refl)
next
  case (Inr b)
  then have get: "barrier_get m ws name = Inr (Some b)" by (simp add: barrier_found_get)
  obtain y m1 where run: "(if fst (maybe_timeout now b) then barrier_put owner (snd (maybe_timeout now b))
      else ret ()) m = (y, m1)" by fastforce
  have "m1 = m'"
    using assms(1) Inr run by (cases y) (auto simp: barrier_query_def bnd_def reads_def ret_def split_beta)
  then show ?thesis
    using timeout_step [OF run assms(2)] get barrier_stored [OF assms(2) get] by auto
qed

lemma create_step:
  assumes "barrier_create owner ws name required timeout now m = (x, m')" "bar.store_ok m"
  shows "barrier_step m m'"
proof -
  let ?b = "\<lparr>b_ws = ws, b_name = name, b_required = required, b_signaled = 0, b_timeout = timeout,
    b_state = BarrierOpen, b_created = now, b_finished = None\<rparr>"
  have ok: "barrier_ok ?b" if "required \<noteq> 0"
    using that by (simp add: barrier_ok_def word_gt_0)
  show ?thesis
    using assms
    by (auto simp: barrier_create_def op_simps Let_def intro: barrier_step_refl
        intro!: barrier_step_put [where b = ?b, OF _ assms(2) ok]
        split: if_splits sum.splits option.splits prod.splits)
qed

lemma barrier_prefix_chars: "list_all key_char_ok ''tasty.agent.barrier.''"
  by code_simp

lemma read_all_in:
  "barrier_read_all es = Inr bs \<Longrightarrow> b \<in> set bs \<Longrightarrow>
   \<exists>e \<in> set es. \<exists>v. e_value e = Json v \<and> barrier_of_json v = Some b"
  by (induction es arbitrary: bs)
    (fastforce simp: sbind_def split: mem_value.splits option.splits sum.splits)+

lemma list_loop_step:
  "barrier_expire_all owner now bs m = (x, m') \<Longrightarrow> bar.store_ok m \<Longrightarrow>
   \<forall>b \<in> set bs. barrier_get m (b_ws b) (b_name b) = Inr (Some b) \<Longrightarrow>
   distinct (map (\<lambda>b. (b_ws b, b_name b)) bs) \<Longrightarrow> barrier_step m m'"
proof (induction bs arbitrary: m x m')
  case Nil
  then show ?case by (simp add: barrier_step_refl)
next
  case (Cons b bs)
  obtain y m1 where run: "(if fst (maybe_timeout now b) then barrier_put owner (snd (maybe_timeout now b))
      else ret ()) m = (y, m1)" by fastforce
  have step1: "barrier_step m m1" using timeout_step [OF run] Cons.prems(2,3) by simp
  then have ok1: "bar.store_ok m1" by (simp add: barrier_step_def)
  obtain z m2 where loop: "barrier_expire_all owner now bs m1 = (z, m2)" by fastforce
  have "barrier_get m1 (b_ws b') (b_name b') = Inr (Some b')" if "b' \<in> set bs" for b'
  proof -
    have "(b_ws b', b_name b') \<noteq> (b_ws b, b_name b)" using Cons.prems(4) that by (auto simp: image_iff)
    then have "barrier_get m1 (b_ws b') (b_name b') = barrier_get m (b_ws b') (b_name b')"
      using run bar.put_other [of owner "snd (maybe_timeout now b)" m y m1 "(b_ws b', b_name b')"]
      by (auto simp: ret_def split: if_splits)
    then show ?thesis using Cons.prems(3) that by simp
  qed
  then have "barrier_step m1 m2" using Cons.IH [OF loop ok1] Cons.prems(4) by simp
  moreover have "m' = m1 \<or> m' = m2"
    using Cons.prems(1) run loop
    by (cases y) (auto simp: bnd_def ret_def split_beta split: sum.splits prod.splits)
  ultimately show ?case using step1 barrier_step_trans by blast
qed

lemma read_all_distinct:
  assumes "barrier_read_all es = Inr bs" "distinct (map e_key es)"
    and "\<And>e v b. e \<in> set es \<Longrightarrow> e_value e = Json v \<Longrightarrow> barrier_of_json v = Some b \<Longrightarrow>
      e_key e = p @ b_name b"
  shows "distinct (map b_name bs)"
  using assms
proof (induction es arbitrary: bs)
  case (Cons e es)
  show ?case
  proof (cases "\<exists>v b. e_value e = Json v \<and> barrier_of_json v = Some b")
    case True
    then obtain v b where v: "e_value e = Json v" "barrier_of_json v = Some b" by blast
    with Cons.prems(1) obtain bs' where bs': "barrier_read_all es = Inr bs'" "bs = b # bs'"
      by (auto simp: sbind_def split: sum.splits)
    have "b_name b' \<noteq> b_name b" if b': "b' \<in> set bs'" for b'
    proof -
      obtain e' v' where e': "e' \<in> set es" "e_value e' = Json v'" "barrier_of_json v' = Some b'"
        using read_all_in [OF bs'(1) b'] by blast
      have "e_key e = p @ b_name b" "e_key e' = p @ b_name b'"
        using Cons.prems(3) [of e v b] Cons.prems(3) [of e' v' b'] v e' by auto
      moreover have "e_key e' \<in> e_key ` set es" using e'(1) by (rule imageI)
      then have "e_key e' \<noteq> e_key e" using Cons.prems(2) by auto
      ultimately show ?thesis by auto
    qed
    moreover have "distinct (map b_name bs')"
      using Cons.IH [OF bs'(1)] Cons.prems(2,3) by auto
    ultimately show ?thesis using bs'(2) by fastforce
  next
    case False
    with Cons show ?thesis by (auto split: mem_value.splits option.splits)
  qed
qed simp

lemma list_step:
  assumes "barrier_list owner ws now m = (x, m')" "bar.store_ok m"
  shows "barrier_step m m'"
proof (cases "\<exists>es bs t. mem_list m (Workspace ws) (default_list\<lparr>lo_prefix := Some ''tasty.agent.barrier.''\<rparr>)
    = Inr es \<and> barrier_read_all es = Inr bs \<and> now = Some t")
  case False
  with assms show ?thesis
    by (auto simp: barrier_list_def barrier_step_refl split: sum.splits option.splits)
next
  case True
  then obtain es bs t where es: "barrier_read_all es = Inr bs" "now = Some t" and
    list: "mem_list m (Workspace ws) (default_list\<lparr>lo_prefix := Some ''tasty.agent.barrier.''\<rparr>) = Inr es"
    by blast
  have wf: "mem_wf m" "rows_plain m" using bar.store_ok_plain [OF assms(2)] by simp_all
  have entry: "e_key e = ''tasty.agent.barrier.'' @ b_name b \<and>
      barrier_get m (b_ws b) (b_name b) = Inr (Some b) \<and> b_ws b = ws"
    if e: "e \<in> set es" "e_value e = Json v" "barrier_of_json v = Some b" for e v b
  proof -
    obtain n where n: "e_key e = ''tasty.agent.barrier.'' @ n"
        "kv_get m ws (e_key e) = Inr (Some (Json v))" "validate_key (e_key e) = Inr ()"
      using listed_entry [OF wf barrier_prefix_chars list e(1)] e(2) by auto
    have "barrier_key n = Inr (e_key e)"
      unfolding barrier_key_def agent_key_ok using n by simp
    from bar.listed_get [OF n(2) this e(3)] have "barrier_get m ws n = Inr (Some b)" by simp
    with barrier_stored [OF assms(2) this] n(1) show ?thesis by auto
  qed
  have dist: "distinct (map e_key es)"
    using mem_list_sorted [OF wf(1) list] by (simp add: strict_sorted_iff default_list_def)
  have "distinct (map b_name bs)"
    by (rule read_all_distinct [OF es(1) dist]) (use entry in blast)
  then have dist': "distinct (map (\<lambda>b. (b_ws b, b_name b)) bs)"
    by (simp add: distinct_map inj_on_def)
  have found: "\<forall>b \<in> set bs. barrier_get m (b_ws b) (b_name b) = Inr (Some b)"
    using read_all_in [OF es(1)] entry by blast
  show ?thesis
    by (rule list_loop_step [OF _ assms(2) found dist', of owner t x])
      (use assms(1) es list in \<open>simp add: barrier_list_def\<close>)
qed

section \<open>Sequences of operations\<close>

datatype bar_cmd =
    BarCreate u32 string u32 "u64 option" u64
  | BarSignal u32 string u64
  | BarQuery u32 string u64
  | BarList u32 "u64 option"
  | BarDelete u32 string
  | BarClock int

fun bar_exec :: "string \<Rightarrow> bar_cmd \<Rightarrow> memory \<Rightarrow> memory" where
  "bar_exec owner (BarCreate ws name n t now) m = snd (barrier_create owner ws name n t now m)"
| "bar_exec owner (BarSignal ws name now) m = snd (barrier_signal owner ws name now m)"
| "bar_exec owner (BarQuery ws name now) m = snd (barrier_query owner ws name now m)"
| "bar_exec owner (BarList ws now) m = snd (barrier_list owner ws now m)"
| "bar_exec owner (BarDelete ws name) m = snd (barrier_delete owner ws name m)"
| "bar_exec owner (BarClock t) m = m\<lparr>m_now := t\<rparr>"

definition bar_run :: "string \<Rightarrow> bar_cmd list \<Rightarrow> memory \<Rightarrow> memory" where
  "bar_run owner cmds m = foldl (\<lambda>m c. bar_exec owner c m) m cmds"

definition bar_text :: "json_text \<Rightarrow> bool" where
  "bar_text jt \<longleftrightarrow> (\<forall>b. readable jt (Json (barrier_json b)))"

lemma bar_opened: "bar_text jt \<Longrightarrow> bar.store_ok (open_in_memory jt cfg now)"
  by (rule bar.store_ok_opened) (simp add: text_stable_def bar_text_def)

lemma bar_exec_ok:
  assumes "bar.store_ok m"
  shows "bar.store_ok (bar_exec owner c m)"
    and "(\<nexists>ws name. c = BarDelete ws name) \<Longrightarrow> barrier_step m (bar_exec owner c m)"
proof -
  have *: "barrier_step m (snd (f m))"
    if "\<And>x m'. f m = (x, m') \<Longrightarrow> bar.store_ok m \<Longrightarrow> barrier_step m m'"
    for f :: "memory \<Rightarrow> (agent_error + 'b) \<times> memory"
    using that assms by (cases "f m") simp
  have clock: "barrier_step m (m\<lparr>m_now := t\<rparr>)" for t
    using bar.store_ok_clock [OF assms, of t] bar.store_ok_plain [OF assms]
      bar.get_clock [of m t "(ws, name)" for ws name]
    by (simp add: barrier_step_def)
  have del: "bar.store_ok (snd (barrier_delete owner ws name m))" for ws name
    using bar.store_ok_del [of owner "(ws, name)" m] assms
    by (cases "barrier_delete owner ws name m") simp
  show step: "barrier_step m (bar_exec owner c m)" if "\<nexists>ws name. c = BarDelete ws name"
    using that by (cases c) (auto intro!: * clock intro: create_step signal_step query_step list_step)
  show "bar.store_ok (bar_exec owner c m)"
    using step del by (cases c) (auto simp: barrier_step_def)
qed

lemma bar_run_ok: "bar.store_ok m \<Longrightarrow> bar.store_ok (bar_run owner cmds m)"
  unfolding bar_run_def by (induction cmds arbitrary: m) (auto intro: bar_exec_ok(1))

lemma bar_run_final:
  assumes "bar.store_ok m" "barrier_get m ws name = Inr (Some b)" "barrier_terminal (b_state b)"
    and "\<not> (\<exists>c \<in> set cmds. \<exists>ws name. c = BarDelete ws name)"
  shows "barrier_get (bar_run owner cmds m) ws name = Inr (Some b)"
  using assms unfolding bar_run_def
proof (induction cmds arbitrary: m)
  case (Cons c cmds)
  have "barrier_step m (bar_exec owner c m)"
    using bar_exec_ok(2) [OF Cons.prems(1)] Cons.prems(4) by auto
  with Cons show ?case by (auto simp: barrier_step_def)
qed simp

section \<open>Properties\<close>

text \<open>C23. After any sequence of barrier operations on a fresh store, a barrier that is found is
  the one of that name, and is open below its required count, closed exactly at it, or timed out
  below it with a deadline; it has a finish time exactly when it is final; and once it is final,
  no further sequence of operations without a deletion changes it.\<close>

theorem barrier_lifecycle:
  assumes "bar_text jt" and "m = bar_run owner cmds (open_in_memory jt cfg t0)"
    and "barrier_get m ws name = Inr (Some b)"
  shows "b_ws b = ws \<and> b_name b = name \<and>
    (b_state b = BarrierOpen \<longrightarrow> b_signaled b < b_required b \<and> b_finished b = None) \<and>
    (b_state b = BarrierClosed \<longrightarrow> b_signaled b = b_required b \<and> b_finished b \<noteq> None) \<and>
    (b_state b = BarrierTimedOut \<longrightarrow> b_signaled b < b_required b \<and> b_finished b \<noteq> None \<and>
       b_timeout b \<noteq> None) \<and>
    (b_state b \<noteq> BarrierOpen \<longrightarrow> (\<forall>more. \<not> (\<exists>c \<in> set more. \<exists>ws name. c = BarDelete ws name) \<longrightarrow>
       barrier_get (bar_run owner more m) ws name = Inr (Some b)))"
proof -
  have ok: "bar.store_ok m" unfolding assms(2) by (rule bar_run_ok [OF bar_opened [OF assms(1)]])
  have "barrier_terminal (b_state b)" if "b_state b \<noteq> BarrierOpen"
    using that by (cases "b_state b") auto
  then show ?thesis
    using barrier_stored [OF ok assms(3)] bar_run_final [OF ok assms(3)]
    by (auto simp: barrier_ok_def)
qed

text \<open>A signal on a barrier of a reachable store: it is refused with \<open>AlreadyTerminal\<close> and
  changes nothing if the barrier is final; it is refused and leaves the barrier timed out if the
  deadline has passed; otherwise, unless the store refuses the write, it counts one, closes the
  barrier exactly when the count reaches the required one, and stores what it answers.\<close>

theorem signal_exact:
  assumes "bar_text jt" and "m = bar_run owner cmds (open_in_memory jt cfg t0)"
    and "barrier_get m ws name = Inr (Some b)"
    and "barrier_signal owner ws name now m = (x, m')"
  shows "(b_state b \<noteq> BarrierOpen \<longrightarrow> m' = m \<and> (\<exists>s. x = Inl (AlreadyTerminal s))) \<and>
    (b_state b = BarrierOpen \<and> barrier_expired now b \<longrightarrow> (\<exists>e. x = Inl e) \<and> (m' = m \<or>
       barrier_get m' ws name = Inr (Some (b\<lparr>b_state := BarrierTimedOut, b_finished := Some now\<rparr>)))) \<and>
    (b_state b = BarrierOpen \<and> \<not> barrier_expired now b \<longrightarrow>
       (case x of Inl e \<Rightarrow> m' = m
        | Inr b' \<Rightarrow> unat (b_signaled b') = unat (b_signaled b) + 1 \<and>
            (b_state b' = BarrierClosed \<longleftrightarrow> unat (b_signaled b') = unat (b_required b)) \<and>
            b_required b' = b_required b \<and> barrier_get m' ws name = Inr (Some b')))"
proof -
  have ok: "bar.store_ok m" unfolding assms(2) by (rule bar_run_ok [OF bar_opened [OF assms(1)]])
  note b = barrier_stored [OF ok assms(3)]
  from assms(4) show ?thesis
  proof (cases rule: signal_cases)
    case (missing e)
    with assms(3) show ?thesis by blast
  next
    case (final b')
    with assms(3) show ?thesis by auto
  next
    case (late b' y)
    with assms(3) have eq: "b' = b" by simp
    let ?late = "b\<lparr>b_state := BarrierTimedOut, b_finished := Some now\<rparr>"
    have "m' = m \<or> barrier_get m' ws name = Inr (Some ?late)"
    proof (cases y)
      case (Inl e)
      with late(4) bar.put_err show ?thesis by blast
    next
      case (Inr u)
      with late(4) eq bar.get_after_put [of owner ?late m u m'] ok b show ?thesis by simp
    qed
    then show ?thesis using late eq by auto
  next
    case (counts b' y)
    with assms(3) have eq: "b' = b" by simp
    have same: "b_ws (counted now b) = b_ws b" "b_name (counted now b) = b_name b"
      "b_required (counted now b) = b_required b"
      by (simp_all add: counted_def Let_def)
    show ?thesis
    proof (cases y)
      case (Inl e)
      with counts(4) bar.put_err have "m' = m" by blast
      with counts eq Inl show ?thesis by (simp add: sbind_def)
    next
      case (Inr u)
      have "barrier_get m' ws name = Inr (Some (counted now b))"
        using bar.get_after_put [of owner "counted now b" m u m'] counts(4) eq Inr ok b same by simp
      with counts eq Inr b same counted_ok [of b now] show ?thesis
        by (simp add: sbind_def)
    qed
  qed
qed

section \<open>Witnesses\<close>

lemma sample_bar_text: "bar_text sample_text"
  by (simp add: bar_text_def sample_text_readable)

definition bar_demo :: "bar_cmd list" where
  "bar_demo = [BarCreate 1 ''b'' 2 (Some 500) 1000, BarSignal 1 ''b'' 1100, BarSignal 1 ''b'' 1200]"

definition bar_demo_state :: barrier where
  "bar_demo_state = \<lparr>b_ws = 1, b_name = ''b'', b_required = 2, b_signaled = 2,
     b_timeout = Some 500, b_state = BarrierClosed, b_created = 1000, b_finished = Some 1200\<rparr>"

abbreviation bar_demo_mem :: memory where
  "bar_demo_mem \<equiv> bar_run ''_host'' bar_demo demo_open"

lemma bar_demo_get: "barrier_get bar_demo_mem 1 ''b'' = Inr (Some bar_demo_state)"
  by code_simp

theorem barrier_lifecycle_witness:
  "b_signaled bar_demo_state = b_required bar_demo_state \<and>
    barrier_get (bar_run ''_host'' [BarSignal 1 ''b'' 2000, BarQuery 1 ''b'' 9000] bar_demo_mem) 1 ''b'' =
      Inr (Some bar_demo_state)"
  using barrier_lifecycle [OF sample_bar_text refl bar_demo_get] by (simp add: bar_demo_state_def)

theorem signal_exact_witness:
  "let r = barrier_signal ''_host'' 1 ''b'' 1300 bar_demo_mem
   in snd r = bar_demo_mem \<and> (\<exists>s. fst r = Inl (AlreadyTerminal s))"
  using signal_exact [OF sample_bar_text refl bar_demo_get surjective_pairing, of 1300]
  by (simp add: bar_demo_state_def)

end
