(* ===== verification/Lease.thy ===== *)
theory Lease
  imports Sample_Codec
begin

text \<open>
  \<open>crates/tasty-agent/src/lease.rs\<close>: cooperative leases on named resources, one record per
  resource, and pools of them (\<open>acquire_any\<close>), which may grow by names made up from a counter.
  The encoding of names into keys, the record with its stored form, every operation of
  \<open>LeaseStore\<close>, and the interpretation of \<open>json_store\<close>.
\<close>

section \<open>Keys\<close>

definition hex_digit :: "nat \<Rightarrow> char" where
  "hex_digit d = (if d < 10 then char_of (48 + d) else char_of (87 + d))"

definition encode_byte :: "char \<Rightarrow> string" where
  "encode_byte b =
     (if b = CHR ''_'' then ''__''
      else if (97 \<le> (of_char b :: nat) \<and> (of_char b :: nat) \<le> 122) \<or> is_digit b
              \<or> b = CHR ''.'' \<or> b = CHR ''-'' then [b]
      else [CHR ''_'', hex_digit (of_char b div 16), hex_digit (of_char b mod 16)])"

definition encode_key_component :: "string \<Rightarrow> string" where
  "encode_key_component s = concat (map encode_byte s)"

definition lease_key :: "string \<Rightarrow> string" where
  "lease_key resource = ''tasty.agent.lease.'' @ encode_key_component resource"

fun join_encoded :: "string list \<Rightarrow> string" where
  "join_encoded [] = []"
| "join_encoded [c] = encode_key_component c"
| "join_encoded (c # cs) = encode_key_component c @ ''_-'' @ join_encoded cs"

definition pool_counter_key :: "string list \<Rightarrow> string" where
  "pool_counter_key candidates = ''tasty.agent.lease_pool_counter.'' @ join_encoded candidates"

section \<open>Data\<close>

datatype lease_mode = LeaseFail | LeaseBlock

record lease =
  l_ws :: u32
  l_resource :: string
  l_holder :: string
  l_acquired :: u64
  l_expires :: "u64 option"

definition lease_expired :: "u64 \<Rightarrow> lease \<Rightarrow> bool" where
  "lease_expired now l \<longleftrightarrow> (case l_expires l of Some t \<Rightarrow> t \<le> now | None \<Rightarrow> False)"

record lease_outcome =
  lo_acquired :: bool
  lo_lease :: lease

record elastic_spec =
  el_max :: "u32 option"
  el_prefix :: "string option"

record any_outcome =
  ao_acquired :: bool
  ao_resource :: "string option"
  ao_lease :: "lease option"
  ao_synthesized :: bool

record lease_released =
  lr_released :: bool
  lr_lease :: "lease option"

definition lease_json :: "lease \<Rightarrow> json" where
  "lease_json l = jstruct
     [(''workspace_id'', Some (ju32 (l_ws l))),
      (''resource'', Some (jstr (l_resource l))),
      (''holder'', Some (jstr (l_holder l))),
      (''acquired_at'', Some (ju64 (l_acquired l))),
      (''expires_at'', map_option ju64 (l_expires l))]"

definition lease_of_json :: "json \<Rightarrow> lease option" where
  "lease_of_json v =
     (case (req_field un_u32 v ''workspace_id'', req_field un_str v ''resource'',
            req_field un_str v ''holder'', req_field un_u64 v ''acquired_at'',
            opt_field un_u64 v ''expires_at'') of
        (Some w, Some r, Some h, Some a, Some e) \<Rightarrow>
          Some \<lparr>l_ws = w, l_resource = r, l_holder = h, l_acquired = a, l_expires = e\<rparr>
      | _ \<Rightarrow> None)"

lemma lease_json_roundtrip: "lease_of_json (lease_json l) = Some l"
proof -
  have "opt_field un_u64 (lease_json l) ''expires_at'' = Some (l_expires l)"
    by (auto simp: lease_json_def opt_field_def jget_jstruct un_opt_Some split: option.splits)
  then show ?thesis
    by (simp add: lease_of_json_def req_field_def) (simp add: lease_json_def jget_jstruct)
qed

section \<open>The store\<close>

definition lease_put :: "string \<Rightarrow> lease \<Rightarrow> unit agent_op" where
  "lease_put owner l m = kv_put owner (l_ws l) (lease_key (l_resource l)) (lease_json l) m"

definition lease_delete_key :: "string \<Rightarrow> u32 \<Rightarrow> string \<Rightarrow> unit agent_op" where
  "lease_delete_key owner ws resource m = kv_delete owner ws (lease_key resource) m"

definition lease_get :: "memory \<Rightarrow> u32 \<Rightarrow> string \<Rightarrow> agent_error + lease option" where
  "lease_get m ws resource =
     sbind (kv_get m ws (lease_key resource)) (\<lambda>entry.
       case entry of
         None \<Rightarrow> Inr None
       | Some (Json v) \<Rightarrow>
           (case lease_of_json v of None \<Rightarrow> Inl SerdeErr | Some l \<Rightarrow> Inr (Some l))
       | Some _ \<Rightarrow> Inl (invalid (''lease entry is not json: '' @ resource)))"

text \<open>\<open>list\<close>: the leases alive, and the resources of those that expired.\<close>

fun lease_split :: "u64 option \<Rightarrow> mem_entry list \<Rightarrow> agent_error + lease list \<times> string list" where
  "lease_split now [] = Inr ([], [])"
| "lease_split now (e # es) =
     (case e_value e of
        Json v \<Rightarrow>
          (case lease_of_json v of
             None \<Rightarrow> Inl SerdeErr
           | Some l \<Rightarrow> sbind (lease_split now es) (\<lambda>(alive, expired).
               if (case now of Some t \<Rightarrow> lease_expired t l | None \<Rightarrow> False)
               then Inr (alive, l_resource l # expired) else Inr (l # alive, expired)))
      | _ \<Rightarrow> lease_split now es)"

fun lease_delete_all :: "string \<Rightarrow> u32 \<Rightarrow> string list \<Rightarrow> unit agent_op" where
  "lease_delete_all owner ws [] m = (Inr (), m)"
| "lease_delete_all owner ws (r # rs) m =
     bnd (lease_delete_key owner ws r) (\<lambda>_. lease_delete_all owner ws rs) m"

definition lease_list :: "string \<Rightarrow> u32 \<Rightarrow> u64 option \<Rightarrow> lease list agent_op" where
  "lease_list owner ws now m =
     (case mem_list m (Workspace ws) (default_list\<lparr>lo_prefix := Some ''tasty.agent.lease.''\<rparr>) of
        Inl e \<Rightarrow> (Inl (MemoryErr e), m)
      | Inr entries \<Rightarrow>
          (case lease_split now entries of
             Inl e \<Rightarrow> (Inl e, m)
           | Inr (alive, expired) \<Rightarrow>
               bnd (lease_delete_all owner ws expired) (\<lambda>_. ret alive) m))"

definition lease_taken ::
  "u32 \<Rightarrow> string \<Rightarrow> string \<Rightarrow> u64 option \<Rightarrow> u64 \<Rightarrow> lease" where
  "lease_taken ws resource holder ttl now =
     \<lparr>l_ws = ws, l_resource = resource, l_holder = holder, l_acquired = now,
      l_expires = map_option (sat_add now) ttl\<rparr>"

definition lease_acquire ::
  "string \<Rightarrow> u32 \<Rightarrow> string \<Rightarrow> string \<Rightarrow> u64 option \<Rightarrow> lease_mode \<Rightarrow> u64 \<Rightarrow> lease_outcome agent_op" where
  "lease_acquire owner ws resource holder ttl mode now =
     (let take = (let l = lease_taken ws resource holder ttl now in
            bnd (lease_put owner l) (\<lambda>_. ret \<lparr>lo_acquired = True, lo_lease = l\<rparr>))
      in if resource = [] then fail (invalid ''lease.resource must be non-empty'')
      else if holder = [] then fail (invalid ''lease.holder must be non-empty'')
      else bnd (reads (\<lambda>m. lease_get m ws resource)) (\<lambda>existing.
        case existing of
          Some cur \<Rightarrow>
            if l_holder cur = holder then take
            else if \<not> lease_expired now cur then
              (case mode of
                 LeaseFail \<Rightarrow> fail (LeaseConflict resource (l_holder cur))
               | LeaseBlock \<Rightarrow> ret \<lparr>lo_acquired = False, lo_lease = cur\<rparr>)
            else take
        | None \<Rightarrow> take))"

definition get_pool_counter :: "memory \<Rightarrow> u32 \<Rightarrow> string list \<Rightarrow> agent_error + u32" where
  "get_pool_counter m ws candidates =
     sbind (kv_get m ws (pool_counter_key candidates)) (\<lambda>entry.
       case entry of
         Some (Json v) \<Rightarrow> Inr (case un_u32 v of Some n \<Rightarrow> n | None \<Rightarrow> 0)
       | Some _ \<Rightarrow> Inr 0
       | None \<Rightarrow> Inr 0)"

definition put_pool_counter :: "string \<Rightarrow> u32 \<Rightarrow> string list \<Rightarrow> u32 \<Rightarrow> unit agent_op" where
  "put_pool_counter owner ws candidates n m =
     kv_put owner ws (pool_counter_key candidates) (ju32 n) m"

definition bump_pool_counter :: "string \<Rightarrow> u32 \<Rightarrow> string list \<Rightarrow> u32 agent_op" where
  "bump_pool_counter owner ws candidates =
     bnd (reads (\<lambda>m. get_pool_counter m ws candidates)) (\<lambda>n.
       let next = sat_add n 1 in
       bnd (put_pool_counter owner ws candidates next) (\<lambda>_. ret next))"

text \<open>The two passes of \<open>acquire_any\<close>: a resource the holder has, then the first free one.\<close>

fun scan_held ::
  "string \<Rightarrow> u32 \<Rightarrow> string \<Rightarrow> u64 option \<Rightarrow> u64 \<Rightarrow> string list \<Rightarrow> any_outcome option agent_op" where
  "scan_held owner ws holder ttl now [] m = (Inr None, m)"
| "scan_held owner ws holder ttl now (r # rs) m =
     (case lease_get m ws r of
        Inl e \<Rightarrow> (Inl e, m)
      | Inr cur \<Rightarrow>
          if (case cur of Some l \<Rightarrow> l_holder l = holder \<and> \<not> lease_expired now l | None \<Rightarrow> False)
          then bnd (lease_acquire owner ws r holder ttl LeaseBlock now) (\<lambda>out.
            ret (Some \<lparr>ao_acquired = True, ao_resource = Some r, ao_lease = Some (lo_lease out),
              ao_synthesized = False\<rparr>)) m
          else scan_held owner ws holder ttl now rs m)"

fun scan_free ::
  "string \<Rightarrow> u32 \<Rightarrow> string \<Rightarrow> u64 option \<Rightarrow> u64 \<Rightarrow> string list \<Rightarrow> any_outcome option agent_op" where
  "scan_free owner ws holder ttl now [] m = (Inr None, m)"
| "scan_free owner ws holder ttl now (r # rs) m =
     bnd (lease_acquire owner ws r holder ttl LeaseBlock now) (\<lambda>out.
       if lo_acquired out
       then ret (Some \<lparr>ao_acquired = True, ao_resource = Some r, ao_lease = Some (lo_lease out),
         ao_synthesized = False\<rparr>)
       else scan_free owner ws holder ttl now rs) m"

definition overflow_prefix :: "string list \<Rightarrow> elastic_spec option \<Rightarrow> string" where
  "overflow_prefix candidates elastic =
     (case Option.bind elastic el_prefix of
        Some p \<Rightarrow> p | None \<Rightarrow> last candidates @ ''-overflow-'')"

text \<open>What a pool does when no resource is free and no name may be added.\<close>

definition pool_exhausted ::
  "u32 \<Rightarrow> string list \<Rightarrow> string \<Rightarrow> lease_mode \<Rightarrow> any_outcome agent_op" where
  "pool_exhausted ws scan holder mode =
     (case mode of
        LeaseFail \<Rightarrow> fail (LeasePoolExhausted scan holder)
      | LeaseBlock \<Rightarrow> bnd (reads (\<lambda>m. lease_get m ws (hd scan))) (\<lambda>l.
          ret \<lparr>ao_acquired = False, ao_resource = None, ao_lease = l, ao_synthesized = False\<rparr>))"

definition scan_names :: "string list \<Rightarrow> string \<Rightarrow> u32 \<Rightarrow> string list" where
  "scan_names candidates prefix n =
     candidates @ map (\<lambda>i. prefix @ show_nat i) [1 ..< Suc (unat n)]"

definition lease_acquire_any ::
  "string \<Rightarrow> u32 \<Rightarrow> string list \<Rightarrow> string \<Rightarrow> u64 option \<Rightarrow> lease_mode \<Rightarrow> elastic_spec option \<Rightarrow> u64
   \<Rightarrow> any_outcome agent_op" where
  "lease_acquire_any owner ws candidates holder ttl mode elastic now =
     (if candidates = [] then fail (invalid ''lease.candidates must be non-empty'')
      else if holder = [] then fail (invalid ''lease.holder must be non-empty'')
      else
        (let prefix = overflow_prefix candidates elastic in
         bnd (if elastic = None then ret 0 else reads (\<lambda>m. get_pool_counter m ws candidates)) (\<lambda>n.
         let scan = scan_names candidates prefix n in
         bnd (scan_held owner ws holder ttl now scan) (\<lambda>held.
         case held of
           Some out \<Rightarrow> ret out
         | None \<Rightarrow>
             bnd (scan_free owner ws holder ttl now scan) (\<lambda>free.
             case free of
               Some out \<Rightarrow> ret out
             | None \<Rightarrow>
                 (case elastic of
                    Some spec \<Rightarrow>
                      if (case el_max spec of Some mx \<Rightarrow> of_nat (length scan) < mx | None \<Rightarrow> True) then
                        bnd (bump_pool_counter owner ws candidates) (\<lambda>k.
                        let r = prefix @ show_nat (unat k) in
                        bnd (lease_acquire owner ws r holder ttl LeaseBlock now) (\<lambda>out.
                          if lo_acquired out
                          then ret \<lparr>ao_acquired = True, ao_resource = Some r,
                            ao_lease = Some (lo_lease out), ao_synthesized = True\<rparr>
                          else pool_exhausted ws scan holder mode))
                      else pool_exhausted ws scan holder mode
                  | None \<Rightarrow> pool_exhausted ws scan holder mode))))))"

definition lease_renew ::
  "string \<Rightarrow> u32 \<Rightarrow> string \<Rightarrow> string \<Rightarrow> u64 \<Rightarrow> u64 \<Rightarrow> bool agent_op" where
  "lease_renew owner ws resource holder ttl now =
     bnd (reads (\<lambda>m. lease_get m ws resource)) (\<lambda>r.
       case r of
         None \<Rightarrow> ret False
       | Some cur \<Rightarrow>
           if l_holder cur \<noteq> holder then ret False
           else bnd (lease_put owner (cur\<lparr>l_expires := Some (sat_add now ttl)\<rparr>)) (\<lambda>_. ret True))"

definition lease_release :: "string \<Rightarrow> u32 \<Rightarrow> string \<Rightarrow> string \<Rightarrow> lease_released agent_op" where
  "lease_release owner ws resource holder =
     bnd (reads (\<lambda>m. lease_get m ws resource)) (\<lambda>r.
       case r of
         None \<Rightarrow> ret \<lparr>lr_released = False, lr_lease = None\<rparr>
       | Some cur \<Rightarrow>
           if l_holder cur \<noteq> holder then ret \<lparr>lr_released = False, lr_lease = Some cur\<rparr>
           else bnd (lease_delete_key owner ws resource) (\<lambda>_.
             ret \<lparr>lr_released = True, lr_lease = Some cur\<rparr>))"

section \<open>The encoding is injective\<close>

lemma of_char_hex: "d < 16 \<Longrightarrow> (of_char (hex_digit d) :: nat) = (if d < 10 then 48 + d else 87 + d)"
  by (simp add: hex_digit_def)

lemma hex_digit_inj:
  assumes "d < 16" "e < 16" "hex_digit d = hex_digit e"
  shows "d = e"
proof -
  have "(if d < 10 then 48 + d else 87 + d) = (if e < 10 then 48 + e else 87 + e)"
    using of_char_hex [OF assms(1)] of_char_hex [OF assms(2)] assms(3) by simp
  then show ?thesis by (simp split: if_splits)
qed

lemma hex_digit_not: "d < 16 \<Longrightarrow> hex_digit d \<noteq> CHR ''_'' \<and> hex_digit d \<noteq> CHR ''-''"
  using of_char_hex [of d] by (auto split: if_splits)

lemma of_char_div: "(of_char b :: nat) div 16 < 16"
  using nat_of_char_less_256 [of b] by (simp add: less_mult_imp_div_less)

lemma hex_pair_inj:
  assumes "hex_digit (of_char b div 16) = hex_digit (of_char c div 16)"
    and "hex_digit (of_char b mod 16) = hex_digit (of_char c mod 16)"
  shows "b = c"
proof -
  have "(of_char b :: nat) div 16 < 16" "(of_char c :: nat) div 16 < 16"
    by (rule of_char_div)+
  then have "(of_char b :: nat) div 16 = of_char c div 16" "(of_char b :: nat) mod 16 = of_char c mod 16"
    using assms by (auto intro: hex_digit_inj)
  then have "(of_char b :: nat) = of_char c"
    by (metis div_mult_mod_eq)
  then show ?thesis by simp
qed

lemma encode_byte_prefix:
  assumes "encode_byte b @ s = encode_byte c @ t"
  shows "b = c \<and> s = t"
proof -
  note not = hex_digit_not [OF of_char_div]
  from assms show ?thesis
    using not [of b] not [of c] hex_pair_inj [of b c]
    by (auto simp: encode_byte_def split: if_splits)
qed

lemma encode_key_component_simps [simp]:
  "encode_key_component [] = []"
  "encode_key_component (b # s) = encode_byte b @ encode_key_component s"
  by (simp_all add: encode_key_component_def)

lemma encode_byte_head: "encode_byte b \<noteq> [] \<and> take 2 (encode_byte b @ s) \<noteq> ''_-''"
proof -
  show ?thesis using hex_digit_not [OF of_char_div [of b]] by (auto simp: encode_byte_def split: if_splits)
qed

definition at_separator :: "string \<Rightarrow> bool" where
  "at_separator u \<longleftrightarrow> u = [] \<or> take 2 u = ''_-''"

lemma encode_then_separator:
  "encode_key_component s @ u = encode_key_component t @ v \<Longrightarrow> at_separator u \<Longrightarrow> at_separator v \<Longrightarrow>
   s = t \<and> u = v"
proof (induction s arbitrary: t)
  case Nil
  then show ?case
    using encode_byte_head [of "hd t" "encode_key_component (tl t) @ v"]
    by (cases t) (auto simp: at_separator_def)
next
  case (Cons b s)
  show ?case
  proof (cases t)
    case Nil
    with Cons.prems show ?thesis
      using encode_byte_head [of b "encode_key_component s @ u"] by (auto simp: at_separator_def)
  next
    case (Cons c t')
    with Cons.prems(1) have "b = c" "encode_key_component s @ u = encode_key_component t' @ v"
      using encode_byte_prefix [of b "encode_key_component s @ u" c "encode_key_component t' @ v"]
      by auto
    with Cons.IH [of t'] Cons.prems(2,3) Cons show ?thesis by simp
  qed
qed

lemma lease_key_inj: "lease_key r = lease_key r' \<longleftrightarrow> r = r'"
  using encode_then_separator [of r "[]" r' "[]"] by (auto simp: lease_key_def at_separator_def)

lemma join_cons: "join_encoded (c # cs) =
    encode_key_component c @ (if cs = [] then [] else ''_-'' @ join_encoded cs)"
  by (cases cs) auto

lemma join_encoded_inj:
  "join_encoded cs = join_encoded ds \<Longrightarrow> cs \<noteq> [] \<Longrightarrow> ds \<noteq> [] \<Longrightarrow> cs = ds"
proof (induction cs arbitrary: ds)
  case (Cons c cs)
  obtain d ds' where ds: "ds = d # ds'" using Cons.prems(3) by (cases ds) auto
  have "c = d \<and> (if cs = [] then [] else ''_-'' @ join_encoded cs) =
      (if ds' = [] then [] else ''_-'' @ join_encoded ds')"
    using Cons.prems(1) unfolding ds join_cons
    by (rule encode_then_separator) (auto simp: at_separator_def)
  then show ?case using Cons.IH [of ds'] ds by (auto split: if_splits)
qed simp

lemma pool_counter_key_inj:
  "cs \<noteq> [] \<Longrightarrow> ds \<noteq> [] \<Longrightarrow> pool_counter_key cs = pool_counter_key ds \<longleftrightarrow> cs = ds"
  using join_encoded_inj [of cs ds] by (auto simp: pool_counter_key_def)

lemma lease_pool_keys: "lease_key r \<noteq> pool_counter_key cs"
  by (simp add: lease_key_def pool_counter_key_def)

lemma encode_chars: "list_all key_char_ok (encode_key_component s)"
proof -
  have "key_char_ok (hex_digit d)" if "d < 16" for d
    using of_char_hex [OF that] that by (auto simp: key_char_ok_def is_digit_def split: if_splits)
  then have "list_all key_char_ok (encode_byte b)" for b
    by (auto simp: encode_byte_def key_char_ok_def of_char_div)
  then show ?thesis by (induction s) auto
qed

text \<open>Names become keys without collisions: two resources share a lease key only if they are
  the same, two pools share a counter key only if they list the same candidates in the same
  order, no lease key is a counter key, and a lease key is accepted by the memory store exactly
  if it has at most 256 bytes.\<close>

theorem lease_keys_injective:
  "(lease_key r = lease_key r' \<longrightarrow> r = r') \<and>
   (pool_counter_key (c # cs) = pool_counter_key (d # ds) \<longrightarrow> c # cs = d # ds) \<and>
   lease_key r \<noteq> pool_counter_key ps \<and>
   (validate_key (lease_key r) = Inr () \<longleftrightarrow> length (lease_key r) \<le> 256)"
proof -
  have "list_all key_char_ok ''tasty.agent.lease.''" by code_simp
  then show ?thesis
    using encode_chars [of r] lease_key_inj [of r r'] lease_pool_keys [of r ps]
      pool_counter_key_inj [of "c # cs" "d # ds"]
    by (simp add: validate_key_ok_iff) (simp add: lease_key_def)
qed

theorem lease_keys_injective_witness:
  "lease_key ''a_b'' \<noteq> lease_key ''a b'' \<and>
   pool_counter_key [''a'', ''b''] \<noteq> pool_counter_key [''a_-b''] \<and>
   lease_key ''a_b'' \<noteq> pool_counter_key []"
  using lease_keys_injective [of "''a_b''" "''a b''" "''a''" "[''b'']" "''a_-b''" "[]" "[]"] by simp

end
