(* ===== verification/Lease_Laws.thy ===== *)
theory Lease_Laws
  imports Lease
begin

text \<open>
  What the leases promise: an unexpired lease is its holder's alone, whatever sequence of
  operations the other holders try; the exact outcome of an acquire; and the exact outcome of a
  pool acquire, fixed or elastic.
\<close>

section \<open>The store of leases\<close>

definition lease_ok :: "lease \<Rightarrow> bool" where
  "lease_ok l \<longleftrightarrow> l_holder l \<noteq> [] \<and> l_resource l \<noteq> []"

interpretation lea: json_store
  "\<lambda>m (ws, r). lease_get m ws r" "lease_put owner" "\<lambda>(ws, r). lease_delete_key owner ws r" owner
  "\<lambda>r. Inr (lease_key r)" lease_json lease_of_json l_ws l_resource "\<lambda>l. l" lease_ok
  "\<lambda>r. invalid (''lease entry is not json: '' @ r)" for owner
proof (unfold_locales, goal_cases)
  case (1 m ws r)
  show ?case unfolding prod.case lease_get_def by (simp only: sbind_def sum.case)
next
  case (2 l m)
  show ?case by (simp add: lease_put_def)
next
  case (3 ws r m)
  show ?case by (simp add: lease_delete_key_def)
next
  case (4 n k n')
  then show ?case using lease_key_inj [of n n'] by simp
qed (simp_all add: lease_json_roundtrip)

text \<open>Whatever the table holds under the prefix of the leases is a lease key.\<close>

definition under_lease :: "string \<Rightarrow> bool" where
  "under_lease k \<longleftrightarrow> (\<exists>n. k = ''tasty.agent.lease.'' @ n)"

definition lease_keys_only :: "memory \<Rightarrow> bool" where
  "lease_keys_only m \<longleftrightarrow> (\<forall>k \<in> r_key ` set (regular m). under_lease k \<longrightarrow> (\<exists>r. k = lease_key r))"

lemma counter_not_under: "\<not> under_lease (pool_counter_key cs)"
  by (simp add: under_lease_def pool_counter_key_def)

definition lease_store_ok :: "memory \<Rightarrow> bool" where
  "lease_store_ok m \<longleftrightarrow> lea.store_ok m \<and> lease_keys_only m"

lemma lease_keys_only_put:
  assumes "kv_put owner ws k v m = (x, m')" "(\<exists>r. k = lease_key r) \<or> (\<exists>cs. k = pool_counter_key cs)"
    and "lease_keys_only m"
  shows "lease_keys_only m'"
  unfolding lease_keys_only_def
proof (intro ballI impI)
  fix k' assume "k' \<in> r_key ` set (regular m')" and under: "under_lease k'"
  then have "k' = k \<or> k' \<in> r_key ` set (regular m)"
    using kv_put_keys [OF assms(1)] by blast
  then show "\<exists>r. k' = lease_key r"
  proof
    assume "k' = k"
    with assms(2) under counter_not_under show ?thesis by metis
  next
    assume "k' \<in> r_key ` set (regular m)"
    with assms(3) under show ?thesis unfolding lease_keys_only_def by metis
  qed
qed

lemma lease_keys_only_del:
  "kv_delete owner ws k m = (x, m') \<Longrightarrow> lease_keys_only m \<Longrightarrow> lease_keys_only m'"
  using kv_delete_keys [of owner ws k m x m'] unfolding lease_keys_only_def by blast

lemma lease_stored:
  "lease_store_ok m \<Longrightarrow> lease_get m ws r = Inr (Some l) \<Longrightarrow> l_ws l = ws \<and> l_resource l = r \<and> lease_ok l"
  using lea.found [of m "(ws, r)" l] by (simp add: lease_store_ok_def)

text \<open>An operation that leaves the leases with \<open>P\<close> as they are.\<close>

definition lease_keeps :: "(lease \<Rightarrow> bool) \<Rightarrow> memory \<Rightarrow> memory \<Rightarrow> bool" where
  "lease_keeps P m m' \<longleftrightarrow> lease_store_ok m' \<and>
     (\<forall>ws r l. lease_get m ws r = Inr (Some l) \<longrightarrow> P l \<longrightarrow> lease_get m' ws r = Inr (Some l))"

lemma lease_keeps_refl: "lease_store_ok m \<Longrightarrow> lease_keeps P m m"
  by (simp add: lease_keeps_def)

lemma lease_keeps_trans: "lease_keeps P m m' \<Longrightarrow> lease_keeps P m' m'' \<Longrightarrow> lease_keeps P m m''"
  by (auto simp: lease_keeps_def)

lemma lease_keeps_ok: "lease_keeps P m m' \<Longrightarrow> lease_store_ok m'"
  by (simp add: lease_keeps_def)

lemma lease_keeps_put:
  assumes "lease_put owner l m = (x, m')" "lease_store_ok m" "lease_ok l"
    and "\<And>l0. lease_get m (l_ws l) (l_resource l) = Inr (Some l0) \<Longrightarrow> \<not> P l0"
  shows "lease_keeps P m m'"
proof -
  have "lease_get m' ws r = lease_get m ws r" if "(ws, r) \<noteq> (l_ws l, l_resource l)" for ws r
    using lea.put_other [OF assms(1), of "(ws, r)"] that by simp
  moreover have "lease_store_ok m'"
    using lea.store_ok_put [OF assms(1) _ assms(3)] assms(1,2)
      lease_keys_only_put [of owner "l_ws l" "lease_key (l_resource l)" "lease_json l" m x m']
    by (auto simp: lease_store_ok_def lease_put_def)
  ultimately show ?thesis
    using assms(4) by (auto simp: lease_keeps_def) metis
qed

lemma lease_keeps_del:
  assumes "lease_delete_key owner ws r m = (x, m')" "lease_store_ok m"
    and "\<And>l0. lease_get m ws r = Inr (Some l0) \<Longrightarrow> \<not> P l0"
  shows "lease_keeps P m m'"
proof -
  have "lease_get m' ws' r' = lease_get m ws' r'" if "(ws', r') \<noteq> (ws, r)" for ws' r'
    using lea.del_other [of owner "(ws, r)" m x m' "(ws', r')"] assms(1) that by simp
  moreover have "lease_store_ok m'"
    using lea.store_ok_del [of owner "(ws, r)" m x m'] assms(1,2) lease_keys_only_del
    by (auto simp: lease_store_ok_def lease_delete_key_def)
  ultimately show ?thesis
    using assms(3) by (auto simp: lease_keeps_def) metis
qed

section \<open>Acquire\<close>

lemma lease_acquire_cases:
  assumes "lease_acquire owner ws r holder ttl mode now m = (x, m')"
  obtains
    (invalid) e where "x = Inl e" "m' = m" "r = [] \<or> holder = []"
  | (failed) e where "x = Inl e" "m' = m" "r \<noteq> []" "holder \<noteq> []" "lease_get m ws r = Inl e"
  | (refused) cur where "r \<noteq> []" "holder \<noteq> []" "lease_get m ws r = Inr (Some cur)"
      "l_holder cur \<noteq> holder" "\<not> lease_expired now cur" "m' = m"
      "x = (case mode of LeaseFail \<Rightarrow> Inl (LeaseConflict r (l_holder cur))
        | LeaseBlock \<Rightarrow> Inr \<lparr>lo_acquired = False, lo_lease = cur\<rparr>)"
  | (taken) y where "r \<noteq> []" "holder \<noteq> []"
      "\<And>cur. lease_get m ws r = Inr (Some cur) \<Longrightarrow> l_holder cur = holder \<or> lease_expired now cur"
      "lease_put owner (lease_taken ws r holder ttl now) m = (y, m')"
      "x = sbind y (\<lambda>_. Inr \<lparr>lo_acquired = True, lo_lease = lease_taken ws r holder ttl now\<rparr>)"
proof (cases "r = [] \<or> holder = []")
  case True
  with assms show thesis
    by (cases "r = []")
      (auto simp: lease_acquire_def Let_def fail_def simp del: not_None_eq intro: invalid)
next
  case ne: False
  show thesis
  proof (cases "lease_get m ws r")
    case (Inl e)
    with assms ne show thesis
      by (intro failed) (auto simp: lease_acquire_def Let_def bnd_def reads_def)
  next
    case (Inr existing)
    show thesis
    proof (cases "\<exists>cur. existing = Some cur \<and> l_holder cur \<noteq> holder \<and> \<not> lease_expired now cur")
      case True
      then obtain cur where "existing = Some cur" "l_holder cur \<noteq> holder" "\<not> lease_expired now cur"
        by blast
      with assms ne Inr show thesis
        by (intro refused [of cur])
          (auto simp: lease_acquire_def Let_def bnd_def reads_def fail_def ret_def split: lease_mode.splits)
    next
      case False
      obtain y m1 where put: "lease_put owner (lease_taken ws r holder ttl now) m = (y, m1)"
        by fastforce
      have "x = sbind y (\<lambda>_. Inr \<lparr>lo_acquired = True, lo_lease = lease_taken ws r holder ttl now\<rparr>)
          \<and> m' = m1"
        using assms ne Inr False put
        by (cases existing; cases y)
          (auto simp: lease_acquire_def Let_def bnd_def reads_def ret_def sbind_def split: if_splits)
      then show thesis using taken [of y] ne Inr False put by auto
    qed
  qed
qed

lemma lease_taken_fields [simp]:
  "l_ws (lease_taken ws r h ttl now) = ws" "l_resource (lease_taken ws r h ttl now) = r"
  "l_holder (lease_taken ws r h ttl now) = h" "l_acquired (lease_taken ws r h ttl now) = now"
  "l_expires (lease_taken ws r h ttl now) = map_option (sat_add now) ttl"
  "lease_ok (lease_taken ws r h ttl now) \<longleftrightarrow> h \<noteq> [] \<and> r \<noteq> []"
  by (simp_all add: lease_taken_def lease_ok_def)

text \<open>The leases that bind the holder \<open>h\<close> at time \<open>now\<close>: unexpired and another's.\<close>

definition binding_on :: "string \<Rightarrow> u64 \<Rightarrow> lease \<Rightarrow> bool" where
  "binding_on h now l \<longleftrightarrow> l_holder l \<noteq> h \<and> \<not> lease_expired now l"

lemma acquire_keeps:
  assumes "lease_acquire owner ws r holder ttl mode now m = (x, m')" "lease_store_ok m"
  shows "lease_keeps (binding_on holder now) m m'"
  using assms(1)
proof (cases rule: lease_acquire_cases)
  case (taken y)
  then show ?thesis
    by (intro lease_keeps_put [OF taken(4) assms(2)]) (auto simp: binding_on_def)
qed (simp_all add: assms(2) lease_keeps_refl)

lemma acquire_stored:
  assumes "lease_acquire owner ws r holder ttl mode now m = (Inr out, m')" "lease_store_ok m" "lo_acquired out"
  shows "lease_get m' ws r = Inr (Some (lease_taken ws r holder ttl now)) \<and>
    lo_lease out = lease_taken ws r holder ttl now"
  using assms(1)
proof (cases rule: lease_acquire_cases)
  case (refused cur)
  with assms(3) show ?thesis by (auto split: lease_mode.splits)
next
  case (taken y)
  then obtain u where u: "y = Inr u" "lo_lease out = lease_taken ws r holder ttl now"
    by (auto simp: sbind_def split: sum.splits)
  show ?thesis
    using lea.get_after_put [of owner "lease_taken ws r holder ttl now" m u m'] taken(4) u assms(2)
    by (simp add: lease_store_ok_def)
qed simp_all

lemma acquire_blocked:
  assumes "lease_acquire owner ws r holder ttl LeaseBlock now m = (Inr out, m')" "\<not> lo_acquired out"
  shows "m' = m \<and> lease_get m ws r = Inr (Some (lo_lease out)) \<and> binding_on holder now (lo_lease out)"
  using assms(1)
proof (cases rule: lease_acquire_cases)
  case (refused cur)
  then show ?thesis by (auto simp: binding_on_def)
next
  case (taken y)
  with assms(2) show ?thesis by (auto simp: sbind_def split: sum.splits)
qed simp_all

section \<open>The other operations\<close>

lemma renew_holder_keeps:
  assumes "lease_renew owner ws r holder ttl now m = (x, m')" "lease_store_ok m"
  shows "lease_keeps (\<lambda>l. l_holder l \<noteq> holder) m m'"
proof -
  have put: "lease_keeps (\<lambda>l. l_holder l \<noteq> holder) m m1"
    if "lease_put owner (cur\<lparr>l_expires := e\<rparr>) m = (y, m1)" "lease_get m ws r = Inr (Some cur)"
      "l_holder cur = holder" for cur e y m1
    using that lease_stored [OF assms(2) that(2)]
    by (intro lease_keeps_put [OF that(1) assms(2)]) (auto simp: binding_on_def lease_ok_def)
  show ?thesis
    using assms put
    by (auto simp: lease_renew_def op_simps intro: lease_keeps_refl
        split: sum.splits option.splits prod.splits if_splits)
qed

lemma release_holder_keeps:
  assumes "lease_release owner ws r holder m = (x, m')" "lease_store_ok m"
  shows "lease_keeps (\<lambda>l. l_holder l \<noteq> holder) m m'"
proof -
  have del: "lease_keeps (\<lambda>l. l_holder l \<noteq> holder) m m1"
    if "lease_delete_key owner ws r m = (y, m1)" "lease_get m ws r = Inr (Some cur)"
      "l_holder cur = holder" for cur y m1
    using that by (intro lease_keeps_del [OF that(1) assms(2)]) (auto simp: binding_on_def)
  show ?thesis
    using assms del
    by (auto simp: lease_release_def op_simps intro: lease_keeps_refl
        split: sum.splits option.splits prod.splits if_splits)
qed

lemma delete_all_keeps:
  "lease_delete_all owner ws rs m = (x, m') \<Longrightarrow> lease_store_ok m \<Longrightarrow>
   \<forall>r \<in> set rs. \<forall>l. lease_get m ws r = Inr (Some l) \<longrightarrow> \<not> P l \<Longrightarrow> lease_keeps P m m'"
proof (induction rs arbitrary: m)
  case (Cons r rs)
  obtain y m1 where del: "lease_delete_key owner ws r m = (y, m1)" by fastforce
  have k1: "lease_keeps P m m1"
    using Cons.prems(3) by (intro lease_keeps_del [OF del Cons.prems(2)]) simp
  show ?case
  proof (cases y)
    case (Inl e)
    with Cons.prems(1) del k1 show ?thesis by (auto simp: bnd_def)
  next
    case (Inr u)
    have same: "lease_get m1 ws r' = (if r' = r then Inr None else lease_get m ws r')" for r'
      using lea.del_other [of owner "(ws, r)" m y m1 "(ws, r')"] lea.del_get [of owner "(ws, r)" m u m1]
        del Inr by auto
    have "lease_keeps P m1 m'"
      using Cons.IH [of m1] Cons.prems(1,3) del Inr lease_keeps_ok [OF k1]
      by (auto simp: bnd_def same)
    with k1 show ?thesis by (rule lease_keeps_trans)
  qed
qed (simp add: lease_keeps_refl)

lemma split_expired:
  "lease_split now es = Inr (alive, expired) \<Longrightarrow> r \<in> set expired \<Longrightarrow>
   \<exists>e \<in> set es. \<exists>v l. e_value e = Json v \<and> lease_of_json v = Some l \<and> l_resource l = r \<and>
     (\<exists>t. now = Some t \<and> lease_expired t l)"
  by (induction es arbitrary: alive expired)
    (fastforce simp: sbind_def split: mem_value.splits option.splits sum.splits prod.splits if_splits)+

lemma lease_prefix_chars: "list_all key_char_ok ''tasty.agent.lease.''"
  by code_simp

text \<open>An entry under the prefix of the leases holds the lease its record names.\<close>

lemma listed_lease:
  assumes "lease_store_ok m"
    and list: "mem_list m (Workspace ws) (default_list\<lparr>lo_prefix := Some ''tasty.agent.lease.''\<rparr>) = Inr es"
    and "e \<in> set es" "e_value e = Json v" "lease_of_json v = Some l"
  shows "lease_get m ws (l_resource l) = Inr (Some l)"
proof -
  have wf: "mem_wf m" "rows_plain m"
    using assms(1) lea.store_ok_plain [of m] by (simp_all add: lease_store_ok_def)
  note e = listed_entry [OF wf lease_prefix_chars list assms(3)]
  then obtain r where r: "e_key e = lease_key r"
    using assms(1) unfolding lease_store_ok_def lease_keys_only_def under_lease_def by blast
  have "lease_get m ws r = Inr (Some l)"
    using lea.listed_get [of m ws "lease_key r" v r l] e assms(4,5) by (simp add: r)
  with lease_stored [OF assms(1) this] show ?thesis by auto
qed

lemma list_keeps:
  assumes "lease_list owner ws now m = (x, m')" "lease_store_ok m"
    and "\<And>l t. now = Some t \<Longrightarrow> lease_expired t l \<Longrightarrow> \<not> P l"
  shows "lease_keeps P m m'"
proof (cases "mem_list m (Workspace ws) (default_list\<lparr>lo_prefix := Some ''tasty.agent.lease.''\<rparr>)")
  case (Inl e)
  with assms show ?thesis by (simp add: lease_list_def lease_keeps_refl)
next
  case list: (Inr es)
  show ?thesis
  proof (cases "lease_split now es")
    case (Inl e)
    with assms list show ?thesis by (simp add: lease_list_def lease_keeps_refl)
  next
    case (Inr parts)
    obtain alive expired where parts: "parts = (alive, expired)" by (cases parts)
    have "\<not> P l0" if "r \<in> set expired" "lease_get m ws r = Inr (Some l0)" for r l0
    proof -
      note r = that
      obtain e v l t where "e \<in> set es" "e_value e = Json v" "lease_of_json v = Some l"
        "l_resource l = r" "now = Some t" "lease_expired t l"
        using split_expired [OF Inr [unfolded parts] r(1)] by blast
      with listed_lease [OF assms(2) list this(1-3)] r(2) assms(3) show ?thesis by auto
    qed
    moreover obtain y m1 where del: "lease_delete_all owner ws expired m = (y, m1)" by fastforce
    moreover have "m1 = m'"
      using assms(1) list Inr parts del
      by (cases y) (auto simp: lease_list_def bnd_def ret_def)
    ultimately show ?thesis using delete_all_keeps [OF del assms(2)] by blast
  qed
qed

section \<open>Pools\<close>

lemma put_counter_same:
  assumes "put_pool_counter owner ws cs n m = (x, m')" "lease_store_ok m"
  shows "lease_store_ok m' \<and> (\<forall>ws r. lease_get m' ws r = lease_get m ws r)"
proof -
  have kv: "kv_put owner ws (pool_counter_key cs) (ju32 n) m = (x, m')"
    using assms(1) by (simp add: put_pool_counter_def)
  have "lea.store_ok m' \<and> (\<forall>k. (case k of (ws, r) \<Rightarrow> lease_get m' ws r) = (case k of (ws, r) \<Rightarrow> lease_get m ws r))"
    by (rule lea.foreign_put [OF kv]) (use assms(2) lease_pool_keys in \<open>auto simp: lease_store_ok_def\<close>)
  then show ?thesis
    using lease_keys_only_put [OF kv] assms(2) by (auto simp: lease_store_ok_def)
qed

definition has_lease :: "memory \<Rightarrow> u32 \<Rightarrow> string \<Rightarrow> u64 \<Rightarrow> string \<Rightarrow> bool" where
  "has_lease m ws holder now r \<longleftrightarrow>
     (\<exists>l. lease_get m ws r = Inr (Some l) \<and> l_holder l = holder \<and> \<not> lease_expired now l)"

definition blocked_on :: "memory \<Rightarrow> u32 \<Rightarrow> string \<Rightarrow> u64 \<Rightarrow> string \<Rightarrow> bool" where
  "blocked_on m ws holder now r \<longleftrightarrow>
     (\<exists>l. lease_get m ws r = Inr (Some l) \<and> binding_on holder now l)"

definition any_taken ::
  "u32 \<Rightarrow> string \<Rightarrow> string \<Rightarrow> u64 option \<Rightarrow> u64 \<Rightarrow> bool \<Rightarrow> any_outcome" where
  "any_taken ws r holder ttl now synth =
     \<lparr>ao_acquired = True, ao_resource = Some r, ao_lease = Some (lease_taken ws r holder ttl now),
      ao_synthesized = synth\<rparr>"

lemma acquire_own:
  assumes "lease_acquire owner ws r holder ttl LeaseBlock now m = (Inr out, m')"
    and "has_lease m ws holder now r"
  shows "lo_acquired out"
proof (rule ccontr)
  assume "\<not> lo_acquired out"
  from acquire_blocked [OF assms(1) this] assms(2) show False
    by (auto simp: has_lease_def binding_on_def)
qed

lemma scan_held_result:
  "scan_held owner ws holder ttl now rs m = (Inr res, m') \<Longrightarrow> lease_store_ok m \<Longrightarrow>
   (case res of
      None \<Rightarrow> m' = m \<and> (\<forall>r \<in> set rs. \<not> has_lease m ws holder now r)
    | Some out \<Rightarrow> \<exists>r. find (has_lease m ws holder now) rs = Some r \<and> out = any_taken ws r holder ttl now False \<and>
        lease_get m' ws r = Inr (Some (lease_taken ws r holder ttl now)))"
proof (induction rs)
  case (Cons r rs)
  show ?case
  proof (cases "has_lease m ws holder now r")
    case True
    then obtain l where l: "lease_get m ws r = Inr (Some l)" "l_holder l = holder" "\<not> lease_expired now l"
      by (auto simp: has_lease_def)
    with Cons.prems(1) obtain o1 where o1:
      "lease_acquire owner ws r holder ttl LeaseBlock now m = (Inr o1, m')"
      "res = Some \<lparr>ao_acquired = True, ao_resource = Some r, ao_lease = Some (lo_lease o1),
         ao_synthesized = False\<rparr>"
      by (auto simp: bnd_def ret_def split: prod.splits sum.splits)
    from acquire_stored [OF o1(1) Cons.prems(2) acquire_own [OF o1(1) True]] o1(2) True
    show ?thesis by (simp add: any_taken_def)
  next
    case False
    then have "scan_held owner ws holder ttl now rs m = (Inr res, m')"
      using Cons.prems(1) by (auto simp: has_lease_def split: sum.splits option.splits if_splits)
    from Cons.IH [OF this Cons.prems(2)] False show ?thesis
      by (auto split: option.splits)
  qed
qed simp

lemma scan_free_result:
  "scan_free owner ws holder ttl now rs m = (Inr res, m') \<Longrightarrow> lease_store_ok m \<Longrightarrow>
   (case res of
      None \<Rightarrow> m' = m \<and> (\<forall>r \<in> set rs. blocked_on m ws holder now r)
    | Some out \<Rightarrow> \<exists>r \<in> set rs. out = any_taken ws r holder ttl now False \<and>
        \<not> blocked_on m ws holder now r \<and>
        lease_get m' ws r = Inr (Some (lease_taken ws r holder ttl now)))"
proof (induction rs)
  case (Cons r rs)
  obtain o1 m1 where o1: "lease_acquire owner ws r holder ttl LeaseBlock now m = (Inr o1, m1)"
    using Cons.prems(1) by (auto simp: bnd_def split: prod.splits sum.splits)
  show ?case
  proof (cases "lo_acquired o1")
    case True
    then have "m' = m1" "res = Some \<lparr>ao_acquired = True, ao_resource = Some r,
        ao_lease = Some (lo_lease o1), ao_synthesized = False\<rparr>"
      using Cons.prems(1) o1 by (auto simp: bnd_def ret_def)
    moreover have "\<not> blocked_on m ws holder now r"
      using o1
    proof (cases rule: lease_acquire_cases)
      case (refused cur)
      with True show ?thesis by simp
    next
      case (taken y)
      then show ?thesis by (auto simp: blocked_on_def binding_on_def)
    qed simp_all
    ultimately show ?thesis using acquire_stored [OF o1 Cons.prems(2) True] by (simp add: any_taken_def)
  next
    case False
    note b = acquire_blocked [OF o1 False]
    then have "scan_free owner ws holder ttl now rs m = (Inr res, m')"
      using Cons.prems(1) o1 False by (simp add: bnd_def)
    from Cons.IH [OF this Cons.prems(2)] b show ?thesis
      by (auto simp: blocked_on_def split: option.splits)
  qed
qed simp

lemma scan_held_keeps:
  "scan_held owner ws holder ttl now rs m = (x, m') \<Longrightarrow> lease_store_ok m \<Longrightarrow>
   lease_keeps (binding_on holder now) m m'"
  by (induction rs)
    (auto simp: bnd_def ret_def lease_keeps_refl
      split: sum.splits option.splits if_splits prod.splits dest: acquire_keeps)

lemma scan_free_keeps:
  "scan_free owner ws holder ttl now rs m = (x, m') \<Longrightarrow> lease_store_ok m \<Longrightarrow>
   lease_keeps (binding_on holder now) m m'"
proof (induction rs arbitrary: m)
  case (Cons r rs)
  obtain y m1 where a: "lease_acquire owner ws r holder ttl LeaseBlock now m = (y, m1)" by fastforce
  note k = acquire_keeps [OF a Cons.prems(2)]
  have "m' = m1 \<or> scan_free owner ws holder ttl now rs m1 = (x, m')"
    using Cons.prems(1) a by (cases y) (auto simp: bnd_def ret_def split: if_splits)
  then show ?case
    using k Cons.IH [OF _ lease_keeps_ok [OF k]] lease_keeps_trans by blast
qed (simp add: lease_keeps_refl)

lemma pool_exhausted_same: "pool_exhausted ws scan holder mode m = (x, m') \<Longrightarrow> m' = m \<and>
    (\<forall>out. x = Inr out \<longrightarrow> \<not> ao_acquired out \<and> \<not> ao_synthesized out)"
  by (auto simp: pool_exhausted_def op_simps split: lease_mode.splits sum.splits)

definition counter_for :: "memory \<Rightarrow> u32 \<Rightarrow> string list \<Rightarrow> elastic_spec option \<Rightarrow> agent_error + u32" where
  "counter_for m ws cs elastic = (if elastic = None then Inr 0 else get_pool_counter m ws cs)"

lemma counter_step: "(if elastic = None then ret 0 else reads (\<lambda>m. get_pool_counter m ws cs)) m =
    (counter_for m ws cs elastic, m)"
  by (simp add: counter_for_def op_simps)

text \<open>The last step of a pool acquire, when both passes found nothing.\<close>

definition grow_pool ::
  "string \<Rightarrow> u32 \<Rightarrow> string list \<Rightarrow> string list \<Rightarrow> string \<Rightarrow> u64 option \<Rightarrow> lease_mode \<Rightarrow>
   elastic_spec option \<Rightarrow> u64 \<Rightarrow> any_outcome agent_op" where
  "grow_pool owner ws cs rs holder ttl mode elastic now =
     (case elastic of
        Some spec \<Rightarrow>
          if (case el_max spec of Some mx \<Rightarrow> of_nat (length rs) < mx | None \<Rightarrow> True) then
            bnd (bump_pool_counter owner ws cs) (\<lambda>k.
            let r = overflow_prefix cs elastic @ show_nat (unat k) in
            bnd (lease_acquire owner ws r holder ttl LeaseBlock now) (\<lambda>out.
              if lo_acquired out
              then ret \<lparr>ao_acquired = True, ao_resource = Some r,
                ao_lease = Some (lo_lease out), ao_synthesized = True\<rparr>
              else pool_exhausted ws rs holder mode))
          else pool_exhausted ws rs holder mode
      | None \<Rightarrow> pool_exhausted ws rs holder mode)"

lemma acquire_any_unfold:
  assumes "cs \<noteq> []" "holder \<noteq> []" "counter_for m ws cs elastic = Inr n"
    and "rs = scan_names cs (overflow_prefix cs elastic) n"
  shows "lease_acquire_any owner ws cs holder ttl mode elastic now m =
    bnd (scan_held owner ws holder ttl now rs) (\<lambda>held.
      case held of
        Some out \<Rightarrow> ret out
      | None \<Rightarrow> bnd (scan_free owner ws holder ttl now rs) (\<lambda>free.
          case free of
            Some out \<Rightarrow> ret out
          | None \<Rightarrow> grow_pool owner ws cs rs holder ttl mode elastic now)) m"
proof -
  have c: "(if elastic = None then ret 0 else reads (\<lambda>m. get_pool_counter m ws cs)) m = (Inr n, m)"
    using counter_step assms(3) by metis
  show ?thesis
    by (simp only: lease_acquire_any_def Let_def assms(1,2) if_False bnd_run(2)
        [of "if elastic = None then ret 0 else reads (\<lambda>m. get_pool_counter m ws cs)" m, OF c] assms(4)
        grow_pool_def)
qed

text \<open>The ways a pool acquire goes.\<close>

lemma acquire_any_cases:
  assumes "lease_acquire_any owner ws cs holder ttl mode elastic now m = (x, m')"
  obtains
    (invalid) e where "x = Inl e" "m' = m"
  | (scanned) n rs y1 m1 where "counter_for m ws cs elastic = Inr n"
      "rs = scan_names cs (overflow_prefix cs elastic) n"
      "scan_held owner ws holder ttl now rs m = (y1, m1)"
      "(\<exists>e. y1 = Inl e \<and> x = Inl e \<and> m' = m1) \<or> (\<exists>out. y1 = Inr (Some out) \<and> x = Inr out \<and> m' = m1)"
  | (searched) n rs m1 y2 m2 where "counter_for m ws cs elastic = Inr n"
      "rs = scan_names cs (overflow_prefix cs elastic) n"
      "scan_held owner ws holder ttl now rs m = (Inr None, m1)"
      "scan_free owner ws holder ttl now rs m1 = (y2, m2)"
      "(\<exists>e. y2 = Inl e \<and> x = Inl e \<and> m' = m2) \<or> (\<exists>out. y2 = Inr (Some out) \<and> x = Inr out \<and> m' = m2)"
  | (grown) n rs m1 m2 where "counter_for m ws cs elastic = Inr n"
      "rs = scan_names cs (overflow_prefix cs elastic) n"
      "scan_held owner ws holder ttl now rs m = (Inr None, m1)"
      "scan_free owner ws holder ttl now rs m1 = (Inr None, m2)"
      "grow_pool owner ws cs rs holder ttl mode elastic now m2 = (x, m')"
proof (cases "cs = [] \<or> holder = []")
  case True
  with assms show thesis
    by (cases "cs = []") (auto simp: lease_acquire_any_def fail_def intro: invalid)
next
  case ne: False
  show thesis
  proof (cases "counter_for m ws cs elastic")
    case (Inl e)
    with assms ne show thesis
      by (intro invalid [of e])
        (simp_all add: lease_acquire_any_def Let_def bnd_def [of "if _ then _ else _"] counter_step)
  next
    case n: (Inr n)
    define rs where "rs = scan_names cs (overflow_prefix cs elastic) n"
    note run = assms
    obtain y1 m1 where held: "scan_held owner ws holder ttl now rs m = (y1, m1)" by fastforce
    show thesis
    proof (cases "y1 = Inr None")
      case False
      then have "(\<exists>e. y1 = Inl e \<and> x = Inl e \<and> m' = m1) \<or> (\<exists>out. y1 = Inr (Some out) \<and> x = Inr out \<and> m' = m1)"
        using run held ne by (cases y1) (auto simp: acquire_any_unfold [OF _ _ n rs_def] bnd_run ret_def)
      then show thesis by (rule scanned [OF n rs_def held])
    next
      case True
      obtain y2 m2 where free: "scan_free owner ws holder ttl now rs m1 = (y2, m2)" by fastforce
      note held' = held [unfolded True]
      show thesis
      proof (cases "y2 = Inr None")
        case False
        then have "(\<exists>e. y2 = Inl e \<and> x = Inl e \<and> m' = m2) \<or> (\<exists>out. y2 = Inr (Some out) \<and> x = Inr out \<and> m' = m2)"
          using run held' free ne
          by (cases y2) (auto simp: acquire_any_unfold [OF _ _ n rs_def] bnd_run ret_def)
        then show thesis by (rule searched [OF n rs_def held' free])
      next
        case none: True
        have "grow_pool owner ws cs rs holder ttl mode elastic now m2 = (x, m')"
          using run held' free none ne by (simp add: acquire_any_unfold [OF _ _ n rs_def] bnd_run)
        then show thesis by (rule grown [OF n rs_def held' free [unfolded none]])
      qed
    qed
  qed
qed

lemma grow_pool_cases:
  assumes "grow_pool owner ws cs rs holder ttl mode elastic now m = (x, m')"
  obtains
    (exhausted) "pool_exhausted ws rs holder mode m = (x, m')"
      "\<nexists>spec. elastic = Some spec \<and>
        (case el_max spec of Some mx \<Rightarrow> of_nat (length rs) < mx | None \<Rightarrow> True)"
  | (bump) spec e where "elastic = Some spec" "x = Inl e" "m' = m"
  | (bumped) spec n y m1 where "elastic = Some spec"
      "case el_max spec of Some mx \<Rightarrow> of_nat (length rs) < mx | None \<Rightarrow> True"
      "get_pool_counter m ws cs = Inr n" "put_pool_counter owner ws cs (sat_add n 1) m = (y, m1)"
      "(\<exists>e. y = Inl e \<and> x = Inl e \<and> m' = m1) \<or>
       (\<exists>u. y = Inr u \<and> (let r = overflow_prefix cs elastic @ show_nat (unat (sat_add n 1)) in
         bnd (lease_acquire owner ws r holder ttl LeaseBlock now) (\<lambda>out.
           if lo_acquired out
           then ret \<lparr>ao_acquired = True, ao_resource = Some r, ao_lease = Some (lo_lease out),
             ao_synthesized = True\<rparr>
           else pool_exhausted ws rs holder mode)) m1 = (x, m'))"
proof (cases "\<exists>spec. elastic = Some spec \<and>
    (case el_max spec of Some mx \<Rightarrow> of_nat (length rs) < mx | None \<Rightarrow> True)")
  case False
  with assms exhausted show thesis
    by (auto simp: grow_pool_def split: option.splits if_splits)
next
  case True
  then obtain spec where spec: "elastic = Some spec"
    "case el_max spec of Some mx \<Rightarrow> of_nat (length rs) < mx | None \<Rightarrow> True" by blast
  show thesis
  proof (cases "get_pool_counter m ws cs")
    case (Inl e)
    with assms spec show thesis
      by (intro bump [OF spec(1), of e])
        (simp_all add: grow_pool_def bump_pool_counter_def bnd_def reads_def)
  next
    case (Inr n)
    obtain y m1 where put: "put_pool_counter owner ws cs (sat_add n 1) m = (y, m1)" by fastforce
    show thesis
      by (rule bumped [OF spec Inr put])
        (use assms spec Inr put in \<open>cases y; simp add: grow_pool_def bump_pool_counter_def bnd_def
          reads_def ret_def Let_def\<close>)
  qed
qed

lemma scan_held_none: "scan_held owner ws holder ttl now rs m = (Inr None, m') \<Longrightarrow> m' = m"
proof (induction rs)
  case (Cons r rs)
  then show ?case
    by (auto simp: bnd_def ret_def split: sum.splits option.splits if_splits prod.splits)
qed simp

lemma same_leases_keeps:
  "lease_store_ok m' \<Longrightarrow> \<forall>ws r. lease_get m' ws r = lease_get m ws r \<Longrightarrow> lease_keeps P m m'"
  by (simp add: lease_keeps_def)

lemma grow_pool_keeps:
  assumes "grow_pool owner ws cs rs holder ttl mode elastic now m = (x, m')" "lease_store_ok m"
  shows "lease_keeps (binding_on holder now) m m'"
  using assms(1)
proof (cases rule: grow_pool_cases)
  case exhausted
  then show ?thesis using pool_exhausted_same assms(2) lease_keeps_refl by blast
next
  case (bumped spec n y m1)
  note same = put_counter_same [OF bumped(4) assms(2)]
  then have k1: "lease_keeps (binding_on holder now) m m1" by (simp add: same_leases_keeps)
  show ?thesis
  proof (cases y)
    case (Inl e)
    with bumped(5) k1 show ?thesis by simp
  next
    case (Inr u)
    let ?r = "overflow_prefix cs elastic @ show_nat (unat (sat_add n 1))"
    obtain z m2 where a: "lease_acquire owner ws ?r holder ttl LeaseBlock now m1 = (z, m2)" by fastforce
    have "m' = m2"
      using bumped(5) Inr a pool_exhausted_same
      by (cases z) (auto simp: Let_def bnd_run ret_def split: if_splits)
    then show ?thesis
      using k1 acquire_keeps [OF a] lease_keeps_ok [OF k1] lease_keeps_trans by blast
  qed
qed (simp add: assms(2) lease_keeps_refl)

lemma acquire_any_keeps:
  assumes "lease_acquire_any owner ws cs holder ttl mode elastic now m = (x, m')" "lease_store_ok m"
  shows "lease_keeps (binding_on holder now) m m'"
  using assms(1)
proof (cases rule: acquire_any_cases)
  case (scanned n rs y1 m1)
  then show ?thesis using scan_held_keeps [OF scanned(3) assms(2)] by auto
next
  case (searched n rs m1 y2 m2)
  with scan_held_none [OF searched(3)] have "m1 = m" by simp
  with searched scan_free_keeps [OF searched(4)] assms(2) show ?thesis by auto
next
  case (grown n rs m1 m2)
  have "m1 = m" by (rule scan_held_none [OF grown(3)])
  with scan_free_result [OF grown(4)] assms(2) have "m2 = m" by simp
  with grow_pool_keeps [OF grown(5)] assms(2) show ?thesis by simp
qed (simp add: assms(2) lease_keeps_refl)

section \<open>Sequences of operations\<close>

datatype lease_cmd =
    LeaseAcquire u32 string string "u64 option" lease_mode u64
  | LeaseAcquireAny u32 "string list" string "u64 option" lease_mode "elastic_spec option" u64
  | LeaseRenew u32 string string u64 u64
  | LeaseRelease u32 string string u64
  | LeaseList u32 "u64 option"
  | LeaseClock int

fun lease_exec :: "string \<Rightarrow> lease_cmd \<Rightarrow> memory \<Rightarrow> memory" where
  "lease_exec owner (LeaseAcquire ws r h ttl mode now) m =
     snd (lease_acquire owner ws r h ttl mode now m)"
| "lease_exec owner (LeaseAcquireAny ws cs h ttl mode el now) m =
     snd (lease_acquire_any owner ws cs h ttl mode el now m)"
| "lease_exec owner (LeaseRenew ws r h ttl now) m = snd (lease_renew owner ws r h ttl now m)"
| "lease_exec owner (LeaseRelease ws r h now) m = snd (lease_release owner ws r h m)"
| "lease_exec owner (LeaseList ws now) m = snd (lease_list owner ws now m)"
| "lease_exec owner (LeaseClock t) m = m\<lparr>m_now := t\<rparr>"

definition lease_run :: "string \<Rightarrow> lease_cmd list \<Rightarrow> memory \<Rightarrow> memory" where
  "lease_run owner cmds m = foldl (\<lambda>m c. lease_exec owner c m) m cmds"

text \<open>A command that may not touch the lease \<open>l\<close>: another holder's, or a listing, before \<open>l\<close> expires.\<close>

fun bound_by :: "lease \<Rightarrow> lease_cmd \<Rightarrow> bool" where
  "bound_by l (LeaseAcquire _ _ h _ _ now) \<longleftrightarrow> binding_on h now l"
| "bound_by l (LeaseAcquireAny _ _ h _ _ _ now) \<longleftrightarrow> binding_on h now l"
| "bound_by l (LeaseRenew _ _ h _ _) \<longleftrightarrow> l_holder l \<noteq> h"
| "bound_by l (LeaseRelease _ _ h _) \<longleftrightarrow> l_holder l \<noteq> h"
| "bound_by l (LeaseList _ now) \<longleftrightarrow> (case now of None \<Rightarrow> True | Some t \<Rightarrow> \<not> lease_expired t l)"
| "bound_by l (LeaseClock _) \<longleftrightarrow> True"

definition lease_text :: "json_text \<Rightarrow> bool" where
  "lease_text jt \<longleftrightarrow> (\<forall>l. readable jt (Json (lease_json l)))"

lemma lease_opened: "lease_text jt \<Longrightarrow> lease_store_ok (open_in_memory jt cfg now)"
  unfolding lease_store_ok_def
  by (rule conjI, rule lea.store_ok_opened)
    (simp_all add: text_stable_def lease_text_def lease_keys_only_def open_in_memory_def)

lemma lease_exec_keeps:
  assumes "lease_store_ok m" and "bound_by l c"
  shows "lease_keeps (\<lambda>l0. l0 = l) m (lease_exec owner c m)"
proof -
  have weaken: "lease_keeps (\<lambda>l0. l0 = l) m m'" if "lease_keeps P m m'" "P l" for P m'
    using that by (simp add: lease_keeps_def)
  show ?thesis
  proof (cases c)
    case (LeaseAcquire ws r h ttl mode now)
    with assms weaken [OF acquire_keeps [OF surjective_pairing assms(1)]] show ?thesis by simp
  next
    case (LeaseAcquireAny ws cs h ttl mode el now)
    with assms weaken [OF acquire_any_keeps [OF surjective_pairing assms(1)]] show ?thesis by simp
  next
    case (LeaseRenew ws r h ttl now)
    with assms weaken [OF renew_holder_keeps [OF surjective_pairing assms(1)]] show ?thesis by simp
  next
    case (LeaseRelease ws r h now)
    with assms weaken [OF release_holder_keeps [OF surjective_pairing assms(1)]] show ?thesis by simp
  next
    case (LeaseList ws now)
    obtain x m' where run: "lease_list owner ws now m = (x, m')" by fastforce
    have "lease_keeps (\<lambda>l0. l0 = l) m m'"
      by (rule list_keeps [OF run assms(1)]) (use assms(2) LeaseList in auto)
    with run LeaseList show ?thesis by simp
  next
    case (LeaseClock t)
    have "lease_get (m\<lparr>m_now := t\<rparr>) ws r = lease_get m ws r" for ws r
      using lea.get_clock [of m t "(ws, r)"] lea.store_ok_plain [of m] assms(1)
      by (simp add: lease_store_ok_def)
    moreover have "lease_store_ok (m\<lparr>m_now := t\<rparr>)"
      using lea.store_ok_clock [of m t] assms(1) by (simp add: lease_store_ok_def lease_keys_only_def)
    ultimately show ?thesis using LeaseClock by (simp add: lease_keeps_def)
  qed
qed

lemma lease_exec_ok: "lease_store_ok m \<Longrightarrow> lease_store_ok (lease_exec owner c m)"
proof -
  assume ok: "lease_store_ok m"
  have clock: "lease_store_ok (m\<lparr>m_now := t\<rparr>)" for t
    using lea.store_ok_clock [of m t] ok by (simp add: lease_store_ok_def lease_keys_only_def)
  show ?thesis
    by (cases c)
      (simp_all add: clock lease_keeps_ok [OF acquire_keeps [OF surjective_pairing ok]]
        lease_keeps_ok [OF acquire_any_keeps [OF surjective_pairing ok]]
        lease_keeps_ok [OF renew_holder_keeps [OF surjective_pairing ok]]
        lease_keeps_ok [OF release_holder_keeps [OF surjective_pairing ok]]
        lease_keeps_ok [OF list_keeps [where P = "\<lambda>_. False", OF surjective_pairing ok]])
qed

lemma lease_run_ok: "lease_store_ok m \<Longrightarrow> lease_store_ok (lease_run owner cmds m)"
  unfolding lease_run_def by (induction cmds arbitrary: m) (auto intro: lease_exec_ok)

lemma lease_run_keeps:
  "lease_store_ok m \<Longrightarrow> lease_get m ws r = Inr (Some l) \<Longrightarrow> \<forall>c \<in> set cmds. bound_by l c \<Longrightarrow>
   lease_get (lease_run owner cmds m) ws r = Inr (Some l)"
  unfolding lease_run_def
proof (induction cmds arbitrary: m)
  case (Cons c cmds)
  have "lease_keeps (\<lambda>l0. l0 = l) m (lease_exec owner c m)"
    using lease_exec_keeps [OF Cons.prems(1)] Cons.prems(3) by simp
  with Cons show ?case by (auto simp: lease_keeps_def)
qed simp

section \<open>Properties\<close>

text \<open>C22. A lease is exclusive until it expires: from any reachable store, no sequence of acquires
  and pool acquires by other holders at times before its expiry, of renewals and releases by
  other holders at any time, and of listings before its expiry changes it.\<close>

theorem lease_exclusive:
  assumes "lease_text jt" and "m = lease_run owner past (open_in_memory jt cfg t0)"
    and "lease_get m ws r = Inr (Some l)" and "\<forall>c \<in> set cmds. bound_by l c"
  shows "lease_get (lease_run owner cmds m) ws r = Inr (Some l)"
  unfolding assms(2)
  by (rule lease_run_keeps [OF lease_run_ok [OF lease_opened [OF assms(1)]]])
    (use assms(2-4) in auto)

text \<open>An acquire on a reachable store: it is granted exactly if the resource is free, already
  the holder's, or its lease has expired, and then the lease it answers is stored; it is refused
  by another's unexpired lease, with a conflict in fail mode and with that lease in block mode,
  and then, as on every error, nothing is changed.\<close>

theorem lease_acquire_exact:
  assumes "lease_text jt" and "m = lease_run owner past (open_in_memory jt cfg t0)"
    and "lease_acquire owner ws r holder ttl mode now m = (x, m')"
    and "r \<noteq> []" and "holder \<noteq> []" and "lease_get m ws r = Inr found"
  shows "(\<forall>cur. found = Some cur \<longrightarrow> binding_on holder now cur \<longrightarrow> m' = m \<and>
      x = (case mode of LeaseFail \<Rightarrow> Inl (LeaseConflict r (l_holder cur))
           | LeaseBlock \<Rightarrow> Inr \<lparr>lo_acquired = False, lo_lease = cur\<rparr>)) \<and>
    (\<not> (\<exists>cur. found = Some cur \<and> binding_on holder now cur) \<longrightarrow>
      (case x of Inl e \<Rightarrow> m' = m
       | Inr out \<Rightarrow> lo_acquired out \<and> lo_lease out = lease_taken ws r holder ttl now \<and>
           lease_get m' ws r = Inr (Some (lease_taken ws r holder ttl now))))"
proof -
  have ok: "lease_store_ok m"
    unfolding assms(2) by (rule lease_run_ok [OF lease_opened [OF assms(1)]])
  from assms(3) show ?thesis
  proof (cases rule: lease_acquire_cases)
    case (refused cur)
    with assms(6) show ?thesis by (auto simp: binding_on_def)
  next
    case (taken y)
    show ?thesis
    proof (cases y)
      case (Inl e)
      with taken(4) have "m' = m" by (simp add: lea.put_err)
      with taken assms(6) Inl show ?thesis by (auto simp: binding_on_def sbind_def)
    next
      case (Inr u)
      then have x: "x = Inr \<lparr>lo_acquired = True, lo_lease = lease_taken ws r holder ttl now\<rparr>"
        using taken(5) by (simp add: sbind_def)
      then have "lease_get m' ws r = Inr (Some (lease_taken ws r holder ttl now))"
        using acquire_stored [OF _ ok] assms(3) by simp
      with taken assms(6) x show ?thesis by (auto simp: binding_on_def)
    qed
  qed (use assms(4-6) in auto)
qed

lemma pool_outcome:
  assumes "lease_acquire_any owner ws cs holder ttl mode elastic now m = (Inr out, m')"
    and ok: "lease_store_ok m"
  shows "\<exists>n. counter_for m ws cs elastic = Inr n \<and>
    (let rs = scan_names cs (overflow_prefix cs elastic) n in
      (case find (has_lease m ws holder now) rs of
         Some r \<Rightarrow> out = any_taken ws r holder ttl now False
       | None \<Rightarrow>
           (\<exists>r \<in> set rs. \<not> blocked_on m ws holder now r \<and> out = any_taken ws r holder ttl now False) \<or>
           (\<forall>r \<in> set rs. blocked_on m ws holder now r) \<and>
             (ao_acquired out \<longrightarrow> (\<exists>spec k. elastic = Some spec \<and> k = sat_add n 1 \<and>
               (case el_max spec of Some mx \<Rightarrow> of_nat (length rs) < mx | None \<Rightarrow> True) \<and>
               out = any_taken ws (overflow_prefix cs elastic @ show_nat (unat k)) holder ttl now True))) \<and>
      (\<forall>r. ao_acquired out \<longrightarrow> ao_resource out = Some r \<longrightarrow>
         lease_get m' ws r = Inr (Some (lease_taken ws r holder ttl now))))"
  using assms(1)
proof (cases rule: acquire_any_cases)
  case (scanned n rs y1 m1)
  then have res: "scan_held owner ws holder ttl now rs m = (Inr (Some out), m')" by auto
  from scan_held_result [OF res ok] scanned(1,2) show ?thesis
    by (auto simp: Let_def any_taken_def)
next
  case (searched n rs m1 y2 m2)
  have m1: "m1 = m" by (rule scan_held_none [OF searched(3)])
  have none: "find (has_lease m ws holder now) rs = None"
    using scan_held_result [OF searched(3) ok] by (auto simp: find_None_iff)
  have res: "scan_free owner ws holder ttl now rs m = (Inr (Some out), m')" using searched m1 by auto
  from scan_free_result [OF res ok] searched(1,2) none show ?thesis
    by (auto simp: Let_def any_taken_def)
next
  case (grown n rs m1 m2)
  have m1: "m1 = m" by (rule scan_held_none [OF grown(3)])
  have none: "find (has_lease m ws holder now) rs = None"
    using scan_held_result [OF grown(3) ok] by (auto simp: find_None_iff)
  have "m2 = m" and all: "\<forall>r \<in> set rs. blocked_on m ws holder now r"
    using scan_free_result [OF grown(4)] ok m1 by auto
  from grown(5) [unfolded \<open>m2 = m\<close>] show ?thesis
  proof (cases rule: grow_pool_cases)
    case exhausted
    with pool_exhausted_same have "\<not> ao_acquired out" by blast
    with grown(1,2) none all show ?thesis by (simp add: Let_def)
  next
    case (bumped spec n' y m3)
    have n': "n' = n" using bumped(1,3) grown(1) by (simp add: counter_for_def)
    have ok3: "lease_store_ok m3" using put_counter_same [OF bumped(4) ok] by simp
    let ?r = "overflow_prefix cs elastic @ show_nat (unat (sat_add n 1))"
    obtain z m4 where a: "lease_acquire owner ws ?r holder ttl LeaseBlock now m3 = (z, m4)" by fastforce
    obtain u where u: "y = Inr u" using bumped(5) by auto
    show ?thesis
    proof (cases "\<exists>o1. z = Inr o1 \<and> lo_acquired o1")
      case True
      then obtain o1 where o1: "z = Inr o1" "lo_acquired o1" by blast
      note st = acquire_stored [OF a [unfolded o1(1)] ok3 o1(2)]
      have "out = any_taken ws ?r holder ttl now True" "m' = m4"
        using bumped(5) u n' a o1 st by (auto simp: Let_def bnd_run ret_def any_taken_def)
      with grown(1,2) none all bumped(1,2) st show ?thesis
        by (auto simp: Let_def any_taken_def)
    next
      case False
      then have "\<not> ao_acquired out"
        using bumped(5) u n' a pool_exhausted_same by (cases z) (auto simp: Let_def bnd_run)
      with grown(1,2) none all show ?thesis by (simp add: Let_def)
    qed
  qed simp_all
qed simp_all

text \<open>A pool acquire that returns, over the candidates and the names made up so far: a holder
  that has an unexpired lease on one of them gets the first such again, never a second; otherwise
  it gets one that no other holder's unexpired lease blocks, if there is one; otherwise it gets
  something only from an elastic pool below its maximum, under the next name; and whatever it
  gets is stored as its lease.\<close>

theorem pool_acquire_exact:
  assumes "lease_text jt" and "m = lease_run owner past (open_in_memory jt cfg t0)"
    and "lease_acquire_any owner ws cs holder ttl mode elastic now m = (Inr out, m')"
  shows "\<exists>n. counter_for m ws cs elastic = Inr n \<and>
    (let rs = scan_names cs (overflow_prefix cs elastic) n in
      (case find (has_lease m ws holder now) rs of
         Some r \<Rightarrow> out = any_taken ws r holder ttl now False
       | None \<Rightarrow>
           (\<exists>r \<in> set rs. \<not> blocked_on m ws holder now r \<and> out = any_taken ws r holder ttl now False) \<or>
           (\<forall>r \<in> set rs. blocked_on m ws holder now r) \<and>
             (ao_acquired out \<longrightarrow> (\<exists>spec k. elastic = Some spec \<and> k = sat_add n 1 \<and>
               (case el_max spec of Some mx \<Rightarrow> of_nat (length rs) < mx | None \<Rightarrow> True) \<and>
               out = any_taken ws (overflow_prefix cs elastic @ show_nat (unat k)) holder ttl now True))) \<and>
      (\<forall>r. ao_acquired out \<longrightarrow> ao_resource out = Some r \<longrightarrow>
         lease_get m' ws r = Inr (Some (lease_taken ws r holder ttl now))))"
  using pool_outcome [OF assms(3)] lease_run_ok [OF lease_opened [OF assms(1)]] assms(2) by simp

section \<open>Witnesses\<close>

lemma sample_lease_text: "lease_text sample_text"
  by (simp add: lease_text_def sample_text_readable)

definition lease_demo :: "lease_cmd list" where
  "lease_demo = [LeaseAcquireAny 1 [''w''] ''h1'' (Some 500) LeaseBlock None 1000]"

abbreviation lease_demo_mem :: memory where
  "lease_demo_mem \<equiv> lease_run ''_host'' lease_demo demo_open"

lemma lease_demo_get:
  "lease_get lease_demo_mem 1 ''w'' = Inr (Some (lease_taken 1 ''w'' ''h1'' (Some 500) 1000))"
  by code_simp

definition lease_intruder :: "lease_cmd list" where
  "lease_intruder = [LeaseAcquire 1 ''w'' ''h2'' None LeaseFail 1200, LeaseRelease 1 ''w'' ''h2'' 1300,
     LeaseList 1 (Some 1400)]"

theorem lease_exclusive_witness:
  "lease_get (lease_run ''_host'' lease_intruder lease_demo_mem) 1 ''w'' =
     Inr (Some (lease_taken 1 ''w'' ''h1'' (Some 500) 1000))"
  by (rule lease_exclusive [OF sample_lease_text refl lease_demo_get]) code_simp

theorem lease_acquire_exact_witness:
  "snd (lease_acquire ''_host'' 1 ''w'' ''h2'' None LeaseFail 1200 lease_demo_mem) = lease_demo_mem \<and>
   fst (lease_acquire ''_host'' 1 ''w'' ''h2'' None LeaseFail 1200 lease_demo_mem) =
     Inl (LeaseConflict ''w'' ''h1'')"
proof -
  let ?r = "lease_acquire ''_host'' 1 ''w'' ''h2'' None LeaseFail 1200 lease_demo_mem"
  have binds: "binding_on ''h2'' 1200 (lease_taken 1 ''w'' ''h1'' (Some 500) 1000)" by code_simp
  have run: "?r = (fst ?r, snd ?r)" by (rule surjective_pairing)
  note exact = lease_acquire_exact [OF sample_lease_text refl run _ _ lease_demo_get]
  from exact binds show ?thesis by (simp add: lease_taken_def)
qed

text \<open>An elastic pool whose only candidate is taken hands out the first made-up name.\<close>

theorem pool_acquire_exact_witness:
  "let r = lease_acquire_any ''_host'' 1 [''w''] ''h2'' None LeaseFail
       (Some \<lparr>el_max = Some 2, el_prefix = Some ''x''\<rparr>) 1200 lease_demo_mem
   in ao_resource (projr (fst r)) = Some ''x1'' \<and>
      lease_get (snd r) 1 ''x1'' = Inr (Some (lease_taken 1 ''x1'' ''h2'' None 1200))"
proof -
  let ?r = "lease_acquire_any ''_host'' 1 [''w''] ''h2'' None LeaseFail
       (Some \<lparr>el_max = Some 2, el_prefix = Some ''x''\<rparr>) 1200 lease_demo_mem"
  have out: "fst ?r = Inr (any_taken 1 ''x1'' ''h2'' None 1200 True)" by code_simp
  from pool_acquire_exact [OF sample_lease_text refl pair_of_fst [OF out]]
  have "lease_get (snd ?r) 1 ''x1'' = Inr (Some (lease_taken 1 ''x1'' ''h2'' None 1200))"
    by (auto simp: any_taken_def Let_def)
  then show ?thesis using out by (simp add: any_taken_def)
qed

end
