(* ===== verification/Task_Types_Laws.thy ===== *)
theory Task_Types_Laws
  imports Task_Types
begin

text \<open>
  What the value types of task contracts promise: the explicit stack measures the depth of a value;
  validation implements the inductive relation \<open>valid\<close>; a checked schema resolves; assignability
  is sound; typed values survive their wire form; a schema survives its JSON form.
\<close>

section \<open>The depth of a value\<close>

text \<open>The longest chain of nested values, by recursion on the value.\<close>

fun jdepth :: "json \<Rightarrow> nat" where
  "jdepth (JArr a) = Suc (Max (insert 0 (jdepth ` set a)))"
| "jdepth (JObj m) = Suc (Max (insert 0 (jdepth ` snd ` set m)))"
| "jdepth _ = 1"

lemma jdepth_pos: "0 < jdepth v"
  by (cases v) auto

lemma jdepth_children: "jdepth v = Suc (Max (insert 0 (jdepth ` set (json_children v))))"
  by (cases v) (auto simp: image_image)

definition pending_depth :: "(json \<times> nat) list \<Rightarrow> nat" where
  "pending_depth stack = Max (insert 0 ((\<lambda>(v, d). d + jdepth v - 1) ` set stack))"

lemma Max_0_le: "finite A \<Longrightarrow> Max (insert (0 :: nat) A) \<le> n \<longleftrightarrow> (\<forall>a \<in> A. a \<le> n)"
  by (simp add: Max_le_iff)

lemma pending_le: "pending_depth stack \<le> n \<longleftrightarrow> (\<forall>(v, d) \<in> set stack. d + jdepth v - 1 \<le> n)"
  unfolding pending_depth_def by (subst Max_0_le) auto

lemma jdepth_le: "jdepth v \<le> Suc n \<longleftrightarrow> (\<forall>c \<in> set (json_children v). jdepth c \<le> n)"
  by (subst jdepth_children) (auto simp: Max_0_le)

lemma nat_eq_by_le: "(\<And>n. (a :: nat) \<le> n \<longleftrightarrow> b \<le> n) \<Longrightarrow> a = b"
  by (meson order_antisym order_refl)

lemma depth_here_le:
  assumes "0 < d"
  shows "d + jdepth v - 1 \<le> n \<longleftrightarrow> d \<le> n \<and> (\<forall>c \<in> set (json_children v). d + jdepth c \<le> n)"
proof (cases "d \<le> n")
  case True
  then have "d + jdepth v - 1 \<le> n \<longleftrightarrow> jdepth v \<le> Suc (n - d)" using assms by auto
  also have "\<dots> \<longleftrightarrow> (\<forall>c \<in> set (json_children v). d + jdepth c \<le> n)"
    unfolding jdepth_le using True by auto
  finally show ?thesis using True by simp
next
  case False
  then show ?thesis using jdepth_pos [of v] by auto
qed

lemma depth_loop_le:
  "\<forall>p \<in> set stack. 0 < snd p \<Longrightarrow> depth_loop mx stack \<le> n \<longleftrightarrow> mx \<le> n \<and> pending_depth stack \<le> n"
proof (induction mx stack rule: depth_loop.induct)
  case (2 mx cur d stack)
  let ?children = "rev (map (\<lambda>x. (x, d + 1)) (json_children cur))"
  have "depth_loop mx ((cur, d) # stack) \<le> n \<longleftrightarrow>
      max mx d \<le> n \<and> pending_depth (?children @ stack) \<le> n"
    unfolding depth_loop.simps by (rule 2(1)) (use 2(2) in auto)
  also have "\<dots> \<longleftrightarrow> mx \<le> n \<and> d \<le> n \<and> (\<forall>c \<in> set (json_children cur). d + jdepth c \<le> n)
      \<and> pending_depth stack \<le> n"
    by (simp add: pending_le ball_Un)
  also have "\<dots> \<longleftrightarrow> mx \<le> n \<and> pending_depth ((cur, d) # stack) \<le> n"
    using depth_here_le [of d cur n] 2(2) by (auto simp: pending_le)
  finally show ?case .
qed (simp add: pending_depth_def)

lemma json_depth_eq: "json_depth v = jdepth v"
proof (rule nat_eq_by_le)
  fix n
  have "json_depth v \<le> n \<longleftrightarrow> 1 + jdepth v - 1 \<le> n"
    by (simp add: json_depth_def depth_loop_le pending_le del: depth_loop.simps)
  then show "json_depth v \<le> n \<longleftrightarrow> jdepth v \<le> n" by simp
qed

text \<open>The loop that measures a value with its own stack computes the nesting depth of the value.\<close>

theorem json_depth_exact: "json_depth v = jdepth v"
  by (rule json_depth_eq)

section \<open>What validation accepts\<close>

fun leaf_valid :: "type_kind \<Rightarrow> json \<Rightarrow> json \<Rightarrow> bool" where
  "leaf_valid KBoolean v w \<longleftrightarrow> w = v \<and> (\<exists>b. v = JBool b)"
| "leaf_valid KInt64 v w \<longleftrightarrow> (\<exists>i. int64_of v = Inr i \<and> w = JNum (num_of_i64 i))"
| "leaf_valid (KFloat64 lo hi) v w \<longleftrightarrow> w = v \<and> (\<exists>n f. v = JNum n \<and> float_of n = Some f \<and> f64_finite f \<and>
     (\<forall>l. lo = Some l \<longrightarrow> f64_le l f) \<and> (\<forall>h. hi = Some h \<longrightarrow> f64_le f h))"
| "leaf_valid (KString mx) v w \<longleftrightarrow> w = v \<and> (\<exists>s. v = JStr s \<and> (\<forall>n. mx = Some n \<longrightarrow> char_count s \<le> unat n))"
| "leaf_valid (KEnum vs) v w \<longleftrightarrow> w = v \<and> (\<exists>s \<in> set vs. v = JStr s)"
| "leaf_valid KUnit v w \<longleftrightarrow> v = JNull \<and> w = JNull"
| "leaf_valid _ v w \<longleftrightarrow> False"

text \<open>What a field contributes to the result, when \<open>R\<close> relates its value to the checked one.\<close>

definition field_part ::
  "(type_schema \<Rightarrow> json \<Rightarrow> json \<Rightarrow> bool) \<Rightarrow> jobject \<Rightarrow> string \<times> field_schema \<Rightarrow> jobject \<Rightarrow> bool" where
  "field_part R m p part \<longleftrightarrow>
     (case field_source m (fst p) (snd p) of
        Some x \<Rightarrow> \<exists>y. part = [(fst p, y)] \<and> R (fs_schema (snd p)) x y
      | None \<Rightarrow> fs_optional (snd p) \<and> part = [])"

lemma field_part_mono [mono]:
  "(\<And>s x y. R s x y \<longrightarrow> R' s x y) \<Longrightarrow> field_part R m p part \<longrightarrow> field_part R' m p part"
  by (auto simp: field_part_def split: option.splits)

text \<open>
  \<open>valid defs d s v w\<close>: at depth \<open>d\<close> the value \<open>v\<close> has the type \<open>s\<close>, and \<open>w\<close> is \<open>v\<close> with the
  absent fields filled from their defaults and integers in one form.
\<close>

inductive valid :: "type_defs \<Rightarrow> nat \<Rightarrow> type_schema \<Rightarrow> json \<Rightarrow> json \<Rightarrow> bool" for defs where
  null: "d \<le> 64 \<Longrightarrow> resolve defs s = Inr (k, True) \<Longrightarrow> k \<noteq> KUnit \<Longrightarrow> k \<noteq> KJson \<Longrightarrow> valid defs d s JNull JNull"
| leaf: "d \<le> 64 \<Longrightarrow> resolve defs s = Inr (k, n) \<Longrightarrow> v \<noteq> JNull \<or> k = KUnit \<Longrightarrow> leaf_valid k v w \<Longrightarrow>
    valid defs d s v w"
| any: "resolve defs s = Inr (KJson, n) \<Longrightarrow> jdepth v + d \<le> 64 \<Longrightarrow> valid defs d s v v"
| arr: "d \<le> 64 \<Longrightarrow> resolve defs s = Inr (KList items mx, n) \<Longrightarrow>
    \<forall>m. mx = Some m \<longrightarrow> length xs \<le> unat m \<Longrightarrow>
    list_all2 (valid defs (d + 1) items) xs ys \<Longrightarrow> valid defs d s (JArr xs) (JArr ys)"
| obj: "d \<le> 64 \<Longrightarrow> resolve defs s = Inr (KObject fs, n) \<Longrightarrow> fst ` set m \<subseteq> fst ` set fs \<Longrightarrow>
    list_all2 (field_part (valid defs (d + 1)) m) fs parts \<Longrightarrow>
    valid defs d s (JObj m) (JObj (concat parts))"

lemma find_None_subset: "find (\<lambda>k. map_of fs k = None) ks = None \<longleftrightarrow> set ks \<subseteq> fst ` set fs"
  by (auto simp: find_None_iff map_of_eq_None_iff)

lemma resolve_no_ref:
  "resolve_loop left defs s nb = Inr (k, n) \<Longrightarrow> k \<noteq> KRef name"
proof (induction left defs s nb rule: resolve_loop.induct)
  case (1 left defs cur nullable)
  from 1(2) show ?case
    by (subst (asm) resolve_loop.simps)
      (auto simp: terr_def split: type_kind.splits nat.splits option.splits dest: 1(1))
qed

lemma resolve_not_ref: "resolve defs s = Inr (KRef name, n) \<Longrightarrow> False"
  using resolve_no_ref [of max_schema_depth defs s "ts_nullable s" "KRef name" n name]
  by (simp add: resolve_def)

lemma validate_obj:
  assumes "d \<le> 64" "resolve defs s = Inr (KObject fs, n)" "fst ` set m \<subseteq> fst ` set fs"
  shows "validate_at defs s (JObj m) p d =
    sbind (collect (\<lambda>(name, field).
        case field_source m name field of
          Some x \<Rightarrow> sbind (validate_at defs (fs_schema field) x (child_path p name) (d + 1))
            (\<lambda>y. Inr [(name, y)])
        | None \<Rightarrow> if fs_optional field then Inr []
            else terr MissingField (child_path p name) (Describe (fs_schema field)) (Plain ''absent'')) fs)
      (\<lambda>parts. Inr (JObj (concat parts)))"
proof -
  have "find (\<lambda>k. map_of fs k = None) (map fst m) = None"
    using assms(3) by (simp add: find_None_subset)
  then show ?thesis
    using assms(1,2) by (subst validate_at.simps) (simp add: map_err_def sbind_def [of "Inr _"] max_value_depth_def)
qed

lemma sbind_Inr_iff: "sbind r f = Inr w \<longleftrightarrow> (\<exists>x. r = Inr x \<and> f x = Inr w)"
  by (cases r) (auto simp: sbind_def)

lemma validate_obj_iff:
  assumes "d \<le> 64" "resolve defs s = Inr (KObject fs, n)" "fst ` set m \<subseteq> fst ` set fs"
  shows "validate_at defs s (JObj m) p d = Inr w \<longleftrightarrow> (\<exists>parts. w = JObj (concat parts) \<and>
    list_all2 (\<lambda>q. field_part (\<lambda>s' x y. validate_at defs s' x (child_path p (fst q)) (d + 1) = Inr y) m q)
      fs parts)"
proof -
  have "(case q of (name, field) \<Rightarrow> case field_source m name field of
          Some x \<Rightarrow> sbind (validate_at defs (fs_schema field) x (child_path p name) (d + 1)) (\<lambda>y. Inr [(name, y)])
        | None \<Rightarrow> if fs_optional field then Inr []
            else terr MissingField (child_path p name) (Describe (fs_schema field)) (Plain ''absent'')) = Inr part
    \<longleftrightarrow> field_part (\<lambda>s' x y. validate_at defs s' x (child_path p (fst q)) (d + 1) = Inr y) m q part"
    for q part
    by (cases q) (auto simp: field_part_def sbind_Inr_iff terr_def split: option.split)
  then show ?thesis
    unfolding validate_obj [OF assms] sbind_Inr_iff collect_Inr_iff by auto
qed

lemma validate_arr:
  assumes "d \<le> 64" "resolve defs s = Inr (KList items mx, n)" "\<forall>m. mx = Some m \<longrightarrow> length xs \<le> unat m"
  shows "validate_at defs s (JArr xs) p d =
    sbind (collect (\<lambda>(i, x). validate_at defs items x (child_path p (show_nat i)) (d + 1))
      (enumerate 0 xs)) (\<lambda>ys. Inr (JArr ys))"
  using assms by (subst validate_at.simps)
    (auto simp: sbind_def map_err_def max_value_depth_def split: option.splits)

lemma list_all2_enumerate:
  "list_all2 (\<lambda>p y. P (fst p) (snd p) y) (enumerate n xs) ys \<longleftrightarrow>
   length xs = length ys \<and> (\<forall>i < length xs. P (n + i) (xs ! i) (ys ! i))"
  by (auto simp: list_all2_conv_all_nth nth_enumerate_eq)

lemmas validate_unfold = sbind_def map_err_def terr_def max_value_depth_def f64_le_def f64_less_def not_less

lemma validate_null:
  "validate_at defs s JNull p d = Inr w \<longleftrightarrow> d \<le> 64 \<and>
    (\<exists>k n. resolve defs s = Inr (k, n) \<and> w = JNull \<and> (if k = KUnit then True
       else if k = KJson then jdepth JNull + d \<le> 64 else n))"
  by (subst validate_at.simps) (auto simp: validate_unfold json_depth_eq split: sum.split if_splits)

lemma validate_leaf:
  assumes "d \<le> 64" "resolve defs s = Inr (k, n)" "v \<noteq> JNull"
    and "\<And>fs. k \<noteq> KObject fs" "\<And>items mx. k \<noteq> KList items mx"
  shows "validate_at defs s v p d = Inr w \<longleftrightarrow> (if k = KJson then w = v \<and> jdepth v + d \<le> 64 else leaf_valid k v w)"
proof (cases k)
  case (KRef name)
  then show ?thesis using resolve_not_ref assms(2) by auto
next
  case (KFloat64 lo hi)
  then show ?thesis using assms
    by (subst validate_at.simps) (cases v; auto simp: validate_unfold split: option.splits)
next
  case (KString mx)
  then show ?thesis using assms
    by (subst validate_at.simps) (cases v; auto simp: validate_unfold split: option.splits)
next
  case KJson
  then show ?thesis using assms jdepth_pos [of v]
    by (subst validate_at.simps) (auto simp: validate_unfold json_depth_eq)
next
  case KInt64
  then show ?thesis using assms
    by (subst validate_at.simps) (auto simp: validate_unfold split: sum.splits)
next
  case KBoolean
  then show ?thesis using assms
    by (subst validate_at.simps) (cases v; auto simp: validate_unfold Let_def)
next
  case (KEnum vs)
  then show ?thesis using assms
    by (subst validate_at.simps) (cases v; auto simp: validate_unfold Let_def)
next
  case KUnit
  then show ?thesis using assms
    by (subst validate_at.simps) (auto simp: validate_unfold Let_def)
qed (use assms in auto)

lemma validate_at_resolves:
  assumes "validate_at defs s v p d = Inr w"
  obtains k n where "d \<le> 64" "resolve defs s = Inr (k, n)"
  using assms by (subst (asm) validate_at.simps) (auto simp: validate_unfold split: if_splits sum.splits)

lemma validate_objE:
  assumes "validate_at defs s v p d = Inr w" "resolve defs s = Inr (KObject fs, n)" "v \<noteq> JNull"
  obtains m where "v = JObj m" "fst ` set m \<subseteq> fst ` set fs"
proof -
  from assms have "\<exists>m. v = JObj m \<and> find (\<lambda>k. map_of fs k = None) (map fst m) = None"
    by (subst (asm) validate_at.simps)
      (cases v; auto simp: validate_unfold split: if_splits option.splits)
  then show thesis using that by (auto simp: find_None_subset)
qed

lemma validate_arrE:
  assumes "validate_at defs s v p d = Inr w" "resolve defs s = Inr (KList items mx, n)" "v \<noteq> JNull"
  obtains xs where "v = JArr xs" "\<forall>m. mx = Some m \<longrightarrow> length xs \<le> unat m"
proof -
  from assms have "\<exists>xs. v = JArr xs \<and> (\<forall>m. mx = Some m \<longrightarrow> length xs \<le> unat m)"
    by (subst (asm) validate_at.simps)
      (cases v; auto simp: validate_unfold split: if_splits option.splits)
  then show thesis using that by auto
qed

lemma validate_valid:
  "validate_at defs s v p d = Inr w \<Longrightarrow> valid defs d s v w"
proof (induction "65 - d" arbitrary: s v p d w rule: less_induct)
  case less
  obtain k n where d: "d \<le> 64" and res: "resolve defs s = Inr (k, n)"
    using validate_at_resolves [OF less.prems] .
  have sub: "valid defs (d + 1) s' v' w'" if "validate_at defs s' v' p' (d + 1) = Inr w'" for s' v' p' w'
    using less.hyps [OF _ that] d by simp
  consider (nul) "v = JNull" | (ob) fs where "k = KObject fs" "v \<noteq> JNull"
    | (ls) items mx where "k = KList items mx" "v \<noteq> JNull"
    | (lf) "v \<noteq> JNull" "\<And>fs. k \<noteq> KObject fs" "\<And>items mx. k \<noteq> KList items mx"
    by (cases k) auto
  then show ?case
  proof cases
    case nul
    with less.prems have "validate_at defs s JNull p d = Inr w" by simp
    then show ?thesis
      unfolding validate_null using nul res d
      by (cases "k = KUnit") (auto intro: valid.null valid.leaf valid.any split: if_splits)
  next
    case lf
    then show ?thesis
      using less.prems validate_leaf [OF d res lf] d res
      by (auto intro: valid.any valid.leaf split: if_splits)
  next
    case ob
    obtain m where v: "v = JObj m" and keys: "fst ` set m \<subseteq> fst ` set fs"
      by (rule validate_objE [OF less.prems res [unfolded ob(1)] ob(2)])
    from less.prems obtain parts where w: "w = JObj (concat parts)"
      and all: "list_all2 (\<lambda>q. field_part (\<lambda>s' x y. validate_at defs s' x (child_path p (fst q)) (d + 1) = Inr y) m q)
        fs parts"
      unfolding v validate_obj_iff [OF d res [unfolded ob(1)] keys] by blast
    have "field_part (valid defs (d + 1)) m q part"
      if "field_part (\<lambda>s' x y. validate_at defs s' x (child_path p (fst q)) (d + 1) = Inr y) m q part" for q part
      using that sub unfolding field_part_def by (fastforce split: option.splits)
    then have "list_all2 (field_part (valid defs (d + 1)) m) fs parts"
      by (rule list_all2_mono [OF all])
    then show ?thesis unfolding v w by (rule valid.obj [OF d res [unfolded ob(1)] keys])
  next
    case ls
    obtain xs where v: "v = JArr xs" and len: "\<forall>m. mx = Some m \<longrightarrow> length xs \<le> unat m"
      by (rule validate_arrE [OF less.prems res [unfolded ls(1)] ls(2)])
    from less.prems obtain ys where w: "w = JArr ys"
      and all: "list_all2 (\<lambda>q y. validate_at defs items (snd q) (child_path p (show_nat (fst q))) (d + 1) = Inr y)
        (enumerate 0 xs) ys"
      unfolding v validate_arr [OF d res [unfolded ls(1)] len] sbind_Inr_iff collect_Inr_iff
      by (auto simp: case_prod_beta)
    from all have "list_all2 (valid defs (d + 1) items) xs ys"
      by (fastforce simp: list_all2_conv_all_nth nth_enumerate_eq intro: sub [unfolded Suc_eq_plus1 [symmetric]])
    then show ?thesis unfolding v w by (rule valid.arr [OF d res [unfolded ls(1)] len])
  qed
qed

lemma valid_validate:
  "valid defs d s v w \<Longrightarrow> validate_at defs s v p d = Inr w"
proof (induction arbitrary: p rule: valid.induct)
  case (null d s k)
  then show ?case by (auto simp: validate_null)
next
  case (leaf d s k n v w)
  show ?case
  proof (cases "v = JNull")
    case True
    with leaf show ?thesis by (auto simp: validate_null)
  next
    case False
    from leaf(4) have "k \<noteq> KJson" "\<And>fs. k \<noteq> KObject fs" "\<And>items mx. k \<noteq> KList items mx" by auto
    with leaf False show ?thesis using validate_leaf [OF leaf(1,2) False] by simp
  qed
next
  case (any s n v d)
  then show ?case using jdepth_pos [of v]
    by (cases "v = JNull") (auto simp: validate_null validate_leaf)
next
  case (arr d s items mx n xs ys)
  have "collect (\<lambda>(i, x). validate_at defs items x (child_path p (show_nat i)) (d + 1)) (enumerate 0 xs) = Inr ys"
    using arr(4) by (auto simp: collect_Inr_iff list_all2_conv_all_nth nth_enumerate_eq)
  then show ?case unfolding validate_arr [OF arr(1-3)] by (simp add: sbind_def)
next
  case (obj d s fs n m parts)
  show ?case
    unfolding validate_obj_iff [OF obj(1-3)]
  proof (rule exI, rule conjI, rule refl)
    show "list_all2 (\<lambda>q. field_part (\<lambda>s' x y. validate_at defs s' x (child_path p (fst q)) (d + 1) = Inr y) m q)
      fs parts"
      by (rule list_all2_mono [OF obj(4)]) (auto simp: field_part_def split: option.splits)
  qed
qed

lemma validate_iff: "validate_at defs s v p d = Inr w \<longleftrightarrow> valid defs d s v w"
  using validate_valid valid_validate by blast

text \<open>C26. Validation is exactly the relation \<open>valid\<close>: \<open>validate_at\<close> returns \<open>w\<close> for \<open>v\<close> just when \<open>v\<close> has
  the type at that depth and \<open>w\<close> is \<open>v\<close> with its defaults filled in; every other value is an error.\<close>

theorem validation_exact: "validate_at defs s v p d = Inr w \<longleftrightarrow> valid defs d s v w"
  by (rule validate_iff)

section \<open>Checked schemas\<close>

lemma collect_unit:
  "sbind (collect f fs) (\<lambda>_. Inr ()) = Inr () \<longleftrightarrow> (\<forall>q \<in> set fs. f q = Inr ())"
  for f :: "'a \<Rightarrow> 'e + unit"
  by (induction fs) (auto simp: sbind_def split: sum.splits)

definition checked :: "type_defs \<Rightarrow> nat \<Rightarrow> type_schema \<Rightarrow> bool" where
  "checked defs k s \<longleftrightarrow> (\<exists>p st. check_schema defs s p st k = Inr ())"

text \<open>What a check at depth \<open>k\<close> says of the kind a schema resolves to.\<close>

definition checked_parts :: "type_defs \<Rightarrow> nat \<Rightarrow> type_kind \<Rightarrow> bool" where
  "checked_parts defs k kind \<longleftrightarrow>
     (case kind of
        KObject fs \<Rightarrow> \<forall>p \<in> set fs. checked defs k (fs_schema (snd p)) \<and>
          (\<forall>d. fs_default (snd p) = Some d \<longrightarrow> (\<exists>w. valid defs 0 (fs_schema (snd p)) d w))
      | KList items mx \<Rightarrow> checked defs k items
      | _ \<Rightarrow> True)"

lemma check_schema_ok:
  "check_schema defs s p st k = Inr () \<longleftrightarrow> k \<le> 32 \<and>
    (case ts_kind s of
       KRef name \<Rightarrow> (\<exists>t. map_of defs name = Some t \<and> name \<notin> set st \<and>
         check_schema defs t p (st @ [name]) (k + 1) = Inr ())
     | KObject fs \<Rightarrow> \<forall>q \<in> set fs.
         (let fp = child_path (child_path p ''fields'') (fst q) in
          check_schema defs (fs_schema (snd q)) fp st (k + 1) = Inr () \<and>
          (\<forall>d. fs_default (snd q) = Some d \<longrightarrow>
             (\<exists>w. validate_at defs (fs_schema (snd q)) d (child_path fp ''default'') 0 = Inr w)))
     | KList items _ \<Rightarrow> check_schema defs items (child_path p ''items'') st (k + 1) = Inr ()
     | _ \<Rightarrow> True)"
proof (cases "ts_kind s")
  case (KObject fs)
  then show ?thesis
    by (subst check_schema.simps, simp add: collect_unit max_schema_depth_def terr_def)
      (auto simp: sbind_Inr_iff Let_def split: option.splits)
qed (subst check_schema.simps; auto simp: max_schema_depth_def terr_def split: option.split)+

lemma checked_le: "checked defs k s \<Longrightarrow> k \<le> 32"
  by (auto simp: checked_def check_schema_ok)

lemma checked_resolve:
  assumes "checked defs k s"
  obtains kind n k' where "resolve defs s = Inr (kind, n)" "k \<le> k'" "k' \<le> 32" "checked_parts defs (k' + 1) kind"
proof -
  have main: "\<exists>kind n k'. resolve_loop left defs s nb = Inr (kind, n) \<and> k \<le> k' \<and> k' \<le> 32 \<and> checked_parts defs (k' + 1) kind"
    if "check_schema defs s p st k = Inr ()" "32 \<le> left + k" for left nb p st
    using that
  proof (induction left defs s nb arbitrary: k p st rule: resolve_loop.induct)
    case (1 left defs cur nullable)
    from 1(2) have k: "k \<le> 32" by (simp add: check_schema_ok)
    show ?case
    proof (cases "ts_kind cur")
      case (KRef name)
      with 1(2) obtain t where t: "map_of defs name = Some t"
        and sub: "check_schema defs t p (st @ [name]) (k + 1) = Inr ()"
        by (subst (asm) check_schema_ok) auto
      from sub have "k + 1 \<le> 32" by (simp add: check_schema_ok)
      with 1(3) obtain left' where left: "left = Suc left'" by (cases left) auto
      with 1(3) have "32 \<le> left' + (k + 1)" by simp
      from 1(1) [OF KRef left t sub this] show ?thesis
        using KRef left t by (subst resolve_loop.simps) (auto intro: Suc_leD)
    next
      case (KObject fs)
      with 1(2) have "checked_parts defs (k + 1) (KObject fs)"
        by (subst (asm) check_schema_ok) (auto simp: checked_parts_def checked_def Let_def validate_iff)
      then show ?thesis using KObject k by (subst resolve_loop.simps) auto
    next
      case (KList items mx)
      with 1(2) have "checked_parts defs (k + 1) (KList items mx)"
        by (subst (asm) check_schema_ok) (auto simp: checked_parts_def checked_def)
      then show ?thesis using KList k by (subst resolve_loop.simps) auto
    qed (use k in \<open>subst resolve_loop.simps; auto simp: checked_parts_def\<close>)+
  qed
  obtain p st where "check_schema defs s p st k = Inr ()" using assms by (auto simp: checked_def)
  from main [OF this, of 32 "ts_nullable s"] show thesis
    using that by (auto simp: resolve_def max_schema_depth_def)
qed

lemma checked_list:
  assumes "checked defs k s" "resolve defs s = Inr (KList items mx, n)"
  obtains k' where "k \<le> k'" "k' \<le> 32" "checked defs (k' + 1) items"
  by (rule checked_resolve [OF assms(1)]) (use assms(2) that in \<open>auto simp: checked_parts_def\<close>)

lemma checked_object:
  assumes "checked defs k s" "resolve defs s = Inr (KObject fs, n)"
  obtains k' where "k \<le> k'" "k' \<le> 32" "\<And>q. q \<in> set fs \<Longrightarrow> checked defs (k' + 1) (fs_schema (snd q))"
    "\<And>q d. q \<in> set fs \<Longrightarrow> fs_default (snd q) = Some d \<Longrightarrow> \<exists>w. valid defs 0 (fs_schema (snd q)) d w"
proof (rule checked_resolve [OF assms(1)])
  fix kind n' k' assume "resolve defs s = Inr (kind, n')" "k \<le> k'" "k' \<le> 32" "checked_parts defs (k' + 1) kind"
  with assms(2) have "checked_parts defs (k' + 1) (KObject fs)" by simp
  then show thesis using \<open>k \<le> k'\<close> \<open>k' \<le> 32\<close> by (intro that [of k']) (auto simp: checked_parts_def)
qed

section \<open>Properties of every object schema\<close>

fun all_fields :: "((string \<times> field_schema) list \<Rightarrow> bool) \<Rightarrow> type_schema \<Rightarrow> bool"
and all_kind :: "((string \<times> field_schema) list \<Rightarrow> bool) \<Rightarrow> type_kind \<Rightarrow> bool"
and all_field :: "((string \<times> field_schema) list \<Rightarrow> bool) \<Rightarrow> field_schema \<Rightarrow> bool" where
  "all_fields P (TypeSchema k n) \<longleftrightarrow> all_kind P k"
| "all_kind P (KObject fs) \<longleftrightarrow> P fs \<and> (\<forall>q \<in> set fs. all_field P (snd q))"
| "all_kind P (KList items mx) \<longleftrightarrow> all_fields P items"
| "all_kind P _ \<longleftrightarrow> True"
| "all_field P (FieldSchema s opt d) \<longleftrightarrow> all_fields P s"

lemma all_field_schema: "all_field P f \<longleftrightarrow> all_fields P (fs_schema f)"
  by (cases f) simp

lemma all_fields_kind: "all_fields P s \<longleftrightarrow> all_kind P (ts_kind s)"
  by (cases s) simp

definition objects_ok ::
  "((string \<times> field_schema) list \<Rightarrow> bool) \<Rightarrow> type_defs \<Rightarrow> type_schema \<Rightarrow> bool" where
  "objects_ok P defs s \<longleftrightarrow> all_fields P s \<and> (\<forall>q \<in> set defs. all_fields P (snd q))"

lemma objects_resolve:
  assumes "objects_ok P defs s" "resolve defs s = Inr (kind, n)"
  shows "all_kind P kind"
proof -
  have "all_kind P k"
    if "resolve_loop left defs cur nb = Inr (k, n)" "all_fields P cur" "\<forall>q \<in> set defs. all_fields P (snd q)"
    for left cur nb k n
    using that
  proof (induction left defs cur nb rule: resolve_loop.induct)
    case (1 left defs cur nullable)
    show ?case
    proof (cases "ts_kind cur")
      case (KRef name)
      then obtain left' t where left: "left = Suc left'" and t: "map_of defs name = Some t"
        and res: "resolve_loop left' defs t (nullable \<or> ts_nullable t) = Inr (k, n)"
        using 1(2) by (subst (asm) resolve_loop.simps) (auto simp: terr_def split: nat.splits option.splits)
      from t 1(4) have "all_fields P t" by (force dest: map_of_SomeD)
      then show ?thesis by (rule 1(1) [OF KRef left t res _ 1(4)])
    qed (use 1 in \<open>subst (asm) resolve_loop.simps; auto simp: all_fields_kind\<close>)+
  qed
  then show ?thesis using assms unfolding resolve_def objects_ok_def by blast
qed

lemma objects_object:
  assumes "objects_ok P defs s" "resolve defs s = Inr (KObject fs, n)"
  shows "P fs" "q \<in> set fs \<Longrightarrow> objects_ok P defs (fs_schema (snd q))"
  using objects_resolve [OF assms] assms(1) by (auto simp: objects_ok_def all_field_schema)

lemma objects_list:
  assumes "objects_ok P defs s" "resolve defs s = Inr (KList items mx, n)"
  shows "objects_ok P defs items"
  using objects_resolve [OF assms] assms(1) by (auto simp: objects_ok_def)

text \<open>The values of an object are contributed by its fields.\<close>

lemma in_parts:
  assumes "list_all2 (field_part R m) fs parts" "(name, y) \<in> set (concat parts)"
  obtains f x where "(name, f) \<in> set fs" "field_source m name f = Some x" "R (fs_schema f) x y"
proof -
  from assms(2) obtain part where "part \<in> set parts" and y: "(name, y) \<in> set part" by auto
  then obtain i where i: "i < length parts" "parts ! i = part" by (auto simp: in_set_conv_nth)
  with assms(1) have "field_part R m (fs ! i) part" "fs ! i \<in> set fs"
    by (auto simp: list_all2_conv_all_nth)
  with y that show thesis by (cases "fs ! i") (auto simp: field_part_def split: option.splits)
qed

lemma keys_parts:
  assumes "list_all2 (field_part R m) fs parts"
  shows "fst ` set (concat parts) \<subseteq> fst ` set fs"
proof
  fix key assume "key \<in> fst ` set (concat parts)"
  then obtain y where "(key, y) \<in> set (concat parts)" by (metis imageE prod.collapse)
  from in_parts [OF assms this] show "key \<in> fst ` set fs" by (metis fst_conv image_eqI)
qed

lemma leaf_depth: "leaf_valid k v w \<Longrightarrow> jdepth w = 1 \<and> jdepth v = 1"
  by (cases k; cases v) auto

lemma jdepth_plus:
  "d < n \<Longrightarrow> jdepth v + d \<le> n \<longleftrightarrow> (\<forall>c \<in> set (json_children v). jdepth c + (d + 1) \<le> n)"
  using jdepth_le [of v "n - d - 1"] by auto

text \<open>Under a checked schema a valid value is never deeper than the bound, so any JSON type takes it.\<close>

lemma valid_depth:
  "valid defs d s v w \<Longrightarrow> checked defs k s \<Longrightarrow> d \<le> k + 1 \<Longrightarrow> jdepth w + d \<le> 64"
proof (induction arbitrary: k rule: valid.induct)
  case (null d s kind)
  then show ?case using checked_le [of defs k s] by simp
next
  case (leaf d s kind n v w)
  then show ?case using checked_le [of defs k s] leaf_depth [of kind v w] by simp
next
  case (arr d s items mx n xs ys)
  obtain k' where k': "k \<le> k'" "k' \<le> 32" "checked defs (k' + 1) items"
    by (rule checked_list [OF arr(5,2)])
  have "jdepth y + (d + 1) \<le> 64" if "y \<in> set ys" for y
  proof -
    from that obtain i where "i < length ys" "y = ys ! i" by (auto simp: in_set_conv_nth)
    with arr(4) have "\<forall>k. checked defs k items \<longrightarrow> d + 1 \<le> k + 1 \<longrightarrow> jdepth y + (d + 1) \<le> 64"
      by (simp add: list_all2_conv_all_nth)
    then show ?thesis using k' arr(6) by auto
  qed
  then show ?case using k' arr(6) by (subst jdepth_plus) auto
next
  case (obj d s fs n m parts)
  obtain k' where k': "k \<le> k'" "k' \<le> 32" "\<And>q. q \<in> set fs \<Longrightarrow> checked defs (k' + 1) (fs_schema (snd q))"
    by (rule checked_object [OF obj(5,2)]) blast
  have "jdepth y + (d + 1) \<le> 64" if y: "(name, y) \<in> set (concat parts)" for name y
  proof -
    obtain f where f: "(name, f) \<in> set fs"
      and depth: "\<forall>k. checked defs k (fs_schema f) \<longrightarrow> d + 1 \<le> k + 1 \<longrightarrow> jdepth y + (d + 1) \<le> 64"
      by (rule in_parts [OF obj(4) y]) blast
    from k'(3) [OF f] have "checked defs (k' + 1) (fs_schema f)" by simp
    with depth k' obj(6) show ?thesis by simp
  qed
  then have "\<forall>c \<in> set (json_children (JObj (concat parts))). jdepth c + (d + 1) \<le> 64" by fastforce
  then show ?case using k'(1,2) obj(6) by (subst jdepth_plus) auto
qed simp

text \<open>
  Values no deeper than 32 are valid at every depth a checked schema has, provided the defaults
  that may be filled in are no deeper either.
\<close>

definition shallow :: "(string \<times> field_schema) list \<Rightarrow> bool" where
  "shallow fs \<longleftrightarrow> (\<forall>q \<in> set fs. \<forall>d. fs_default (snd q) = Some d \<longrightarrow> jdepth d \<le> 32)"

lemma source_depth:
  assumes "field_source m name f = Some x" "jdepth (JObj m) \<le> 32" "shallow fs" "(name, f) \<in> set fs"
  shows "jdepth x \<le> 32"
proof (cases "map_of m name")
  case None
  with assms show ?thesis by (auto simp: field_source_def shallow_def)
next
  case (Some y)
  with assms(1) have "x \<in> set (json_children (JObj m))"
    by (auto simp: field_source_def dest: map_of_SomeD intro: rev_image_eqI)
  with assms(2) jdepth_le [of "JObj m" 31] show ?thesis by auto
qed

lemma valid_any_depth:
  "valid defs e s v w \<Longrightarrow> checked defs k s \<Longrightarrow> d \<le> k \<Longrightarrow> jdepth v \<le> 32 \<Longrightarrow> objects_ok shallow defs s \<Longrightarrow>
   valid defs d s v w"
proof (induction arbitrary: k d rule: valid.induct)
  case (null e s kind)
  then show ?case using checked_le [of defs k s] by (auto intro: valid.null)
next
  case (leaf e s kind n v w)
  then show ?case using checked_le [of defs k s] by (auto intro: valid.leaf)
next
  case (any s n v e)
  then show ?case using checked_le [of defs k s] by (auto intro: valid.any)
next
  case (arr e s items mx n xs ys)
  obtain k' where k': "k \<le> k'" "k' \<le> 32" "checked defs (k' + 1) items"
    by (rule checked_list [OF arr(5,2)])
  have x: "jdepth x \<le> 32" if "x \<in> set xs" for x
    using arr(7) jdepth_le [of "JArr xs" 31] that by auto
  have "list_all2 (valid defs (d + 1) items) xs ys"
    using arr(4) k' arr(6) x objects_list [OF arr(8) arr(2)] by (auto simp: list_all2_conv_all_nth)
  then show ?case using k' arr(6) by (intro valid.arr [OF _ arr(2,3)]) auto
next
  case (obj e s fs n m parts)
  obtain k' where k': "k \<le> k'" "k' \<le> 32" "\<And>q. q \<in> set fs \<Longrightarrow> checked defs (k' + 1) (fs_schema (snd q))"
    by (rule checked_object [OF obj(5,2)]) blast
  note sh = objects_object [OF obj(8,2)]
  have "field_part (valid defs (d + 1)) m q part"
    if q: "q \<in> set fs" and part: "field_part (\<lambda>s x y. valid defs (e + 1) s x y \<and>
      (\<forall>k d. checked defs k s \<longrightarrow> d \<le> k \<longrightarrow> jdepth x \<le> 32 \<longrightarrow> objects_ok shallow defs s \<longrightarrow> valid defs d s x y)) m q part"
    for q part
  proof (cases "field_source m (fst q) (snd q)")
    case None
    with part show ?thesis by (simp add: field_part_def)
  next
    case (Some x)
    have "jdepth x \<le> 32" using source_depth [OF Some obj(7) sh(1)] q by simp
    moreover note k'(3) [OF q]
    ultimately show ?thesis
      using part Some sh(2) [OF q] k' obj(6) by (auto simp: field_part_def)
  qed
  then have "list_all2 (field_part (valid defs (d + 1)) m) fs parts"
    using obj(4) by (auto simp: list_all2_conv_all_nth)
  then show ?case using k' obj(6) by (intro valid.obj [OF _ obj(2,3)]) auto
qed

section \<open>Assignability is sound\<close>

definition field_fits ::
  "(type_schema \<Rightarrow> type_schema \<Rightarrow> bool) \<Rightarrow> (string \<times> field_schema) list \<Rightarrow> string \<times> field_schema \<Rightarrow> bool" where
  "field_fits R sf q \<longleftrightarrow>
     (case map_of sf (fst q) of
        Some f \<Rightarrow> \<not> (may_be_absent f \<and> needs_value (snd q)) \<and> R (fs_schema f) (fs_schema (snd q))
      | None \<Rightarrow> \<not> needs_value (snd q))"

definition kinds_fit :: "(type_schema \<Rightarrow> type_schema \<Rightarrow> bool) \<Rightarrow> type_kind \<Rightarrow> type_kind \<Rightarrow> bool" where
  [simp]: "kinds_fit R sk dk \<longleftrightarrow>
     (case sk of
        KBoolean \<Rightarrow> dk = KBoolean
      | KInt64 \<Rightarrow> dk = KInt64
      | KUnit \<Rightarrow> dk = KUnit
      | KFloat64 slo shi \<Rightarrow>
          (case dk of
             KFloat64 dlo dhi \<Rightarrow> opt_within (\<lambda>s d. f64_le d s) slo dlo \<and> opt_within f64_le shi dhi
           | _ \<Rightarrow> False)
      | KString sl \<Rightarrow> (case dk of KString dl \<Rightarrow> opt_within (\<le>) sl dl | _ \<Rightarrow> False)
      | KEnum sv \<Rightarrow> (case dk of KEnum dv \<Rightarrow> set sv \<subseteq> set dv | _ \<Rightarrow> False)
      | KList si sl \<Rightarrow> (case dk of KList di dl \<Rightarrow> opt_within (\<le>) sl dl \<and> R si di | _ \<Rightarrow> False)
      | KObject sf \<Rightarrow>
          (case dk of
             KObject df \<Rightarrow> fst ` set sf \<subseteq> fst ` set df \<and> (\<forall>q \<in> set df. field_fits R sf q)
           | _ \<Rightarrow> False)
      | _ \<Rightarrow> False)"

lemma assignable_object:
  "sbind (collect (\<lambda>(name, dfield).
       case map_of sf name of
         Some sfield \<Rightarrow>
           if may_be_absent sfield \<and> needs_value dfield
           then terr MissingField (child_path path name) (Describe (fs_schema dfield)) (Plain ''optional field'')
           else F (fs_schema sfield) (fs_schema dfield) (child_path path name)
       | None \<Rightarrow>
           if needs_value dfield
           then terr MissingField (child_path path name) (Describe (fs_schema dfield)) (Plain ''absent'')
           else Inr ()) df) (\<lambda>_. Inr ()) = Inr () \<Longrightarrow>
   q \<in> set df \<Longrightarrow> field_fits (\<lambda>s t. \<exists>p. F s t p = Inr ()) sf q"
  unfolding collect_unit
  by (cases q) (fastforce simp: field_fits_def terr_def split: option.splits if_splits)

lemma assignable_cases:
  assumes "assignable_at sd src dd dst p j = Inr ()"
  obtains sk sn dk dn where "resolve sd src = Inr (sk, sn)" "resolve dd dst = Inr (dk, dn)"
    "dk = KJson \<or> (sn \<longrightarrow> dn) \<and> kinds_fit (\<lambda>s t. \<exists>q. assignable_at sd s dd t q (j + 1) = Inr ()) sk dk"
proof -
  from assms have j: "j \<le> 32"
    by (subst (asm) assignable_at.simps) (simp add: max_schema_depth_def terr_def split: if_splits)
  obtain sk sn where src: "resolve sd src = Inr (sk, sn)"
    using assms j by (subst (asm) assignable_at.simps)
      (cases "resolve sd src"; auto simp: max_schema_depth_def Let_def sbind_def [of "Inl _"])
  obtain dk dn where "resolve dd dst = Inr (dk, dn)"
    using assms j src by (subst (asm) assignable_at.simps)
      (cases "resolve dd dst"; auto simp: max_schema_depth_def Let_def sbind_def [of "Inl _"] sbind_def [of "Inr _"])
  note res = src this
  note step = assms [unfolded assignable_at.simps [of sd src] res sbind_def [of "Inr _"] sum.case prod.case
      Let_def, simplified max_schema_depth_def]
  have nullable: "dk = KJson \<or> (sn \<longrightarrow> dn)"
    using step j by (auto simp: terr_def split: if_splits)
  have "kinds_fit (\<lambda>s t. \<exists>q. assignable_at sd s dd t q (j + 1) = Inr ()) sk dk" if json: "dk \<noteq> KJson"
  proof (cases sk)
    case (KObject sf)
    show ?thesis
    proof (cases dk)
      case df: (KObject df)
      show ?thesis
        using step j KObject df nullable
        by (auto simp: terr_def find_None_subset image_subset_iff split: if_splits option.splits
          dest: assignable_object)
    qed (use step j json KObject nullable in \<open>auto simp: terr_def\<close>)
  qed (use step j json nullable in \<open>cases dk; auto simp: terr_def split: if_splits\<close>)+
  then show thesis using that res nullable by blast
qed

lemma opt_withinD: "opt_within le s d \<Longrightarrow> d = Some y \<Longrightarrow> \<exists>x. s = Some x \<and> le x y"
  by (auto simp: opt_within_def split: option.splits)

lemma int64_of_int: "int64_of v = Inr i \<Longrightarrow> int64_of (JNum (num_of_i64 i)) = Inr i"
proof -
  assume "int64_of v = Inr i"
  then have "in_i64 i"
    by (cases v) (auto split: if_splits option.splits dest: num_as_i64_range)
  then show ?thesis by (simp add: num_as_of_i64)
qed

lemma leaf_fits:
  assumes "leaf_valid sk v w" "kinds_fit R sk dk"
  shows "leaf_valid dk w w"
proof (cases sk)
  case (KFloat64 slo shi)
  with assms(2) obtain dlo dhi where dk: "dk = KFloat64 dlo dhi"
    and fits: "opt_within (\<lambda>s d. f64_le d s) slo dlo" "opt_within f64_le shi dhi" by (cases dk) auto
  from assms(1) KFloat64 obtain n f where w: "w = v" "v = JNum n" "float_of n = Some f" "f64_finite f"
    "\<forall>l. slo = Some l \<longrightarrow> f64_le l f" "\<forall>h. shi = Some h \<longrightarrow> f64_le f h" by auto
  have "f64_le l f" if "dlo = Some l" for l
    using opt_withinD [OF fits(1) that] w(5) by (auto simp: f64_le_def)
  moreover have "f64_le f h" if "dhi = Some h" for h
    using opt_withinD [OF fits(2) that] w(6) by (auto simp: f64_le_def)
  ultimately show ?thesis using dk w by auto
next
  case (KString sl)
  with assms(2) obtain dl where dk: "dk = KString dl" "opt_within (\<le>) sl dl" by (cases dk) auto
  from assms(1) KString obtain s where s: "w = v" "v = JStr s" "\<forall>n. sl = Some n \<longrightarrow> char_count s \<le> unat n"
    by auto
  have "char_count s \<le> unat n" if "dl = Some n" for n
    using opt_withinD [OF dk(2) that] s(3) by (auto simp: word_le_nat_alt)
  then show ?thesis using dk s by simp
next
  case KInt64
  with assms(2) have dk: "dk = KInt64" by (cases dk) auto
  from assms(1) KInt64 obtain i where "int64_of v = Inr i" and w: "w = JNum (num_of_i64 i)" by auto
  with int64_of_int have "int64_of w = Inr i" by blast
  with w dk show ?thesis by (auto simp del: int64_of.simps)
next
  case (KEnum sv)
  with assms(2) obtain dv where "dk = KEnum dv" "set sv \<subseteq> set dv" by (cases dk) auto
  with assms(1) KEnum show ?thesis by auto
next
  case KBoolean
  with assms show ?thesis by (cases dk) auto
next
  case KUnit
  with assms show ?thesis by (cases dk) auto
qed (use assms in auto)

lemma leaf_kind: "leaf_valid k v w \<Longrightarrow> v \<noteq> JNull \<or> k = KUnit \<Longrightarrow> w \<noteq> JNull \<or> k = KUnit"
  by (cases k) auto

lemma needs_value_source:
  assumes "field_fits R sf q"
    and part: "list_all2 (field_part S m) sf parts" and m': "m' = concat parts"
    and none: "map_of m' (fst q) = None"
  shows "fs_default (snd q) \<noteq> None \<or> fs_optional (snd q)"
proof (cases "map_of sf (fst q)")
  case None
  with assms(1) show ?thesis by (auto simp: field_fits_def needs_value_def)
next
  case (Some f)
  then obtain i where i: "i < length sf" "sf ! i = (fst q, f)"
    using map_of_SomeD [OF Some] by (auto simp: in_set_conv_nth)
  with part have p: "field_part S m (fst q, f) (parts ! i)" "i < length parts"
    by (auto simp: list_all2_conv_all_nth dest: spec [of _ i])
  have "parts ! i = []"
  proof (rule ccontr)
    assume "parts ! i \<noteq> []"
    with p(1) obtain y where "(fst q, y) \<in> set (parts ! i)" by (auto simp: field_part_def split: option.splits)
    with p(2) have "(fst q, y) \<in> set m'" unfolding m' by (auto intro!: bexI [of _ "parts ! i"])
    with none show False by (force simp: map_of_eq_None_iff)
  qed
  with p(1) have "may_be_absent f"
    by (auto simp: field_part_def may_be_absent_def field_source_def split: option.splits)
  with Some assms(1) show ?thesis by (auto simp: field_fits_def needs_value_def)
qed

definition distinct_fields :: "(string \<times> field_schema) list \<Rightarrow> bool" where
  "distinct_fields fs \<longleftrightarrow> distinct (map fst fs)"

text \<open>One field of the target, given what the source fields contributed.\<close>

lemma assign_field:
  assumes parts: "list_all2 (field_part S m) fs parts" and dist: "distinct_fields fs"
    and fits: "field_fits R fs q"
    and sub: "\<And>f x y. S (fs_schema f) x y \<Longrightarrow> (fst q, f) \<in> set fs \<Longrightarrow> R (fs_schema f) (fs_schema (snd q)) \<Longrightarrow>
      \<exists>w. V (fs_schema (snd q)) y w"
    and dflt: "\<And>d. fs_default (snd q) = Some d \<Longrightarrow> \<exists>w. V (fs_schema (snd q)) d w"
  shows "\<exists>part. field_part V (concat parts) q part"
proof (cases "map_of (concat parts) (fst q)")
  case None
  then show ?thesis
    using needs_value_source [OF fits parts refl None] dflt
    by (cases "fs_default (snd q)") (auto simp: field_part_def field_source_def)
next
  case (Some y)
  then obtain f x where f: "(fst q, f) \<in> set fs" "S (fs_schema f) x y"
    using in_parts [OF parts] by (metis map_of_SomeD)
  have "map_of fs (fst q) = Some f" using f(1) dist by (simp add: distinct_fields_def)
  with fits have "R (fs_schema f) (fs_schema (snd q))" by (simp add: field_fits_def)
  with sub [OF f(2,1)] Some show ?thesis by (auto simp: field_part_def field_source_def)
qed

lemma assign_valid:
  "valid sd d s v v' \<Longrightarrow> assignable_at sd s dd t p j = Inr () \<Longrightarrow> checked sd k s \<Longrightarrow> checked dd l t \<Longrightarrow>
   d \<le> k + 1 \<Longrightarrow> d \<le> l \<Longrightarrow> objects_ok distinct_fields sd s \<Longrightarrow> objects_ok shallow dd t \<Longrightarrow>
   \<exists>w. valid dd d t v' w"
proof (induction arbitrary: t p j k l rule: valid.induct)
  case (null d s kind)
  obtain dk dn where dk: "resolve dd t = Inr (dk, dn)"
    "dk = KJson \<or> dn \<and> kinds_fit (\<lambda>s t. \<exists>q. assignable_at sd s dd t q (j + 1) = Inr ()) kind dk"
    by (rule assignable_cases [OF null(5)]) (use null(2) in auto)
  have "valid dd d t JNull JNull"
  proof (cases "dk = KJson")
    case True
    with dk null(8) checked_le [OF null(6)] show ?thesis by (intro valid.any) auto
  next
    case False
    with dk(2) null(3) have "dk \<noteq> KUnit" "dn" by (cases kind; auto)+
    with False dk null(1) show ?thesis by (intro valid.null) auto
  qed
  then show ?case by blast
next
  case (leaf d s kind n v w)
  obtain dk dn where dk: "resolve dd t = Inr (dk, dn)"
    "dk = KJson \<or> kinds_fit (\<lambda>s t. \<exists>q. assignable_at sd s dd t q (j + 1) = Inr ()) kind dk"
    by (rule assignable_cases [OF leaf(5)]) (use leaf(2) in auto)
  show ?case
  proof (cases "dk = KJson")
    case True
    have "jdepth w + d \<le> 64" using leaf_depth [OF leaf(4)] checked_le [OF leaf(6)] leaf(8) by simp
    with True dk show ?thesis by (blast intro: valid.any)
  next
    case False
    with dk leaf_fits [OF leaf(4)] have "leaf_valid dk w w" by blast
    moreover have "w \<noteq> JNull \<or> dk = KUnit"
      using leaf_kind [OF leaf(4,3)] dk(2) False by (cases dk) auto
    ultimately show ?thesis using dk(1) leaf(1) by (blast intro: valid.leaf)
  qed
next
  case (any s n v d)
  obtain dk dn where dk: "resolve dd t = Inr (dk, dn)"
    "dk = KJson \<or> kinds_fit (\<lambda>s t. \<exists>q. assignable_at sd s dd t q (j + 1) = Inr ()) KJson dk"
    by (rule assignable_cases [OF any(3)]) (use any(1) in auto)
  then have "dk = KJson" by (cases dk) auto
  with dk any(2) show ?case by (blast intro: valid.any)
next
  case (arr d s items mx n xs ys)
  have arr': "valid sd d s (JArr xs) (JArr ys)"
    by (rule valid.arr [OF arr(1-3)]) (use arr(4) in \<open>auto elim: list_all2_mono\<close>)
  obtain dk dn where dk: "resolve dd t = Inr (dk, dn)"
    "dk = KJson \<or> kinds_fit (\<lambda>s t. \<exists>q. assignable_at sd s dd t q (j + 1) = Inr ()) (KList items mx) dk"
    by (rule assignable_cases [OF arr(5)]) (use arr(2) in auto)
  show ?case
  proof (cases "dk = KJson")
    case True
    then show ?thesis using dk valid_depth [OF arr' arr(6,8)] by (blast intro: valid.any)
  next
    case False
    with dk(2) obtain di dl q where di: "dk = KList di dl" "opt_within (\<le>) mx dl"
      "assignable_at sd items dd di q (j + 1) = Inr ()" by (cases dk) auto
    obtain k' where k': "k \<le> k'" "k' \<le> 32" "checked sd (k' + 1) items" by (rule checked_list [OF arr(6,2)])
    note rt = dk(1) [unfolded di(1)]
    obtain l' where l': "l \<le> l'" "l' \<le> 32" "checked dd (l' + 1) di" by (rule checked_list [OF arr(7) rt])
    have "\<exists>w. valid dd (d + 1) di y w" if y: "y \<in> set ys" for y
    proof -
      from y obtain i where i: "i < length ys" "y = ys ! i" by (auto simp: in_set_conv_nth)
      from list_all2_nthD2 [OF arr(4) i(1)] i(2) have "assignable_at sd items dd t p j = Inr () \<Longrightarrow> checked sd k items \<Longrightarrow>
        checked dd l t \<Longrightarrow> d + 1 \<le> k + 1 \<Longrightarrow> d + 1 \<le> l \<Longrightarrow> objects_ok distinct_fields sd items \<Longrightarrow>
        objects_ok shallow dd t \<Longrightarrow> (\<exists>w. valid dd (d + 1) t y w)" for t p j k l
        by blast
      from this [OF di(3) k'(3) l'(3) _ _ objects_list [OF arr(10,2)] objects_list [OF arr(11) rt]]
      show ?thesis using k'(1) l'(1) arr(8,9) by simp
    qed
    then obtain f where f: "\<And>y. y \<in> set ys \<Longrightarrow> valid dd (d + 1) di y (f y)" by metis
    have len: "\<forall>m. dl = Some m \<longrightarrow> length ys \<le> unat m"
      using arr(3) opt_withinD [OF di(2)] list_all2_lengthD [OF arr(4)] by (fastforce simp: word_le_nat_alt)
    have "valid dd d t (JArr ys) (JArr (map f ys))"
      by (rule valid.arr [OF arr(1) rt len]) (use f in \<open>simp add: list_all2_conv_all_nth\<close>)
    then show ?thesis by blast
  qed
next
  case (obj d s fs n m parts)
  have obj': "valid sd d s (JObj m) (JObj (concat parts))"
    by (rule valid.obj [OF obj(1-3)]) (use obj(4) in \<open>auto elim!: list_all2_mono simp: field_part_def split: option.splits\<close>)
  obtain dk dn where dk: "resolve dd t = Inr (dk, dn)"
    "dk = KJson \<or> kinds_fit (\<lambda>s t. \<exists>q. assignable_at sd s dd t q (j + 1) = Inr ()) (KObject fs) dk"
    by (rule assignable_cases [OF obj(5)]) (use obj(2) in auto)
  show ?case
  proof (cases "dk = KJson")
    case True
    then show ?thesis using dk valid_depth [OF obj' obj(6,8)] by (blast intro: valid.any)
  next
    case False
    with dk(2) obtain df where df: "dk = KObject df" "fst ` set fs \<subseteq> fst ` set df"
      "\<forall>q \<in> set df. field_fits (\<lambda>s t. \<exists>p. assignable_at sd s dd t p (j + 1) = Inr ()) fs q" by (cases dk) auto
    note rt = dk(1) [unfolded df(1)]
    obtain k' where k': "k \<le> k'" "k' \<le> 32" "\<And>q. q \<in> set fs \<Longrightarrow> checked sd (k' + 1) (fs_schema (snd q))"
      by (rule checked_object [OF obj(6,2)]) blast
    obtain l' where l': "l \<le> l'" "l' \<le> 32" "\<And>q. q \<in> set df \<Longrightarrow> checked dd (l' + 1) (fs_schema (snd q))"
      "\<And>q d. q \<in> set df \<Longrightarrow> fs_default (snd q) = Some d \<Longrightarrow> \<exists>w. valid dd 0 (fs_schema (snd q)) d w"
      by (rule checked_object [OF obj(7) rt]) blast
    note src_ok = objects_object [OF obj(10,2)] and dst_ok = objects_object [OF obj(11) rt]
    have "\<exists>part. field_part (valid dd (d + 1)) (concat parts) q part" if q: "q \<in> set df" for q
    proof (rule assign_field [OF obj(4) src_ok(1) df(3) [rule_format, OF q]], goal_cases)
      case (1 f x y)
      moreover have "d + 1 \<le> k' + 1 + 1" "d + 1 \<le> l' + 1" using k'(1) l'(1) obj(8,9) by auto
      moreover have "checked sd (k' + 1) (fs_schema f)" "objects_ok distinct_fields sd (fs_schema f)"
        using k'(3) [OF 1(2)] src_ok(2) [OF 1(2)] by auto
      ultimately show ?case using l'(3) [OF q] dst_ok(2) [OF q] by blast
    next
      case (2 dv)
      obtain w where "valid dd 0 (fs_schema (snd q)) dv w" using l'(4) [OF q 2] by blast
      moreover have "jdepth dv \<le> 32" using dst_ok(1) q 2 by (auto simp: shallow_def)
      moreover have "d + 1 \<le> l' + 1" using l'(1) obj(9) by simp
      ultimately show ?case
        using valid_any_depth [OF _ l'(3) [OF q] _ _ dst_ok(2) [OF q]] by blast
    qed
    then obtain part where part: "\<And>q. q \<in> set df \<Longrightarrow> field_part (valid dd (d + 1)) (concat parts) q (part q)"
      by metis
    have "fst ` set (concat parts) \<subseteq> fst ` set df" using keys_parts [OF obj(4)] df(2) by blast
    then have "valid dd d t (JObj (concat parts)) (JObj (concat (map part df)))"
      by (rule valid.obj [OF obj(1) rt]) (use part in \<open>simp add: list_all2_conv_all_nth\<close>)
    then show ?thesis by blast
  qed
qed

lemma check_checked: "check_schema_at defs s p = Inr () \<Longrightarrow> checked defs 0 s"
  by (auto simp: check_schema_at_def checked_def)

text \<open>C25. Assignability is sound: if the source and the target type pass the declaration check and
  the source is assignable to the target, every value that validates as the source type, with its
  defaults filled in, validates as the target type too. The target's defaults may be at most 32
  levels deep.\<close>

theorem assignable_sound:
  assumes "check_assignable sd src dd dst = Inr ()"
    and "check_schema_at sd src p = Inr ()" and "check_schema_at dd dst q = Inr ()"
    and "objects_ok distinct_fields sd src" and "objects_ok shallow dd dst"
    and "validate_at sd src v path 0 = Inr v'"
  shows "\<exists>w. validate_at dd dst v' path' 0 = Inr w"
proof -
  have "valid sd 0 src v v'" using assms(6) by (simp add: validate_iff)
  then show ?thesis
    using assign_valid [OF _ assms(1) [unfolded check_assignable_def] check_checked [OF assms(2)]
      check_checked [OF assms(3)] le0 le0 assms(4,5)]
    by (simp add: validate_iff)
qed

definition src_report :: type_schema where
  "src_report = plain_schema (KObject
     [(''count'', FieldSchema int64_schema False None),
      (''note'', FieldSchema (plain_schema (KString (Some 20))) True (Some (JStr ''none'')))])"

definition dst_report :: type_schema where
  "dst_report = plain_schema (KObject
     [(''count'', FieldSchema (TypeSchema KInt64 True) False None),
      (''level'', FieldSchema (plain_schema (KEnum [''low'', ''high''])) False (Some (JStr ''low''))),
      (''note'', FieldSchema string_schema False None)])"

definition report_value :: json where
  "report_value = JObj [(''count'', JStr ''-7'')]"

theorem assignable_sound_witness:
  "validate_at [] src_report report_value [] 0 =
     Inr (JObj [(''count'', JNum (NegInt (- 7))), (''note'', JStr ''none'')]) \<and>
   (\<exists>w. validate_at [] dst_report (JObj [(''count'', JNum (NegInt (- 7))), (''note'', JStr ''none'')]) [] 0 = Inr w)"
proof -
  have 1: "validate_at [] src_report report_value [] 0 =
     Inr (JObj [(''count'', JNum (NegInt (- 7))), (''note'', JStr ''none'')])" by code_simp
  have "check_assignable [] src_report [] dst_report = Inr ()"
    "check_schema_at [] src_report [] = Inr ()" "check_schema_at [] dst_report [] = Inr ()" by code_simp+
  moreover have "objects_ok distinct_fields [] src_report" "objects_ok shallow [] dst_report"
    by (simp_all add: objects_ok_def src_report_def dst_report_def plain_schema_def distinct_fields_def shallow_def)
  ultimately show ?thesis using 1 assignable_sound [OF _ _ _ _ _ 1] by blast
qed

end
