(* ===== verification/Task_Types_Codec.thy ===== *)
theory Task_Types_Codec
  imports Task_Types_Laws
begin

text \<open>
  Round trips of the value types: a validated value becomes a typed value that its wire form
  restores, integers through their decimal texts, and a schema is restored from its JSON form.
\<close>

section \<open>Integers as texts\<close>

lemma digit_char_0: "d < 10 \<Longrightarrow> d \<noteq> 0 \<Longrightarrow> digit_char d \<noteq> CHR ''0''"
proof
  assume d: "d < 10" "d \<noteq> 0" "digit_char d = CHR ''0''"
  then have "(of_char (digit_char d) :: nat) = 48" by simp
  with d(1,2) show False by (simp add: of_char_digit)
qed

lemma show_nat_leading: "n \<noteq> 0 \<Longrightarrow> hd (show_nat n) \<noteq> CHR ''0''"
proof (induction n rule: show_nat.induct)
  case (1 n)
  show ?case
  proof (cases "n < 10")
    case True
    with 1(2) show ?thesis by (subst show_nat.simps) (simp add: digit_char_0)
  next
    case False
    with 1 have "hd (show_nat (n div 10)) \<noteq> CHR ''0''" by simp
    with False show ?thesis by (subst show_nat.simps) (simp add: show_nat_nonempty)
  qed
qed

lemma show_nat_no_minus: "hd (show_nat n) \<noteq> CHR ''-''"
proof
  assume "hd (show_nat n) = CHR ''-''"
  moreover have "is_digit (hd (show_nat n))"
    using show_nat_digits [of n] show_nat_nonempty [of n] by (cases "show_nat n") auto
  ultimately show False by (simp add: is_digit_def)
qed

lemma show_nat_0: "show_nat 0 = ''0''"
  by code_simp

lemma show_int_canonical: "canonical_int (show_int i)" "i64_of_text (show_int i) = i"
proof -
  have nat: "canonical_int (show_nat n)" "i64_of_text (show_nat n) = int n" for n
    using show_nat_nonempty [of n] show_nat_digits [of n] show_nat_value [of n] show_nat_leading [of n]
      show_nat_no_minus [of n] show_nat_0
    by (cases "show_nat n"; cases "n = 0"; auto simp: canonical_int_def i64_of_text_def)+
  have neg: "canonical_int (CHR ''-'' # show_nat n)" "i64_of_text (CHR ''-'' # show_nat n) = - int n"
    if "n \<noteq> 0" for n
    using that show_nat_nonempty [of n] show_nat_digits [of n] show_nat_value [of n] show_nat_leading [of n]
    by (cases "show_nat n"; auto simp: canonical_int_def i64_of_text_def)+
  show "canonical_int (show_int i)" "i64_of_text (show_int i) = i"
    using nat [of "nat i"] neg [of "nat (- i)"] by (auto simp: show_int_def)
qed

lemma int64_of_text: "in_i64 i \<Longrightarrow> int64_of (JStr (show_int i)) = Inr i"
  by (simp add: show_int_canonical)

lemma int64_of_range: "int64_of v = Inr i \<Longrightarrow> in_i64 i"
  by (cases v) (auto split: if_splits option.splits dest: num_as_i64_range)

section \<open>Typed values and their wire form\<close>

lemma typed_arr:
  assumes "resolve defs s = Inr (KList items mx, n)"
  shows "typed_at defs s (JArr xs) p = Inr tv \<longleftrightarrow>
    (\<exists>ys. tv = TVList ys \<and> length ys = length xs \<and>
      (\<forall>i < length xs. typed_at defs items (xs ! i) (child_path p (show_nat i)) = Inr (ys ! i)))"
  using assms by (subst typed_at.simps)
    (auto simp: sbind_def [of "Inr _"] sbind_Inr_iff collect_Inr_iff list_all2_conv_all_nth nth_enumerate_eq)

lemma typed_obj:
  assumes "resolve defs s = Inr (KObject fs, n)"
  shows "typed_at defs s (JObj m) p = Inr tv \<longleftrightarrow>
    (\<exists>ys. tv = TVObject ys \<and> list_all2 (\<lambda>(name, x) (name', y). name' = name \<and>
      (\<exists>f. map_of fs name = Some f \<and> typed_at defs (fs_schema f) x (child_path p name) = Inr y)) m ys)"
proof -
  have "(case e of (name, x) \<Rightarrow> case map_of fs name of
            None \<Rightarrow> terr UnexpectedField (child_path p name) (Plain ''a declared field'') (Shown x)
          | Some field \<Rightarrow> sbind (typed_at defs (fs_schema field) x (child_path p name)) (\<lambda>y. Inr (name, y))) = Inr r
    \<longleftrightarrow> (case e of (name, x) \<Rightarrow> \<lambda>(name', y). name' = name \<and>
      (\<exists>f. map_of fs name = Some f \<and> typed_at defs (fs_schema f) x (child_path p name) = Inr y)) r" for e r
    by (cases e; cases r) (auto simp: terr_def sbind_Inr_iff split: option.split)
  then show ?thesis
    using assms by (subst typed_at.simps)
      (auto simp add: sbind_def [of "Inr _"] sbind_Inr_iff collect_Inr_iff)
qed

lemma typed_null: "typed_at defs s JNull p = Inr TVNull"
  by (subst typed_at.simps) simp

lemma typed_json: "resolve defs s = Inr (KJson, n) \<Longrightarrow> v \<noteq> JNull \<Longrightarrow> typed_at defs s v p = Inr (TVJson v)"
  by (subst typed_at.simps) (simp add: sbind_def)

text \<open>A typed value of one of the kinds without parts.\<close>

fun leaf_typed :: "type_kind \<Rightarrow> json \<Rightarrow> typed_value \<Rightarrow> bool" where
  "leaf_typed KBoolean v tv \<longleftrightarrow> (\<exists>b. v = JBool b \<and> tv = TVBool b)"
| "leaf_typed KInt64 v tv \<longleftrightarrow> (\<exists>i. int64_of v = Inr i \<and> tv = TVInt64 i)"
| "leaf_typed (KFloat64 _ _) v tv \<longleftrightarrow> (\<exists>n. v = JNum n \<and> tv = TVFloat64 n)"
| "leaf_typed (KString _) v tv \<longleftrightarrow> (\<exists>s. v = JStr s \<and> tv = TVString s)"
| "leaf_typed (KEnum _) v tv \<longleftrightarrow> (\<exists>s. v = JStr s \<and> tv = TVString s)"
| "leaf_typed KJson v tv \<longleftrightarrow> tv = TVJson v"
| "leaf_typed _ v tv \<longleftrightarrow> False"

lemma typed_leaf:
  assumes "resolve defs s = Inr (k, n)" "v \<noteq> JNull" "\<And>fs. k \<noteq> KObject fs" "\<And>items mx. k \<noteq> KList items mx"
  shows "typed_at defs s v p = Inr tv \<longleftrightarrow> leaf_typed k v tv"
  using assms by (subst typed_at.simps)
    (cases k; cases v; auto simp: sbind_def terr_def split: sum.splits simp del: int64_of.simps)

lemma typed_at_resolves:
  assumes "typed_at defs s v p = Inr tv" "v \<noteq> JNull"
  obtains k n where "resolve defs s = Inr (k, n)"
  using assms by (subst (asm) typed_at.simps) (cases "resolve defs s"; auto simp: sbind_def [of "Inl _"])

lemma typed_shape:
  assumes "typed_at defs s v p = Inr tv" "v \<noteq> JNull" "resolve defs s = Inr (k, n)"
  shows "k = KObject fs \<Longrightarrow> \<exists>m. v = JObj m" "k = KList items mx \<Longrightarrow> \<exists>xs. v = JArr xs"
  using assms by (subst (asm) typed_at.simps; cases v; simp add: sbind_def [of "Inr _"] terr_def)+

lemma leaf_wire: "leaf_typed k v tv \<Longrightarrow> v \<noteq> JNull \<Longrightarrow> to_wire tv \<noteq> JNull \<and> leaf_typed k (to_wire tv) tv"
  using int64_of_range int64_of_text by (cases k) (auto simp del: int64_of.simps)

text \<open>Reading back the wire form gives the same typed value, whatever the paths for errors.\<close>

lemma typed_wire:
  "typed_at defs s v p = Inr tv \<Longrightarrow> typed_at defs s (to_wire tv) q = Inr tv"
proof (induction "size v" arbitrary: s v p tv q rule: less_induct)
  case less
  show ?case
  proof (cases "v = JNull")
    case True
    with less.prems show ?thesis by (auto simp: typed_null)
  next
    case False
    obtain k n where res: "resolve defs s = Inr (k, n)" by (rule typed_at_resolves [OF less.prems False])
    consider (ob) fs where "k = KObject fs" | (ls) items mx where "k = KList items mx"
      | (lf) "\<And>fs. k \<noteq> KObject fs" "\<And>items mx. k \<noteq> KList items mx" by (cases k) auto
    then show ?thesis
    proof cases
      case lf
      with less.prems typed_leaf [OF res False] have "leaf_typed k v tv" by simp
      from leaf_wire [OF this False] show ?thesis using typed_leaf [OF res _ lf] by blast
    next
      case ls
      obtain xs where v: "v = JArr xs" using typed_shape(2) [OF less.prems False res ls] by blast
      note r = res [unfolded ls]
      obtain ys where ys: "tv = TVList ys" "length ys = length xs"
        "\<And>i. i < length xs \<Longrightarrow> typed_at defs items (xs ! i) (child_path p (show_nat i)) = Inr (ys ! i)"
        using less.prems unfolding v typed_arr [OF r] by blast
      have "size (xs ! i) < size v" if "i < length xs" for i
        using size_in_arr [of i "xs ! i" 0 xs] that v by (simp add: in_set_enumerate_eq)
      with less.hyps ys(3) have "typed_at defs items (to_wire (ys ! i)) (child_path q (show_nat i)) = Inr (ys ! i)"
        if "i < length xs" for i using that by blast
      then show ?thesis using ys(1,2) by (auto simp: typed_arr [OF r])
    next
      case ob
      obtain m where v: "v = JObj m" using typed_shape(1) [OF less.prems False res ob] by blast
      note r = res [unfolded ob]
      obtain ys where ys: "tv = TVObject ys" and all: "list_all2 (\<lambda>(name, x) (name', y). name' = name \<and>
          (\<exists>f. map_of fs name = Some f \<and> typed_at defs (fs_schema f) x (child_path p name) = Inr y)) m ys"
        using less.prems unfolding v typed_obj [OF r] by blast
      have "list_all2 (\<lambda>(name, x) (name', y). name' = name \<and>
          (\<exists>f. map_of fs name = Some f \<and> typed_at defs (fs_schema f) x (child_path q name) = Inr y))
        (map (\<lambda>(name, y). (name, to_wire y)) ys) ys"
        unfolding list_all2_conv_all_nth
      proof (intro conjI allI impI)
        fix i assume "i < length (map (\<lambda>(name, y). (name, to_wire y)) ys)"
        then have i: "i < length ys" "i < length m" using list_all2_lengthD [OF all] by auto
        obtain name x y where e: "m ! i = (name, x)" "ys ! i = (name, y)"
          and f: "\<exists>f. map_of fs name = Some f \<and> typed_at defs (fs_schema f) x (child_path p name) = Inr y"
          using list_all2_nthD2 [OF all i(1)] by (auto split: prod.splits)
        have "(name, x) \<in> set m" using e(1) i(2) by (metis nth_mem)
        from size_in_obj [OF this] have "size x < size v" by (simp add: v)
        with f less.hyps e i show "(case map (\<lambda>(name, y). (name, to_wire y)) ys ! i of (name, x) \<Rightarrow> \<lambda>(name', y).
            name' = name \<and> (\<exists>f. map_of fs name = Some f \<and> typed_at defs (fs_schema f) x (child_path q name) = Inr y))
            (ys ! i)" by auto
      qed simp
      then show ?thesis by (simp add: ys typed_obj [OF r])
    qed
  qed
qed

lemma leaf_valid_typed: "leaf_valid k v w \<Longrightarrow> w \<noteq> JNull \<Longrightarrow> \<exists>tv. leaf_typed k w tv \<and> to_internal tv = w"
proof (cases k)
  case KInt64
  assume "leaf_valid k v w"
  with KInt64 obtain i where "int64_of v = Inr i" and w: "w = JNum (num_of_i64 i)" by auto
  from int64_of_int [OF this(1)] show ?thesis by (intro exI [of _ "TVInt64 i"]) (simp add: KInt64 w)
next
  case (KFloat64 lo hi)
  assume "leaf_valid k v w"
  with KFloat64 obtain n where "w = JNum n" by auto
  then show ?thesis by (intro exI [of _ "TVFloat64 n"]) (simp add: KFloat64)
next
  case (KString mx)
  assume "leaf_valid k v w"
  with KString obtain s where "w = JStr s" by auto
  then show ?thesis by (intro exI [of _ "TVString s"]) (simp add: KString)
next
  case (KEnum vs)
  assume "leaf_valid k v w"
  with KEnum obtain s where "w = JStr s" by auto
  then show ?thesis by (intro exI [of _ "TVString s"]) (simp add: KEnum)
next
  case KBoolean
  assume "leaf_valid k v w"
  with KBoolean obtain b where "w = JBool b" by auto
  then show ?thesis by (intro exI [of _ "TVBool b"]) (simp add: KBoolean)
qed auto

lemma list_all2_self: "list_all2 R xs (map h xs) \<longleftrightarrow> (\<forall>x \<in> set xs. R x (h x))"
  by (induction xs) auto

text \<open>Every validated value has a typed form, whose internal form is the value.\<close>

lemma valid_typed:
  "valid defs d s v w \<Longrightarrow> objects_ok distinct_fields defs s \<Longrightarrow>
   \<exists>tv. typed_at defs s w p = Inr tv \<and> to_internal tv = w"
proof (induction arbitrary: p rule: valid.induct)
  case (null d s k)
  then show ?case by (intro exI [of _ TVNull]) (simp add: typed_null)
next
  case (leaf d s k n v w)
  show ?case
  proof (cases "w = JNull")
    case True
    then show ?thesis by (intro exI [of _ TVNull]) (simp add: typed_null)
  next
    case False
    have "\<And>fs. k \<noteq> KObject fs" "\<And>items mx. k \<noteq> KList items mx" using leaf(4) by (cases k; auto)+
    with leaf_valid_typed [OF leaf(4) False] typed_leaf [OF leaf(2) False] show ?thesis by blast
  qed
next
  case (any s n v d)
  show ?case
  proof (cases "v = JNull")
    case True
    then show ?thesis by (intro exI [of _ TVNull]) (simp add: typed_null)
  next
    case False
    then show ?thesis by (intro exI [of _ "TVJson v"]) (simp add: typed_json [OF any(1)])
  qed
next
  case (arr d s items mx n xs ys)
  have "\<exists>tv. typed_at defs items (ys ! i) (child_path p (show_nat i)) = Inr tv \<and> to_internal tv = ys ! i"
    if "i < length ys" for i
    using list_all2_nthD2 [OF arr(4) that] objects_list [OF arr(5,2)] by blast
  then obtain f where f: "\<And>i. i < length ys \<Longrightarrow>
      typed_at defs items (ys ! i) (child_path p (show_nat i)) = Inr (f i) \<and> to_internal (f i) = ys ! i" by metis
  then have "typed_at defs s (JArr ys) p = Inr (TVList (map f [0..<length ys]))" by (simp add: typed_arr [OF arr(2)])
  moreover have "map (to_internal \<circ> f) [0..<length ys] = ys" using f by (auto intro: nth_equalityI)
  ultimately show ?case by auto
next
  case (obj d s fs n m parts)
  note ok = objects_object [OF obj(5,2)]
  have "\<exists>tv. (\<exists>f. map_of fs (fst e) = Some f \<and>
      typed_at defs (fs_schema f) (snd e) (child_path p (fst e)) = Inr tv) \<and> to_internal tv = snd e"
    if "e \<in> set (concat parts)" for e
  proof -
    from that have e: "(fst e, snd e) \<in> set (concat parts)" by simp
    obtain f where f: "(fst e, f) \<in> set fs"
      and IH: "\<And>p. objects_ok distinct_fields defs (fs_schema f) \<Longrightarrow>
        \<exists>tv. typed_at defs (fs_schema f) (snd e) p = Inr tv \<and> to_internal tv = snd e"
      by (rule in_parts [OF obj(4) e]) blast
    from f ok(1) have "map_of fs (fst e) = Some f" by (simp add: distinct_fields_def)
    with IH ok(2) [OF f] show ?thesis by auto
  qed
  then obtain g where g: "\<And>e. e \<in> set (concat parts) \<Longrightarrow> (\<exists>f. map_of fs (fst e) = Some f \<and>
      typed_at defs (fs_schema f) (snd e) (child_path p (fst e)) = Inr (g e)) \<and> to_internal (g e) = snd e" by metis
  let ?ys = "map (\<lambda>e. (fst e, g e)) (concat parts)"
  have "typed_at defs s (JObj (concat parts)) p = Inr (TVObject ?ys)"
    unfolding typed_obj [OF obj(2)]
  proof (rule exI, rule conjI, rule refl, unfold list_all2_self, rule ballI)
    fix e assume "e \<in> set (concat parts)"
    from g [OF this] show "(case e of (name, x) \<Rightarrow> \<lambda>(name', y). name' = name \<and>
        (\<exists>f. map_of fs name = Some f \<and> typed_at defs (fs_schema f) x (child_path p name) = Inr y)) (fst e, g e)"
      by (cases e) simp
  qed
  moreover have "map (\<lambda>(k, v). (k, to_internal v)) ?ys = concat parts"
    using g by (auto intro!: map_idI)
  ultimately show ?case by auto
qed

text \<open>What stands at a place of a typed value, and of a JSON value.\<close>

datatype place_step = Field string | Item nat

fun typed_node :: "typed_value \<Rightarrow> place_step list \<Rightarrow> typed_value option" where
  "typed_node tv [] = Some tv"
| "typed_node (TVObject fs) (Field k # p) = (case map_of fs k of Some tv \<Rightarrow> typed_node tv p | None \<Rightarrow> None)"
| "typed_node (TVList tvs) (Item n # p) = (if n < length tvs then typed_node (tvs ! n) p else None)"
| "typed_node _ (_ # p) = None"

fun json_node :: "json \<Rightarrow> place_step list \<Rightarrow> json option" where
  "json_node v [] = Some v"
| "json_node (JObj m) (Field k # p) = (case map_of m k of Some v \<Rightarrow> json_node v p | None \<Rightarrow> None)"
| "json_node (JArr vs) (Item n # p) = (if n < length vs then json_node (vs ! n) p else None)"
| "json_node _ (_ # p) = None"

lemma node_wire: "typed_node tv p = Some x \<Longrightarrow> json_node (to_wire tv) p = Some (to_wire x)"
proof (induction tv p rule: typed_node.induct)
  case (2 fs k p)
  have "map_of (map (\<lambda>(k, v). (k, to_wire v)) fs) k = map_option to_wire (map_of fs k)"
    by (simp add: map_of_map)
  with 2 show ?case by (auto split: option.splits)
qed (auto split: if_splits)

text \<open>C27. A value that validates has a typed form. Its internal form is the validated value. Its wire form
  holds the decimal text of an int64 wherever the typed form holds an int64, and reading it gives the same
  typed form again.\<close>

theorem typed_wire_roundtrip:
  assumes "validate jt defs s v = Inr w" and "objects_ok distinct_fields defs s"
  shows "\<exists>tv. validate_typed jt defs s v = Inr tv \<and> to_internal tv = w \<and>
    (\<forall>p i. typed_node tv p = Some (TVInt64 i) \<longrightarrow> json_node (to_wire tv) p = Some (JStr (show_int i))) \<and>
    typed_value_of defs s (to_wire tv) = Inr tv"
proof -
  from assms(1) have "validate_at defs s v [] 0 = Inr w"
    by (auto simp: validate_def terr_def Let_def split: if_splits)
  then have "valid defs 0 s v w" by (simp add: validate_iff)
  from valid_typed [OF this assms(2)] obtain tv where "typed_at defs s w [] = Inr tv" "to_internal tv = w" by blast
  moreover have "\<forall>p i. typed_node tv p = Some (TVInt64 i) \<longrightarrow> json_node (to_wire tv) p = Some (JStr (show_int i))"
    using node_wire [of tv] by auto
  ultimately show ?thesis
    using typed_wire assms(1) by (auto simp: validate_typed_def typed_value_of_def sbind_def)
qed

theorem typed_wire_roundtrip_witness:
  "typed_value_of [] src_report (to_wire (TVObject [(''count'', TVInt64 (- 7)), (''note'', TVString ''none'')])) =
     Inr (TVObject [(''count'', TVInt64 (- 7)), (''note'', TVString ''none'')])"
proof -
  have ok: "validate no_text [] src_report report_value =
      Inr (JObj [(''count'', JNum (NegInt (- 7))), (''note'', JStr ''none'')])"
    if "no_text = \<lparr>jt_print = (\<lambda>_. Some ''x''), jt_parse = (\<lambda>_. None)\<rparr>" for no_text
    unfolding that by code_simp
  have dist: "objects_ok distinct_fields [] src_report"
    by (simp add: objects_ok_def src_report_def plain_schema_def distinct_fields_def)
  obtain tv where tv: "validate_typed \<lparr>jt_print = (\<lambda>_. Some ''x''), jt_parse = (\<lambda>_. None)\<rparr> [] src_report report_value
      = Inr tv" "typed_value_of [] src_report (to_wire tv) = Inr tv"
    using typed_wire_roundtrip [OF ok [OF refl] dist] by blast
  have "validate_typed \<lparr>jt_print = (\<lambda>_. Some ''x''), jt_parse = (\<lambda>_. None)\<rparr> [] src_report report_value =
      Inr (TVObject [(''count'', TVInt64 (- 7)), (''note'', TVString ''none'')])" by code_simp
  with tv show ?thesis by simp
qed

section \<open>A schema and its JSON form\<close>

text \<open>The schemas whose JSON form is accepted: what \<open>from_json\<close> itself demands.\<close>

definition float_bounds_ok :: "u64 option \<Rightarrow> u64 option \<Rightarrow> bool" where
  "float_bounds_ok lo hi \<longleftrightarrow> (\<forall>a. lo = Some a \<longrightarrow> f64_finite a) \<and> (\<forall>b. hi = Some b \<longrightarrow> f64_finite b) \<and>
     (\<forall>a b. lo = Some a \<longrightarrow> hi = Some b \<longrightarrow> f64_le a b)"

fun writable :: "nat \<Rightarrow> type_schema \<Rightarrow> bool"
and writable_kind :: "nat \<Rightarrow> type_kind \<Rightarrow> bool"
and writable_field :: "nat \<Rightarrow> field_schema \<Rightarrow> bool" where
  "writable k (TypeSchema kind nullable) \<longleftrightarrow>
     k \<le> 32 \<and> \<not> (nullable \<and> (kind = KUnit \<or> kind = KJson)) \<and> writable_kind k kind"
| "writable_kind k (KFloat64 lo hi) \<longleftrightarrow> float_bounds_ok lo hi"
| "writable_kind k (KEnum vs) \<longleftrightarrow> vs \<noteq> [] \<and> distinct vs"
| "writable_kind k (KObject fs) \<longleftrightarrow> (\<forall>q \<in> set fs. writable_field (k + 1) (snd q))"
| "writable_kind k (KList items mx) \<longleftrightarrow> writable (k + 1) items"
| "writable_kind k _ \<longleftrightarrow> True"
| "writable_field k (FieldSchema s opt d) \<longleftrightarrow> writable k s"

lemma enum_items_ok: "distinct vs \<Longrightarrow> set vs \<inter> set seen = {} \<Longrightarrow> enum_items p i seen (map JStr vs) = Inr vs"
  by (induction vs arbitrary: i seen) (auto simp: sbind_def)

lemma opt_u32_ju32:
  "map_of m key = map_option ju32 ov \<Longrightarrow> opt_u32 m key p = Inr ov"
  by (cases ov) (auto simp: opt_u32_def)

lemma opt_finite_bits:
  "map_of m key = map_option (\<lambda>b. JNum (FloatBits b)) ov \<Longrightarrow> (\<forall>b. ov = Some b \<longrightarrow> f64_finite b) \<Longrightarrow>
   opt_finite m key p = Inr ov"
  by (cases ov) (auto simp: opt_finite_def)

lemma map_of_opt_entry: "map_of (opt_entry k f ov m) = (case ov of None \<Rightarrow> map_of m | Some v \<Rightarrow> (map_of m)(k \<mapsto> f v))"
  by (cases ov) (auto simp: opt_entry_def)

lemma keys_opt_entry: "fst ` set (opt_entry k f ov m) = (if ov = None then fst ` set m else insert k (fst ` set m))"
  by (cases ov) (auto simp: opt_entry_def keys_obj_insert)

lemma finish_ok:
  assumes "fst ` set m \<subseteq> {''type'', ''nullable''} \<union> set (kind_keys kind) \<union> (if as_field then {''optional'', ''default''} else {})"
    and "\<not> (nullable \<and> (kind = KUnit \<or> kind = KJson))"
  shows "finish_schema m p as_field nullable kind = Inr (TypeSchema kind nullable)"
proof -
  have "find (\<lambda>k. \<not> (k \<in> set [''type'', ''nullable''] \<or> k \<in> set (kind_keys kind)
      \<or> as_field \<and> k \<in> set [''optional'', ''default''])) (map fst m) = None"
    using assms(1) by (auto simp: find_None_iff split: if_splits)
  then show ?thesis using assms(2) by (auto simp: finish_schema_def)
qed

text \<open>The entries of an object that holds a schema, possibly among those of a field.\<close>

definition holds_schema :: "jobject \<Rightarrow> type_kind \<Rightarrow> bool \<Rightarrow> bool" where
  "holds_schema m kind nullable \<longleftrightarrow>
     map_of m ''nullable'' = (if nullable then Some (JBool True) else None) \<and>
     map_of m ''ref'' = (case kind of KRef name \<Rightarrow> Some (JStr name) | _ \<Rightarrow> None) \<and>
     map_of m ''type'' = (case kind of KRef _ \<Rightarrow> None | _ \<Rightarrow> Some (JStr (kind_name kind))) \<and>
     (case kind of
        KFloat64 lo hi \<Rightarrow> map_of m ''min'' = map_option (\<lambda>b. JNum (FloatBits b)) lo \<and>
          map_of m ''max'' = map_option (\<lambda>b. JNum (FloatBits b)) hi
      | KString mx \<Rightarrow> map_of m ''max_len'' = map_option ju32 mx
      | KEnum vs \<Rightarrow> map_of m ''values'' = Some (JArr (map JStr vs))
      | KObject fs \<Rightarrow> map_of m ''fields'' = Some (JObj (map (\<lambda>(name, f). (name, write_field f)) fs))
      | KList items mx \<Rightarrow> map_of m ''items'' = Some (JObj (write_schema items [])) \<and>
          map_of m ''max_len'' = map_option ju32 mx
      | _ \<Rightarrow> True)"

lemma write_schema_holds:
  "holds_schema (write_schema (TypeSchema kind nullable) []) kind nullable"
  by (cases kind) (auto simp: holds_schema_def Let_def map_of_opt_entry split: option.split)

lemma write_schema_keys:
  "fst ` set (write_schema (TypeSchema kind nullable) []) \<subseteq> {''type'', ''nullable''} \<union> set (kind_keys kind)"
  by (cases kind) (auto simp: Let_def keys_obj_insert keys_opt_entry split: if_splits)

lemma holds_schema_other:
  "holds_schema (obj_insert ''optional'' v m) kind nullable = holds_schema m kind nullable"
  "holds_schema (obj_insert ''default'' v m) kind nullable = holds_schema m kind nullable"
  by (cases kind; simp add: holds_schema_def)+

lemma collect_fields:
  assumes "\<And>q p. q \<in> set fs \<Longrightarrow> g (write_field (snd q)) p = Inr (fs_schema (snd q), fs_optional (snd q), fs_default (snd q))"
  shows "collect (\<lambda>(name, fv). sbind (g fv (h name)) (\<lambda>(s, opt, d). Inr (name, FieldSchema s opt d)))
    (map (\<lambda>(name, f). (name, write_field f)) fs) = Inr fs"
  unfolding collect_Inr_iff list_all2_map1
  by (rule list.rel_refl_strong) (use assms in \<open>auto simp: sbind_def\<close>)

lemma parse_held:
  assumes "k \<le> 32" "holds_schema m kind nullable" "writable_kind k kind"
    and "\<not> (nullable \<and> (kind = KUnit \<or> kind = KJson))"
    and "fst ` set m \<subseteq> {''type'', ''nullable''} \<union> set (kind_keys kind) \<union> (if as_field then {''optional'', ''default''} else {})"
    and flags: "(if as_field then opt_flag m ''optional'' p else Inr False) = Inr opt"
      "(if as_field then map_of m ''default'' else None) = dflt"
    and fields: "\<And>fs q p. kind = KObject fs \<Longrightarrow> q \<in> set fs \<Longrightarrow> parse_schema (write_field (snd q)) p (k + 1) True =
      Inr (fs_schema (snd q), fs_optional (snd q), fs_default (snd q))"
    and items: "\<And>it mx p. kind = KList it mx \<Longrightarrow> parse_schema (JObj (write_schema it [])) p (k + 1) False = Inr (it, False, None)"
  shows "parse_schema (JObj m) p k as_field = Inr (TypeSchema kind nullable, opt, dflt)"
proof -
  have null: "opt_flag m ''nullable'' p = Inr nullable"
    using assms(2) by (auto simp: holds_schema_def opt_flag_def)
  note fin = finish_ok [OF assms(5,4), of p]
  note start = parse_schema.simps [of "JObj m" p k as_field]
  show ?thesis
  proof (cases kind)
    case (KFloat64 lo hi)
    have "parse_float_kind m p = Inr (KFloat64 lo hi)"
      using assms(2,3) KFloat64 opt_finite_bits [of m "''min''" lo p] opt_finite_bits [of m "''max''" hi p]
      by (cases lo; cases hi) (simp_all add: holds_schema_def parse_float_kind_def float_bounds_ok_def sbind_def
          f64_less_def f64_le_def)
    then show ?thesis using assms(1,2) KFloat64 null flags fin
      by (subst start) (simp add: holds_schema_def sbind_def max_schema_depth_def)
  next
    case (KString mx)
    have "opt_u32 m ''max_len'' p = Inr mx"
      using assms(2) KString by (intro opt_u32_ju32) (simp add: holds_schema_def)
    then show ?thesis using assms(1,2) KString null flags fin
      by (subst start) (simp add: holds_schema_def sbind_def max_schema_depth_def)
  next
    case (KEnum vs)
    have "parse_enum_values m p = Inr vs"
      using assms(2,3) KEnum enum_items_ok [of vs "[]"] by (simp add: holds_schema_def parse_enum_values_def Let_def)
    then show ?thesis using assms(1,2) KEnum null flags fin
      by (subst start) (simp add: holds_schema_def sbind_def max_schema_depth_def)
  next
    case (KObject fs)
    have "collect (\<lambda>(name, fv). sbind (parse_schema fv (child_path (child_path p ''fields'') name) (k + 1) True)
        (\<lambda>(s, opt, d). Inr (name, FieldSchema s opt d))) (map (\<lambda>(name, f). (name, write_field f)) fs) = Inr fs"
      by (rule collect_fields [where g = "\<lambda>v q. parse_schema v q (k + 1) True"]) (rule fields [OF KObject])
    then show ?thesis using assms(1,2) KObject null flags fin
      by (subst start) (simp add: holds_schema_def sbind_def [of "Inr _"] max_schema_depth_def Let_def)
  next
    case (KList it mx)
    have "opt_u32 m ''max_len'' p = Inr mx"
      using assms(2) KList by (intro opt_u32_ju32) (simp add: holds_schema_def)
    then show ?thesis using assms(1,2) KList null flags fin items [OF KList]
      by (subst start) (simp add: holds_schema_def sbind_def max_schema_depth_def)
  qed (use assms(1,2) null flags fin in \<open>subst start; simp add: holds_schema_def sbind_def max_schema_depth_def\<close>)+
qed

lemma parse_written:
  "writable k s \<Longrightarrow>
   parse_schema (JObj (write_schema s [])) p k False = Inr (s, False, None) \<and>
   parse_schema (write_field (FieldSchema s opt d)) p k True = Inr (s, opt, d)"
proof (induction "33 - k" arbitrary: k s p opt d rule: less_induct)
  case less
  obtain kind nullable where s: "s = TypeSchema kind nullable" by (cases s)
  with less.prems have w: "k \<le> 32" "writable_kind k kind" "\<not> (nullable \<and> (kind = KUnit \<or> kind = KJson))" by auto
  have fields: "parse_schema (write_field (snd q)) p (k + 1) True = Inr (fs_schema (snd q), fs_optional (snd q), fs_default (snd q))"
    if "kind = KObject fs" "q \<in> set fs" for fs q p
  proof -
    obtain t o' d' where q: "snd q = FieldSchema t o' d'" by (cases "snd q")
    with that w(2) have "writable (k + 1) t" by auto
    with less.hyps [of "k + 1" t] w(1) show ?thesis by (simp add: q)
  qed
  have items: "parse_schema (JObj (write_schema it [])) p (k + 1) False = Inr (it, False, None)"
    if "kind = KList it mx" for it mx p
    using less.hyps [of "k + 1" it] w that by simp
  let ?m = "write_schema s []"
  have holds: "holds_schema ?m kind nullable" unfolding s by (rule write_schema_holds)
  have keys: "fst ` set ?m \<subseteq> {''type'', ''nullable''} \<union> set (kind_keys kind)" unfolding s by (rule write_schema_keys)
  have plain: "parse_schema (JObj ?m) p k False = Inr (TypeSchema kind nullable, False, None)"
    using keys by (intro parse_held [OF w(1) holds w(2,3)] fields items) auto
  let ?f = "opt_entry ''default'' (\<lambda>v. v) d (if opt then obj_insert ''optional'' (JBool True) ?m else ?m)"
  have no: "map_of ?m ''optional'' = None" "map_of ?m ''default'' = None"
    using keys by (cases kind; auto simp: map_of_eq_None_iff)+
  have "holds_schema ?f kind nullable"
    using holds by (cases d) (auto simp: opt_entry_def holds_schema_other)
  moreover have "fst ` set ?f \<subseteq> {''type'', ''nullable''} \<union> set (kind_keys kind) \<union> {''optional'', ''default''}"
    using keys by (auto simp: keys_opt_entry keys_obj_insert)
  moreover have "opt_flag ?f ''optional'' p = Inr opt" "map_of ?f ''default'' = d"
    using no by (cases d; simp add: opt_flag_def opt_entry_def)+
  ultimately have "parse_schema (JObj ?f) p k True = Inr (TypeSchema kind nullable, opt, d)"
    by (intro parse_held [OF w(1) _ w(2,3)] fields items) auto
  moreover have "write_field (FieldSchema s opt d) = JObj ?f" by (simp only: write_field.simps Let_def)
  ultimately show ?case using plain by (simp only: s)
qed

text \<open>A declared schema survives its JSON form: writing it and reading the result gives the same
  schema, for every schema that respects what a declaration may contain.\<close>

theorem schema_json_roundtrip:
  assumes "writable 0 s"
  shows "schema_from_json (schema_to_json s) = Inr s"
  using parse_written [OF assms] by (simp add: schema_from_json_def schema_to_json_def sbind_def)

theorem schema_json_roundtrip_witness: "schema_from_json (schema_to_json dst_report) = Inr dst_report"
  by (rule schema_json_roundtrip) (simp add: dst_report_def plain_schema_def)

section \<open>A default that the declaration check accepts and validation refuses\<close>

text \<open>C28. The declaration check measures a default from depth 0 but validation meets it below its
  object: an object with a JSON field whose default is 64 levels deep passes the check, and no
  value that leaves the field out validates.\<close>

theorem deep_default_refused:
  assumes "jdepth dflt = 64" and "s = plain_schema (KObject [(f, FieldSchema json_schema opt (Some dflt))])"
  shows "check_schema_at [] s p = Inr () \<and>
    validate_at [] s (JObj []) [] 0 =
      terr TooDeep (child_path [] f) (Plain ''value depth <= 64'') (Plain ''deeper value'')"
proof -
  have json: "resolve [] json_schema = Inr (KJson, False)" by code_simp
  have "validate_at [] json_schema dflt q 0 = Inr dflt" for q
    by (simp add: validate_iff) (rule valid.any [OF json], simp add: assms(1))
  then have "check_schema_at [] s p = Inr ()"
    by (simp add: check_schema_at_def check_schema_ok assms(2) plain_schema_def Let_def)
  moreover have obj: "resolve [] s = Inr (KObject [(f, FieldSchema json_schema opt (Some dflt))], False)"
    unfolding assms(2) plain_schema_def resolve_def by (subst resolve_loop.simps) simp
  have "dflt \<noteq> JNull" using assms(1) by auto
  then have "validate_at [] json_schema dflt q 1 = terr TooDeep q (Plain ''value depth <= 64'') (Plain ''deeper value'')"
    for q using json assms(1)
    by (subst validate_at.simps) (simp add: validate_unfold json_depth_eq)
  then have "validate_at [] s (JObj []) [] 0 =
      terr TooDeep (child_path [] f) (Plain ''value depth <= 64'') (Plain ''deeper value'')"
    by (subst validate_obj [OF _ obj]) (simp_all add: field_source_def sbind_def terr_def)
  ultimately show ?thesis by blast
qed

theorem deep_default_refused_witness:
  "let dflt = foldr (\<lambda>_ v. JArr [v]) [0..<63] JNull;
       s = plain_schema (KObject [(''cfg'', FieldSchema json_schema False (Some dflt))])
   in check_schema_at [] s [] = Inr () \<and> (\<exists>e. validate_at [] s (JObj []) [] 0 = Inl e)"
proof -
  have deep: "jdepth (foldr (\<lambda>_ v. JArr [v]) xs JNull) = Suc (length xs)" for xs :: "nat list"
    by (induction xs) auto
  show ?thesis
    using deep_default_refused [OF _ refl, of "foldr (\<lambda>_ v. JArr [v]) [0..<63] JNull" "''cfg''" False "[]"]
    by (simp only: deep Let_def terr_def) auto
qed

end
