(* ===== verification/Task_Model.thy ===== *)
theory Task_Model
  imports Task_Failure
begin

text \<open>
  The data of a task (\<open>task.rs\<close> and the declarations of \<open>task/contract.rs\<close>, \<open>task/binding.rs\<close>,
  \<open>task/route.rs\<close>, \<open>task/postprocess.rs\<close>, \<open>task/attempt.rs\<close>, \<open>task/agent.rs\<close>), and the operations on one
  task that need no other. A \<open>BTreeMap\<close>, and a \<open>HashMap\<close> of strings, is an association list in ascending key order.
\<close>

section \<open>States\<close>

datatype task_state =
    Waiting
  | Ready
  | Running
  | Succeeded
  | Failed message
  | Cancelled
  | Skipped
  | Unknown "message option"

fun state_name :: "task_state \<Rightarrow> string" where
  "state_name Waiting = ''waiting''"
| "state_name Ready = ''ready''"
| "state_name Running = ''running''"
| "state_name Succeeded = ''succeeded''"
| "state_name (Failed _) = ''failed''"
| "state_name Cancelled = ''cancelled''"
| "state_name Skipped = ''skipped''"
| "state_name (Unknown _) = ''unknown''"

fun is_failed :: "task_state \<Rightarrow> bool" where
  "is_failed (Failed _) \<longleftrightarrow> True"
| "is_failed _ \<longleftrightarrow> False"

definition is_terminal :: "task_state \<Rightarrow> bool" where
  "is_terminal s \<longleftrightarrow> s = Succeeded \<or> is_failed s \<or> s = Cancelled \<or> s = Skipped"

fun is_valid_transition :: "task_state \<Rightarrow> task_state \<Rightarrow> bool" where
  "is_valid_transition Waiting Ready \<longleftrightarrow> True"
| "is_valid_transition Waiting Skipped \<longleftrightarrow> True"
| "is_valid_transition Waiting Cancelled \<longleftrightarrow> True"
| "is_valid_transition Ready Running \<longleftrightarrow> True"
| "is_valid_transition Ready Cancelled \<longleftrightarrow> True"
| "is_valid_transition Running Succeeded \<longleftrightarrow> True"
| "is_valid_transition Running (Failed _) \<longleftrightarrow> True"
| "is_valid_transition Running Cancelled \<longleftrightarrow> True"
| "is_valid_transition Running (Unknown _) \<longleftrightarrow> True"
| "is_valid_transition (Unknown _) Ready \<longleftrightarrow> True"
| "is_valid_transition (Unknown _) Cancelled \<longleftrightarrow> True"
| "is_valid_transition (Unknown _) Waiting \<longleftrightarrow> True"
| "is_valid_transition _ _ \<longleftrightarrow> False"

section \<open>Commands and failure policies\<close>

datatype agent_session =
    NewSession u32 "string option"
  | ExistingSession u32

record agent_link =
  al_provider :: string
  al_surface :: u32
  al_awaiting_since :: "u64 option"

record poll_spec =
  ps_method :: string
  ps_from_response :: "(string \<times> string) list"
  ps_from_request :: "(string \<times> string) list"
  ps_state_field :: string
  ps_terminal :: "string list"
  ps_failure :: "string list"
  ps_interval :: u64
  ps_timeout :: "u64 option"

datatype poll_ref = NamedStrategy string | InlinePoll poll_spec

datatype reducer_strategy = FirstSuccess | ReduceAll | MergeJson | ConcatText | ReduceCustom string

datatype task_command =
    Run "string list" u32 "string option"
  | Custom string json "poll_ref option"
  | Reduce "string list" reducer_strategy
  | WaitBarrier "string option"
  | AgentTurn string u32 agent_session string "u64 option"

text \<open>\<open>InlineSpec name command depends_on_override on_failure metadata\<close>.\<close>

datatype on_failure =
    AbortOnFailure
  | ContinueDownstream
  | Fallback "string option" "inline_spec option"
and inline_spec = InlineSpec string task_command "string list option" on_failure json

fun is_fallback :: "on_failure \<Rightarrow> bool" where
  "is_fallback (Fallback _ _) \<longleftrightarrow> True"
| "is_fallback _ \<longleftrightarrow> False"

record task_result =
  res_exit :: "int option"
  res_output :: "json option"
  res_error :: "message option"

fun command_kind :: "task_command \<Rightarrow> string" where
  "command_kind (Run _ _ _) = ''run''"
| "command_kind (Custom _ _ _) = ''custom''"
| "command_kind (Reduce _ _) = ''reduce''"
| "command_kind (WaitBarrier _) = ''wait_barrier''"
| "command_kind (AgentTurn _ _ _ _ _) = ''agent''"

section \<open>Bindings and mappings\<close>

record binding_source =
  bs_from :: string
  bs_pointer :: string

datatype conversion = Assert | ToString | Int64ToFloat64

datatype input_binding =
    LiteralBinding json
  | FromTask binding_source "conversion option"
  | OneOf "binding_source list" "conversion option"

fun binding_sources :: "input_binding \<Rightarrow> binding_source list" where
  "binding_sources (LiteralBinding _) = []"
| "binding_sources (FromTask s _) = [s]"
| "binding_sources (OneOf ss _) = ss"

fun binding_convert :: "input_binding \<Rightarrow> conversion option" where
  "binding_convert (LiteralBinding _) = None"
| "binding_convert (FromTask _ c) = c"
| "binding_convert (OneOf _ c) = c"

datatype arg_source = ArgValue string | ArgFile string

fun arg_pointer :: "arg_source \<Rightarrow> string" where
  "arg_pointer (ArgValue p) = p"
| "arg_pointer (ArgFile p) = p"

record input_mapping =
  im_args :: "arg_source list"
  im_stdin :: bool
  im_params :: "(string \<times> string) list"
  im_input_block :: bool
  im_barrier :: "string option"

definition no_mapping :: input_mapping where
  "no_mapping = \<lparr>im_args = [], im_stdin = False, im_params = [], im_input_block = False, im_barrier = None\<rparr>"

definition mapping_empty :: "input_mapping \<Rightarrow> bool" where
  "mapping_empty m \<longleftrightarrow> im_args m = [] \<and> \<not> im_stdin m \<and> im_params m = [] \<and> \<not> im_input_block m
     \<and> im_barrier m = None"

record resolved_execution =
  re_args :: "string list"
  re_stdin :: bool
  re_params :: "json option"
  re_instruction :: "message option"
  re_barrier :: "string option"

definition no_execution :: resolved_execution where
  "no_execution = \<lparr>re_args = [], re_stdin = False, re_params = None, re_instruction = None, re_barrier = None\<rparr>"

definition execution_empty :: "resolved_execution \<Rightarrow> bool" where
  "execution_empty e \<longleftrightarrow> re_args e = [] \<and> \<not> re_stdin e \<and> re_params e = None \<and> re_instruction e = None
     \<and> re_barrier e = None"

record source_pin =
  sp_field :: string
  sp_from :: string
  sp_pointer :: string
  sp_attempt :: "string option"

record input_snapshot =
  is_resolved_at :: u64
  is_value :: typed_value
  is_sources :: "source_pin list"
  is_execution :: resolved_execution
  is_failure :: "task_failure option"

section \<open>Transitions\<close>

datatype transition_mode = Exclusive | AllMatches

datatype compare_op = CmpEq | CmpNe | CmpLt | CmpLe | CmpGt | CmpGe

record comparison =
  cp_path :: string
  cp_op :: compare_op
  cp_value :: json
  cp_input :: "string option"

record membership =
  mb_path :: string
  mb_values :: "json list"
  mb_input :: "string option"

datatype condition =
    CondAll "condition list"
  | CondAny "condition list"
  | CondNot condition
  | Compare comparison
  | InSet membership

record transition_case =
  tc_when :: condition
  tc_to :: "string list"

text \<open>\<open>NoMatch\<close> has the one value \<open>Finish\<close>, so \<open>no_match\<close> is whether it is given.\<close>

record transitions =
  tr_mode :: transition_mode
  tr_cases :: "transition_case list"
  tr_otherwise :: "string list option"
  tr_no_match :: bool

definition targets :: "transitions \<Rightarrow> string list" where
  "targets t = concat (map tc_to (tr_cases t)) @ (case tr_otherwise t of None \<Rightarrow> [] | Some o' \<Rightarrow> o')"

record route_decision =
  rd_attempt :: "string option"
  rd_matched :: "nat list"
  rd_otherwise :: bool
  rd_selected :: "string list"

datatype skip_reason =
    BranchNotSelected
  | UpstreamUnavailable string string

section \<open>Post-processing\<close>

datatype source_document = FromInput | FromRaw | RemovedArtifacts

record pp_source =
  pso_from :: source_document
  pso_pointer :: "string option"

datatype stdout_format = FormatJson | FormatText

record stdout_spec =
  so_format :: stdout_format
  so_pointer :: "string option"

record pp_retry =
  pr_max_retries :: u32
  pr_delay :: u64

record pp_spec =
  pp_command :: "string list"
  pp_cwd :: "string option"
  pp_stdin :: "(string \<times> pp_source) list"
  pp_stdout :: stdout_spec
  pp_timeout :: u64
  pp_retry :: "pp_retry option"

datatype pp_cause =
    StdinMapping | SpawnFailed | StdinWrite | NonzeroExit | Signalled | TimeoutCause | CancelledCause
  | StdoutTooLarge | StdoutRead | InvalidUtf8 | InvalidJson | MultipleDocuments | EmptyOutput
  | PointerMissing | OutcomeUnknown | ResultTooLarge

fun cause_name :: "pp_cause \<Rightarrow> string" where
  "cause_name StdinMapping = ''stdin_mapping''"
| "cause_name SpawnFailed = ''spawn''"
| "cause_name StdinWrite = ''stdin_write''"
| "cause_name NonzeroExit = ''nonzero_exit''"
| "cause_name Signalled = ''signal''"
| "cause_name TimeoutCause = ''timeout''"
| "cause_name CancelledCause = ''cancelled''"
| "cause_name StdoutTooLarge = ''stdout_too_large''"
| "cause_name StdoutRead = ''stdout_read''"
| "cause_name InvalidUtf8 = ''invalid_utf8''"
| "cause_name InvalidJson = ''invalid_json''"
| "cause_name MultipleDocuments = ''multiple_documents''"
| "cause_name EmptyOutput = ''empty_output''"
| "cause_name PointerMissing = ''pointer_missing''"
| "cause_name OutcomeUnknown = ''outcome_unknown''"
| "cause_name ResultTooLarge = ''result_too_large''"

definition cause_retryable :: "pp_cause \<Rightarrow> bool" where
  "cause_retryable c \<longleftrightarrow> c \<notin> {StdinMapping, CancelledCause, OutcomeUnknown, ResultTooLarge}"

datatype pp_outcome = Collected json | PostFailed pp_cause message

record pp_report =
  rp_run :: u32
  rp_exit :: "int option"
  rp_stderr :: "string option"
  rp_stderr_truncated :: bool
  rp_outcome :: pp_outcome

definition report_cause :: "pp_report \<Rightarrow> pp_cause option" where
  "report_cause r = (case rp_outcome r of PostFailed c _ \<Rightarrow> Some c | Collected _ \<Rightarrow> None)"

record pp_run_summary =
  rs_run :: u32
  rs_exit :: "int option"
  rs_cause :: pp_cause
  rs_message :: message

text \<open>\<open>PhasePending run not_before\<close>, \<open>PhaseStarted run started_at\<close>, \<open>PhaseFinished run\<close>.\<close>

datatype pp_phase = PhasePending u32 u64 | PhaseStarted u32 u64 | PhaseFinished u32

record pp_progress =
  pg_execution :: task_result
  pg_digest :: string
  pg_phase :: pp_phase
  pg_failed_runs :: "pp_run_summary list"

record pp_raw =
  pw_command :: "string list"
  pw_run :: u32
  pw_exit :: "int option"
  pw_stdout :: "json option"
  pw_stderr :: "string option"
  pw_stderr_truncated :: bool
  pw_cause :: "pp_cause option"
  pw_failed_runs :: "pp_run_summary list"

section \<open>Contracts and results\<close>

datatype merge_conflict = MergeError | MergeOverwrite

record task_contract =
  tk_version :: u32
  tk_types :: type_defs
  tk_input :: "type_schema option"
  tk_output :: "type_schema option"
  tk_exit_codes :: "int list option"
  tk_merge_conflict :: "merge_conflict option"
  tk_bindings :: "(string \<times> input_binding) list"
  tk_mapping :: "input_mapping option"
  tk_postprocess :: "pp_spec option"
  tk_transitions :: "transitions option"

record capped_json =
  cj_response :: "json option"
  cj_text :: "string option"
  cj_truncated :: bool
  cj_dropped :: u64

record raw_result =
  rw_exit :: "int option"
  rw_execution :: "json option"
  rw_truncated :: "capped_json option"
  rw_postprocess :: "pp_raw option"
  rw_accepted :: "capped_json option"

record provenance =
  pv_version :: u32
  pv_kind :: string
  pv_source :: string

record typed_result =
  tr_has_output :: bool
  tr_output :: typed_value
  tr_raw :: raw_result
  tr_error :: "task_failure option"
  tr_provenance :: provenance

section \<open>Attempts and the task record\<close>

record task_attempt =
  at_id :: string
  at_number :: u32
  at_started :: u64
  at_completion :: "string option"
  at_postprocess :: "pp_progress option"
  at_agent :: "agent_link option"

record report_token =
  rt_attempt :: u32
  rt_token :: string

record task =
  t_id :: string
  t_workspace :: u32
  t_name :: string
  t_command :: task_command
  t_depends_on :: "string list"
  t_state :: task_state
  t_created :: u64
  t_started :: "u64 option"
  t_finished :: "u64 option"
  t_result :: "task_result option"
  t_on_failure :: on_failure
  t_metadata :: json
  t_reserved :: bool
  t_contract :: "task_contract option"
  t_typed_result :: "typed_result option"
  t_graph :: "string option"
  t_snapshot :: "input_snapshot option"
  t_accepted :: "capped_json option"
  t_report_token :: "report_token option"
  t_attempt :: "task_attempt option"
  t_route :: "route_decision option"
  t_skip :: "skip_reason option"

definition is_typed :: "task \<Rightarrow> bool" where
  "is_typed t \<longleftrightarrow> t_contract t \<noteq> None"

definition reduce_inputs :: "task \<Rightarrow> string list" where
  "reduce_inputs t = (case t_command t of Reduce inputs _ \<Rightarrow> inputs | _ \<Rightarrow> [])"

text \<open>\<open>binding_task_ids\<close> and \<open>transition_targets\<close>: what a typed task reads and what it may select.\<close>

definition binding_task_ids :: "task \<Rightarrow> string list" where
  "binding_task_ids t =
     (case t_contract t of
        None \<Rightarrow> []
      | Some c \<Rightarrow> concat (map (\<lambda>(_, b). map bs_from (binding_sources b)) (tk_bindings c)))"

fun dedup_first :: "'a list \<Rightarrow> 'a list \<Rightarrow> 'a list" where
  "dedup_first out [] = out"
| "dedup_first out (x # xs) = dedup_first (if x \<in> set out then out else out @ [x]) xs"

definition transition_targets :: "task \<Rightarrow> string list" where
  "transition_targets t =
     (case t_contract t of
        None \<Rightarrow> []
      | Some c \<Rightarrow> (case tk_transitions c of None \<Rightarrow> [] | Some tr \<Rightarrow> dedup_first [] (targets tr)))"

definition is_not_selected :: "task \<Rightarrow> bool" where
  "is_not_selected t \<longleftrightarrow> t_skip t = Some BranchNotSelected"

text \<open>The task a failed task falls back to, when it is declared by its id.\<close>

definition falls_back_to :: "task \<Rightarrow> string \<Rightarrow> bool" where
  "falls_back_to t fb \<longleftrightarrow> (case t_on_failure t of Fallback (Some i) _ \<Rightarrow> i = fb | _ \<Rightarrow> False)"

definition apply_on_failure :: "task \<Rightarrow> task_state option" where
  "apply_on_failure t =
     (case t_on_failure t of
        AbortOnFailure \<Rightarrow> Some Skipped
      | ContinueDownstream \<Rightarrow> Some Ready
      | Fallback _ _ \<Rightarrow> if is_typed t then Some Skipped else None)"

lemma set_dedup_first [simp]: "set (dedup_first out xs) = set out \<union> set xs"
  by (induction out xs rule: dedup_first.induct) auto

lemma distinct_dedup_first: "distinct out \<Longrightarrow> distinct (dedup_first out xs)"
  by (induction out xs rule: dedup_first.induct) auto

lemma is_terminal_simps [simp]:
  "is_terminal Succeeded" "is_terminal (Failed e)" "is_terminal Cancelled" "is_terminal Skipped"
  "\<not> is_terminal Waiting" "\<not> is_terminal Ready" "\<not> is_terminal Running" "\<not> is_terminal (Unknown r)"
  by (simp_all add: is_terminal_def)

text \<open>A task of the samples: it waits for \<open>deps\<close> and runs one program.\<close>

definition sample_task :: "string \<Rightarrow> string list \<Rightarrow> task" where
  "sample_task i deps =
     \<lparr>t_id = i, t_workspace = 1, t_name = i, t_command = Run [''true''] 1 None, t_depends_on = deps,
      t_state = Waiting, t_created = 0, t_started = None, t_finished = None, t_result = None,
      t_on_failure = AbortOnFailure, t_metadata = JNull, t_reserved = False, t_contract = None,
      t_typed_result = None, t_graph = None, t_snapshot = None, t_accepted = None,
      t_report_token = None, t_attempt = None, t_route = None, t_skip = None\<rparr>"

definition sample_contract :: task_contract where
  "sample_contract =
     \<lparr>tk_version = 2, tk_types = [], tk_input = None, tk_output = None, tk_exit_codes = None,
      tk_merge_conflict = None, tk_bindings = [], tk_mapping = None, tk_postprocess = None,
      tk_transitions = None\<rparr>"

end
