(* ===== verification/Task_Binding.thy ===== *)
theory Task_Binding
  imports Task_Model Barrier
begin

text \<open>
  The inputs of a typed task (\<open>task/binding.rs\<close> with \<open>binding/mapping.rs\<close>): JSON pointers, the type
  at a pointer, the check of bindings and mappings when a task is made, and their resolution right
  before it runs. \<open>lookup\<close> finds a task by its id. Reading a file is a parameter.
\<close>

section \<open>Pointers\<close>

fun unescape_token :: "string \<Rightarrow> string option" where
  "unescape_token [] = Some []"
| "unescape_token (c # cs) =
     (if c = CHR ''~'' then
        (case cs of
           d # ds \<Rightarrow>
             if d = CHR ''0'' then map_option (\<lambda>t. CHR ''~'' # t) (unescape_token ds)
             else if d = CHR ''1'' then map_option (\<lambda>t. CHR ''/'' # t) (unescape_token ds)
             else None
         | [] \<Rightarrow> None)
      else map_option (\<lambda>t. c # t) (unescape_token cs))"

definition pointer_tokens :: "string \<Rightarrow> string + string list" where
  "pointer_tokens pointer =
     (case pointer of
        [] \<Rightarrow> Inr []
      | c # rest \<Rightarrow>
          if c \<noteq> CHR ''/''
          then Inl (''JSON pointer '' @ squoted pointer @ '' must be empty or start with '' @ squoted ''/'')
          else collect (\<lambda>raw. case unescape_token raw of
                 Some t \<Rightarrow> Inr t
               | None \<Rightarrow> Inl (''JSON pointer '' @ squoted pointer @ '' has an invalid '' @ squoted ''~'' @ '' escape''))
               (split_on CHR ''/'' rest))"

definition is_array_index :: "string \<Rightarrow> bool" where
  "is_array_index token \<longleftrightarrow> token \<noteq> [] \<and> list_all is_digit token
     \<and> (token = ''0'' \<or> hd token \<noteq> CHR ''0'')"

text \<open>\<open>schema_at\<close>: the type a pointer leads to, and whether the value there may be absent.\<close>

fun schema_walk ::
  "type_defs \<Rightarrow> type_schema \<Rightarrow> bool \<Rightarrow> string \<Rightarrow> string list \<Rightarrow> type_error + (type_schema \<times> bool)" where
  "schema_walk defs cur absent at' [] = Inr (cur, absent)"
| "schema_walk defs cur absent at' (token # tokens) =
     (let path = child_path at' token in
      sbind (resolve defs cur) (\<lambda>(kind, nullable).
        let absent1 = (absent \<or> nullable);
            other = terr TypeMismatch path (Plain ''an object field or list index'')
                      (NoMember (plain_schema kind) token)
        in case kind of
             KObject fs \<Rightarrow>
               (case map_of fs token of
                  Some f \<Rightarrow> schema_walk defs (fs_schema f) (absent1 \<or> may_be_absent f) path tokens
                | None \<Rightarrow> terr MissingField path (Plain ''a field declared in the source output'')
                    (Plain (dquoted token)))
           | KList items _ \<Rightarrow>
               if is_array_index token then schema_walk defs items absent1 path tokens else other
           | KJson \<Rightarrow> Inr (json_schema, absent1)
           | _ \<Rightarrow> other))"

definition schema_at :: "type_defs \<Rightarrow> type_schema \<Rightarrow> string \<Rightarrow> type_error + (type_schema \<times> bool)" where
  "schema_at defs schema pointer =
     (case pointer_tokens pointer of
        Inl m \<Rightarrow> terr TypeMismatch pointer (Plain ''a JSON pointer'') (Plain m)
      | Inr tokens \<Rightarrow> schema_walk defs schema False [] tokens)"

section \<open>The output type of a task\<close>

definition reduce_record_states :: "string list" where
  "reduce_record_states =
     [''waiting'', ''ready'', ''running'', ''succeeded'', ''failed'', ''cancelled'', ''skipped'', ''unknown'']"

definition reduce_record_list_schema :: type_schema where
  "reduce_record_list_schema =
     plain_schema (KList (plain_schema (KObject
       [(''attempt_id'', FieldSchema string_schema True None),
        (''has_output'', FieldSchema (plain_schema KBoolean) False None),
        (''output'', FieldSchema json_schema True None),
        (''state'', FieldSchema (plain_schema (KEnum reduce_record_states)) False None),
        (''task_id'', FieldSchema string_schema False None)])) None)"

fun default_output_schema :: "task_command \<Rightarrow> type_schema" where
  "default_output_schema (Run _ _ _) = int64_schema"
| "default_output_schema (Custom _ _ _) = json_schema"
| "default_output_schema (WaitBarrier _) = unit_schema"
| "default_output_schema (AgentTurn _ _ _ _ _) = string_schema"
| "default_output_schema (Reduce _ strategy) =
     (case strategy of
        ConcatText \<Rightarrow> string_schema
      | ReduceAll \<Rightarrow> reduce_record_list_schema
      | _ \<Rightarrow> json_schema)"

definition input_schema :: "task_contract \<Rightarrow> type_schema" where
  "input_schema c = (case tk_input c of Some s \<Rightarrow> s | None \<Rightarrow> unit_schema)"

definition output_schema :: "task_contract \<Rightarrow> task_command \<Rightarrow> type_schema" where
  "output_schema c command =
     (case tk_output c of
        Some s \<Rightarrow> s
      | None \<Rightarrow>
          (case tk_postprocess c of
             Some p \<Rightarrow> if so_format (pp_stdout p) = FormatText then string_schema else json_schema
           | None \<Rightarrow> default_output_schema command))"

definition output_schema_of :: "task \<Rightarrow> type_defs \<times> type_schema" where
  "output_schema_of t =
     (case t_contract t of
        Some c \<Rightarrow> (tk_types c, output_schema c (t_command t))
      | None \<Rightarrow> ([], json_schema))"

definition field_may_be_absent :: "task_contract \<Rightarrow> string \<Rightarrow> bool" where
  "field_may_be_absent c field =
     (case resolve (tk_types c) (input_schema c) of
        Inr (KObject fs, _) \<Rightarrow>
          (case map_of fs field of None \<Rightarrow> False | Some f \<Rightarrow> fs_optional f \<or> fs_default f \<noteq> None)
      | _ \<Rightarrow> False)"

definition needs_input :: "task_contract \<Rightarrow> bool" where
  "needs_input c \<longleftrightarrow> tk_bindings c \<noteq> []
     \<or> (case tk_mapping c of None \<Rightarrow> False | Some m \<Rightarrow> \<not> mapping_empty m) \<or> tk_input c \<noteq> None"

end
