(* ===== verification/Task_Route.thy ===== *)
theory Task_Route
  imports Task_Binding
begin

text \<open>
  The paths between tasks (\<open>task/route.rs\<close>): what an edge from one task to another says, which tasks
  may end without being selected.
\<close>

section \<open>The status of an edge\<close>

datatype edge_status =
    EdgePending
  | EdgeAvailable
  | EdgeNotSelected
  | EdgeUnavailable string string

definition path_status :: "task \<Rightarrow> edge_status" where
  "path_status source =
     (if t_state source = Succeeded then EdgeAvailable
      else if t_state source = Skipped \<and> is_not_selected source then EdgeNotSelected
      else if is_terminal (t_state source)
      then EdgeUnavailable (t_id source) (state_name (t_state source))
      else EdgePending)"

definition control_status :: "task \<Rightarrow> string \<Rightarrow> edge_status" where
  "control_status source target =
     (case path_status source of
        EdgeAvailable \<Rightarrow>
          (case t_route source of
             Some r \<Rightarrow> if target \<in> set (rd_selected r) then EdgeAvailable else EdgeNotSelected
           | None \<Rightarrow> EdgeUnavailable (t_id source) ''succeeded without a route'')
      | other \<Rightarrow> other)"

definition activation_sources :: "task \<Rightarrow> string list" where
  "activation_sources t = t_depends_on t @ reduce_inputs t @ binding_task_ids t"

section \<open>Tasks that may not be selected\<close>

definition not_selected_seed :: "task list \<Rightarrow> string list" where
  "not_selected_seed tasks =
     remdups (concat (map (\<lambda>t. transition_targets t @ (if is_not_selected t then [t_id t] else [])) tasks))"

text \<open>One pass of the loop over the tasks; a set of ids is a list without repetition.\<close>

fun not_selected_pass :: "task list \<Rightarrow> string list \<Rightarrow> string list" where
  "not_selected_pass [] out = out"
| "not_selected_pass (t # ts) out =
     not_selected_pass ts
       (if t_id t \<in> set out \<or> \<not> is_typed t then out
        else if activation_sources t \<noteq> [] \<and> set (activation_sources t) \<subseteq> set out then t_id t # out
        else out)"

lemma pass_length: "length out \<le> length (not_selected_pass ts out)"
  by (induction ts out rule: not_selected_pass.induct) (auto split: if_splits)

lemma pass_subset: "set (not_selected_pass ts out) \<subseteq> set out \<union> t_id ` set ts"
  by (induction ts out rule: not_selected_pass.induct) (auto split: if_splits)

lemma pass_distinct: "distinct out \<Longrightarrow> distinct (not_selected_pass ts out)"
  by (induction ts out rule: not_selected_pass.induct) (auto split: if_splits)

lemma pass_keeps: "set out \<subseteq> set (not_selected_pass ts out)"
  by (induction ts out rule: not_selected_pass.induct) (auto split: if_splits)

text \<open>The loop ends: a pass that adds something adds ids of tasks not seen before.\<close>

function not_selected_loop :: "task list \<Rightarrow> string list \<Rightarrow> string list" where
  "not_selected_loop tasks out =
     (let out' = not_selected_pass tasks out
      in if length out' = length out then out' else not_selected_loop tasks out')"
  by pat_completeness auto

lemma pass_measure:
  assumes "length (not_selected_pass ts out) \<noteq> length out"
  shows "card (t_id ` set ts - set (not_selected_pass ts out)) < card (t_id ` set ts - set out)"
proof -
  have "\<exists>x. x \<in> t_id ` set ts' \<and> x \<in> set (not_selected_pass ts' out') \<and> x \<notin> set out'"
    if "length (not_selected_pass ts' out') \<noteq> length out'" for ts' out'
    using that
  proof (induction ts' out' rule: not_selected_pass.induct)
    case (2 t ts out)
    let ?o = "if t_id t \<in> set out \<or> \<not> is_typed t then out
        else if activation_sources t \<noteq> [] \<and> set (activation_sources t) \<subseteq> set out then t_id t # out else out"
    show ?case
    proof (cases "?o = out")
      case True
      with 2 show ?thesis by auto
    next
      case False
      then have "t_id t \<notin> set out" "?o = t_id t # out" by (auto split: if_splits)
      moreover have "t_id t \<in> set (not_selected_pass ts ?o)"
        using pass_keeps [of ?o ts] calculation(2) by auto
      ultimately show ?thesis unfolding not_selected_pass.simps by auto
    qed
  qed simp
  from this [OF assms] obtain x where
    "x \<in> t_id ` set ts" "x \<in> set (not_selected_pass ts out)" "x \<notin> set out" by blast
  moreover have "set out \<subseteq> set (not_selected_pass ts out)" by (rule pass_keeps)
  ultimately show ?thesis by (intro psubset_card_mono) auto
qed

termination not_selected_loop
  by (relation "measure (\<lambda>(tasks, out). card (t_id ` set tasks - set out))") (auto simp: pass_measure)

declare not_selected_loop.simps [simp del]

definition may_be_not_selected :: "task list \<Rightarrow> string list" where
  "may_be_not_selected tasks = not_selected_loop tasks (not_selected_seed tasks)"

end
