(* ===== verification/Task_Graph.thy ===== *)
theory Task_Graph
  imports Task_Route "HOL-Library.Multiset"
begin

text \<open>
  The graph of the tasks (\<open>task/graph.rs\<close>): dependency cycles, downstream tasks, readiness. A
  \<open>HashMap\<close> is listed in an order of its own, which \<open>order\<close> chooses; the laws hold for every order.
\<close>

section \<open>The graph\<close>

record graph =
  g_tasks :: "task list"
  g_inactive :: "string list"
  g_controls :: "string \<Rightarrow> task list option"

text \<open>Inserting under one id keeps the last task.\<close>

fun keep_last :: "task list \<Rightarrow> task list" where
  "keep_last [] = []"
| "keep_last (t # ts) = (if t_id t \<in> t_id ` set ts then keep_last ts else t # keep_last ts)"

definition controls_of :: "task list \<Rightarrow> string \<Rightarrow> task list option" where
  "controls_of tasks target =
     (let ss = filter (\<lambda>t. target \<in> set (transition_targets t)) tasks in if ss = [] then None else Some ss)"

definition build :: "(task list \<Rightarrow> task list) \<Rightarrow> task list \<Rightarrow> graph" where
  "build order tasks =
     \<lparr>g_tasks = order (keep_last tasks), g_inactive = [], g_controls = controls_of tasks\<rparr>"

text \<open>The order in which a \<open>HashMap\<close> is listed loses and repeats nothing.\<close>

definition listing :: "(task list \<Rightarrow> task list) \<Rightarrow> bool" where
  "listing order \<longleftrightarrow> (\<forall>ts. mset (order ts) = mset ts)"

lemma keep_last_ids: "t_id ` set (keep_last ts) = t_id ` set ts"
  by (induction ts) auto

lemma keep_last_distinct: "distinct (map t_id (keep_last ts))"
  proof (induction ts)
  case (Cons t ts)
  then show ?case by (simp add: keep_last_ids)
qed simp

lemma build_distinct: "listing order \<Longrightarrow> distinct (map t_id (g_tasks (build order ts)))"
  by (metis build_def graph.select_convs(1) keep_last_distinct listing_def mset_eq_imp_distinct_iff mset_map)

definition with_inactive :: "string list \<Rightarrow> graph \<Rightarrow> graph" where
  "with_inactive ids g = g\<lparr>g_inactive := ids\<rparr>"

definition g_find :: "graph \<Rightarrow> string \<Rightarrow> task option" where
  "g_find g i = find (\<lambda>t. t_id t = i) (g_tasks g)"

section \<open>Cycles\<close>

text \<open>
  The edges a task is searched along, in the order of the search. A dependency that names no task
  is an error; the other edges are followed only where they lead to a task.
\<close>

definition cycle_edges :: "graph \<Rightarrow> task \<Rightarrow> (string \<times> bool) list" where
  "cycle_edges g t =
     map (\<lambda>d. (d, True)) (t_depends_on t) @
     map (\<lambda>d. (d, False)) (reduce_inputs t @ binding_task_ids t @
       (case g_controls g (t_id t) of None \<Rightarrow> [] | Some ss \<Rightarrow> map t_id ss))"

text \<open>The colours (0 unvisited, 1 on the stack, 2 done) and the stack of the search.\<close>

type_synonym dfs_state = "(string \<Rightarrow> nat) \<times> string list"

definition whites :: "graph \<Rightarrow> (string \<Rightarrow> nat) \<Rightarrow> nat" where
  "whites g color = length (filter (\<lambda>t. color (t_id t) = 0) (g_tasks g))"

function dfs_cycle :: "graph \<Rightarrow> string \<Rightarrow> dfs_state \<Rightarrow> agent_error + dfs_state"
and visit_edges :: "graph \<Rightarrow> (string \<times> bool) list \<Rightarrow> dfs_state \<Rightarrow> agent_error + dfs_state" where
  "dfs_cycle g node (color, stack) =
     (let color1 = color(node := 1); stack1 = stack @ [node] in
      case g_find g node of
        None \<Rightarrow> Inr (color1(node := 2), butlast stack1)
      | Some t \<Rightarrow>
          sbind (visit_edges g (cycle_edges g t) (color1, stack1))
            (\<lambda>(c, s). Inr (c(node := 2), butlast s)))"
| "visit_edges g [] st = Inr st"
| "visit_edges g ((dep, strict) # es) (color, stack) =
     (case g_find g dep of
        None \<Rightarrow> if strict then Inl (UnknownDependency dep) else visit_edges g es (color, stack)
      | Some _ \<Rightarrow>
          sbind (if color dep = 0 then dfs_cycle g dep (color, stack)
                 else if color dep = 1
                 then Inl (DependencyCycle (if dep \<in> set stack then dropWhile (\<lambda>x. x \<noteq> dep) stack else stack))
                 else Inr (color, stack))
            (\<lambda>st. visit_edges g es st))"
  by pat_completeness auto

lemma filter_length_mono:
  "(\<And>x. x \<in> set xs \<Longrightarrow> P x \<Longrightarrow> Q x) \<Longrightarrow> length (filter P xs) \<le> length (filter Q xs)"
  by (induction xs) (auto intro: le_SucI)

lemma filter_length_less:
  assumes "\<And>x. x \<in> set xs \<Longrightarrow> P x \<Longrightarrow> Q x" "y \<in> set xs" "Q y" "\<not> P y"
  shows "length (filter P xs) < length (filter Q xs)"
  using assms
proof (induction xs)
  case (Cons x xs)
  have "length (filter P xs) \<le> length (filter Q xs)" by (rule filter_length_mono) (use Cons.prems in auto)
  with Cons show ?case by (cases "x = y") (auto simp: less_Suc_eq_le intro: le_SucI less_SucI)
qed simp

lemma g_find_Some: "g_find g i = Some t \<Longrightarrow> t \<in> set (g_tasks g) \<and> t_id t = i"
  by (auto simp: g_find_def find_Some_iff)

lemma whites_mono: "(\<And>x. color x \<noteq> 0 \<Longrightarrow> color' x \<noteq> 0) \<Longrightarrow> whites g color' \<le> whites g color"
  unfolding whites_def by (rule filter_length_mono) (metis gr0I)

lemma whites_visit: "g_find g node = Some t \<Longrightarrow> whites g (color(node := Suc 0)) < whites g (color(node := 0))"
  unfolding whites_def by (rule filter_length_less [of _ _ _ t]) (auto dest: g_find_Some split: if_splits)

lemma dfs_keeps_colors:
  "dfs_cycle_visit_edges_dom (Inl (g, node, st)) \<Longrightarrow> dfs_cycle g node st = Inr st' \<Longrightarrow>
     fst st x \<noteq> 0 \<Longrightarrow> fst st' x \<noteq> 0"
  "dfs_cycle_visit_edges_dom (Inr (g, es, st)) \<Longrightarrow> visit_edges g es st = Inr st' \<Longrightarrow>
     fst st x \<noteq> 0 \<Longrightarrow> fst st' x \<noteq> 0"
proof (induction arbitrary: st' and st' rule: dfs_cycle_visit_edges.pinduct)
  case (1 g node color stack)
  show ?case
  proof (cases "g_find g node")
    case None
    with 1 show ?thesis by (auto simp: dfs_cycle.psimps)
  next
    case (Some t)
    with 1(3) obtain c s where "visit_edges g (cycle_edges g t) (color(node := 1), stack @ [node]) = Inr (c, s)"
      and st': "st' = (c(node := 2), butlast s)"
      by (auto simp: dfs_cycle.psimps [OF 1(1)] Let_def sbind_def split: sum.splits)
    from 1(2) [OF refl refl Some this(1)] 1(4) st' show ?thesis by auto
  qed
next
  case (3 g dep strict es color stack)
  show ?case
  proof (cases "g_find g dep")
    case None
    with 3(5) show ?thesis
      using 3(2) [OF None] 3(6) by (auto simp: visit_edges.psimps(2) [OF 3(1)] split: if_splits)
  next
    case (Some t)
    with 3(5) obtain st1 where 1: "(if color dep = 0 then dfs_cycle g dep (color, stack)
        else if color dep = 1
        then Inl (DependencyCycle (if dep \<in> set stack then dropWhile (\<lambda>x. x \<noteq> dep) stack else stack))
        else Inr (color, stack)) = Inr st1" and 2: "visit_edges g es st1 = Inr st'"
      by (auto simp: visit_edges.psimps(2) [OF 3(1)] elim: sbind_InrE)
    have "fst st1 x \<noteq> 0"
      using 1 3(3) [OF Some] 3(6) by (auto split: if_splits)
    with 3(4) [OF Some 1 2] show ?thesis by blast
  qed
qed (auto simp: visit_edges.psimps)

termination dfs_cycle
proof (relation "inv_image (less_than <*lex*> less_than)
    (case_sum (\<lambda>(g, node, color, stack). (whites g (color(node := 0)), 0))
       (\<lambda>(g, es, color, stack). (whites g color, Suc (length es))))", goal_cases)
  case (4 g dep strict es color stack t)
  then show ?case by (auto simp: fun_upd_idem)
next
  case (5 g dep strict es color stack t st)
  have "whites g (fst st) \<le> whites g color"
  proof (rule whites_mono)
    fix x assume "color x \<noteq> 0"
    with 5 dfs_keeps_colors(1) [of g dep "(color, stack)" st x] show "fst st x \<noteq> 0"
      by (auto split: if_splits)
  qed
  then show ?case by (cases st) auto
qed (auto simp: whites_visit)

declare dfs_cycle.simps [simp del] visit_edges.simps(2) [simp del]

fun detect_from :: "graph \<Rightarrow> string list \<Rightarrow> dfs_state \<Rightarrow> agent_error + dfs_state" where
  "detect_from g [] st = Inr st"
| "detect_from g (start # rest) (color, stack) =
     (if color start \<noteq> 0 then detect_from g rest (color, stack)
      else sbind (dfs_cycle g start (color, stack)) (\<lambda>st. detect_from g rest st))"

definition detect_cycles :: "graph \<Rightarrow> agent_error + unit" where
  "detect_cycles g =
     sbind (detect_from g (map t_id (g_tasks g)) (\<lambda>_. 0, [])) (\<lambda>_. Inr ())"

section \<open>Downstream tasks\<close>

definition downstream_of :: "graph \<Rightarrow> string \<Rightarrow> string list" where
  "downstream_of g i =
     map t_id (filter (\<lambda>t.
       i \<in> set (t_depends_on t) \<or> i \<in> set (reduce_inputs t) \<or> i \<in> set (binding_task_ids t)
       \<or> (case g_controls g (t_id t) of None \<Rightarrow> False | Some ss \<Rightarrow> i \<in> t_id ` set ss)
       \<or> is_typed t \<and> (case g_find g i of None \<Rightarrow> False | Some m \<Rightarrow> falls_back_to m (t_id t)))
     (g_tasks g))"

text \<open>
  The search of \<open>transitive_downstream\<close> and \<open>transitive_referencing_task_ids\<close>: the queue is taken
  from its end, and what was seen is not followed again.
\<close>

partial_function (option) closure_loop ::
  "(string \<Rightarrow> string list) \<Rightarrow> string list \<Rightarrow> string list \<Rightarrow> string list \<Rightarrow> string list option" where
  "closure_loop nxt seen queue out =
     (if queue = [] then Some out
      else if last queue \<in> set seen then closure_loop nxt seen (butlast queue) out
      else closure_loop nxt (last queue # seen) (butlast queue @ nxt (last queue)) (out @ [last queue]))"

declare closure_loop.simps [code]

definition transitive_downstream :: "graph \<Rightarrow> string \<Rightarrow> string list option" where
  "transitive_downstream g i = closure_loop (downstream_of g) [] (downstream_of g i) []"

definition referenced_task_ids :: "task \<Rightarrow> string list" where
  "referenced_task_ids t =
     t_depends_on t @ (case t_on_failure t of Fallback (Some fb) _ \<Rightarrow> [fb] | _ \<Rightarrow> []) @
     reduce_inputs t @ binding_task_ids t @ transition_targets t"

definition referencing_task_ids :: "task list \<Rightarrow> string \<Rightarrow> string list" where
  "referencing_task_ids tasks target =
     map t_id (filter (\<lambda>t. target \<in> set (referenced_task_ids t)) tasks)"

definition transitive_referencing_task_ids :: "task list \<Rightarrow> string \<Rightarrow> string list option" where
  "transitive_referencing_task_ids tasks target =
     closure_loop (referencing_task_ids tasks) [] (referencing_task_ids tasks target) []"

section \<open>Readiness\<close>

datatype verdict =
    IsReady
  | Unavailable "skip_reason option"
  | NotSelected

definition dormant_as_pending_fallback :: "graph \<Rightarrow> string \<Rightarrow> bool" where
  "dormant_as_pending_fallback g i \<longleftrightarrow>
     (case g_find g i of None \<Rightarrow> False | Some t \<Rightarrow> t_reserved t)
     \<or> (\<exists>m \<in> set (g_tasks g). falls_back_to m i \<and> \<not> is_failed (t_state m))"

text \<open>
  \<open>data_inputs_failed\<close>: \<open>None\<close> to wait, \<open>Some True\<close> when a value cannot come. \<open>succeeded_sources\<close>
  counts the sources of a \<open>one_of\<close> that succeeded.
\<close>

fun succeeded_sources :: "graph \<Rightarrow> binding_source list \<Rightarrow> nat option" where
  "succeeded_sources g [] = Some 0"
| "succeeded_sources g (s # ss) =
     (case g_find g (bs_from s) of
        None \<Rightarrow> None
      | Some p \<Rightarrow>
          if \<not> is_terminal (t_state p) then None
          else map_option (\<lambda>n. if t_state p = Succeeded then Suc n else n) (succeeded_sources g ss))"

fun inputs_loop :: "graph \<Rightarrow> task_contract \<Rightarrow> (string \<times> input_binding) list \<Rightarrow> bool \<Rightarrow> bool option" where
  "inputs_loop g c [] failed = Some failed"
| "inputs_loop g c ((field, b) # bs) failed =
     (case b of
        LiteralBinding _ \<Rightarrow> inputs_loop g c bs failed
      | FromTask source _ \<Rightarrow>
          (case g_find g (bs_from source) of
             None \<Rightarrow> None
           | Some p \<Rightarrow>
               if t_state p = Succeeded then inputs_loop g c bs failed
               else if is_terminal (t_state p) then inputs_loop g c bs True
               else None)
      | OneOf sources _ \<Rightarrow>
          (case succeeded_sources g sources of
             None \<Rightarrow> None
           | Some n \<Rightarrow> inputs_loop g c bs (failed \<or> n = 0 \<and> \<not> field_may_be_absent c field)))"

definition data_inputs_failed :: "graph \<Rightarrow> task \<Rightarrow> bool option" where
  "data_inputs_failed g t =
     (case t_contract t of None \<Rightarrow> Some False | Some c \<Rightarrow> inputs_loop g c (tk_bindings c) False)"

definition fallback_of :: "task \<Rightarrow> string option" where
  "fallback_of t = (case jget (t_metadata t) ''fallback_of'' of Some (JStr s) \<Rightarrow> Some s | _ \<Rightarrow> None)"

definition fallback_state :: "graph \<Rightarrow> task \<Rightarrow> task_state option" where
  "fallback_state g main =
     (case t_on_failure main of
        Fallback (Some i) _ \<Rightarrow> map_option t_state (g_find g i)
      | Fallback None (Some _) \<Rightarrow>
          map_option t_state (find (\<lambda>t. fallback_of t = Some (t_id main)) (g_tasks g))
      | _ \<Rightarrow> None)"

fun v1_deps :: "graph \<Rightarrow> string list \<Rightarrow> bool \<Rightarrow> bool option" where
  "v1_deps g [] failed = Some failed"
| "v1_deps g (d # ds) failed =
     (case g_find g d of
        None \<Rightarrow> None
      | Some dep \<Rightarrow>
          if t_state dep = Succeeded then v1_deps g ds failed
          else if is_terminal (t_state dep) then
            (if is_fallback (t_on_failure dep) then
               (case fallback_state g dep of
                  None \<Rightarrow> None
                | Some s \<Rightarrow>
                    if s = Succeeded then v1_deps g ds failed
                    else if is_terminal s then v1_deps g ds True
                    else None)
             else v1_deps g ds True)
          else None)"

definition v1_readiness :: "graph \<Rightarrow> task \<Rightarrow> task_state option" where
  "v1_readiness g t =
     (case data_inputs_failed g t of
        None \<Rightarrow> None
      | Some data_failed \<Rightarrow>
          if \<exists>i \<in> set (reduce_inputs t). case g_find g i of None \<Rightarrow> True | Some p \<Rightarrow> \<not> is_terminal (t_state p)
          then None
          else map_option (\<lambda>failed. if failed then Skipped else Ready)
                 (v1_deps g (t_depends_on t) data_failed))"

definition unavailable :: "string \<Rightarrow> string \<Rightarrow> verdict" where
  "unavailable source st = Unavailable (Some (UpstreamUnavailable source st))"

definition fallback_not_needed :: "graph \<Rightarrow> task \<Rightarrow> verdict option" where
  "fallback_not_needed g t =
     (case find (\<lambda>m. falls_back_to m (t_id t)) (g_tasks g) of
        None \<Rightarrow> None
      | Some main \<Rightarrow>
          if \<not> is_terminal (t_state main) \<or> is_failed (t_state main) then None
          else Some (if path_status main = EdgeAvailable \<or> path_status main = EdgeNotSelected
                     then NotSelected else unavailable (t_id main) (state_name (t_state main))))"

text \<open>
  The control edges: \<open>None\<close> to wait, \<open>Some None\<close> once one of them selects the task. \<open>failed\<close> is the
  first source that cannot say.
\<close>

fun controls_loop :: "task list \<Rightarrow> string \<Rightarrow> bool \<Rightarrow> (string \<times> string) option \<Rightarrow> verdict option option" where
  "controls_loop [] target selected failed =
     Some (case failed of
             Some (source, st) \<Rightarrow> Some (unavailable source st)
           | None \<Rightarrow> if selected then None else Some NotSelected)"
| "controls_loop (s # ss) target selected failed =
     (case control_status s target of
        EdgePending \<Rightarrow> None
      | EdgeAvailable \<Rightarrow> controls_loop ss target True failed
      | EdgeNotSelected \<Rightarrow> controls_loop ss target selected failed
      | EdgeUnavailable source st \<Rightarrow>
          controls_loop ss target selected (if failed = None then Some (source, st) else failed))"

definition control_readiness :: "task list \<Rightarrow> string \<Rightarrow> verdict option option" where
  "control_readiness sources target = controls_loop sources target False None"

record tally =
  ty_any :: bool
  ty_all_not_selected :: bool
  ty_failed :: "(string \<times> string) option"

definition tally_empty :: tally where
  "tally_empty = \<lparr>ty_any = False, ty_all_not_selected = True, ty_failed = None\<rparr>"

definition tally_fail :: "string \<Rightarrow> string \<Rightarrow> tally \<Rightarrow> tally" where
  "tally_fail source st y = (if ty_failed y = None then y\<lparr>ty_failed := Some (source, st)\<rparr> else y)"

definition tally_see :: "edge_status \<Rightarrow> tally \<Rightarrow> tally option" where
  "tally_see status y =
     (let y1 = y\<lparr>ty_any := True\<rparr> in
      case status of
        EdgePending \<Rightarrow> None
      | EdgeNotSelected \<Rightarrow> Some y1
      | EdgeAvailable \<Rightarrow> Some (y1\<lparr>ty_all_not_selected := False\<rparr>)
      | EdgeUnavailable source st \<Rightarrow> Some (tally_fail source st (y1\<lparr>ty_all_not_selected := False\<rparr>)))"

definition tally_merge :: "edge_status \<Rightarrow> tally \<Rightarrow> tally option" where
  "tally_merge status y =
     (let y1 = y\<lparr>ty_any := True\<rparr> in
      case status of
        EdgePending \<Rightarrow> None
      | EdgeNotSelected \<Rightarrow> Some y1
      | _ \<Rightarrow> Some (y1\<lparr>ty_all_not_selected := False\<rparr>))"

definition tally_decide :: "bool \<Rightarrow> tally \<Rightarrow> verdict" where
  "tally_decide no_controls y =
     (if no_controls \<and> ty_any y \<and> ty_all_not_selected y then NotSelected
      else case ty_failed y of
             Some (source, st) \<Rightarrow> unavailable source st
           | None \<Rightarrow> IsReady)"

text \<open>\<open>fallback_covers\<close>: \<open>None\<close> while the fallback of a failed task may still decide.\<close>

definition fallback_covers :: "graph \<Rightarrow> task \<Rightarrow> bool option" where
  "fallback_covers g main =
     (if \<not> is_fallback (t_on_failure main) then Some False
      else case fallback_state g main of
             Some s \<Rightarrow> if s = Succeeded then Some True else if \<not> is_terminal s then None else Some False
           | None \<Rightarrow> if is_failed (t_state main) then None else Some False)"

fun typed_deps :: "graph \<Rightarrow> string list \<Rightarrow> tally \<Rightarrow> tally option" where
  "typed_deps g [] y = Some y"
| "typed_deps g (d # ds) y =
     (case g_find g d of
        None \<Rightarrow> None
      | Some dep \<Rightarrow>
          (case path_status dep of
             EdgeUnavailable source st \<Rightarrow>
               (case fallback_covers g dep of
                  None \<Rightarrow> None
                | Some True \<Rightarrow> Option.bind (tally_see EdgeAvailable y) (typed_deps g ds)
                | Some False \<Rightarrow> Option.bind (tally_see (EdgeUnavailable source st) y) (typed_deps g ds))
           | status \<Rightarrow> Option.bind (tally_see status y) (typed_deps g ds)))"

fun one_of_loop :: "graph \<Rightarrow> binding_source list \<Rightarrow> bool \<Rightarrow> tally \<Rightarrow> (bool \<times> tally) option" where
  "one_of_loop g [] succeeded y = Some (succeeded, y)"
| "one_of_loop g (s # ss) succeeded y =
     (case g_find g (bs_from s) of
        None \<Rightarrow> None
      | Some p \<Rightarrow>
          Option.bind (tally_merge (path_status p) y)
            (one_of_loop g ss (succeeded \<or> path_status p = EdgeAvailable)))"

fun typed_bindings :: "graph \<Rightarrow> task_contract \<Rightarrow> (string \<times> input_binding) list \<Rightarrow> tally \<Rightarrow> tally option" where
  "typed_bindings g c [] y = Some y"
| "typed_bindings g c ((field, b) # bs) y =
     (case b of
        LiteralBinding _ \<Rightarrow> typed_bindings g c bs y
      | FromTask source _ \<Rightarrow>
          (case g_find g (bs_from source) of
             None \<Rightarrow> None
           | Some s \<Rightarrow>
               if path_status s = EdgeNotSelected \<and> \<not> field_may_be_absent c field
               then Option.bind (tally_see EdgeNotSelected y)
                      (\<lambda>y'. typed_bindings g c bs (tally_fail (t_id s) ''not_selected'' y'))
               else Option.bind (tally_see (path_status s) y) (typed_bindings g c bs))
      | OneOf sources _ \<Rightarrow>
          (case one_of_loop g sources False y of
             None \<Rightarrow> None
           | Some (succeeded, y') \<Rightarrow>
               typed_bindings g c bs
                 (if \<not> succeeded \<and> \<not> field_may_be_absent c field
                  then tally_fail (case sources of [] \<Rightarrow> [] | s # _ \<Rightarrow> bs_from s) ''no one_of source succeeded'' y'
                  else y')))"

fun typed_reduce :: "graph \<Rightarrow> string list \<Rightarrow> tally \<Rightarrow> tally option" where
  "typed_reduce g [] y = Some y"
| "typed_reduce g (i # is) y =
     (case g_find g i of
        None \<Rightarrow> None
      | Some p \<Rightarrow> Option.bind (tally_merge (path_status p) y) (typed_reduce g is))"

definition typed_paths :: "graph \<Rightarrow> task \<Rightarrow> task_contract \<Rightarrow> verdict option" where
  "typed_paths g t c =
     Option.bind (typed_deps g (t_depends_on t) tally_empty) (\<lambda>y1.
     Option.bind (typed_bindings g c (tk_bindings c) y1) (\<lambda>y2.
     Option.bind (typed_reduce g (reduce_inputs t) y2) (\<lambda>y3.
     Some (tally_decide (g_controls g (t_id t) = None) y3))))"

definition typed_readiness :: "graph \<Rightarrow> task \<Rightarrow> verdict option" where
  "typed_readiness g t =
     (case g_controls g (t_id t) of
        Some sources \<Rightarrow>
          (case control_readiness sources (t_id t) of
             None \<Rightarrow> None
           | Some (Some decided) \<Rightarrow> Some decided
           | Some None \<Rightarrow> (case t_contract t of None \<Rightarrow> None | Some c \<Rightarrow> typed_paths g t c))
      | None \<Rightarrow> (case t_contract t of None \<Rightarrow> None | Some c \<Rightarrow> typed_paths g t c))"

definition readiness :: "graph \<Rightarrow> string \<Rightarrow> verdict option" where
  "readiness g i =
     (case g_find g i of
        None \<Rightarrow> None
      | Some t \<Rightarrow>
          if i \<in> set (g_inactive g) then None
          else case (if is_typed t then fallback_not_needed g t else None) of
                 Some r \<Rightarrow> Some r
               | None \<Rightarrow>
                   if dormant_as_pending_fallback g i then None
                   else if is_typed t then typed_readiness g t
                   else map_option (\<lambda>s. if s = Ready then IsReady else Unavailable None) (v1_readiness g t))"

definition evaluate_readiness :: "graph \<Rightarrow> string \<Rightarrow> task_state option" where
  "evaluate_readiness g i = map_option (\<lambda>r. if r = IsReady then Ready else Skipped) (readiness g i)"

end
