(* ===== verification/Task_Graph_Cycles.thy ===== *)
theory Task_Graph_Cycles
  imports Task_Graph
begin

text \<open>
  The search for dependency cycles finds one exactly when there is one: the invariant of the
  three-colour depth-first search.
\<close>

text \<open>\<open>edge g a b\<close>: the task \<open>a\<close> waits for the task \<open>b\<close>, and both are in the graph.\<close>

definition edge :: "graph \<Rightarrow> string \<Rightarrow> string \<Rightarrow> bool" where
  "edge g a b \<longleftrightarrow>
     (\<exists>t. g_find g a = Some t \<and>
        (b \<in> set (t_depends_on t) \<union> set (reduce_inputs t) \<union> set (binding_task_ids t)
         \<or> (\<exists>ss. g_controls g a = Some ss \<and> b \<in> t_id ` set ss)))
     \<and> g_find g b \<noteq> None"

lemma edge_alt:
  "edge g a b \<longleftrightarrow> (\<exists>t. g_find g a = Some t \<and> b \<in> fst ` set (cycle_edges g t)) \<and> g_find g b \<noteq> None"
proof (cases "g_find g a")
  case (Some t)
  then have "t_id t = a" by (simp add: g_find_Some)
  have "b \<in> fst ` set (cycle_edges g t) \<longleftrightarrow>
      b \<in> set (t_depends_on t) \<union> set (reduce_inputs t) \<union> set (binding_task_ids t)
      \<or> (\<exists>ss. g_controls g a = Some ss \<and> b \<in> t_id ` set ss)"
    unfolding cycle_edges_def \<open>t_id t = a\<close> by (cases "g_controls g a") (auto simp: image_Un image_image)
  with Some show ?thesis by (simp add: edge_def)
qed (simp add: edge_def)

definition deps_known :: "graph \<Rightarrow> string \<Rightarrow> bool" where
  "deps_known g a \<longleftrightarrow> (\<forall>t. g_find g a = Some t \<longrightarrow> (\<forall>d \<in> set (t_depends_on t). g_find g d \<noteq> None))"

text \<open>Done nodes lead to done nodes only, along no cycle, and their dependencies are known.\<close>

definition done_ok :: "graph \<Rightarrow> (string \<Rightarrow> nat) \<Rightarrow> bool" where
  "done_ok g color \<longleftrightarrow>
     (\<forall>a b. color a = 2 \<longrightarrow> edge g a b \<longrightarrow> color b = 2) \<and>
     acyclic {(a, b). color a = 2 \<and> edge g a b} \<and>
     (\<forall>a. color a = 2 \<longrightarrow> deps_known g a)"

definition dfs_inv :: "graph \<Rightarrow> (string \<Rightarrow> nat) \<Rightarrow> string list \<Rightarrow> bool" where
  "dfs_inv g color stack \<longleftrightarrow>
     distinct stack \<and> (\<forall>x. color x = 1 \<longleftrightarrow> x \<in> set stack) \<and> (\<forall>x. color x \<le> 2) \<and>
     successively (edge g) stack \<and> done_ok g color"

text \<open>What an error of the search says of the graph.\<close>

definition cycle_report :: "graph \<Rightarrow> agent_error \<Rightarrow> bool" where
  "cycle_report g e \<longleftrightarrow>
     (case e of
        DependencyCycle cs \<Rightarrow> cs \<noteq> [] \<and> distinct cs \<and> successively (edge g) cs \<and> edge g (last cs) (hd cs)
      | UnknownDependency d \<Rightarrow> g_find g d = None \<and> (\<exists>t \<in> set (g_tasks g). d \<in> set (t_depends_on t))
      | _ \<Rightarrow> False)"

lemma finish_node:
  assumes ok: "done_ok g c" and new: "c n \<noteq> 2"
    and out: "\<And>b. edge g n b \<Longrightarrow> c b = 2" and known: "deps_known g n"
  shows "done_ok g (c(n := 2))"
proof -
  let ?r = "{(a, b). c a = 2 \<and> edge g a b}"
  let ?r' = "{(a, b). (c(n := 2)) a = 2 \<and> edge g a b}"
  have closed: "c b = 2" if "(a, b) \<in> ?r'\<^sup>+" for a b
    using that
  proof induction
    case (base y)
    then show ?case using ok out by (auto simp: done_ok_def split: if_splits)
  next
    case (step y z)
    then show ?case using ok out by (auto simp: done_ok_def split: if_splits)
  qed
  have inside: "(a, b) \<in> ?r\<^sup>+" if "(a, b) \<in> ?r'\<^sup>+" "c a = 2" for a b
    using that
  proof induction
    case (base y)
    then show ?case using new by (auto split: if_splits)
  next
    case (step y z)
    have "c y = 2" using closed [OF step.hyps(1)] .
    then have "(y, z) \<in> ?r" using step.hyps(2) new by (auto split: if_splits)
    with step show ?case by (meson trancl_into_trancl)
  qed
  have "acyclic ?r'"
  proof (rule acyclicI, rule allI, rule notI)
    fix x assume x: "(x, x) \<in> ?r'\<^sup>+"
    with closed have "c x = 2" by blast
    with inside [OF x] ok show False by (auto simp: done_ok_def acyclic_def)
  qed
  moreover have "(c(n := 2)) b = 2" if "(c(n := 2)) a = 2" "edge g a b" for a b
    using closed [of a b] that by auto
  ultimately show ?thesis using ok known unfolding done_ok_def by auto
qed

text \<open>What a call leaves: the stack as it was, the new done nodes, or a truthful error.\<close>

definition dfs_post ::
  "graph \<Rightarrow> ((string \<Rightarrow> nat) \<Rightarrow> bool) \<Rightarrow> dfs_state \<Rightarrow> agent_error + dfs_state \<Rightarrow> bool" where
  "dfs_post g Q st r \<longleftrightarrow>
     (case r of
        Inl e \<Rightarrow> cycle_report g e
      | Inr (c, s) \<Rightarrow> s = snd st \<and> dfs_inv g c s \<and> (\<forall>x. fst st x = 2 \<longrightarrow> c x = 2) \<and> Q c)"

definition edges_done :: "graph \<Rightarrow> (string \<times> bool) list \<Rightarrow> (string \<Rightarrow> nat) \<Rightarrow> bool" where
  "edges_done g es c \<longleftrightarrow> (\<forall>(d, strict) \<in> set es. case g_find g d of None \<Rightarrow> \<not> strict | Some _ \<Rightarrow> c d = 2)"

lemma strict_edges: "(d, True) \<in> set (cycle_edges g t) \<longleftrightarrow> d \<in> set (t_depends_on t)"
  by (auto simp: cycle_edges_def)

lemma push_inv:
  assumes "dfs_inv g color stack" "color node = 0" "stack \<noteq> [] \<Longrightarrow> edge g (last stack) node"
  shows "dfs_inv g (color(node := 1)) (stack @ [node])"
proof -
  have "done_ok g (color(node := 1))"
    using assms(1,2) unfolding dfs_inv_def done_ok_def
    by (auto elim!: acyclic_subset split: if_splits)
  moreover have "node \<notin> set stack" using assms(1,2) by (metis dfs_inv_def zero_neq_one)
  ultimately show ?thesis
    using assms by (auto simp: dfs_inv_def successively_append_iff)
qed

lemma pop_inv:
  assumes inv: "dfs_inv g c (stack @ [node])" and found: "g_find g node = Some t"
    and finished: "edges_done g (cycle_edges g t) c"
  shows "dfs_inv g (c(node := 2)) stack"
proof -
  from inv have "c node = 1" by (auto simp: dfs_inv_def)
  have "done_ok g (c(node := 2))"
  proof (rule finish_node)
    show "done_ok g c" using inv by (simp add: dfs_inv_def)
    show "c node \<noteq> 2" using \<open>c node = 1\<close> by simp
    show "c b = 2" if "edge g node b" for b
      using that finished found by (fastforce simp: edge_alt edges_done_def split: option.splits)
    show "deps_known g node"
      using finished found strict_edges [of _ g t] by (fastforce simp: deps_known_def edges_done_def split: option.splits)
  qed
  then show ?thesis
    using inv by (auto simp: dfs_inv_def successively_append_iff)
qed

lemma gray_cycle:
  assumes "dfs_inv g color stack" "color dep = 1" "edge g (last stack) dep"
  shows "cycle_report g (DependencyCycle (if dep \<in> set stack then dropWhile (\<lambda>x. x \<noteq> dep) stack else stack))"
proof -
  from assms(1,2) have "dep \<in> set stack" by (simp add: dfs_inv_def)
  then obtain xs ys where st: "stack = xs @ dep # ys" "dep \<notin> set xs" by (meson split_list_first)
  then have "dropWhile (\<lambda>x. x \<noteq> dep) stack = dep # ys" by (auto simp: dropWhile_append)
  moreover have "successively (edge g) (dep # ys)" "distinct (dep # ys)"
    using assms(1) st by (auto simp: dfs_inv_def successively_append_iff)
  moreover have "last (dep # ys) = last stack" using st by simp
  ultimately show ?thesis using assms(3) \<open>dep \<in> set stack\<close> by (simp add: cycle_report_def)
qed

lemma dfs_correct:
  "dfs_inv g color stack \<Longrightarrow> color node = 0 \<Longrightarrow> g_find g node \<noteq> None \<Longrightarrow>
     (stack \<noteq> [] \<Longrightarrow> edge g (last stack) node) \<Longrightarrow>
     dfs_post g (\<lambda>c. c node = 2) (color, stack) (dfs_cycle g node (color, stack))"
  "dfs_inv g (fst st) (snd st) \<Longrightarrow> snd st \<noteq> [] \<Longrightarrow>
     (\<And>d strict. (d, strict) \<in> set es \<Longrightarrow> g_find g d \<noteq> None \<Longrightarrow> edge g (last (snd st)) d) \<Longrightarrow>
     (\<And>d. (d, True) \<in> set es \<Longrightarrow> \<exists>t \<in> set (g_tasks g). d \<in> set (t_depends_on t)) \<Longrightarrow>
     dfs_post g (edges_done g es) st (visit_edges g es st)"
proof (induction g node "(color, stack)" and g es st arbitrary: color stack rule: dfs_cycle_visit_edges.induct)
  case (1 g node color stack)
  then obtain t where found: "g_find g node = Some t" by blast
  let ?st = "(color(node := 1), stack @ [node])"
  have "dfs_post g (edges_done g (cycle_edges g t)) ?st (visit_edges g (cycle_edges g t) ?st)"
  proof (rule 1(1) [OF refl refl found])
    show "dfs_inv g (fst ?st) (snd ?st)" using push_inv [OF 1(2,3,5)] by simp
    show "edge g (last (snd ?st)) d" if "(d, strict) \<in> set (cycle_edges g t)" "g_find g d \<noteq> None" for d strict
      using that found by (force simp: edge_alt)
    show "\<exists>t \<in> set (g_tasks g). d \<in> set (t_depends_on t)" if "(d, True) \<in> set (cycle_edges g t)" for d
      using that found by (auto simp: strict_edges dest: g_find_Some)
  qed simp
  then show ?case
    using pop_inv [OF _ found, of _ stack] 1(3)
    by (auto simp: dfs_post_def dfs_cycle.simps [of g node] found sbind_def split: sum.splits)
next
  case (2 g st)
  then show ?case by (cases st) (simp add: dfs_post_def edges_done_def)
next
  case (3 g dep strict es color stack)
  show ?case
  proof (cases "g_find g dep")
    case None
    show ?thesis
    proof (cases strict)
      case True
      with None 3(7) show ?thesis by (auto simp: visit_edges.simps dfs_post_def cycle_report_def)
    next
      case False
      have "dfs_post g (edges_done g es) (color, stack) (visit_edges g es (color, stack))"
        by (rule 3(1) [OF None False 3(4,5)]) (use 3(6,7) in auto)
      with None False show ?thesis
        by (auto simp: visit_edges.simps dfs_post_def edges_done_def split: sum.splits)
    qed
  next
    case (Some t)
    let ?first = "if color dep = 0 then dfs_cycle g dep (color, stack)
        else if color dep = 1
        then Inl (DependencyCycle (if dep \<in> set stack then dropWhile (\<lambda>x. x \<noteq> dep) stack else stack))
        else Inr (color, stack)"
    have e: "edge g (last stack) dep" using 3(6) Some by force
    have first: "dfs_post g (\<lambda>c. c dep = 2) (color, stack) ?first"
    proof (cases "color dep = 0")
      case True
      with 3(2) [OF Some True] 3(4) Some e show ?thesis by auto
    next
      case False
      have "color dep \<le> 2" using 3(4) by (auto simp: dfs_inv_def)
      with False gray_cycle [OF _ _ e] 3(4) show ?thesis
        by (auto simp: dfs_post_def)
    qed
    show ?thesis
    proof (cases ?first)
      case (Inl e)
      with first show ?thesis by (simp add: visit_edges.simps Some sbind_def dfs_post_def)
    next
      case (Inr st1)
      with first have st1: "snd st1 = stack" "dfs_inv g (fst st1) stack" "fst st1 dep = 2"
        "\<And>x. color x = 2 \<Longrightarrow> fst st1 x = 2"
        by (auto simp: dfs_post_def split: prod.splits)
      have "dfs_post g (edges_done g es) st1 (visit_edges g es st1)"
        using st1 3(5-7) by (intro 3(3) [OF Some Inr]) auto
      with Inr st1 Some show ?thesis
        by (auto simp: visit_edges.simps sbind_def dfs_post_def edges_done_def split: sum.splits)
    qed
  qed
qed

lemma detect_from_correct:
  assumes "dfs_inv g (fst st) []" "snd st = []"
    and "\<And>i. i \<in> set starts \<Longrightarrow> g_find g i \<noteq> None"
  shows "case detect_from g starts st of
      Inl e \<Rightarrow> cycle_report g e
    | Inr (c, s) \<Rightarrow> dfs_inv g c [] \<and> (\<forall>i \<in> set starts. c i = 2) \<and> (\<forall>x. fst st x = 2 \<longrightarrow> c x = 2)"
  using assms
proof (induction g starts st rule: detect_from.induct)
  case (2 g start rest color stack)
  show ?case
  proof (cases "color start = 0")
    case True
    have post: "dfs_post g (\<lambda>c. c start = 2) (color, stack) (dfs_cycle g start (color, stack))"
      using 2(3-5) True by (intro dfs_correct(1)) auto
    show ?thesis
    proof (cases "dfs_cycle g start (color, stack)")
      case (Inl e)
      with post True show ?thesis by (simp add: dfs_post_def sbind_def)
    next
      case (Inr st')
      with post 2(4) have st': "dfs_inv g (fst st') []" "snd st' = []" "fst st' start = 2"
        "\<And>x. color x = 2 \<Longrightarrow> fst st' x = 2"
        by (auto simp: dfs_post_def split: prod.splits)
      with True Inr 2(2) [of st'] 2(5) show ?thesis by (auto simp: sbind_def split: sum.splits)
    qed
  next
    case False
    have "color start \<le> 2" "color start \<noteq> 1" using 2(3) by (auto simp: dfs_inv_def)
    then have "color start = 2" using False by linarith
    with 2(1) [OF False] 2(3-5) False show ?thesis by (auto split: sum.splits)
  qed
qed (auto split: prod.splits)

lemma successively_reaches:
  "successively R xs \<Longrightarrow> xs \<noteq> [] \<Longrightarrow> (hd xs, last xs) \<in> {(a, b). R a b}\<^sup>*"
  by (induction xs rule: induct_list012) (auto intro: converse_rtrancl_into_rtrancl)

lemma cycle_report_cyclic:
  assumes "cycle_report g e" "distinct (map t_id (g_tasks g))"
  shows "\<not> acyclic {(a, b). edge g a b} \<or> (\<exists>a. \<not> deps_known g a)"
proof (cases e)
  case (DependencyCycle cs)
  with assms have cs: "cs \<noteq> []" "successively (edge g) cs" "edge g (last cs) (hd cs)"
    by (auto simp: cycle_report_def)
  then have "(hd cs, hd cs) \<in> {(a, b). edge g a b}\<^sup>+"
    using successively_reaches [OF cs(2,1)] by (auto intro: rtrancl_into_trancl1)
  then show ?thesis by (auto simp: acyclic_def)
next
  case (UnknownDependency d)
  with assms(1) obtain t where t: "t \<in> set (g_tasks g)" "d \<in> set (t_depends_on t)" "g_find g d = None"
    by (auto simp: cycle_report_def)
  then have "g_find g (t_id t) = Some t"
    using find_Some_iff_distinct [OF assms(2)] by (auto simp: g_find_def)
  with t show ?thesis by (auto simp: deps_known_def)
qed (use assms in \<open>simp_all add: cycle_report_def\<close>)

lemma detect_cycles_cases:
  "case detect_cycles g of
     Inl e \<Rightarrow> cycle_report g e
   | Inr _ \<Rightarrow> acyclic {(a, b). edge g a b} \<and> (\<forall>a. deps_known g a)"
proof -
  let ?starts = "map t_id (g_tasks g)"
  have inv: "dfs_inv g (\<lambda>_. 0) []" by (auto simp: dfs_inv_def done_ok_def acyclic_def)
  have starts: "g_find g i \<noteq> None" if "i \<in> set ?starts" for i
    using that by (auto simp: g_find_def find_None_iff)
  note run = detect_from_correct [of g "(\<lambda>_. 0, [])" ?starts, OF _ _ starts]
  show ?thesis
  proof (cases "detect_from g ?starts (\<lambda>_. 0, [])")
    case (Inl e)
    with run inv show ?thesis by (simp add: detect_cycles_def sbind_def)
  next
    case (Inr st)
    with run inv have "dfs_inv g (fst st) []" "\<And>i. i \<in> set ?starts \<Longrightarrow> fst st i = 2"
      by (auto split: prod.splits)
    then have ok: "done_ok g (fst st)" and black: "\<And>i t. g_find g i = Some t \<Longrightarrow> fst st i = 2"
      by (auto simp: dfs_inv_def dest: g_find_Some)
    have "{(a, b). edge g a b} \<subseteq> {(a, b). fst st a = 2 \<and> edge g a b}"
      using black by (auto simp: edge_alt)
    then have "acyclic {(a, b). edge g a b}" using ok by (auto simp: done_ok_def elim: acyclic_subset)
    moreover have "\<forall>a. deps_known g a"
    proof (rule allI)
      fix a show "deps_known g a"
      proof (cases "g_find g a")
        case (Some t)
        with black have "fst st a = 2" by blast
        with ok show ?thesis by (simp add: done_ok_def)
      qed (simp add: deps_known_def)
    qed
    ultimately show ?thesis using Inr by (simp add: detect_cycles_def sbind_def)
  qed
qed

text \<open>C29. The cycle check accepts a set of tasks exactly when their dependencies, reduce inputs,
  binding sources and transitions form no cycle and every dependency is a task of the set; what it
  reports otherwise is a cycle of the graph or a dependency that is missing. It does so in whatever
  order the tasks are listed.\<close>

theorem detect_cycles_exact:
  assumes "listing order" and "g = build order tasks"
  shows "(detect_cycles g = Inr () \<longleftrightarrow> acyclic {(a, b). edge g a b} \<and> (\<forall>a. deps_known g a)) \<and>
    (\<forall>e. detect_cycles g = Inl e \<longrightarrow> cycle_report g e)"
proof -
  have "distinct (map t_id (g_tasks g))" using assms build_distinct by blast
  with detect_cycles_cases [of g] cycle_report_cyclic [of g] show ?thesis
    by (cases "detect_cycles g") auto
qed

theorem detect_cycles_exact_witness:
  "let g = build rev [sample_task ''a'' [''b''], sample_task ''b'' [''c''], sample_task ''c'' [''a'']]
   in detect_cycles g = Inl (DependencyCycle [''c'', ''a'', ''b'']) \<and> cycle_report g (DependencyCycle [''c'', ''a'', ''b''])"
proof -
  let ?ts = "[sample_task ''a'' [''b''], sample_task ''b'' [''c''], sample_task ''c'' [''a'']]"
  have "detect_cycles (build rev ?ts) = Inl (DependencyCycle [''c'', ''a'', ''b''])" by code_simp
  then show ?thesis
    using detect_cycles_exact [of rev _ ?ts, OF _ refl] by (simp add: listing_def Let_def)
qed

end
