(* ===== verification/Task_Graph_Laws.thy ===== *)
theory Task_Graph_Laws
  imports Task_Graph_Cycles
begin

text \<open>
  The searches of the graph are the transitive closures, and the verdict on a waiting task is what
  the states of the tasks it waits for say.
\<close>

section \<open>The worklist search\<close>

definition reach :: "(string \<Rightarrow> string list) \<Rightarrow> string set \<Rightarrow> string set" where
  "reach nxt S = {(a, b). b \<in> set (nxt a)}\<^sup>* `` S"

lemma reach_union: "reach nxt (A \<union> B) = reach nxt A \<union> reach nxt B"
  by (auto simp: reach_def)

lemma reach_self: "x \<in> S \<Longrightarrow> x \<in> reach nxt S"
  by (auto simp: reach_def)

lemma reach_unfold: "reach nxt {x} = insert x (reach nxt (set (nxt x)))"
  unfolding reach_def by (auto elim: converse_rtranclE intro: converse_rtrancl_into_rtrancl)

lemma reach_closed:
  assumes "x \<in> C" "\<And>y. y \<in> C \<Longrightarrow> set (nxt y) \<subseteq> C \<union> reach nxt S"
  shows "reach nxt {x} \<subseteq> C \<union> reach nxt S"
proof -
  have "y \<in> C \<union> reach nxt S" if "(x, y) \<in> {(a, b). b \<in> set (nxt a)}\<^sup>*" for y
    using that
  proof induction
    case (step y z)
    then show ?case
      using assms(2) [of y] by (auto simp: reach_def intro: rtrancl_into_rtrancl)
  qed (use assms(1) in simp)
  then show ?thesis by (auto simp: reach_def)
qed

text \<open>
  A search whose steps stay among finitely many ids ends, with the ids reached, each once. The
  graph and the task list both give such steps.
\<close>

locale worklist =
  fixes nxt :: "string \<Rightarrow> string list"
  assumes bounded: "finite (\<Union>x. set (nxt x))"
begin

lemma loop_total:
  assumes "finite (set seen)" "\<And>x. x \<in> set seen \<Longrightarrow> set (nxt x) \<subseteq> set seen \<union> set queue"
    and "set out = set seen" "distinct out"
  shows "\<exists>out'. closure_loop nxt seen queue out = Some out' \<and> distinct out' \<and>
    set out' = set seen \<union> reach nxt (set queue)"
  using assms
proof (induction "(card ((\<Union>x. set (nxt x)) \<union> set queue - set seen), length queue)"
    arbitrary: seen queue out rule: less_induct)
  case less
  let ?U = "\<Union>x. set (nxt x)"
  show ?case
  proof (cases queue rule: rev_cases)
    case Nil
    with less.prems show ?thesis by (subst closure_loop.simps) (simp add: reach_def)
  next
    case (snoc rest cur)
    have fin: "finite (?U \<union> set queue - set seen)" using bounded by simp
    show ?thesis
    proof (cases "cur \<in> set seen")
      case True
      have "?U \<union> set rest - set seen = ?U \<union> set queue - set seen" using True snoc by auto
      then have less': "((card (?U \<union> set rest - set seen), length rest), (card (?U \<union> set queue - set seen), length queue))
          \<in> less_than <*lex*> less_than" using snoc by simp
      have "\<exists>out'. closure_loop nxt seen rest out = Some out' \<and> distinct out' \<and>
          set out' = set seen \<union> reach nxt (set rest)"
        using less.prems True snoc less' by (intro less.hyps) auto
      moreover have "reach nxt {cur} \<subseteq> set seen \<union> reach nxt (set rest)"
        using True less.prems(2) snoc by (intro reach_closed) (auto intro: reach_self)
      then have "set seen \<union> reach nxt (set queue) = set seen \<union> reach nxt (set rest)"
        using snoc reach_union [of nxt "{cur}" "set rest"] by auto
      ultimately show ?thesis using snoc True by (subst closure_loop.simps) simp
    next
      case False
      have "?U \<union> set (rest @ nxt cur) - set (cur # seen) \<subset> ?U \<union> set queue - set seen"
        using False snoc by auto
      from psubset_card_mono [OF fin this] have
        "((card (?U \<union> set (rest @ nxt cur) - set (cur # seen)), length (rest @ nxt cur)),
          (card (?U \<union> set queue - set seen), length queue)) \<in> less_than <*lex*> less_than" by simp
      then have "\<exists>out'. closure_loop nxt (cur # seen) (rest @ nxt cur) (out @ [cur]) = Some out' \<and> distinct out' \<and>
          set out' = set (cur # seen) \<union> reach nxt (set (rest @ nxt cur))"
        using less.prems False snoc by (intro less.hyps) auto
      moreover have "set (cur # seen) \<union> reach nxt (set (rest @ nxt cur)) = set seen \<union> reach nxt (set queue)"
        using snoc reach_union [of nxt "{cur}" "set rest"] reach_union [of nxt "set rest" "set (nxt cur)"]
          reach_unfold [of nxt cur] by auto
      ultimately show ?thesis using snoc False by (subst closure_loop.simps) simp
    qed
  qed
qed

lemma closure_total:
  "\<exists>out. closure_loop nxt [] (nxt x) [] = Some out \<and> distinct out \<and>
     set out = {y. (x, y) \<in> {(a, b). b \<in> set (nxt a)}\<^sup>+}"
proof -
  have "reach nxt (set (nxt x)) = {y. (x, y) \<in> {(a, b). b \<in> set (nxt a)}\<^sup>+}"
    by (auto simp: reach_def trancl_unfold_left)
  with loop_total [of "[]" "nxt x" "[]"] show ?thesis by auto
qed

end

interpretation down: worklist "downstream_of g" for g
  by unfold_locales (rule finite_subset [of _ "t_id ` set (g_tasks g)"], auto simp: downstream_of_def)

interpretation refs: worklist "referencing_task_ids tasks" for tasks
  by unfold_locales (rule finite_subset [of _ "t_id ` set tasks"], auto simp: referencing_task_ids_def)

text \<open>C31. The transitive downstream of a task is found whole: the search ends, and it lists each
  task that depends on it, directly or through others, once, whatever cycles the graph has.\<close>

theorem transitive_downstream_exact:
  "\<exists>out. transitive_downstream g i = Some out \<and> distinct out \<and>
     set out = {j. (i, j) \<in> {(a, b). b \<in> set (downstream_of g a)}\<^sup>+}"
  unfolding transitive_downstream_def by (rule down.closure_total)

text \<open>What a cascading removal of a task takes with it is exactly the tasks that refer to it,
  directly or through others.\<close>

theorem transitive_referencing_exact:
  "\<exists>out. transitive_referencing_task_ids tasks i = Some out \<and> distinct out \<and>
     set out = {j. (i, j) \<in> {(a, b). \<exists>t \<in> set tasks. t_id t = b \<and> a \<in> set (referenced_task_ids t)}\<^sup>+}"
proof -
  have "{(a, b). b \<in> set (referencing_task_ids tasks a)} =
      {(a, b). \<exists>t \<in> set tasks. t_id t = b \<and> a \<in> set (referenced_task_ids t)}"
    by (auto simp: referencing_task_ids_def)
  with refs.closure_total [of tasks i] show ?thesis by (simp add: transitive_referencing_task_ids_def)
qed

section \<open>What a task waits for\<close>

lemma path_status_pending: "path_status p = EdgePending \<longleftrightarrow> \<not> is_terminal (t_state p)"
  by (auto simp: path_status_def)

lemma path_status_available: "path_status p = EdgeAvailable \<longleftrightarrow> t_state p = Succeeded"
  by (auto simp: path_status_def)

lemma path_status_not_selected: "path_status p = EdgeNotSelected \<longleftrightarrow> t_state p = Skipped \<and> is_not_selected p"
  by (auto simp: path_status_def)

definition ended :: "graph \<Rightarrow> string \<Rightarrow> bool" where
  "ended g j \<longleftrightarrow> (\<exists>p. g_find g j = Some p \<and> is_terminal (t_state p))"

definition succeeded :: "graph \<Rightarrow> string \<Rightarrow> bool" where
  "succeeded g j \<longleftrightarrow> (\<exists>p. g_find g j = Some p \<and> t_state p = Succeeded)"

definition skipped_branch :: "graph \<Rightarrow> string \<Rightarrow> bool" where
  "skipped_branch g j \<longleftrightarrow> (\<exists>p. g_find g j = Some p \<and> t_state p = Skipped \<and> is_not_selected p)"

text \<open>
  What stands for a dependency: itself, or the fallback it has failed over to. \<open>None\<close> while that is
  open.
\<close>

definition v1_stands :: "graph \<Rightarrow> string \<Rightarrow> bool option" where
  "v1_stands g d =
     (case g_find g d of
        None \<Rightarrow> None
      | Some p \<Rightarrow>
          if t_state p = Succeeded then Some True
          else if \<not> is_terminal (t_state p) then None
          else if \<not> is_fallback (t_on_failure p) then Some False
          else (case fallback_state g p of
                  None \<Rightarrow> None
                | Some s \<Rightarrow> if is_terminal s then Some (s = Succeeded) else None))"

lemma v1_deps_step:
  "v1_deps g (d # ds) failed =
     (case v1_stands g d of None \<Rightarrow> None | Some ok \<Rightarrow> v1_deps g ds (if ok then failed else True))"
proof (cases "g_find g d")
  case (Some p)
  then show ?thesis by (cases "fallback_state g p") (simp_all add: v1_stands_def)
qed (simp add: v1_stands_def)

lemma v1_deps_eq:
  "v1_deps g ds failed =
     (if \<exists>d \<in> set ds. v1_stands g d = None then None
      else Some (failed \<or> (\<exists>d \<in> set ds. v1_stands g d = Some False)))"
proof (induction ds arbitrary: failed)
  case (Cons d ds)
  show ?case by (cases "v1_stands g d") (simp_all add: v1_deps_step Cons.IH del: v1_deps.simps)
qed simp

text \<open>When an untyped task may run: never before its main has failed if it is a fallback, nor
  before every reduce input has ended; then at once when each dependency succeeded or failed over to
  a fallback that succeeded, and never when one of them is settled otherwise.\<close>

theorem v1_readiness_exact:
  assumes "g_find g i = Some t" and "\<not> is_typed t" and "i \<notin> set (g_inactive g)"
  shows "readiness g i =
     (if dormant_as_pending_fallback g i \<or> (\<exists>j \<in> set (reduce_inputs t). \<not> ended g j)
         \<or> (\<exists>d \<in> set (t_depends_on t). v1_stands g d = None) then None
      else Some (if \<exists>d \<in> set (t_depends_on t). v1_stands g d = Some False then Unavailable None else IsReady))"
proof -
  have "(case g_find g j of None \<Rightarrow> True | Some p \<Rightarrow> \<not> is_terminal (t_state p)) \<longleftrightarrow> \<not> ended g j" for j
    by (auto simp: ended_def split: option.split)
  moreover have "data_inputs_failed g t = Some False"
    using assms(2) by (simp add: data_inputs_failed_def is_typed_def)
  ultimately have "v1_readiness g t =
      (if (\<exists>j \<in> set (reduce_inputs t). \<not> ended g j) \<or> (\<exists>d \<in> set (t_depends_on t). v1_stands g d = None) then None
       else Some (if \<exists>d \<in> set (t_depends_on t). v1_stands g d = Some False then Skipped else Ready))"
    unfolding v1_readiness_def v1_deps_eq by auto
  moreover have "readiness g i = (if dormant_as_pending_fallback g i then None
      else map_option (\<lambda>s. if s = Ready then IsReady else Unavailable None) (v1_readiness g t))"
    using assms by (simp add: readiness_def)
  ultimately show ?thesis by (simp del: not_None_eq)
qed

section \<open>Typed tasks\<close>

definition dep_waits :: "graph \<Rightarrow> string \<Rightarrow> bool" where
  "dep_waits g d \<longleftrightarrow>
     \<not> ended g d \<or> (\<exists>p. g_find g d = Some p \<and> \<not> succeeded g d \<and> \<not> skipped_branch g d \<and> fallback_covers g p = None)"

definition dep_fails :: "graph \<Rightarrow> string \<Rightarrow> bool" where
  "dep_fails g d \<longleftrightarrow>
     (\<exists>p. g_find g d = Some p \<and> \<not> succeeded g d \<and> \<not> skipped_branch g d \<and> fallback_covers g p = Some False)"

definition binding_fails :: "graph \<Rightarrow> task_contract \<Rightarrow> string \<times> input_binding \<Rightarrow> bool" where
  "binding_fails g c fb \<longleftrightarrow>
     (case snd fb of
        LiteralBinding _ \<Rightarrow> False
      | FromTask s _ \<Rightarrow> \<not> succeeded g (bs_from s)
          \<and> \<not> (skipped_branch g (bs_from s) \<and> field_may_be_absent c (fst fb))
      | OneOf ss _ \<Rightarrow> \<not> field_may_be_absent c (fst fb) \<and> (\<forall>s \<in> set ss. \<not> succeeded g (bs_from s)))"

definition sources_of :: "(string \<times> input_binding) list \<Rightarrow> string set" where
  "sources_of bs = (\<Union>(f, b) \<in> set bs. bs_from ` set (binding_sources b))"

text \<open>What a tally says after the edges from \<open>js\<close>, none of which was pending.\<close>

definition tally_after :: "graph \<Rightarrow> tally \<Rightarrow> string set \<Rightarrow> bool \<Rightarrow> tally \<Rightarrow> bool" where
  "tally_after g y js failing y' \<longleftrightarrow>
     (ty_any y' \<longleftrightarrow> ty_any y \<or> js \<noteq> {}) \<and>
     (ty_all_not_selected y' \<longleftrightarrow> ty_all_not_selected y \<and> (\<forall>j \<in> js. skipped_branch g j)) \<and>
     (ty_failed y' = None \<longleftrightarrow> ty_failed y = None \<and> \<not> failing)"

lemma tally_after_trans:
  "tally_after g y js f y1 \<Longrightarrow> tally_after g y1 ks f' y2 \<Longrightarrow> tally_after g y (js \<union> ks) (f \<or> f') y2"
  unfolding tally_after_def ball_Un Un_empty by meson

lemma see_after:
  assumes "g_find g j = Some p"
  shows "tally_see (path_status p) y =
    (if is_terminal (t_state p) then Some (the (tally_see (path_status p) y)) else None)"
    "is_terminal (t_state p) \<Longrightarrow>
      tally_after g y {j} (\<not> succeeded g j \<and> \<not> skipped_branch g j) (the (tally_see (path_status p) y))"
proof -
  note defs = path_status_def tally_see_def tally_fail_def tally_after_def succeeded_def skipped_branch_def Let_def assms
  consider "t_state p = Succeeded" | "t_state p = Skipped" "is_not_selected p"
    | "t_state p \<noteq> Succeeded" "\<not> (t_state p = Skipped \<and> is_not_selected p)" by blast
  then show "tally_see (path_status p) y =
    (if is_terminal (t_state p) then Some (the (tally_see (path_status p) y)) else None)"
    "is_terminal (t_state p) \<Longrightarrow>
      tally_after g y {j} (\<not> succeeded g j \<and> \<not> skipped_branch g j) (the (tally_see (path_status p) y))"
    by (cases; simp add: defs)+
qed

lemma merge_after:
  assumes "g_find g j = Some p"
  shows "tally_merge (path_status p) y =
    (if is_terminal (t_state p) then Some (the (tally_merge (path_status p) y)) else None)"
    "is_terminal (t_state p) \<Longrightarrow> tally_after g y {j} False (the (tally_merge (path_status p) y))"
proof -
  note defs = path_status_def tally_merge_def tally_after_def succeeded_def skipped_branch_def Let_def assms
  consider "t_state p = Succeeded" | "t_state p = Skipped" "is_not_selected p"
    | "t_state p \<noteq> Succeeded" "\<not> (t_state p = Skipped \<and> is_not_selected p)" by blast
  then show "tally_merge (path_status p) y =
    (if is_terminal (t_state p) then Some (the (tally_merge (path_status p) y)) else None)"
    "is_terminal (t_state p) \<Longrightarrow>
      tally_after g y {j} (False) (the (tally_merge (path_status p) y))"
    by (cases; simp add: defs)+
qed

definition tally_result ::
  "graph \<Rightarrow> tally \<Rightarrow> string set \<Rightarrow> bool \<Rightarrow> bool \<Rightarrow> tally option \<Rightarrow> bool" where
  "tally_result g y js waiting failing r \<longleftrightarrow>
     (if waiting then r = None else \<exists>y'. r = Some y' \<and> tally_after g y js failing y')"

lemma tally_result_bind:
  assumes "tally_result g y js w f r" "\<And>y1. tally_result g y1 ks w' f' (k y1)"
  shows "tally_result g y (js \<union> ks) (w \<or> w') (f \<or> f') (Option.bind r k)"
proof (cases w)
  case False
  with assms(1) obtain y1 where "r = Some y1" "tally_after g y js f y1" by (auto simp: tally_result_def)
  then show ?thesis
    using assms(2) [of y1] False tally_after_trans [of g y js f y1 ks f']
    by (cases w') (auto simp: tally_result_def)
qed (use assms(1) in \<open>simp add: tally_result_def\<close>)

lemma see_result:
  assumes "g_find g j = Some p"
  shows "tally_result g y {j} (\<not> ended g j) (\<not> succeeded g j \<and> \<not> skipped_branch g j) (tally_see (path_status p) y)"
  using see_after [OF assms, of y] assms by (auto simp: tally_result_def ended_def)

lemma merge_result:
  assumes "g_find g j = Some p"
  shows "tally_result g y {j} (\<not> ended g j) False (tally_merge (path_status p) y)"
  using merge_after [OF assms, of y] assms by (auto simp: tally_result_def ended_def)

definition dep_step :: "graph \<Rightarrow> string \<Rightarrow> tally \<Rightarrow> tally option" where
  "dep_step g d y =
     (case g_find g d of
        None \<Rightarrow> None
      | Some p \<Rightarrow>
          if is_terminal (t_state p) \<and> \<not> succeeded g d \<and> \<not> skipped_branch g d
          then (case fallback_covers g p of
                  None \<Rightarrow> None
                | Some True \<Rightarrow> tally_see EdgeAvailable y
                | Some False \<Rightarrow> tally_see (path_status p) y)
          else tally_see (path_status p) y)"

lemma typed_deps_step: "typed_deps g (d # ds) y = Option.bind (dep_step g d y) (typed_deps g ds)"
proof (cases "g_find g d")
  case (Some p)
  show ?thesis
    by (cases "path_status p"; cases "fallback_covers g p")
      (auto simp: Some dep_step_def succeeded_def skipped_branch_def path_status_def tally_see_def
        split: if_splits bool.splits)
qed (simp add: dep_step_def)

lemma dep_step_result: "tally_result g y {d} (dep_waits g d) (dep_fails g d) (dep_step g d y)"
proof (cases "g_find g d")
  case None
  then show ?thesis by (simp add: dep_step_def tally_result_def dep_waits_def ended_def)
next
  case (Some p)
  note see = see_result [OF Some, of y]
  show ?thesis
  proof (cases "is_terminal (t_state p) \<and> \<not> succeeded g d \<and> \<not> skipped_branch g d")
    case True
    then have "ended g d" using Some by (simp add: ended_def)
    have covered: "tally_after g y {d} False (the (tally_see EdgeAvailable y))"
      using True by (auto simp: tally_see_def tally_after_def)
    show ?thesis
    proof (cases "fallback_covers g p")
      case (Some b)
      with True \<open>g_find g d = Some p\<close> \<open>ended g d\<close> covered see show ?thesis
        by (cases b) (auto simp: dep_step_def tally_result_def dep_waits_def dep_fails_def tally_see_def Let_def)
    qed (use True Some \<open>ended g d\<close> in \<open>auto simp: dep_step_def tally_result_def dep_waits_def\<close>)
  next
    case False
    then have "dep_step g d y = tally_see (path_status p) y" using Some by (auto simp: dep_step_def)
    moreover have "dep_waits g d \<longleftrightarrow> \<not> ended g d" "\<not> dep_fails g d \<or> \<not> ended g d"
      using False Some by (auto simp: dep_waits_def dep_fails_def ended_def)
    ultimately show ?thesis using see False Some by (auto simp: tally_result_def ended_def)
  qed
qed

lemma typed_deps_result:
  "tally_result g y (set ds) (\<exists>d \<in> set ds. dep_waits g d) (\<exists>d \<in> set ds. dep_fails g d) (typed_deps g ds y)"
proof (induction ds arbitrary: y)
  case Nil
  then show ?case by (simp add: tally_result_def tally_after_def)
next
  case (Cons d ds)
  from tally_result_bind [OF dep_step_result, where k = "typed_deps g ds", OF Cons.IH]
  show ?case unfolding typed_deps_step by simp
qed

lemma merge_list:
  "tally_result g y (set js) (\<exists>j \<in> set js. \<not> ended g j) False (typed_reduce g js y)"
proof (induction js arbitrary: y)
  case Nil
  then show ?case by (simp add: tally_result_def tally_after_def)
next
  case (Cons j js)
  show ?case
  proof (cases "g_find g j")
    case None
    then show ?thesis by (simp add: tally_result_def ended_def)
  next
    case (Some p)
    from tally_result_bind [OF merge_result [OF Some], where k = "typed_reduce g js", OF Cons.IH]
    show ?thesis by (simp add: Some)
  qed
qed

lemma one_of_eq:
  "one_of_loop g ss b y = map_option (\<lambda>y'. (b \<or> (\<exists>s \<in> set ss. succeeded g (bs_from s)), y'))
     (typed_reduce g (map bs_from ss) y)"
proof (induction ss arbitrary: b y)
  case (Cons s ss)
  show ?case
  proof (cases "g_find g (bs_from s)")
    case (Some p)
    have "succeeded g (bs_from s) \<longleftrightarrow> path_status p = EdgeAvailable"
      using Some by (simp add: succeeded_def path_status_available)
    then show ?thesis
      by (cases "tally_merge (path_status p) y") (simp_all add: Some Cons.IH)
  qed simp
qed simp

lemma fail_after: "tally_after g y js f y' \<Longrightarrow> tally_after g y js True (tally_fail a b y')"
  by (auto simp: tally_after_def tally_fail_def)

definition binding_waits :: "graph \<Rightarrow> input_binding \<Rightarrow> bool" where
  "binding_waits g b \<longleftrightarrow> (\<exists>s \<in> set (binding_sources b). \<not> ended g (bs_from s))"

definition binding_step :: "graph \<Rightarrow> task_contract \<Rightarrow> string \<Rightarrow> input_binding \<Rightarrow> tally \<Rightarrow> tally option" where
  "binding_step g c field b y = typed_bindings g c [(field, b)] y"

lemma typed_bindings_step:
  "typed_bindings g c ((field, b) # bs) y = Option.bind (binding_step g c field b y) (typed_bindings g c bs)"
proof (cases b)
  case (FromTask s conv)
  then show ?thesis
    by (cases "g_find g (bs_from s)"; cases "tally_see EdgeNotSelected y";
        simp add: binding_step_def split: Option.bind_split)
qed (auto simp: binding_step_def split: option.split)

lemma binding_step_result:
  "tally_result g y (bs_from ` set (binding_sources b)) (binding_waits g b) (binding_fails g c (field, b))
     (binding_step g c field b y)"
proof (cases b)
  case (LiteralBinding v)
  then show ?thesis
    by (simp add: binding_step_def tally_result_def tally_after_def binding_waits_def binding_fails_def)
next
  case (FromTask s conv)
  show ?thesis
  proof (cases "g_find g (bs_from s)")
    case None
    with FromTask show ?thesis by (simp add: binding_step_def tally_result_def binding_waits_def ended_def)
  next
    case (Some p)
    note see = see_result [OF Some, of y]
    have ns: "path_status p = EdgeNotSelected \<longleftrightarrow> skipped_branch g (bs_from s)"
      using Some by (simp add: skipped_branch_def path_status_not_selected)
    show ?thesis
    proof (cases "skipped_branch g (bs_from s) \<and> \<not> field_may_be_absent c field")
      case True
      then have "ended g (bs_from s)" "\<not> succeeded g (bs_from s)" "path_status p = EdgeNotSelected"
        using ns by (auto simp: skipped_branch_def ended_def succeeded_def)
      with see True FromTask Some show ?thesis
        by (auto simp: tally_result_def binding_waits_def binding_fails_def binding_step_def fail_after)
    next
      case False
      then have "binding_fails g c (field, b) \<longleftrightarrow> \<not> succeeded g (bs_from s) \<and> \<not> skipped_branch g (bs_from s)"
        using FromTask by (auto simp: binding_fails_def)
      with see False FromTask Some ns show ?thesis
        by (auto simp: tally_result_def binding_waits_def binding_step_def)
    qed
  qed
next
  case (OneOf ss conv)
  note merge = merge_list [of g y "map bs_from ss"]
  show ?thesis
  proof (cases "typed_reduce g (map bs_from ss) y")
    case None
    with merge OneOf show ?thesis
      by (auto simp: tally_result_def binding_step_def one_of_eq binding_waits_def split: if_splits)
  next
    case (Some y')
    with merge have "\<not> binding_waits g b" "tally_after g y (bs_from ` set (binding_sources b)) False y'"
      using OneOf by (auto simp: tally_result_def binding_waits_def split: if_splits)
    moreover have "binding_fails g c (field, b) \<longleftrightarrow>
        \<not> (\<exists>s \<in> set ss. succeeded g (bs_from s)) \<and> \<not> field_may_be_absent c field"
      using OneOf by (auto simp: binding_fails_def)
    ultimately show ?thesis
      using OneOf Some
      by (cases "\<exists>s \<in> set ss. succeeded g (bs_from s)"; cases "field_may_be_absent c field")
        (simp_all add: tally_result_def binding_step_def one_of_eq fail_after)
  qed
qed

lemma typed_bindings_result:
  "tally_result g y (sources_of bs) (\<exists>fb \<in> set bs. binding_waits g (snd fb)) (\<exists>fb \<in> set bs. binding_fails g c fb)
     (typed_bindings g c bs y)"
proof (induction bs arbitrary: y)
  case Nil
  then show ?case by (simp add: tally_result_def tally_after_def sources_of_def)
next
  case (Cons fb bs)
  obtain field b where fb: "fb = (field, b)" by (cases fb)
  from tally_result_bind [OF binding_step_result, where k = "typed_bindings g c bs", OF Cons.IH]
  show ?case unfolding fb typed_bindings_step by (simp add: sources_of_def)
qed

text \<open>The verdict along the paths of a typed task.\<close>

definition paths_wait :: "graph \<Rightarrow> task \<Rightarrow> task_contract \<Rightarrow> bool" where
  "paths_wait g t c \<longleftrightarrow>
     (\<exists>d \<in> set (t_depends_on t). dep_waits g d) \<or>
     (\<exists>j \<in> sources_of (tk_bindings c) \<union> set (reduce_inputs t). \<not> ended g j)"

definition paths_fail :: "graph \<Rightarrow> task \<Rightarrow> task_contract \<Rightarrow> bool" where
  "paths_fail g t c \<longleftrightarrow>
     (\<exists>d \<in> set (t_depends_on t). dep_fails g d) \<or> (\<exists>fb \<in> set (tk_bindings c). binding_fails g c fb)"

definition paths_skipped :: "graph \<Rightarrow> task \<Rightarrow> bool" where
  "paths_skipped g t \<longleftrightarrow> activation_sources t \<noteq> [] \<and> (\<forall>j \<in> set (activation_sources t). skipped_branch g j)"

lemma sources_of_ids: "t_contract t = Some c \<Longrightarrow> sources_of (tk_bindings c) = set (binding_task_ids t)"
  by (auto simp: sources_of_def binding_task_ids_def)

lemma typed_paths_verdict:
  assumes "t_contract t = Some c"
  shows "typed_paths g t c =
    (if paths_wait g t c then None
     else if g_controls g (t_id t) = None \<and> paths_skipped g t then Some NotSelected
     else if paths_fail g t c then Some (Unavailable (the (case typed_paths g t c of Some (Unavailable r) \<Rightarrow> Some r | _ \<Rightarrow> None)))
     else Some IsReady)"
    and "typed_paths g t c \<noteq> Some (Unavailable None)"
proof -
  let ?js = "set (t_depends_on t) \<union> (sources_of (tk_bindings c) \<union> set (reduce_inputs t))"
  let ?k2 = "\<lambda>y2. typed_reduce g (reduce_inputs t) y2"
  let ?k1 = "\<lambda>y1. Option.bind (typed_bindings g c (tk_bindings c) y1) ?k2"
  let ?run = "Option.bind (typed_deps g (t_depends_on t) tally_empty) ?k1"
  have "tally_result g y (sources_of (tk_bindings c) \<union> set (reduce_inputs t))
      ((\<exists>fb \<in> set (tk_bindings c). binding_waits g (snd fb)) \<or> (\<exists>j \<in> set (reduce_inputs t). \<not> ended g j))
      ((\<exists>fb \<in> set (tk_bindings c). binding_fails g c fb) \<or> False) (?k1 y)" for y
    by (rule tally_result_bind [OF typed_bindings_result merge_list])
  from tally_result_bind [OF typed_deps_result this, of tally_empty "t_depends_on t"]
  have "tally_result g tally_empty ?js
      ((\<exists>d \<in> set (t_depends_on t). dep_waits g d) \<or>
       (\<exists>fb \<in> set (tk_bindings c). binding_waits g (snd fb)) \<or> (\<exists>j \<in> set (reduce_inputs t). \<not> ended g j))
      (paths_fail g t c) ?run" by (simp add: paths_fail_def)
  moreover have "(\<exists>fb \<in> set (tk_bindings c). binding_waits g (snd fb)) \<longleftrightarrow>
      (\<exists>j \<in> sources_of (tk_bindings c). \<not> ended g j)"
    by (force simp: binding_waits_def sources_of_def)
  ultimately have res: "tally_result g tally_empty ?js (paths_wait g t c) (paths_fail g t c) ?run"
    by (simp only: paths_wait_def bex_Un)
  have run: "typed_paths g t c = map_option (tally_decide (g_controls g (t_id t) = None)) ?run"
    by (simp add: typed_paths_def map_option_is_None comp_def split: Option.bind_split)
  have js: "?js = set (activation_sources t)"
    using sources_of_ids [OF assms, symmetric] by (auto simp: activation_sources_def)
  show "typed_paths g t c =
    (if paths_wait g t c then None
     else if g_controls g (t_id t) = None \<and> paths_skipped g t then Some NotSelected
     else if paths_fail g t c then Some (Unavailable (the (case typed_paths g t c of Some (Unavailable r) \<Rightarrow> Some r | _ \<Rightarrow> None)))
     else Some IsReady)"
  proof (cases "paths_wait g t c")
    case False
    with res obtain y where y: "?run = Some y" "tally_after g tally_empty (set (activation_sources t)) (paths_fail g t c) y"
      unfolding js by (auto simp: tally_result_def)
    then have "ty_any y \<and> ty_all_not_selected y \<longleftrightarrow> paths_skipped g t" "ty_failed y = None \<longleftrightarrow> \<not> paths_fail g t c"
      by (auto simp: tally_after_def tally_empty_def paths_skipped_def)
    then show ?thesis using False y(1)
      by (auto simp: run tally_decide_def unavailable_def split: option.split)
  qed (use res in \<open>simp add: run tally_result_def\<close>)
  show "typed_paths g t c \<noteq> Some (Unavailable None)"
    by (auto simp: run tally_decide_def unavailable_def split: option.splits if_splits)
qed

text \<open>The control edges let a task go when every source is settled and one selected it.\<close>

definition route_settled :: "task \<Rightarrow> bool" where
  "route_settled s \<longleftrightarrow> t_state s = Succeeded \<and> t_route s \<noteq> None \<or> t_state s = Skipped \<and> is_not_selected s"

definition route_selects :: "task \<Rightarrow> string \<Rightarrow> bool" where
  "route_selects s i \<longleftrightarrow> t_state s = Succeeded \<and> (\<exists>r. t_route s = Some r \<and> i \<in> set (rd_selected r))"

definition let_go :: "graph \<Rightarrow> string \<Rightarrow> bool" where
  "let_go g i \<longleftrightarrow>
     (case g_controls g i of
        None \<Rightarrow> True
      | Some ss \<Rightarrow> (\<forall>s \<in> set ss. route_settled s) \<and> (\<exists>s \<in> set ss. route_selects s i))"

lemma control_status_settled:
  "control_status s i = EdgeAvailable \<longleftrightarrow> route_selects s i"
  "control_status s i = EdgeAvailable \<or> control_status s i = EdgeNotSelected \<longleftrightarrow> route_settled s"
  by (auto simp: control_status_def path_status_def route_selects_def route_settled_def split: option.split)

lemma controls_loop_go:
  "controls_loop ss i selected failed = Some None \<longleftrightarrow>
     failed = None \<and> (\<forall>s \<in> set ss. route_settled s) \<and> (selected \<or> (\<exists>s \<in> set ss. route_selects s i))"
proof (induction ss i selected failed rule: controls_loop.induct)
  case (2 s ss i selected failed)
  note st = control_status_settled [of s i]
  show ?case
    by (cases "control_status s i") (use 2 st in auto)
qed (auto split: option.split)

text \<open>C30. When a typed task may run: its main has failed if it is a fallback, a transition selects it
  if transitions lead to it and all of them are settled, everything it waits for has ended, nothing
  it needs has failed, and not every path to it was left out. A dependency may be replaced by the
  success of its fallback; a value read from a task may not.\<close>

theorem typed_readiness_exact:
  assumes "g_find g i = Some t" and "t_contract t = Some c" and "i \<notin> set (g_inactive g)"
  shows "readiness g i = Some IsReady \<longleftrightarrow>
    \<not> dormant_as_pending_fallback g i \<and> let_go g i \<and> \<not> paths_wait g t c \<and> \<not> paths_fail g t c
    \<and> \<not> (g_controls g i = None \<and> paths_skipped g t)"
proof -
  have i: "t_id t = i" using g_find_Some [OF assms(1)] by simp
  have no_fallback: "fallback_not_needed g t = None" if "\<not> dormant_as_pending_fallback g i"
    using that i by (auto simp: fallback_not_needed_def dormant_as_pending_fallback_def find_Some_iff
        split: option.splits)
  have never: "fallback_not_needed g t \<noteq> Some IsReady"
    by (auto simp: fallback_not_needed_def unavailable_def split: option.split)
  have paths: "typed_paths g t c = Some IsReady \<longleftrightarrow> \<not> paths_wait g t c \<and> \<not> paths_fail g t c
      \<and> \<not> (g_controls g i = None \<and> paths_skipped g t)"
    by (subst typed_paths_verdict(1) [OF assms(2)]) (simp add: i)
  have "typed_readiness g t = Some IsReady \<longleftrightarrow> let_go g i \<and> typed_paths g t c = Some IsReady"
  proof (cases "g_controls g i")
    case None
    then show ?thesis using assms(2) i by (simp add: typed_readiness_def let_go_def)
  next
    case (Some ss)
    have "control_readiness ss i \<noteq> Some (Some IsReady)"
    proof -
      have "controls_loop ss i a b \<noteq> Some (Some IsReady)" for a b
        by (induction ss i a b rule: controls_loop.induct)
          (auto simp: unavailable_def split: option.split edge_status.split)
      then show ?thesis by (simp add: control_readiness_def)
    qed
    then show ?thesis
      using Some assms(2) i controls_loop_go [of ss i False None]
      by (auto simp: typed_readiness_def let_go_def control_readiness_def split: option.split)
  qed
  then show ?thesis
    using assms no_fallback never paths
    by (cases "fallback_not_needed g t") (auto simp: readiness_def is_typed_def)
qed

section \<open>The order of the tasks\<close>

text \<open>
  What the verdicts read of a graph. Two graphs that agree on it agree on every verdict.
\<close>

definition same_view :: "graph \<Rightarrow> graph \<Rightarrow> bool" where
  "same_view g h \<longleftrightarrow>
     g_find g = g_find h \<and> g_controls g = g_controls h \<and> g_inactive g = g_inactive h \<and>
     set (g_tasks g) = set (g_tasks h) \<and> fallback_state g = fallback_state h \<and>
     (\<forall>i. find (\<lambda>m. falls_back_to m i) (g_tasks g) = find (\<lambda>m. falls_back_to m i) (g_tasks h))"

lemma same_view_readiness:
  assumes "same_view g h"
  shows "readiness g i = readiness h i"
proof -
  have same: "g_find g = g_find h" "g_controls g = g_controls h" "g_inactive g = g_inactive h"
    "set (g_tasks g) = set (g_tasks h)" "fallback_state g = fallback_state h"
    "\<And>i. find (\<lambda>m. falls_back_to m i) (g_tasks g) = find (\<lambda>m. falls_back_to m i) (g_tasks h)"
    using assms by (auto simp: same_view_def)
  have "v1_stands g = v1_stands h" unfolding v1_stands_def [abs_def] same by (rule refl)
  then have 1: "v1_deps g ds f = v1_deps h ds f" for ds f by (simp add: v1_deps_eq)
  have 2: "succeeded_sources g ss = succeeded_sources h ss" for ss
    by (induction ss) (simp_all add: same cong: option.case_cong if_cong)
  have 3: "inputs_loop g c bs f = inputs_loop h c bs f" for c bs f
  proof (induction bs arbitrary: f)
    case (Cons x bs)
    then show ?case by (cases x) (simp add: same 2 cong: option.case_cong input_binding.case_cong if_cong)
  qed simp
  have 4: "typed_deps g ds y = typed_deps h ds y" for ds y
  proof (induction ds arbitrary: y)
    case (Cons d ds)
    have covers: "fallback_covers g = fallback_covers h"
      unfolding fallback_covers_def [abs_def] same by (rule refl)
    have rest: "typed_deps g ds = typed_deps h ds" using Cons by (rule ext)
    show ?case unfolding typed_deps.simps same covers rest by (rule refl)
  qed simp
  have 5: "typed_reduce g js y = typed_reduce h js y" for js y
    by (induction js arbitrary: y) (simp_all add: same cong: option.case_cong Option.bind_cong)
  have 6: "one_of_loop g ss b y = one_of_loop h ss b y" for ss b y
    by (simp add: one_of_eq 5 succeeded_def same)
  have 7: "typed_bindings g c bs y = typed_bindings h c bs y" for c bs y
  proof (induction bs arbitrary: y)
    case (Cons x bs)
    have rest: "typed_bindings g c bs = typed_bindings h c bs" using Cons by (rule ext)
    show ?case by (cases x) (simp only: typed_bindings.simps same 6 rest)
  qed simp
  have 8: "typed_paths g t c = typed_paths h t c" for t c
    by (simp add: typed_paths_def same 4 5 7)
  show ?thesis
    unfolding readiness_def v1_readiness_def data_inputs_failed_def dormant_as_pending_fallback_def
      fallback_not_needed_def typed_readiness_def same 1 3 8 by (rule refl)
qed

definition unshared :: "(task \<Rightarrow> string \<Rightarrow> bool) \<Rightarrow> task list \<Rightarrow> bool" where
  "unshared R ts \<longleftrightarrow> (\<forall>a \<in> set ts. \<forall>b \<in> set ts. \<forall>i. R a i \<and> R b i \<longrightarrow> a = b)"

lemma find_unique:
  assumes "set xs = set ys" "\<And>a b. a \<in> set xs \<Longrightarrow> b \<in> set xs \<Longrightarrow> P a \<Longrightarrow> P b \<Longrightarrow> a = b"
  shows "find P xs = find P ys"
proof (cases "find P xs")
  case None
  then show ?thesis using assms(1) by (metis find_None_iff)
next
  case (Some a)
  then have a: "a \<in> set xs" "P a" by (auto simp: find_Some_iff)
  then obtain b where "find P ys = Some b" using assms(1) by (metis find_None_iff not_None_eq)
  moreover from this have "b \<in> set ys" "P b" by (auto simp: find_Some_iff)
  ultimately show ?thesis using assms a Some by auto
qed

text \<open>The verdicts do not depend on the order in which the tasks are listed, as long as no two
  tasks share a fallback and no two tasks are the inline fallback of one task.\<close>

theorem readiness_order_free:
  assumes "listing order1" and "listing order2"
    and "unshared falls_back_to (keep_last ts)" and "unshared (\<lambda>t i. fallback_of t = Some i) (keep_last ts)"
  shows "readiness (with_inactive ids (build order1 ts)) i = readiness (with_inactive ids (build order2 ts)) i"
proof (rule same_view_readiness)
  let ?g = "with_inactive ids (build order1 ts)" and ?h = "with_inactive ids (build order2 ts)"
  have tasks: "g_tasks ?g = order1 (keep_last ts)" "g_tasks ?h = order2 (keep_last ts)"
    by (simp_all add: with_inactive_def build_def)
  have sets: "set (order1 (keep_last ts)) = set (keep_last ts)" "set (order2 (keep_last ts)) = set (keep_last ts)"
    using assms(1,2) by (auto simp: listing_def dest: mset_eq_setD)
  have "distinct (map t_id (order1 (keep_last ts)))"
    using build_distinct [OF assms(1), of ts] by (simp add: build_def)
  then have ids: "a = b" if "a \<in> set (keep_last ts)" "b \<in> set (keep_last ts)" "t_id a = t_id b" for a b
    using that sets by (auto simp: distinct_map dest: inj_onD)
  have find: "find P (order1 (keep_last ts)) = find P (order2 (keep_last ts))"
    if "\<And>a b. a \<in> set (keep_last ts) \<Longrightarrow> b \<in> set (keep_last ts) \<Longrightarrow> P a \<Longrightarrow> P b \<Longrightarrow> a = b" for P
    by (rule find_unique) (use sets that in auto)
  have 1: "g_find ?g = g_find ?h"
    by (rule ext) (unfold g_find_def tasks, rule find, use ids in auto)
  have 2: "find (\<lambda>m. falls_back_to m j) (g_tasks ?g) = find (\<lambda>m. falls_back_to m j) (g_tasks ?h)" for j
    unfolding tasks by (rule find) (use assms(3) in \<open>auto simp: unshared_def\<close>)
  have 3: "find (\<lambda>t. fallback_of t = Some j) (g_tasks ?g) = find (\<lambda>t. fallback_of t = Some j) (g_tasks ?h)" for j
    unfolding tasks by (rule find) (use assms(4) in \<open>auto simp: unshared_def\<close>)
  have "fallback_state ?g = fallback_state ?h"
    unfolding fallback_state_def [abs_def] 1 3 by (rule refl)
  then show "same_view ?g ?h"
    using 1 2 sets tasks by (simp add: same_view_def with_inactive_def build_def)
qed

section \<open>Which tasks may be left out\<close>

text \<open>The least set of ids that a transition may leave out, or that depend on such ids only.\<close>

inductive left_out :: "task list \<Rightarrow> string \<Rightarrow> bool" for tasks where
  aim: "t \<in> set tasks \<Longrightarrow> j \<in> set (transition_targets t) \<Longrightarrow> left_out tasks j"
| seen: "t \<in> set tasks \<Longrightarrow> is_not_selected t \<Longrightarrow> left_out tasks (t_id t)"
| all: "t \<in> set tasks \<Longrightarrow> is_typed t \<Longrightarrow> activation_sources t \<noteq> [] \<Longrightarrow>
    \<forall>s \<in> set (activation_sources t). left_out tasks s \<Longrightarrow> left_out tasks (t_id t)"

lemma seed_set: "j \<in> set (not_selected_seed tasks) \<longleftrightarrow>
    (\<exists>t \<in> set tasks. j \<in> set (transition_targets t) \<or> is_not_selected t \<and> j = t_id t)"
  by (auto simp: not_selected_seed_def split: if_splits)

lemma pass_sound:
  "(\<And>j. j \<in> set out \<Longrightarrow> left_out tasks j) \<Longrightarrow> set ts \<subseteq> set tasks \<Longrightarrow> j \<in> set (not_selected_pass ts out) \<Longrightarrow>
     left_out tasks j"
proof (induction ts out arbitrary: j rule: not_selected_pass.induct)
  case (2 t ts out)
  let ?o = "if t_id t \<in> set out \<or> \<not> is_typed t then out
      else if activation_sources t \<noteq> [] \<and> set (activation_sources t) \<subseteq> set out then t_id t # out else out"
  have "left_out tasks k" if "k \<in> set ?o" for k
    using that 2(2,3) left_out.all [of t tasks] by (auto split: if_splits)
  with 2(1,3,4) show ?case by simp
qed simp

text \<open>A pass that adds nothing found nothing to add.\<close>

lemma pass_stable:
  assumes "length (not_selected_pass ts out) = length out" "t \<in> set ts" "is_typed t"
    "activation_sources t \<noteq> []" "set (activation_sources t) \<subseteq> set out"
  shows "t_id t \<in> set out"
  using assms
proof (induction ts out rule: not_selected_pass.induct)
  case (2 u ts out)
  let ?o = "if t_id u \<in> set out \<or> \<not> is_typed u then out
      else if activation_sources u \<noteq> [] \<and> set (activation_sources u) \<subseteq> set out then t_id u # out else out"
  have "length ?o \<le> length (not_selected_pass ts ?o)" by (rule pass_length)
  then have o: "?o = out" using 2(2) by (auto split: if_splits)
  with 2 show ?case by (cases "t = u") (auto split: if_splits)
qed simp

lemma loop_exact:
  "(\<And>j. j \<in> set out \<Longrightarrow> left_out tasks j) \<Longrightarrow> set (not_selected_seed tasks) \<subseteq> set out \<Longrightarrow>
     set (not_selected_loop tasks out) = {j. left_out tasks j}"
proof (induction tasks out rule: not_selected_loop.induct)
  case (1 tasks out)
  let ?o = "not_selected_pass tasks out"
  have sound: "left_out tasks j" if "j \<in> set ?o" for j using pass_sound [OF 1(2) _ that] by blast
  have keeps: "set out \<subseteq> set ?o" by (rule pass_keeps)
  show ?case
  proof (cases "length ?o = length out")
    case True
    have "j \<in> set out" if "left_out tasks j" for j
      using that
    proof induction
      case (aim t j)
      then show ?case using 1(3) by (auto simp: subset_iff seed_set)
    next
      case (seen t)
      then show ?case using 1(3) by (auto simp: subset_iff seed_set)
    next
      case (all t)
      then show ?case using pass_stable [OF True, of t] by blast
    qed
    with True sound keeps show ?thesis by (subst not_selected_loop.simps) auto
  next
    case False
    have "set (not_selected_loop tasks ?o) = {j. left_out tasks j}"
      by (rule 1(1) [OF refl False]) (use sound keeps 1(3) in auto)
    with False show ?thesis by (subst not_selected_loop.simps) simp
  qed
qed

text \<open>C32. The tasks that may end without being selected are found exactly: the least set with the
  targets of transitions, what was left out already, and the typed tasks all of whose sources are in
  it. The iteration ends on every list of tasks.\<close>

theorem may_be_not_selected_exact:
  "set (may_be_not_selected tasks) = {j. left_out tasks j}"
  unfolding may_be_not_selected_def
  by (rule loop_exact) (auto simp: seed_set intro: left_out.intros)

section \<open>Samples\<close>

definition typed_sample :: "string \<Rightarrow> string list \<Rightarrow> task" where
  "typed_sample i deps = (sample_task i deps)\<lparr>t_contract := Some sample_contract\<rparr>"

definition fallback_sample :: "task list" where
  "fallback_sample =
     [(sample_task ''main'' [])\<lparr>t_state := Failed (msg ''exit 1''), t_on_failure := Fallback (Some ''spare'') None\<rparr>,
      (sample_task ''spare'' [])\<lparr>t_state := Succeeded\<rparr>,
      sample_task ''next'' [''main''],
      (typed_sample ''typed'' [''main''])]"

theorem v1_readiness_exact_witness: "readiness (build rev fallback_sample) ''next'' = Some IsReady"
proof -
  have find: "g_find (build rev fallback_sample) ''next'' = Some (sample_task ''next'' [''main''])" by code_simp
  have "\<not> is_typed (sample_task ''next'' [''main''])" "''next'' \<notin> set (g_inactive (build rev fallback_sample))"
    by code_simp+
  note exact = v1_readiness_exact [OF find this]
  have "\<not> dormant_as_pending_fallback (build rev fallback_sample) ''next''"
    "reduce_inputs (sample_task ''next'' [''main'']) = []"
    "v1_stands (build rev fallback_sample) ''main'' = Some True" by code_simp+
  then show ?thesis using exact by (simp add: sample_task_def)
qed

theorem typed_readiness_exact_witness: "readiness (build rev fallback_sample) ''typed'' = Some IsReady"
proof -
  let ?g = "build rev fallback_sample" and ?t = "typed_sample ''typed'' [''main'']"
  have find: "g_find ?g ''typed'' = Some ?t" by code_simp
  have "t_contract ?t = Some sample_contract" "''typed'' \<notin> set (g_inactive ?g)" by code_simp+
  note exact = typed_readiness_exact [OF find this]
  have "\<not> dormant_as_pending_fallback ?g ''typed''" "g_controls ?g ''typed'' = None"
    "t_depends_on ?t = [''main'']" "reduce_inputs ?t = []" "binding_task_ids ?t = []" by code_simp+
  moreover have main: "g_find ?g ''main'' = Some (hd fallback_sample)"
    "t_state (hd fallback_sample) = Failed (msg ''exit 1'')" "fallback_covers ?g (hd fallback_sample) = Some True"
    by code_simp+
  moreover have "tk_bindings sample_contract = []" by code_simp
  ultimately show ?thesis
    using exact
    by (simp add: let_go_def paths_wait_def paths_fail_def dep_waits_def dep_fails_def ended_def sources_of_def
        paths_skipped_def activation_sources_def skipped_branch_def)
qed

theorem readiness_order_free_witness:
  "readiness (with_inactive [''main''] (build id fallback_sample)) ''next'' =
   readiness (with_inactive [''main''] (build rev fallback_sample)) ''next''"
proof (rule readiness_order_free)
  show "listing id" "listing rev" by (simp_all add: listing_def)
  show "unshared falls_back_to (keep_last fallback_sample)"
    "unshared (\<lambda>t i. fallback_of t = Some i) (keep_last fallback_sample)"
    by (simp_all add: unshared_def fallback_sample_def sample_task_def typed_sample_def falls_back_to_def
        fallback_of_def)
qed

text \<open>A listing with one task first.\<close>

definition first_of :: "task \<Rightarrow> task list \<Rightarrow> task list" where
  "first_of m ts = filter (\<lambda>x. x = m) ts @ filter (\<lambda>x. x \<noteq> m) ts"

lemma first_of_listing: "listing (first_of m)"
  by (simp add: listing_def first_of_def multiset_partition [symmetric])

lemma first_of_find: "m \<in> set ts \<Longrightarrow> P m \<Longrightarrow> find P (first_of m ts) = Some m"
proof -
  assume m: "m \<in> set ts" "P m"
  then obtain y ys where "filter (\<lambda>x. x = m) ts = y # ys" by (cases "filter (\<lambda>x. x = m) ts") (auto simp: filter_empty_conv)
  moreover from this have "y \<in> set (filter (\<lambda>x. x = m) ts)" by simp
  then have "y = m" by simp
  ultimately show ?thesis using m(2) by (simp add: first_of_def)
qed

lemma keep_last_same: "distinct (map t_id ts) \<Longrightarrow> keep_last ts = ts"
  by (induction ts) auto

lemma main_decides:
  assumes "distinct (map t_id ts)" "listing order" "t \<in> set ts" "is_typed t"
    and "find (\<lambda>m. falls_back_to m (t_id t)) (order ts) = Some main" "is_terminal (t_state main)"
    and "m \<in> set ts" "falls_back_to m (t_id t)" "\<not> is_failed (t_state m)"
  shows "readiness (build order ts) (t_id t) =
    (if is_failed (t_state main) then None
     else if path_status main = EdgeAvailable \<or> path_status main = EdgeNotSelected then Some NotSelected
     else Some (unavailable (t_id main) (state_name (t_state main))))"
proof -
  let ?g = "build order ts"
  have tasks: "g_tasks ?g = order ts" "g_inactive ?g = []" by (simp_all add: build_def keep_last_same [OF assms(1)])
  have set: "set (order ts) = set ts" using assms(2) by (auto simp: listing_def dest: mset_eq_setD)
  have "distinct (map t_id (order ts))" using build_distinct [OF assms(2), of ts] by (simp add: tasks)
  then have found: "g_find ?g (t_id t) = Some t"
    using assms(3) set by (simp add: g_find_def tasks find_Some_iff_distinct)
  have "dormant_as_pending_fallback ?g (t_id t)"
    using assms(7-9) set by (auto simp: dormant_as_pending_fallback_def tasks)
  then show ?thesis
    using assms(4-6) found by (simp add: readiness_def fallback_not_needed_def tasks)
qed

text \<open>When two tasks name the same typed fallback and one has succeeded and the other failed, the verdict
  on the fallback depends on the order in which a \<open>HashMap\<close> lists them: in one listing it is left out,
  in another it waits. When every task that names it has ended, it does not run in any listing, although
  one that names it has failed.\<close>

theorem shared_fallback_unstable:
  assumes "distinct (map t_id ts)" and "t \<in> set ts" "is_typed t"
    and "m1 \<in> set ts" "falls_back_to m1 (t_id t)" "t_state m1 = Succeeded"
    and "m2 \<in> set ts" "falls_back_to m2 (t_id t)" "is_failed (t_state m2)"
  shows "(\<exists>order1 order2. listing order1 \<and> listing order2 \<and>
      readiness (build order1 ts) (t_id t) = Some NotSelected \<and> readiness (build order2 ts) (t_id t) = None)
    \<and> ((\<forall>m \<in> set ts. falls_back_to m (t_id t) \<longrightarrow> is_terminal (t_state m)) \<longrightarrow>
        (\<forall>order. listing order \<longrightarrow> readiness (build order ts) (t_id t) \<noteq> Some IsReady))"
proof
  note decides = main_decides [OF assms(1) _ assms(2,3) _ _ assms(4,5)]
  have "readiness (build (first_of m1) ts) (t_id t) = Some NotSelected"
    using decides [OF first_of_listing first_of_find [where P = "\<lambda>m. falls_back_to m (t_id t)", OF assms(4,5)]] assms(6)
    by (simp add: path_status_def is_terminal_def)
  moreover have "readiness (build (first_of m2) ts) (t_id t) = None"
    using decides [OF first_of_listing first_of_find [where P = "\<lambda>m. falls_back_to m (t_id t)", OF assms(7,8)]] assms(6,9) by (simp add: is_terminal_def)
  ultimately show "\<exists>order1 order2. listing order1 \<and> listing order2 \<and>
      readiness (build order1 ts) (t_id t) = Some NotSelected \<and> readiness (build order2 ts) (t_id t) = None"
    using first_of_listing by blast
  show "(\<forall>m \<in> set ts. falls_back_to m (t_id t) \<longrightarrow> is_terminal (t_state m)) \<longrightarrow>
      (\<forall>order. listing order \<longrightarrow> readiness (build order ts) (t_id t) \<noteq> Some IsReady)"
  proof (intro impI allI)
    fix order assume ended: "\<forall>m \<in> set ts. falls_back_to m (t_id t) \<longrightarrow> is_terminal (t_state m)" and order: "listing order"
    have set: "set (order ts) = set ts" using order by (auto simp: listing_def dest: mset_eq_setD)
    then obtain main where main: "find (\<lambda>m. falls_back_to m (t_id t)) (order ts) = Some main"
      using assms(4,5) by (cases "find (\<lambda>m. falls_back_to m (t_id t)) (order ts)") (auto simp: find_None_iff)
    then have "main \<in> set ts" "falls_back_to main (t_id t)" using set by (auto simp: find_Some_iff)
    with decides [OF order main] ended assms(6) show "readiness (build order ts) (t_id t) \<noteq> Some IsReady"
      by (auto simp: unavailable_def)
  qed
qed

text \<open>Such tasks.\<close>

definition shared_sample :: "task list" where
  "shared_sample =
     [(typed_sample ''m1'' [])\<lparr>t_state := Succeeded, t_on_failure := Fallback (Some ''spare'') None\<rparr>,
      (typed_sample ''m2'' [])\<lparr>t_state := Failed (msg ''exit 1''), t_on_failure := Fallback (Some ''spare'') None\<rparr>,
      typed_sample ''spare'' []]"

theorem shared_fallback_unstable_witness:
  "\<exists>order1 order2. readiness (build order1 shared_sample) ''spare'' \<noteq> readiness (build order2 shared_sample) ''spare''"
proof -
  have "distinct (map t_id shared_sample)" "typed_sample ''spare'' [] \<in> set shared_sample"
    "is_typed (typed_sample ''spare'' [])" "t_id (typed_sample ''spare'' []) = ''spare''"
    "hd shared_sample \<in> set shared_sample" "shared_sample ! 1 \<in> set shared_sample"
    "falls_back_to (hd shared_sample) ''spare''" "falls_back_to (shared_sample ! 1) ''spare''"
    "t_state (hd shared_sample) = Succeeded" "is_failed (t_state (shared_sample ! 1))"
    by (simp_all add: shared_sample_def typed_sample_def sample_task_def is_typed_def falls_back_to_def)
  then show ?thesis
    using shared_fallback_unstable [of shared_sample "typed_sample ''spare'' []" "hd shared_sample" "shared_sample ! 1"]
    by (metis option.distinct(1))
qed

end
