(* ===== verification/Task_Inputs.thy ===== *)
theory Task_Inputs
  imports Task_Binding
begin

text \<open>
  The check of a typed task's bindings and mapping when it is made, and their resolution right
  before it runs (\<open>task/binding.rs\<close> and \<open>task/binding/mapping.rs\<close>). \<open>lookup\<close> finds a task by its id,
  \<open>jt\<close> is the JSON text codec that bounds the size of a value, and \<open>files\<close> is the file system:
  what reading the metadata of a path and opening it find.
\<close>

section \<open>Failures\<close>

definition input_failure :: "message \<Rightarrow> string \<Rightarrow> task_failure" where
  "input_failure m loc = (failure_new StageInput m)\<lparr>tf_location := Some loc\<rparr>"

definition typed_failure ::
  "string option \<Rightarrow> type_error \<Rightarrow> string \<Rightarrow> message option \<Rightarrow> task_failure" where
  "typed_failure tid e loc m =
     (let f = failure_typed StageInput tid e
      in (case m of None \<Rightarrow> f | Some t \<Rightarrow> f\<lparr>tf_message := t\<rparr>)\<lparr>tf_location := Some loc\<rparr>)"

text \<open>The closure \<open>fail\<close> of the two files: the message says which task it is about.\<close>

definition task_input_failure :: "string \<Rightarrow> message \<Rightarrow> string \<Rightarrow> task_failure" where
  "task_input_failure tid m loc = input_failure (Lit (''task '' @ tid @ '': '') # m) loc"

abbreviation scalar_kind :: "type_kind \<Rightarrow> bool" where
  "scalar_kind k \<equiv> (case k of KString _ \<Rightarrow> True | KEnum _ \<Rightarrow> True | KInt64 \<Rightarrow> True | KBoolean \<Rightarrow> True | _ \<Rightarrow> False)"

abbreviation string_kind :: "type_kind \<Rightarrow> bool" where
  "string_kind k \<equiv> (case k of KString _ \<Rightarrow> True | _ \<Rightarrow> False)"

section \<open>The check of a binding\<close>

definition source_text :: "string \<Rightarrow> binding_source \<Rightarrow> string" where
  "source_text tid s =
     ''task '' @ tid @ '': input from task '' @ bs_from s @ '' at '' @ squoted (bs_pointer s)"

definition check_source ::
  "string \<Rightarrow> type_defs \<Rightarrow> type_schema \<Rightarrow> bool \<Rightarrow> binding_source \<Rightarrow> conversion option \<Rightarrow> string \<Rightarrow>
   (string \<Rightarrow> task option) \<Rightarrow> task_failure + unit" where
  "check_source tid defs target field_absent source convert loc lookup =
     (case lookup (bs_from source) of
        None \<Rightarrow> Inl (task_input_failure tid (msg (''binding source task not found: '' @ bs_from source))
                  (loc @ ''/from_task''))
      | Some producer \<Rightarrow>
          if t_id producer = tid
          then Inl (task_input_failure tid (msg ''a task cannot bind its own output'') (loc @ ''/from_task''))
          else
            let (sdefs, sschema) = output_schema_of producer;
                described = (\<lambda>e. Some [Lit (source_text tid source @ '': ''), TypeErr e]);
                incompatible = (\<lambda>e. typed_failure (Some tid) e loc (described e));
                clash = (\<lambda>expected actual. Inl (incompatible
                  \<lparr>te_kind = Incompatible, te_path = [], te_expected = Plain expected, te_actual = Describe actual\<rparr>))
            in sbind (map_err (\<lambda>e. typed_failure (Some tid) e (loc @ ''/pointer'') (described e))
                 (schema_at sdefs sschema (bs_pointer source))) (\<lambda>(sub, absent).
               if absent \<and> \<not> field_absent
               then Inl (input_failure (msg (source_text tid source @
                 '': the source value may be absent (optional or nullable on the way); '' @
                 ''make the input field optional or give it a default'')) (loc @ ''/pointer''))
               else case convert of
                 None \<Rightarrow> map_err incompatible (check_assignable sdefs sub defs target)
               | Some Assert \<Rightarrow> Inr ()
               | Some ToString \<Rightarrow>
                   sbind (map_err incompatible (resolve sdefs sub)) (\<lambda>(kind, nullable).
                   if \<not> (scalar_kind kind \<and> \<not> nullable)
                   then clash ''string, enum, int64 or boolean for to_string'' sub
                   else map_err incompatible (check_assignable [] string_schema defs target))
               | Some Int64ToFloat64 \<Rightarrow>
                   sbind (map_err incompatible (resolve sdefs sub)) (\<lambda>(kind, nullable).
                   if kind \<noteq> KInt64 \<or> nullable then clash ''int64 for int64_to_float64'' sub
                   else sbind (map_err incompatible (resolve defs target)) (\<lambda>(tkind, _).
                     case tkind of
                       KFloat64 _ _ \<Rightarrow> Inr ()
                     | _ \<Rightarrow> clash ''a float64 input field for int64_to_float64'' target))))"

text \<open>The sources of a \<open>one_of\<close>: no task twice, each of them fits.\<close>

fun check_one_of ::
  "string \<Rightarrow> type_defs \<Rightarrow> type_schema \<Rightarrow> bool \<Rightarrow> conversion option \<Rightarrow> string \<Rightarrow> (string \<Rightarrow> task option) \<Rightarrow>
   nat \<Rightarrow> string list \<Rightarrow> binding_source list \<Rightarrow> task_failure + unit" where
  "check_one_of tid defs target field_absent convert loc lookup i seen [] = Inr ()"
| "check_one_of tid defs target field_absent convert loc lookup i seen (s # ss) =
     (let l = loc @ ''/one_of/'' @ show_nat i in
      if bs_from s \<in> set seen
      then Inl (task_input_failure tid (msg (''one_of lists task '' @ bs_from s @ '' more than once'')) l)
      else sbind (check_source tid defs target field_absent s convert l lookup) (\<lambda>_.
        check_one_of tid defs target field_absent convert loc lookup (i + 1) (seen @ [bs_from s]) ss))"

definition check_binding ::
  "json_text \<Rightarrow> string \<Rightarrow> type_defs \<Rightarrow> field_schema \<Rightarrow> input_binding \<Rightarrow> string \<Rightarrow> (string \<Rightarrow> task option) \<Rightarrow>
   task_failure + unit" where
  "check_binding jt tid defs field binding loc lookup =
     (let target = fs_schema field; field_absent = (fs_optional field \<or> fs_default field \<noteq> None) in
      case binding of
        LiteralBinding v \<Rightarrow>
          map_err (\<lambda>e. typed_failure (Some tid) (e\<lparr>te_path := ''/literal'' @ te_path e\<rparr>) loc None)
            (sbind (validate jt defs target v) (\<lambda>_. Inr ()))
      | FromTask source convert \<Rightarrow> check_source tid defs target field_absent source convert loc lookup
      | OneOf sources convert \<Rightarrow>
          if length sources < 2
          then Inl (task_input_failure tid (msg ''one_of needs at least two sources'') (loc @ ''/one_of''))
          else check_one_of tid defs target field_absent convert loc lookup 0 [] sources)"

section \<open>The check of a mapping\<close>

text \<open>\<open>check_barrier_name\<close>, its error as the message it prints.\<close>

definition barrier_name_check :: "string \<Rightarrow> message + unit" where
  "barrier_name_check name =
     (case component_key ''tasty.agent.barrier.'' ''barrier name'' name of
        Inl e \<Rightarrow> Inl [Lit ''invalid argument: '', KeyError e]
      | Inr _ \<Rightarrow> Inr ())"

definition check_barrier_source :: "string \<Rightarrow> string option \<Rightarrow> bool \<Rightarrow> string \<Rightarrow> task_failure + unit" where
  "check_barrier_source tid name from_input at' =
     (case (name, from_input) of
        (Some _, True) \<Rightarrow> Inl (task_input_failure tid
          (msg ''wait_barrier takes its barrier name from command name or input_mapping barrier, not both'')
          (at' @ ''/input_mapping/barrier''))
      | (None, False) \<Rightarrow> Inl (task_input_failure tid
          (msg ''wait_barrier needs a barrier name: set command name or input_mapping barrier'')
          (at' @ ''/command''))
      | (Some n, False) \<Rightarrow>
          map_err (\<lambda>m. task_input_failure tid m (at' @ ''/command/name'')) (barrier_name_check n)
      | (None, True) \<Rightarrow> Inr ())"

text \<open>\<open>present_at\<close>: the type at a pointer into the input, which no optional field may cut off.\<close>

definition present_at :: "string \<Rightarrow> type_defs \<Rightarrow> type_schema \<Rightarrow> string \<Rightarrow> string \<Rightarrow> task_failure + type_schema" where
  "present_at tid defs input pointer loc =
     sbind (map_err (\<lambda>e. typed_failure (Some tid) e loc
              (Some [Lit (''task '' @ tid @ '': input pointer '' @ squoted pointer @ '': ''), TypeErr e]))
            (schema_at defs input pointer)) (\<lambda>(s, absent).
       if absent
       then Inl (task_input_failure tid (msg (''input pointer '' @ squoted pointer @
              '' may be absent; mapped inputs must always be present'')) loc)
       else Inr s)"

definition check_arg ::
  "string \<Rightarrow> type_defs \<Rightarrow> type_schema \<Rightarrow> string \<Rightarrow> nat \<times> arg_source \<Rightarrow> task_failure + unit" where
  "check_arg tid defs input loc = (\<lambda>(i, source).
     let pointer = arg_pointer source; l = loc @ ''/args/'' @ show_nat i in
     sbind (present_at tid defs input pointer l) (\<lambda>s.
     sbind (map_err (\<lambda>e. typed_failure (Some tid) e l None) (resolve defs s)) (\<lambda>(kind, nullable).
       case source of
         ArgFile _ \<Rightarrow>
           if \<not> string_kind kind \<or> nullable
           then Inl (task_input_failure tid [Lit (''file path at '' @ squoted pointer @ '' is ''), Desc s,
                  Lit ''; a file path is a string''] (l @ ''/file''))
           else Inr ()
       | ArgValue _ \<Rightarrow>
           if \<not> (scalar_kind kind \<and> \<not> nullable)
           then Inl (task_input_failure tid [Lit (''argv value at '' @ squoted pointer @ '' is ''), Desc s,
                  Lit (''; argv takes string, enum, int64 or boolean '' @
                       ''(pass structured input through stdin)'')] l)
           else Inr ())))"

text \<open>The walk to the parent of a \<open>params\<close> pointer; \<open>Value::get\<close> finds nothing outside an object.\<close>

fun params_parent :: "json \<Rightarrow> string list \<Rightarrow> json option" where
  "params_parent cur [] = Some cur"
| "params_parent cur (t # ts) = (case jget cur t of None \<Rightarrow> None | Some v \<Rightarrow> params_parent v ts)"

definition check_param ::
  "string \<Rightarrow> type_defs \<Rightarrow> type_schema \<Rightarrow> json \<Rightarrow> string \<Rightarrow> string \<times> string \<Rightarrow> task_failure + unit" where
  "check_param tid defs input params loc = (\<lambda>(param_ptr, input_ptr).
     let l = loc @ ''/params/'' @ escape_token param_ptr; fail' = (\<lambda>s. Inl (task_input_failure tid (msg s) l)) in
     sbind (present_at tid defs input input_ptr l) (\<lambda>_.
     sbind (map_err (\<lambda>m. task_input_failure tid (msg m) l) (pointer_tokens param_ptr)) (\<lambda>tokens.
       if tokens = [] then fail' ''a params pointer must name a field, not the whole params''
       else case params_parent params (butlast tokens) of
         None \<Rightarrow> fail' (''params pointer '' @ squoted param_ptr @ '': parent object is missing in params'')
       | Some cur \<Rightarrow>
           if \<not> (is_object cur \<or> (butlast tokens = [] \<and> cur = JNull))
           then fail' (''params pointer '' @ squoted param_ptr @ '': parent is not an object'')
           else Inr ())))"

definition check_mapped_barrier ::
  "string \<Rightarrow> type_defs \<Rightarrow> type_schema \<Rightarrow> string \<Rightarrow> string option \<Rightarrow> task_failure + unit" where
  "check_mapped_barrier tid defs input loc source =
     (case source of
        None \<Rightarrow> Inr ()
      | Some pointer \<Rightarrow>
          let l = loc @ ''/barrier'' in
          sbind (present_at tid defs input pointer l) (\<lambda>s.
          sbind (map_err (\<lambda>e. typed_failure (Some tid) e l None) (resolve defs s)) (\<lambda>(kind, nullable).
            if \<not> string_kind kind \<or> nullable
            then Inl (task_input_failure tid [Lit (''barrier name at '' @ squoted pointer @ '' is ''), Desc s,
                   Lit ''; a barrier name is a string''] l)
            else Inr ())))"

text \<open>The part of \<open>check_mapping\<close> that only asks what the command takes.\<close>

definition check_mapping_fits ::
  "string \<Rightarrow> bool \<Rightarrow> input_mapping \<Rightarrow> task_command \<Rightarrow> string \<Rightarrow> task_failure + unit" where
  "check_mapping_fits tid input_is_unit mapping command at' =
     (let loc = at' @ ''/input_mapping''; kind = command_kind command;
          fail' = (\<lambda>s l. Inl (task_input_failure tid (msg s) l));
          is_run = (case command of Run _ _ _ \<Rightarrow> True | _ \<Rightarrow> False);
          is_custom = (case command of Custom _ _ _ \<Rightarrow> True | _ \<Rightarrow> False);
          is_agent = (case command of AgentTurn _ _ _ _ _ \<Rightarrow> True | _ \<Rightarrow> False)
      in sbind
           (case command of
              WaitBarrier name \<Rightarrow> check_barrier_source tid name (im_barrier mapping \<noteq> None) at'
            | _ \<Rightarrow> if im_barrier mapping \<noteq> None
                then fail' (''input_mapping barrier applies to wait_barrier, not '' @ kind) (loc @ ''/barrier'')
                else Inr ()) (\<lambda>_.
         if im_input_block mapping \<and> \<not> is_agent
         then fail' (''input_mapping input_block applies to agent, not '' @ kind) loc
         else if (im_args mapping \<noteq> [] \<or> im_stdin mapping) \<and> \<not> is_run
         then fail' (''input_mapping args/stdin apply to run, not '' @ kind) loc
         else if im_params mapping \<noteq> [] \<and> \<not> is_custom
         then fail' (''input_mapping params apply to custom, not '' @ kind) loc
         else if \<not> input_is_unit \<and> is_agent \<and> \<not> im_input_block mapping
         then fail' ''agent input reaches the session only through input_mapping input_block'' loc
         else if im_input_block mapping \<and> input_is_unit
         then fail' ''input_mapping input_block needs a non-unit input'' (loc @ ''/input_block'')
         else if \<not> input_is_unit \<and> \<not> is_run \<and> \<not> is_custom \<and> \<not> is_agent \<and> im_barrier mapping = None
         then fail' (kind @ '' has no input mapping; its input_schema must be unit'') (at' @ ''/input_schema'')
         else if im_stdin mapping \<and> input_is_unit
         then fail' ''input_mapping stdin needs a non-unit input'' (loc @ ''/stdin'')
         else Inr ()))"

definition check_mapping ::
  "string \<Rightarrow> type_defs \<Rightarrow> type_schema \<Rightarrow> task_contract \<Rightarrow> task_command \<Rightarrow> string \<Rightarrow> task_failure + unit" where
  "check_mapping tid defs input contract command at' =
     (let mapping = (case tk_mapping contract of Some m \<Rightarrow> m | None \<Rightarrow> no_mapping);
          loc = at' @ ''/input_mapping'';
          input_is_unit = (case resolve defs input of Inr (KUnit, _) \<Rightarrow> True | _ \<Rightarrow> False)
      in sbind (check_mapping_fits tid input_is_unit mapping command at') (\<lambda>_.
         sbind (collect (check_arg tid defs input loc) (enumerate 0 (im_args mapping))) (\<lambda>_.
         sbind (check_mapped_barrier tid defs input loc (im_barrier mapping)) (\<lambda>_.
           case command of
             Custom _ params _ \<Rightarrow>
               sbind (collect (check_param tid defs input params loc) (im_params mapping)) (\<lambda>_. Inr ())
           | _ \<Rightarrow> Inr ()))))"

section \<open>The check of the inputs\<close>

definition check_field ::
  "json_text \<Rightarrow> string \<Rightarrow> task_contract \<Rightarrow> string \<Rightarrow> (string \<Rightarrow> task option) \<Rightarrow> string \<times> field_schema \<Rightarrow>
   task_failure + unit" where
  "check_field jt tid contract at' lookup = (\<lambda>(name, field).
     let loc = at' @ ''/bindings/'' @ escape_token name in
     case map_of (tk_bindings contract) name of
       Some b \<Rightarrow> check_binding jt tid (tk_types contract) field b loc lookup
     | None \<Rightarrow>
         if fs_optional field \<or> fs_default field \<noteq> None then Inr ()
         else Inl (task_input_failure tid [Lit (''required input field '' @ squoted name @ '' (''),
                Desc (fs_schema field), Lit '') has no binding or default''] loc))"

definition check_inputs ::
  "json_text \<Rightarrow> string \<Rightarrow> task_contract \<Rightarrow> task_command \<Rightarrow> string \<Rightarrow> (string \<Rightarrow> task option) \<Rightarrow>
   task_failure + unit" where
  "check_inputs jt tid contract command at' lookup =
     (let defs = tk_types contract; input = input_schema contract;
          typed = (\<lambda>e loc. typed_failure (Some tid) e loc None)
      in sbind (map_err (\<lambda>e. typed e (at' @ ''/input_schema'')) (resolve defs input)) (\<lambda>(kind, _).
         sbind
           (case kind of
              KObject fs \<Rightarrow>
                (case find (\<lambda>name. map_of fs name = None) (map fst (tk_bindings contract)) of
                   Some name \<Rightarrow> Inl (task_input_failure tid
                     (msg (''binding for undeclared input field '' @ squoted name))
                     (at' @ ''/bindings/'' @ escape_token name))
                 | None \<Rightarrow>
                     sbind (collect (check_field jt tid contract at' lookup) fs) (\<lambda>_. Inr ()))
            | _ \<Rightarrow>
                if tk_bindings contract \<noteq> []
                then Inl (task_input_failure tid
                  [Lit ''bindings fill object input fields; input_schema is '', Desc input] (at' @ ''/bindings''))
                else sbind (map_err (\<lambda>e. typed (e\<lparr>te_path := ''/input'' @ te_path e\<rparr>) (at' @ ''/input_schema''))
                  (validate jt defs input JNull)) (\<lambda>_. Inr ()))
           (\<lambda>_. check_mapping tid defs input contract command at')))"

section \<open>Reading values\<close>

text \<open>
  One step of a pointer into a value, and the walk of \<open>resolve_value\<close>, which takes only a canonical
  array index, and of \<open>value_at\<close>, which takes whatever \<open>parse::<usize>\<close> does.
\<close>

definition index_value :: "string \<Rightarrow> json list \<Rightarrow> json option" where
  "index_value t xs =
     (case parse_uint 64 t of None \<Rightarrow> None | Some i \<Rightarrow> if i < length xs then Some (xs ! i) else None)"

fun step_value :: "bool \<Rightarrow> string \<Rightarrow> json \<Rightarrow> json option" where
  "step_value canonical t (JObj m) = map_of m t"
| "step_value canonical t (JArr xs) = (if canonical \<longrightarrow> is_array_index t then index_value t xs else None)"
| "step_value canonical t _ = None"

fun walk_value :: "bool \<Rightarrow> json \<Rightarrow> string list \<Rightarrow> json option" where
  "walk_value canonical cur [] = Some cur"
| "walk_value canonical cur (t # ts) =
     (case step_value canonical t cur of None \<Rightarrow> None | Some v \<Rightarrow> walk_value canonical v ts)"

definition value_at :: "json \<Rightarrow> string \<Rightarrow> json option" where
  "value_at v pointer =
     (case pointer_tokens pointer of Inl _ \<Rightarrow> None | Inr tokens \<Rightarrow> walk_value False v tokens)"

text \<open>\<open>f as i128 != i as i128\<close> asks whether \<open>f64\<close> holds the integer exactly.\<close>

definition convert_value :: "conversion option \<Rightarrow> json \<Rightarrow> type_error + json" where
  "convert_value convert v =
     (let mismatch = (\<lambda>kind expected. terr kind [] (Plain expected) (Shown v)) in
      case convert of
        None \<Rightarrow> Inr v
      | Some Assert \<Rightarrow> Inr v
      | Some ToString \<Rightarrow>
          let no = mismatch TypeMismatch ''string, int64 or boolean for to_string'' in
          (case v of
             JStr _ \<Rightarrow> Inr v
           | JBool b \<Rightarrow> Inr (JStr (if b then ''true'' else ''false''))
           | JNum n \<Rightarrow> (case num_as_i64 n of Some i \<Rightarrow> Inr (JStr (show_int i)) | None \<Rightarrow> no)
           | _ \<Rightarrow> no)
      | Some Int64ToFloat64 \<Rightarrow>
          (case int64_of v of
             Inl kind \<Rightarrow> mismatch kind ''int64''
           | Inr i \<Rightarrow>
               let f = f64_of_int i in
               if f64_scaled f \<noteq> i * 2 ^ 1074
               then terr OutOfRange [] (Plain ''an int64 that float64 represents exactly'') (Plain (show_int i))
               else if f64_finite f then Inr (JNum (FloatBits f))
               else mismatch TypeMismatch ''a finite float64''))"

definition producer_output :: "task \<Rightarrow> json option" where
  "producer_output producer =
     (if t_state producer \<noteq> Succeeded then None
      else case t_typed_result producer of
        Some t \<Rightarrow> if tr_has_output t then Some (to_internal (tr_output t)) else None
      | None \<Rightarrow> (case t_result producer of None \<Rightarrow> None | Some r \<Rightarrow> res_output r))"

section \<open>Resolving the bindings\<close>

text \<open>
  The sources read so far are kept when a later binding fails. \<open>&fields[name]\<close> panics on a field the
  input type does not declare, which the check at creation rules out.
\<close>

datatype halt = Refused task_failure | Panicked

type_synonym 'a resolving = "(source_pin list, halt, 'a) op"

definition read_source ::
  "string \<Rightarrow> string \<Rightarrow> string \<Rightarrow> (string \<Rightarrow> task option) \<Rightarrow> binding_source \<Rightarrow> json option resolving" where
  "read_source tid name loc lookup s =
     (let fail' = (\<lambda>text. fail (Refused (task_input_failure tid (msg text) loc))) in
      case lookup (bs_from s) of
        None \<Rightarrow> fail' (''binding source task not found: '' @ bs_from s)
      | Some producer \<Rightarrow>
          (case producer_output producer of
             None \<Rightarrow> ret None
           | Some output \<Rightarrow> \<lambda>pins.
               (case pointer_tokens (bs_pointer s) of
                  Inl m \<Rightarrow> fail' m
                | Inr tokens \<Rightarrow>
                    (case walk_value True output tokens of
                       Some v \<Rightarrow> ret (Some v)
                     | None \<Rightarrow> fail' (''output of task '' @ bs_from s @ '' has nothing at '' @
                         squoted (bs_pointer s))))
               (pins @ [\<lparr>sp_field = name, sp_from = bs_from s, sp_pointer = bs_pointer s,
                         sp_attempt = map_option at_id (t_attempt producer)\<rparr>])))"

fun read_found ::
  "string \<Rightarrow> string \<Rightarrow> string \<Rightarrow> (string \<Rightarrow> task option) \<Rightarrow> (string \<times> json) list \<Rightarrow> binding_source list \<Rightarrow>
   (string \<times> json) list resolving" where
  "read_found tid name loc lookup found [] = ret found"
| "read_found tid name loc lookup found (s # ss) =
     bnd (read_source tid name loc lookup s) (\<lambda>r.
       read_found tid name loc lookup (case r of None \<Rightarrow> found | Some v \<Rightarrow> found @ [(bs_from s, v)]) ss)"

fun joined :: "string \<Rightarrow> string list \<Rightarrow> string" where
  "joined sep [] = []"
| "joined sep [x] = x"
| "joined sep (x # xs) = x @ sep @ joined sep xs"

definition raw_value ::
  "string \<Rightarrow> string \<Rightarrow> string \<Rightarrow> field_schema \<Rightarrow> (string \<Rightarrow> task option) \<Rightarrow> input_binding \<Rightarrow> json option resolving" where
  "raw_value tid name loc field lookup binding =
     (let may_miss = (fs_optional field \<or> fs_default field \<noteq> None);
          fail' = (\<lambda>text. fail (Refused (task_input_failure tid (msg text) loc)))
      in case binding of
        LiteralBinding v \<Rightarrow> ret (Some v)
      | FromTask source _ \<Rightarrow>
          if may_miss \<and> (case lookup (bs_from source) of None \<Rightarrow> False | Some p \<Rightarrow> is_not_selected p)
          then ret None
          else bnd (read_source tid name loc lookup source) (\<lambda>r.
            case r of
              Some v \<Rightarrow> ret (Some v)
            | None \<Rightarrow> fail' (''source task '' @ bs_from source @ '' has no successful output''))
      | OneOf sources _ \<Rightarrow>
          bnd (read_found tid name loc lookup [] sources) (\<lambda>found.
            case found of
              [] \<Rightarrow> if may_miss then ret None else fail' ''no one_of source succeeded with an output''
            | [(_, v)] \<Rightarrow> ret (Some v)
            | _ \<Rightarrow> fail' (''one_of expects exactly one succeeded source, got '' @ joined '', '' (map fst found))))"

fun resolve_bindings ::
  "string \<Rightarrow> (string \<times> field_schema) list \<Rightarrow> (string \<Rightarrow> task option) \<Rightarrow> jobject \<Rightarrow>
   (string \<times> input_binding) list \<Rightarrow> jobject resolving" where
  "resolve_bindings tid fs lookup obj [] = ret obj"
| "resolve_bindings tid fs lookup obj ((name, binding) # bs) =
     (let loc = ''/bindings/'' @ escape_token name in
      case map_of fs name of
        None \<Rightarrow> fail Panicked
      | Some field \<Rightarrow>
          bnd (raw_value tid name loc field lookup binding) (\<lambda>raw.
            case raw of
              None \<Rightarrow> resolve_bindings tid fs lookup obj bs
            | Some v \<Rightarrow>
                (case convert_value (binding_convert binding) v of
                   Inl e \<Rightarrow> fail (Refused (typed_failure (Some tid) e loc None))
                 | Inr w \<Rightarrow> resolve_bindings tid fs lookup (obj_insert name w obj) bs)))"

text \<open>Where an invalid input came from: the field that heads the path of the type error.\<close>

definition value_location :: "string \<Rightarrow> string" where
  "value_location path =
     (case drop 1 (split_on CHR ''/'' path) of
        [] \<Rightarrow> ''/input_schema''
      | seg # _ \<Rightarrow> if seg = [] then ''/input_schema'' else ''/bindings/'' @ seg)"

definition resolve_value ::
  "json_text \<Rightarrow> task \<Rightarrow> task_contract \<Rightarrow> (string \<Rightarrow> task option) \<Rightarrow> typed_value resolving" where
  "resolve_value jt t contract lookup =
     (let defs = tk_types contract; input = input_schema contract; tid = t_id t in
      case resolve defs input of
        Inr (KObject fs, _) \<Rightarrow>
          bnd (resolve_bindings tid fs lookup [] (tk_bindings contract)) (\<lambda>obj.
            reads (\<lambda>_. map_err (\<lambda>e. Refused (typed_failure (Some tid) (e\<lparr>te_path := ''/input'' @ te_path e\<rparr>)
                                  (value_location (te_path e)) None))
              (validate_typed jt defs input (JObj obj))))
      | _ \<Rightarrow> reads (\<lambda>_. map_err (\<lambda>e. Refused (typed_failure (Some tid) e ''/input_schema'' None))
               (validate_typed jt defs input JNull)))"

section \<open>Resolving the execution\<close>

text \<open>
  What the file system says of a path: \<open>metadata\<close> and \<open>File::open\<close>, their errors as texts. A path
  is absolute if it begins with a slash.
\<close>

datatype file_state = NoMetadata string | NotAFile | RegularFile "string option"

definition path_join :: "string \<Rightarrow> string \<Rightarrow> string" where
  "path_join dir p = (if dir = [] \<or> last dir = CHR ''/'' then dir @ p else dir @ CHR ''/'' # p)"

definition check_readable_file :: "(string \<Rightarrow> file_state) \<Rightarrow> string \<Rightarrow> string option \<Rightarrow> string + unit" where
  "check_readable_file files path cwd =
     sbind (if path \<noteq> [] \<and> hd path = CHR ''/'' then Inr path
            else case cwd of
              Some dir \<Rightarrow> Inr (path_join dir path)
            | None \<Rightarrow> Inl ''is a relative path but the run has no cwd'') (\<lambda>full.
       case files full of
         NoMetadata e \<Rightarrow> Inl (''cannot be read: '' @ e)
       | NotAFile \<Rightarrow> Inl ''is not a regular file''
       | RegularFile None \<Rightarrow> Inr ()
       | RegularFile (Some e) \<Rightarrow> Inl (''cannot be read: '' @ e))"

definition resolve_arg ::
  "(string \<Rightarrow> file_state) \<Rightarrow> string \<Rightarrow> json \<Rightarrow> string option \<Rightarrow> nat \<times> arg_source \<Rightarrow> task_failure + string" where
  "resolve_arg files tid internal cwd = (\<lambda>(i, source).
     let pointer = arg_pointer source; loc = ''/input_mapping/args/'' @ show_nat i in
     case source of
       ArgFile _ \<Rightarrow>
         (case value_at internal pointer of
            Some (JStr path) \<Rightarrow>
              sbind (map_err (\<lambda>why. task_input_failure tid
                  (msg (''file '' @ squoted path @ '' (from '' @ squoted pointer @ '') '' @ why)) (loc @ ''/file''))
                (check_readable_file files path cwd)) (\<lambda>_. Inr path)
          | _ \<Rightarrow> Inl (task_input_failure tid
                  (msg (''file path at '' @ squoted pointer @ '' is not a string'')) (loc @ ''/file'')))
     | ArgValue _ \<Rightarrow>
         let found = value_at internal pointer;
             no = Inl (task_input_failure tid [Lit (''argv value at '' @ squoted pointer @
                    '' is not a string, int64 or boolean: ''), Debugged found] loc)
         in (case found of
               Some (JStr s) \<Rightarrow> Inr s
             | Some (JBool b) \<Rightarrow> Inr (if b then ''true'' else ''false'')
             | Some (JNum n) \<Rightarrow> (case num_as_i64 n of Some k \<Rightarrow> Inr (show_int k) | None \<Rightarrow> no)
             | _ \<Rightarrow> no))"

text \<open>One entry of \<open>params\<close>: \<open>get_mut\<close> finds a member of an object only.\<close>

fun put_param :: "string \<Rightarrow> string \<Rightarrow> json \<Rightarrow> string list \<Rightarrow> json \<Rightarrow> string + json" where
  "put_param param_ptr last' v [] cur =
     (case cur of
        JObj m \<Rightarrow> Inr (JObj (obj_insert last' v m))
      | _ \<Rightarrow> Inl (''params pointer '' @ squoted param_ptr @ '': parent is not an object''))"
| "put_param param_ptr last' v (t # ts) cur =
     (case cur of
        JObj m \<Rightarrow>
          (case map_of m t of
             None \<Rightarrow> Inl (''params has no '' @ squoted t)
           | Some x \<Rightarrow> sbind (put_param param_ptr last' v ts x) (\<lambda>y. Inr (JObj (obj_insert t y m))))
      | _ \<Rightarrow> Inl (''params has no '' @ squoted t))"

fun resolve_params :: "string \<Rightarrow> json \<Rightarrow> json \<Rightarrow> (string \<times> string) list \<Rightarrow> task_failure + json" where
  "resolve_params tid internal params [] = Inr params"
| "resolve_params tid internal params ((param_ptr, input_ptr) # ps) =
     (let loc = ''/input_mapping/params/'' @ escape_token param_ptr;
          located = (\<lambda>m. task_input_failure tid (msg m) loc)
      in case value_at internal input_ptr of
        None \<Rightarrow> Inl (located (''input has nothing at '' @ squoted input_ptr))
      | Some v \<Rightarrow>
          sbind (map_err located (pointer_tokens param_ptr)) (\<lambda>tokens.
          if tokens = [] then Inl (located ''empty params pointer'')
          else sbind (map_err located (put_param param_ptr (last tokens) v (butlast tokens) params))
            (\<lambda>params'. resolve_params tid internal params' ps)))"

definition resolve_barrier :: "string \<Rightarrow> json \<Rightarrow> string \<Rightarrow> task_failure + string" where
  "resolve_barrier tid internal pointer =
     (let loc = ''/input_mapping/barrier''; found = value_at internal pointer in
      case found of
        Some (JStr name) \<Rightarrow>
          sbind (map_err (\<lambda>m. task_input_failure tid m loc) (barrier_name_check name)) (\<lambda>_. Inr name)
      | _ \<Rightarrow> Inl (task_input_failure tid [Lit (''barrier name at '' @ squoted pointer @
               '' is not a string: ''), Debugged found] loc))"

text \<open>\<open>compose_instruction\<close> of \<open>task/agent.rs\<close>.\<close>

definition newline :: string where "newline = [CHR 0x0A]"

definition compose_instruction :: "string \<Rightarrow> json option \<Rightarrow> message" where
  "compose_instruction instruction input =
     (case input of
        None \<Rightarrow> msg instruction
      | Some v \<Rightarrow> [Lit (instruction @ newline @ newline @ ''Task input (JSON):'' @ newline @ ''```json'' @ newline),
          Pretty v, Lit (newline @ ''```'')])"

definition resolve_execution ::
  "(string \<Rightarrow> file_state) \<Rightarrow> task \<Rightarrow> task_contract \<Rightarrow> typed_value \<Rightarrow> json option \<Rightarrow>
   task_failure + resolved_execution" where
  "resolve_execution files t contract v base_params =
     (case tk_mapping contract of
        None \<Rightarrow> Inr no_execution
      | Some mapping \<Rightarrow>
          if mapping_empty mapping then Inr no_execution
          else
            let internal = to_internal v; tid = t_id t;
                cwd = (case t_command t of Run _ _ cwd \<Rightarrow> cwd | _ \<Rightarrow> None)
            in sbind (collect (resolve_arg files tid internal cwd) (enumerate 0 (im_args mapping))) (\<lambda>args.
               sbind (if im_params mapping = [] then Inr None
                      else let params0 = (case base_params of None \<Rightarrow> JNull | Some p \<Rightarrow> p);
                               params = (if params0 = JNull then JObj [] else params0)
                           in sbind (resolve_params tid internal params (im_params mapping)) (\<lambda>p. Inr (Some p)))
                 (\<lambda>params.
               sbind (case im_barrier mapping of
                        None \<Rightarrow> Inr None
                      | Some pointer \<Rightarrow> sbind (resolve_barrier tid internal pointer) (\<lambda>n. Inr (Some n)))
                 (\<lambda>barrier.
                 Inr \<lparr>re_args = args, re_stdin = im_stdin mapping, re_params = params,
                      re_instruction =
                        (case t_command t of
                           AgentTurn _ _ _ instruction _ \<Rightarrow>
                             if im_input_block mapping
                             then Some (compose_instruction instruction (Some (to_wire v))) else None
                         | _ \<Rightarrow> None),
                      re_barrier = barrier\<rparr>))))"

text \<open>\<open>resolve_inputs\<close>; \<open>None\<close> is a panic.\<close>

definition resolve_inputs ::
  "json_text \<Rightarrow> (string \<Rightarrow> file_state) \<Rightarrow> task \<Rightarrow> task_contract \<Rightarrow> json option \<Rightarrow> u64 \<Rightarrow>
   (string \<Rightarrow> task option) \<Rightarrow> input_snapshot option" where
  "resolve_inputs jt files t contract base_params now lookup =
     (let refused = (\<lambda>f pins. Some \<lparr>is_resolved_at = now, is_value = TVNull, is_sources = pins,
                        is_execution = no_execution, is_failure = Some f\<rparr>)
      in case resolve_value jt t contract lookup [] of
           (Inl Panicked, _) \<Rightarrow> None
         | (Inl (Refused f), pins) \<Rightarrow> refused f pins
         | (Inr v, pins) \<Rightarrow>
             (case resolve_execution files t contract v base_params of
                Inl f \<Rightarrow> refused f pins
              | Inr e \<Rightarrow> Some \<lparr>is_resolved_at = now, is_value = v, is_sources = pins,
                          is_execution = e, is_failure = None\<rparr>))"

end
