(* ===== verification/Task_Inputs_Laws.thy ===== *)
theory Task_Inputs_Laws
  imports Task_Inputs Task_Types_Codec
begin

text \<open>
  What the check of a typed task's inputs promises to their resolution: the type a pointer leads to
  is the type of the value found there, a checked binding gives a value of the field's type, and so
  a checked task whose sources have succeeded gets its input.
\<close>

section \<open>Values at a pointer\<close>

lemma valid_lower: "valid defs d s v w \<Longrightarrow> e \<le> d \<Longrightarrow> valid defs e s v w"
proof (induction arbitrary: e rule: valid.induct)
  case (null d s k)
  then show ?case by (auto intro: valid.null)
next
  case (leaf d s k n v w)
  then show ?case by (auto intro: valid.leaf)
next
  case (any s n v d)
  then show ?case by (auto intro: valid.any)
next
  case (arr d s items mx n xs ys)
  have "list_all2 (valid defs (e + 1) items) xs ys"
    by (rule list_all2_mono [OF arr(4)]) (use arr(5) in simp)
  then show ?case using arr by (intro valid.arr [OF _ arr(2,3)]) auto
next
  case (obj d s fs n m parts)
  have "list_all2 (field_part (valid defs (e + 1)) m) fs parts"
    by (rule list_all2_mono [OF obj(4)]) (use obj(5) in \<open>auto simp: field_part_def split: option.splits\<close>)
  then show ?case using obj by (intro valid.obj [OF _ obj(2,3)]) auto
qed

lemma valid_objD:
  assumes "valid defs d s v w" "resolve defs s = Inr (KObject fs, n)" "w \<noteq> JNull"
  obtains m parts where "w = JObj (concat parts)" "list_all2 (field_part (valid defs (d + 1)) m) fs parts"
  using assms by (cases rule: valid.cases) auto

lemma valid_arrD:
  assumes "valid defs d s v w" "resolve defs s = Inr (KList items mx, n)" "w \<noteq> JNull"
  obtains xs ys where "w = JArr ys" "list_all2 (valid defs (d + 1) items) xs ys"
  using assms by (cases rule: valid.cases) auto

lemma valid_jsonD:
  assumes "valid defs d s v w" "resolve defs s = Inr (KJson, n)"
  shows "jdepth w + d \<le> 64"
  using assms by (cases rule: valid.cases) auto

lemma step_child: "step_value c t v = Some x \<Longrightarrow> x \<in> set (json_children v)"
  by (cases v) (auto simp: index_value_def dest: map_of_SomeD intro: rev_image_eqI split: if_splits option.splits)

lemma walk_depth: "walk_value c v ts = Some x \<Longrightarrow> jdepth x \<le> jdepth v"
proof (induction ts arbitrary: v)
  case (Cons t ts)
  then obtain y where y: "step_value c t v = Some y" "walk_value c y ts = Some x"
    by (auto split: option.splits)
  from Cons.IH [OF y(2)] step_child [OF y(1)] jdepth_le [of v "jdepth v - 1"] jdepth_pos [of v]
  show ?case by fastforce
qed simp

lemma json_resolves: "resolve defs json_schema = Inr (KJson, False)"
  by (simp add: resolve_def resolve_loop.simps plain_schema_def)

lemma checked_json: "k \<le> 32 \<Longrightarrow> checked defs k json_schema"
  by (auto simp: checked_def check_schema_ok plain_schema_def)

lemma objects_json: "objects_ok P defs s \<Longrightarrow> objects_ok P defs json_schema"
  by (simp add: objects_ok_def plain_schema_def)

text \<open>A field of a valid object, reached by its name.\<close>

lemma object_member:
  assumes parts: "list_all2 (field_part R m) fs parts" and dist: "distinct_fields fs"
    and "map_of fs t = Some f" "map_of (concat parts) t = Some y"
  shows "\<exists>x. R (fs_schema f) x y"
proof -
  obtain f' x where f': "(t, f') \<in> set fs" "R (fs_schema f') x y"
    using in_parts [OF parts] assms(4) by (metis map_of_SomeD)
  with dist assms(3) have "f' = f" by (auto simp: distinct_fields_def)
  with f'(2) show ?thesis by blast
qed

lemma schema_step:
  assumes "schema_walk defs cur ab p (t # ts) = Inr (sub, ab')"
  obtains (field) fs n f where "resolve defs cur = Inr (KObject fs, n)" "map_of fs t = Some f"
    "schema_walk defs (fs_schema f) (ab \<or> n \<or> may_be_absent f) (child_path p t) ts = Inr (sub, ab')"
  | (item) items mx n where "resolve defs cur = Inr (KList items mx, n)" "is_array_index t"
    "schema_walk defs items (ab \<or> n) (child_path p t) ts = Inr (sub, ab')"
  | (json) n where "resolve defs cur = Inr (KJson, n)" "sub = json_schema" "ab' = (ab \<or> n)"
proof (cases "resolve defs cur")
  case (Inr r)
  obtain k n where r: "r = (k, n)" by (cases r)
  show thesis
    using assms field item json Inr
    by (cases k) (auto simp: r sbind_def Let_def terr_def disj_assoc split: option.splits if_splits)
qed (use assms in \<open>simp add: sbind_def Let_def\<close>)

declare schema_walk.simps(2) [simp del]

text \<open>The value found has the type found, at some depth below which the type was checked.\<close>

lemma walk_sound:
  "schema_walk defs cur ab p ts = Inr (sub, ab') \<Longrightarrow> valid defs d cur v w \<Longrightarrow> checked defs k cur \<Longrightarrow> d \<le> k + 1 \<Longrightarrow>
   objects_ok distinct_fields defs cur \<Longrightarrow> walk_value True w ts = Some x \<Longrightarrow>
   \<exists>d' k' u. d \<le> d' \<and> d' \<le> k' + 1 \<and> (ts \<noteq> [] \<and> d \<le> k \<longrightarrow> d < d') \<and>
     valid defs d' sub u x \<and> checked defs k' sub \<and> objects_ok distinct_fields defs sub"
proof (induction ts arbitrary: cur ab p d k v w)
  case Nil
  then show ?case by auto
next
  case (Cons t ts)
  from Cons.prems(6) obtain y where y: "step_value True t w = Some y" "walk_value True y ts = Some x"
    by (auto split: option.splits)
  then have w: "w \<noteq> JNull" by auto
  show ?case
    using Cons.prems(1)
  proof (cases rule: schema_step)
    case (field fs n f)
    obtain m parts where parts: "w = JObj (concat parts)" "list_all2 (field_part (valid defs (d + 1)) m) fs parts"
      by (rule valid_objD [OF Cons.prems(2) field(1) w])
    note ok = objects_object [OF Cons.prems(5) field(1)]
    obtain u where u: "valid defs (d + 1) (fs_schema f) u y"
      using object_member [OF parts(2) ok(1) field(2)] y(1) parts(1) by auto
    obtain k' where k': "k \<le> k'" "\<And>q. q \<in> set fs \<Longrightarrow> checked defs (k' + 1) (fs_schema (snd q))"
      by (rule checked_object [OF Cons.prems(3) field(1)]) blast
    from field(2) have f: "(t, f) \<in> set fs" by (rule map_of_SomeD)
    from Cons.IH [OF field(3) u k'(2) [OF f, simplified] _ ok(2) [OF f, simplified] y(2)] k'(1) Cons.prems(4)
    obtain e l u' where "d + 1 \<le> e" "e \<le> l + 1" "valid defs e sub u' x" "checked defs l sub" "objects_ok distinct_fields defs sub"
      by auto
    then show ?thesis by (intro exI [of _ e] exI [of _ l] exI [of _ u']) simp
  next
    case (item items mx n)
    obtain xs ys where ys: "w = JArr ys" "list_all2 (valid defs (d + 1) items) xs ys"
      by (rule valid_arrD [OF Cons.prems(2) item(1) w])
    from y(1) ys(1) have "y \<in> set ys" by (auto simp: index_value_def split: if_splits option.splits)
    with ys(2) obtain u where u: "valid defs (d + 1) items u y" by (meson list_all2_setD2)
    obtain k' where k': "k \<le> k'" "checked defs (k' + 1) items" by (rule checked_list [OF Cons.prems(3) item(1)])
    from Cons.IH [OF item(3) u k'(2) _ objects_list [OF Cons.prems(5) item(1)] y(2)] k'(1) Cons.prems(4)
    obtain e l u' where "d + 1 \<le> e" "e \<le> l + 1" "valid defs e sub u' x" "checked defs l sub" "objects_ok distinct_fields defs sub"
      by auto
    then show ?thesis by (intro exI [of _ e] exI [of _ l] exI [of _ u']) simp
  next
    case (json n)
    have "jdepth x < jdepth w"
      using walk_depth [OF y(2)] step_child [OF y(1)] jdepth_le [of w "jdepth w - 1"] jdepth_pos [of w] by fastforce
    then have "jdepth x + (d + 1) \<le> 64" using valid_jsonD [OF Cons.prems(2) json(1)] by simp
    then have "valid defs (d + 1) json_schema x x" by (rule valid.any [OF json_resolves])
    from this valid_lower [OF this, of d] have "valid defs (if d \<le> k then d + 1 else d) json_schema x x" by simp
    then show ?thesis
      using json Cons.prems(4,5) checked_json [OF checked_le [OF Cons.prems(3)]] objects_json
      by (intro exI [of _ "if d \<le> k then d + 1 else d"] exI [of _ k] exI [of _ x]) auto
  qed
qed

text \<open>A pointer that only goes through fields finds a value, if the walk over the type says so.\<close>

fun field_path :: "type_defs \<Rightarrow> type_schema \<Rightarrow> string list \<Rightarrow> bool" where
  "field_path defs cur [] \<longleftrightarrow> True"
| "field_path defs cur (t # ts) \<longleftrightarrow>
     (case resolve defs cur of
        Inr (KObject fs, _) \<Rightarrow> (case map_of fs t of Some f \<Rightarrow> field_path defs (fs_schema f) ts | None \<Rightarrow> False)
      | _ \<Rightarrow> False)"

lemma walk_absent: "schema_walk defs cur ab p ts = Inr (sub, ab') \<Longrightarrow> ab \<Longrightarrow> ab'"
proof (induction ts arbitrary: cur ab p)
  case (Cons t ts)
  from Cons.prems(1) show ?case
    by (cases rule: schema_step) (use Cons in auto)
qed simp

lemma object_has:
  assumes parts: "list_all2 (field_part R m) fs parts"
    and "map_of fs t = Some f" "\<not> may_be_absent f"
  shows "\<exists>y. map_of (concat parts) t = Some y"
proof -
  have "(t, f) \<in> set fs" using assms(2) by (rule map_of_SomeD)
  with parts obtain part where part: "part \<in> set parts" "field_part R m (t, f) part"
    by (metis list_all2_conv_all_nth in_set_conv_nth)
  with assms(3) have "t \<in> fst ` set part"
    by (auto simp: field_part_def may_be_absent_def field_source_def split: option.splits)
  with part(1) have "t \<in> fst ` set (concat parts)" by auto
  then show ?thesis by (metis domIff dom_map_of_conv_image_fst not_None_eq)
qed

lemma walk_total:
  "schema_walk defs cur ab p ts = Inr (sub, False) \<Longrightarrow> valid defs d cur v w \<Longrightarrow>
   objects_ok distinct_fields defs cur \<Longrightarrow> field_path defs cur ts \<Longrightarrow> \<exists>x. walk_value True w ts = Some x"
proof (induction ts arbitrary: cur ab p d v w)
  case (Cons t ts)
  from Cons.prems(1) show ?case
  proof (cases rule: schema_step)
    case (field fs n f)
    have ab: "\<not> n" "\<not> may_be_absent f" using walk_absent [OF field(3)] by auto
    then have "w \<noteq> JNull" using Cons.prems(2) field(1) by (auto elim: valid.cases)
    then obtain m parts where parts: "w = JObj (concat parts)"
      "list_all2 (field_part (valid defs (d + 1)) m) fs parts"
      by (rule valid_objD [OF Cons.prems(2) field(1)])
    note ok = objects_object [OF Cons.prems(3) field(1)]
    from object_has [OF parts(2) field(2) ab(2)] obtain y where y: "map_of (concat parts) t = Some y" ..
    with object_member [OF parts(2) ok(1) field(2)] obtain u where "valid defs (d + 1) (fs_schema f) u y" by blast
    from Cons.IH [OF field(3) this ok(2) [OF map_of_SomeD [OF field(2)], simplified]] Cons.prems(4) field(1,2) y parts(1)
    show ?thesis by simp
  qed (use Cons.prems(4) in auto)
qed simp

section \<open>A source that has succeeded\<close>





lemma map_err_Inr: "map_err g r = Inr x \<longleftrightarrow> r = Inr x"
  by (cases r) (auto simp: map_err_def)


lemma scalar_value:
  assumes "valid defs d s v w" "resolve defs s = Inr (k, False)" "scalar_kind k"
  shows "(\<exists>t. w = JStr t) \<or> (\<exists>b. w = JBool b) \<or> (\<exists>n i. w = JNum n \<and> num_as_i64 n = Some i)"
proof -
  have "leaf_valid k v w"
    using assms by (cases rule: valid.cases) auto
  moreover have "\<exists>n i. w = JNum n \<and> num_as_i64 n = Some i" if "int64_of v = Inr i" "w = JNum (num_of_i64 i)" for i
    using that num_as_of_i64 [OF int64_of_range] by blast
  ultimately show ?thesis using assms(3) by (cases k) (auto simp del: int64_of.simps)
qed













section \<open>The input of a checked task\<close>




lemma check_inputs_fields:
  assumes "check_inputs jt tid c cmd at' lookup = Inr ()" "resolve (tk_types c) (input_schema c) = Inr (KObject fs, n)"
  shows "fst ` set (tk_bindings c) \<subseteq> fst ` set fs"
    "\<And>q. q \<in> set fs \<Longrightarrow> check_field jt tid c at' lookup q = Inr ()"
    "check_mapping tid (tk_types c) (input_schema c) c cmd at' = Inr ()"
proof -
  from assms have "find (\<lambda>name. map_of fs name = None) (map fst (tk_bindings c)) = None"
    and 1: "sbind (collect (check_field jt tid c at' lookup) fs) (\<lambda>_. Inr ()) = Inr ()"
    and "check_mapping tid (tk_types c) (input_schema c) c cmd at' = Inr ()"
    by (auto simp: check_inputs_def Let_def map_err_def sbind_Inr_iff split: option.splits)
  then show "fst ` set (tk_bindings c) \<subseteq> fst ` set fs"
    "\<And>q. q \<in> set fs \<Longrightarrow> check_field jt tid c at' lookup q = Inr ()"
    "check_mapping tid (tk_types c) (input_schema c) c cmd at' = Inr ()"
    by (auto simp: find_None_subset collect_unit)
qed





section \<open>The arguments of a run\<close>

lemma walk_any_index: "walk_value True v ts = Some x \<Longrightarrow> walk_value False v ts = Some x"
proof (induction ts arbitrary: v)
  case (Cons t ts)
  then obtain y where "step_value True t v = Some y" "walk_value True y ts = Some x" by (auto split: option.splits)
  moreover from this have "step_value False t v = Some y" by (cases v) (auto split: if_splits)
  ultimately show ?case using Cons.IH by simp
qed simp

text \<open>A value of a type that \<open>argv\<close> takes.\<close>

lemma present_at_iff:
  "present_at tid defs input pointer loc = Inr s \<longleftrightarrow> schema_at defs input pointer = Inr (s, False)"
  by (auto simp: present_at_def sbind_Inr_iff map_err_Inr)

lemma schema_at_Inr:
  "schema_at defs s pointer = Inr r \<longleftrightarrow>
     (\<exists>tokens. pointer_tokens pointer = Inr tokens \<and> schema_walk defs s False [] tokens = Inr r)"
  by (auto simp: schema_at_def terr_def split: sum.splits)

lemma resolve_arg_ok:
  assumes chk: "check_arg tid defs input loc (i, ArgValue pointer) = Inr ()"
    and v: "valid defs 0 input v w" "checked defs 0 input" "objects_ok distinct_fields defs input"
    and path: "\<forall>tokens. pointer_tokens pointer = Inr tokens \<longrightarrow> field_path defs input tokens"
  shows "\<exists>a. resolve_arg files tid' w cwd (i, ArgValue pointer) = Inr a"
proof -
  from chk obtain s k where s: "schema_at defs input pointer = Inr (s, False)" "resolve defs s = Inr (k, False)"
    and k: "scalar_kind k"
    by (auto simp: check_arg_def Let_def sbind_Inr_iff map_err_Inr present_at_iff split: if_splits)
  from s(1) obtain tokens where tokens: "pointer_tokens pointer = Inr tokens"
    and walk: "schema_walk defs input False [] tokens = Inr (s, False)" by (auto simp: schema_at_Inr)
  obtain x where x: "walk_value True w tokens = Some x"
    using walk_total [OF walk v(1,3)] path tokens by blast
  obtain d u where "valid defs d s u x"
    using walk_sound [OF walk v(1,2) _ v(3) x] by auto
  from scalar_value [OF this s(2) k] walk_any_index [OF x] tokens show ?thesis
    by (auto simp: resolve_arg_def Let_def value_at_def)
qed

lemma list_all2_setD1: "list_all2 P xs ys \<Longrightarrow> x \<in> set xs \<Longrightarrow> \<exists>y. P x y"
  by (induction rule: list_all2_induct) auto

lemma collect_ok: "(\<And>x. x \<in> set xs \<Longrightarrow> \<exists>y. f x = Inr y) \<Longrightarrow> \<exists>ys. collect f xs = Inr ys"
proof (induction xs)
  case (Cons x xs)
  then obtain y ys where "f x = Inr y" "collect f xs = Inr ys" by force
  then show ?case by (simp add: sbind_def)
qed simp

section \<open>No panic\<close>

definition refuses :: "'a resolving \<Rightarrow> bool" where
  "refuses m \<longleftrightarrow> (\<forall>pins pins'. m pins \<noteq> (Inl Panicked, pins'))"

lemma refuses_intros [intro]:
  "refuses (ret x)" "refuses (fail (Refused f))"
  "refuses m \<Longrightarrow> (\<And>x. refuses (g x)) \<Longrightarrow> refuses (bnd m g)"
  by (auto simp: refuses_def ret_def fail_def bnd_def split: prod.splits sum.splits)

lemma refuses_reads: "(\<And>pins. f pins \<noteq> Inl Panicked) \<Longrightarrow> refuses (reads f)"
  by (simp add: refuses_def reads_def)

lemma read_source_refuses: "refuses (read_source tid name loc lookup s)"
  by (simp add: refuses_def read_source_def Let_def ret_def fail_def split: option.split sum.split)

lemma read_found_refuses: "refuses (read_found tid name loc lookup found ss)"
  by (induction ss arbitrary: found) (auto intro: read_source_refuses)

lemma raw_value_refuses: "refuses (raw_value tid name loc f lookup b)"
  unfolding raw_value_def Let_def
  by (auto split: input_binding.split option.split list.split intro!: refuses_intros(3) read_source_refuses read_found_refuses)

lemma resolve_bindings_refuses:
  "fst ` set bs \<subseteq> fst ` set fs \<Longrightarrow> refuses (resolve_bindings tid fs lookup obj bs)"
proof (induction bs arbitrary: obj)
  case (Cons e bs)
  obtain name b where e: "e = (name, b)" by (cases e)
  with Cons.prems obtain f where f: "map_of fs name = Some f"
    by (metis fst_conv image_eqI list.set_intros(1) map_of_eq_None_iff not_None_eq subsetD)
  have rest: "refuses (resolve_bindings tid fs lookup obj' bs)" for obj' using Cons by simp
  show ?case
    by (auto simp: e f Let_def split: option.split sum.split intro!: refuses_intros(3) raw_value_refuses rest)
qed auto

lemma map_err_refuses: "map_err (\<lambda>e. Refused (h e)) r \<noteq> Inl Panicked"
  by (cases r) (simp_all add: map_err_def)

lemma resolve_value_refuses:
  assumes "\<And>fs n. resolve (tk_types c) (input_schema c) = Inr (KObject fs, n) \<Longrightarrow>
    fst ` set (tk_bindings c) \<subseteq> fst ` set fs"
  shows "refuses (resolve_value jt t c lookup)"
  unfolding resolve_value_def Let_def
  by (auto simp: map_err_refuses split: sum.split type_kind.split
      intro!: refuses_intros(3) refuses_reads resolve_bindings_refuses dest: assms)

section \<open>The properties\<close>

text \<open>C36. The type of a pointer is right: of a value that validates as a checked type, what is found at a
  pointer validates as the type the pointer leads to; and if the walk over the type says that the
  value cannot be absent, and every step names a field, then there is a value.\<close>

theorem pointer_type_sound:
  assumes "schema_at defs s pointer = Inr (sub, absent)" and "pointer_tokens pointer = Inr tokens"
    and "check_schema_at defs s p = Inr ()" and "objects_ok distinct_fields defs s"
    and "validate_at defs s v path 0 = Inr w"
  shows "(\<forall>x. walk_value True w tokens = Some x \<longrightarrow> (\<exists>u path'. validate_at defs sub u path' 0 = Inr x)) \<and>
    (\<not> absent \<and> field_path defs s tokens \<longrightarrow> (\<exists>x. walk_value True w tokens = Some x))"
proof -
  have walk: "schema_walk defs s False [] tokens = Inr (sub, absent)"
    using assms(1,2) by (auto simp: schema_at_Inr)
  have v: "valid defs 0 s v w" using assms(5) by (simp add: validate_iff)
  have "\<exists>u path'. validate_at defs sub u path' 0 = Inr x" if "walk_value True w tokens = Some x" for x
    using walk_sound [OF walk v check_checked [OF assms(3)] _ assms(4) that] valid_lower [of defs _ sub _ x 0]
    by (auto simp: validate_iff)
  moreover have "\<exists>x. walk_value True w tokens = Some x" if "\<not> absent" "field_path defs s tokens"
    using walk_total [OF _ v assms(4) that(2)] walk that(1) by simp
  ultimately show ?thesis by blast
qed


text \<open>The resolution of checked inputs never panics, whatever has become of the other tasks since.\<close>

theorem checked_inputs_no_panic:
  assumes "check_inputs jt tid c cmd at' lookup = Inr ()"
  shows "resolve_inputs jt files t c base now lookup' \<noteq> None"
proof -
  have "refuses (resolve_value jt t c lookup')"
    by (rule resolve_value_refuses) (use check_inputs_fields(1) [OF assms] in blast)
  then show ?thesis
    by (auto simp: resolve_inputs_def refuses_def Let_def split: prod.splits sum.splits halt.splits)
qed


text \<open>A checked run whose \<open>argv\<close> takes values of named fields gets all its arguments: for an input
  that validated, the execution is resolved, with one text for each argument of the mapping.\<close>

theorem mapped_args_resolve:
  assumes "check_mapping tid (tk_types c) (input_schema c) c (Run argv ws cwd) at' = Inr ()"
    and "t_command t = Run argv ws cwd" and "tk_mapping c = Some m"
    and "\<forall>a \<in> set (im_args m). \<exists>pointer. a = ArgValue pointer \<and>
      (\<forall>tokens. pointer_tokens pointer = Inr tokens \<longrightarrow> field_path (tk_types c) (input_schema c) tokens)"
    and "check_schema_at (tk_types c) (input_schema c) p = Inr ()"
    and "objects_ok distinct_fields (tk_types c) (input_schema c)"
    and "validate_at (tk_types c) (input_schema c) v path 0 = Inr (to_internal tv)"
  shows "\<exists>e. resolve_execution files t c tv base = Inr e \<and> length (re_args e) = length (im_args m) \<and>
    re_stdin e = im_stdin m"
proof -
  let ?loc = "at' @ ''/input_mapping''"
  have none: "im_barrier m = None" "im_params m = []"
    and args: "collect (check_arg tid (tk_types c) (input_schema c) ?loc) (enumerate 0 (im_args m)) \<noteq> Inl e" for e
    using assms(1,3)
    by (auto simp: check_mapping_def check_mapping_fits_def Let_def sbind_Inr_iff sbind_def [of "Inl _"] split: if_splits)
  obtain us where us: "list_all2 (\<lambda>a u. check_arg tid (tk_types c) (input_schema c) ?loc a = Inr u)
      (enumerate 0 (im_args m)) us"
    using args by (metis collect_InrD sum.exhaust)
  have "\<exists>a'. resolve_arg files (t_id t) (to_internal tv) cwd a = Inr a'" if a: "a \<in> set (enumerate 0 (im_args m))" for a
  proof -
    obtain i src where i: "a = (i, src)" by (cases a)
    with a have "src \<in> set (im_args m)" using enumerate_mem by fastforce
    with assms(4) obtain pointer where src: "src = ArgValue pointer"
      and path: "\<forall>tokens. pointer_tokens pointer = Inr tokens \<longrightarrow> field_path (tk_types c) (input_schema c) tokens" by blast
    from us a obtain u where "check_arg tid (tk_types c) (input_schema c) ?loc a = Inr u"
      using list_all2_setD1 by meson
    then have "check_arg tid (tk_types c) (input_schema c) ?loc (i, ArgValue pointer) = Inr ()" by (simp add: i src)
    from resolve_arg_ok [OF this assms(7) [unfolded validate_iff] check_checked [OF assms(5)] assms(6) path]
    show ?thesis by (simp add: i src)
  qed
  then obtain as where as: "collect (resolve_arg files (t_id t) (to_internal tv) cwd) (enumerate 0 (im_args m)) = Inr as"
    using collect_ok by metis
  then have "length as = length (im_args m)" using list_all2_lengthD [OF collect_InrD] by fastforce
  then show ?thesis
    using none as assms(2,3) by (auto simp: resolve_execution_def no_execution_def mapping_empty_def sbind_def)
qed

text \<open>A source with an output that has nothing at the pointer fails whatever reads it.\<close>

lemma read_absent:
  assumes "lookup (bs_from s) = Some p" "producer_output p = Some out"
    and "pointer_tokens (bs_pointer s) = Inr tokens" "walk_value True out tokens = None"
  shows "fst (read_source tid name loc lookup s pins) \<noteq> Inr r"
  using assms by (simp add: read_source_def fail_def)

lemma bnd_Inr: "fst (bnd m g pins) = Inr y \<Longrightarrow> \<exists>x pins'. m pins = (Inr x, pins') \<and> fst (g x pins') = Inr y"
  by (auto simp: bnd_def split: prod.splits sum.splits)

lemma read_found_absent:
  assumes "s \<in> set ss" "\<And>pins r. fst (read_source tid name loc lookup s pins) \<noteq> Inr r"
  shows "fst (read_found tid name loc lookup found ss pins) \<noteq> Inr out"
  using assms(1)
proof (induction ss arbitrary: found pins)
  case (Cons a ss)
  show ?case
  proof
    assume "fst (read_found tid name loc lookup found (a # ss) pins) = Inr out"
    from bnd_Inr [OF this [unfolded read_found.simps]] obtain x pins' where
      x: "read_source tid name loc lookup a pins = (Inr x, pins')"
      "fst (read_found tid name loc lookup (case x of None \<Rightarrow> found | Some v \<Rightarrow> found @ [(bs_from a, v)]) ss pins') = Inr out"
      by blast
    then have "a \<noteq> s" using assms(2) [of pins x] by auto
    with Cons x(2) show False by auto
  qed
qed simp

lemma raw_absent:
  assumes "s \<in> set (binding_sources b)" "\<And>pins r. fst (read_source tid name loc lookup s pins) \<noteq> Inr r"
    and "lookup (bs_from s) = Some p" "\<not> is_not_selected p"
  shows "fst (raw_value tid name loc f lookup b pins) \<noteq> Inr r"
proof
  assume raw: "fst (raw_value tid name loc f lookup b pins) = Inr r"
  show False
  proof (cases b)
    case (FromTask a cv)
    with assms(1) have "a = s" by simp
    with raw FromTask assms(2-4) show False by (auto simp: raw_value_def dest!: bnd_Inr) (metis fst_conv)
  next
    case (OneOf ss cv)
    with raw obtain x pins' where "read_found tid name loc lookup [] ss pins = (Inr x, pins')"
      by (auto simp: raw_value_def dest!: bnd_Inr)
    with read_found_absent [of s ss tid name loc lookup "[]" pins x] assms(1,2) OneOf show False by simp
  qed (use assms(1) in simp)
qed

lemma resolve_bindings_absent:
  assumes "(name, b) \<in> set bs" "\<And>f loc pins r. fst (raw_value tid name loc f lookup b pins) \<noteq> Inr r"
  shows "fst (resolve_bindings tid fs lookup obj bs pins) \<noteq> Inr out"
  using assms(1)
proof (induction bs arbitrary: obj pins)
  case (Cons e bs)
  obtain k c where e: "e = (k, c)" by (cases e)
  show ?case
  proof
    assume res: "fst (resolve_bindings tid fs lookup obj (e # bs) pins) = Inr out"
    then obtain f where f: "map_of fs k = Some f" by (cases "map_of fs k") (simp_all add: e fail_def Let_def)
    from res obtain x pins' where
      x: "raw_value tid k (''/bindings/'' @ escape_token k) f lookup c pins = (Inr x, pins')"
      and rest: "\<exists>obj'. fst (resolve_bindings tid fs lookup obj' bs pins') = Inr out"
      by (auto simp: e f Let_def fail_def split: option.splits sum.splits dest!: bnd_Inr) blast+
    then have "(k, c) \<noteq> (name, b)" using assms(2) by (metis fst_conv prod.inject)
    with Cons rest e show False by auto
  qed
qed simp

text \<open>A source that has succeeded without a value at the pointer of a binding fails the task that takes it:
  the check at creation accepts such a binding for an optional field and for one with a default (an
  absent value is what they are for), yet in whatever binding of an accepted task the source stands, the
  first or a later one, a plain one or one among several, the input is refused instead of leaving the
  field empty.\<close>

theorem absent_value_refused:
  assumes "check_inputs jt tid c cmd at' created = Inr ()"
    and "resolve (tk_types c) (input_schema c) = Inr (KObject fs, n)"
    and "(name, b) \<in> set (tk_bindings c)" and "s \<in> set (binding_sources b)"
    and "lookup (bs_from s) = Some p" and "producer_output p = Some out" and "\<not> is_not_selected p"
    and "pointer_tokens (bs_pointer s) = Inr tokens" and "walk_value True out tokens = None"
  shows "\<exists>g. fst (resolve_value jt t c lookup []) = Inl (Refused g)"
proof -
  have read: "fst (read_source tid' k loc lookup s pins) \<noteq> Inr r" for tid' k loc pins r
    by (rule read_absent [where lookup = lookup, OF assms(5,6,8,9)])
  have raw: "fst (raw_value tid' k loc f lookup b pins) \<noteq> Inr r" for tid' k loc f pins r
    by (rule raw_absent [OF assms(4) read assms(5,7)])
  have "fst (resolve_value jt t c lookup []) \<noteq> Inr v" for v
  proof
    assume "fst (resolve_value jt t c lookup []) = Inr v"
    with assms(2) obtain obj pins where "resolve_bindings (t_id t) fs lookup [] (tk_bindings c) [] = (Inr obj, pins)"
      by (auto simp: resolve_value_def Let_def dest!: bnd_Inr)
    with resolve_bindings_absent [where fs = fs and obj = "[]" and pins = "[]" and out = obj, OF assms(3) raw]
    show False by (metis fst_conv)
  qed
  moreover have "refuses (resolve_value jt t c lookup)"
    by (rule resolve_value_refuses) (use check_inputs_fields(1) [OF assms(1)] in blast)
  then have "fst (resolve_value jt t c lookup []) \<noteq> Inl Panicked" by (metis refuses_def prod.collapse)
  ultimately show ?thesis
    by (cases "fst (resolve_value jt t c lookup [])") (auto split: halt.splits, metis halt.exhaust)
qed

section \<open>Examples\<close>

definition short_text :: json_text where
  "short_text = \<lparr>jt_print = \<lambda>_. Some ''x'', jt_parse = \<lambda>_. None\<rparr>"

definition sample_output :: typed_value where
  "sample_output = TVObject [(''count'', TVInt64 7), (''note'', TVString ''ok'')]"

definition maker_schema :: type_schema where
  "maker_schema = plain_schema (KObject
     [(''count'', FieldSchema int64_schema False None), (''note'', FieldSchema string_schema True None)])"

definition maker :: "typed_value \<Rightarrow> task" where
  "maker out = (sample_task ''a'' [])\<lparr>t_state := Succeeded,
     t_contract := Some (sample_contract\<lparr>tk_output := Some maker_schema\<rparr>),
     t_typed_result := Some \<lparr>tr_has_output = True, tr_output = out,
       tr_raw = \<lparr>rw_exit = None, rw_execution = None, rw_truncated = None, rw_postprocess = None, rw_accepted = None\<rparr>,
       tr_error = None, tr_provenance = \<lparr>pv_version = 2, pv_kind = ''custom'', pv_source = ''custom.response''\<rparr>\<rparr>\<rparr>"

definition taker_contract :: "string \<Rightarrow> task_contract" where
  "taker_contract pointer = sample_contract\<lparr>
     tk_input := Some (plain_schema (KObject
       [(''level'', FieldSchema string_schema False (Some (JStr ''low''))),
        (''n'', FieldSchema int64_schema False None), (''text'', FieldSchema string_schema True None)])),
     tk_bindings := [(''n'', FromTask \<lparr>bs_from = ''a'', bs_pointer = ''/count''\<rparr> None),
       (''text'', FromTask \<lparr>bs_from = ''a'', bs_pointer = pointer\<rparr> None)],
     tk_mapping := Some (no_mapping\<lparr>im_args := [ArgValue ''/n'', ArgValue ''/level''], im_stdin := True\<rparr>)\<rparr>"

definition taker_lookup :: "typed_value \<Rightarrow> string \<Rightarrow> task option" where
  "taker_lookup out i = (if i = ''a'' then Some (maker out) else None)"

theorem pointer_type_sound_witness:
  "walk_value True (to_internal sample_output) [''count''] = Some (JNum (PosInt 7)) \<and>
   (\<exists>u path'. validate_at [] int64_schema u path' 0 = Inr (JNum (PosInt 7)))"
proof -
  have at: "schema_at [] maker_schema ''/count'' = Inr (int64_schema, False)" by code_simp
  have tokens: "pointer_tokens ''/count'' = Inr [''count'']" by code_simp
  have chk: "check_schema_at [] maker_schema [] = Inr ()" by code_simp
  have v: "validate_at [] maker_schema (to_internal sample_output) [] 0 = Inr (to_internal sample_output)"
    by code_simp
  have w: "walk_value True (to_internal sample_output) [''count''] = Some (JNum (PosInt 7))" by code_simp
  have "objects_ok distinct_fields [] maker_schema"
    by (simp add: objects_ok_def maker_schema_def plain_schema_def distinct_fields_def)
  from pointer_type_sound [OF at tokens chk this v] w show ?thesis by blast
qed


lemma maker_facts:
  "output_schema_of (maker out) = ([], maker_schema)" "producer_output (maker out) = Some (to_internal out)"
  "\<not> is_not_selected (maker out)" "objects_ok distinct_fields [] maker_schema"
  by (simp_all add: output_schema_of_def output_schema_def maker_def sample_task_def sample_contract_def
      producer_output_def is_not_selected_def objects_ok_def maker_schema_def plain_schema_def distinct_fields_def)

lemma taker_facts:
  "objects_ok distinct_fields (tk_types (taker_contract q)) (input_schema (taker_contract q))"
  "objects_ok shallow (tk_types (taker_contract q)) (input_schema (taker_contract q))"
  "distinct (map fst (tk_bindings (taker_contract q)))"
  by (simp_all add: objects_ok_def taker_contract_def input_schema_def sample_contract_def plain_schema_def
      distinct_fields_def shallow_def)


theorem checked_inputs_no_panic_witness:
  "resolve_inputs short_text (\<lambda>_. NotAFile) (sample_task ''b'' [''a'']) (taker_contract ''/note'') None 5 (\<lambda>_. None) \<noteq> None"
proof (rule checked_inputs_no_panic)
  show "check_inputs short_text ''b'' (taker_contract ''/note'') (Run [''true''] 1 None) [] (taker_lookup sample_output) = Inr ()"
    by code_simp
qed

text \<open>A task that takes the optional note of another as an optional text, after a value it gets.\<close>

definition noted_taker :: task_contract where
  "noted_taker = (taker_contract ''/note'')\<lparr>
     tk_input := Some (plain_schema (KObject
       [(''n'', FieldSchema int64_schema False None), (''text'', FieldSchema string_schema True None)])),
     tk_mapping := None\<rparr>"

theorem absent_value_refused_witness:
  "check_inputs short_text ''b'' noted_taker (Run [''true''] 1 None) [] (taker_lookup sample_output) = Inr () \<and>
   (\<exists>g. fst (resolve_value short_text (sample_task ''b'' [''a'']) noted_taker
       (taker_lookup (TVObject [(''count'', TVInt64 7)])) []) = Inl (Refused g))"
proof
  show chk: "check_inputs short_text ''b'' noted_taker (Run [''true''] 1 None) [] (taker_lookup sample_output) = Inr ()"
    by code_simp
  let ?out = "TVObject [(''count'', TVInt64 7)]"
  have res: "resolve (tk_types noted_taker) (input_schema noted_taker) =
      Inr (KObject [(''n'', FieldSchema int64_schema False None), (''text'', FieldSchema string_schema True None)], False)"
    by code_simp
  have b: "(''text'', FromTask \<lparr>bs_from = ''a'', bs_pointer = ''/note''\<rparr> None) \<in> set (tk_bindings noted_taker)"
    by (simp add: noted_taker_def taker_contract_def)
  have tokens: "pointer_tokens ''/note'' = Inr [''note'']" and none: "walk_value True (to_internal ?out) [''note''] = None"
    by code_simp+
  show "\<exists>g. fst (resolve_value short_text (sample_task ''b'' [''a'']) noted_taker (taker_lookup ?out) []) = Inl (Refused g)"
  proof (rule absent_value_refused [OF chk res b _ _ _ _ _ none])
    show "taker_lookup ?out (bs_from \<lparr>bs_from = ''a'', bs_pointer = ''/note''\<rparr>) = Some (maker ?out)"
      by (simp add: taker_lookup_def)
  qed (simp_all add: maker_facts tokens del: to_internal.simps)
qed

theorem mapped_args_resolve_witness:
  "\<exists>e. resolve_execution (\<lambda>_. NotAFile) (sample_task ''b'' [''a'']) (taker_contract ''/note'')
       (TVObject [(''level'', TVString ''low''), (''n'', TVInt64 7)]) None = Inr e \<and>
     length (re_args e) = 2 \<and> re_stdin e"
proof -
  let ?m = "no_mapping\<lparr>im_args := [ArgValue ''/n'', ArgValue ''/level''], im_stdin := True\<rparr>"
  have m: "tk_mapping (taker_contract ''/note'') = Some ?m" by (simp add: taker_contract_def)
  have chk: "check_mapping ''b'' (tk_types (taker_contract ''/note'')) (input_schema (taker_contract ''/note''))
      (taker_contract ''/note'') (Run [''true''] 1 None) [] = Inr ()" by code_simp
  have ok: "check_schema_at (tk_types (taker_contract ''/note'')) (input_schema (taker_contract ''/note'')) [] = Inr ()"
    by code_simp
  have v: "validate_at (tk_types (taker_contract ''/note'')) (input_schema (taker_contract ''/note''))
      (JObj [(''n'', JNum (PosInt 7))]) [] 0 =
      Inr (to_internal (TVObject [(''level'', TVString ''low''), (''n'', TVInt64 7)]))" by code_simp
  have path: "field_path (tk_types (taker_contract ''/note'')) (input_schema (taker_contract ''/note'')) [''n'']"
    "field_path (tk_types (taker_contract ''/note'')) (input_schema (taker_contract ''/note'')) [''level'']" by code_simp+
  have tokens: "pointer_tokens ''/n'' = Inr [''n'']" "pointer_tokens ''/level'' = Inr [''level'']" by code_simp+
  have "\<forall>a \<in> set (im_args ?m). \<exists>pointer. a = ArgValue pointer \<and> (\<forall>tokens. pointer_tokens pointer = Inr tokens \<longrightarrow>
      field_path (tk_types (taker_contract ''/note'')) (input_schema (taker_contract ''/note'')) tokens)"
    using path tokens by simp
  from mapped_args_resolve [OF chk _ m this ok taker_facts(1) v, of "sample_task ''b'' [''a'']" "\<lambda>_. NotAFile" None]
  show ?thesis by (simp add: sample_task_def numeral_2_eq_2)
qed

end
