(* ===== verification/Utf8_Text.thy ===== *)
theory Utf8_Text
  imports Memory
begin

text \<open>
  What the task store does with texts: cutting one at a character boundary, trimming, the first
  line, joining. A text is its UTF-8 bytes; a cut at a boundary leaves well-formed UTF-8.
\<close>

section \<open>Character boundaries\<close>

definition char_boundary :: "string \<Rightarrow> nat \<Rightarrow> bool" where
  "char_boundary s i \<longleftrightarrow> i = 0 \<or> i = length s \<or> (i < length s \<and> \<not> utf8_cont (s ! i))"

text \<open>\<open>while !text.is_char_boundary(cut) { cut -= 1; }\<close>\<close>

primrec char_floor :: "string \<Rightarrow> nat \<Rightarrow> nat" where
  "char_floor s 0 = 0"
| "char_floor s (Suc n) = (if char_boundary s (Suc n) then Suc n else char_floor s n)"

lemma char_floor_le: "char_floor s n \<le> n"
  by (induction n) auto

lemma char_floor_boundary: "char_boundary s (char_floor s n)"
  by (induction n) (auto simp: char_boundary_def)

lemma char_floor_most: "char_boundary s i \<Longrightarrow> i \<le> n \<Longrightarrow> i \<le> char_floor s n"
  by (induction n) (auto simp: le_Suc_eq)

lemma cont_not_first: "utf8_step (a # s) = Some r \<Longrightarrow> \<not> utf8_cont a"
  by (auto simp: utf8_cont_def byte_in_def split: if_splits)

text \<open>A character has at most four bytes, all but the first of which continue it.\<close>

lemma utf8_step_parts:
  assumes "utf8_step s = Some r"
  obtains a cs where "s = a # cs @ r" "\<forall>c \<in> set cs. utf8_cont c" "length cs \<le> 3" "\<not> utf8_cont a"
    "\<And>t. utf8_step (a # cs @ t) = Some t"
proof -
  obtain a s' where s: "s = a # s'" using assms by (cases s) auto
  have a: "\<not> utf8_cont a" using assms cont_not_first s by blast
  from assms consider
      (1) "byte_in a 0 127" "r = s'"
    | (2) b where "\<not> byte_in a 0 127" "byte_in a 194 223" "s' = b # r" "utf8_cont b"
    | (3) b c where "\<not> byte_in a 0 127" "\<not> byte_in a 194 223" "byte_in a 224 239" "s' = b # c # r"
        "utf8_cont b" "utf8_cont c" "byte_in a 224 224 \<longrightarrow> byte_in b 160 191" "byte_in a 237 237 \<longrightarrow> byte_in b 128 159"
    | (4) b c d where "\<not> byte_in a 0 127" "\<not> byte_in a 194 223" "\<not> byte_in a 224 239" "byte_in a 240 244"
        "s' = b # c # d # r" "utf8_cont b" "utf8_cont c" "utf8_cont d"
        "byte_in a 240 240 \<longrightarrow> byte_in b 144 191" "byte_in a 244 244 \<longrightarrow> byte_in b 128 143"
    unfolding s by (auto split: if_splits list.splits)
  then show thesis
  proof cases
    case 1
    then show ?thesis using that [of a "[]"] s a by simp
  next
    case (2 b)
    then show ?thesis using that [of a "[b]"] s a by simp
  next
    case (3 b c)
    then show ?thesis using that [of a "[b, c]"] s a by simp
  next
    case (4 b c d)
    then show ?thesis using that [of a "[b, c, d]"] s a by simp
  qed
qed

lemma utf8_valid_Nil [simp]: "utf8_valid []"
  by (simp add: utf8_valid.simps)

lemma utf8_valid_step: "utf8_step s = Some r \<Longrightarrow> utf8_valid s = utf8_valid r"
  by (subst utf8_valid.simps) auto

lemma utf8_valid_cases:
  assumes "utf8_valid s" "s \<noteq> []"
  obtains r where "utf8_step s = Some r" "utf8_valid r"
  using assms by (subst (asm) utf8_valid.simps) (auto split: option.splits)

text \<open>A cut at a boundary of a well-formed text leaves two well-formed texts.\<close>

lemma utf8_valid_take:
  "utf8_valid s \<Longrightarrow> char_boundary s i \<Longrightarrow> utf8_valid (take i s)"
proof (induction "length s" arbitrary: s i rule: less_induct)
  case less
  show ?case
  proof (cases "s = [] \<or> i = 0 \<or> length s \<le> i")
    case True
    with less.prems show ?thesis by auto
  next
    case False
    then obtain r where r: "utf8_step s = Some r" "utf8_valid r" using less.prems(1) by (auto elim: utf8_valid_cases)
    obtain a cs where s: "s = a # cs @ r" and cont: "\<forall>c \<in> set cs. utf8_cont c"
      and step: "\<And>t. utf8_step (a # cs @ t) = Some t"
      by (rule utf8_step_parts [OF r(1)]) blast
    have i: "Suc (length cs) \<le> i"
    proof (rule ccontr)
      assume "\<not> Suc (length cs) \<le> i"
      with False have "s ! i \<in> set cs" by (auto simp: s nth_append nth_Cons' less_Suc_eq_le)
      with cont have "utf8_cont (s ! i)" by blast
      with less.prems(2) False show False by (simp add: char_boundary_def)
    qed
    define j where "j = i - Suc (length cs)"
    have take: "take i s = a # cs @ take j r" using i by (simp add: s j_def take_Cons')
    have "char_boundary r j"
      using less.prems(2) False i by (auto simp: char_boundary_def s j_def nth_append nth_Cons' split: if_splits)
    then have "utf8_valid (take j r)" using less.hyps [of r] r(2) by (simp add: s)
    then show ?thesis unfolding take using utf8_valid_step [OF step] by simp
  qed
qed

text \<open>The cut loses at most the three bytes that continue a character.\<close>

lemma boundary_near:
  "utf8_valid s \<Longrightarrow> n \<le> length s \<Longrightarrow> \<exists>i. char_boundary s i \<and> i \<le> n \<and> n \<le> i + 3"
proof (induction "length s" arbitrary: s n rule: less_induct)
  case less
  show ?case
  proof (cases "n \<le> 3")
    case True
    then show ?thesis by (intro exI [of _ 0]) (simp add: char_boundary_def)
  next
    case False
    with less.prems(2) have "s \<noteq> []" by auto
    with less.prems(1) obtain r where r: "utf8_step s = Some r" "utf8_valid r" by (auto elim: utf8_valid_cases)
    obtain a cs where s: "s = a # cs @ r" and len: "length cs \<le> 3"
      by (rule utf8_step_parts [OF r(1)]) blast
    show ?thesis
    proof (cases "n \<le> length cs")
      case True
      with len have "n \<le> 0 + 3" by simp
      then show ?thesis by (intro exI [of _ 0]) (simp add: char_boundary_def)
    next
      case n: False
      define m where "m = n - Suc (length cs)"
      have "m \<le> length r" using less.prems(2) n by (simp add: s m_def)
      with less.hyps [of r] r(2) obtain i where i: "char_boundary r i" "i \<le> m" "m \<le> i + 3"
        by (auto simp: s)
      show ?thesis
      proof (cases "i = 0 \<and> r \<noteq> []")
        case True
        then obtain b r' where b: "r = b # r'" by (cases r) auto
        from r(2) b have "\<not> utf8_cont b" by (metis cont_not_first utf8_valid_cases list.distinct(1))
        then have "char_boundary s (Suc (length cs))" by (simp add: char_boundary_def s b nth_append)
        with True i n show ?thesis by (intro exI [of _ "Suc (length cs)"]) (simp add: m_def)
      next
        case False
        with i(1) have "char_boundary s (Suc (length cs) + i)"
          by (auto simp: char_boundary_def s nth_append)
        moreover have "Suc (length cs) + i \<le> n" "n \<le> Suc (length cs) + i + 3"
          using i n unfolding m_def by linarith+
        ultimately show ?thesis by blast
      qed
    qed
  qed
qed

lemma char_floor_near: "utf8_valid s \<Longrightarrow> n \<le> length s \<Longrightarrow> n \<le> char_floor s n + 3"
  using boundary_near [of s n] char_floor_most by (metis add_le_mono1 le_trans)

section \<open>Trimming and lines\<close>

text \<open>The characters of the property \<open>White_Space\<close>, which \<open>trim\<close> removes at both ends.\<close>

definition utf8_space :: "string \<Rightarrow> bool" where
  "utf8_space ch \<longleftrightarrow>
     (case ch of
        [a] \<Rightarrow> byte_in a 9 13 \<or> a = CHR '' ''
      | [a, b] \<Rightarrow> a = CHR 0xC2 \<and> (b = CHR 0x85 \<or> b = CHR 0xA0)
      | [a, b, c] \<Rightarrow>
          a = CHR 0xE1 \<and> b = CHR 0x9A \<and> c = CHR 0x80
          \<or> a = CHR 0xE2 \<and> b = CHR 0x80 \<and> (byte_in c 0x80 0x8A \<or> byte_in c 0xA8 0xA9 \<or> c = CHR 0xAF)
          \<or> a = CHR 0xE2 \<and> b = CHR 0x81 \<and> c = CHR 0x9F
          \<or> a = CHR 0xE3 \<and> b = CHR 0x80 \<and> c = CHR 0x80
      | _ \<Rightarrow> False)"

definition trim :: "string \<Rightarrow> string" where
  "trim s = concat (rev (dropWhile utf8_space (rev (dropWhile utf8_space (utf8_chars s)))))"

definition blank :: "string \<Rightarrow> bool" where
  "blank s \<longleftrightarrow> list_all utf8_space (utf8_chars s)"

lemma concat_utf8_chars [simp]: "concat (utf8_chars s) = s"
  by (induction s rule: utf8_chars.induct) auto

lemma utf8_chars_nonempty: "[] \<notin> set (utf8_chars s)"
  by (induction s rule: utf8_chars.induct) auto

lemma blank_trim: "blank s \<longleftrightarrow> trim s = []"
proof -
  let ?d = "dropWhile utf8_space (utf8_chars s)"
  have sub: "set (dropWhile utf8_space xs) \<subseteq> set xs" for xs
    by (metis dropWhile_eq_drop set_drop_subset)
  define X where "X = dropWhile utf8_space (rev ?d)"
  have "[] \<notin> set X"
    using sub [of "rev ?d"] sub [of "utf8_chars s"] utf8_chars_nonempty [of s] unfolding X_def by auto
  then have "concat (rev X) = [] \<longleftrightarrow> X = []" by (cases X) auto
  then have "trim s = [] \<longleftrightarrow> dropWhile utf8_space (rev ?d) = []" unfolding X_def trim_def .
  also have "\<dots> \<longleftrightarrow> (\<forall>c \<in> set ?d. utf8_space c)" by (auto simp: dropWhile_eq_Nil_conv)
  also have "\<dots> \<longleftrightarrow> ?d = []"
    using hd_dropWhile [of utf8_space "utf8_chars s"] hd_in_set [of ?d] by (metis empty_iff empty_set)
  finally show ?thesis by (simp only: blank_def dropWhile_eq_Nil_conv list_all_iff)
qed

text \<open>\<open>trim\<close> of a text of printable ASCII characters is that text.\<close>

lemma utf8_chars_ascii: "list_all (\<lambda>c. of_char c < (128 :: nat)) s \<Longrightarrow> utf8_chars s = map (\<lambda>c. [c]) s"
proof (induction s)
  case (Cons c s)
  have "takeWhile utf8_cont s = []" "dropWhile utf8_cont s = s"
    using Cons.prems by (cases s; auto simp: utf8_cont_def)+
  with Cons show ?case by simp
qed simp

lemma dropWhile_id: "list_all (\<lambda>x. \<not> P x) xs \<Longrightarrow> dropWhile P xs = xs"
  by (cases xs) auto

lemma trim_ascii:
  assumes "list_all (\<lambda>c. (32 :: nat) < of_char c \<and> of_char c < (128 :: nat)) s"
  shows "trim s = s"
proof -
  have "utf8_chars s = map (\<lambda>c. [c]) s"
    by (rule utf8_chars_ascii) (use assms in \<open>auto simp: list_all_iff\<close>)
  moreover have "\<not> utf8_space [c]" if "c \<in> set s" for c
  proof -
    from that assms have "32 < (of_char c :: nat)" by (auto simp: list_all_iff)
    then have "c \<noteq> CHR '' ''" by auto
    with \<open>32 < of_char c\<close> show ?thesis by (simp add: utf8_space_def byte_in_def)
  qed
  ultimately show ?thesis by (simp add: trim_def dropWhile_id list_all_iff)
qed

text \<open>\<open>lines().next()\<close>: a carriage return goes only with the newline after it.\<close>

definition first_line :: "string \<Rightarrow> string option" where
  "first_line s =
     (if s = [] then None
      else let l = takeWhile (\<lambda>c. c \<noteq> CHR 0x0A) s
           in Some (if CHR 0x0A \<in> set s \<and> l \<noteq> [] \<and> last l = CHR 0x0D then butlast l else l))"

end
