(* ===== verification/Task_Result.thy ===== *)
theory Task_Result
  imports Task_Inputs Utf8_Text
begin

text \<open>
  From what a run reports to the result of a typed task: the reports of agent sessions
  (\<open>task/agent.rs\<close>), the bound on raw responses and the settling of a result (\<open>task/contract.rs\<close>), and
  the post-processing slot (\<open>task/postprocess.rs\<close>). \<open>jt\<close> is the JSON text codec. Library functions are
  parameters: \<open>ptr\<close> is \<open>Value::pointer\<close>, and \<open>docs\<close> the stream of the values of a text, each a value or the
  text of a parse error.
\<close>

section \<open>Agent sessions\<close>

definition needs_submission :: "task_contract \<Rightarrow> task_command \<Rightarrow> bool" where
  "needs_submission c command \<longleftrightarrow>
     tk_postprocess c = None \<and>
     \<not> (case resolve (tk_types c) (output_schema c command) of Inr (k, _) \<Rightarrow> string_kind k | Inl _ \<Rightarrow> False)"

text \<open>\<open>candidate\<close>: what was submitted, else the final answer if an answer may be the output.\<close>

definition candidate :: "json option \<Rightarrow> bool \<Rightarrow> (json \<times> string) option" where
  "candidate report submission_needed =
     (case report of
        None \<Rightarrow> None
      | Some r \<Rightarrow>
          (case jget r ''submitted'' of
             Some v \<Rightarrow> Some (v, ''agent.submitted'')
           | None \<Rightarrow>
               if submission_needed then None
               else (case jget r ''final_answer'' of
                       Some (JStr s) \<Rightarrow> Some (JStr s, ''agent.final_answer'')
                     | _ \<Rightarrow> None)))"

definition answer_excerpt_chars :: nat where "answer_excerpt_chars = 2000"

definition answer_excerpt :: "string \<Rightarrow> string \<times> bool" where
  "answer_excerpt answer =
     (let chars = utf8_chars answer
      in if answer_excerpt_chars < length chars then (concat (take answer_excerpt_chars chars), True)
         else (answer, False))"

text \<open>\<open>check_provider\<close> asks the plugin registry; its answer for a namespace is a parameter.\<close>

datatype provider_lookup =
    PluginOwner string bool "string list"
  | NoOwner
  | NotPublished

definition check_provider :: "(string \<Rightarrow> provider_lookup) \<Rightarrow> string \<Rightarrow> string + unit" where
  "check_provider plugins provider =
     (let refuse = (\<lambda>reason. Inl (''agent provider '' @ squoted provider @
            '' does not support result collection: '' @ reason))
      in case plugins provider of
           PluginOwner plugin enabled permissions \<Rightarrow>
             if \<not> enabled
             then refuse (''plugin '' @ squoted plugin @ '' that owns the '' @ squoted provider @
                    '' namespace is disabled'')
             else if ''agent.turn_report'' \<notin> set permissions
             then refuse (''plugin '' @ squoted plugin @ '' that owns the '' @ squoted provider @
                    '' namespace does not have the agent.turn_report permission, so it cannot report turns'')
             else Inr ()
         | NoOwner \<Rightarrow> refuse (''no installed plugin owns the '' @ squoted provider @ '' namespace'')
         | NotPublished \<Rightarrow> refuse ''plugin information is not loaded yet'')"

definition check_command ::
  "(string \<Rightarrow> provider_lookup) \<Rightarrow> string \<Rightarrow> string \<Rightarrow> u64 option \<Rightarrow> string + unit" where
  "check_command plugins provider instruction timeout =
     sbind (check_provider plugins provider) (\<lambda>_.
       if blank instruction then Inl ''agent instruction must not be empty''
       else if timeout = Some 0 then Inl ''agent timeout_ms must be positive''
       else Inr ())"

text \<open>\<open>agent::phase\<close>.\<close>

definition agent_phase :: "task \<Rightarrow> string option" where
  "agent_phase t =
     (if (case t_command t of AgentTurn _ _ _ _ _ \<Rightarrow> True | _ \<Rightarrow> False) \<and> t_state t = Running
      then Some (if (case Option.bind (t_attempt t) at_agent of None \<Rightarrow> False
                     | Some l \<Rightarrow> al_awaiting_since l \<noteq> None)
                 then ''awaiting_input'' else ''executing'')
      else None)"

definition attempt_marker_line :: "string \<Rightarrow> string" where
  "attempt_marker_line token =
     ''Tasty task attempt marker (no action needed): [tasty-task-attempt:'' @ token @ '']''"

definition report_line :: "string \<Rightarrow> string" where
  "report_line address =
     ''If you need to record notes in this task'' @ [CHR 0x27] @
       ''s report, run `tasty agent report usage` to read how. Report address: '' @ address"

section \<open>Bounded copies\<close>

definition accepted_response_cap :: nat where "accepted_response_cap = 64 * 1024"
definition execution_response_cap :: nat where "execution_response_cap = accepted_response_cap"

text \<open>\<open>value.to_string()\<close>: every JSON value has a text.\<close>

definition json_string :: "json_text \<Rightarrow> json \<Rightarrow> string" where
  "json_string jt v = (case jt_print jt v of Some s \<Rightarrow> s | None \<Rightarrow> [])"

definition capture_within :: "json_text \<Rightarrow> json \<Rightarrow> nat \<Rightarrow> capped_json" where
  "capture_within jt v cap =
     (let text = json_string jt v in
      if length text \<le> cap
      then \<lparr>cj_response = Some v, cj_text = None, cj_truncated = False, cj_dropped = 0\<rparr>
      else let cut = char_floor text cap
           in \<lparr>cj_response = None, cj_text = Some (take cut text), cj_truncated = True,
               cj_dropped = of_nat (length text - cut)\<rparr>)"

definition capture :: "json_text \<Rightarrow> json \<Rightarrow> capped_json" where
  "capture jt v = capture_within jt v accepted_response_cap"

definition raw_execution ::
  "json_text \<Rightarrow> task_command \<Rightarrow> json option \<Rightarrow> json option \<times> capped_json option" where
  "raw_execution jt command execution =
     (let bounded = (case command of Custom _ _ _ \<Rightarrow> True | AgentTurn _ _ _ _ _ \<Rightarrow> True | _ \<Rightarrow> False)
      in case execution of
           Some v \<Rightarrow>
             if bounded then
               (let capped = capture_within jt v execution_response_cap
                in if cj_truncated capped then (None, Some capped) else (cj_response capped, None))
             else (Some v, None)
         | None \<Rightarrow> (None, None))"

definition raw_empty :: "raw_result \<Rightarrow> bool" where
  "raw_empty r \<longleftrightarrow> rw_exit r = None \<and> rw_execution r = None \<and> rw_truncated r = None
     \<and> rw_postprocess r = None \<and> rw_accepted r = None"

section \<open>Settling a result\<close>

definition provenance_of :: "task \<Rightarrow> task_contract \<Rightarrow> string \<Rightarrow> provenance" where
  "provenance_of t c source =
     \<lparr>pv_version = tk_version c, pv_kind = command_kind (t_command t), pv_source = source\<rparr>"

definition failed_result :: "raw_result \<Rightarrow> task_failure \<Rightarrow> provenance \<Rightarrow> typed_result" where
  "failed_result raw f prov =
     \<lparr>tr_has_output = False, tr_output = TVNull, tr_raw = raw, tr_error = Some f, tr_provenance = prov\<rparr>"

definition missing_submission :: string where
  "missing_submission = ''the turn ended without submitting the required result (tasty agent task-submit)''"

text \<open>The output a report stands for, with where it came from, or the failure.\<close>

definition reported_output ::
  "task \<Rightarrow> task_contract \<Rightarrow> task_result \<Rightarrow> (task_failure \<times> string) + (json \<times> string)" where
  "reported_output t c reported =
     (case t_command t of
        Run _ _ _ \<Rightarrow>
          (case res_exit reported of
             Some code \<Rightarrow> Inr (JNum (num_of_i64 code), ''run.exit_code'')
           | None \<Rightarrow> Inl (failure_new StageExecution (msg ''run finished without a numeric exit code''),
               ''run.exit_code''))
      | WaitBarrier _ \<Rightarrow> Inr (JNull, ''wait_barrier.closed'')
      | AgentTurn _ _ _ _ _ \<Rightarrow>
          (let need = needs_submission c (t_command t) in
           case candidate (res_output reported) need of
             Some found \<Rightarrow> Inr found
           | None \<Rightarrow>
               let (why, source) =
                 (if need then (missing_submission, ''agent.submitted'')
                  else (''the agent turn ended without a final answer'', ''agent.final_answer''))
               in Inl ((failure_new StageOutput (code_message ResultMissing why))\<lparr>tf_code := Some ResultMissing\<rparr>,
                    source))
      | Custom _ _ _ \<Rightarrow>
          (case res_output reported of
             Some v \<Rightarrow> Inr (v, ''custom.response'')
           | None \<Rightarrow> Inl (failure_new StageOutput (msg ''no output was produced''), ''custom.response''))
      | Reduce _ _ \<Rightarrow>
          (case res_output reported of
             Some v \<Rightarrow> Inr (v, ''reduce.value'')
           | None \<Rightarrow> Inl (failure_new StageOutput (msg ''no output was produced''), ''reduce.value'')))"

definition finalize_result :: "json_text \<Rightarrow> task \<Rightarrow> task_contract \<Rightarrow> task_result \<Rightarrow> typed_result" where
  "finalize_result jt t c reported =
     (let (execution, truncated) = raw_execution jt (t_command t) (res_output reported);
          raw = \<lparr>rw_exit = res_exit reported, rw_execution = execution, rw_truncated = truncated,
                 rw_postprocess = None, rw_accepted = t_accepted t\<rparr>;
          prov = provenance_of t c
      in case res_error reported of
           Some error \<Rightarrow>
             (let code = (case t_command t of AgentTurn _ _ _ _ _ \<Rightarrow> parse_code error | _ \<Rightarrow> None);
                  stage = (if code = Some ResultMissing then StageOutput else StageExecution)
              in failed_result raw ((failure_new stage error)\<lparr>tf_code := code\<rparr>) (prov ''none''))
         | None \<Rightarrow>
             (case reported_output t c reported of
                Inl (f, source) \<Rightarrow> failed_result raw f (prov source)
              | Inr (v, source) \<Rightarrow>
                  (case validate_typed jt (tk_types c) (output_schema c (t_command t)) v of
                     Inr output \<Rightarrow>
                       \<lparr>tr_has_output = True, tr_output = output,
                        tr_raw =
                          (case t_command t of
                             Reduce _ _ \<Rightarrow> \<lparr>rw_exit = res_exit reported, rw_execution = None, rw_truncated = None,
                               rw_postprocess = None, rw_accepted = None\<rparr>
                           | _ \<Rightarrow> raw),
                        tr_error = None, tr_provenance = prov source\<rparr>
                   | Inl e \<Rightarrow> failed_result raw (failure_typed StageOutput (Some (t_id t)) e) (prov source))))"

definition project_v1 :: "typed_result \<Rightarrow> task_result" where
  "project_v1 typed =
     \<lparr>res_exit = rw_exit (tr_raw typed),
      res_output = (if tr_has_output typed then Some (to_wire (tr_output typed)) else None),
      res_error = map_option tf_message (tr_error typed)\<rparr>"

text \<open>A stored result, and a stored input, read back with the schemas of the contract.\<close>

record typed_result_wire =
  trw_has_output :: bool
  trw_output :: json
  trw_raw :: raw_result
  trw_error :: "task_failure option"
  trw_provenance :: provenance

definition result_from_wire ::
  "typed_result_wire \<Rightarrow> type_defs \<Rightarrow> type_schema \<Rightarrow> type_error + typed_result" where
  "result_from_wire w defs schema =
     sbind (if trw_has_output w then typed_value_of defs schema (trw_output w) else Inr TVNull) (\<lambda>output.
       Inr \<lparr>tr_has_output = trw_has_output w, tr_output = output, tr_raw = trw_raw w, tr_error = trw_error w,
            tr_provenance = trw_provenance w\<rparr>)"

record input_snapshot_wire =
  isw_resolved_at :: u64
  isw_value :: json
  isw_sources :: "source_pin list"
  isw_execution :: resolved_execution
  isw_failure :: "task_failure option"

definition snapshot_from_wire ::
  "input_snapshot_wire \<Rightarrow> type_defs \<Rightarrow> type_schema \<Rightarrow> type_error + input_snapshot" where
  "snapshot_from_wire w defs schema =
     sbind (if isw_failure w \<noteq> None then Inr TVNull else typed_value_of defs schema (isw_value w)) (\<lambda>v.
       Inr \<lparr>is_resolved_at = isw_resolved_at w, is_value = v, is_sources = isw_sources w,
            is_execution = isw_execution w, is_failure = isw_failure w\<rparr>)"

text \<open>\<open>Task::try_from\<close>: the record without its typed parts, and these in their stored form.\<close>

definition task_from_wire ::
  "task \<Rightarrow> input_snapshot_wire option \<Rightarrow> typed_result_wire option \<Rightarrow> message + task" where
  "task_from_wire t snapshot result =
     (let said = (\<lambda>text. Lit (''task '' @ t_id t @ '': '' @ text)) in
      sbind (case (snapshot, t_contract t) of
               (None, _) \<Rightarrow> Inr None
             | (Some s, Some c) \<Rightarrow>
                 sbind (map_err (\<lambda>e. [said ''stored input: '', TypeErr e])
                   (snapshot_from_wire s (tk_types c) (input_schema c))) (\<lambda>s. Inr (Some s))
             | (Some _, None) \<Rightarrow> Inl [said ''input_snapshot without a contract'']) (\<lambda>snapshot'.
      sbind (case (result, t_contract t) of
               (None, _) \<Rightarrow> Inr None
             | (Some r, Some c) \<Rightarrow>
                 sbind (map_err (\<lambda>e. [said ''stored output: '', TypeErr e])
                   (result_from_wire r (tk_types c) (output_schema c (t_command t)))) (\<lambda>r. Inr (Some r))
             | (Some _, None) \<Rightarrow> Inl [said ''typed_result without a contract'']) (\<lambda>result'.
        Inr (t\<lparr>t_snapshot := snapshot', t_typed_result := result'\<rparr>))))"

section \<open>Post-processing\<close>

definition max_runs :: "pp_spec \<Rightarrow> u32" where
  "max_runs spec = 1 + (case pp_retry spec of None \<Rightarrow> 0 | Some r \<Rightarrow> pr_max_retries r)"

definition retry_delay :: "pp_spec \<Rightarrow> u64" where
  "retry_delay spec = (case pp_retry spec of None \<Rightarrow> 0 | Some r \<Rightarrow> pr_delay r)"

definition report_failed :: "u32 \<Rightarrow> pp_cause \<Rightarrow> message \<Rightarrow> pp_report" where
  "report_failed run cause m =
     \<lparr>rp_run = run, rp_exit = None, rp_stderr = None, rp_stderr_truncated = False,
      rp_outcome = PostFailed cause m\<rparr>"

definition capped_json_of :: "capped_json \<Rightarrow> json" where
  "capped_json_of a = jstruct
     [(''response'', cj_response a), (''text'', map_option JStr (cj_text a)),
      (''truncated'', if cj_truncated a then Some (JBool True) else None),
      (''dropped_bytes'', if cj_dropped a = 0 then None else Some (ju64 (cj_dropped a)))]"

definition stdin_raw :: "task \<Rightarrow> task_result \<Rightarrow> json" where
  "stdin_raw t execution = jstruct
     [(''exit_code'', map_option (\<lambda>c. JNum (num_of_i64 c)) (res_exit execution)),
      (''execution'', res_output execution),
      (''accepted'', map_option capped_json_of (t_accepted t))]"

fun stdin_fields ::
  "(json \<Rightarrow> string \<Rightarrow> json option) \<Rightarrow> json \<Rightarrow> json \<Rightarrow> jobject \<Rightarrow> (string \<times> pp_source) list \<Rightarrow>
   (pp_cause \<times> string) + jobject" where
  "stdin_fields ptr input raw doc [] = Inr doc"
| "stdin_fields ptr input raw doc ((field, source) # rest) =
     (let base = (case pso_from source of FromInput \<Rightarrow> input | FromRaw \<Rightarrow> raw | RemovedArtifacts \<Rightarrow> JArr [])
      in case (case pso_pointer source of None \<Rightarrow> Some base | Some p \<Rightarrow> ptr base p) of
           Some v \<Rightarrow> stdin_fields ptr input raw (obj_insert field v doc) rest
         | None \<Rightarrow> Inl (StdinMapping, ''stdin field '' @ squoted field @ '': pointer '' @
             squoted (case pso_pointer source of None \<Rightarrow> [] | Some p \<Rightarrow> p) @ '' has no value''))"

definition stdin_document ::
  "(json \<Rightarrow> string \<Rightarrow> json option) \<Rightarrow> task \<Rightarrow> pp_spec \<Rightarrow> task_result \<Rightarrow> (pp_cause \<times> string) + json" where
  "stdin_document ptr t spec execution =
     (let input = (case t_snapshot t of None \<Rightarrow> JNull | Some s \<Rightarrow> to_wire (is_value s))
      in sbind (stdin_fields ptr input (stdin_raw t execution) [] (pp_stdin spec)) (\<lambda>doc. Inr (JObj doc)))"

definition max_stdout_bytes :: nat where "max_stdout_bytes = 256 * 1024"

definition collect_stdout ::
  "(json \<Rightarrow> string \<Rightarrow> json option) \<Rightarrow> (string \<Rightarrow> (string + json) list) \<Rightarrow> stdout_spec \<Rightarrow> bytes \<Rightarrow> bool \<Rightarrow>
   (pp_cause \<times> message) + json" where
  "collect_stdout ptr docs stdout b overflowed =
     (if overflowed
      then Inl (StdoutTooLarge, msg (''stdout exceeded '' @ show_nat max_stdout_bytes @ '' bytes''))
      else if \<not> utf8_valid b then Inl (InvalidUtf8, [Lit ''stdout is not UTF-8: '', Utf8Error b])
      else case so_format stdout of
        FormatText \<Rightarrow> Inr (JStr b)
      | FormatJson \<Rightarrow>
          if blank b then Inl (EmptyOutput, msg ''stdout is empty'')
          else (case docs b of
              [] \<Rightarrow> Inl (EmptyOutput, msg ''stdout is empty'')
            | Inl e # _ \<Rightarrow> Inl (InvalidJson, msg (''stdout is not JSON: '' @ e))
            | Inr v # rest \<Rightarrow>
                (case rest of
                   Inr _ # _ \<Rightarrow> Inl (MultipleDocuments, msg ''stdout holds more than one JSON value'')
                 | Inl e # _ \<Rightarrow> Inl (InvalidJson,
                     msg (''stdout has trailing text after the JSON value: '' @ e))
                 | [] \<Rightarrow>
                     (case so_pointer stdout of
                        None \<Rightarrow> Inr v
                      | Some p \<Rightarrow>
                          if ptr v p = None
                          then Inl (PointerMissing, msg (''stdout pointer '' @ squoted p @ '' has no value''))
                          else Inr v))))"

definition output_candidate ::
  "(json \<Rightarrow> string \<Rightarrow> json option) \<Rightarrow> stdout_spec \<Rightarrow> json \<Rightarrow> json option" where
  "output_candidate ptr stdout document =
     (case so_pointer stdout of None \<Rightarrow> Some document | Some p \<Rightarrow> ptr document p)"

text \<open>\<open>close_phase\<close>: a run that had not started is not counted.\<close>

definition closed_phase :: "pp_phase \<Rightarrow> pp_phase" where
  "closed_phase p =
     (case p of
        PhasePending run _ \<Rightarrow> PhaseFinished (run - 1)
      | PhaseStarted run _ \<Rightarrow> PhaseFinished run
      | PhaseFinished run \<Rightarrow> PhaseFinished run)"

definition close_phase :: "task \<Rightarrow> task" where
  "close_phase t =
     t\<lparr>t_attempt := map_option (\<lambda>a. a\<lparr>at_postprocess :=
         map_option (\<lambda>p. p\<lparr>pg_phase := closed_phase (pg_phase p)\<rparr>) (at_postprocess a)\<rparr>) (t_attempt t)\<rparr>"

definition phase_name :: "pp_phase \<Rightarrow> string" where
  "phase_name p =
     (case p of
        PhasePending run _ \<Rightarrow> if 1 < run then ''retry_wait'' else ''postprocessing''
      | _ \<Rightarrow> ''postprocessing'')"

definition postprocess_phase :: "task \<Rightarrow> string option" where
  "postprocess_phase t =
     (if t_state t \<noteq> Running then None
      else case Option.bind (t_attempt t) at_postprocess of
        None \<Rightarrow> None
      | Some p \<Rightarrow> (case pg_phase p of PhaseFinished _ \<Rightarrow> None | ph \<Rightarrow> Some (phase_name ph)))"

text \<open>\<open>Task::phase\<close> and \<open>Task::barrier_name\<close>.\<close>

definition task_phase :: "task \<Rightarrow> string option" where
  "task_phase t =
     (if \<not> is_typed t \<or> t_state t \<noteq> Running then None
      else Some (case postprocess_phase t of
          Some p \<Rightarrow> p
        | None \<Rightarrow> (case agent_phase t of Some p \<Rightarrow> p | None \<Rightarrow> ''executing'')))"

definition barrier_name :: "task \<Rightarrow> string option" where
  "barrier_name t =
     (case t_command t of
        WaitBarrier (Some n) \<Rightarrow> Some n
      | WaitBarrier None \<Rightarrow> Option.bind (t_snapshot t) (\<lambda>s. re_barrier (is_execution s))
      | _ \<Rightarrow> None)"

definition next_run :: "pp_spec \<Rightarrow> pp_report \<Rightarrow> u32 option" where
  "next_run spec report =
     (case report_cause report of
        None \<Rightarrow> None
      | Some cause \<Rightarrow>
          if cause_retryable cause \<and> rp_run report < max_runs spec then Some (rp_run report + 1) else None)"

definition finalize_postprocessed ::
  "json_text \<Rightarrow> (json \<Rightarrow> string \<Rightarrow> json option) \<Rightarrow> task \<Rightarrow> task_contract \<Rightarrow> pp_spec \<Rightarrow> pp_progress \<Rightarrow> pp_report \<Rightarrow>
   typed_result" where
  "finalize_postprocessed jt ptr t c spec progress report =
     (let (execution, truncated) = raw_execution jt (t_command t) (res_output (pg_execution progress));
          pp = \<lparr>pw_command = pp_command spec, pw_run = rp_run report, pw_exit = rp_exit report, pw_stdout = None,
                pw_stderr = rp_stderr report, pw_stderr_truncated = rp_stderr_truncated report,
                pw_cause = report_cause report, pw_failed_runs = pg_failed_runs progress\<rparr>;
          raw = (\<lambda>pp. \<lparr>rw_exit = res_exit (pg_execution progress), rw_execution = execution, rw_truncated = truncated,
                 rw_postprocess = Some pp, rw_accepted = t_accepted t\<rparr>);
          prov = provenance_of t c
      in case rp_outcome report of
           PostFailed cause m \<Rightarrow>
             failed_result (raw pp) (failure_new StagePostprocess
               (Lit (''postprocess '' @ cause_name cause @ '': '') # m)) (prov ''none'')
         | Collected stdout \<Rightarrow>
             let source = (case so_format (pp_stdout spec) of
                             FormatJson \<Rightarrow> ''postprocess.stdout.json'' | FormatText \<Rightarrow> ''postprocess.stdout.text'');
                 raw' = raw (if so_pointer (pp_stdout spec) = None then pp else pp\<lparr>pw_stdout := Some stdout\<rparr>)
             in case output_candidate ptr (pp_stdout spec) stdout of
                  None \<Rightarrow> failed_result raw' (failure_new StagePostprocess
                    (msg ''postprocess pointer_missing: stdout pointer has no value'')) (prov source)
                | Some v \<Rightarrow>
                    (case validate_typed jt (tk_types c) (output_schema c (t_command t)) v of
                       Inr output \<Rightarrow> \<lparr>tr_has_output = True, tr_output = output, tr_raw = raw', tr_error = None,
                         tr_provenance = prov source\<rparr>
                     | Inl e \<Rightarrow> failed_result raw' (failure_typed StageOutput (Some (t_id t)) e) (prov source)))"

end
