(* ===== verification/Task_Check.thy ===== *)
theory Task_Check
  imports Task_Result
begin

text \<open>
  What a typed task must satisfy when it is made (\<open>task/contract.rs\<close>, with \<open>check_spec\<close> of
  \<open>task/postprocess.rs\<close>): its contract, its reduce inputs, its post-processing and its relation to the
  other tasks. \<open>lookup\<close> finds a task by its id, \<open>plugins\<close> the plugin that owns a namespace.
\<close>

section \<open>Post-processing declarations\<close>

definition max_pp_timeout :: u64 where "max_pp_timeout = 86400000"
definition max_pp_retries :: u32 where "max_pp_retries = 10"
definition max_pp_retry_delay :: u64 where "max_pp_retry_delay = 3600000"

definition spec_error :: "string \<Rightarrow> string \<Rightarrow> task_failure" where
  "spec_error loc m = (failure_new StageInput (msg m))\<lparr>tf_location := Some (''/postprocess'' @ loc)\<rparr>"

definition check_stdin_source :: "string \<times> pp_source \<Rightarrow> task_failure + unit" where
  "check_stdin_source = (\<lambda>(field, source).
     if pso_from source = RemovedArtifacts
     then Inl (spec_error (''/stdin/'' @ field @ ''/from'') ''the artifacts source was removed'')
     else case pso_pointer source of
       None \<Rightarrow> Inr ()
     | Some p \<Rightarrow> sbind (map_err (spec_error (''/stdin/'' @ field @ ''/pointer'')) (pointer_tokens p)) (\<lambda>_. Inr ()))"

definition check_spec :: "pp_spec \<Rightarrow> task_failure + unit" where
  "check_spec spec =
     (if pp_command spec = [] \<or> hd (pp_command spec) = []
      then Inl (spec_error ''/command'' ''postprocess command needs an executable'')
      else if pp_timeout spec = 0 \<or> max_pp_timeout < pp_timeout spec
      then Inl (spec_error ''/timeout_ms'' (''postprocess timeout_ms must be 1..='' @ show_nat (unat max_pp_timeout)))
      else sbind
        (case pp_retry spec of
           None \<Rightarrow> Inr ()
         | Some r \<Rightarrow>
             if pr_max_retries r = 0 \<or> max_pp_retries < pr_max_retries r
             then Inl (spec_error ''/retry/max_retries''
                    (''postprocess retry max_retries must be 1..='' @ show_nat (unat max_pp_retries)))
             else if max_pp_retry_delay < pr_delay r
             then Inl (spec_error ''/retry/delay_ms''
                    (''postprocess retry delay_ms must be at most '' @ show_nat (unat max_pp_retry_delay)))
             else Inr ()) (\<lambda>_.
        sbind (collect check_stdin_source (pp_stdin spec)) (\<lambda>_.
        case (so_format (pp_stdout spec), so_pointer (pp_stdout spec)) of
          (FormatText, Some _) \<Rightarrow>
            Inl (spec_error ''/stdout/pointer'' ''stdout pointer applies to the json format only'')
        | (FormatJson, Some p) \<Rightarrow>
            sbind (map_err (spec_error ''/stdout/pointer'') (pointer_tokens p)) (\<lambda>_. Inr ())
        | _ \<Rightarrow> Inr ())))"

section \<open>Reduce inputs\<close>

definition contract_error :: "message \<Rightarrow> task_failure" where
  "contract_error m = failure_new StageInput m"

abbreviation contract_refusal :: "string \<Rightarrow> task_failure + 'a" where
  "contract_refusal s \<equiv> Inl (contract_error (msg s))"

definition each_input ::
  "(string \<Rightarrow> task option) \<Rightarrow> string list \<Rightarrow> (string \<Rightarrow> type_defs \<Rightarrow> type_schema \<Rightarrow> task_failure + unit) \<Rightarrow>
   task_failure + unit" where
  "each_input lookup inputs f =
     sbind (collect (\<lambda>i. case lookup i of
         None \<Rightarrow> contract_refusal (''reduce input task not found: '' @ i)
       | Some t \<Rightarrow> (let (idefs, ischema) = output_schema_of t in f i idefs ischema)) inputs) (\<lambda>_. Inr ())"

definition check_reduce ::
  "type_defs \<Rightarrow> type_schema \<Rightarrow> bool \<Rightarrow> string list \<Rightarrow> reducer_strategy \<Rightarrow> (string \<Rightarrow> task option) \<Rightarrow>
   task_failure + unit" where
  "check_reduce defs output declared inputs strategy lookup =
     (let typed_for = (\<lambda>i. failure_typed StageInput (Some i)); untyped = failure_typed StageInput None in
      case strategy of
        ReduceAll \<Rightarrow>
          if declared \<and> output \<noteq> reduce_record_list_schema
          then contract_refusal ''reduce all output is the fixed record list; omit output_schema''
          else Inr ()
      | ConcatText \<Rightarrow>
          sbind (map_err untyped (resolve defs output)) (\<lambda>(kind, nullable).
          if \<not> string_kind kind \<or> nullable then contract_refusal ''reduce concat_text output is string''
          else each_input lookup inputs (\<lambda>i idefs ischema.
            map_err (typed_for i) (check_assignable idefs ischema [] string_schema)))
      | FirstSuccess \<Rightarrow>
          each_input lookup inputs (\<lambda>i idefs ischema.
            map_err (typed_for i) (check_assignable idefs ischema defs output))
      | MergeJson \<Rightarrow>
          sbind (map_err untyped (resolve defs output)) (\<lambda>(kind, _).
          if \<not> (case kind of KObject _ \<Rightarrow> True | KJson \<Rightarrow> True | _ \<Rightarrow> False)
          then contract_refusal ''reduce merge_json output is an object''
          else each_input lookup inputs (\<lambda>i idefs ischema.
            sbind (map_err (typed_for i) (resolve idefs ischema)) (\<lambda>(k, _).
            if (case k of KObject _ \<Rightarrow> True | KJson \<Rightarrow> True | _ \<Rightarrow> False) then Inr ()
            else Inl (contract_error [Lit (''reduce merge_json input '' @ i @ '' outputs ''), Desc ischema,
                   Lit '', not an object'']))))
      | ReduceCustom _ \<Rightarrow> Inr ())"

section \<open>The contract\<close>

definition check_contract ::
  "(string \<Rightarrow> provider_lookup) \<Rightarrow> task_contract \<Rightarrow> task_command \<Rightarrow> on_failure \<Rightarrow> (string \<Rightarrow> task option) \<Rightarrow>
   task_failure + unit" where
  "check_contract plugins c command on_failure lookup =
     (let defs = tk_types c; input = input_schema c; output = output_schema c command;
          typed = failure_typed StageInput None
      in if tk_version c \<noteq> 2
         then contract_refusal (''unsupported contract_version '' @ show_nat (unat (tk_version c)) @ '' (supported: 2)'')
         else sbind (map_err typed (check_defs defs)) (\<lambda>_.
              sbind (map_err typed (check_schema_at defs input ''/input_schema'')) (\<lambda>_.
              sbind (map_err typed (check_schema_at defs output ''/output_schema'')) (\<lambda>_.
         if (case on_failure of Fallback _ (Some _) \<Rightarrow> True | _ \<Rightarrow> False)
         then contract_refusal (''inline fallback is not supported for contract_version 2; '' @
                ''declare the fallback task up front'')
         else if tk_exit_codes c \<noteq> None \<and> \<not> (case command of Run _ _ _ \<Rightarrow> True | _ \<Rightarrow> False)
         then contract_refusal ''allowed_exit_codes applies to run only''
         else if tk_exit_codes c = Some []
         then contract_refusal ''allowed_exit_codes must not be empty''
         else if tk_merge_conflict c \<noteq> None \<and> \<not> (case command of Reduce _ MergeJson \<Rightarrow> True | _ \<Rightarrow> False)
         then contract_refusal ''merge_conflict applies to reduce merge_json only''
         else sbind
           (case command of
              AgentTurn provider _ _ instruction timeout \<Rightarrow>
                map_err (\<lambda>m. contract_error (msg m)) (check_command plugins provider instruction timeout)
            | _ \<Rightarrow> Inr ()) (\<lambda>_.
           case tk_postprocess c of
             Some spec \<Rightarrow>
               sbind (check_spec spec) (\<lambda>_.
               case command of
                 Run _ _ _ \<Rightarrow> Inr ()
               | Custom _ _ _ \<Rightarrow> Inr ()
               | AgentTurn _ _ _ _ _ \<Rightarrow> Inr ()
               | _ \<Rightarrow> contract_refusal ''postprocess applies to run, custom and agent'')
           | None \<Rightarrow>
               sbind (map_err typed (resolve defs output)) (\<lambda>(kind, _).
               case command of
                 Run _ _ _ \<Rightarrow>
                   if kind \<noteq> KInt64 \<or> ts_nullable output
                   then contract_refusal (''run output is the int64 exit code; '' @
                          ''other outputs need an explicit extraction step'')
                   else Inr ()
               | WaitBarrier _ \<Rightarrow>
                   if kind \<noteq> KUnit then contract_refusal ''wait_barrier output is unit'' else Inr ()
               | Reduce inputs strategy \<Rightarrow>
                   check_reduce defs output (tk_output c \<noteq> None) inputs strategy lookup
               | _ \<Rightarrow> Inr ()))))))"

section \<open>A task among others\<close>

definition located :: "string \<Rightarrow> string \<Rightarrow> string \<Rightarrow> task_failure \<Rightarrow> task_failure" where
  "located tid at' loc f =
     (let f1 = (if tf_location f = None then f\<lparr>tf_location := Some (at' @ loc)\<rparr> else f)
      in if tf_task f1 = None then f1\<lparr>tf_task := Some tid\<rparr> else f1)"

text \<open>The tasks a binding reads the own output of.\<close>

definition own_sources :: "task_contract \<Rightarrow> string list" where
  "own_sources c = concat (map (\<lambda>(_, b). case b of FromTask s _ \<Rightarrow> [bs_from s] | _ \<Rightarrow> []) (tk_bindings c))"

text \<open>A dependency on a task with a fallback, whose own output is read.\<close>

definition fallback_read ::
  "(string \<Rightarrow> task option) \<Rightarrow> string list \<Rightarrow> string \<Rightarrow> (string \<times> string) option" where
  "fallback_read lookup sources dep =
     (case lookup dep of
        None \<Rightarrow> None
      | Some main \<Rightarrow>
          (case t_on_failure main of
             Fallback (Some fb) _ \<Rightarrow> if dep \<in> set sources then Some (dep, fb) else None
           | _ \<Rightarrow> None))"

definition check_task ::
  "json_text \<Rightarrow> (string \<Rightarrow> provider_lookup) \<Rightarrow> task \<Rightarrow> string \<Rightarrow> (string \<Rightarrow> task option) \<Rightarrow>
   task_failure + unit" where
  "check_task jt plugins t at' lookup =
     (case t_contract t of
        None \<Rightarrow> Inr ()
      | Some c \<Rightarrow>
          let locate = located (t_id t) at'; sources = own_sources c in
          sbind (map_err (\<lambda>f. locate (case tf_location f of None \<Rightarrow> [] | Some l \<Rightarrow> l) (f\<lparr>tf_location := None\<rparr>))
            (check_contract plugins c (t_command t) (t_on_failure t) lookup)) (\<lambda>_.
          sbind (check_inputs jt (t_id t) c (t_command t) at' lookup) (\<lambda>_.
          if sources \<noteq> [] \<and> t_on_failure t = ContinueDownstream
          then Inl (locate ''/on_failure'' (contract_error (msg
                 (''continue_downstream cannot run a task whose input producer failed; '' @
                  ''the input would have no value''))))
          else case List.map_filter (fallback_read lookup sources) (t_depends_on t) of
            (dep, fb) # _ \<Rightarrow> Inl (locate ''/bindings'' (contract_error (msg
              (''task '' @ t_id t @ '': depends_on '' @ dep @ '' accepts its fallback '' @ fb @
               '', but a binding reads '' @ dep @ [CHR 0x27] @ ''s own output, which does not exist when the '' @
               ''fallback ran; bind with one_of ['' @ dep @ '', '' @ fb @ ''] instead''))))
          | [] \<Rightarrow>
              (case t_on_failure t of
                 Fallback (Some fb) _ \<Rightarrow>
                   (case lookup fb of
                      Some f \<Rightarrow>
                        if is_typed f then Inr ()
                        else Inl (locate ''/on_failure/task'' (contract_error (msg
                          (''fallback '' @ fb @ '' is a v1 task; a v2 fallback must be a typed task declared up front''))))
                    | None \<Rightarrow> Inr ())
               | _ \<Rightarrow> Inr ()))))"

section \<open>Reading a record of reduce all\<close>

definition reduce_record :: "string \<Rightarrow> typed_value \<Rightarrow> (string \<times> typed_value) list option" where
  "reduce_record tid r =
     (case r of TVObject m \<Rightarrow> if map_of m ''task_id'' = Some (TVString tid) then Some m else None | _ \<Rightarrow> None)"

definition reduce_all_record_output :: "task \<Rightarrow> task \<Rightarrow> task_failure + typed_value option" where
  "reduce_all_record_output reducer input =
     (let refuse = (\<lambda>m. Inl ((failure_new StageInput (msg m))\<lparr>tf_task := Some (t_id reducer)\<rparr>));
          is_all = (case t_command reducer of Reduce _ ReduceAll \<Rightarrow> True | _ \<Rightarrow> False)
      in case (t_typed_result reducer, is_all) of
           (Some r, True) \<Rightarrow>
             (case (tr_has_output r, tr_output r) of
                (True, TVList records) \<Rightarrow>
                  (case List.map_filter (reduce_record (t_id input)) records of
                     [] \<Rightarrow> refuse (''reduce all output of '' @ t_id reducer @ '' has no record for '' @ t_id input)
                   | m # _ \<Rightarrow>
                       if map_of m ''has_output'' \<noteq> Some (TVBool True) then Inr None
                       else
                         let raw = (case map_of m ''output'' of Some (TVJson v) \<Rightarrow> v | _ \<Rightarrow> JNull);
                             (defs, schema) = output_schema_of input
                         in sbind (map_err (failure_typed StageInput (Some (t_id input)))
                              (typed_value_of defs schema raw)) (\<lambda>v. Inr (Some v)))
              | _ \<Rightarrow> refuse (''task '' @ t_id reducer @ '' has no settled reduce all output''))
         | _ \<Rightarrow> refuse (''task '' @ t_id reducer @ '' has no settled reduce all output''))"

end
