(* ===== verification/Task_Attempt.thy ===== *)
theory Task_Attempt
  imports Task_Result Agent_Store
begin

text \<open>
  One run of a typed task: its attempt and the reports that end it (\<open>task/attempt.rs\<close>), and the notes
  taken while it runs (\<open>task/report.rs\<close>). A report whose result cannot be stored is replaced by a
  shorter one; how a message is printed is the parameter \<open>render\<close>, and the JSON text codec is \<open>jt\<close>.
\<close>

section \<open>Attempts\<close>

definition attempt_label :: "string \<Rightarrow> u32 \<Rightarrow> string" where
  "attempt_label tid run = tid @ ''#'' @ show_nat (unat run)"

definition next_attempt :: "task \<Rightarrow> u64 \<Rightarrow> task_attempt option" where
  "next_attempt t now =
     (if \<not> is_typed t then None
      else let run = (case t_attempt t of None \<Rightarrow> 1 | Some a \<Rightarrow> at_number a + 1)
           in Some \<lparr>at_id = attempt_label (t_id t) run, at_number = run, at_started = now,
                    at_completion = None, at_postprocess = None, at_agent = None\<rparr>)"

section \<open>Completion reports\<close>

datatype completion_outcome = OutSucceeded | OutFailed message | OutLost message

fun outcome_state :: "completion_outcome \<Rightarrow> task_state" where
  "outcome_state OutSucceeded = Succeeded"
| "outcome_state (OutFailed e) = Failed e"
| "outcome_state (OutLost r) = Unknown (Some r)"

record completion =
  cm_attempt :: "string option"
  cm_result :: task_result
  cm_outcome :: completion_outcome
  cm_postprocess :: "pp_report option"
  cm_main_dropped :: bool

definition completed ::
  "string option \<Rightarrow> task_result \<Rightarrow> completion_outcome \<Rightarrow> pp_report option \<Rightarrow> completion" where
  "completed att r out pp =
     \<lparr>cm_attempt = att, cm_result = r, cm_outcome = out, cm_postprocess = pp, cm_main_dropped = False\<rparr>"

definition error_result :: "int option \<Rightarrow> message option \<Rightarrow> task_result" where
  "error_result code e = \<lparr>res_exit = code, res_output = None, res_error = e\<rparr>"

definition completion_succeeded :: "string option \<Rightarrow> task_result \<Rightarrow> completion" where
  "completion_succeeded att r = completed att r OutSucceeded None"

definition completion_failed :: "string option \<Rightarrow> message \<Rightarrow> completion" where
  "completion_failed att e = completed att (error_result None (Some e)) (OutFailed e) None"

definition completion_exited :: "string option \<Rightarrow> task_result \<Rightarrow> completion" where
  "completion_exited att r =
     completed att r (OutFailed (case res_error r of Some e \<Rightarrow> e | None \<Rightarrow> [])) None"

definition completion_lost :: "string option \<Rightarrow> message \<Rightarrow> completion" where
  "completion_lost att reason = completed att (error_result None (Some reason)) (OutLost reason) None"

definition postprocess_error :: "pp_cause \<Rightarrow> message \<Rightarrow> message" where
  "postprocess_error cause m = Lit (''postprocess '' @ cause_name cause @ '': '') # m"

definition completion_postprocessed :: "string option \<Rightarrow> pp_report \<Rightarrow> completion" where
  "completion_postprocessed att report =
     (case rp_outcome report of
        Collected _ \<Rightarrow> completed att (error_result None None) OutSucceeded (Some report)
      | PostFailed cause m \<Rightarrow>
          let e = postprocess_error cause m
          in completed att (error_result None (Some e)) (OutFailed e) (Some report))"

section \<open>Reports that are too large to store\<close>

definition shrunk_error_limit :: nat where "shrunk_error_limit = 4 * 1024"

definition truncated_mark :: string where "truncated_mark = ''...(truncated)''"

definition head_within :: "string \<Rightarrow> nat \<Rightarrow> string" where
  "head_within text cap =
     (if length text \<le> cap then text
      else let head = take (char_floor text (cap - length truncated_mark)) text
           in if length head + length truncated_mark \<le> cap then head @ truncated_mark else head)"

definition too_large_to_store :: "(message \<Rightarrow> string) \<Rightarrow> string \<Rightarrow> completion \<Rightarrow> completion" where
  "too_large_to_store render why c =
     (let error0 =
        (case Option.bind (res_error (cm_result c)) (\<lambda>e. first_line (render e)) of
           Some first \<Rightarrow>
             let tail = '' (the full result could not be stored: '' @ why @ '')''
             in head_within first (shrunk_error_limit - length tail) @ tail
         | None \<Rightarrow> ''the result could not be stored: '' @ why);
          error = msg (head_within error0 shrunk_error_limit)
      in completed (cm_attempt c) (error_result (res_exit (cm_result c)) (Some error)) (OutFailed error) None)"

definition not_stored :: "string \<Rightarrow> string" where
  "not_stored why = head_within (''the postprocess result could not be stored: '' @ why) shrunk_error_limit"

text \<open>The two steps for a report of a post-processing run; \<open>None\<close> when both have been taken.\<close>

definition postprocess_too_large :: "string \<Rightarrow> completion \<Rightarrow> completion option" where
  "postprocess_too_large why c =
     (case cm_postprocess c of
        None \<Rightarrow> None
      | Some report \<Rightarrow>
          if report_cause report = Some ResultTooLarge then None
          else if report_cause report = None \<and> \<not> cm_main_dropped c then Some (c\<lparr>cm_main_dropped := True\<rparr>)
          else
            let m = msg (not_stored why)
            in Some ((completion_postprocessed (cm_attempt c)
                 \<lparr>rp_run = rp_run report, rp_exit = rp_exit report, rp_stderr = None, rp_stderr_truncated = False,
                  rp_outcome = PostFailed ResultTooLarge m\<rparr>)\<lparr>cm_main_dropped := True\<rparr>))"

section \<open>The digest of a report\<close>

definition fnv1a64 :: "bytes \<Rightarrow> u64" where
  "fnv1a64 b = foldl (\<lambda>h c. Bit_Operations.xor h (of_nat (of_char c)) * 0x00000100000001b3) 0xcbf29ce484222325 b"

definition hex_digit :: "nat \<Rightarrow> char" where
  "hex_digit d = (if d < 10 then char_of (48 + d) else char_of (87 + d))"

text \<open>\<open>format!("{:016x}")\<close>.\<close>

definition hex16 :: "u64 \<Rightarrow> string" where
  "hex16 w = map (\<lambda>i. hex_digit (unat w div 16 ^ i mod 16)) (rev [0..<16])"

definition result_json :: "(message \<Rightarrow> string) \<Rightarrow> task_result \<Rightarrow> json" where
  "result_json render r = jstruct
     [(''exit_code'', map_option (\<lambda>c. JNum (num_of_i64 c)) (res_exit r)), (''output'', res_output r),
      (''error'', map_option (\<lambda>e. JStr (render e)) (res_error r))]"

fun outcome_json :: "(message \<Rightarrow> string) \<Rightarrow> completion_outcome \<Rightarrow> json" where
  "outcome_json render OutSucceeded = jstruct [(''kind'', Some (JStr ''succeeded''))]"
| "outcome_json render (OutFailed e) =
     jstruct [(''kind'', Some (JStr ''failed'')), (''error'', Some (JStr (render e)))]"
| "outcome_json render (OutLost r) =
     jstruct [(''kind'', Some (JStr ''lost'')), (''reason'', Some (JStr (render r)))]"

fun pp_outcome_json :: "(message \<Rightarrow> string) \<Rightarrow> pp_outcome \<Rightarrow> json" where
  "pp_outcome_json render (Collected v) =
     jstruct [(''kind'', Some (JStr ''collected'')), (''stdout'', Some v)]"
| "pp_outcome_json render (PostFailed cause m) =
     jstruct [(''kind'', Some (JStr ''failed'')), (''cause'', Some (JStr (cause_name cause))),
              (''message'', Some (JStr (render m)))]"

definition pp_report_json :: "(message \<Rightarrow> string) \<Rightarrow> pp_report \<Rightarrow> json" where
  "pp_report_json render r = jstruct
     [(''run'', Some (ju32 (rp_run r))), (''exit_code'', map_option (\<lambda>c. JNum (num_of_i64 c)) (rp_exit r)),
      (''stderr'', map_option JStr (rp_stderr r)),
      (''stderr_truncated'', if rp_stderr_truncated r then Some (JBool True) else None),
      (''outcome'', Some (pp_outcome_json render (rp_outcome r)))]"

definition digest :: "json_text \<Rightarrow> (message \<Rightarrow> string) \<Rightarrow> completion \<Rightarrow> string" where
  "digest jt render c =
     hex16 (fnv1a64 (json_string jt (jstruct
       [(''result'', Some (result_json render (cm_result c))),
        (''outcome'', Some (outcome_json render (cm_outcome c))),
        (''postprocess'', map_option (pp_report_json render) (cm_postprocess c))])))"

section \<open>Report blocks\<close>

record report_limits =
  rl_append :: u64
  rl_block :: u64

definition append_limit_range :: "u64 \<times> u64" where "append_limit_range = (64, 64 * 1024)"
definition block_limit_range :: "u64 \<times> u64" where "block_limit_range = (128, 128 * 1024)"

definition default_limits :: report_limits where
  "default_limits = \<lparr>rl_append = 1024, rl_block = 16 * 1024\<rparr>"

fun limit_in_range :: "u64 \<Rightarrow> u64 \<times> u64 \<Rightarrow> string \<Rightarrow> string + unit" where
  "limit_in_range v (lo, hi) name =
     (if v < lo \<or> hi < v
      then Inl (name @ '' '' @ show_nat (unat v) @ '' is outside '' @ show_nat (unat lo) @ ''..='' @
             show_nat (unat hi))
      else Inr ())"

definition validate_limits :: "report_limits \<Rightarrow> string + unit" where
  "validate_limits l =
     sbind (limit_in_range (rl_append l) append_limit_range ''append limit'') (\<lambda>_.
     sbind (limit_in_range (rl_block l) block_limit_range ''block limit'') (\<lambda>_.
       if rl_block l \<le> rl_append l
       then Inl (''append limit '' @ show_nat (unat (rl_append l)) @ '' must be smaller than block limit '' @
              show_nat (unat (rl_block l)))
       else Inr ()))"

datatype report_source = FromRun | FromPostprocess | FromAgent | FromReduceCustom | FromStderr

fun source_name :: "report_source \<Rightarrow> string" where
  "source_name FromRun = ''run''"
| "source_name FromPostprocess = ''postprocess''"
| "source_name FromAgent = ''agent''"
| "source_name FromReduceCustom = ''reduce_custom''"
| "source_name FromStderr = ''stderr_marker''"

definition all_sources :: "report_source list" where
  "all_sources = [FromRun, FromPostprocess, FromAgent, FromReduceCustom, FromStderr]"

definition parse_source :: "string \<Rightarrow> report_source option" where
  "parse_source s = find (\<lambda>v. source_name v = s) all_sources"

record report_entry =
  en_seq :: u64
  en_at :: u64
  en_source :: report_source
  en_text :: string
  en_omitted :: "u64 option"

record report_block =
  rb_attempt :: u32
  rb_entries :: "report_entry list"
  rb_omitted :: u64
  rb_stored :: u64
  rb_settled :: "task_state option"

definition new_block :: "u32 \<Rightarrow> report_block" where
  "new_block attempt = \<lparr>rb_attempt = attempt, rb_entries = [], rb_omitted = 0, rb_stored = 0, rb_settled = None\<rparr>"

datatype append_outcome = Stored u64 "u64 option" | Omitted u64

definition truncate_text :: "string \<Rightarrow> nat \<Rightarrow> string \<times> u64 option" where
  "truncate_text text limit =
     (if length text \<le> limit then (text, None)
      else let cut = char_floor text limit in (take cut text, Some (of_nat (length text - cut))))"

definition room :: "report_limits \<Rightarrow> report_block \<Rightarrow> u64" where
  "room limits b = sat_sub (rl_block limits) (rb_stored b)"

definition append_cut ::
  "report_source \<Rightarrow> string \<Rightarrow> u64 \<Rightarrow> report_limits \<Rightarrow> u64 \<Rightarrow> report_block \<Rightarrow> append_outcome \<times> report_block" where
  "append_cut source text0 cut_before limits now b =
     (let seq = of_nat (length (rb_entries b)) + rb_omitted b + 1;
          (text, cut) = truncate_text text0 (unat (rl_append limits));
          omit = (if cut = None \<and> cut_before = 0 then None
                  else Some ((case cut of None \<Rightarrow> 0 | Some c \<Rightarrow> c) + cut_before))
      in if rl_block limits < rb_stored b + of_nat (length text)
         then (Omitted seq, b\<lparr>rb_omitted := rb_omitted b + 1\<rparr>)
         else (Stored seq omit, b\<lparr>rb_stored := rb_stored b + of_nat (length text),
                 rb_entries := rb_entries b @
                   [\<lparr>en_seq = seq, en_at = now, en_source = source, en_text = text, en_omitted = omit\<rparr>]\<rparr>))"

section \<open>Keys and addresses\<close>

definition report_key :: "string \<Rightarrow> u32 \<Rightarrow> agent_error + string" where
  "report_key tid attempt =
     agent_key ''tasty.agent.task_report.'' ''task id'' (tid @ ''.'' @ show_nat (unat attempt))"

definition report_auto_key :: "string \<Rightarrow> u32 \<Rightarrow> agent_error + string" where
  "report_auto_key tid attempt =
     agent_key ''tasty.agent.task_report_auto.'' ''task id'' (tid @ ''.'' @ show_nat (unat attempt))"

text \<open>The message quotes the id with \<open>{:?}\<close>; it is kept as its length and the bytes left for it.\<close>

definition check_report_key_room :: "string \<Rightarrow> agent_error + unit" where
  "check_report_key_room tid =
     (case report_auto_key tid (- 1) of
        Inr _ \<Rightarrow> Inr ()
      | Inl _ \<Rightarrow>
          let budget = 256 - length (''tasty.agent.task_report_auto.'' @ ''.4294967295'')
          in Inl (invalid (''task id '' @ dquoted tid @ '': too long for its report keys: '' @
               show_nat (length tid) @ '' bytes > '' @ show_nat budget)))"

record report_address =
  ra_workspace :: u32
  ra_task :: string
  ra_attempt :: u32
  ra_source :: report_source
  ra_token :: string

definition to_env_value :: "report_address \<Rightarrow> string" where
  "to_env_value a =
     show_nat (unat (ra_workspace a)) @ ''/'' @ show_nat (unat (ra_attempt a)) @ ''/'' @
     source_name (ra_source a) @ ''/'' @ ra_token a @ ''/'' @ ra_task a"

text \<open>\<open>splitn(n, '/')\<close>: the last of the \<open>n\<close> parts keeps its slashes.\<close>

fun splitn :: "nat \<Rightarrow> char \<Rightarrow> string \<Rightarrow> string list" where
  "splitn 0 d s = []"
| "splitn (Suc 0) d s = [s]"
| "splitn (Suc (Suc n)) d s =
     (if d \<in> set s
      then takeWhile (\<lambda>c. c \<noteq> d) s # splitn (Suc n) d (tl (dropWhile (\<lambda>c. c \<noteq> d) s))
      else [s])"

text \<open>Every malformed value has the same message.\<close>

definition parse_address :: "string \<Rightarrow> report_address option" where
  "parse_address s =
     (case splitn 5 CHR ''/'' (trim s) of
        [ws, att, source, token, tid] \<Rightarrow>
          if [] \<in> set [ws, att, source, token, tid] then None
          else (case (parse_uint 32 ws, parse_uint 32 att, parse_source source) of
              (Some w, Some n, Some src) \<Rightarrow>
                Some \<lparr>ra_workspace = of_nat w, ra_task = tid, ra_attempt = of_nat n, ra_source = src, ra_token = token\<rparr>
            | _ \<Rightarrow> None)
      | _ \<Rightarrow> None)"

definition with_source :: "report_source \<Rightarrow> report_address \<Rightarrow> report_address" where
  "with_source src a = a\<lparr>ra_source := src\<rparr>"

text \<open>The attempt a task refers to: of the last run and the last token issued, the larger.\<close>

definition current_attempt :: "task \<Rightarrow> u32 option" where
  "current_attempt t =
     (case (map_option at_number (t_attempt t), map_option rt_attempt (t_report_token t)) of
        (Some a, Some b) \<Rightarrow> Some (max a b)
      | (Some a, None) \<Rightarrow> Some a
      | (None, x) \<Rightarrow> x)"

definition max_attempt :: "task \<Rightarrow> u32" where
  "max_attempt t = (case current_attempt t of None \<Rightarrow> 0 | Some n \<Rightarrow> n)"

end
