(* ===== verification/Task_Attempt_Laws.thy ===== *)
theory Task_Attempt_Laws
  imports Task_Attempt Task_Types_Codec
begin

text \<open>
  What results and reports keep: a settled result is read back as it was settled, a report that does
  not fit is replaced by one that does, the notes of an attempt stay within the limits, and the
  address handed to a child process is read back.
\<close>

section \<open>Settled results\<close>

text \<open>How a settled result is stored: the serde derive writes the output in its wire form.  A raw
  value is an \<open>Option<Value>\<close> field, left out when it is \<open>None\<close>; written \<open>null\<close> it is read back as
  \<open>None\<close>, so the stored form does not tell a null response from an absent one.  The other fields are
  read back as they are.  The stored form is the JSON value: its text is not modelled.\<close>

definition stored_value :: "json option \<Rightarrow> json option" where
  "stored_value v = (if v = Some JNull then None else v)"

definition stored_capped :: "capped_json \<Rightarrow> capped_json" where
  "stored_capped c = c\<lparr>cj_response := stored_value (cj_response c)\<rparr>"

definition stored_pp :: "pp_raw \<Rightarrow> pp_raw" where
  "stored_pp p = p\<lparr>pw_stdout := stored_value (pw_stdout p)\<rparr>"

definition stored_raw :: "raw_result \<Rightarrow> raw_result" where
  "stored_raw r =
     \<lparr>rw_exit = rw_exit r, rw_execution = stored_value (rw_execution r),
      rw_truncated = map_option stored_capped (rw_truncated r),
      rw_postprocess = map_option stored_pp (rw_postprocess r),
      rw_accepted = map_option stored_capped (rw_accepted r)\<rparr>"

definition result_to_wire :: "typed_result \<Rightarrow> typed_result_wire" where
  "result_to_wire r =
     \<lparr>trw_has_output = tr_has_output r, trw_output = to_wire (tr_output r), trw_raw = stored_raw (tr_raw r),
      trw_error = tr_error r, trw_provenance = tr_provenance r\<rparr>"

text \<open>The raw values of a result.\<close>

definition raw_values :: "raw_result \<Rightarrow> json option set" where
  "raw_values r =
     {rw_execution r} \<union> cj_response ` (set_option (rw_truncated r) \<union> set_option (rw_accepted r))
     \<union> pw_stdout ` set_option (rw_postprocess r)"

lemma stored_value_same [simp]: "stored_value v = v \<longleftrightarrow> v \<noteq> Some JNull"
  by (auto simp: stored_value_def)

lemma stored_capped_same [simp]: "stored_capped c = c \<longleftrightarrow> cj_response c \<noteq> Some JNull"
  by (cases c) (simp add: stored_capped_def)

lemma stored_pp_same [simp]: "stored_pp p = p \<longleftrightarrow> pw_stdout p \<noteq> Some JNull"
  by (cases p) (simp add: stored_pp_def)

lemma map_option_same: "map_option f x = x \<longleftrightarrow> (\<forall>y \<in> set_option x. f y = y)"
  by (cases x) auto

lemma stored_raw_same: "stored_raw r = r \<longleftrightarrow> Some JNull \<notin> raw_values r"
  by (cases r) (auto simp: stored_raw_def raw_values_def map_option_same)

lemma stored_raw_without_nulls: "Some JNull \<notin> raw_values (stored_raw r)"
  by (auto simp: raw_values_def stored_raw_def stored_capped_def stored_pp_def stored_value_def image_iff
      split: if_splits)

lemma validated_wire: "validate_typed jt defs s v = Inr tv \<Longrightarrow> typed_value_of defs s (to_wire tv) = Inr tv"
  using typed_wire by (auto simp: validate_typed_def typed_value_of_def sbind_Inr_iff)

text \<open>Either an output that its schema accepts and no failure, or a failure and no output.\<close>

definition settled :: "type_defs \<Rightarrow> type_schema \<Rightarrow> typed_result \<Rightarrow> bool" where
  "settled defs s r \<longleftrightarrow>
     (if tr_has_output r then tr_error r = None \<and> typed_value_of defs s (to_wire (tr_output r)) = Inr (tr_output r)
      else tr_error r \<noteq> None \<and> tr_output r = TVNull)"

lemma settled_failed [simp]: "settled defs s (failed_result raw f prov)"
  by (simp add: settled_def failed_result_def)

lemma finalize_settled: "settled (tk_types c) (output_schema c (t_command t)) (finalize_result jt t c r)"
  by (auto simp: finalize_result_def Let_def settled_def [of _ _ "typed_result.make _ _ _ _ _"] settled_def
      failed_result_def validated_wire split: option.splits sum.splits prod.splits task_command.splits)

lemma postprocessed_settled:
  "settled (tk_types c) (output_schema c (t_command t)) (finalize_postprocessed jt ptr t c spec progress report)"
  by (auto simp: finalize_postprocessed_def Let_def settled_def failed_result_def validated_wire
      split: option.splits sum.splits prod.splits pp_outcome.splits)

text \<open>The result with the null raw values lost.\<close>

definition without_nulls :: "typed_result \<Rightarrow> typed_result" where
  "without_nulls r = r\<lparr>tr_raw := stored_raw (tr_raw r)\<rparr>"

lemma without_nulls_same: "without_nulls r = r \<longleftrightarrow> Some JNull \<notin> raw_values (tr_raw r)"
  by (cases r) (simp add: without_nulls_def stored_raw_same)

lemma settled_reads_back: "settled defs s r \<Longrightarrow> result_from_wire (result_to_wire r) defs s = Inr (without_nulls r)"
  by (cases r)
    (auto simp: settled_def result_from_wire_def result_to_wire_def without_nulls_def sbind_def split: if_splits)

text \<open>C37. The result a typed task is settled with, from a report or from a post-processing run, has
  either an output or a failure, never both and never neither. The stored result is read back with
  the schema of the task: the output, the failure and the provenance as they were settled, the raw
  values too except that a null one (a null response of a custom task, say) is lost, so that the
  stored form reads back as the settled result exactly when no raw value is null.\<close>

theorem settled_result_reads_back:
  "let s = output_schema c (t_command t);
       direct = finalize_result jt t c reported;
       post = finalize_postprocessed jt ptr t c spec progress report
   in list_all (\<lambda>r. (tr_has_output r \<longleftrightarrow> tr_error r = None)
        \<and> result_from_wire (result_to_wire r) (tk_types c) s = Inr (without_nulls r)
        \<and> (without_nulls r = r \<longleftrightarrow> Some JNull \<notin> raw_values (tr_raw r))) [direct, post]"
proof -
  have "settled defs s r \<Longrightarrow> tr_has_output r \<longleftrightarrow> tr_error r = None" for defs s r
    by (simp add: settled_def split: if_splits)
  then show ?thesis
    using finalize_settled [of c t jt reported] postprocessed_settled [of c t jt ptr spec progress report]
    by (simp add: Let_def settled_reads_back without_nulls_same)
qed

section \<open>Reports that do not fit\<close>

lemma head_within_le: "length (head_within s cap) \<le> cap"
  using char_floor_le [of s "cap - length truncated_mark"] by (auto simp: head_within_def Let_def)

text \<open>The report that replaces one that cannot be stored fails the same attempt with the same exit
  code, drops the output, and carries a reason of at most 4096 bytes, however long the original
  reason and the reason of the storage error were.\<close>

theorem shrunk_report_bounded:
  "let short = too_large_to_store render why c in
   \<exists>e. cm_outcome short = OutFailed (msg e) \<and> res_error (cm_result short) = Some (msg e) \<and> length e \<le> 4096
    \<and> cm_attempt short = cm_attempt c \<and> res_exit (cm_result short) = res_exit (cm_result c)
    \<and> res_output (cm_result short) = None \<and> cm_postprocess short = None"
proof -
  have le: "length (head_within x shrunk_error_limit) \<le> 4096" for x
    using head_within_le [of x shrunk_error_limit] by (simp add: shrunk_error_limit_def)
  show ?thesis
    unfolding too_large_to_store_def Let_def
    by (intro exI conjI) (auto simp: completed_def error_result_def le)
qed

fun shrink_times :: "nat \<Rightarrow> string \<Rightarrow> completion \<Rightarrow> completion option" where
  "shrink_times 0 why c = Some c"
| "shrink_times (Suc n) why c = Option.bind (postprocess_too_large why c) (shrink_times n why)"

text \<open>A success can be shrunk twice, a failure once, a report that was replaced not at all.\<close>

definition shrinks_left :: "completion \<Rightarrow> nat" where
  "shrinks_left c =
     (case cm_postprocess c of
        None \<Rightarrow> 0
      | Some r \<Rightarrow>
          (case report_cause r of
             None \<Rightarrow> if cm_main_dropped c then 1 else 2
           | Some cause \<Rightarrow> if cause = ResultTooLarge then 0 else 1))"

lemma shrink_step:
  assumes "postprocess_too_large why c = Some c'"
  obtains (main) r where "cm_postprocess c = Some r" "report_cause r = None" "\<not> cm_main_dropped c"
      "c' = c\<lparr>cm_main_dropped := True\<rparr>"
    | (replaced) r r' where "cm_postprocess c = Some r" "report_cause r \<noteq> Some ResultTooLarge"
      "cm_postprocess c' = Some r'" "report_cause r' = Some ResultTooLarge" "rp_run r' = rp_run r" "rp_exit r' = rp_exit r"
      "report_cause r = None \<Longrightarrow> cm_main_dropped c"
proof -
  obtain r where r: "cm_postprocess c = Some r" using assms by (auto simp: postprocess_too_large_def split: option.splits)
  note step = assms [unfolded postprocess_too_large_def r option.case Let_def]
  show thesis
  proof (cases "report_cause r = None \<and> \<not> cm_main_dropped c")
    case True
    with step show ?thesis by (intro main [OF r]) auto
  next
    case False
    with step have big: "report_cause r \<noteq> Some ResultTooLarge" by (auto split: if_splits)
    let ?r = "\<lparr>rp_run = rp_run r, rp_exit = rp_exit r, rp_stderr = None, rp_stderr_truncated = False,
      rp_outcome = PostFailed ResultTooLarge (msg (not_stored why))\<rparr>"
    from step False big have "c' = (completion_postprocessed (cm_attempt c) ?r)\<lparr>cm_main_dropped := True\<rparr>"
      by (simp split: if_splits)
    then have "cm_postprocess c' = Some ?r" by (simp add: completion_postprocessed_def completed_def Let_def)
    then show ?thesis using False big by (intro replaced [OF r, of ?r]) (auto simp: report_cause_def [of ?r])
  qed
qed

lemma shrinks_less: "postprocess_too_large why c = Some c' \<Longrightarrow> shrinks_left c' < shrinks_left c"
  by (erule shrink_step) (auto simp: shrinks_left_def split: option.splits)

lemma shrink_times_ends: "shrinks_left c < n \<Longrightarrow> shrink_times n why c = None"
proof (induction n arbitrary: c)
  case (Suc n)
  show ?case
  proof (cases "postprocess_too_large why c")
    case (Some c')
    with shrinks_less [OF Some] Suc.prems have "shrinks_left c' < n" by linarith
    with Suc.IH Some show ?thesis by simp
  qed simp
qed simp

definition run_and_exit :: "completion \<Rightarrow> (u32 \<times> int option) option" where
  "run_and_exit c = map_option (\<lambda>r. (rp_run r, rp_exit r)) (cm_postprocess c)"

text \<open>A report of a post-processing run can be shrunk at most twice, and a step keeps the number of
  the run and its exit code.\<close>

theorem postprocess_shrinks_twice:
  "shrink_times 3 why c = None
   \<and> map_option run_and_exit (postprocess_too_large why c) \<in> {None, Some (run_and_exit c)}"
proof -
  have "shrinks_left c < 3" by (simp add: shrinks_left_def split: option.splits)
  then have "shrink_times 3 why c = None" by (rule shrink_times_ends)
  moreover have "map_option run_and_exit (postprocess_too_large why c) \<in> {None, Some (run_and_exit c)}"
    by (cases "postprocess_too_large why c") (auto simp: run_and_exit_def elim: shrink_step)
  ultimately show ?thesis by simp
qed

section \<open>The notes of an attempt\<close>

lemma truncate_length: "length (fst (truncate_text s n)) \<le> n"
  using char_floor_le [of s n] by (auto simp: truncate_text_def Let_def)

lemma truncate_valid: "utf8_valid s \<Longrightarrow> utf8_valid (fst (truncate_text s n))"
  by (simp add: truncate_text_def Let_def utf8_valid_take char_floor_boundary)

text \<open>
  The notes of a block: within the limits, each of well-formed text, numbered upwards from one, the
  stored size the sum of their sizes.
\<close>

definition entries_ok :: "report_limits \<Rightarrow> nat \<Rightarrow> report_block \<Rightarrow> bool" where
  "entries_ok l n b \<longleftrightarrow>
     (\<forall>e \<in> set (rb_entries b). length (en_text e) \<le> unat (rl_append l) \<and> utf8_valid (en_text e))
     \<and> unat (rb_stored b) = sum_list (map (length \<circ> en_text) (rb_entries b))
     \<and> unat (rb_stored b) \<le> unat (rl_block l)
     \<and> sorted_wrt (<) (map (unat \<circ> en_seq) (rb_entries b))
     \<and> (\<forall>e \<in> set (rb_entries b). 0 < unat (en_seq e) \<and> unat (en_seq e) \<le> n)
     \<and> length (rb_entries b) + unat (rb_omitted b) = n"

lemma new_block_ok: "entries_ok l 0 (new_block n)"
  by (simp add: entries_ok_def new_block_def)

lemma limits_small:
  "validate_limits l = Inr () \<Longrightarrow> unat (rl_append l) \<le> 65536 \<and> unat (rl_block l) \<le> 131072"
  by (auto simp: validate_limits_def sbind_Inr_iff append_limit_range_def block_limit_range_def
      word_le_nat_alt word_less_nat_alt not_less split: if_splits)

lemma unat_plus_small: "unat (a :: u64) + unat b < 2 ^ 64 \<Longrightarrow> unat (a + b) = unat a + unat b"
  by (simp add: unat_word_ariths)

lemma append_ok:
  assumes "validate_limits l = Inr ()" "entries_ok l n b" "Suc n < 2 ^ 64" "utf8_valid s"
  shows "entries_ok l (Suc n) (snd (append_cut src s before l now b))"
proof -
  obtain kept o1 where tt: "truncate_text s (unat (rl_append l)) = (kept, o1)" by fastforce
  have kept: "length kept \<le> unat (rl_append l)" "utf8_valid kept"
    using truncate_length [of s "unat (rl_append l)"] truncate_valid [OF assms(4), of "unat (rl_append l)"] tt by simp_all
  note small = limits_small [OF assms(1)]
  have len: "unat (of_nat (length kept) :: u64) = length kept"
    using kept(1) small by (simp add: unat_of_nat)
  note inv = assms(2) [unfolded entries_ok_def]
  have sum: "unat (rb_stored b + of_nat (length kept)) = unat (rb_stored b) + length kept"
    using inv kept(1) small len by (subst unat_plus_small) simp_all
  define seq where "seq = of_nat (length (rb_entries b)) + rb_omitted b + (1 :: u64)"
  have n: "unat (of_nat (length (rb_entries b)) :: u64) = length (rb_entries b)"
    using inv assms(3) by (simp add: unat_of_nat)
  have seq: "unat seq = Suc n" unfolding seq_def
    using inv assms(3) n by (subst unat_plus_small; (subst unat_plus_small)?) simp_all
  have om: "unat (rb_omitted b + 1) = Suc (unat (rb_omitted b))"
    using inv assms(3) by (subst unat_plus_small) simp_all
  show ?thesis
  proof (cases "rl_block l < rb_stored b + of_nat (length kept)")
    case True
    then show ?thesis using inv om by (auto simp: append_cut_def tt Let_def entries_ok_def le_SucI)
  next
    case False
    then have "unat (rb_stored b) + length kept \<le> unat (rl_block l)"
      by (simp add: not_less word_le_nat_alt sum)
    with False show ?thesis
      using inv kept seq by (auto simp: append_cut_def tt Let_def entries_ok_def sum seq_def [symmetric]
          sorted_wrt_append le_SucI less_Suc_eq_le)
  qed
qed

type_synonym append_request = "report_source \<times> string \<times> u64 \<times> u64"

definition append_all :: "report_limits \<Rightarrow> append_request list \<Rightarrow> report_block \<Rightarrow> report_block" where
  "append_all l = fold (\<lambda>(src, s, before, now) b. snd (append_cut src s before l now b))"

lemma append_all_ok:
  "validate_limits l = Inr () \<Longrightarrow> entries_ok l n b \<Longrightarrow> n + length reqs < 2 ^ 64 \<Longrightarrow>
   \<forall>(src, s, before, now) \<in> set reqs. utf8_valid s \<Longrightarrow> entries_ok l (n + length reqs) (append_all l reqs b)"
proof (induction reqs arbitrary: n b)
  case (Cons r reqs)
  obtain src s before now where r: "r = (src, s, before, now)" by (cases r)
  have "entries_ok l (Suc n) (snd (append_cut src s before l now b))"
    by (rule append_ok) (use Cons.prems r in auto)
  with Cons.IH [of "Suc n"] Cons.prems show ?case by (simp add: append_all_def r)
qed (simp add: append_all_def)

text \<open>C38. However many notes an attempt takes, in whatever order and size, its block holds only
  well-formed text within the append limit, its stored size is the sum of the sizes of the notes and
  within the block limit, the numbers of the notes ascend, and every note taken is either stored or
  counted as omitted.\<close>

theorem report_block_bounded:
  assumes "validate_limits l = Inr ()" and "length reqs < 2 ^ 64"
    and "\<forall>(src, s, before, now) \<in> set reqs. utf8_valid s"
  shows "entries_ok l (length reqs) (append_all l reqs (new_block attempt))"
  using append_all_ok [OF assms(1) new_block_ok _ assms(3), of attempt] assms(2) by simp

theorem report_block_bounded_witness:
  "entries_ok \<lparr>rl_append = 64, rl_block = 128\<rparr> 2
     (append_all \<lparr>rl_append = 64, rl_block = 128\<rparr>
        [(FromRun, ''one'', 0, 5), (FromAgent, ''two'', 7, 6)] (new_block 1))"
proof -
  let ?reqs = "[(FromRun, ''one'', 0, 5), (FromAgent, ''two'', 7, 6)] :: append_request list"
  have "validate_limits \<lparr>rl_append = 64, rl_block = 128\<rparr> = Inr ()" by code_simp
  moreover have "utf8_valid ''one'' \<and> utf8_valid ''two''" by code_simp
  ultimately show ?thesis using report_block_bounded [of "\<lparr>rl_append = 64, rl_block = 128\<rparr>" ?reqs 1]
    by (simp add: numeral_2_eq_2 [symmetric])
qed

section \<open>Report addresses\<close>

definition key_text :: "string \<Rightarrow> bool" where
  "key_text s \<longleftrightarrow> s \<noteq> [] \<and> list_all key_char_ok s"

lemma key_char_printable: "key_char_ok c \<Longrightarrow> (32 :: nat) < of_char c \<and> of_char c < (128 :: nat)"
  by (auto simp: key_char_ok_def is_digit_def)

lemma key_char_no_slash: "key_char_ok c \<Longrightarrow> c \<noteq> CHR ''/''"
  by (auto simp: key_char_ok_def is_digit_def)

lemma digit_key_char: "is_digit c \<Longrightarrow> key_char_ok c"
  by (simp add: key_char_ok_def)

lemma source_name_key: "list_all key_char_ok (source_name src)" "source_name src \<noteq> []"
  by (cases src; simp add: key_char_ok_def)+

lemma parse_source_name: "parse_source (source_name src) = Some src"
  by (cases src) (simp_all add: parse_source_def all_sources_def)

lemma show_nat_key: "list_all key_char_ok (show_nat n)"
  using show_nat_digits [of n] digit_key_char by (auto simp: list_all_iff)

lemma splitn_append: "d \<notin> set a \<Longrightarrow> splitn (Suc (Suc n)) d (a @ d # b) = a # splitn (Suc n) d b"
  by (simp add: takeWhile_append dropWhile_append)

lemma no_slash: "list_all key_char_ok s \<Longrightarrow> CHR ''/'' \<notin> set s"
  using key_char_no_slash by (auto simp: list_all_iff)

text \<open>The address of a report that is handed to a child process is read back as the address it was,
  for every token and task id made of key characters.\<close>

theorem report_address_roundtrip:
  assumes "key_text (ra_token a)" and "key_text (ra_task a)"
  shows "parse_address (to_env_value a) = Some a"
proof -
  let ?ws = "show_nat (unat (ra_workspace a))" and ?n = "show_nat (unat (ra_attempt a))"
  have ok: "list_all key_char_ok (ra_token a)" "list_all key_char_ok (ra_task a)" "ra_token a \<noteq> []" "ra_task a \<noteq> []"
    using assms by (simp_all add: key_text_def)
  have "list_all (\<lambda>c. key_char_ok c \<or> c = CHR ''/'') (to_env_value a)"
    using show_nat_key [of "unat (ra_workspace a)"] show_nat_key [of "unat (ra_attempt a)"]
      source_name_key(1) [of "ra_source a"] ok(1,2)
    by (auto simp: to_env_value_def list_all_iff)
  then have "trim (to_env_value a) = to_env_value a"
    by (intro trim_ascii) (auto simp: list_all_iff dest: key_char_printable)
  moreover have "splitn 5 CHR ''/'' (to_env_value a) =
      [?ws, ?n, source_name (ra_source a), ra_token a, ra_task a]"
    using no_slash [OF show_nat_key] no_slash [OF source_name_key(1)] no_slash [OF ok(1)]
    by (simp add: to_env_value_def eval_nat_numeral splitn_append del: splitn.simps(3))
  ultimately show ?thesis
    using ok(3,4) not_sym [OF source_name_key(2)] not_sym [OF show_nat_nonempty] by (simp add: parse_address_def show_nat_nonempty parse_source_name)
qed

theorem report_address_roundtrip_witness:
  "parse_address ''3/2/agent/00ff/build'' =
     Some \<lparr>ra_workspace = 3, ra_task = ''build'', ra_attempt = 2, ra_source = FromAgent, ra_token = ''00ff''\<rparr>"
proof -
  let ?a = "\<lparr>ra_workspace = 3, ra_task = ''build'', ra_attempt = 2, ra_source = FromAgent, ra_token = ''00ff''\<rparr>"
  have "key_text (ra_token ?a)" "key_text (ra_task ?a)" by code_simp+
  moreover have "to_env_value ?a = ''3/2/agent/00ff/build''" by code_simp
  ultimately show ?thesis using report_address_roundtrip [of ?a] by simp
qed

end
