(* ===== verification/Task_Conditions.thy ===== *)
theory Task_Conditions
  imports Task_Route Task_Check
begin

text \<open>
  The conditions on the output of a task that select what runs next (\<open>task/route.rs\<close>): their check
  when a graph is submitted, and their evaluation when the task has succeeded. \<open>lookup\<close> finds a task
  by its id.
\<close>

section \<open>Failures\<close>

definition route_error :: "message \<Rightarrow> string \<Rightarrow> task_failure" where
  "route_error m loc = (failure_new StageInput m)\<lparr>tf_location := Some loc\<rparr>"

definition task_route_error :: "string \<Rightarrow> message \<Rightarrow> string \<Rightarrow> task_failure" where
  "task_route_error tid m loc = (route_error (Lit (''task '' @ tid @ '': '') # m) loc)\<lparr>tf_task := Some tid\<rparr>"

section \<open>The check of a condition\<close>

definition operand_schema ::
  "task \<Rightarrow> string \<Rightarrow> string option \<Rightarrow> (string \<Rightarrow> task option) \<Rightarrow> message + type_defs \<times> type_schema" where
  "operand_schema t path input lookup =
     sbind (case input of
         None \<Rightarrow> Inr (output_schema_of t)
       | Some i \<Rightarrow>
           (case t_command t of
              Reduce inputs ReduceAll \<Rightarrow>
                if i \<notin> set inputs then Inl (msg (squoted ''input'' @ '' '' @ i @ '' is not an input of this reduce''))
                else (case lookup i of
                    None \<Rightarrow> Inl (msg (''reduce input task not found: '' @ i))
                  | Some source \<Rightarrow> Inr (output_schema_of source))
            | _ \<Rightarrow> Inl (msg (squoted ''input'' @ '' applies to reduce all outputs only'')))) (\<lambda>(defs, base).
     sbind (map_err (\<lambda>e. [TypeErr e]) (schema_at defs base path)) (\<lambda>(schema, _).
     sbind (map_err (\<lambda>e. [TypeErr e]) (resolve defs schema)) (\<lambda>(kind, _).
       Inr (defs, TypeSchema kind False))))"

definition ordered_op :: "compare_op \<Rightarrow> bool" where
  "ordered_op op \<longleftrightarrow> op \<in> {CmpLt, CmpLe, CmpGt, CmpGe}"

definition check_compare :: "json_text \<Rightarrow> task \<Rightarrow> string \<Rightarrow> (string \<Rightarrow> task option) \<Rightarrow> comparison \<Rightarrow> task_failure + unit" where
  "check_compare jt t loc lookup c =
     (let refuse = (\<lambda>m at'. Inl (task_route_error (t_id t) m (loc @ ''/compare'' @ at'))) in
      case operand_schema t (cp_path c) (cp_input c) lookup of
        Inl m \<Rightarrow> refuse m ''/path''
      | Inr (defs, schema) \<Rightarrow>
          sbind
            (let plain = (if ordered_op (cp_op c)
                 then refuse [Desc schema, Lit '' values are compared with eq/ne only''] ''/op'' else Inr ())
             in case ts_kind schema of
               KInt64 \<Rightarrow> Inr ()
             | KFloat64 _ _ \<Rightarrow>
                 if ordered_op (cp_op c) then Inr ()
                 else refuse (msg ''float64 values are compared with lt/le/gt/ge ranges, not eq/ne'') ''/op''
             | KBoolean \<Rightarrow> plain
             | KString _ \<Rightarrow> plain
             | KEnum _ \<Rightarrow> plain
             | _ \<Rightarrow> refuse [Lit (''a condition compares boolean, int64, float64, string or enum values; '' @
                      squoted (cp_path c) @ '' is ''), Desc schema] ''/path'') (\<lambda>_.
          case validate jt defs schema (cp_value c) of
            Inl e \<Rightarrow> refuse [TypeErr e] ''/value''
          | Inr _ \<Rightarrow> Inr ()))"

definition check_member ::
  "json_text \<Rightarrow> task \<Rightarrow> string \<Rightarrow> type_defs \<Rightarrow> type_schema \<Rightarrow> nat \<times> json \<Rightarrow> task_failure + unit" where
  "check_member jt t loc defs schema = (\<lambda>(i, v).
     case validate jt defs schema v of
       Inl e \<Rightarrow> Inl (task_route_error (t_id t) [TypeErr e] (loc @ ''/in/values/'' @ show_nat i))
     | Inr _ \<Rightarrow> Inr ())"

definition check_membership :: "json_text \<Rightarrow> task \<Rightarrow> string \<Rightarrow> (string \<Rightarrow> task option) \<Rightarrow> membership \<Rightarrow> task_failure + unit" where
  "check_membership jt t loc lookup m =
     (let refuse = (\<lambda>text at'. Inl (task_route_error (t_id t) text (loc @ ''/in'' @ at'))) in
      case operand_schema t (mb_path m) (mb_input m) lookup of
        Inl e \<Rightarrow> refuse e ''/path''
      | Inr (defs, schema) \<Rightarrow>
          if \<not> (case ts_kind schema of KInt64 \<Rightarrow> True | KString _ \<Rightarrow> True | KEnum _ \<Rightarrow> True | _ \<Rightarrow> False)
          then refuse [Lit (squoted ''in'' @ '' tests int64, string or enum values; '' @ squoted (mb_path m) @ '' is ''),
                 Desc schema] ''/path''
          else if mb_values m = [] then refuse (msg (squoted ''in'' @ '' needs at least one value'')) ''/values''
          else sbind (collect (check_member jt t loc defs schema) (enumerate 0 (mb_values m))) (\<lambda>_. Inr ()))"

fun check_condition ::
    "json_text \<Rightarrow> task \<Rightarrow> (string \<Rightarrow> task option) \<Rightarrow> string \<Rightarrow> condition \<Rightarrow> task_failure + unit"
and check_conditions ::
    "json_text \<Rightarrow> task \<Rightarrow> (string \<Rightarrow> task option) \<Rightarrow> string \<Rightarrow> nat \<Rightarrow> condition list \<Rightarrow> task_failure + unit" where
  "check_condition jt t lookup loc (CondAll cs) =
     (if cs = [] then Inl (task_route_error (t_id t) (msg (squoted ''all'' @ '' needs at least one condition'')) loc)
      else check_conditions jt t lookup (loc @ ''/all/'') 0 cs)"
| "check_condition jt t lookup loc (CondAny cs) =
     (if cs = [] then Inl (task_route_error (t_id t) (msg (squoted ''any'' @ '' needs at least one condition'')) loc)
      else check_conditions jt t lookup (loc @ ''/any/'') 0 cs)"
| "check_condition jt t lookup loc (CondNot c) = check_condition jt t lookup (loc @ ''/not'') c"
| "check_condition jt t lookup loc (Compare c) = check_compare jt t loc lookup c"
| "check_condition jt t lookup loc (InSet m) = check_membership jt t loc lookup m"
| "check_conditions jt t lookup loc i [] = Inr ()"
| "check_conditions jt t lookup loc i (c # cs) =
     sbind (check_condition jt t lookup (loc @ show_nat i) c) (\<lambda>_. check_conditions jt t lookup loc (i + 1) cs)"

section \<open>Overlapping cases\<close>

definition value_set ::
  "task \<Rightarrow> (string \<Rightarrow> task option) \<Rightarrow> condition \<Rightarrow> (string option \<times> string \<times> typed_value list) option" where
  "value_set t lookup cond =
     (case (case cond of
              Compare c \<Rightarrow> if cp_op c = CmpEq then Some (cp_input c, cp_path c, [cp_value c]) else None
            | InSet m \<Rightarrow> Some (mb_input m, mb_path m, mb_values m)
            | _ \<Rightarrow> None) of
        None \<Rightarrow> None
      | Some (input, path, values) \<Rightarrow>
          (case operand_schema t path input lookup of
             Inl _ \<Rightarrow> None
           | Inr (defs, schema) \<Rightarrow>
               (case collect (typed_value_of defs schema) values of
                  Inl _ \<Rightarrow> None
                | Inr typed \<Rightarrow> Some (input, path, typed))))"

text \<open>
  \<open>==\<close> of the derived \<open>PartialEq\<close>: as everywhere in the source, the numbers in two values are
  compared as \<open>f64\<close> when both are floats.
\<close>

fun typed_eq :: "typed_value \<Rightarrow> typed_value \<Rightarrow> bool" where
  "typed_eq (TVFloat64 a) (TVFloat64 b) \<longleftrightarrow> num_eq a b"
| "typed_eq (TVList xs) (TVList ys) \<longleftrightarrow> list_all2 typed_eq xs ys"
| "typed_eq (TVObject xs) (TVObject ys) \<longleftrightarrow> list_all2 (rel_prod (=) typed_eq) xs ys"
| "typed_eq (TVJson v) (TVJson w) \<longleftrightarrow> json_eq v w"
| "typed_eq a b \<longleftrightarrow> a = b"

fun condition_eq :: "condition \<Rightarrow> condition \<Rightarrow> bool" where
  "condition_eq (CondAll cs) (CondAll ds) \<longleftrightarrow> list_all2 condition_eq cs ds"
| "condition_eq (CondAny cs) (CondAny ds) \<longleftrightarrow> list_all2 condition_eq cs ds"
| "condition_eq (CondNot c) (CondNot d) \<longleftrightarrow> condition_eq c d"
| "condition_eq (Compare c) (Compare d) \<longleftrightarrow>
     cp_path c = cp_path d \<and> cp_op c = cp_op d \<and> json_eq (cp_value c) (cp_value d) \<and> cp_input c = cp_input d"
| "condition_eq (InSet m) (InSet n) \<longleftrightarrow>
     mb_path m = mb_path n \<and> list_all2 json_eq (mb_values m) (mb_values n) \<and> mb_input m = mb_input n"
| "condition_eq _ _ \<longleftrightarrow> False"

definition cases_overlap :: "task \<Rightarrow> (string \<Rightarrow> task option) \<Rightarrow> condition \<Rightarrow> condition \<Rightarrow> bool" where
  "cases_overlap t lookup a b \<longleftrightarrow>
     condition_eq a b \<or> (case (value_set t lookup a, value_set t lookup b) of
        (Some (ia, pa, va), Some (ib, pb, vb)) \<Rightarrow> ia = ib \<and> pa = pb \<and> list_ex (\<lambda>v. list_ex (typed_eq v) vb) va
      | _ \<Rightarrow> False)"

definition case_overlap ::
  "task \<Rightarrow> (string \<Rightarrow> task option) \<Rightarrow> string \<Rightarrow> transition_case list \<Rightarrow> nat \<Rightarrow> task_failure + unit" where
  "case_overlap t lookup at' cases j =
     (case find (\<lambda>i. cases_overlap t lookup (tc_when (cases ! i)) (tc_when (cases ! j))) [0..<j] of
        None \<Rightarrow> Inr ()
      | Some i \<Rightarrow> Inl (task_route_error (t_id t)
          (msg (''exclusive cases '' @ show_nat i @ '' and '' @ show_nat j @
             '' can both hold; make them disjoint or use mode all_matches''))
          (at' @ ''/cases/'' @ show_nat j @ ''/when'')))"

definition check_exclusive_overlap ::
  "task \<Rightarrow> transitions \<Rightarrow> string \<Rightarrow> (string \<Rightarrow> task option) \<Rightarrow> task_failure + unit" where
  "check_exclusive_overlap t tr at' lookup =
     sbind (collect (case_overlap t lookup at' (tr_cases tr)) [0..<length (tr_cases tr)]) (\<lambda>_. Inr ())"

section \<open>The check of the transitions\<close>

definition check_target :: "task \<Rightarrow> task list \<Rightarrow> string \<Rightarrow> nat \<times> string \<Rightarrow> task_failure + unit" where
  "check_target t graph loc = (\<lambda>(j, target).
     let refuse = (\<lambda>m. Inl (task_route_error (t_id t) (msg m) (loc @ show_nat j))) in
     case find (\<lambda>g. t_id g = target) graph of
       None \<Rightarrow> refuse (''transition target '' @ target @ '' is not a task of this graph'')
     | Some g \<Rightarrow>
         if t_id g = t_id t then refuse ''a task cannot select itself''
         else if t_on_failure g = ContinueDownstream
         then refuse (''transition target '' @ target @ '' uses continue_downstream, which would run it when the '' @
                ''route is unknown; a target runs only when selected'')
         else case find (\<lambda>m. case t_on_failure m of Fallback (Some fb) _ \<Rightarrow> fb = target | _ \<Rightarrow> False) graph of
           Some main \<Rightarrow> refuse (''transition target '' @ target @ '' is the fallback of '' @ t_id main @
                          ''; a fallback runs only when its main fails'')
         | None \<Rightarrow> Inr ())"

definition check_case ::
  "json_text \<Rightarrow> task \<Rightarrow> task list \<Rightarrow> string \<Rightarrow> (string \<Rightarrow> task option) \<Rightarrow> nat \<times> transition_case \<Rightarrow> task_failure + unit" where
  "check_case jt t graph at' lookup = (\<lambda>(i, c).
     let loc = at' @ ''/cases/'' @ show_nat i in
     if tc_to c = [] then Inl (task_route_error (t_id t) (msg ''a case needs at least one target'') (loc @ ''/to''))
     else sbind (collect (check_target t graph (loc @ ''/to/'')) (enumerate 0 (tc_to c))) (\<lambda>_.
       check_condition jt t lookup (loc @ ''/when'') (tc_when c)))"

definition check_transitions ::
  "json_text \<Rightarrow> task \<Rightarrow> string \<Rightarrow> task list \<Rightarrow> (string \<Rightarrow> task option) \<Rightarrow> task_failure + unit" where
  "check_transitions jt t at0 graph lookup =
     (case Option.bind (t_contract t) tk_transitions of
        None \<Rightarrow> Inr ()
      | Some tr \<Rightarrow>
          let at' = at0 @ ''/transitions'';
              refuse = (\<lambda>m loc. Inl (task_route_error (t_id t) (msg m) (at' @ loc)))
          in if tr_cases tr = [] then refuse ''transitions need at least one case'' ''/cases''
             else sbind
               (case (tr_otherwise tr, tr_no_match tr) of
                  (Some _, True) \<Rightarrow> refuse ''set either otherwise or no_match, not both'' []
                | (None, False) \<Rightarrow> refuse (''say what happens when no case holds: otherwise [targets] or no_match '' @
                                    dquoted ''finish'') []
                | (Some o', False) \<Rightarrow>
                    if o' = [] then refuse (''otherwise needs at least one target; use no_match '' @ dquoted ''finish'' @
                                      '' to select nothing'') ''/otherwise''
                    else Inr ()
                | (None, True) \<Rightarrow> Inr ()) (\<lambda>_.
             sbind (collect (check_case jt t graph at' lookup) (enumerate 0 (tr_cases tr))) (\<lambda>_.
             sbind (collect (check_target t graph (at' @ ''/otherwise/''))
                      (enumerate 0 (case tr_otherwise tr of None \<Rightarrow> [] | Some o' \<Rightarrow> o'))) (\<lambda>_.
               if tr_mode tr = Exclusive then check_exclusive_overlap t tr at' lookup else Inr ()))))"

section \<open>The evaluation of a condition\<close>

definition eval_failure :: "task \<Rightarrow> message \<Rightarrow> task_failure" where
  "eval_failure t m =
     (failure_new StageRoute (Lit (''task '' @ t_id t @ '': '') # m))\<lparr>tf_task := Some (t_id t)\<rparr>"

text \<open>The walk of a pointer into a typed value.\<close>

fun walk_typed :: "typed_value \<Rightarrow> string list \<Rightarrow> typed_value option" where
  "walk_typed cur [] = Some cur"
| "walk_typed cur (tok # toks) =
     (case (case cur of
              TVObject m \<Rightarrow> map_of m tok
            | TVList items \<Rightarrow>
                (case parse_uint 64 tok of
                   None \<Rightarrow> None | Some i \<Rightarrow> if i < length items then Some (items ! i) else None)
            | _ \<Rightarrow> None) of
        None \<Rightarrow> None
      | Some v \<Rightarrow> walk_typed v toks)"

definition operand ::
  "task \<Rightarrow> typed_value \<Rightarrow> string \<Rightarrow> string option \<Rightarrow> (string \<Rightarrow> task option) \<Rightarrow> json \<Rightarrow>
   task_failure + typed_value \<times> typed_value" where
  "operand t output path input lookup literal =
     (let failed = eval_failure t; type_failed = (\<lambda>e. failed [TypeErr e]) in
      sbind (case input of
          None \<Rightarrow> Inr (output, output_schema_of t)
        | Some i \<Rightarrow>
            (case lookup i of
               None \<Rightarrow> Inl (failed (msg (''reduce input task not found: '' @ i)))
             | Some source \<Rightarrow>
                 sbind (map_err (\<lambda>f. failed (tf_message f)) (reduce_all_record_output t source)) (\<lambda>r.
                   case r of
                     None \<Rightarrow> Inl (failed (msg (''reduce input '' @ i @ '' produced no output'')))
                   | Some v \<Rightarrow> Inr (v, output_schema_of source)))) (\<lambda>(base, defs, base_schema).
      sbind (map_err type_failed (schema_at defs base_schema path)) (\<lambda>(schema, _).
      sbind (map_err type_failed (resolve defs schema)) (\<lambda>(kind, _).
      sbind (map_err (\<lambda>m. failed (msg m)) (pointer_tokens path)) (\<lambda>tokens.
        case walk_typed base tokens of
          None \<Rightarrow> Inl (failed (msg (''the output has no value at '' @ squoted path)))
        | Some v \<Rightarrow>
            if v = TVNull then Inl (failed (msg (''the output is null at '' @ squoted path)))
            else sbind (map_err type_failed (typed_value_of defs (TypeSchema kind False) literal)) (\<lambda>l.
              Inr (v, l)))))))"

datatype ordering = OrdLess | OrdEqual | OrdGreater

definition order_of :: "('a :: linorder) \<Rightarrow> 'a \<Rightarrow> ordering" where
  "order_of a b = (if a < b then OrdLess else if a = b then OrdEqual else OrdGreater)"

text \<open>A number of a JSON value is finite, so two of them always compare.\<close>

fun compare_typed :: "typed_value \<Rightarrow> typed_value \<Rightarrow> ordering option" where
  "compare_typed (TVInt64 x) (TVInt64 y) = Some (order_of x y)"
| "compare_typed (TVFloat64 x) (TVFloat64 y) =
     Some (order_of (f64_scaled (num_as_f64 x)) (f64_scaled (num_as_f64 y)))"
| "compare_typed (TVString x) (TVString y) = Some (order_of x y)"
| "compare_typed (TVBool x) (TVBool y) = Some (order_of x y)"
| "compare_typed _ _ = None"

fun op_holds :: "compare_op \<Rightarrow> ordering \<Rightarrow> bool" where
  "op_holds CmpEq o' \<longleftrightarrow> o' = OrdEqual"
| "op_holds CmpNe o' \<longleftrightarrow> o' \<noteq> OrdEqual"
| "op_holds CmpLt o' \<longleftrightarrow> o' = OrdLess"
| "op_holds CmpLe o' \<longleftrightarrow> o' \<noteq> OrdGreater"
| "op_holds CmpGt o' \<longleftrightarrow> o' = OrdGreater"
| "op_holds CmpGe o' \<longleftrightarrow> o' \<noteq> OrdLess"

definition eval_compare :: "task \<Rightarrow> typed_value \<Rightarrow> (string \<Rightarrow> task option) \<Rightarrow> comparison \<Rightarrow> task_failure + bool" where
  "eval_compare t output lookup c =
     sbind (operand t output (cp_path c) (cp_input c) lookup (cp_value c)) (\<lambda>(actual, literal).
       case compare_typed actual literal of
         None \<Rightarrow> Inl (eval_failure t (msg (''cannot compare the value at '' @ squoted (cp_path c))))
       | Some o' \<Rightarrow> Inr (op_holds (cp_op c) o'))"

definition eval_membership :: "task \<Rightarrow> typed_value \<Rightarrow> (string \<Rightarrow> task option) \<Rightarrow> membership \<Rightarrow> task_failure + bool" where
  "eval_membership t output lookup m =
     sbind (collect (operand t output (mb_path m) (mb_input m) lookup) (mb_values m)) (\<lambda>found.
       let actual = (if found = [] then TVNull else fst (last found))
       in Inr (list_ex (\<lambda>(_, l). compare_typed actual l = Some OrdEqual) found))"

fun eval_condition ::
    "task \<Rightarrow> typed_value \<Rightarrow> (string \<Rightarrow> task option) \<Rightarrow> condition \<Rightarrow> task_failure + bool"
and eval_all :: "task \<Rightarrow> typed_value \<Rightarrow> (string \<Rightarrow> task option) \<Rightarrow> condition list \<Rightarrow> task_failure + bool"
and eval_any :: "task \<Rightarrow> typed_value \<Rightarrow> (string \<Rightarrow> task option) \<Rightarrow> condition list \<Rightarrow> task_failure + bool" where
  "eval_condition t output lookup (CondAll cs) = eval_all t output lookup cs"
| "eval_condition t output lookup (CondAny cs) = eval_any t output lookup cs"
| "eval_condition t output lookup (CondNot c) = sbind (eval_condition t output lookup c) (\<lambda>b. Inr (\<not> b))"
| "eval_condition t output lookup (Compare c) = eval_compare t output lookup c"
| "eval_condition t output lookup (InSet m) = eval_membership t output lookup m"
| "eval_all t output lookup [] = Inr True"
| "eval_all t output lookup (c # cs) =
     sbind (eval_condition t output lookup c) (\<lambda>b. if b then eval_all t output lookup cs else Inr False)"
| "eval_any t output lookup [] = Inr False"
| "eval_any t output lookup (c # cs) =
     sbind (eval_condition t output lookup c) (\<lambda>b. if b then Inr True else eval_any t output lookup cs)"

section \<open>The route\<close>

definition index_list :: "nat list \<Rightarrow> string" where
  "index_list is = ''['' @ joined '', '' (map show_nat is) @ '']''"

definition decide_route :: "task \<Rightarrow> (string \<Rightarrow> task option) \<Rightarrow> task_failure + route_decision option" where
  "decide_route t lookup =
     (case Option.bind (t_contract t) tk_transitions of
        None \<Rightarrow> Inr None
      | Some tr \<Rightarrow>
          (case (case t_typed_result t of None \<Rightarrow> None | Some r \<Rightarrow> if tr_has_output r then Some (tr_output r) else None) of
             None \<Rightarrow> Inl (eval_failure t (msg ''has no output to evaluate transitions on''))
           | Some output \<Rightarrow>
               sbind (collect (\<lambda>c. eval_condition t output lookup (tc_when c)) (tr_cases tr)) (\<lambda>holds.
               let matched = filter (\<lambda>i. holds ! i) [0..<length holds] in
               if tr_mode tr = Exclusive \<and> 1 < length matched
               then Inl (eval_failure t (msg (''exclusive transition cases '' @ index_list matched @
                      '' all hold; exactly one may hold'')))
               else
                 let otherwise' = (matched = [] \<and> tr_otherwise tr \<noteq> None);
                     chosen = (if otherwise' then (case tr_otherwise tr of None \<Rightarrow> [] | Some o' \<Rightarrow> o')
                               else concat (map (\<lambda>i. tc_to (tr_cases tr ! i)) matched))
                 in Inr (Some \<lparr>rd_attempt = map_option at_id (t_attempt t), rd_matched = matched,
                      rd_otherwise = otherwise', rd_selected = dedup_first [] chosen\<rparr>))))"

section \<open>Inputs from tasks that may not be selected\<close>

definition route_input ::
  "task list \<Rightarrow> string list \<Rightarrow> nat \<Rightarrow> task \<Rightarrow> task_contract \<Rightarrow> string \<times> input_binding \<Rightarrow> task_failure + unit" where
  "route_input all maybe i t c = (\<lambda>(field, b).
     let sources = activation_sources t @ map t_id (filter (\<lambda>s. t_id t \<in> set (transition_targets s)) all) in
     case b of
       FromTask source _ \<Rightarrow>
         if bs_from source \<notin> set maybe \<or> field_may_be_absent c field
            \<or> list_all (\<lambda>s. s = bs_from source) sources
         then Inr ()
         else Inl (task_route_error (t_id t)
           (msg (''input field '' @ squoted field @ '' requires the output of '' @ bs_from source @
              '', which may not be selected while '' @ t_id t @ '' still runs through another path; '' @
              ''bind it with one_of, or make the field optional or give it a default''))
           (''/tasks/'' @ show_nat i @ ''/bindings/'' @ escape_token field))
     | _ \<Rightarrow> Inr ())"

definition check_route_inputs :: "task list \<Rightarrow> task list \<Rightarrow> task_failure + unit" where
  "check_route_inputs graph all =
     (let maybe = may_be_not_selected all in
      if maybe = [] then Inr ()
      else sbind (collect (\<lambda>(i, t). case t_contract t of
             None \<Rightarrow> Inr ()
           | Some c \<Rightarrow> sbind (collect (route_input all maybe i t c) (tk_bindings c)) (\<lambda>_. Inr ()))
             (enumerate 0 graph)) (\<lambda>_. Inr ()))"

end
