(* ===== verification/Task_Conditions_Laws.thy ===== *)
theory Task_Conditions_Laws
  imports Task_Conditions Task_Inputs_Laws
begin

text \<open>
  What the check of transitions promises to their evaluation: a checked condition whose values are
  there has a truth value, so a checked task that has succeeded gets its route; and two cases that
  the check of overlaps has seen as sets of values never hold together.
\<close>

section \<open>Typed values at a pointer\<close>

text \<open>The typed value a pointer finds has the type the pointer leads to.\<close>

lemma typed_walk:
  "schema_walk defs cur ab p ts = Inr (sub, ab') \<Longrightarrow> typed_at defs cur w q = Inr tv \<Longrightarrow> walk_typed tv ts = Some v \<Longrightarrow>
   \<exists>x q'. typed_at defs sub x q' = Inr v"
proof (induction ts arbitrary: cur ab p w q tv)
  case (Cons t ts)
  have w: "w \<noteq> JNull" using Cons.prems(2,3) by (auto simp: typed_null)
  show ?case
    using Cons.prems(1)
  proof (cases rule: schema_step)
    case (field fs n f)
    obtain m where m: "w = JObj m" using typed_shape(1) [OF Cons.prems(2) w field(1)] by blast
    from Cons.prems(2) obtain ys where ys: "tv = TVObject ys"
      and all: "list_all2 (\<lambda>(name, x) (name', y). name' = name \<and>
        (\<exists>f. map_of fs name = Some f \<and> typed_at defs (fs_schema f) x (child_path q name) = Inr y)) m ys"
      by (auto simp: m typed_obj [OF field(1)])
    from Cons.prems(3) ys obtain y where y: "map_of ys t = Some y" "walk_typed y ts = Some v"
      by (auto split: option.splits)
    from list_all2_setD2 [OF all map_of_SomeD [OF y(1)]] field(2) obtain x
      where "typed_at defs (fs_schema f) x (child_path q t) = Inr y" by auto
    from Cons.IH [OF field(3) this y(2)] show ?thesis .
  next
    case (item items mx n)
    obtain xs where xs: "w = JArr xs" using typed_shape(2) [OF Cons.prems(2) w item(1)] by blast
    from Cons.prems(2) obtain ys where ys: "tv = TVList ys" "length ys = length xs"
      and all: "\<forall>i < length xs. typed_at defs items (xs ! i) (child_path q (show_nat i)) = Inr (ys ! i)"
      by (auto simp: xs typed_arr [OF item(1)])
    from Cons.prems(3) ys obtain i where i: "i < length xs" "walk_typed (ys ! i) ts = Some v"
      by (auto split: option.splits if_splits)
    from Cons.IH [OF item(3) all [rule_format, OF i(1)] i(2)] show ?thesis .
  next
    case (json n)
    with Cons.prems(2,3) show ?thesis by (auto simp: typed_json [OF json(1) w])
  qed
qed auto

text \<open>The typed values a condition may compare, by their kind.\<close>

fun fits :: "type_kind \<Rightarrow> typed_value \<Rightarrow> bool" where
  "fits KBoolean (TVBool b) \<longleftrightarrow> True"
| "fits KInt64 (TVInt64 i) \<longleftrightarrow> True"
| "fits (KFloat64 _ _) (TVFloat64 n) \<longleftrightarrow> True"
| "fits (KString _) (TVString s) \<longleftrightarrow> True"
| "fits (KEnum _) (TVString s) \<longleftrightarrow> True"
| "fits _ _ \<longleftrightarrow> False"

definition comparable :: "type_kind \<Rightarrow> bool" where
  "comparable k \<longleftrightarrow>
     (case k of KBoolean \<Rightarrow> True | KInt64 \<Rightarrow> True | KFloat64 _ _ \<Rightarrow> True | KString _ \<Rightarrow> True | KEnum _ \<Rightarrow> True | _ \<Rightarrow> False)"

lemma leaf_fits_kind: "comparable k \<Longrightarrow> leaf_typed k v tv \<Longrightarrow> fits k tv"
  by (cases k) (auto simp: comparable_def)

lemma comparable_leaf:
  "comparable k \<Longrightarrow> k \<noteq> KObject fs" "comparable k \<Longrightarrow> k \<noteq> KList items mx" "comparable k \<Longrightarrow> k \<noteq> KRef name"
  by (auto simp: comparable_def)

lemma typed_fits:
  assumes "typed_at defs s x q = Inr v" "resolve defs s = Inr (k, n)" "comparable k" "v \<noteq> TVNull"
  shows "fits k v"
proof -
  have "x \<noteq> JNull" using assms(1,4) by (auto simp: typed_null)
  with assms(1) have "leaf_typed k x v"
    using typed_leaf [OF assms(2) _ comparable_leaf(1) [OF assms(3)] comparable_leaf(2) [OF assms(3)]] by blast
  with assms(3) show ?thesis by (rule leaf_fits_kind)
qed

lemma resolve_kind: "(\<And>name. k \<noteq> KRef name) \<Longrightarrow> resolve defs (TypeSchema k n) = Inr (k, n)"
  by (cases k) (auto simp: resolve_def resolve_loop.simps)

text \<open>A literal that validates for a kind without null has a typed value of that kind.\<close>

lemma literal_typed:
  assumes "validate jt defs (TypeSchema k False) lit = Inr w" "comparable k"
  shows "\<exists>l. typed_value_of defs (TypeSchema k False) lit = Inr l \<and> fits k l"
proof -
  have res: "resolve defs (TypeSchema k False) = Inr (k, False)"
    using comparable_leaf(3) [OF assms(2)] by (rule resolve_kind)
  have "valid defs 0 (TypeSchema k False) lit w"
    using assms(1) by (auto simp: validate_def terr_def Let_def validate_iff split: if_splits)
  then have "leaf_valid k lit w \<and> lit \<noteq> JNull"
    using assms(2) by (cases rule: valid.cases) (auto simp: res comparable_def)
  then have "\<exists>l. leaf_typed k lit l" using assms(2) by (cases k) (auto simp: comparable_def)
  moreover have "leaf_typed k lit l \<longleftrightarrow> typed_value_of defs (TypeSchema k False) lit = Inr l" for l
    using typed_leaf [OF res _ comparable_leaf(1) [OF assms(2)] comparable_leaf(2) [OF assms(2)]]
      \<open>leaf_valid k lit w \<and> lit \<noteq> JNull\<close> by (simp add: typed_value_of_def)
  ultimately show ?thesis using leaf_fits_kind [OF assms(2)] by blast
qed

lemma fits_compare: "fits k a \<Longrightarrow> fits k b \<Longrightarrow> \<exists>o'. compare_typed a b = Some o'"
  by (cases k; cases a; cases b) auto

section \<open>Evaluation of a checked condition\<close>

text \<open>What an operand is read from: the output, or the output of an input of \<open>reduce all\<close>.\<close>

definition operand_base ::
  "task \<Rightarrow> typed_value \<Rightarrow> (string \<Rightarrow> task option) \<Rightarrow> string option \<Rightarrow> (typed_value \<times> type_defs \<times> type_schema) option" where
  "operand_base t output lookup input =
     (case input of
        None \<Rightarrow> Some (output, output_schema_of t)
      | Some i \<Rightarrow>
          (case lookup i of
             None \<Rightarrow> None
           | Some source \<Rightarrow>
               (case reduce_all_record_output t source of
                  Inr (Some v) \<Rightarrow> Some (v, output_schema_of source)
                | _ \<Rightarrow> None)))"

text \<open>There is a value of the declared type to read, and it is not null.\<close>

definition found_at ::
  "task \<Rightarrow> typed_value \<Rightarrow> (string \<Rightarrow> task option) \<Rightarrow> string \<Rightarrow> string option \<Rightarrow> typed_value \<Rightarrow> bool" where
  "found_at t output lookup path input v \<longleftrightarrow>
     (\<exists>base defs s w tokens. operand_base t output lookup input = Some (base, defs, s)
        \<and> typed_value_of defs s w = Inr base \<and> pointer_tokens path = Inr tokens
        \<and> walk_typed base tokens = Some v \<and> v \<noteq> TVNull)"

definition readable_at :: "task \<Rightarrow> typed_value \<Rightarrow> (string \<Rightarrow> task option) \<Rightarrow> string \<Rightarrow> string option \<Rightarrow> bool" where
  "readable_at t output lookup path input \<longleftrightarrow> (\<exists>v. found_at t output lookup path input v)"

text \<open>The tasks of the evaluation are those of the check, further on: same types.\<close>

definition same_types :: "task \<Rightarrow> (string \<Rightarrow> task option) \<Rightarrow> task \<Rightarrow> (string \<Rightarrow> task option) \<Rightarrow> bool" where
  "same_types t lookup t' lookup' \<longleftrightarrow> output_schema_of t' = output_schema_of t \<and>
     (\<forall>i s'. lookup' i = Some s' \<longrightarrow> (\<exists>s. lookup i = Some s \<and> output_schema_of s' = output_schema_of s))"

lemma same_typesD:
  assumes "same_types t lookup t' lookup'"
  shows "output_schema_of t' = output_schema_of t"
    "lookup' i = Some s' \<Longrightarrow> lookup i = Some s \<Longrightarrow> output_schema_of s' = output_schema_of s"
  using assms unfolding same_types_def by (blast, metis option.inject)

lemma operand_schema_ok:
  assumes "operand_schema t path input lookup = Inr (defs, schema)" "same_types t lookup t' lookup'"
    "operand_base t' output lookup' input = Some (base, bdefs, bs)"
  obtains ab sub k n where "bdefs = defs" "schema_at defs bs path = Inr (sub, ab)" "resolve defs sub = Inr (k, n)"
    "schema = TypeSchema k False"
proof -
  have "(bdefs, bs) = (defs', bs')" if "(case input of
         None \<Rightarrow> Inr (output_schema_of t)
       | Some i \<Rightarrow>
           (case t_command t of
              Reduce inputs ReduceAll \<Rightarrow>
                if i \<notin> set inputs then Inl (msg (squoted ''input'' @ '' '' @ i @ '' is not an input of this reduce''))
                else (case lookup i of
                    None \<Rightarrow> Inl (msg (''reduce input task not found: '' @ i))
                  | Some source \<Rightarrow> Inr (output_schema_of source))
            | _ \<Rightarrow> Inl (msg (squoted ''input'' @ '' applies to reduce all outputs only'')))) = Inr (defs', bs')" for defs' bs'
    using that assms(3) same_typesD(1) [OF assms(2)]
    by (auto simp: operand_base_def dest: same_typesD(2) [OF assms(2)] split: option.splits task_command.splits reducer_strategy.splits
        if_splits sum.splits)
  with assms(1) show thesis
    by (auto simp: operand_schema_def sbind_Inr_iff map_err_Inr intro: that)
qed

lemma operand_found:
  assumes "operand_schema t path input lookup = Inr (defs, schema)" "same_types t lookup t' lookup'"
    "found_at t' output lookup' path input v" "comparable (ts_kind schema)"
    "validate jt defs schema lit = Inr w"
  obtains l where "operand t' output path input lookup' lit = Inr (v, l)"
    "typed_value_of defs schema lit = Inr l" "fits (ts_kind schema) v" "fits (ts_kind schema) l"
proof -
  obtain base bdefs bs x tokens where base: "operand_base t' output lookup' input = Some (base, bdefs, bs)"
    "typed_value_of bdefs bs x = Inr base" "pointer_tokens path = Inr tokens" "walk_typed base tokens = Some v"
    "v \<noteq> TVNull"
    using assms(3) by (auto simp: found_at_def)
  obtain ab sub k n where sch: "bdefs = defs" "schema_at defs bs path = Inr (sub, ab)" "resolve defs sub = Inr (k, n)"
    "schema = TypeSchema k False"
    by (rule operand_schema_ok [OF assms(1,2) base(1)])
  have k: "comparable k" using assms(4) sch(4) by simp
  obtain l where l: "typed_value_of defs schema lit = Inr l" "fits k l"
    using literal_typed assms(5) k sch(4) by metis
  have "schema_walk defs bs False [] tokens = Inr (sub, ab)"
    using sch(2) base(3) by (simp add: schema_at_def)
  from typed_walk [OF this _ base(4)] base(2) obtain y q where "typed_at defs sub y q = Inr v"
    unfolding typed_value_of_def sch(1) by blast
  then have v: "fits k v" using typed_fits sch(3) k base(5) by blast
  have "operand t' output path input lookup' lit = Inr (v, l)"
    using base sch l
    by (auto simp: operand_def operand_base_def sbind_def map_err_def split: option.splits sum.splits)
  with v l sch(4) show thesis by (intro that [of l]) auto
qed

primrec places :: "condition \<Rightarrow> (string \<times> string option) list" where
  "places (CondAll cs) = concat (map places cs)"
| "places (CondAny cs) = concat (map places cs)"
| "places (CondNot c) = places c"
| "places (Compare c) = [(cp_path c, cp_input c)]"
| "places (InSet m) = [(mb_path m, mb_input m)]"

lemma check_compareD:
  assumes "check_compare jt t loc lookup c = Inr ()"
  obtains defs schema w where "operand_schema t (cp_path c) (cp_input c) lookup = Inr (defs, schema)"
    "comparable (ts_kind schema)" "validate jt defs schema (cp_value c) = Inr w"
    "cp_op c = CmpEq \<Longrightarrow> \<not> (\<exists>lo hi. ts_kind schema = KFloat64 lo hi)"
proof -
  obtain defs schema where sch: "operand_schema t (cp_path c) (cp_input c) lookup = Inr (defs, schema)"
    using assms by (auto simp: check_compare_def Let_def split: sum.splits)
  with assms show thesis
    by (cases "ts_kind schema"; cases "validate jt defs schema (cp_value c)")
      (auto simp: check_compare_def Let_def sbind_def comparable_def ordered_op_def split: if_splits intro: that [OF sch])
qed

lemma check_membershipD:
  assumes "check_membership jt t loc lookup m = Inr ()"
  obtains defs schema where "operand_schema t (mb_path m) (mb_input m) lookup = Inr (defs, schema)"
    "comparable (ts_kind schema)" "\<And>v. v \<in> set (mb_values m) \<Longrightarrow> \<exists>w. validate jt defs schema v = Inr w"
    "\<not> (\<exists>lo hi. ts_kind schema = KFloat64 lo hi)"
proof -
  obtain defs schema where sch: "operand_schema t (mb_path m) (mb_input m) lookup = Inr (defs, schema)"
    using assms by (auto simp: check_membership_def Let_def split: sum.splits)
  have kind: "comparable (ts_kind schema) \<and> \<not> (\<exists>lo hi. ts_kind schema = KFloat64 lo hi)"
    using assms sch by (cases "ts_kind schema") (auto simp: check_membership_def Let_def comparable_def)
  have "\<exists>w. validate jt defs schema v = Inr w" if "v \<in> set (mb_values m)" for v
  proof -
    from that obtain i where i: "i < length (mb_values m)" "mb_values m ! i = v" by (auto simp: in_set_conv_nth)
    from assms sch obtain us where "collect (check_member jt t loc defs schema) (enumerate 0 (mb_values m)) = Inr us"
      by (auto simp: check_membership_def Let_def sbind_Inr_iff split: if_splits)
    from collect_InrD [OF this] i show ?thesis
      by (cases "validate jt defs schema v") (auto simp: check_member_def list_all2_conv_all_nth nth_enumerate_eq)
  qed
  with kind show thesis by (intro that [OF sch]) auto
qed

lemma check_conditions_all:
  "check_conditions jt t lookup loc i cs = Inr () \<Longrightarrow> c \<in> set cs \<Longrightarrow> \<exists>loc. check_condition jt t lookup loc c = Inr ()"
  by (induction cs arbitrary: i) (auto simp: sbind_Inr_iff)

lemma eval_all_ok: "(\<And>c. c \<in> set cs \<Longrightarrow> \<exists>b. eval_condition t output lookup c = Inr b) \<Longrightarrow>
    \<exists>b. eval_all t output lookup cs = Inr b"
  by (induction cs) (auto simp: sbind_def split: sum.splits, fastforce)

lemma eval_any_ok: "(\<And>c. c \<in> set cs \<Longrightarrow> \<exists>b. eval_condition t output lookup c = Inr b) \<Longrightarrow>
    \<exists>b. eval_any t output lookup cs = Inr b"
  by (induction cs) (auto simp: sbind_def split: sum.splits, fastforce)

lemma compare_evaluates:
  assumes "check_compare jt t loc lookup c = Inr ()" "same_types t lookup t' lookup'"
    "readable_at t' output lookup' (cp_path c) (cp_input c)"
  shows "\<exists>b. eval_compare t' output lookup' c = Inr b"
proof -
  obtain defs schema w where d: "operand_schema t (cp_path c) (cp_input c) lookup = Inr (defs, schema)"
    "comparable (ts_kind schema)" "validate jt defs schema (cp_value c) = Inr w"
    by (rule check_compareD [OF assms(1)]) blast
  obtain v where v: "found_at t' output lookup' (cp_path c) (cp_input c) v" using assms(3) by (auto simp: readable_at_def)
  obtain l where o': "operand t' output (cp_path c) (cp_input c) lookup' (cp_value c) = Inr (v, l)"
    "fits (ts_kind schema) v" "fits (ts_kind schema) l"
    by (rule operand_found [OF d(1) assms(2) v d(2,3)]) blast
  from fits_compare [OF o'(2,3)] o'(1) show ?thesis by (auto simp: eval_compare_def sbind_def)
qed

lemma membership_evaluates:
  assumes "check_membership jt t loc lookup m = Inr ()" "same_types t lookup t' lookup'"
    "readable_at t' output lookup' (mb_path m) (mb_input m)"
  shows "\<exists>b. eval_membership t' output lookup' m = Inr b"
proof -
  obtain defs schema where d: "operand_schema t (mb_path m) (mb_input m) lookup = Inr (defs, schema)"
    "comparable (ts_kind schema)" "\<And>v. v \<in> set (mb_values m) \<Longrightarrow> \<exists>w. validate jt defs schema v = Inr w"
    by (rule check_membershipD [OF assms(1)]) blast
  have "\<exists>r. operand t' output (mb_path m) (mb_input m) lookup' v = Inr r" if "v \<in> set (mb_values m)" for v
    using d(3) [OF that] operand_found [OF d(1) assms(2) _ d(2)] assms(3) unfolding readable_at_def by metis
  then obtain rs where "collect (operand t' output (mb_path m) (mb_input m) lookup') (mb_values m) = Inr rs"
    using collect_ok by metis
  then show ?thesis by (simp add: eval_membership_def sbind_def)
qed

lemma condition_evaluates:
  "check_condition jt t lookup loc cond = Inr () \<Longrightarrow> same_types t lookup t' lookup' \<Longrightarrow>
   \<forall>(path, input) \<in> set (places cond). readable_at t' output lookup' path input \<Longrightarrow>
   \<exists>b. eval_condition t' output lookup' cond = Inr b"
proof (induction cond arbitrary: loc)
  case (CondAll cs)
  have "\<exists>b. eval_condition t' output lookup' c = Inr b" if "c \<in> set cs" for c
    using CondAll.IH [OF that _ CondAll.prems(2)] CondAll.prems(1,3) that
    by (auto split: if_splits dest: check_conditions_all)
  then show ?case by (simp add: eval_all_ok)
next
  case (CondAny cs)
  have "\<exists>b. eval_condition t' output lookup' c = Inr b" if "c \<in> set cs" for c
    using CondAny.IH [OF that _ CondAny.prems(2)] CondAny.prems(1,3) that
    by (auto split: if_splits dest: check_conditions_all)
  then show ?case by (simp add: eval_any_ok)
next
  case (CondNot c)
  then have "\<exists>b. eval_condition t' output lookup' c = Inr b" by simp
  then show ?case by (auto simp: sbind_def)
next
  case (Compare c)
  then show ?case by (simp add: compare_evaluates)
next
  case (InSet m)
  then show ?case by (simp add: membership_evaluates)
qed

lemma sbindE:
  assumes "sbind r f = Inr w"
  obtains x where "r = Inr x" "f x = Inr w"
  using assms by (auto simp: sbind_Inr_iff)

lemma check_transitions_case:
  assumes "check_transitions jt t at' graph lookup = Inr ()" "t_contract t = Some c" "tk_transitions c = Some tr"
    and k: "k \<in> set (tr_cases tr)"
  shows "\<exists>loc. check_condition jt t lookup loc (tc_when k) = Inr ()"
proof -
  obtain us where "collect (check_case jt t graph (at' @ ''/transitions'') lookup) (enumerate 0 (tr_cases tr)) = Inr us"
    using assms(1) unfolding check_transitions_def assms(2) Option.bind.simps assms(3) option.case Let_def
    by (cases "tr_cases tr = []") (simp, simp only: if_False, elim sbindE, blast)
  from collect_InrD [OF this] have us: "list_all2 (\<lambda>x u. check_case jt t graph (at' @ ''/transitions'') lookup x = Inr u)
      (enumerate 0 (tr_cases tr)) us" .
  from k obtain i where "i < length (tr_cases tr)" "k = tr_cases tr ! i" by (auto simp: in_set_conv_nth)
  then have "(i, k) \<in> set (enumerate 0 (tr_cases tr))" by (simp add: in_set_enumerate_eq)
  from list_all2_setD1 [OF us this] show ?thesis
    by (auto simp: check_case_def Let_def sbind_Inr_iff split: if_splits)
qed

lemma check_transitions_overlap:
  assumes "check_transitions jt t at' graph lookup = Inr ()" "t_contract t = Some c" "tk_transitions c = Some tr"
    "tr_mode tr = Exclusive" "j < length (tr_cases tr)"
  shows "case_overlap t lookup (at' @ ''/transitions'') (tr_cases tr) j = Inr ()"
proof -
  have "check_exclusive_overlap t tr (at' @ ''/transitions'') lookup = Inr ()"
    using assms(1) unfolding check_transitions_def assms(2) Option.bind.simps assms(3) option.case Let_def
    by (cases "tr_cases tr = []") (simp, simp only: if_False assms(4) simp_thms if_True, elim sbindE)
  then obtain us where us: "list_all2 (\<lambda>i u. case_overlap t lookup (at' @ ''/transitions'') (tr_cases tr) i = Inr u)
      [0..<length (tr_cases tr)] us"
    by (auto simp: check_exclusive_overlap_def sbind_Inr_iff dest: collect_InrD)
  from list_all2_setD1 [OF us, of j] assms(5) show ?thesis by auto
qed

lemma eval_stage: "tf_stage (eval_failure t m) = StageRoute"
  by (simp add: eval_failure_def failure_new_def)

definition chosen_targets :: "transitions \<Rightarrow> nat list \<Rightarrow> string list" where
  "chosen_targets tr hits =
     (if hits = [] \<and> tr_otherwise tr \<noteq> None then (case tr_otherwise tr of None \<Rightarrow> [] | Some o' \<Rightarrow> o')
      else concat (map (\<lambda>i. tc_to (tr_cases tr ! i)) hits))"

text \<open>C34. A typed task whose transitions passed the check gets a route when it has succeeded, if the values
  its conditions read are there and not null: the cases that hold are exactly those whose condition
  is true, what is selected are their targets (or the \<open>otherwise\<close> targets if none holds), each once;
  only in the exclusive mode, when several cases hold, the task fails at its route.\<close>

theorem checked_route_decided:
  assumes "check_transitions jt t at' graph lookup = Inr ()" and "same_types t lookup t' lookup'"
    and "t_contract t' = t_contract t" and "t_contract t = Some c" and "tk_transitions c = Some tr"
    and "t_typed_result t' = Some r" and "tr_has_output r"
    and "\<forall>k \<in> set (tr_cases tr). \<forall>(path, input) \<in> set (places (tc_when k)).
      readable_at t' (tr_output r) lookup' path input"
  shows "let holds = (\<lambda>i. eval_condition t' (tr_output r) lookup' (tc_when (tr_cases tr ! i)) = Inr True);
      hits = filter holds [0..<length (tr_cases tr)]
    in if tr_mode tr = Exclusive \<and> 1 < length hits then \<exists>e. decide_route t' lookup' = Inl e \<and> tf_stage e = StageRoute
       else \<exists>d. decide_route t' lookup' = Inr (Some d) \<and> rd_matched d = hits \<and> distinct (rd_selected d)
         \<and> set (rd_selected d) = (if hits = [] then (case tr_otherwise tr of None \<Rightarrow> {} | Some o' \<Rightarrow> set o')
             else (\<Union>i \<in> set hits. set (tc_to (tr_cases tr ! i))))
         \<and> set (rd_selected d) \<subseteq> set (transition_targets t)"
proof -
  let ?ev = "\<lambda>k. eval_condition t' (tr_output r) lookup' (tc_when k)"
  note chk = check_transitions_case [OF assms(1,4,5)]
  have "\<exists>b. ?ev k = Inr b" if "k \<in> set (tr_cases tr)" for k
    using condition_evaluates [OF _ assms(2)] chk [OF that] assms(8) that by blast
  then obtain bs where bs: "collect ?ev (tr_cases tr) = Inr bs" using collect_ok by metis
  then have ev: "length bs = length (tr_cases tr)" "\<And>i. i < length bs \<Longrightarrow> ?ev (tr_cases tr ! i) = Inr (bs ! i)"
    by (auto simp: collect_Inr_iff list_all2_conv_all_nth)
  define hits where "hits = filter (\<lambda>i. ?ev (tr_cases tr ! i) = Inr True) [0..<length (tr_cases tr)]"
  have hits: "filter (\<lambda>i. bs ! i) [0..<length bs] = hits"
    unfolding hits_def using ev by (intro filter_cong) auto
  have sub: "set (tc_to (tr_cases tr ! i)) \<subseteq> set (targets tr)" if "i \<in> set hits" for i
    using that by (auto simp: hits_def targets_def)
  have tt: "set (transition_targets t) = set (targets tr)" using assms(4,5) by (simp add: transition_targets_def)
  have decide: "decide_route t' lookup' =
      (if tr_mode tr = Exclusive \<and> 1 < length hits
       then Inl (eval_failure t' (msg (''exclusive transition cases '' @ index_list hits @
              '' all hold; exactly one may hold'')))
       else Inr (Some \<lparr>rd_attempt = map_option at_id (t_attempt t'), rd_matched = hits,
              rd_otherwise = (hits = [] \<and> tr_otherwise tr \<noteq> None), rd_selected = dedup_first [] (chosen_targets tr hits)\<rparr>))"
    using assms(3-7) bs by (simp add: decide_route_def sbind_def Let_def hits chosen_targets_def)
  show ?thesis
  proof (cases "tr_mode tr = Exclusive \<and> 1 < length hits")
    case True
    then show ?thesis
      unfolding Let_def hits_def [symmetric] decide by (simp only: if_True simp_thms) (blast intro: eval_stage)
  next
    case False
    have "set (chosen_targets tr hits) = (if hits = [] then (case tr_otherwise tr of None \<Rightarrow> {} | Some o' \<Rightarrow> set o')
             else (\<Union>i \<in> set hits. set (tc_to (tr_cases tr ! i))))"
      by (auto simp: chosen_targets_def split: option.split)
    moreover have "set (chosen_targets tr hits) \<subseteq> set (transition_targets t)"
      unfolding tt chosen_targets_def using sub by (auto simp: targets_def split: option.split)
    ultimately show ?thesis
      unfolding Let_def hits_def [symmetric] using False by (simp add: decide distinct_dedup_first eval_stage)
  qed
qed

section \<open>Overlapping cases\<close>

lemma list_all2_image:
  assumes "list_all2 P xs ys" "x \<in> set xs"
  obtains y where "y \<in> set ys" "P x y"
  using assms by (induction arbitrary: thesis rule: list_all2_induct) auto

lemma num_eq_same [simp]: "num_eq n n"
  by (cases n) simp_all

lemma json_eq_same [simp]: "json_eq v v"
  by (induction v) (auto intro!: list.rel_refl_strong simp: rel_prod_sel)

lemma typed_eq_same [simp]: "typed_eq v v"
  by (induction v) (auto intro!: list.rel_refl_strong simp: rel_prod_sel)

text \<open>Two values that compare as equal are the same, unless they are floats.\<close>

lemma compare_equal:
  "fits k a \<Longrightarrow> compare_typed a b = Some OrdEqual \<Longrightarrow> \<not> (\<exists>lo hi. k = KFloat64 lo hi) \<Longrightarrow> a = b"
  by (cases k; cases a; cases b) (auto simp: order_of_def split: if_splits)

text \<open>A condition seen as a set of values holds only on the values of the set.\<close>

lemma value_set_compare:
  assumes "value_set t lookup (Compare c) = Some (input, path, vs)" "check_compare jt t loc lookup c = Inr ()"
    "same_types t lookup t' lookup'" "found_at t' output lookup' path input v"
    "eval_compare t' output lookup' c = Inr True"
  shows "v \<in> set vs"
proof -
  obtain defs schema w where d: "operand_schema t (cp_path c) (cp_input c) lookup = Inr (defs, schema)"
    "comparable (ts_kind schema)" "validate jt defs schema (cp_value c) = Inr w"
    "cp_op c = CmpEq \<Longrightarrow> \<not> (\<exists>lo hi. ts_kind schema = KFloat64 lo hi)"
    by (rule check_compareD [OF assms(2)]) blast
  have eq: "cp_op c = CmpEq" "input = cp_input c" "path = cp_path c"
    and vs: "collect (typed_value_of defs schema) [cp_value c] = Inr vs"
    using assms(1) d(1) by (auto simp: value_set_def split: if_splits option.splits sum.splits prod.splits)
  obtain l where o': "operand t' output (cp_path c) (cp_input c) lookup' (cp_value c) = Inr (v, l)"
    "typed_value_of defs schema (cp_value c) = Inr l" "fits (ts_kind schema) v"
    by (rule operand_found [OF d(1) assms(3) assms(4) [unfolded eq(2,3)] d(2,3)]) blast
  have "compare_typed v l = Some OrdEqual"
    using assms(5) o'(1) eq(1) by (auto simp: eval_compare_def sbind_def split: option.splits)
  from compare_equal [OF o'(3) this d(4) [OF eq(1)]] vs o'(2) show ?thesis by (auto simp: sbind_def)
qed

lemma value_set_member:
  assumes "value_set t lookup (InSet m) = Some (input, path, vs)" "check_membership jt t loc lookup m = Inr ()"
    "same_types t lookup t' lookup'" "found_at t' output lookup' path input v"
    "eval_membership t' output lookup' m = Inr True"
  shows "v \<in> set vs"
proof -
  obtain defs schema where d: "operand_schema t (mb_path m) (mb_input m) lookup = Inr (defs, schema)"
    "comparable (ts_kind schema)" "\<And>v. v \<in> set (mb_values m) \<Longrightarrow> \<exists>w. validate jt defs schema v = Inr w"
    "\<not> (\<exists>lo hi. ts_kind schema = KFloat64 lo hi)"
    by (rule check_membershipD [OF assms(2)]) blast
  have eq: "input = mb_input m" "path = mb_path m"
    and vs: "collect (typed_value_of defs schema) (mb_values m) = Inr vs"
    using assms(1) d(1) by (auto simp: value_set_def split: option.splits sum.splits prod.splits)
  have op: "\<exists>l. operand t' output (mb_path m) (mb_input m) lookup' x = Inr (v, l) \<and>
      typed_value_of defs schema x = Inr l \<and> fits (ts_kind schema) v" if "x \<in> set (mb_values m)" for x
    using d(3) [OF that] operand_found [OF d(1) assms(3) assms(4) [unfolded eq] d(2)] by metis
  obtain rs where rs: "collect (operand t' output (mb_path m) (mb_input m) lookup') (mb_values m) = Inr rs"
    and ex: "list_ex (\<lambda>(_, l). compare_typed (if rs = [] then TVNull else fst (last rs)) l = Some OrdEqual) rs"
    using assms(5) by (auto simp: eval_membership_def sbind_Inr_iff Let_def)
  have all: "list_all2 (\<lambda>x y. operand t' output (mb_path m) (mb_input m) lookup' x = Inr y) (mb_values m) rs"
    using rs by (rule collect_InrD)
  have each: "\<exists>x. x \<in> set (mb_values m) \<and> fst y = v \<and> typed_value_of defs schema x = Inr (snd y)" if "y \<in> set rs" for y
    using list_all2_setD2 [OF all that] op by fastforce
  from ex obtain y where y: "y \<in> set rs" "compare_typed v (snd y) = Some OrdEqual"
    using each [OF last_in_set] by (auto simp: list_ex_iff split: if_splits)
  from each [OF y(1)] obtain x where x: "x \<in> set (mb_values m)" "typed_value_of defs schema x = Inr (snd y)" by blast
  have "v = snd y" using op [OF x(1)] compare_equal [OF _ y(2) d(4)] by blast
  moreover obtain z where "z \<in> set vs" "typed_value_of defs schema x = Inr z"
    by (rule list_all2_image [OF collect_InrD [OF vs] x(1)])
  then have "snd y \<in> set vs" using x(2) by simp
  ultimately show ?thesis by simp
qed

lemma value_set_holds:
  assumes "value_set t lookup cond = Some (input, path, vs)" "check_condition jt t lookup loc cond = Inr ()"
    "same_types t lookup t' lookup'" "found_at t' output lookup' path input v"
    "eval_condition t' output lookup' cond = Inr True"
  shows "v \<in> set vs"
proof (cases cond)
  case (Compare c)
  with assms show ?thesis by (auto intro: value_set_compare)
next
  case (InSet m)
  with assms show ?thesis by (auto intro: value_set_member)
qed (use assms(1) in \<open>simp_all add: value_set_def\<close>)

text \<open>C35. In the exclusive mode, two cases of a checked task that test the same place for values, by \<open>eq\<close> or
  \<open>in\<close>, never hold together, whatever the output.\<close>

theorem exclusive_cases_disjoint:
  assumes "check_transitions jt t at' graph lookup = Inr ()" and "same_types t lookup t' lookup'"
    and "t_contract t = Some c" and "tk_transitions c = Some tr" and "tr_mode tr = Exclusive"
    and "i < j" and "j < length (tr_cases tr)"
    and "value_set t lookup (tc_when (tr_cases tr ! i)) = Some (input, path, va)"
    and "value_set t lookup (tc_when (tr_cases tr ! j)) = Some (input, path, vb)"
    and "readable_at t' output lookup' path input"
  shows "\<not> (eval_condition t' output lookup' (tc_when (tr_cases tr ! i)) = Inr True \<and>
    eval_condition t' output lookup' (tc_when (tr_cases tr ! j)) = Inr True)"
proof
  assume both: "eval_condition t' output lookup' (tc_when (tr_cases tr ! i)) = Inr True \<and>
    eval_condition t' output lookup' (tc_when (tr_cases tr ! j)) = Inr True"
  obtain v where v: "found_at t' output lookup' path input v" using assms(10) by (auto simp: readable_at_def)
  have mem: "tr_cases tr ! i \<in> set (tr_cases tr)" "tr_cases tr ! j \<in> set (tr_cases tr)" using assms(6,7) by auto
  obtain l1 l2 where chk: "check_condition jt t lookup l1 (tc_when (tr_cases tr ! i)) = Inr ()"
    "check_condition jt t lookup l2 (tc_when (tr_cases tr ! j)) = Inr ()"
    using check_transitions_case [OF assms(1,3,4) mem(1)] check_transitions_case [OF assms(1,3,4) mem(2)] by blast
  have "v \<in> set va" "v \<in> set vb"
    using value_set_holds [OF assms(8) chk(1) assms(2) v] value_set_holds [OF assms(9) chk(2) assms(2) v] both by auto
  then have "list_ex (\<lambda>x. list_ex (typed_eq x) vb) va"
    unfolding list_ex_iff by (intro bexI [of _ v]) auto
  then have "cases_overlap t lookup (tc_when (tr_cases tr ! i)) (tc_when (tr_cases tr ! j))"
    using assms(8,9) by (simp add: cases_overlap_def)
  moreover have "\<not> cases_overlap t lookup (tc_when (tr_cases tr ! i)) (tc_when (tr_cases tr ! j))"
    using check_transitions_overlap [OF assms(1,3,4,5,7)] assms(6)
    by (auto simp: case_overlap_def find_None_iff split: option.splits)
  ultimately show False by blast
qed

section \<open>Examples\<close>

definition count_cases :: transitions where
  "count_cases =
     \<lparr>tr_mode = Exclusive,
      tr_cases =
        [\<lparr>tc_when = Compare \<lparr>cp_path = ''/count'', cp_op = CmpEq, cp_value = JNum (PosInt 7), cp_input = None\<rparr>, tc_to = [''x'']\<rparr>,
         \<lparr>tc_when = InSet \<lparr>mb_path = ''/count'', mb_values = [JNum (PosInt 8), JNum (PosInt 9)], mb_input = None\<rparr>, tc_to = [''y'']\<rparr>],
      tr_otherwise = Some [''z''], tr_no_match = False\<rparr>"

definition router_contract :: task_contract where
  "router_contract = sample_contract\<lparr>tk_output := Some maker_schema, tk_transitions := Some count_cases\<rparr>"

definition router :: task where
  "router = (maker sample_output)\<lparr>t_contract := Some router_contract\<rparr>"

definition router_graph :: "task list" where
  "router_graph = map (\<lambda>i. sample_task i []) [''x'', ''y'', ''z'']"

lemma router_facts:
  "check_transitions short_text router [] router_graph (\<lambda>_. None) = Inr ()"
  "same_types router (\<lambda>_. None) router (\<lambda>_. None)"
  "t_contract router = Some router_contract" "tk_transitions router_contract = Some count_cases"
     apply code_simp
    apply (simp_all add: same_types_def router_def router_contract_def)
  done

lemma router_readable: "readable_at router sample_output (\<lambda>_. None) ''/count'' None"
proof -
  have "typed_value_of [] maker_schema (to_wire sample_output) = Inr sample_output"
    "pointer_tokens ''/count'' = Inr [''count'']" "walk_typed sample_output [''count''] = Some (TVInt64 7)" by code_simp+
  moreover have "output_schema_of router = ([], maker_schema)"
    by (simp add: router_def router_contract_def output_schema_of_def output_schema_def sample_contract_def)
  ultimately show ?thesis by (fastforce simp: readable_at_def found_at_def operand_base_def)
qed

theorem checked_route_decided_witness:
  "\<exists>d. decide_route router (\<lambda>_. None) = Inr (Some d) \<and> rd_matched d = [0] \<and> set (rd_selected d) = {''x''}"
proof -
  obtain r where r: "t_typed_result router = Some r" "tr_has_output r" "tr_output r = sample_output"
    by (auto simp: router_def maker_def)
  have cases: "\<forall>k \<in> set (tr_cases count_cases). \<forall>(path, input) \<in> set (places (tc_when k)).
      readable_at router (tr_output r) (\<lambda>_. None) path input"
    using router_readable by (simp add: count_cases_def r(3))
  have hits: "filter (\<lambda>i. eval_condition router sample_output (\<lambda>_. None) (tc_when (tr_cases count_cases ! i)) = Inr True)
      [0..<length (tr_cases count_cases)] = [0]" by code_simp
  have x: "tc_to (tr_cases count_cases ! 0) = [''x'']" "tr_mode count_cases = Exclusive"
    by (simp_all add: count_cases_def)
  show ?thesis
    using checked_route_decided [OF router_facts(1,2) refl router_facts(3,4) r(1,2) cases]
    unfolding Let_def r(3) hits by (auto simp: x)
qed

theorem exclusive_cases_disjoint_witness:
  "\<not> (eval_condition router sample_output (\<lambda>_. None) (tc_when (tr_cases count_cases ! 0)) = Inr True \<and>
     eval_condition router sample_output (\<lambda>_. None) (tc_when (tr_cases count_cases ! 1)) = Inr True)"
proof (rule exclusive_cases_disjoint [OF router_facts(1,2,3,4) _ _ _ _ _ router_readable])
  show "tr_mode count_cases = Exclusive" "(0 :: nat) < 1" "1 < length (tr_cases count_cases)"
    by (simp_all add: count_cases_def)
  show "value_set router (\<lambda>_. None) (tc_when (tr_cases count_cases ! 0)) = Some (None, ''/count'', [TVInt64 7])"
    "value_set router (\<lambda>_. None) (tc_when (tr_cases count_cases ! 1)) = Some (None, ''/count'', [TVInt64 8, TVInt64 9])"
    by code_simp+
qed

end
