(* ===== verification/Task_Report.thy ===== *)
theory Task_Report
  imports Task_Attempt
begin

text \<open>
  What is shown of a task (the rest of \<open>task/report.rs\<close>): \<open>project_auto\<close> over its record, \<open>project_task\<close>
  over its record, the notes of its attempts and the projections kept when an attempt was closed.
\<close>

section \<open>The JSON forms that are shown\<close>

definition jopt :: "('a \<Rightarrow> json) \<Rightarrow> 'a option \<Rightarrow> json" where
  "jopt f o' = (case o' of None \<Rightarrow> JNull | Some x \<Rightarrow> f x)"

fun state_json :: "(message \<Rightarrow> string) \<Rightarrow> task_state \<Rightarrow> json" where
  "state_json render (Failed e) =
     jstruct [(''kind'', Some (JStr ''failed'')), (''error'', Some (JStr (render e)))]"
| "state_json render (Unknown reason) =
     jstruct [(''kind'', Some (JStr ''unknown'')), (''reason'', map_option (\<lambda>r. JStr (render r)) reason)]"
| "state_json render s = jstruct [(''kind'', Some (JStr (state_name s)))]"

fun skip_json :: "skip_reason \<Rightarrow> json" where
  "skip_json BranchNotSelected = jstruct [(''reason'', Some (JStr ''branch_not_selected''))]"
| "skip_json (UpstreamUnavailable source st) =
     jstruct [(''reason'', Some (JStr ''upstream_unavailable'')), (''source'', Some (JStr source)),
              (''source_state'', Some (JStr st))]"

fun stage_name :: "failure_stage \<Rightarrow> string" where
  "stage_name StageInput = ''input''"
| "stage_name StageExecution = ''execution''"
| "stage_name StagePostprocess = ''postprocess''"
| "stage_name StageOutput = ''output_validation''"
| "stage_name StagePersistence = ''persistence''"
| "stage_name StageRoute = ''route''"

fun strategy_kind :: "reducer_strategy \<Rightarrow> string" where
  "strategy_kind FirstSuccess = ''first_success''"
| "strategy_kind ReduceAll = ''all''"
| "strategy_kind MergeJson = ''merge_json''"
| "strategy_kind ConcatText = ''concat_text''"
| "strategy_kind (ReduceCustom _) = ''custom''"

definition entry_json :: "report_entry \<Rightarrow> json" where
  "entry_json e = jstruct
     [(''seq'', Some (ju64 (en_seq e))), (''at'', Some (ju64 (en_at e))),
      (''source'', Some (JStr (source_name (en_source e)))), (''text'', Some (JStr (en_text e))),
      (''omit_by_limit'', map_option ju64 (en_omitted e))]"

section \<open>The projection of a task\<close>

text \<open>What the kind of the command adds.\<close>

definition auto_detail :: "task \<Rightarrow> (string \<times> json option) list" where
  "auto_detail t =
     (case t_command t of
        Run _ _ _ \<Rightarrow>
          let exit = (case Option.bind (t_typed_result t) (\<lambda>r. rw_exit (tr_raw r)) of
                        Some c \<Rightarrow> Some c
                      | None \<Rightarrow> Option.bind (t_result t) res_exit)
          in [(''exit_code'', Some (jopt (\<lambda>c. JNum (num_of_i64 c)) exit))]
      | AgentTurn provider _ _ _ _ \<Rightarrow>
          let link = Option.bind (t_attempt t) at_agent
          in [(''provider'', Some (JStr (case link of None \<Rightarrow> provider | Some l \<Rightarrow> al_provider l))),
              (''surface_id'', Some (jopt (\<lambda>l. ju32 (al_surface l)) link))]
      | Custom method _ _ \<Rightarrow> [(''ipc_method'', Some (JStr method))]
      | Reduce inputs strategy \<Rightarrow>
          [(''strategy'', Some (JStr (strategy_kind strategy))),
           (''input_count'', Some (JNum (PosInt (of_nat (length inputs)))))]
      | WaitBarrier _ \<Rightarrow> [(''barrier'', Some (jopt JStr (barrier_name t)))])"

definition auto_raw :: "task \<Rightarrow> json" where
  "auto_raw t =
     (let execution = (case Option.bind (t_typed_result t) (\<lambda>r. rw_execution (tr_raw r)) of
                         Some v \<Rightarrow> Some v
                       | None \<Rightarrow> Option.bind (t_result t) res_output);
          stream = (\<lambda>name. Some (case Option.bind execution (\<lambda>e. jget e name) of None \<Rightarrow> JNull | Some v \<Rightarrow> v))
      in jstruct [(''stdout'', stream ''stdout''), (''stderr'', stream ''stderr'')])"

definition auto_output :: "task \<Rightarrow> json" where
  "auto_output t =
     (case t_typed_result t of
        Some r \<Rightarrow> if tr_has_output r then to_wire (tr_output r) else JNull
      | None \<Rightarrow> (case Option.bind (t_result t) res_output of None \<Rightarrow> JNull | Some v \<Rightarrow> v))"

definition project_auto :: "(message \<Rightarrow> string) \<Rightarrow> task \<Rightarrow> bool \<Rightarrow> json" where
  "project_auto render t include_raw = jstruct
     ([(''kind'', Some (JStr (command_kind (t_command t)))),
       (''state'', Some (state_json render (t_state t))),
       (''started_at'', Some (jopt ju64 (t_started t))),
       (''finished_at'', Some (jopt ju64 (t_finished t))),
       (''input'', Some (jopt (\<lambda>s. to_wire (is_value s)) (t_snapshot t))),
       (''output'', Some (auto_output t)),
       (''failure'', Some (jopt (\<lambda>e. jstruct
          [(''stage'', Some (JStr (stage_name (tf_stage e)))), (''location'', Some (jopt JStr (tf_location e))),
           (''message'', Some (JStr (render (tf_message e))))]) (Option.bind (t_typed_result t) tr_error))),
       (''skip'', Some (jopt skip_json (t_skip t)))]
      @ auto_detail t
      @ (if include_raw then [(''raw'', Some (auto_raw t))] else []))"

definition without_raw :: "json \<Rightarrow> bool \<Rightarrow> json" where
  "without_raw auto include_raw =
     (case auto of
        JObj m \<Rightarrow> if include_raw then auto else JObj (filter (\<lambda>(k, _). k \<noteq> ''raw'') m)
      | _ \<Rightarrow> auto)"

section \<open>The projection of its attempts\<close>

definition sealed_view :: "(u32 \<times> json) list \<Rightarrow> bool \<Rightarrow> u32 \<Rightarrow> json" where
  "sealed_view sealed include_raw n =
     (case find (\<lambda>(a, _). a = n) sealed of None \<Rightarrow> JNull | Some (_, v) \<Rightarrow> without_raw v include_raw)"

text \<open>The attempt the record still speaks for: one with a kept projection is closed.\<close>

definition open_attempt :: "task \<Rightarrow> (u32 \<times> json) list \<Rightarrow> u32 option" where
  "open_attempt t sealed =
     (case current_attempt t of
        None \<Rightarrow> None
      | Some n \<Rightarrow> if n \<in> fst ` set sealed then None else Some n)"

definition attempt_view ::
  "(message \<Rightarrow> string) \<Rightarrow> task \<Rightarrow> report_block list \<Rightarrow> (u32 \<times> json) list \<Rightarrow> bool \<Rightarrow> u32 \<Rightarrow> json" where
  "attempt_view render t blocks sealed include_raw n =
     (let current = open_attempt t sealed;
          block = find (\<lambda>b. rb_attempt b = n) blocks;
          st = (if Some n = current then Some (t_state t) else Option.bind block rb_settled)
      in jstruct
        ([(''attempt'', Some (ju32 n)),
          (''state'', Some (jopt (state_json render) st)),
          (''custom'', Some (jstruct
             (case block of
                None \<Rightarrow> [(''entries'', Some (JArr [])), (''omitted_appends'', Some (ju64 0))]
              | Some b \<Rightarrow> [(''entries'', Some (JArr (map entry_json (rb_entries b)))),
                           (''omitted_appends'', Some (ju64 (rb_omitted b)))])))]
         @ (if Some n \<noteq> current then [(''auto'', Some (sealed_view sealed include_raw n))] else [])))"

definition attempt_numbers :: "task \<Rightarrow> report_block list \<Rightarrow> (u32 \<times> json) list \<Rightarrow> u32 list" where
  "attempt_numbers t blocks sealed =
     remdups (sort (map rb_attempt blocks @ map fst sealed @
       (case open_attempt t sealed of Some n \<Rightarrow> if t_state t = Skipped then [] else [n] | None \<Rightarrow> [])))"

definition project_task ::
  "(message \<Rightarrow> string) \<Rightarrow> task \<Rightarrow> report_block list \<Rightarrow> (u32 \<times> json) list \<Rightarrow> u32 option \<Rightarrow> bool \<Rightarrow> json" where
  "project_task render t blocks sealed attempt include_raw =
     (let auto = (case attempt of
                    Some n \<Rightarrow> if Some n \<noteq> open_attempt t sealed then sealed_view sealed include_raw n
                              else project_auto render t include_raw
                  | None \<Rightarrow> project_auto render t include_raw);
          numbers = filter (\<lambda>n. case attempt of None \<Rightarrow> True | Some a \<Rightarrow> a = n) (attempt_numbers t blocks sealed)
      in jstruct
        [(''task_id'', Some (JStr (t_id t))), (''name'', Some (JStr (t_name t))), (''auto'', Some auto),
         (''attempts'', Some (JArr (map (attempt_view render t blocks sealed include_raw) numbers)))])"

end
