(* ===== verification/Task_Records.thy ===== *)
theory Task_Records
  imports Task_Report Task_Graph Task_Conditions Task_Check
begin

text \<open>
  How a task is kept (\<open>task/store.rs\<close>, \<open>task/terminal.rs\<close>, \<open>task/record_limit.rs\<close>, \<open>task/store/report.rs\<close>):
  one record per task in the memory store, a notice
  written with the record of a task that ends, the notes of its attempts under keys of their own.

  What the code takes from outside is the environment: the JSON forms that serde derives for a task
  and a block of notes, the printing of a message, \<open>Value::pointer\<close>, the orders in which hash tables are
  listed, the identifiers that \<open>Uuid::new_v4\<close> draws and \<open>Uuid::parse_str\<close> accepts, the plugins the host knows.
\<close>

section \<open>The store and its environment\<close>

record task_env =
  ev_owner :: string
  ev_tasks :: "task list \<Rightarrow> task list"
  ev_ids :: "string list \<Rightarrow> string list"
  ev_enc :: "task \<Rightarrow> json"
  ev_dec :: "json \<Rightarrow> task option"
  ev_enc_block :: "report_block \<Rightarrow> json"
  ev_dec_block :: "json \<Rightarrow> report_block option"
  ev_plugins :: "string \<Rightarrow> provider_lookup"
  ev_render :: "message \<Rightarrow> string"
  ev_ptr :: "json \<Rightarrow> string \<Rightarrow> json option"
  ev_uuid :: "nat \<Rightarrow> string"
  ev_uuid_ok :: "string \<Rightarrow> bool"

text \<open>\<open>seq\<close> is shared by the stores of a process; \<open>ts_drawn\<close> counts the identifiers drawn.\<close>

record task_store =
  ts_mem :: memory
  ts_seq :: u64
  ts_drawn :: nat

text \<open>
  An operation ends with an error of the crate, or does not end: \<open>Endless\<close> is what a loop with a
  bound gives when the bound is used up.
\<close>

datatype halted = Failing agent_error | Endless

type_synonym 'a store_op = "(task_store, halted, 'a) op"

definition on_mem :: "'a agent_op \<Rightarrow> 'a store_op" where
  "on_mem f s = (case f (ts_mem s) of (r, m) \<Rightarrow> (map_err Failing r, s\<lparr>ts_mem := m\<rparr>))"

definition read_mem :: "(memory \<Rightarrow> agent_error + 'a) \<Rightarrow> 'a store_op" where
  "read_mem f s = (map_err Failing (f (ts_mem s)), s)"

definition pure_of :: "agent_error + 'a \<Rightarrow> 'a store_op" where
  "pure_of r s = (map_err Failing r, s)"

abbreviation refuse :: "agent_error \<Rightarrow> 'a store_op" where
  "refuse e \<equiv> fail (Failing e)"

section \<open>Keys\<close>

definition task_prefix :: string where "task_prefix = ''tasty.agent.task.''"
definition typed_task_prefix :: string where "typed_task_prefix = ''tasty.agent.typed_task.''"
definition task_graph_prefix :: string where "task_graph_prefix = ''tasty.agent.task_graph.''"
definition terminal_prefix :: string where "terminal_prefix = ''tasty.agent.terminal.''"

definition task_key :: "string \<Rightarrow> agent_error + string" where
  "task_key tid = agent_key task_prefix ''task id'' tid"

definition typed_task_key :: "string \<Rightarrow> agent_error + string" where
  "typed_task_key tid = agent_key typed_task_prefix ''task id'' tid"

definition graph_key :: "string \<Rightarrow> agent_error + string" where
  "graph_key gid = agent_key task_graph_prefix ''graph id'' gid"

section \<open>Reading records\<close>

definition record_format :: string where "record_format = ''tasty.task/v2''"

definition decode_v1_record :: "task_env \<Rightarrow> mem_value \<Rightarrow> string \<Rightarrow> agent_error + task" where
  "decode_v1_record env v label =
     (case v of
        Json j \<Rightarrow>
          (case ev_dec env j of
             None \<Rightarrow> Inl SerdeErr
           | Some t \<Rightarrow>
               if is_typed t
               then Inl (invalid (''task entry '' @ label @ '' carries a v2 contract in the v1 namespace''))
               else Inr t)
      | _ \<Rightarrow> Inl (invalid (''task entry is not json: '' @ label)))"

definition decode_typed_record :: "task_env \<Rightarrow> mem_value \<Rightarrow> string \<Rightarrow> agent_error + task" where
  "decode_typed_record env v label =
     (case v of
        Json j \<Rightarrow>
          (let format = Option.bind (jget j ''record_format'') as_str in
           if format \<noteq> Some record_format
           then Inl (InvalidArgument (ArgMessage
                  [Lit (''typed task entry '' @ label @ '' has unsupported record_format ''), DebuggedText format,
                   Lit ('' (supported: '' @ record_format @ '')'')]))
           else (case ev_dec env (case jget j ''task'' of None \<Rightarrow> JNull | Some x \<Rightarrow> x) of
               None \<Rightarrow> Inl SerdeErr
             | Some t \<Rightarrow>
                 if is_typed t then Inr t
                 else Inl (invalid (''typed task entry '' @ label @ '' has no contract''))))
      | _ \<Rightarrow> Inl (invalid (''typed task entry is not json: '' @ label)))"

definition mem_entry_at :: "memory \<Rightarrow> u32 \<Rightarrow> string \<Rightarrow> agent_error + mem_entry option" where
  "mem_entry_at m ws key = map_err MemoryErr (mem_get m (Workspace ws) key)"

definition read_record :: "task_env \<Rightarrow> memory \<Rightarrow> u32 \<Rightarrow> string \<Rightarrow> agent_error + (task \<times> nat) option" where
  "read_record env m ws tid =
     sbind (task_key tid) (\<lambda>k1.
     sbind (mem_entry_at m ws k1) (\<lambda>o1.
     case o1 of
       Some e \<Rightarrow> sbind (decode_v1_record env (e_value e) tid) (\<lambda>t. Inr (Some (t, e_version e)))
     | None \<Rightarrow>
         sbind (typed_task_key tid) (\<lambda>k2.
         sbind (mem_entry_at m ws k2) (\<lambda>o2.
         case o2 of
           Some e \<Rightarrow> sbind (decode_typed_record env (e_value e) tid) (\<lambda>t. Inr (Some (t, e_version e)))
         | None \<Rightarrow> Inr None))))"

definition task_get :: "task_env \<Rightarrow> memory \<Rightarrow> u32 \<Rightarrow> string \<Rightarrow> agent_error + task option" where
  "task_get env m ws tid = sbind (read_record env m ws tid) (\<lambda>o'. Inr (map_option fst o'))"

definition revision :: "memory \<Rightarrow> u32 \<Rightarrow> string \<Rightarrow> agent_error + nat option" where
  "revision m ws tid =
     sbind (task_key tid) (\<lambda>k1.
     sbind (mem_entry_at m ws k1) (\<lambda>o1.
     case o1 of
       Some e \<Rightarrow> Inr (Some (e_version e))
     | None \<Rightarrow>
         sbind (typed_task_key tid) (\<lambda>k2.
         sbind (mem_entry_at m ws k2) (\<lambda>o2. Inr (map_option e_version o2)))))"

definition list_prefix :: "memory \<Rightarrow> u32 \<Rightarrow> string \<Rightarrow> agent_error + mem_entry list" where
  "list_prefix m ws p = map_err MemoryErr (mem_list m (Workspace ws) (default_list\<lparr>lo_prefix := Some p\<rparr>))"

fun is_json :: "mem_value \<Rightarrow> bool" where
  "is_json (Json _) \<longleftrightarrow> True"
| "is_json _ \<longleftrightarrow> False"

definition task_list :: "task_env \<Rightarrow> memory \<Rightarrow> u32 \<Rightarrow> agent_error + task list" where
  "task_list env m ws =
     sbind (list_prefix m ws task_prefix) (\<lambda>v1.
     sbind (list_prefix m ws typed_task_prefix) (\<lambda>v2.
     sbind (collect (\<lambda>e. decode_v1_record env (e_value e) (e_key e)) (filter (\<lambda>e. is_json (e_value e)) v1)) (\<lambda>ts1.
     sbind (collect (\<lambda>e. decode_typed_record env (e_value e) (e_key e)) v2) (\<lambda>ts2.
       Inr (ts1 @ ts2)))))"

text \<open>The first step of most operations: the task, or \<open>TaskNotFound\<close>.\<close>

definition need_task :: "task_env \<Rightarrow> u32 \<Rightarrow> string \<Rightarrow> task store_op" where
  "need_task env ws tid =
     bnd (read_mem (\<lambda>m. task_get env m ws tid)) (\<lambda>o'.
     case o' of None \<Rightarrow> refuse (TaskNotFound tid) | Some t \<Rightarrow> ret t)"

section \<open>Notices of tasks that ended\<close>

record terminal_task =
  tt_id :: string
  tt_workspace :: u32
  tt_created :: u64
  tt_state :: task_state
  tt_result :: "task_result option"
  tt_attempt :: "string option"
  tt_skip :: "skip_reason option"

record terminal_notice =
  tn_schema :: u32
  tn_id :: string
  tn_task :: terminal_task
  tn_revision :: u64

definition terminal_task_of :: "task \<Rightarrow> terminal_task" where
  "terminal_task_of t =
     \<lparr>tt_id = t_id t, tt_workspace = t_workspace t, tt_created = t_created t, tt_state = t_state t,
      tt_result = t_result t, tt_attempt = map_option at_id (t_attempt t), tt_skip = t_skip t\<rparr>"

definition terminal_task_json :: "(message \<Rightarrow> string) \<Rightarrow> terminal_task \<Rightarrow> json" where
  "terminal_task_json render t = jstruct
     [(''id'', Some (JStr (tt_id t))), (''workspace_id'', Some (ju32 (tt_workspace t))),
      (''created_at'', Some (ju64 (tt_created t))), (''state'', Some (state_json render (tt_state t))),
      (''result'', Some (jopt (result_json render) (tt_result t))),
      (''attempt'', Some (jopt (\<lambda>a. jstruct [(''id'', Some (JStr a))]) (tt_attempt t))),
      (''skip'', Some (jopt skip_json (tt_skip t)))]"

definition notice_json :: "(message \<Rightarrow> string) \<Rightarrow> terminal_notice \<Rightarrow> json" where
  "notice_json render n = jstruct
     [(''schema'', Some (ju32 (tn_schema n))), (''id'', Some (JStr (tn_id n))),
      (''task'', Some (terminal_task_json render (tn_task n))), (''revision'', Some (ju64 (tn_revision n)))]"

text \<open>The record and the notice in one atomic batch.\<close>

definition put_terminal :: "task_env \<Rightarrow> u32 \<Rightarrow> string \<Rightarrow> json \<Rightarrow> task \<Rightarrow> nat \<Rightarrow> unit store_op" where
  "put_terminal env ws key v t rv s =
     (let nid = ev_uuid env (ts_drawn s);
          notice = \<lparr>tn_schema = 1, tn_id = nid, tn_task = terminal_task_of t, tn_revision = of_nat rv\<rparr>;
          put = (\<lambda>k j. Put (ev_owner env) (Workspace ws) k (Json j) default_put);
          (r, m) = write_batch Atomic
            [put key v, put (terminal_prefix @ nid) (notice_json (ev_render env) notice)] (ts_mem s);
          s' = s\<lparr>ts_mem := m, ts_drawn := Suc (ts_drawn s)\<rparr>
      in case r of
           Inl f \<Rightarrow> (Inl (Failing (MemoryErr (bf_error f))), s')
         | Inr outs \<Rightarrow>
             (case collect (\<lambda>o'. o') outs of
                Inl e \<Rightarrow> (Inl (Failing (MemoryErr e)), s')
              | Inr _ \<Rightarrow> (Inr (), s')))"

text \<open>Reading a notice back. A text that serde reads is the message of that text.\<close>

definition un_i32 :: "json \<Rightarrow> int option" where
  "un_i32 v =
     (case v of
        JNum (PosInt n) \<Rightarrow> if unat n < 2 ^ 31 then Some (int (unat n)) else None
      | JNum (NegInt i) \<Rightarrow> if - (2 ^ 31) \<le> i then Some i else None
      | _ \<Rightarrow> None)"

definition un_state :: "json \<Rightarrow> task_state option" where
  "un_state v =
     Option.bind (req_field un_str v ''kind'') (\<lambda>k.
       if k = ''failed'' then map_option (\<lambda>e. Failed (msg e)) (req_field un_str v ''error'')
       else if k = ''unknown'' then map_option (\<lambda>r. Unknown (map_option msg r)) (opt_field un_str v ''reason'')
       else find (\<lambda>s. state_name s = k) [Waiting, Ready, Running, Succeeded, Cancelled, Skipped])"

definition un_skip :: "json \<Rightarrow> skip_reason option" where
  "un_skip v =
     Option.bind (req_field un_str v ''reason'') (\<lambda>k.
       if k = ''branch_not_selected'' then Some BranchNotSelected
       else if k = ''upstream_unavailable''
       then Option.bind (req_field un_str v ''source'') (\<lambda>source.
            map_option (UpstreamUnavailable source) (req_field un_str v ''source_state''))
       else None)"

definition un_result :: "json \<Rightarrow> task_result option" where
  "un_result v =
     (if \<not> is_object v then None
      else Option.bind (opt_field un_i32 v ''exit_code'') (\<lambda>code.
           Option.bind (opt_field Some v ''output'') (\<lambda>output.
           Option.bind (opt_field un_str v ''error'') (\<lambda>error.
             Some \<lparr>res_exit = code, res_output = output, res_error = map_option msg error\<rparr>))))"

definition un_terminal_task :: "json \<Rightarrow> terminal_task option" where
  "un_terminal_task v =
     Option.bind (req_field un_str v ''id'') (\<lambda>tid.
     Option.bind (req_field un_u32 v ''workspace_id'') (\<lambda>ws.
     Option.bind (req_field un_u64 v ''created_at'') (\<lambda>created.
     Option.bind (req_field un_state v ''state'') (\<lambda>st.
     Option.bind (opt_field un_result v ''result'') (\<lambda>result.
     Option.bind (opt_field (\<lambda>a. req_field un_str a ''id'') v ''attempt'') (\<lambda>att.
     Option.bind (opt_field un_skip v ''skip'') (\<lambda>skip.
       Some \<lparr>tt_id = tid, tt_workspace = ws, tt_created = created, tt_state = st, tt_result = result,
             tt_attempt = att, tt_skip = skip\<rparr>)))))))"

definition un_notice :: "json \<Rightarrow> terminal_notice option" where
  "un_notice v =
     (case as_object v of
        None \<Rightarrow> None
      | Some m \<Rightarrow>
          if \<not> fst ` set m \<subseteq> {''schema'', ''id'', ''task'', ''revision''} then None
          else Option.bind (req_field un_u32 v ''schema'') (\<lambda>schema.
               Option.bind (req_field un_str v ''id'') (\<lambda>nid.
               Option.bind (req_field un_terminal_task v ''task'') (\<lambda>t.
               Option.bind (req_field un_u64 v ''revision'') (\<lambda>rv.
                 Some \<lparr>tn_schema = schema, tn_id = nid, tn_task = t, tn_revision = rv\<rparr>)))))"

definition pending_notice :: "task_env \<Rightarrow> u32 \<Rightarrow> mem_entry \<Rightarrow> agent_error + terminal_notice" where
  "pending_notice env ws e =
     (case e_value e of
        Json v \<Rightarrow>
          (case un_notice v of
             None \<Rightarrow> Inl SerdeErr
           | Some n \<Rightarrow>
               if tn_schema n \<noteq> 1 \<or> \<not> is_terminal (tt_state (tn_task n)) \<or> tt_workspace (tn_task n) \<noteq> ws
                  \<or> tn_revision n = 0 \<or> \<not> ev_uuid_ok env (tn_id n) \<or> e_key e \<noteq> terminal_prefix @ tn_id n
               then Inl (invalid ''invalid terminal notice schema or identity'')
               else Inr n)
      | _ \<Rightarrow> Inl (invalid ''invalid terminal notice value''))"

definition pending :: "task_env \<Rightarrow> memory \<Rightarrow> u32 \<Rightarrow> agent_error + terminal_notice list" where
  "pending env m ws = sbind (list_prefix m ws terminal_prefix) (collect (pending_notice env ws))"

definition acknowledge :: "string \<Rightarrow> u32 \<Rightarrow> string \<Rightarrow> (memory, mem_error, unit) op" where
  "acknowledge owner ws nid =
     (let key = terminal_prefix @ nid in
      bnd (reads (\<lambda>m. mem_get m (Workspace ws) key)) (\<lambda>found.
        if found \<noteq> None then mem_delete owner (Workspace ws) key None else ret ()))"

section \<open>Writing and deleting records\<close>

definition task_slot :: "task_env \<Rightarrow> task \<Rightarrow> agent_error + string \<times> json" where
  "task_slot env t =
     (if is_typed t
      then sbind (typed_task_key (t_id t)) (\<lambda>k. Inr (k, jstruct
             [(''record_format'', Some (JStr record_format)), (''task'', Some (ev_enc env t))]))
      else sbind (task_key (t_id t)) (\<lambda>k. Inr (k, ev_enc env t)))"

definition task_put :: "task_env \<Rightarrow> task \<Rightarrow> unit store_op" where
  "task_put env t =
     (let ws = t_workspace t in
      bnd (pure_of (task_slot env t)) (\<lambda>(key, v).
      bnd (if is_terminal (t_state t)
           then read_mem (\<lambda>m. sbind (task_get env m ws (t_id t)) (\<lambda>old.
                  Inr (case old of None \<Rightarrow> True | Some o' \<Rightarrow> \<not> is_terminal (t_state o'))))
           else ret False) (\<lambda>ends.
      if ends
      then bnd (read_mem (\<lambda>m. revision m ws (t_id t))) (\<lambda>rv.
             put_terminal env ws key v t (Suc (case rv of None \<Rightarrow> 0 | Some n \<Rightarrow> n)))
      else on_mem (kv_put (ev_owner env) ws key v))))"

section \<open>The size of a record\<close>

definition max_record_bytes :: nat where "max_record_bytes = 768 * 1024"
definition result_room_bytes :: nat where "result_room_bytes = 256 * 1024"
definition min_record_bytes :: nat where "min_record_bytes = 64 * 1024"

definition limit_for :: "nat \<Rightarrow> nat" where
  "limit_for entry_max = max min_record_bytes (min max_record_bytes (entry_max - result_room_bytes))"

definition leaves_no_result_room :: "nat \<Rightarrow> bool" where
  "leaves_no_result_room entry_max \<longleftrightarrow> entry_max - result_room_bytes < min_record_bytes"

definition refused_to_start :: string where
  "refused_to_start = ''task record too large: the definition leaves no room for a result''"

definition record_limit :: "memory \<Rightarrow> nat" where
  "record_limit m = limit_for (entry_max_bytes (m_config m))"

definition record_size :: "task_env \<Rightarrow> memory \<Rightarrow> task \<Rightarrow> nat" where
  "record_size env m t = (case jt_print (m_text m) (ev_enc env t) of None \<Rightarrow> 2 ^ 64 - 1 | Some b \<Rightarrow> length b)"

definition check_record :: "task_env \<Rightarrow> memory \<Rightarrow> task \<Rightarrow> string \<Rightarrow> string + unit" where
  "check_record env m t what =
     (if record_size env m t \<le> record_limit m then Inr ()
      else Inl (''task record too large: task '' @ t_id t @ '': '' @ what @ '' makes the task record '' @
             show_nat (record_size env m t) @ '' bytes, over the '' @ show_nat (record_limit m) @
             '' byte limit for a task before its result; keep large data out of the task (store it elsewhere '' @
             ''and pass a reference)''))"

section \<open>The notes of the attempts\<close>

definition report_block_at :: "task_env \<Rightarrow> memory \<Rightarrow> u32 \<Rightarrow> string \<Rightarrow> u32 \<Rightarrow> agent_error + report_block option" where
  "report_block_at env m ws tid n =
     sbind (report_key tid n) (\<lambda>key.
     sbind (mem_entry_at m ws key) (\<lambda>o'.
     case o' of
       None \<Rightarrow> Inr None
     | Some e \<Rightarrow>
         (case e_value e of
            Json v \<Rightarrow> (case ev_dec_block env v of None \<Rightarrow> Inl SerdeErr | Some b \<Rightarrow> Inr (Some b))
          | _ \<Rightarrow> Inl (invalid (''report block '' @ key @ '' is not json'')))))"

definition attempt_range :: "task \<Rightarrow> u32 list" where
  "attempt_range t = map of_nat [1..<Suc (unat (max_attempt t))]"

definition report_blocks :: "task_env \<Rightarrow> memory \<Rightarrow> task \<Rightarrow> agent_error + report_block list" where
  "report_blocks env m t =
     sbind (collect (report_block_at env m (t_workspace t) (t_id t)) (attempt_range t)) (\<lambda>os.
       Inr (List.map_filter (\<lambda>o'. o') os))"

definition sealed_autos :: "memory \<Rightarrow> task \<Rightarrow> agent_error + (u32 \<times> json) list" where
  "sealed_autos m t =
     sbind (collect (\<lambda>n. sbind (report_auto_key (t_id t) n) (\<lambda>key.
         sbind (mem_entry_at m (t_workspace t) key) (\<lambda>o'.
           Inr (case o' of None \<Rightarrow> None | Some e \<Rightarrow> (case e_value e of Json v \<Rightarrow> Some (n, v) | _ \<Rightarrow> None)))))
       (attempt_range t)) (\<lambda>os. Inr (List.map_filter (\<lambda>o'. o') os))"

definition put_report_block :: "task_env \<Rightarrow> u32 \<Rightarrow> string \<Rightarrow> report_block \<Rightarrow> unit store_op" where
  "put_report_block env ws tid b =
     bnd (pure_of (report_key tid (rb_attempt b))) (\<lambda>key. on_mem (kv_put (ev_owner env) ws key (ev_enc_block env b)))"

definition settle_report_block :: "task_env \<Rightarrow> task \<Rightarrow> unit store_op" where
  "settle_report_block env t =
     (case current_attempt t of
        None \<Rightarrow> ret ()
      | Some n \<Rightarrow>
          if t_state t = Skipped \<or> check_report_key_room (t_id t) \<noteq> Inr () then ret ()
          else bnd (read_mem (\<lambda>m. report_block_at env m (t_workspace t) (t_id t) n)) (\<lambda>found.
            let b = (case found of None \<Rightarrow> new_block n | Some b \<Rightarrow> b) in
            if rb_settled b \<noteq> None then ret ()
            else bnd (pure_of (report_auto_key (t_id t) n)) (\<lambda>key.
                 bnd (on_mem (kv_put (ev_owner env) (t_workspace t) key (project_auto (ev_render env) t True))) (\<lambda>_.
                   put_report_block env (t_workspace t) (t_id t) (b\<lparr>rb_settled := Some (t_state t)\<rparr>)))))"

text \<open>A value that is there is deleted.\<close>

definition delete_if_there :: "task_env \<Rightarrow> u32 \<Rightarrow> string \<Rightarrow> unit store_op" where
  "delete_if_there env ws key =
     bnd (read_mem (\<lambda>m. mem_entry_at m ws key)) (\<lambda>o'.
       if o' \<noteq> None then on_mem (kv_delete (ev_owner env) ws key) else ret ())"

fun each_op :: "('a \<Rightarrow> unit store_op) \<Rightarrow> 'a list \<Rightarrow> unit store_op" where
  "each_op f [] = ret ()"
| "each_op f (x # xs) = bnd (f x) (\<lambda>_. each_op f xs)"

definition delete_report_blocks :: "task_env \<Rightarrow> task \<Rightarrow> unit store_op" where
  "delete_report_blocks env t =
     (if check_report_key_room (t_id t) \<noteq> Inr () then ret ()
      else each_op (\<lambda>n.
        bnd (pure_of (report_key (t_id t) n)) (\<lambda>k1.
        bnd (pure_of (report_auto_key (t_id t) n)) (\<lambda>k2.
          each_op (delete_if_there env (t_workspace t)) [k1, k2]))) (attempt_range t))"

definition task_delete :: "task_env \<Rightarrow> u32 \<Rightarrow> string \<Rightarrow> unit store_op" where
  "task_delete env ws tid =
     bnd (pure_of (typed_task_key tid)) (\<lambda>k2.
     bnd (read_mem (\<lambda>m. mem_entry_at m ws k2)) (\<lambda>typed.
     bnd (if typed \<noteq> None
          then bnd (read_mem (\<lambda>m. task_get env m ws tid)) (\<lambda>o'.
               bnd (case o' of None \<Rightarrow> ret () | Some t \<Rightarrow> delete_report_blocks env t) (\<lambda>_. ret k2))
          else pure_of (task_key tid)) (\<lambda>key.
     on_mem (kv_delete (ev_owner env) ws key))))"

section \<open>Identifiers\<close>

text \<open>\<open>{n:06}\<close>.\<close>

definition pad6 :: "string \<Rightarrow> string" where
  "pad6 s = replicate (6 - length s) CHR ''0'' @ s"

definition numbered :: "char \<Rightarrow> u64 \<Rightarrow> u64 \<Rightarrow> string" where
  "numbered c now n = c # ''-'' @ show_nat (unat now) @ ''-'' @ pad6 (show_nat (unat n))"

text \<open>
  The loop that takes the next number until the identifier is unused. It is run at most once more
  than there are identifiers in use, which is enough as long as the numbers do not repeat.
\<close>

fun unused :: "nat \<Rightarrow> char \<Rightarrow> u64 \<Rightarrow> string list \<Rightarrow> string store_op" where
  "unused 0 c now used s = (Inl Endless, s)"
| "unused (Suc n) c now used s =
     (let i = numbered c now (ts_seq s); s' = s\<lparr>ts_seq := ts_seq s + 1\<rparr>
      in if i \<in> set used then unused n c now used s' else (Inr i, s'))"

definition unused_id :: "u64 \<Rightarrow> task list \<Rightarrow> string store_op" where
  "unused_id now existing = unused (Suc (length existing)) CHR ''t'' now (map t_id existing)"

definition unused_graph_id :: "u64 \<Rightarrow> task list \<Rightarrow> string store_op" where
  "unused_graph_id now existing =
     unused (Suc (length existing)) CHR ''g'' now (List.map_filter t_graph existing)"

end
