(* ===== verification/Task_Store.thy ===== *)
theory Task_Store
  imports Task_Records
begin

text \<open>
  The operations on stored tasks (\<open>task/store.rs\<close> and \<open>task/store/\<close>): creation, transitions and what
  they cause downstream, the completion of an attempt and of its post-processing, retry, the link to
  an agent session, the notes. Every operation reads and writes records of \<open>Task_Records\<close>.
\<close>

section \<open>Settling a task\<close>

text \<open>\<open>record_result\<close>: a typed task keeps the settled result and its projection.\<close>

definition record_result :: "json_text \<Rightarrow> task \<Rightarrow> task_result \<Rightarrow> task" where
  "record_result jt t r =
     (case t_contract t of
        None \<Rightarrow> t\<lparr>t_result := Some r\<rparr>
      | Some c \<Rightarrow>
          let typed0 = finalize_result jt t c r;
              typed = (case (res_error r, Option.bind (t_snapshot t) is_failure) of
                         (Some _, Some f) \<Rightarrow> typed0\<lparr>tr_error := Some f\<rparr>
                       | _ \<Rightarrow> typed0)
          in t\<lparr>t_result := Some (project_v1 typed), t_typed_result := Some typed, t_accepted := None\<rparr>)"

definition failure_result :: "task \<Rightarrow> task_failure \<Rightarrow> typed_result" where
  "failure_result t f =
     \<lparr>tr_has_output = False, tr_output = TVNull,
      tr_raw = \<lparr>rw_exit = None, rw_execution = None, rw_truncated = None, rw_postprocess = None,
        rw_accepted = (case t_accepted t of
            Some a \<Rightarrow> Some a
          | None \<Rightarrow> Option.bind (t_typed_result t) (\<lambda>r. rw_accepted (tr_raw r)))\<rparr>,
      tr_error = Some f,
      tr_provenance = \<lparr>pv_version = (case t_contract t of None \<Rightarrow> 0 | Some c \<Rightarrow> tk_version c),
        pv_kind = command_kind (t_command t), pv_source = ''none''\<rparr>\<rparr>"

definition set_failure_result :: "task \<Rightarrow> task_failure \<Rightarrow> task" where
  "set_failure_result t f =
     (let typed = failure_result t f
      in t\<lparr>t_accepted := None, t_result := Some (project_v1 typed), t_typed_result := Some typed\<rparr>)"

text \<open>The state a typed task ends in, and the task with the result that goes with it.\<close>

definition settle_typed_terminal :: "task \<Rightarrow> task_state \<Rightarrow> task_state \<times> task" where
  "settle_typed_terminal t requested =
     (if \<not> is_typed t then (requested, t)
      else case requested of
        Succeeded \<Rightarrow>
          (case t_typed_result t of
             Some r \<Rightarrow>
               if tr_has_output r \<and> tr_error r = None then (Succeeded, t)
               else (Failed (case tr_error r of Some f \<Rightarrow> tf_message f | None \<Rightarrow> msg ''no output was produced''), t)
           | None \<Rightarrow>
               let f = failure_new StagePersistence (msg ''no result was recorded before completion'')
               in (Failed (tf_message f), set_failure_result t f))
      | Failed e \<Rightarrow>
          (Failed e,
           if (case t_typed_result t of None \<Rightarrow> True | Some r \<Rightarrow> tr_error r = None)
           then set_failure_result t (failure_new StageExecution e) else t)
      | other \<Rightarrow> (other, t))"

definition task_lookup :: "task_env \<Rightarrow> memory \<Rightarrow> u32 \<Rightarrow> string \<Rightarrow> task option" where
  "task_lookup env m ws i = (case task_get env m ws i of Inr o' \<Rightarrow> o' | Inl _ \<Rightarrow> None)"

definition settle_route :: "task_env \<Rightarrow> memory \<Rightarrow> task_state \<times> task \<Rightarrow> task_state \<times> task" where
  "settle_route env m = (\<lambda>(st, t).
     if st \<noteq> Succeeded \<or> \<not> is_typed t then (st, t)
     else case decide_route t (task_lookup env m (t_workspace t)) of
       Inr decision \<Rightarrow> (st, t\<lparr>t_route := decision\<rparr>)
     | Inl f \<Rightarrow>
         let typed = map_option (\<lambda>r. r\<lparr>tr_error := Some f\<rparr>) (t_typed_result t)
         in (Failed (tf_message f), t\<lparr>t_typed_result := typed, t_result := map_option project_v1 typed\<rparr>))"

text \<open>The next state of a waiting task, with the reason when it is left out.\<close>

definition settle_target :: "graph \<Rightarrow> task \<Rightarrow> (task_state \<times> skip_reason option) option" where
  "settle_target g t =
     (case readiness g (t_id t) of
        None \<Rightarrow> None
      | Some IsReady \<Rightarrow> Some (Ready, None)
      | Some NotSelected \<Rightarrow> Some (Skipped, Some BranchNotSelected)
      | Some (Unavailable reason) \<Rightarrow>
          (case apply_on_failure t of
             None \<Rightarrow> None
           | Some next \<Rightarrow> Some (next, if next = Skipped then reason else None)))"

section \<open>Graphs that are not active\<close>

definition inactive_task_ids :: "memory \<Rightarrow> u32 \<Rightarrow> task list \<Rightarrow> agent_error + string list" where
  "inactive_task_ids m ws tasks =
     sbind (collect (\<lambda>t.
       case t_graph t of
         None \<Rightarrow> Inr []
       | Some gid \<Rightarrow>
           sbind (graph_key gid) (\<lambda>key.
           sbind (mem_entry_at m ws key) (\<lambda>o'. Inr (if o' = None then [t_id t] else []))))
       tasks) (\<lambda>os. Inr (concat os))"

definition task_graph :: "task_env \<Rightarrow> string list \<Rightarrow> task list \<Rightarrow> graph" where
  "task_graph env inactive tasks = with_inactive inactive (build (ev_tasks env) tasks)"

definition readiness_graph :: "task_env \<Rightarrow> memory \<Rightarrow> u32 \<Rightarrow> task list \<Rightarrow> agent_error + graph" where
  "readiness_graph env m ws tasks =
     sbind (inactive_task_ids m ws tasks) (\<lambda>inactive. Inr (task_graph env inactive tasks))"

section \<open>Creation\<close>

record create_opts =
  co_workspace :: u32
  co_name :: string
  co_command :: task_command
  co_depends_on :: "string list"
  co_on_failure :: on_failure
  co_metadata :: json
  co_now :: u64

definition agent_needs_contract :: string where
  "agent_needs_contract =
     ''agent tasks need contract_version 2; submit them with agent.task_graph_submit''"

definition new_task :: "string \<Rightarrow> create_opts \<Rightarrow> task_contract option \<Rightarrow> task" where
  "new_task tid opts contract =
     \<lparr>t_id = tid, t_workspace = co_workspace opts, t_name = co_name opts, t_command = co_command opts,
      t_depends_on = co_depends_on opts, t_state = Waiting, t_created = co_now opts, t_started = None,
      t_finished = None, t_result = None, t_on_failure = co_on_failure opts, t_metadata = co_metadata opts,
      t_reserved = False, t_contract = contract, t_typed_result = None, t_graph = None, t_snapshot = None,
      t_accepted = None, t_report_token = None, t_attempt = None, t_route = None, t_skip = None\<rparr>"

text \<open>The checks before the task is made: the fallback, the dependencies, the reduce inputs.\<close>

definition check_known :: "string list \<Rightarrow> string list \<Rightarrow> agent_error + unit" where
  "check_known known ids =
     (case find (\<lambda>i. i \<notin> set known) ids of None \<Rightarrow> Inr () | Some i \<Rightarrow> Inl (UnknownDependency i))"

definition check_fallback_form :: "on_failure \<Rightarrow> agent_error + unit" where
  "check_fallback_form f =
     (case f of
        Fallback None None \<Rightarrow> Inl (invalid (''OnFailure::Fallback requires either '' @ squoted ''task'' @ '' or '' @ squoted ''inline''))
      | Fallback (Some _) (Some _) \<Rightarrow> 
          Inl (invalid (''OnFailure::Fallback cannot have both '' @ squoted ''task'' @ '' and '' @ squoted ''inline''))
      | _ \<Rightarrow> Inr ())"

definition check_references :: "string list \<Rightarrow> create_opts \<Rightarrow> agent_error + unit" where
  "check_references known opts =
     sbind (check_fallback_form (co_on_failure opts)) (\<lambda>_.
     sbind (check_known known (co_depends_on opts)) (\<lambda>_.
     sbind (check_known known (case co_on_failure opts of Fallback (Some fb) _ \<Rightarrow> [fb] | _ \<Rightarrow> [])) (\<lambda>_.
       check_known known (case co_command opts of Reduce inputs _ \<Rightarrow> inputs | _ \<Rightarrow> []))))"

text \<open>The checks on the new task, and its first state.\<close>

definition plan_task :: "task_env \<Rightarrow> memory \<Rightarrow> task list \<Rightarrow> task \<Rightarrow> agent_error + task" where
  "plan_task env m existing t =
     sbind (map_err TypeContract (check_task (m_text m) (ev_plugins env) t [] (\<lambda>i. find (\<lambda>x. t_id x = i) existing)))
       (\<lambda>_.
     if Option.bind (t_contract t) tk_transitions \<noteq> None
     then Inl (invalid ''transitions select tasks submitted together; use a task graph submission'')
     else
       sbind (inactive_task_ids m (t_workspace t) existing) (\<lambda>inactive.
       let g = task_graph env inactive (existing @ [t]) in
       sbind (detect_cycles g) (\<lambda>_.
       let t1 = (case evaluate_readiness g (t_id t) of None \<Rightarrow> t | Some st \<Rightarrow> t\<lparr>t_state := st\<rparr>) in
       sbind (map_err invalid (check_record env m t1 ''the definition'')) (\<lambda>_. Inr t1))))"

text \<open>A fallback named by the new task waits for it.\<close>

definition release_fallback :: "task_env \<Rightarrow> u32 \<Rightarrow> string \<Rightarrow> unit store_op" where
  "release_fallback env ws fb_id =
     bnd (read_mem (\<lambda>m. task_get env m ws fb_id)) (\<lambda>o'.
     case o' of
       None \<Rightarrow> ret ()
     | Some fb \<Rightarrow>
         let fb1 = fb\<lparr>t_reserved := False, t_state := (if t_state fb = Ready then Waiting else t_state fb)\<rparr>
         in if t_reserved fb \<or> t_state fb = Ready then task_put env fb1 else ret ())"

definition create_with_contract :: "task_env \<Rightarrow> create_opts \<Rightarrow> task_contract option \<Rightarrow> task store_op" where
  "create_with_contract env opts contract =
     (if contract = None \<and> (case co_command opts of AgentTurn _ _ _ _ _ \<Rightarrow> True | _ \<Rightarrow> False)
      then refuse (invalid agent_needs_contract)
      else if contract = None \<and> co_command opts = WaitBarrier None
      then refuse (invalid ''wait_barrier needs a barrier name (name)'')
      else
        bnd (read_mem (\<lambda>m. task_list env m (co_workspace opts))) (\<lambda>existing.
        bnd (unused_id (co_now opts) existing) (\<lambda>tid.
        bnd (pure_of (check_references (map t_id existing) opts)) (\<lambda>_.
        bnd (read_mem (\<lambda>m. plan_task env m existing (new_task tid opts contract))) (\<lambda>t.
        bnd (task_put env t) (\<lambda>_.
        bnd (case t_on_failure t of
               Fallback (Some fb) _ \<Rightarrow> release_fallback env (co_workspace opts) fb
             | _ \<Rightarrow> ret ()) (\<lambda>_.
        ret t)))))))"

definition create :: "task_env \<Rightarrow> create_opts \<Rightarrow> task store_op" where
  "create env opts = create_with_contract env opts None"

definition create_typed :: "task_env \<Rightarrow> create_opts \<Rightarrow> task_contract \<Rightarrow> task store_op" where
  "create_typed env opts c = create_with_contract env opts (Some c)"

definition create_reserved_for_fallback :: "task_env \<Rightarrow> create_opts \<Rightarrow> task store_op" where
  "create_reserved_for_fallback env opts =
     bnd (create env opts) (\<lambda>t.
     let t1 = t\<lparr>t_state := Waiting, t_reserved := True\<rparr> in
     bnd (task_put env t1) (\<lambda>_. ret t1))"

section \<open>What a transition causes\<close>

definition waiting_count :: "task list \<Rightarrow> nat" where
  "waiting_count ts = length (filter (\<lambda>t. t_state t = Waiting) ts)"

text \<open>The last task with an id, as \<open>index\<close> finds it.\<close>

fun last_index :: "string \<Rightarrow> task list \<Rightarrow> nat option" where
  "last_index i [] = None"
| "last_index i (t # ts) =
     (case last_index i ts of
        Some n \<Rightarrow> Some (Suc n)
      | None \<Rightarrow> if t_id t = i then Some 0 else None)"

text \<open>What one task of the pass becomes, if anything.\<close>

definition settle_step :: "task_env \<Rightarrow> string list \<Rightarrow> u64 \<Rightarrow> task list \<Rightarrow> string \<Rightarrow> (nat \<times> task) option" where
  "settle_step env inactive now all tid =
     (case last_index tid all of
        None \<Rightarrow> None
      | Some i \<Rightarrow>
          let t = all ! i in
          if t_state t \<noteq> Waiting then None
          else case settle_target (task_graph env inactive all) t of
            None \<Rightarrow> None
          | Some (next, skip) \<Rightarrow>
              if next \<noteq> Waiting \<and> is_valid_transition (t_state t) next
              then Some (i, t\<lparr>t_finished := (if is_terminal next then Some now else t_finished t),
                              t_state := next, t_skip := skip\<rparr>)
              else None)"

text \<open>One pass over the ids: the tasks as they are by then, the ones changed, whether one was.\<close>

fun settle_pass ::
  "task_env \<Rightarrow> string list \<Rightarrow> u64 \<Rightarrow> string list \<Rightarrow> task list \<Rightarrow> task list \<Rightarrow> bool \<Rightarrow>
   (task list \<times> task list \<times> bool) store_op" where
  "settle_pass env inactive now [] all updated changed = ret (all, updated, changed)"
| "settle_pass env inactive now (tid # tids) all updated changed =
     (case settle_step env inactive now all tid of
        None \<Rightarrow> settle_pass env inactive now tids all updated changed
      | Some (i, nt) \<Rightarrow>
          bnd (task_put env nt) (\<lambda>_.
            settle_pass env inactive now tids (all[i := nt]) (updated @ [nt]) True))"

lemma last_index_Some: "last_index i ts = Some n \<Longrightarrow> n < length ts \<and> t_id (ts ! n) = i"
  by (induction ts arbitrary: n) (auto split: option.splits if_splits)

lemma waiting_count_update:
  assumes "n < length ts" "t_state (ts ! n) = Waiting" "t_state t' \<noteq> Waiting"
  shows "waiting_count (ts[n := t']) < waiting_count ts"
  using assms
proof (induction ts arbitrary: n)
  case (Cons t ts)
  then show ?case by (cases n) (auto simp: waiting_count_def)
qed simp

lemma settle_stepD:
  assumes "settle_step env inactive now all tid = Some (i, nt)"
  shows "i < length all" "t_id (all ! i) = tid" "t_state (all ! i) = Waiting" "t_state nt \<noteq> Waiting"
    and "last_index tid all = Some i"
    and "\<exists>skip. settle_target (task_graph env inactive all) (all ! i) = Some (t_state nt, skip)
      \<and> nt = (all ! i)\<lparr>t_finished := (if is_terminal (t_state nt) then Some now else t_finished (all ! i)),
          t_state := t_state nt, t_skip := skip\<rparr>"
    and "is_valid_transition Waiting (t_state nt)"
  using assms last_index_Some [of tid all]
  by (auto simp: settle_step_def Let_def split: option.splits prod.splits if_splits)

lemma settle_pass_count:
  "settle_pass env inactive now tids all updated changed s = (Inr (all', updated', changed'), s') \<Longrightarrow>
     waiting_count all' \<le> waiting_count all \<and>
     (changed' \<longrightarrow> changed \<or> waiting_count all' < waiting_count all)"
proof (induction tids arbitrary: all updated changed s)
  case (Cons tid tids)
  show ?case
  proof (cases "settle_step env inactive now all tid")
    case None
    with Cons.prems have "settle_pass env inactive now tids all updated changed s =
      (Inr (all', updated', changed'), s')" by simp
    from Cons.IH [OF this] show ?thesis .
  next
    case (Some p)
    obtain i nt where p: "p = (i, nt)" by fastforce
    with Some Cons.prems obtain s1 where
      "settle_pass env inactive now tids (all[i := nt]) (updated @ [nt]) True s1 =
        (Inr (all', updated', changed'), s')"
      by (auto elim: bnd_InrE)
    from Cons.IH [OF this] waiting_count_update [of i all nt] settle_stepD [OF Some [unfolded p]]
    show ?thesis by auto
  qed
qed (simp add: ret_def)

function settle_loop ::
  "task_env \<Rightarrow> string list \<Rightarrow> u64 \<Rightarrow> string list \<Rightarrow> task list \<Rightarrow> task list \<Rightarrow> task list store_op" where
  "settle_loop env inactive now tids all updated s =
     (case settle_pass env inactive now tids all updated False s of
        (Inl e, s') \<Rightarrow> (Inl e, s')
      | (Inr (all', updated', changed), s') \<Rightarrow>
          if changed then settle_loop env inactive now tids all' updated' s' else (Inr updated', s'))"
  by pat_completeness auto
termination
  by (relation "measure (\<lambda>(env, inactive, now, tids, all, updated, s). waiting_count all)")
    (auto dest: settle_pass_count [OF sym])

declare settle_loop.simps [simp del]

definition settle_waiting :: "task_env \<Rightarrow> u32 \<Rightarrow> task list \<Rightarrow> string list \<Rightarrow> u64 \<Rightarrow> task list store_op" where
  "settle_waiting env ws all tids now =
     bnd (read_mem (\<lambda>m. inactive_task_ids m ws all)) (\<lambda>inactive. settle_loop env inactive now tids all [])"

text \<open>A search that does not end stands for \<open>Endless\<close>; \<open>Task_Graph_Laws\<close> shows that it ends.\<close>

definition search_result :: "'a option \<Rightarrow> 'a store_op" where
  "search_result o' = (case o' of None \<Rightarrow> fail Endless | Some x \<Rightarrow> ret x)"

definition cascade_downstream :: "task_env \<Rightarrow> u32 \<Rightarrow> string \<Rightarrow> u64 \<Rightarrow> task list store_op" where
  "cascade_downstream env ws tid now =
     bnd (read_mem (\<lambda>m. task_list env m ws)) (\<lambda>all.
     bnd (search_result (transitive_downstream (build (ev_tasks env) all) tid)) (\<lambda>downstream.
       settle_waiting env ws all downstream now))"

fun cascade_each :: "task_env \<Rightarrow> u32 \<Rightarrow> u64 \<Rightarrow> string list \<Rightarrow> task list store_op" where
  "cascade_each env ws now [] = ret []"
| "cascade_each env ws now (i # is) =
     bnd (cascade_downstream env ws i now) (\<lambda>ts. bnd (cascade_each env ws now is) (\<lambda>us. ret (ts @ us)))"

definition advance_existing_fallback :: "task_env \<Rightarrow> u32 \<Rightarrow> string \<Rightarrow> task option store_op" where
  "advance_existing_fallback env ws fb_id =
     bnd (read_mem (\<lambda>m. task_get env m ws fb_id)) (\<lambda>o'.
     case o' of
       None \<Rightarrow> ret None
     | Some fb \<Rightarrow>
         bnd (read_mem (\<lambda>m. task_list env m ws)) (\<lambda>all.
         bnd (read_mem (\<lambda>m. readiness_graph env m ws all)) (\<lambda>g.
         case evaluate_readiness g fb_id of
           None \<Rightarrow> ret None
         | Some target \<Rightarrow>
             if target = Waiting \<or> \<not> is_valid_transition (t_state fb) target then ret None
             else bnd (task_put env (fb\<lparr>t_state := target\<rparr>)) (\<lambda>_. ret (Some (fb\<lparr>t_state := target\<rparr>))))))"

fun inline_opts :: "task \<Rightarrow> u32 \<Rightarrow> u64 \<Rightarrow> inline_spec \<Rightarrow> create_opts" where
  "inline_opts main ws now (InlineSpec name command deps f metadata) =
     \<lparr>co_workspace = ws, co_name = name, co_command = command,
      co_depends_on = (case deps of None \<Rightarrow> t_depends_on main | Some ds \<Rightarrow> ds),
      co_on_failure = f,
      co_metadata = JObj (obj_insert ''fallback_of'' (JStr (t_id main))
        (case as_object metadata of None \<Rightarrow> [] | Some m \<Rightarrow> m)),
      co_now = now\<rparr>"

definition materialize_inline_fallback :: "task_env \<Rightarrow> u32 \<Rightarrow> task \<Rightarrow> inline_spec \<Rightarrow> u64 \<Rightarrow> task option store_op" where
  "materialize_inline_fallback env ws main spec now =
     bnd (read_mem (\<lambda>m. task_list env m ws)) (\<lambda>existing.
       if \<exists>t \<in> set existing. fallback_of t = Some (t_id main) then ret None
       else bnd (create env (inline_opts main ws now spec)) (\<lambda>t. ret (Some t)))"

text \<open>The fallback of a task that failed: raised when it is there, made when it is inline.\<close>

definition start_fallback :: "task_env \<Rightarrow> u32 \<Rightarrow> task \<Rightarrow> u64 \<Rightarrow> task list store_op" where
  "start_fallback env ws t now =
     (case t_on_failure t of
        Fallback fb spec \<Rightarrow>
          if \<not> is_failed (t_state t) then ret []
          else
            bnd (case fb of None \<Rightarrow> ret None | Some i \<Rightarrow> advance_existing_fallback env ws i) (\<lambda>a.
            bnd (case spec of None \<Rightarrow> ret None | Some sp \<Rightarrow> materialize_inline_fallback env ws t sp now) (\<lambda>b.
              ret ((case a of None \<Rightarrow> [] | Some x \<Rightarrow> [x]) @ (case b of None \<Rightarrow> [] | Some x \<Rightarrow> [x]))))
      | _ \<Rightarrow> ret [])"

text \<open>
  A waiting fallback of an untyped task that ended without a failure is skipped; \<open>skip\<close> is the
  transition of the fallback to \<open>Skipped\<close> with what it causes.
\<close>

definition drop_fallback ::
  "task_env \<Rightarrow> (string \<Rightarrow> (task \<times> task list) store_op) \<Rightarrow> u32 \<Rightarrow> task \<Rightarrow> task list store_op" where
  "drop_fallback env skip ws t =
     (if is_typed t \<or> t_state t \<notin> {Succeeded, Cancelled, Skipped} then ret []
      else case t_on_failure t of
        Fallback (Some fb) _ \<Rightarrow>
          bnd (read_mem (\<lambda>m. task_get env m ws fb)) (\<lambda>o'.
            if map_option t_state o' = Some Waiting
            then bnd (skip fb) (\<lambda>(x, more). ret (x # more))
            else ret [])
      | _ \<Rightarrow> ret [])"

text \<open>The tasks that name this one as their fallback are settled again with what is below them.\<close>

definition parent_mains :: "task list \<Rightarrow> string \<Rightarrow> string list" where
  "parent_mains all tid =
     map t_id (filter (\<lambda>t. falls_back_to t tid) all) @
     (case find (\<lambda>t. t_id t = tid) all of
        None \<Rightarrow> []
      | Some t \<Rightarrow> (case fallback_of t of None \<Rightarrow> [] | Some main \<Rightarrow> [main]))"

definition settle_parents :: "task_env \<Rightarrow> u32 \<Rightarrow> task \<Rightarrow> u64 \<Rightarrow> task list store_op" where
  "settle_parents env ws t now =
     (if is_terminal (t_state t)
      then bnd (read_mem (\<lambda>m. task_list env m ws)) (\<lambda>all. cascade_each env ws now (parent_mains all (t_id t)))
      else ret [])"

definition propagate ::
  "task_env \<Rightarrow> (string \<Rightarrow> (task \<times> task list) store_op) \<Rightarrow> u32 \<Rightarrow> task \<Rightarrow> u64 \<Rightarrow> task list store_op" where
  "propagate env skip ws t now =
     bnd (start_fallback env ws t now) (\<lambda>l1.
     bnd (drop_fallback env skip ws t) (\<lambda>l2.
     bnd (cascade_downstream env ws (t_id t) now) (\<lambda>l3.
     bnd (settle_parents env ws t now) (\<lambda>l4.
       ret (l1 @ l2 @ l3 @ l4)))))"

section \<open>Transitions\<close>

definition enter_state :: "u64 \<Rightarrow> task_state \<times> task \<Rightarrow> task" where
  "enter_state now = (\<lambda>(st, t).
     (if st = Running
      then t\<lparr>t_started := Some now, t_route := None, t_skip := None,
             t_attempt := (case next_attempt t now of None \<Rightarrow> t_attempt t | Some a \<Rightarrow> Some a)\<rparr>
      else if is_terminal st then close_phase (t\<lparr>t_finished := Some now\<rparr>)
      else t)\<lparr>t_state := st\<rparr>)"

text \<open>\<open>n\<close> bounds how many fallbacks are skipped in a chain.\<close>

fun set_state_within ::
  "nat \<Rightarrow> task_env \<Rightarrow> u32 \<Rightarrow> string \<Rightarrow> task_state \<Rightarrow> u64 \<Rightarrow> (task \<times> task list) store_op" where
  "set_state_within 0 env ws tid st now = fail Endless"
| "set_state_within (Suc n) env ws tid st now =
     (let skip = (\<lambda>fb. set_state_within n env ws fb Skipped now) in
      bnd (need_task env ws tid) (\<lambda>t.
      if \<not> is_valid_transition (t_state t) st
      then refuse (InvalidTransition (state_name (t_state t)) (state_name st))
      else
        bnd (read_mem (\<lambda>m. Inr (st = Running \<and> check_record env m t ''the definition'' \<noteq> Inr ()))) (\<lambda>too_large.
        bnd (if too_large
             then ret (t\<lparr>t_state := Failed (msg refused_to_start), t_finished := Some now\<rparr>)
             else read_mem (\<lambda>m. Inr (enter_state now (settle_route env m (settle_typed_terminal t st))))) (\<lambda>t1.
        bnd (task_put env t1) (\<lambda>_.
        bnd (propagate env skip ws t1 now) (\<lambda>more. ret (t1, more)))))))"

text \<open>Every fallback that is skipped was waiting in a row of its own.\<close>

definition chain_bound :: "task_store \<Rightarrow> nat" where
  "chain_bound s = Suc (Suc (length (regular (ts_mem s))))"

definition set_state :: "task_env \<Rightarrow> u32 \<Rightarrow> string \<Rightarrow> task_state \<Rightarrow> u64 \<Rightarrow> (task \<times> task list) store_op" where
  "set_state env ws tid st now s = set_state_within (chain_bound s) env ws tid st now s"

definition propagate_transition :: "task_env \<Rightarrow> u32 \<Rightarrow> task \<Rightarrow> u64 \<Rightarrow> task list store_op" where
  "propagate_transition env ws t now s =
     propagate env (\<lambda>fb. set_state_within (chain_bound s) env ws fb Skipped now) ws t now s"

definition cancel :: "task_env \<Rightarrow> u32 \<Rightarrow> string \<Rightarrow> u64 \<Rightarrow> (task \<times> task list) store_op" where
  "cancel env ws tid now =
     bnd (need_task env ws tid) (\<lambda>t.
       if is_terminal (t_state t) then refuse (AlreadyTerminal (state_name (t_state t)))
       else set_state env ws tid Cancelled now)"

section \<open>Inputs, responses and results\<close>

definition not_typed :: "string \<Rightarrow> string \<Rightarrow> agent_error" where
  "not_typed tid what = invalid (''task '' @ tid @ '' is not a typed task; it has no '' @ what)"

definition set_input_snapshot :: "task_env \<Rightarrow> u32 \<Rightarrow> string \<Rightarrow> input_snapshot \<Rightarrow> task store_op" where
  "set_input_snapshot env ws tid snapshot =
     bnd (need_task env ws tid) (\<lambda>t.
     if \<not> is_typed t then refuse (not_typed tid ''input snapshot'')
     else
       bnd (read_mem (\<lambda>m. Inr (check_record env m (t\<lparr>t_snapshot := Some snapshot\<rparr>) ''the resolved input''))) (\<lambda>chk.
       let t1 = (case chk of
                   Inr _ \<Rightarrow> t\<lparr>t_snapshot := Some snapshot\<rparr>
                 | Inl why \<Rightarrow> t\<lparr>t_snapshot := Some (snapshot\<lparr>is_value := TVNull, is_execution := no_execution,
                     is_failure := Some ((failure_new StageInput (msg why))\<lparr>tf_location := Some ''/bindings''\<rparr>)\<rparr>)\<rparr>)
       in bnd (task_put env t1) (\<lambda>_. ret t1)))"

definition set_accepted :: "task_env \<Rightarrow> u32 \<Rightarrow> string \<Rightarrow> capped_json \<Rightarrow> task store_op" where
  "set_accepted env ws tid accepted =
     bnd (need_task env ws tid) (\<lambda>t.
     if \<not> is_typed t then refuse (not_typed tid ''raw result'')
     else let t1 = t\<lparr>t_accepted := Some accepted\<rparr> in bnd (task_put env t1) (\<lambda>_. ret t1))"

definition set_result :: "task_env \<Rightarrow> u32 \<Rightarrow> string \<Rightarrow> task_result \<Rightarrow> task store_op" where
  "set_result env ws tid r =
     bnd (need_task env ws tid) (\<lambda>t.
     bnd (read_mem (\<lambda>m. Inr (record_result (m_text m) t r))) (\<lambda>t1.
     bnd (task_put env t1) (\<lambda>_. ret t1)))"

section \<open>Reports of an execution\<close>

record receipt =
  rc_task :: task
  rc_transitioned :: "task list"
  rc_duplicate :: bool

definition rejected :: "task \<Rightarrow> string option \<Rightarrow> completion_rejection \<Rightarrow> agent_error" where
  "rejected t reported reason =
     CompletionRejected (t_id t) reported (map_option at_id (t_attempt t)) reason"

datatype pp_step = NotApplicable | ContinueWith receipt | FinalizeWith task

definition response_too_large :: "json_text \<Rightarrow> task \<Rightarrow> task_result \<Rightarrow> bool" where
  "response_too_large jt t r \<longleftrightarrow>
     (case t_command t of Custom _ _ _ \<Rightarrow> True | AgentTurn _ _ _ _ _ \<Rightarrow> True | _ \<Rightarrow> False)
     \<and> (case res_output r of
          None \<Rightarrow> False
        | Some v \<Rightarrow> (case jt_print jt v of None \<Rightarrow> True | Some b \<Rightarrow> max_type_bytes < length b))"

definition with_progress :: "pp_progress \<Rightarrow> task \<Rightarrow> task" where
  "with_progress p t = t\<lparr>t_attempt := map_option (\<lambda>a. a\<lparr>at_postprocess := Some p\<rparr>) (t_attempt t)\<rparr>"

definition keep_running :: "task_env \<Rightarrow> task \<Rightarrow> pp_progress \<Rightarrow> bool \<Rightarrow> pp_step store_op" where
  "keep_running env t p duplicate =
     (if duplicate
      then ret (ContinueWith \<lparr>rc_task = t, rc_transitioned = [], rc_duplicate = True\<rparr>)
      else let t1 = with_progress p t
           in bnd (task_put env t1) (\<lambda>_.
                ret (ContinueWith \<lparr>rc_task = t1, rc_transitioned = [], rc_duplicate = False\<rparr>)))"

text \<open>A report of the run that is reserved or running.\<close>

definition run_report ::
  "task_env \<Rightarrow> task \<Rightarrow> task_contract \<Rightarrow> pp_spec \<Rightarrow> pp_progress \<Rightarrow> completion \<Rightarrow> pp_report \<Rightarrow> u64 \<Rightarrow>
   pp_step store_op" where
  "run_report env t c spec p cm report now =
     (case next_run spec report of
        Some run \<Rightarrow>
          let failed = (case rp_outcome report of
                          PostFailed cause m \<Rightarrow> [\<lparr>rs_run = rp_run report, rs_exit = rp_exit report, rs_cause = cause,
                                                 rs_message = m\<rparr>]
                        | Collected _ \<Rightarrow> [])
          in keep_running env t (p\<lparr>pg_failed_runs := pg_failed_runs p @ failed,
               pg_phase := PhasePending run (sat_add now (retry_delay spec))\<rparr>) False
      | None \<Rightarrow>
          let p1 = (if cm_main_dropped cm then p\<lparr>pg_execution := (pg_execution p)\<lparr>res_output := None\<rparr>\<rparr> else p)
          in bnd (read_mem (\<lambda>m. Inr (finalize_postprocessed (m_text m) (ev_ptr env) t c spec p1 report))) (\<lambda>typed.
             ret (FinalizeWith ((with_progress (p1\<lparr>pg_phase := PhaseFinished (rp_run report)\<rparr>) t)
               \<lparr>t_result := Some (project_v1 typed), t_typed_result := Some typed, t_accepted := None\<rparr>))))"

definition current_run :: "pp_phase \<Rightarrow> u32 option" where
  "current_run ph =
     (case ph of PhasePending run _ \<Rightarrow> Some run | PhaseStarted run _ \<Rightarrow> Some run | PhaseFinished _ \<Rightarrow> None)"

definition completion_digest :: "task_env \<Rightarrow> memory \<Rightarrow> completion \<Rightarrow> string" where
  "completion_digest env m cm = digest (m_text m) (ev_render env) cm"

definition postprocess_step :: "task_env \<Rightarrow> task \<Rightarrow> completion \<Rightarrow> u64 \<Rightarrow> pp_step store_op" where
  "postprocess_step env t cm now =
     (case t_contract t of
        None \<Rightarrow> ret NotApplicable
      | Some c \<Rightarrow>
     (case tk_postprocess c of
        None \<Rightarrow> ret NotApplicable
      | Some spec \<Rightarrow>
     bnd (read_mem (\<lambda>m. Inr (completion_digest env m cm, m_text m))) (\<lambda>(dg, jt).
     case (cm_postprocess cm, Option.bind (t_attempt t) at_postprocess) of
       (None, None) \<Rightarrow>
         if cm_outcome cm \<noteq> OutSucceeded \<or> response_too_large jt t (cm_result cm) then ret NotApplicable
         else keep_running env t \<lparr>pg_execution = cm_result cm, pg_digest = dg, pg_phase = PhasePending 1 now,
                pg_failed_runs = []\<rparr> False
     | (None, Some p) \<Rightarrow>
         if pg_digest p = dg then keep_running env t p True
         else refuse (rejected t (cm_attempt cm) DifferentReport)
     | (Some _, None) \<Rightarrow>
         refuse (invalid (''task '' @ t_id t @ '': postprocess report before the main execution finished''))
     | (Some report, Some p) \<Rightarrow>
         if rp_run report \<in> rs_run ` set (pg_failed_runs p)
         then if \<exists>r \<in> set (pg_failed_runs p). rs_run r = rp_run report \<and> Some (rs_cause r) = report_cause report
                   \<and> rs_exit r = rp_exit report
              then keep_running env t p True
              else refuse (rejected t (cm_attempt cm) DifferentReport)
         else if current_run (pg_phase p) \<noteq> Some (rp_run report)
         then refuse (rejected t (cm_attempt cm) CompletionStale)
         else run_report env t c spec p cm report now)))"

definition begin_postprocess_run ::
  "task_env \<Rightarrow> u32 \<Rightarrow> string \<Rightarrow> string \<Rightarrow> u32 \<Rightarrow> u64 \<Rightarrow> (task \<times> pp_spec \<times> task_result) store_op" where
  "begin_postprocess_run env ws tid attempt_id run now =
     bnd (need_task env ws tid) (\<lambda>t.
     if t_state t \<noteq> Running then refuse (InvalidTransition (state_name (t_state t)) ''postprocessing'')
     else case Option.bind (t_contract t) tk_postprocess of
       None \<Rightarrow> refuse (invalid (''task '' @ tid @ '' has no postprocess''))
     | Some spec \<Rightarrow>
         (case Option.bind (t_attempt t) (\<lambda>a. if at_id a = attempt_id then at_postprocess a else None) of
            None \<Rightarrow> refuse (rejected t (Some attempt_id) CompletionStale)
          | Some p \<Rightarrow>
              if (case pg_phase p of PhasePending r _ \<Rightarrow> r \<noteq> run | _ \<Rightarrow> True)
              then refuse (invalid (''task '' @ tid @ '': postprocess run '' @ show_nat (unat run) @ '' is not pending''))
              else let t1 = with_progress (p\<lparr>pg_phase := PhaseStarted run now\<rparr>) t
                   in bnd (task_put env t1) (\<lambda>_. ret (t1, spec, pg_execution p))))"

section \<open>Completion\<close>

definition finish_receipt :: "task_env \<Rightarrow> u32 \<Rightarrow> task \<Rightarrow> u64 \<Rightarrow> bool \<Rightarrow> receipt store_op" where
  "finish_receipt env ws t now duplicate =
     bnd (propagate_transition env ws t now) (\<lambda>more.
       ret \<lparr>rc_task = t, rc_transitioned = more, rc_duplicate = duplicate\<rparr>)"

text \<open>A report on a task that has ended.\<close>

definition complete_again :: "task_env \<Rightarrow> u32 \<Rightarrow> task \<Rightarrow> completion \<Rightarrow> string \<Rightarrow> u64 \<Rightarrow> receipt store_op" where
  "complete_again env ws t cm dg now =
     (case Option.bind (t_attempt t) at_completion of
        Some recorded \<Rightarrow>
          if recorded = dg then finish_receipt env ws t now True
          else refuse (rejected t (cm_attempt cm) DifferentReport)
      | None \<Rightarrow> refuse (rejected t (cm_attempt cm) CompletionAlreadyTerminal))"

text \<open>The settled task of a report that ends it.\<close>

definition end_task :: "task_env \<Rightarrow> memory \<Rightarrow> task \<Rightarrow> task_state \<Rightarrow> string \<Rightarrow> u64 \<Rightarrow> task" where
  "end_task env m t requested dg now =
     (let (st, t1) = settle_route env m (settle_typed_terminal t requested)
      in t1\<lparr>t_state := st, t_finished := Some now,
            t_attempt := map_option (\<lambda>a. a\<lparr>at_completion := Some dg\<rparr>) (t_attempt t1)\<rparr>)"

definition complete_running :: "task_env \<Rightarrow> u32 \<Rightarrow> task \<Rightarrow> completion \<Rightarrow> string \<Rightarrow> u64 \<Rightarrow> receipt store_op" where
  "complete_running env ws t cm dg now =
     bnd (postprocess_step env t cm now) (\<lambda>step.
     case step of
       ContinueWith r \<Rightarrow> ret r
     | _ \<Rightarrow>
         bnd (read_mem (\<lambda>m. Inr (end_task env m
                (case step of FinalizeWith t1 \<Rightarrow> t1 | _ \<Rightarrow> record_result (m_text m) t (cm_result cm))
                (outcome_state (cm_outcome cm)) dg now))) (\<lambda>t2.
         bnd (task_put env t2) (\<lambda>_. finish_receipt env ws t2 now False)))"

definition complete :: "task_env \<Rightarrow> u32 \<Rightarrow> string \<Rightarrow> completion \<Rightarrow> u64 \<Rightarrow> receipt store_op" where
  "complete env ws tid cm now =
     bnd (need_task env ws tid) (\<lambda>t.
     let requested = outcome_state (cm_outcome cm);
         wrong = InvalidTransition (state_name (t_state t)) (state_name requested) in
     if \<not> is_typed t
     then if \<not> is_valid_transition (t_state t) requested then refuse wrong
          else bnd (set_result env ws tid (cm_result cm)) (\<lambda>_.
               bnd (set_state env ws tid requested now) (\<lambda>(t1, more).
                 ret \<lparr>rc_task = t1, rc_transitioned = more, rc_duplicate = False\<rparr>))
     else if cm_attempt cm \<noteq> None \<and> cm_attempt cm \<noteq> map_option at_id (t_attempt t)
     then refuse (rejected t (cm_attempt cm) CompletionStale)
     else
       bnd (read_mem (\<lambda>m. Inr (completion_digest env m cm))) (\<lambda>dg.
       if is_terminal (t_state t) then complete_again env ws t cm dg now
       else if t_state t \<noteq> Running then refuse wrong
       else case cm_outcome cm of
         OutLost _ \<Rightarrow>
           let t1 = close_phase (t\<lparr>t_state := requested\<rparr>)
           in bnd (task_put env t1) (\<lambda>_. ret \<lparr>rc_task = t1, rc_transitioned = [], rc_duplicate = False\<rparr>)
       | _ \<Rightarrow> complete_running env ws t cm dg now))"

definition resettle_waiting :: "task_env \<Rightarrow> u32 \<Rightarrow> u64 \<Rightarrow> task list store_op" where
  "resettle_waiting env ws now =
     bnd (read_mem (\<lambda>m. task_list env m ws)) (\<lambda>all.
     bnd (settle_waiting env ws all (map t_id (filter (\<lambda>t. t_state t = Waiting) all)) now) (\<lambda>settled.
     bnd (cascade_each env ws now (map t_id (filter (\<lambda>t. is_terminal (t_state t)) settled))) (\<lambda>more.
       ret (settled @ more))))"

section \<open>Agent sessions\<close>

definition set_agent_link :: "task_env \<Rightarrow> u32 \<Rightarrow> string \<Rightarrow> string \<Rightarrow> agent_link \<Rightarrow> bool store_op" where
  "set_agent_link env ws tid attempt_id link =
     bnd (need_task env ws tid) (\<lambda>t.
     if \<not> (case t_command t of AgentTurn _ _ _ _ _ \<Rightarrow> True | _ \<Rightarrow> False) \<or> t_state t \<noteq> Running then ret False
     else case t_attempt t of
       None \<Rightarrow> ret False
     | Some a \<Rightarrow>
         if at_id a \<noteq> attempt_id then ret False
         else if at_agent a = Some link then ret True
         else bnd (task_put env (t\<lparr>t_attempt := Some (a\<lparr>at_agent := Some link\<rparr>)\<rparr>)) (\<lambda>_. ret True))"

section \<open>Retry\<close>

definition refuse_retry_after_fallback :: "task_env \<Rightarrow> memory \<Rightarrow> u32 \<Rightarrow> task \<Rightarrow> agent_error + unit" where
  "refuse_retry_after_fallback env m ws t =
     (case t_on_failure t of
        Fallback (Some fb) _ \<Rightarrow>
          if \<not> is_typed t then Inr ()
          else sbind (task_get env m ws fb) (\<lambda>o'.
            case o' of
              None \<Rightarrow> Inr ()
            | Some f \<Rightarrow>
                if t_state f \<in> {Ready, Running, Succeeded}
                then Inl (invalid (''typed task '' @ t_id t @ '' cannot be retried: its fallback '' @ fb @ '' is '' @
                       state_name (t_state f) @
                       '' and stays the outcome of this run; submit a new task to run it again''))
                else Inr ())
      | _ \<Rightarrow> Inr ())"

definition refuse_retry_of_unselected :: "task_env \<Rightarrow> memory \<Rightarrow> u32 \<Rightarrow> task \<Rightarrow> agent_error + unit" where
  "refuse_retry_of_unselected env m ws t =
     (if \<not> is_typed t \<or> \<not> is_not_selected t then Inr ()
      else sbind (task_list env m ws) (\<lambda>all.
           sbind (readiness_graph env m ws all) (\<lambda>g.
           if readiness g (t_id t) = Some NotSelected
           then Inl (invalid (''typed task '' @ t_id t @ '' cannot be retried: its branch was not selected and is '' @
                  ''still not selected, so it would be skipped again without running; submit a new task to run it''))
           else Inr ())))"

definition rewound :: "task \<Rightarrow> task" where
  "rewound t = t\<lparr>t_state := Waiting, t_started := None, t_finished := None, t_result := None,
     t_typed_result := None, t_snapshot := None, t_accepted := None, t_route := None, t_skip := None\<rparr>"

fun rewind_each :: "task_env \<Rightarrow> u32 \<Rightarrow> string list \<Rightarrow> unit store_op" where
  "rewind_each env ws [] = ret ()"
| "rewind_each env ws (d # ds) =
     bnd (read_mem (\<lambda>m. task_get env m ws d)) (\<lambda>o'.
     bnd (case o' of
            None \<Rightarrow> ret ()
          | Some t \<Rightarrow>
              if t_state t = Skipped \<or> is_failed (t_state t) \<or> t_state t = Cancelled
              then task_put env (rewound t) else ret ()) (\<lambda>_.
       rewind_each env ws ds))"

definition retryable :: "task_state \<Rightarrow> bool" where
  "retryable st \<longleftrightarrow> is_failed st \<or> st = Cancelled \<or> st = Skipped \<or> (\<exists>r. st = Unknown r)"

text \<open>The state of a task right after it was set back.\<close>

definition resettled :: "u64 \<Rightarrow> graph \<Rightarrow> task \<Rightarrow> task option" where
  "resettled now g t =
     (case settle_target g t of
        None \<Rightarrow> None
      | Some (next, skip) \<Rightarrow>
          if next = Waiting then None
          else Some (t\<lparr>t_state := next, t_skip := skip,
                 t_finished := (if is_terminal next then Some now else t_finished t)\<rparr>))"

definition retry :: "task_env \<Rightarrow> u32 \<Rightarrow> string \<Rightarrow> bool \<Rightarrow> u64 \<Rightarrow> task store_op" where
  "retry env ws tid reset_downstream now =
     bnd (need_task env ws tid) (\<lambda>t.
     if \<not> retryable (t_state t) then refuse (InvalidTransition (state_name (t_state t)) ''waiting (retry)'')
     else
       bnd (read_mem (\<lambda>m. refuse_retry_after_fallback env m ws t)) (\<lambda>_.
       bnd (read_mem (\<lambda>m. refuse_retry_of_unselected env m ws t)) (\<lambda>_.
       if reset_downstream \<and> is_typed t
       then refuse (invalid (''typed task '' @ tid @ '' cannot be retried with reset_downstream: downstream tasks '' @
              ''already settled on this run'' @ [CHR 0x27] @ ''s failure or route and are not rewound; retry without it, '' @
              ''or submit a new graph for the follow-up work''))
       else
         bnd (if is_typed t then settle_report_block env t else ret ()) (\<lambda>_.
         bnd (task_put env (rewound t)) (\<lambda>_.
         bnd (read_mem (\<lambda>m. task_list env m ws)) (\<lambda>all.
         bnd (read_mem (\<lambda>m. readiness_graph env m ws all)) (\<lambda>g.
         bnd (case resettled now g (rewound t) of
                None \<Rightarrow> ret (rewound t)
              | Some nt \<Rightarrow> bnd (task_put env nt) (\<lambda>_. ret nt)) (\<lambda>t1.
         bnd (if reset_downstream
              then bnd (search_result (transitive_downstream (build (ev_tasks env) all) tid)) (\<lambda>downstream.
                   bnd (rewind_each env ws downstream) (\<lambda>_.
                   bnd (cascade_downstream env ws tid now) (\<lambda>_. ret ())))
              else ret ()) (\<lambda>_.
           ret t1)))))))))"

section \<open>Notes\<close>

definition issue_report_token :: "task_env \<Rightarrow> u32 \<Rightarrow> string \<Rightarrow> report_token \<Rightarrow> task store_op" where
  "issue_report_token env ws tid token =
     bnd (need_task env ws tid) (\<lambda>t.
     if \<not> is_typed t then refuse (not_typed tid ''report'')
     else let t1 = t\<lparr>t_report_token := Some token\<rparr> in bnd (task_put env t1) (\<lambda>_. ret t1))"

text \<open>\<open>may\<close> is what the caller's own check answers.\<close>

definition open_report_block :: "task_env \<Rightarrow> report_address \<Rightarrow> bool \<Rightarrow> report_block store_op" where
  "open_report_block env a may =
     (let reject = (\<lambda>reason st. refuse (ReportRejected (ra_task a) (ra_attempt a) reason st)) in
      bnd (need_task env (ra_workspace a) (ra_task a)) (\<lambda>t.
      if \<not> (case t_report_token t of
             None \<Rightarrow> False | Some k \<Rightarrow> rt_token k = ra_token a \<and> rt_attempt k = ra_attempt a)
      then reject TokenMismatch None
      else if t_state t \<notin> {Ready, Running} then reject ReportClosed (Some (state_name (t_state t)))
      else
        bnd (read_mem (\<lambda>m. report_block_at env m (ra_workspace a) (ra_task a) (ra_attempt a))) (\<lambda>found.
        let b = (case found of None \<Rightarrow> new_block (ra_attempt a) | Some b \<Rightarrow> b) in
        case rb_settled b of
          Some st \<Rightarrow> reject ReportClosed (Some (state_name st))
        | None \<Rightarrow> if may then ret b else reject ReportNotTheSession None)))"

definition append_report_by ::
  "task_env \<Rightarrow> report_address \<Rightarrow> string \<Rightarrow> u64 \<Rightarrow> report_limits \<Rightarrow> u64 \<Rightarrow> bool \<Rightarrow> (append_outcome \<times> u64) store_op" where
  "append_report_by env a text cut_before limits now may =
     bnd (open_report_block env a may) (\<lambda>b.
     let (out, b1) = append_cut (ra_source a) text cut_before limits now b in
     bnd (put_report_block env (ra_workspace a) (ra_task a) b1) (\<lambda>_. ret (out, room limits b1)))"

definition append_report :: "task_env \<Rightarrow> report_address \<Rightarrow> string \<Rightarrow> report_limits \<Rightarrow> u64 \<Rightarrow> append_outcome store_op" where
  "append_report env a text limits now =
     bnd (append_report_by env a text 0 limits now True) (\<lambda>(out, _). ret out)"

definition count_report_omissions :: "task_env \<Rightarrow> report_address \<Rightarrow> u64 \<Rightarrow> unit store_op" where
  "count_report_omissions env a n =
     bnd (open_report_block env a True) (\<lambda>b.
       put_report_block env (ra_workspace a) (ra_task a) (b\<lparr>rb_omitted := rb_omitted b + n\<rparr>))"

end
