(* ===== verification/Task_Submit.thy ===== *)
theory Task_Submit
  imports Task_Store
begin

text \<open>
  Removing tasks (\<open>task/store/sweep.rs\<close>) and submitting a graph of them (\<open>task/store/graph_submit.rs\<close>). A
  graph is checked as a whole, stored without its activation record, then activated by that record;
  until then no task of it becomes ready.
\<close>

section \<open>Activation records without tasks\<close>

text \<open>\<open>trim_start_matches\<close>: the prefix is taken away as often as it is there.\<close>

function trim_start_matches :: "string \<Rightarrow> string \<Rightarrow> string" where
  "trim_start_matches p s =
     (if p \<noteq> [] \<and> take (length p) s = p then trim_start_matches p (drop (length p) s) else s)"
  by pat_completeness auto
termination
proof (relation "measure (\<lambda>(p, s). length s)", goal_cases)
  case (2 p s)
  then have "s \<noteq> []" by auto
  with 2 show ?case by simp
qed simp

declare trim_start_matches.simps [simp del]

definition prune_graph_records :: "task_env \<Rightarrow> u32 \<Rightarrow> unit store_op" where
  "prune_graph_records env ws =
     bnd (read_mem (\<lambda>m. list_prefix m ws task_graph_prefix)) (\<lambda>records.
     if records = [] then ret ()
     else bnd (read_mem (\<lambda>m. task_list env m ws)) (\<lambda>all.
       each_op (\<lambda>r.
         if trim_start_matches task_graph_prefix (e_key r) \<in> set (List.map_filter t_graph all) then ret ()
         else on_mem (kv_delete (ev_owner env) ws (e_key r))) records))"

section \<open>Deletion\<close>

record delete_opts =
  do_cascade :: bool
  do_force :: bool

definition running_among :: "task list \<Rightarrow> string list \<Rightarrow> string option" where
  "running_among all ids =
     find (\<lambda>i. case find (\<lambda>t. t_id t = i) all of None \<Rightarrow> False | Some t \<Rightarrow> t_state t = Running) ids"

definition delete_targets :: "task_env \<Rightarrow> task list \<Rightarrow> string \<Rightarrow> delete_opts \<Rightarrow> string list store_op" where
  "delete_targets env all tid opts =
     (if do_cascade opts then
        bnd (search_result (transitive_referencing_task_ids all tid)) (\<lambda>refs.
        let seen = ev_ids env (remdups (tid # refs)) in
        case running_among all seen of
          Some i \<Rightarrow> refuse (TaskRunning i)
        | None \<Rightarrow> ret seen)
      else if \<not> do_force opts \<and> referencing_task_ids all tid \<noteq> []
      then refuse (TaskReferenced tid (referencing_task_ids all tid))
      else ret [tid])"

definition delete_checked :: "task_env \<Rightarrow> u32 \<Rightarrow> string \<Rightarrow> delete_opts \<Rightarrow> string list store_op" where
  "delete_checked env ws tid opts =
     bnd (need_task env ws tid) (\<lambda>t.
     if t_state t = Running then refuse (TaskRunning tid)
     else
       bnd (read_mem (\<lambda>m. task_list env m ws)) (\<lambda>all.
       bnd (delete_targets env all tid opts) (\<lambda>ts.
       bnd (each_op (task_delete env ws) ts) (\<lambda>_.
       bnd (prune_graph_records env ws) (\<lambda>_. ret ts)))))"

section \<open>Sweeping\<close>

record purge_filter =
  pf_states :: "string list option"
  pf_older_than :: "u64 option"
  pf_now :: u64

record sweep_plan =
  sw_deleted :: "string list"
  sw_retained :: "string list"
  sw_skipped :: "string list"

definition purge_matches :: "purge_filter \<Rightarrow> task \<Rightarrow> bool" where
  "purge_matches f t \<longleftrightarrow>
     t_state t \<noteq> Running
     \<and> (case pf_states f of None \<Rightarrow> True | Some names \<Rightarrow> state_name (t_state t) \<in> set names)
     \<and> (case pf_older_than f of
          None \<Rightarrow> True
        | Some threshold \<Rightarrow>
            threshold \<le> sat_sub (pf_now f) (case t_finished t of None \<Rightarrow> t_created t | Some x \<Rightarrow> x))"

definition blocked :: "task list \<Rightarrow> string list \<Rightarrow> string list" where
  "blocked all eligible = filter (\<lambda>i. \<exists>r \<in> set (referencing_task_ids all i). r \<notin> set eligible) eligible"

function sweep_loop :: "task list \<Rightarrow> string list \<Rightarrow> string list" where
  "sweep_loop all eligible =
     (if blocked all eligible = [] then eligible
      else sweep_loop all (filter (\<lambda>i. i \<notin> set (blocked all eligible)) eligible))"
  by pat_completeness auto
termination
proof (relation "measure (\<lambda>(all, eligible). length eligible)", goal_cases)
  case (2 all eligible)
  then obtain i where "i \<in> set (blocked all eligible)" by (cases "blocked all eligible") auto
  then have "i \<in> set eligible \<and> i \<in> set (blocked all eligible)" by (simp add: blocked_def)
  then show ?case using length_filter_less [of i eligible "\<lambda>i. i \<notin> set (blocked all eligible)"] by simp
qed simp

declare sweep_loop.simps [simp del]

definition sweep_of :: "task list \<Rightarrow> purge_filter \<Rightarrow> string list \<Rightarrow> sweep_plan" where
  "sweep_of all f keep =
     (let matching = remdups (map t_id (filter (purge_matches f) all));
          candidates = filter (\<lambda>i. i \<notin> set keep) matching;
          eligible = sweep_loop all candidates
      in \<lparr>sw_deleted = sort eligible,
          sw_retained = sort (filter (\<lambda>i. i \<notin> set eligible) candidates),
          sw_skipped = sort (filter (\<lambda>i. i \<in> set keep) matching)\<rparr>)"

definition plan_sweep :: "task_env \<Rightarrow> u32 \<Rightarrow> purge_filter \<Rightarrow> string list \<Rightarrow> sweep_plan store_op" where
  "plan_sweep env ws f keep = bnd (read_mem (\<lambda>m. task_list env m ws)) (\<lambda>all. ret (sweep_of all f keep))"

definition apply_sweep_plan :: "task_env \<Rightarrow> u32 \<Rightarrow> sweep_plan \<Rightarrow> unit store_op" where
  "apply_sweep_plan env ws plan =
     bnd (each_op (task_delete env ws) (sw_deleted plan)) (\<lambda>_. prune_graph_records env ws)"

section \<open>Graph submission\<close>

definition max_graph_tasks :: nat where "max_graph_tasks = 1000"

datatype durability = DurabilityRequired | BestEffort

fun durability_name :: "durability \<Rightarrow> string" where
  "durability_name DurabilityRequired = ''required''"
| "durability_name BestEffort = ''best_effort''"

record graph_task_spec =
  gs_id :: string
  gs_name :: "string option"
  gs_command :: task_command
  gs_depends_on :: "string list"
  gs_on_failure :: on_failure
  gs_metadata :: json
  gs_input :: "type_schema option"
  gs_output :: "type_schema option"
  gs_bindings :: "(string \<times> input_binding) list"
  gs_mapping :: "input_mapping option"
  gs_exit_codes :: "int list option"
  gs_merge_conflict :: "merge_conflict option"
  gs_postprocess :: "pp_spec option"
  gs_transitions :: "transitions option"

record graph_spec =
  gp_version :: u32
  gp_types :: type_defs
  gp_tasks :: "graph_task_spec list"
  gp_durability :: durability

record graph_plan =
  pl_workspace :: u32
  pl_graph :: string
  pl_tasks :: "task list"
  pl_durability :: durability

definition graph_error :: "message \<Rightarrow> string \<Rightarrow> agent_error" where
  "graph_error m loc = TypeContract ((failure_new StageInput m)\<lparr>tf_location := Some loc\<rparr>)"

text \<open>The text of the errors that the check of an id gives.\<close>

fun argument_message :: "agent_error \<Rightarrow> message" where
  "argument_message (InvalidArgument (Msg s)) = msg (''invalid argument: '' @ s)"
| "argument_message (InvalidArgument (ComponentMsg e)) = [Lit ''invalid argument: '', KeyError e]"
| "argument_message (InvalidArgument (ArgMessage m)) = Lit ''invalid argument: '' # m"
| "argument_message _ = []"

definition spec_contract :: "graph_spec \<Rightarrow> graph_task_spec \<Rightarrow> task_contract" where
  "spec_contract spec t =
     \<lparr>tk_version = gp_version spec, tk_types = gp_types spec, tk_input = gs_input t, tk_output = gs_output t,
      tk_exit_codes = gs_exit_codes t, tk_merge_conflict = gs_merge_conflict t, tk_bindings = gs_bindings t,
      tk_mapping = gs_mapping t, tk_postprocess = gs_postprocess t, tk_transitions = gs_transitions t\<rparr>"

definition planned_task :: "u32 \<Rightarrow> string \<Rightarrow> u64 \<Rightarrow> graph_spec \<Rightarrow> graph_task_spec \<Rightarrow> jobject \<Rightarrow> task" where
  "planned_task ws gid now spec t metadata =
     (new_task (gs_id t)
       \<lparr>co_workspace = ws, co_name = (case gs_name t of None \<Rightarrow> gs_id t | Some n \<Rightarrow> n), co_command = gs_command t,
        co_depends_on = gs_depends_on t, co_on_failure = gs_on_failure t,
        co_metadata = JObj (if map_of metadata ''dag'' = None then obj_insert ''dag'' (JStr gid) metadata else metadata),
        co_now = now\<rparr> (Some (spec_contract spec t)))\<lparr>t_graph := Some gid\<rparr>"

definition tasks_at :: "nat \<Rightarrow> string" where
  "tasks_at i = ''/tasks/'' @ show_nat i"

definition plan_node ::
  "u32 \<Rightarrow> string \<Rightarrow> u64 \<Rightarrow> graph_spec \<Rightarrow> string list \<Rightarrow> task list \<Rightarrow> nat \<Rightarrow> graph_task_spec \<Rightarrow> agent_error + task" where
  "plan_node ws gid now spec existing_ids planned i t =
     (case sbind (typed_task_key (gs_id t)) (\<lambda>_. check_report_key_room (gs_id t)) of
        Inl e \<Rightarrow> Inl (graph_error (argument_message e) (tasks_at i @ ''/id''))
      | Inr _ \<Rightarrow>
          if gs_id t \<in> set existing_ids
          then Inl (graph_error (msg (''task id '' @ gs_id t @ '' already exists in this workspace'')) (tasks_at i @ ''/id''))
          else if gs_id t \<in> t_id ` set planned
          then Inl (graph_error (msg (''task id '' @ gs_id t @ '' appears more than once in the graph'')) (tasks_at i @ ''/id''))
          else case gs_metadata t of
            JNull \<Rightarrow> Inr (planned_task ws gid now spec t [])
          | JObj m \<Rightarrow> Inr (planned_task ws gid now spec t m)
          | _ \<Rightarrow> Inl (graph_error (msg ''metadata must be an object'') (tasks_at i @ ''/metadata'')))"

fun plan_nodes ::
  "u32 \<Rightarrow> string \<Rightarrow> u64 \<Rightarrow> graph_spec \<Rightarrow> string list \<Rightarrow> task list \<Rightarrow> nat \<Rightarrow> graph_task_spec list \<Rightarrow>
   agent_error + task list" where
  "plan_nodes ws gid now spec existing_ids planned i [] = Inr planned"
| "plan_nodes ws gid now spec existing_ids planned i (t # ts) =
     sbind (plan_node ws gid now spec existing_ids planned i t) (\<lambda>p.
       plan_nodes ws gid now spec existing_ids (planned @ [p]) (Suc i) ts)"

text \<open>The references of a task lead to tasks: the first that does not is reported.\<close>

definition check_found ::
  "(string \<Rightarrow> task option) \<Rightarrow> string \<Rightarrow> string \<Rightarrow> string \<Rightarrow> string list \<Rightarrow> agent_error + unit" where
  "check_found lookup tid what loc ids =
     (case find (\<lambda>(j, i). lookup i = None) (enumerate 0 ids) of
        None \<Rightarrow> Inr ()
      | Some (j, i) \<Rightarrow> Inl (graph_error (msg (''task '' @ tid @ '': '' @ what @ '' task not found: '' @ i))
          (loc @ ''/'' @ show_nat j)))"

definition check_planned ::
  "task_env \<Rightarrow> memory \<Rightarrow> task list \<Rightarrow> (string \<Rightarrow> task option) \<Rightarrow> nat \<times> task \<Rightarrow> agent_error + unit" where
  "check_planned env m planned lookup = (\<lambda>(i, t).
     let at' = tasks_at i in
     sbind (check_found lookup (t_id t) ''depends_on'' (at' @ ''/depends_on'') (t_depends_on t)) (\<lambda>_.
     sbind (check_found lookup (t_id t) ''reduce input'' (at' @ ''/command/inputs'') (reduce_inputs t)) (\<lambda>_.
     sbind (case t_on_failure t of
              Fallback (Some fb) _ \<Rightarrow>
                if lookup fb = None
                then Inl (graph_error (msg (''task '' @ t_id t @ '': fallback task not found: '' @ fb))
                       (at' @ ''/on_failure/task''))
                else Inr ()
            | _ \<Rightarrow> Inr ()) (\<lambda>_.
     sbind (map_err (\<lambda>why. graph_error (msg why) at') (check_record env m t ''the definition'')) (\<lambda>_.
     sbind (map_err TypeContract (check_task (m_text m) (ev_plugins env) t at' lookup)) (\<lambda>_.
       map_err TypeContract (check_transitions (m_text m) t at' planned lookup)))))))"

definition find_planned :: "task list \<Rightarrow> task list \<Rightarrow> string \<Rightarrow> task option" where
  "find_planned planned existing i =
     (case find (\<lambda>t. t_id t = i) planned of
        Some t \<Rightarrow> Some t
      | None \<Rightarrow> find (\<lambda>t. t_id t = i) existing)"

definition check_graph :: "task_env \<Rightarrow> memory \<Rightarrow> task list \<Rightarrow> task list \<Rightarrow> agent_error + unit" where
  "check_graph env m existing planned =
     sbind (collect (check_planned env m planned (find_planned planned existing)) (enumerate 0 planned)) (\<lambda>_.
     sbind (map_err TypeContract (check_route_inputs planned (existing @ planned))) (\<lambda>_.
     case detect_cycles (build (ev_tasks env) (existing @ planned)) of
       Inl (DependencyCycle cycle) \<Rightarrow>
         Inl (graph_error (msg (''dependency cycle: '' @ joined '' -> '' cycle)) ''/tasks'')
     | _ \<Rightarrow> Inr ()))"

definition check_spec_size :: "graph_spec \<Rightarrow> agent_error + unit" where
  "check_spec_size spec =
     (if gp_version spec \<noteq> 2
      then Inl (graph_error (msg (''unsupported contract_version '' @ show_nat (unat (gp_version spec)) @
             '' (supported: 2)'')) ''/contract_version'')
      else if gp_tasks spec = [] then Inl (graph_error (msg ''a task graph needs at least one task'') ''/tasks'')
      else if max_graph_tasks < length (gp_tasks spec)
      then Inl (graph_error (msg (''a task graph holds at most '' @ show_nat max_graph_tasks @ '' tasks, got '' @
             show_nat (length (gp_tasks spec)) @ ''; split it into smaller graphs'')) ''/tasks'')
      else Inr ())"

definition plan_graph :: "task_env \<Rightarrow> u32 \<Rightarrow> graph_spec \<Rightarrow> u64 \<Rightarrow> graph_plan store_op" where
  "plan_graph env ws spec now =
     bnd (pure_of (check_spec_size spec)) (\<lambda>_.
     bnd (read_mem (\<lambda>m. task_list env m ws)) (\<lambda>existing.
     bnd (unused_graph_id now existing) (\<lambda>gid.
     bnd (pure_of (plan_nodes ws gid now spec (map t_id existing) [] 0 (gp_tasks spec))) (\<lambda>planned.
     bnd (read_mem (\<lambda>m. check_graph env m existing planned)) (\<lambda>_.
       ret \<lparr>pl_workspace = ws, pl_graph = gid, pl_tasks = planned, pl_durability = gp_durability spec\<rparr>)))))"

text \<open>What was stored is deleted again; a deletion that fails is passed over.\<close>

fun rollback_staged :: "task_env \<Rightarrow> u32 \<Rightarrow> task list \<Rightarrow> task_store \<Rightarrow> task_store" where
  "rollback_staged env ws [] s = s"
| "rollback_staged env ws (t # ts) s = rollback_staged env ws ts (snd (task_delete env ws (t_id t) s))"

fun stage_tasks :: "task_env \<Rightarrow> u32 \<Rightarrow> task list \<Rightarrow> task list \<Rightarrow> unit store_op" where
  "stage_tasks env ws written [] s = (Inr (), s)"
| "stage_tasks env ws written (t # ts) s =
     (case task_put env t s of
        (Inl e, s') \<Rightarrow> (Inl e, rollback_staged env ws written s')
      | (Inr _, s') \<Rightarrow> stage_tasks env ws (written @ [t]) ts s')"

definition stage_graph :: "task_env \<Rightarrow> graph_plan \<Rightarrow> unit store_op" where
  "stage_graph env plan = stage_tasks env (pl_workspace plan) [] (pl_tasks plan)"

definition graph_record :: "graph_plan \<Rightarrow> u64 \<Rightarrow> json" where
  "graph_record plan now = jstruct
     [(''record_format'', Some (JStr ''tasty.task_graph/v1'')), (''graph_id'', Some (JStr (pl_graph plan))),
      (''task_ids'', Some (JArr (map (\<lambda>t. JStr (t_id t)) (pl_tasks plan)))), (''activated_at'', Some (ju64 now)),
      (''durability'', Some (JStr (durability_name (pl_durability plan))))]"

definition apply_graph_readiness :: "task_env \<Rightarrow> graph_plan \<Rightarrow> u64 \<Rightarrow> task list store_op" where
  "apply_graph_readiness env plan now =
     (let ws = pl_workspace plan; ids = map t_id (pl_tasks plan) in
      bnd (read_mem (\<lambda>m. task_list env m ws)) (\<lambda>all.
      bnd (settle_waiting env ws all ids now) (\<lambda>settled.
      bnd (cascade_each env ws now (map t_id (filter (\<lambda>t. is_terminal (t_state t)) settled))) (\<lambda>_.
      bnd (read_mem (\<lambda>m. task_list env m ws)) (\<lambda>after. ret (filter (\<lambda>t. t_id t \<in> set ids) after))))))"

definition partially_activated :: "string \<Rightarrow> halted \<Rightarrow> halted" where
  "partially_activated gid e =
     (case e of Failing x \<Rightarrow> Failing (GraphPartiallyActivated gid x) | Endless \<Rightarrow> Endless)"

definition activate_graph :: "task_env \<Rightarrow> graph_plan \<Rightarrow> u64 \<Rightarrow> task list store_op" where
  "activate_graph env plan now s =
     (case bnd (pure_of (graph_key (pl_graph plan))) (\<lambda>key.
         on_mem (kv_put (ev_owner env) (pl_workspace plan) key (graph_record plan now))) s of
        (Inl e, s') \<Rightarrow> (Inl e, rollback_staged env (pl_workspace plan) (pl_tasks plan) s')
      | (Inr _, s') \<Rightarrow>
          (case apply_graph_readiness env plan now s' of
             (r, s'') \<Rightarrow> (map_err (partially_activated (pl_graph plan)) r, s'')))"

definition submit_graph :: "task_env \<Rightarrow> u32 \<Rightarrow> graph_spec \<Rightarrow> u64 \<Rightarrow> (string \<times> task list) store_op" where
  "submit_graph env ws spec now =
     bnd (plan_graph env ws spec now) (\<lambda>plan.
     bnd (stage_graph env plan) (\<lambda>_.
     bnd (activate_graph env plan now) (\<lambda>ts. ret (pl_graph plan, ts))))"

end
