(* ===== verification/Task_Demo.thy ===== *)
theory Task_Demo
  imports Task_Submit Sample_Codec
begin

text \<open>
  An environment to run the stores in: the JSON form of the tasks that are as plain as the samples,
  with their ids, dependencies, states, times and the fallback they name. What has no such form is
  written as a null that is not read back, as a record of another version would be.
\<close>

definition plain_task ::
  "string \<Rightarrow> string \<Rightarrow> string list \<Rightarrow> task_state \<Rightarrow> on_failure \<Rightarrow> u64 option \<Rightarrow> u64 option \<Rightarrow> task" where
  "plain_task i name deps st f started finished =
     (sample_task i deps)\<lparr>t_name := name, t_state := st, t_on_failure := f, t_started := started, t_finished := finished\<rparr>"

definition opt_num :: "u64 option \<Rightarrow> json" where
  "opt_num o' = (case o' of None \<Rightarrow> JNull | Some n \<Rightarrow> JNum (PosInt n))"

fun num_opt :: "json \<Rightarrow> u64 option option" where
  "num_opt JNull = Some None"
| "num_opt (JNum (PosInt n)) = Some (Some n)"
| "num_opt _ = None"

definition demo_states :: "task_state list" where
  "demo_states = [Waiting, Ready, Running, Succeeded, Failed (msg ''lost''), Cancelled, Skipped]"

fun fallback_json :: "on_failure \<Rightarrow> json" where
  "fallback_json (Fallback (Some i) None) = JStr i"
| "fallback_json _ = JNull"

definition json_fallback :: "json \<Rightarrow> on_failure" where
  "json_fallback v = (case v of JStr i \<Rightarrow> Fallback (Some i) None | _ \<Rightarrow> AbortOnFailure)"

definition demo_dec :: "json \<Rightarrow> task option" where
  "demo_dec v =
     (case v of
        JArr [JStr i, JStr name, JArr deps, JStr st, f, started, finished] \<Rightarrow>
          Option.bind (those (map un_str deps)) (\<lambda>ds.
          Option.bind (find (\<lambda>x. state_name x = st) demo_states) (\<lambda>x.
          Option.bind (num_opt started) (\<lambda>n1.
          Option.bind (num_opt finished) (\<lambda>n2.
            Some (plain_task i name ds x (json_fallback f) n1 n2)))))
      | _ \<Rightarrow> None)"

definition demo_json :: "task \<Rightarrow> json" where
  "demo_json t = JArr [JStr (t_id t), JStr (t_name t), JArr (map JStr (t_depends_on t)),
     JStr (state_name (t_state t)), fallback_json (t_on_failure t), opt_num (t_started t), opt_num (t_finished t)]"

definition demo_enc :: "task \<Rightarrow> json" where
  "demo_enc t = (if demo_dec (demo_json t) = Some t then demo_json t else JNull)"

lemma demo_exact: "demo_dec (demo_enc t) = Some t' \<Longrightarrow> t' = t"
  by (auto simp: demo_enc_def split: if_splits) (simp add: demo_dec_def)

definition demo_env :: task_env where
  "demo_env =
     \<lparr>ev_owner = ''agent'', ev_tasks = (\<lambda>ts. ts), ev_ids = (\<lambda>ids. ids), ev_enc = demo_enc, ev_dec = demo_dec,
      ev_enc_block = (\<lambda>b. JNull), ev_dec_block = (\<lambda>j. None), ev_plugins = (\<lambda>p. NoOwner),
      ev_render = (\<lambda>m. []), ev_ptr = (\<lambda>v p. None), ev_uuid = (\<lambda>n. show_nat n), ev_uuid_ok = (\<lambda>s. True)\<rparr>"

definition demo_start :: task_store where
  "demo_start = \<lparr>ts_mem = demo_open, ts_seq = 0, ts_drawn = 0\<rparr>"

definition demo_opts :: "string list \<Rightarrow> on_failure \<Rightarrow> u64 \<Rightarrow> create_opts" where
  "demo_opts deps f now =
     \<lparr>co_workspace = 1, co_name = ''sample'', co_command = Run [''true''] 1 None, co_depends_on = deps,
      co_on_failure = f, co_metadata = JNull, co_now = now\<rparr>"

end
