(* ===== verification/Task_Sweep_Laws.thy ===== *)
theory Task_Sweep_Laws
  imports Task_Demo Task_Graph_Laws
begin

text \<open>
  What a sweep takes and what a deletion takes with it: the references between the tasks that remain
  are never broken, and a sweep takes all that it may.
\<close>

section \<open>Sweeps\<close>

text \<open>The tasks a sweep is asked for: those the filter takes and the caller does not keep.\<close>

definition sweepable :: "task list \<Rightarrow> purge_filter \<Rightarrow> string list \<Rightarrow> string set" where
  "sweepable all f keep = {t_id t |t. t \<in> set all \<and> purge_matches f t} - set keep"

text \<open>No task outside of \<open>D\<close> refers to one of \<open>D\<close>.\<close>

definition unreferenced :: "task list \<Rightarrow> string set \<Rightarrow> bool" where
  "unreferenced all D \<longleftrightarrow> (\<forall>i \<in> D. set (referencing_task_ids all i) \<subseteq> D)"

lemma blocked_empty: "blocked all el = [] \<longleftrightarrow> unreferenced all (set el)"
  by (auto simp: blocked_def unreferenced_def filter_empty_conv)

lemma unreferenced_survives:
  assumes "unreferenced all D" "D \<subseteq> set el"
  shows "D \<subseteq> set (filter (\<lambda>i. i \<notin> set (blocked all el)) el)"
  using assms by (auto simp: unreferenced_def blocked_def)

lemma sweep_loop_sub: "set (sweep_loop all el) \<subseteq> set el \<and> unreferenced all (set (sweep_loop all el))"
proof (induction all el rule: sweep_loop.induct)
  case (1 all el)
  then show ?case
    using blocked_empty [of all el] by (subst (1 2) sweep_loop.simps) auto
qed

lemma sweep_loop_greatest: "unreferenced all D \<Longrightarrow> D \<subseteq> set el \<Longrightarrow> D \<subseteq> set (sweep_loop all el)"
proof (induction all el rule: sweep_loop.induct)
  case (1 all el)
  then show ?case
    using unreferenced_survives [of all D el] by (subst sweep_loop.simps) simp
qed

lemma sweep_loop_distinct: "distinct el \<Longrightarrow> distinct (sweep_loop all el)"
proof (induction all el rule: sweep_loop.induct)
  case (1 all el)
  then show ?case by (subst sweep_loop.simps) simp
qed

lemma sweep_loop_union:
  "set (sweep_loop all el) = \<Union>{D. D \<subseteq> set el \<and> unreferenced all D}"
  using sweep_loop_sub [of all el] sweep_loop_greatest [of all _ el] by blast

text \<open>C12. A sweep deletes the largest set of the tasks it is asked for that no other task refers to:
  every such set is deleted with it, what is asked for but referred to is reported as retained and
  what the caller keeps as skipped; each report is sorted and names a task once.\<close>

theorem sweep_takes_all_unreferenced:
  "let plan = sweep_of all f keep; D = set (sw_deleted plan)
   in D = \<Union>{E. E \<subseteq> sweepable all f keep \<and> unreferenced all E} \<and> unreferenced all D
      \<and> set (sw_retained plan) = sweepable all f keep - D
      \<and> set (sw_skipped plan) = {t_id t |t. t \<in> set all \<and> purge_matches f t} \<inter> set keep
      \<and> distinct (sw_deleted plan @ sw_retained plan @ sw_skipped plan)
      \<and> sorted (sw_deleted plan) \<and> sorted (sw_retained plan) \<and> sorted (sw_skipped plan)"
proof -
  let ?matching = "remdups (map t_id (filter (purge_matches f) all))"
  let ?cands = "filter (\<lambda>i. i \<notin> set keep) ?matching"
  have "set ?cands = sweepable all f keep" by (auto simp: sweepable_def)
  then show ?thesis
    using sweep_loop_union [of all ?cands] sweep_loop_sub [of all ?cands] sweep_loop_distinct [of ?cands all]
    by (auto simp: sweep_of_def Let_def sweepable_def)
qed

section \<open>Deletions\<close>

lemma referencing_closed:
  assumes "transitive_referencing_task_ids all tid = Some out"
  shows "unreferenced all (insert tid (set out))"
proof -
  let ?R = "{(a, b). b \<in> set (referencing_task_ids all a)}"
  have out: "set out = {y. (tid, y) \<in> ?R\<^sup>+}"
    using refs.closure_total [of all tid] assms by (simp add: transitive_referencing_task_ids_def)
  show ?thesis
    unfolding unreferenced_def
  proof (intro ballI subsetI)
    fix i j assume "i \<in> insert tid (set out)" "j \<in> set (referencing_task_ids all i)"
    then show "j \<in> insert tid (set out)"
      unfolding out by (auto intro: trancl_into_trancl)
  qed
qed

text \<open>The tasks that refer to a task, directly or through others.\<close>

definition referrers :: "task list \<Rightarrow> string \<Rightarrow> string set" where
  "referrers all tid = {i. (tid, i) \<in> {(a, b). b \<in> set (referencing_task_ids all a)}\<^sup>+}"

definition runs_in :: "task list \<Rightarrow> string \<Rightarrow> bool" where
  "runs_in all i \<longleftrightarrow> (\<exists>t \<in> set all. t_id t = i \<and> t_state t = Running)"

lemma found_runs:
  assumes "distinct (map t_id all)"
  shows "(case find (\<lambda>t. t_id t = i) all of None \<Rightarrow> False | Some t \<Rightarrow> t_state t = Running) \<longleftrightarrow> runs_in all i"
proof (cases "find (\<lambda>t. t_id t = i) all")
  case None
  then have "\<not> runs_in all i" by (auto simp: find_None_iff runs_in_def)
  with None show ?thesis by simp
next
  case (Some t)
  then have t: "t \<in> set all" "t_id t = i" using find_Some_iff_distinct [OF assms] by auto
  have "inj_on t_id (set all)" using assms by (simp add: distinct_map)
  then have "t' = t" if "t' \<in> set all" "t_id t' = i" for t'
    using that t by (auto dest: inj_onD)
  then have "runs_in all i \<longleftrightarrow> t_state t = Running" unfolding runs_in_def using t by blast
  with Some show ?thesis by simp
qed

lemma running_among_exact: "distinct (map t_id all) \<Longrightarrow> running_among all ids = find (runs_in all) ids"
  by (simp add: running_among_def found_runs)

text \<open>C13. What a deletion settles on, in each of its modes; the store is not touched by settling. With
  the cascade it is exactly the task and all that refer to it, directly or not, so that nothing left
  refers to one of them, and it is refused with the name of a running one while any of them runs.
  Without it and not forced it is the task alone, and it is refused with the tasks that refer to it
  while there are any. Forced without the cascade it is the task alone, and what refers to it keeps
  referring to it.\<close>

theorem deletion_targets_exact:
  assumes "distinct (map t_id all)" and "\<And>xs. set (ev_ids env xs) = set xs"
    and "delete_targets env all tid opts s = (r, s')" and "whole = insert tid (referrers all tid)"
  shows "s' = s \<and> unreferenced all whole \<and>
    (if do_cascade opts
     then if \<exists>i \<in> whole. runs_in all i
       then \<exists>i \<in> whole. runs_in all i \<and> r = Inl (Failing (TaskRunning i))
       else \<exists>ids. r = Inr ids \<and> set ids = whole
     else if \<not> do_force opts \<and> referrers all tid \<noteq> {}
       then r = Inl (Failing (TaskReferenced tid (referencing_task_ids all tid)))
       else r = Inr [tid] \<and> (unreferenced all {tid} \<longleftrightarrow> referrers all tid \<subseteq> {tid}))"
proof -
  obtain refs where refs: "transitive_referencing_task_ids all tid = Some refs"
    using refs.closure_total [of all tid] by (auto simp: transitive_referencing_task_ids_def)
  have whole: "whole = insert tid (set refs)"
    using refs.closure_total [of all tid] refs assms(4) by (simp add: transitive_referencing_task_ids_def referrers_def)
  have none: "referrers all tid = {} \<longleftrightarrow> referencing_task_ids all tid = []"
  proof
    assume "referrers all tid = {}"
    then have "i \<notin> set (referencing_task_ids all tid)" for i
      using r_into_trancl [of tid i "{(a, b). b \<in> set (referencing_task_ids all a)}"] by (auto simp: referrers_def)
    then show "referencing_task_ids all tid = []" by (cases "referencing_task_ids all tid") auto
  qed (auto simp: referrers_def dest: tranclD)
  have alone: "unreferenced all {tid} \<longleftrightarrow> referrers all tid \<subseteq> {tid}"
  proof
    assume u: "unreferenced all {tid}"
    have "i = tid" if "(tid, i) \<in> {(a, b). b \<in> set (referencing_task_ids all a)}\<^sup>+" for i
      using that by (induction rule: trancl_induct) (use u in \<open>auto simp: unreferenced_def\<close>)
    then show "referrers all tid \<subseteq> {tid}" by (auto simp: referrers_def)
  qed (auto simp: unreferenced_def referrers_def)
  have sub: "unreferenced all whole" unfolding whole by (rule referencing_closed [OF refs])
  show ?thesis
  proof (cases "do_cascade opts")
    case True
    define seen where "seen = ev_ids env (remdups (tid # refs))"
    have seen: "set seen = whole" unfolding seen_def whole by (subst assms(2)) (simp add: insert_absorb)
    have run: "delete_targets env all tid opts s =
        (case find (runs_in all) seen of Some i \<Rightarrow> Inl (Failing (TaskRunning i)) | None \<Rightarrow> Inr seen, s)"
      unfolding delete_targets_def refs running_among_exact [OF assms(1)] Let_def search_result_def option.case
      by (simp add: True bnd_def ret_def fail_def seen_def del: remdups.simps split: option.split)
    show ?thesis
    proof (cases "find (runs_in all) seen")
      case None
      then have "\<not> (\<exists>i \<in> whole. runs_in all i)" using seen by (auto simp: find_None_iff)
      with None run assms(3) seen sub True show ?thesis by simp
    next
      case (Some i)
      then have "runs_in all i" "i \<in> whole" using seen by (auto simp: find_Some_iff)
      with Some run assms(3) sub True show ?thesis by auto
    qed
  next
    case False
    with assms(3) none alone sub show ?thesis
      by (auto simp: delete_targets_def ret_def fail_def split: if_splits)
  qed
qed

text \<open>A task that one other waits for, deleted with it.\<close>

definition sweep_all :: "task list" where
  "sweep_all = [sample_task ''a'' [], sample_task ''b'' [''a''], sample_task ''c'' []]"

definition sweep_cascade :: delete_opts where
  "sweep_cascade = \<lparr>do_cascade = True, do_force = False\<rparr>"

lemma sweep_demo:
  "delete_targets demo_env sweep_all ''a'' sweep_cascade s = (Inr [''a'', ''b''], s)"
proof -
  have "transitive_referencing_task_ids sweep_all ''a'' = Some [''b'']" by code_simp
  moreover have "running_among sweep_all [''a'', ''b''] = None" by code_simp
  ultimately show ?thesis
    by (simp add: delete_targets_def sweep_cascade_def search_result_def bnd_def ret_def Let_def demo_env_def)
qed

theorem deletion_targets_exact_witness:
  "unreferenced sweep_all (insert ''a'' (referrers sweep_all ''a'')) \<and> insert ''a'' (referrers sweep_all ''a'') = {''a'', ''b''}"
proof -
  have "distinct (map t_id sweep_all)" by code_simp
  from deletion_targets_exact [OF this _ sweep_demo [of undefined] refl] show ?thesis
    by (auto simp: demo_env_def sweep_cascade_def split: if_splits)
qed

end
