(* ===== verification/Task_Records_Laws.thy ===== *)
theory Task_Records_Laws
  imports Task_Submit Task_Attempt_Laws
begin

text \<open>
  The records of the tasks as a map from workspaces and ids to tasks: what a lookup, a listing, a write
  of a record and a write of anything else do to it. A record that serde does not read back is an
  error of every lookup; the laws say so instead of excluding it.
\<close>

section \<open>Lookups\<close>

lemma sbind_run [simp]: "sbind (Inl e) f = Inl e" "sbind (Inr x) f = f x"
  by (simp_all add: sbind_def)

lemma kv_get_entry: "kv_get m ws k = sbind (mem_entry_at m ws k) (\<lambda>o'. Inr (map_option e_value o'))"
  by (simp add: kv_get_def mem_entry_at_def sbind_def map_err_def split: sum.split)

lemma task_get_eq:
  "task_get env m ws i =
     sbind (task_key i) (\<lambda>k1.
     sbind (kv_get m ws k1) (\<lambda>o1.
     case o1 of
       Some v \<Rightarrow> sbind (decode_v1_record env v i) (\<lambda>t. Inr (Some t))
     | None \<Rightarrow>
         sbind (typed_task_key i) (\<lambda>k2.
         sbind (kv_get m ws k2) (\<lambda>o2.
         case o2 of
           Some v \<Rightarrow> sbind (decode_typed_record env v i) (\<lambda>t. Inr (Some t))
         | None \<Rightarrow> Inr None))))"
  by (simp add: task_get_def read_record_def kv_get_entry sbind_def split: sum.split option.split)

lemma task_keys:
  "task_key i = Inr k \<longleftrightarrow> validate_key (task_prefix @ i) = Inr () \<and> k = task_prefix @ i"
  "typed_task_key i = Inr k \<longleftrightarrow> validate_key (typed_task_prefix @ i) = Inr () \<and> k = typed_task_prefix @ i"
  by (simp_all add: task_key_def typed_task_key_def agent_key_ok)

lemma task_get_cong:
  assumes "kv_get m' ws (task_prefix @ i) = kv_get m ws (task_prefix @ i)"
    and "kv_get m' ws (typed_task_prefix @ i) = kv_get m ws (typed_task_prefix @ i)"
  shows "task_get env m' ws i = task_get env m ws i"
proof -
  have "task_key i = Inr k \<Longrightarrow> kv_get m' ws k = kv_get m ws k"
    "typed_task_key i = Inr k \<Longrightarrow> kv_get m' ws k = kv_get m ws k" for k
    using assms by (simp_all add: task_keys)
  note same = this
  show ?thesis
  proof (cases "task_key i")
    case (Inr k)
    then have "kv_get m' ws k = kv_get m ws k" by (rule same)
    moreover have "sbind (typed_task_key i) (\<lambda>k2. sbind (kv_get m' ws k2) f) =
        sbind (typed_task_key i) (\<lambda>k2. sbind (kv_get m ws k2) f)" for f :: "_ \<Rightarrow> agent_error + task option"
      by (rule sbind_cong) (simp_all add: same)
    ultimately show ?thesis unfolding task_get_eq Inr sbind_run by (simp split: option.split)
  qed (simp add: task_get_eq)
qed

lemma task_get_Some:
  "task_get env m ws i = Inr (Some t) \<longleftrightarrow>
     validate_key (task_prefix @ i) = Inr () \<and>
     ((\<exists>v. kv_get m ws (task_prefix @ i) = Inr (Some v) \<and> decode_v1_record env v i = Inr t) \<or>
      kv_get m ws (task_prefix @ i) = Inr None \<and> validate_key (typed_task_prefix @ i) = Inr () \<and>
      (\<exists>v. kv_get m ws (typed_task_prefix @ i) = Inr (Some v) \<and> decode_typed_record env v i = Inr t))"
  unfolding task_get_eq sbind_Inr_iff task_keys
  by (auto simp: sbind_Inr_iff task_keys split: option.splits)

lemma task_get_None:
  "task_get env m ws i = Inr None \<longleftrightarrow>
     validate_key (task_prefix @ i) = Inr () \<and> kv_get m ws (task_prefix @ i) = Inr None \<and>
     validate_key (typed_task_prefix @ i) = Inr () \<and> kv_get m ws (typed_task_prefix @ i) = Inr None"
  unfolding task_get_eq sbind_Inr_iff task_keys
  by (auto simp: sbind_Inr_iff task_keys split: option.splits)

lemma decode_v1_untyped: "decode_v1_record env v i = Inr t \<Longrightarrow> \<not> is_typed t \<and> is_json v"
  by (auto simp: decode_v1_record_def split: mem_value.splits option.splits if_splits)

lemma decode_typed_typed: "decode_typed_record env v i = Inr t \<Longrightarrow> is_typed t"
  by (auto simp: decode_typed_record_def Let_def split: mem_value.splits option.splits if_splits)

text \<open>The label of a decoding only shows in its errors.\<close>

lemma decode_label:
  "decode_v1_record env v l = Inr t \<longleftrightarrow> decode_v1_record env v l' = Inr t"
  "decode_typed_record env v l = Inr t \<longleftrightarrow> decode_typed_record env v l' = Inr t"
  by (auto simp: decode_v1_record_def decode_typed_record_def Let_def
      split: mem_value.splits option.splits if_splits)

section \<open>Stores in order\<close>

text \<open>
  What the laws say of a record: the fields that its JSON form keeps whatever the messages in it read
  like. \<open>hush\<close> leaves the message of a state out, which is rendered when it is written.
\<close>

fun hush :: "task_state \<Rightarrow> task_state" where
  "hush (Failed e) = Failed []"
| "hush (Unknown r) = Unknown None"
| "hush st = st"

record task_look =
  lk_id :: string
  lk_workspace :: u32
  lk_name :: string
  lk_depends_on :: "string list"
  lk_created :: u64
  lk_graph :: "string option"
  lk_typed :: bool
  lk_routes :: bool
  lk_state :: task_state
  lk_finished :: "u64 option"
  lk_exit :: "int option option"
  lk_output :: bool
  lk_route :: "route_decision option"
  lk_skip :: "skip_reason option"

definition look :: "task \<Rightarrow> task_look" where
  "look t =
     \<lparr>lk_id = t_id t, lk_workspace = t_workspace t, lk_name = t_name t, lk_depends_on = t_depends_on t,
      lk_created = t_created t, lk_graph = t_graph t, lk_typed = is_typed t,
      lk_routes = (Option.bind (t_contract t) tk_transitions \<noteq> None), lk_state = hush (t_state t),
      lk_finished = t_finished t, lk_exit = map_option res_exit (t_result t),
      lk_output = (case t_typed_result t of None \<Rightarrow> False | Some r \<Rightarrow> tr_has_output r \<and> tr_error r = None),
      lk_route = t_route t, lk_skip = t_skip t\<rparr>"

text \<open>What serde reads back looks like what was written, if it reads it at all.\<close>

definition faithful :: "task_env \<Rightarrow> bool" where
  "faithful env \<longleftrightarrow> (\<forall>t t'. ev_dec env (ev_enc env t) = Some t' \<longrightarrow> look t' = look t)"

text \<open>Each record is under the key of its own id and workspace, in one of the two places.\<close>

definition good_slots :: "task_env \<Rightarrow> memory \<Rightarrow> bool" where
  "good_slots env m \<longleftrightarrow>
     (\<forall>ws i v. kv_get m ws (task_prefix @ i) = Inr (Some v) \<longrightarrow>
        is_json v \<and> (\<forall>w. kv_get m ws (typed_task_prefix @ i) \<noteq> Inr (Some w)) \<and>
        (\<forall>t. decode_v1_record env v i = Inr t \<longrightarrow> t_id t = i \<and> t_workspace t = ws)) \<and>
     (\<forall>ws i v t. kv_get m ws (typed_task_prefix @ i) = Inr (Some v) \<longrightarrow>
        decode_typed_record env v i = Inr t \<longrightarrow> t_id t = i \<and> t_workspace t = ws)"

definition records_ok :: "task_env \<Rightarrow> memory \<Rightarrow> bool" where
  "records_ok env m \<longleftrightarrow> mem_wf m \<and> rows_plain m \<and> (\<forall>v. text_stable m v) \<and> good_slots env m"

lemma good_slotsD:
  assumes "good_slots env m"
  shows "kv_get m ws (task_prefix @ i) = Inr (Some v) \<Longrightarrow> is_json v"
    and "kv_get m ws (task_prefix @ i) = Inr (Some v) \<Longrightarrow> kv_get m ws (typed_task_prefix @ i) \<noteq> Inr (Some w)"
    and "kv_get m ws (task_prefix @ i) = Inr (Some v) \<Longrightarrow> decode_v1_record env v i = Inr t \<Longrightarrow>
      t_id t = i \<and> t_workspace t = ws"
    and "kv_get m ws (typed_task_prefix @ i) = Inr (Some v) \<Longrightarrow> decode_typed_record env v i = Inr t \<Longrightarrow>
      t_id t = i \<and> t_workspace t = ws"
  using assms unfolding good_slots_def by blast+

lemma got_task:
  assumes "good_slots env m" "task_get env m ws i = Inr (Some t)"
  shows "t_id t = i \<and> t_workspace t = ws"
  using assms(2) good_slotsD(3,4) [OF assms(1)] unfolding task_get_Some by blast

section \<open>Writes\<close>

definition foreign :: "string \<Rightarrow> bool" where
  "foreign k \<longleftrightarrow> (\<forall>i. k \<noteq> task_prefix @ i \<and> k \<noteq> typed_task_prefix @ i)"

lemma prefix_differs:
  assumes "length p \<le> length q" "take (length p) q \<noteq> p"
  shows "q @ b \<noteq> p @ a"
proof
  assume "q @ b = p @ a"
  then have "take (length p) (q @ b) = take (length p) (p @ a)" by simp
  with assms show False by simp
qed

lemma foreign_keys:
  "foreign (terminal_prefix @ x)" "foreign (task_graph_prefix @ x)"
  "foreign (''tasty.agent.task_report.'' @ x)" "foreign (''tasty.agent.task_report_auto.'' @ x)"
  unfolding foreign_def
  by (auto intro!: prefix_differs prefix_differs [symmetric]
      simp: terminal_prefix_def task_graph_prefix_def task_prefix_def typed_task_prefix_def)

lemma slots_differ: "task_prefix @ i \<noteq> typed_task_prefix @ j"
  by (rule prefix_differs [symmetric]) (simp_all add: task_prefix_def typed_task_prefix_def)

text \<open>The memory after a write of the keys \<open>K\<close>, as far as the stores look at it.\<close>

definition writes :: "(u32 \<times> string) set \<Rightarrow> memory \<Rightarrow> memory \<Rightarrow> bool" where
  "writes K m m' \<longleftrightarrow> same_env m m' \<and> (mem_wf m \<longrightarrow> mem_wf m') \<and> (rows_plain m \<longrightarrow> rows_plain m') \<and>
     (\<forall>ws k. (ws, k) \<notin> K \<longrightarrow> kv_get m' ws k = kv_get m ws k)"

lemma writes_refl: "writes K m m"
  by (simp add: writes_def)

lemma writes_trans: "writes K m m' \<Longrightarrow> writes K m' m'' \<Longrightarrow> writes K m m''"
  by (auto simp: writes_def intro: same_env_trans)

lemma writes_mono: "writes K m m' \<Longrightarrow> K \<subseteq> L \<Longrightarrow> writes L m m'"
  unfolding writes_def by blast

lemma kv_put_writes: "kv_put owner ws k v m = (r, m') \<Longrightarrow> writes {(ws, k)} m m'"
  by (auto simp: writes_def kv_put_env kv_put_wf kv_put_rows_plain intro: kv_put_other)

lemma kv_delete_writes:
  assumes "kv_delete owner ws k m = (r, m')"
  shows "writes {(ws, k)} m m'"
proof -
  have "kv_get m' ws' k' = kv_get m ws' k'" if "(ws', k') \<notin> {(ws, k)}" for ws' k'
  proof (cases r)
    case (Inl e)
    with assms have "m' = m" by (simp add: kv_delete_err)
    then show ?thesis by simp
  next
    case (Inr u)
    with assms kv_delete_get(2) [of owner ws k m u m' ws' k'] that show ?thesis by auto
  qed
  with assms show ?thesis
    by (auto simp: writes_def kv_delete_env kv_delete_wf kv_delete_rows_plain)
qed

lemma foreign_writes:
  assumes "writes K m m'" "\<And>ws k. (ws, k) \<in> K \<Longrightarrow> foreign k" "records_ok env m"
  shows "records_ok env m'" "task_get env m' ws i = task_get env m ws i"
proof -
  have same: "kv_get m' ws (task_prefix @ i) = kv_get m ws (task_prefix @ i)"
    "kv_get m' ws (typed_task_prefix @ i) = kv_get m ws (typed_task_prefix @ i)" for ws i
    using assms(1,2) unfolding writes_def foreign_def by blast+
  show "task_get env m' ws i = task_get env m ws i" by (rule task_get_cong) (rule same)+
  have "m_text m' = m_text m" using assms(1) by (simp add: writes_def same_env_def)
  then show "records_ok env m'"
    using assms(1,3) by (auto simp: records_ok_def good_slots_def same writes_def text_stable_def)
qed

section \<open>A record with its notice\<close>

lemma kv_get_unit [simp]:
  "kv_get (begin_unit m) ws k = kv_get m ws k" "kv_get (commit_unit m) ws k = kv_get m ws k"
  by (auto simp: kv_get_def begin_unit_def commit_unit_def mem_get_def split: option.split)

lemma rows_plain_unit [simp]:
  "rows_plain (begin_unit m) = rows_plain m" "rows_plain (commit_unit m) = rows_plain m"
  by (auto simp: rows_plain_def begin_unit_def commit_unit_def split: option.split)

lemma text_unit [simp]: "m_text (begin_unit m) = m_text m" "m_text (commit_unit m) = m_text m"
  by (auto simp: begin_unit_def commit_unit_def split: option.split)

lemma apply_put:
  "apply_op (Put owner (Workspace ws) k (Json v) default_put) m = (Inr out, m') \<Longrightarrow>
     kv_put owner ws k v m = (Inr (), m')"
  by (auto simp: kv_put_def bnd_def ret_def split: prod.splits sum.splits)

lemma batch_of_two:
  assumes "write_batch Atomic [Put owner (Workspace ws) k1 (Json v1) default_put,
      Put owner (Workspace ws) k2 (Json v2) default_put] m = (r, m')"
  shows "r = Inl e \<Longrightarrow> m' = m"
    and "r = Inr outs \<Longrightarrow> \<exists>m1 m2. kv_put owner ws k1 v1 (if m_unit m = None then begin_unit m else m) = (Inr (), m1)
      \<and> kv_put owner ws k2 v2 m1 = (Inr (), m2) \<and> m' = (if m_unit m = None then commit_unit m2 else m2)
      \<and> collect (\<lambda>o'. o') outs \<noteq> Inl err"
  using assms
  by (auto simp: write_batch_def simp del: apply_op.simps split: sum.splits prod.splits if_splits
      dest!: apply_put)

lemma batch_of_two_writes:
  assumes "write_batch Atomic [Put owner (Workspace ws) k1 (Json v1) default_put,
      Put owner (Workspace ws) k2 (Json v2) default_put] m = (Inr outs, m')"
    and "\<And>v. text_stable m v" "k1 \<noteq> k2"
  shows "writes {(ws, k1), (ws, k2)} m m'" "kv_get m' ws k1 = Inr (Some (Json v1))"
    "kv_get m' ws k2 = Inr (Some (Json v2))"
proof -
  let ?m0 = "if m_unit m = None then begin_unit m else m"
  obtain m1 m2 where p: "kv_put owner ws k1 v1 ?m0 = (Inr (), m1)" "kv_put owner ws k2 v2 m1 = (Inr (), m2)"
    and m': "m' = (if m_unit m = None then commit_unit m2 else m2)"
    using batch_of_two(2) [OF assms(1) refl] by blast
  have w: "writes {(ws, k1), (ws, k2)} ?m0 m2"
    by (rule writes_trans [OF writes_mono [OF kv_put_writes [OF p(1)]] writes_mono [OF kv_put_writes [OF p(2)]]])
      auto
  have stable: "text_stable ?m0 v" "text_stable m1 v" for v
    using assms(2) kv_put_env [OF p(1)] by (auto simp: text_stable_def same_env_def)
  have g: "kv_get m2 ws k1 = Inr (Some (Json v1))" "kv_get m2 ws k2 = Inr (Some (Json v2))"
    using kv_put_get [OF p(1) stable(1)] kv_put_get [OF p(2) stable(2)] kv_put_other [OF p(2), of ws k1] assms(3)
    by auto
  show "kv_get m' ws k1 = Inr (Some (Json v1))" "kv_get m' ws k2 = Inr (Some (Json v2))"
    using g by (simp_all add: m')
  show "writes {(ws, k1), (ws, k2)} m m'"
  proof (cases "m_unit m = None")
    case True
    have env2: "same_env (begin_unit m) m2" using w True by (simp add: writes_def)
    then have "m_unit m2 \<noteq> None" by (simp add: same_env_def begin_unit_def)
    with env2 have "same_env m m'"
      using True by (auto simp: m' same_env_def begin_unit_def commit_unit_def)
    moreover have "mem_wf m \<longrightarrow> mem_wf m'"
      using w True begin_commit_wf by (simp add: writes_def m')
    ultimately show ?thesis using w True by (auto simp: writes_def m')
  next
    case False
    with w show ?thesis by (auto simp: m')
  qed
qed

section \<open>Listings\<close>

lemma list_all2_setD: "list_all2 P xs ys \<Longrightarrow> x \<in> set xs \<Longrightarrow> \<exists>y. y \<in> set ys \<and> P x y"
  by (induction rule: list_all2_induct) auto

lemma listing:
  assumes "mem_wf m" "rows_plain m" "list_all key_char_ok p" "list_prefix m ws p = Inr es"
  shows "distinct (map e_key es)"
    and "e \<in> set es \<Longrightarrow> kv_get m ws (e_key e) = Inr (Some (e_value e)) \<and> (\<exists>n. e_key e = p @ n) \<and>
      validate_key (e_key e) = Inr ()"
    and "validate_key (p @ n) = Inr () \<Longrightarrow> \<forall>e \<in> set es. e_key e \<noteq> p @ n \<Longrightarrow> kv_get m ws (p @ n) = Inr None"
proof -
  let ?opts = "default_list\<lparr>lo_prefix := Some p\<rparr>"
  have list: "mem_list m (Workspace ws) ?opts = Inr es" using assms(4) by (simp add: list_prefix_def map_err_def split: sum.splits)
  have opts: "lo_limit ?opts = None" "lo_offset ?opts = None" by (simp_all add: default_list_def)
  from mem_list_sorted [OF assms(1) list opts] show "distinct (map e_key es)"
    by (simp add: strict_sorted_iff)
  show "kv_get m ws (e_key e) = Inr (Some (e_value e)) \<and> (\<exists>n. e_key e = p @ n) \<and>
      validate_key (e_key e) = Inr ()" if "e \<in> set es"
    using listed_entry [OF assms(1,2,3) list that] by blast
  assume valid: "validate_key (p @ n) = Inr ()" and none: "\<forall>e \<in> set es. e_key e \<noteq> p @ n"
  show "kv_get m ws (p @ n) = Inr None"
  proof (cases "find_row (as_token (Workspace ws)) (p @ n) (regular m)")
    case None
    with valid show ?thesis by (simp add: kv_get_def mem_get_def map_err_def)
  next
    case (Some r)
    note r = find_row_SomeD [OF Some]
    with assms(2) have "\<not> row_expired (m_now m) r" by (simp add: rows_plain_def row_expired_def)
    then have "r_key r \<in> r_key ` set (sort_key r_key (filter (list_filter ?opts)
        (visible (m_now m) (as_token (Workspace ws)) (regular m))))"
      using r by (intro imageI) (simp add: visible_def list_filter_prefix default_list_def prefix_ci_def)
    then have "r_key r \<in> set (map e_key es)"
      unfolding mem_list_keys [OF list opts] by simp
    with none r show ?thesis by auto
  qed
qed

lemma slot_prefix_chars: "list_all key_char_ok task_prefix" "list_all key_char_ok typed_task_prefix"
  by (simp_all add: task_prefix_def typed_task_prefix_def key_char_ok_def is_digit_def)

lemma shorter_key: "validate_key (typed_task_prefix @ i) = Inr () \<Longrightarrow> validate_key (task_prefix @ i) = Inr ()"
  using slot_prefix_chars by (auto simp: validate_key_ok_iff) (simp_all add: task_prefix_def typed_task_prefix_def)

lemma records_okD: "records_ok env m \<Longrightarrow> mem_wf m \<and> rows_plain m \<and> text_stable m v \<and> good_slots env m"
  by (simp add: records_ok_def)

lemma task_listE:
  assumes "task_list env m ws = Inr ts"
  obtains v1 v2 ts1 ts2 where "list_prefix m ws task_prefix = Inr v1" "list_prefix m ws typed_task_prefix = Inr v2"
    "list_all2 (\<lambda>e t. decode_v1_record env (e_value e) (e_key e) = Inr t) (filter (\<lambda>e. is_json (e_value e)) v1) ts1"
    "list_all2 (\<lambda>e t. decode_typed_record env (e_value e) (e_key e) = Inr t) v2 ts2" "ts = ts1 @ ts2"
  using assms by (auto simp: task_list_def sbind_Inr_iff collect_Inr_iff)

lemma stored_listed:
  assumes ok: "records_ok env m" and list: "task_list env m ws = Inr ts" and t: "t \<in> set ts"
  shows "task_get env m ws (t_id t) = Inr (Some t)"
proof -
  from list obtain v1 v2 ts1 ts2 where v1: "list_prefix m ws task_prefix = Inr v1"
    and v2: "list_prefix m ws typed_task_prefix = Inr v2"
    and d1: "list_all2 (\<lambda>e t. decode_v1_record env (e_value e) (e_key e) = Inr t) (filter (\<lambda>e. is_json (e_value e)) v1) ts1"
    and d2: "list_all2 (\<lambda>e t. decode_typed_record env (e_value e) (e_key e) = Inr t) v2 ts2" and ts: "ts = ts1 @ ts2"
    by (rule task_listE)
  note wf = records_okD [OF ok, THEN conjunct1] records_okD [OF ok, THEN conjunct2, THEN conjunct1]
  have gs: "good_slots env m" using ok by (simp add: records_ok_def)
  from t ts consider "t \<in> set ts1" | "t \<in> set ts2" by auto
  then show ?thesis
  proof cases
    case 1
    from list_all2_setD2 [OF d1 this] obtain e where e: "e \<in> set v1"
      and d: "decode_v1_record env (e_value e) (e_key e) = Inr t" by auto
    from listing(2) [OF wf slot_prefix_chars(1) v1 e] obtain n where n: "e_key e = task_prefix @ n"
      and g: "kv_get m ws (task_prefix @ n) = Inr (Some (e_value e))"
      and valid: "validate_key (task_prefix @ n) = Inr ()" by auto
    have d': "decode_v1_record env (e_value e) n = Inr t" using d decode_label(1) by blast
    with good_slotsD(3) [OF gs g] g valid show ?thesis by (auto simp: task_get_Some)
  next
    case 2
    from list_all2_setD2 [OF d2 this] obtain e where e: "e \<in> set v2"
      and d: "decode_typed_record env (e_value e) (e_key e) = Inr t" by auto
    from listing(2) [OF wf slot_prefix_chars(2) v2 e] obtain n where n: "e_key e = typed_task_prefix @ n"
      and g: "kv_get m ws (typed_task_prefix @ n) = Inr (Some (e_value e))"
      and valid: "validate_key (typed_task_prefix @ n) = Inr ()" by auto
    have d': "decode_typed_record env (e_value e) n = Inr t" using d decode_label(2) by blast
    have "\<forall>e \<in> set v1. e_key e \<noteq> task_prefix @ n"
      using listing(2) [OF wf slot_prefix_chars(1) v1] good_slotsD(2) [OF gs] g by metis
    then have "kv_get m ws (task_prefix @ n) = Inr None"
      by (rule listing(3) [OF wf slot_prefix_chars(1) v1 shorter_key [OF valid]])
    with good_slotsD(4) [OF gs g d'] g d' valid shorter_key [OF valid] show ?thesis
      by (auto simp: task_get_Some)
  qed
qed

lemma listed_workspace:
  "records_ok env m \<Longrightarrow> task_list env m ws = Inr ts \<Longrightarrow> t \<in> set ts \<Longrightarrow> t_workspace t = ws"
  using got_task [of env m ws "t_id t" t] stored_listed [of env m ws ts t] by (simp add: records_ok_def)

lemma listed_ids:
  assumes ok: "records_ok env m" and list: "task_list env m ws = Inr ts"
  shows "distinct (map t_id ts)"
proof -
  from list obtain v1 v2 ts1 ts2 where v1: "list_prefix m ws task_prefix = Inr v1"
    and v2: "list_prefix m ws typed_task_prefix = Inr v2"
    and d1: "list_all2 (\<lambda>e t. decode_v1_record env (e_value e) (e_key e) = Inr t) (filter (\<lambda>e. is_json (e_value e)) v1) ts1"
    and d2: "list_all2 (\<lambda>e t. decode_typed_record env (e_value e) (e_key e) = Inr t) v2 ts2" and ts: "ts = ts1 @ ts2"
    by (rule task_listE)
  note wf = records_okD [OF ok, THEN conjunct1] records_okD [OF ok, THEN conjunct2, THEN conjunct1]
  have gs: "good_slots env m" using ok by (simp add: records_ok_def)
  have key1: "e_key e = task_prefix @ t_id t"
    if "e \<in> set v1" "decode_v1_record env (e_value e) (e_key e) = Inr t" for e t
    using listing(2) [OF wf slot_prefix_chars(1) v1 that(1)] that(2) good_slotsD(3) [OF gs] decode_label(1) by metis
  have key2: "e_key e = typed_task_prefix @ t_id t"
    if "e \<in> set v2" "decode_typed_record env (e_value e) (e_key e) = Inr t" for e t
    using listing(2) [OF wf slot_prefix_chars(2) v2 that(1)] that(2) good_slotsD(4) [OF gs] decode_label(2) by metis
  have keys: "list_all2 (\<lambda>e t. e_key e = p @ t_id t) es us \<Longrightarrow> map e_key es = map ((@) p) (map t_id us)"
    for p es us by (induction rule: list_all2_induct) auto
  have "list_all2 (\<lambda>e t. e_key e = task_prefix @ t_id t) (filter (\<lambda>e. is_json (e_value e)) v1) ts1"
    using d1 by (rule list.rel_mono_strong) (use key1 in auto)
  from keys [OF this] have "distinct (map ((@) task_prefix) (map t_id ts1))"
    using listing(1) [OF wf slot_prefix_chars(1) v1] by (metis distinct_map_filter)
  moreover have "list_all2 (\<lambda>e t. e_key e = typed_task_prefix @ t_id t) v2 ts2"
    using d2 by (rule list.rel_mono_strong) (use key2 in auto)
  from keys [OF this] have "distinct (map ((@) typed_task_prefix) (map t_id ts2))"
    using listing(1) [OF wf slot_prefix_chars(2) v2] by metis
  moreover have "t_id t \<noteq> t_id t'" if "t \<in> set ts1" "t' \<in> set ts2" for t t'
  proof
    assume eq: "t_id t = t_id t'"
    have "t \<in> set ts" "t' \<in> set ts" using that ts by simp_all
    from stored_listed [OF ok list this(1)] stored_listed [OF ok list this(2)] have "t = t'"
      unfolding eq by (metis option.inject sum.inject(2))
    moreover have "\<not> is_typed t" using list_all2_setD2 [OF d1 that(1)] by (auto dest: decode_v1_untyped)
    moreover have "is_typed t'" using list_all2_setD2 [OF d2 that(2)] by (auto dest: decode_typed_typed)
    ultimately show False by simp
  qed
  then have "set (map t_id ts1) \<inter> set (map t_id ts2) = {}" by auto
  ultimately show ?thesis unfolding ts map_append distinct_append 
    by (auto simp only: distinct_map [of "(@) task_prefix"] distinct_map [of "(@) typed_task_prefix"])
qed

lemma get_listed:
  assumes ok: "records_ok env m" and list: "task_list env m ws = Inr ts"
    and get: "task_get env m ws i = Inr (Some t)"
  shows "t \<in> set ts"
proof -
  from list obtain v1 v2 ts1 ts2 where v1: "list_prefix m ws task_prefix = Inr v1"
    and v2: "list_prefix m ws typed_task_prefix = Inr v2"
    and d1: "list_all2 (\<lambda>e t. decode_v1_record env (e_value e) (e_key e) = Inr t) (filter (\<lambda>e. is_json (e_value e)) v1) ts1"
    and d2: "list_all2 (\<lambda>e t. decode_typed_record env (e_value e) (e_key e) = Inr t) v2 ts2" and ts: "ts = ts1 @ ts2"
    by (rule task_listE)
  note wf = records_okD [OF ok, THEN conjunct1] records_okD [OF ok, THEN conjunct2, THEN conjunct1]
  from get consider (one) v where "validate_key (task_prefix @ i) = Inr ()" "kv_get m ws (task_prefix @ i) = Inr (Some v)"
      "decode_v1_record env v i = Inr t"
    | (two) v where "validate_key (typed_task_prefix @ i) = Inr ()"
      "kv_get m ws (typed_task_prefix @ i) = Inr (Some v)" "decode_typed_record env v i = Inr t"
    by (auto simp: task_get_Some)
  then show ?thesis
  proof cases
    case one
    then obtain e where e: "e \<in> set v1" "e_key e = task_prefix @ i"
      using listing(3) [OF wf slot_prefix_chars(1) v1] by force
    then have v: "e_value e = v" using listing(2) [OF wf slot_prefix_chars(1) v1 e(1)] one(2) by simp
    have "decode_v1_record env (e_value e) (e_key e) = Inr t" using one(3) v decode_label(1) by blast
    moreover have "e \<in> set (filter (\<lambda>e. is_json (e_value e)) v1)" using e v decode_v1_untyped [OF one(3)] by simp
    ultimately show ?thesis using list_all2_setD [OF d1] ts by fastforce
  next
    case two
    then obtain e where e: "e \<in> set v2" "e_key e = typed_task_prefix @ i"
      using listing(3) [OF wf slot_prefix_chars(2) v2] by force
    then have v: "e_value e = v" using listing(2) [OF wf slot_prefix_chars(2) v2 e(1)] two(2) by simp
    have "decode_typed_record env (e_value e) (e_key e) = Inr t" using two(3) v decode_label(2) by blast
    then show ?thesis using list_all2_setD [OF d2 e(1)] ts by fastforce
  qed
qed

lemma unlisted:
  assumes ok: "records_ok env m" and list: "task_list env m ws = Inr ts"
    and new: "i \<notin> t_id ` set ts" and key: "validate_key (task_prefix @ i) = Inr ()"
  shows "kv_get m ws (task_prefix @ i) = Inr None"
    and "validate_key (typed_task_prefix @ i) = Inr () \<Longrightarrow> kv_get m ws (typed_task_prefix @ i) = Inr None"
proof -
  from list obtain v1 v2 ts1 ts2 where v1: "list_prefix m ws task_prefix = Inr v1"
    and v2: "list_prefix m ws typed_task_prefix = Inr v2"
    and d1: "list_all2 (\<lambda>e t. decode_v1_record env (e_value e) (e_key e) = Inr t) (filter (\<lambda>e. is_json (e_value e)) v1) ts1"
    and d2: "list_all2 (\<lambda>e t. decode_typed_record env (e_value e) (e_key e) = Inr t) v2 ts2" and ts: "ts = ts1 @ ts2"
    by (rule task_listE)
  note wf = records_okD [OF ok, THEN conjunct1] records_okD [OF ok, THEN conjunct2, THEN conjunct1]
  have gs: "good_slots env m" using ok by (simp add: records_ok_def)
  have "e_key e \<noteq> task_prefix @ i" if e: "e \<in> set v1" for e
  proof
    assume k: "e_key e = task_prefix @ i"
    from listing(2) [OF wf slot_prefix_chars(1) v1 e] k have g: "kv_get m ws (task_prefix @ i) = Inr (Some (e_value e))" by simp
    from good_slotsD(1) [OF gs g] e have "e \<in> set (filter (\<lambda>e. is_json (e_value e)) v1)" by simp
    from list_all2_setD [OF d1 this] obtain t where "t \<in> set ts1" "decode_v1_record env (e_value e) (e_key e) = Inr t"
      by auto
    with good_slotsD(3) [OF gs g] decode_label(1) new ts show False by (metis Un_iff image_eqI set_append)
  qed
  then show "kv_get m ws (task_prefix @ i) = Inr None"
    using listing(3) [OF wf slot_prefix_chars(1) v1 key] by blast
  assume key2: "validate_key (typed_task_prefix @ i) = Inr ()"
  have "e_key e \<noteq> typed_task_prefix @ i" if e: "e \<in> set v2" for e
  proof
    assume k: "e_key e = typed_task_prefix @ i"
    from listing(2) [OF wf slot_prefix_chars(2) v2 e] k have g: "kv_get m ws (typed_task_prefix @ i) = Inr (Some (e_value e))" by simp
    from list_all2_setD [OF d2 e] obtain t where "t \<in> set ts2" "decode_typed_record env (e_value e) (e_key e) = Inr t"
      by auto
    with good_slotsD(4) [OF gs g] decode_label(2) new ts show False by (metis Un_iff image_eqI set_append)
  qed
  then show "kv_get m ws (typed_task_prefix @ i) = Inr None"
    using listing(3) [OF wf slot_prefix_chars(2) v2 key2] by blast
qed

end
