(* ===== verification/Task_Put_Laws.thy ===== *)
theory Task_Put_Laws
  imports Task_Records_Laws Task_Demo
begin

text \<open>
  What storing a task does to the records: its own is replaced, or nothing is; the others are as they
  were. A task that ends is stored with its notice, or not at all.
\<close>

section \<open>One record replaced\<close>

definition slot_key :: "task \<Rightarrow> string" where
  "slot_key t = (if is_typed t then typed_task_prefix else task_prefix) @ t_id t"

lemma task_slot_Inr:
  "task_slot env t = Inr (k, v) \<longleftrightarrow> validate_key (slot_key t) = Inr () \<and> k = slot_key t \<and>
     v = (if is_typed t then jstruct [(''record_format'', Some (JStr record_format)), (''task'', Some (ev_enc env t))]
          else ev_enc env t)"
  by (auto simp: task_slot_def slot_key_def sbind_Inr_iff task_keys)

lemma record_fields:
  "jget (jstruct [(''record_format'', Some (JStr record_format)), (''task'', Some j)]) ''record_format'' = Some (JStr record_format)"
  "jget (jstruct [(''record_format'', Some (JStr record_format)), (''task'', Some j)]) ''task'' = Some j"
  by (simp_all add: jget_jstruct)

lemma map_err_ok: "map_err g r = Inr x \<longleftrightarrow> r = Inr x"
  by (cases r) (simp_all add: map_err_def)

lemma key_oks:
  "validate_key (task_prefix @ i) = Inr () \<Longrightarrow> task_key i = Inr (task_prefix @ i)"
  "validate_key (typed_task_prefix @ i) = Inr () \<Longrightarrow> typed_task_key i = Inr (typed_task_prefix @ i)"
  by (simp_all add: task_keys)

lemma got_key: "kv_get m ws k = Inr x \<Longrightarrow> validate_key k = Inr ()"
  by (auto simp: kv_get_def mem_get_def sbind_Inr_iff map_err_ok)

text \<open>The current record is none, or one of the same kind.\<close>

definition replaceable :: "task_env \<Rightarrow> memory \<Rightarrow> task \<Rightarrow> bool" where
  "replaceable env m t \<longleftrightarrow>
     (let ws = t_workspace t; i = t_id t in
      (validate_key (task_prefix @ i) = Inr () \<longrightarrow> kv_get m ws (task_prefix @ i) = Inr None) \<and>
      (validate_key (typed_task_prefix @ i) = Inr () \<longrightarrow> kv_get m ws (typed_task_prefix @ i) = Inr None)
      \<or> (\<exists>t0. task_get env m ws i = Inr (Some t0) \<and> is_typed t0 = is_typed t))"

text \<open>What is read after \<open>t\<close> was stored: a task that looks like it, or an error.\<close>

definition reads_as :: "task \<Rightarrow> agent_error + task option \<Rightarrow> bool" where
  "reads_as t r \<longleftrightarrow> (case r of Inl e \<Rightarrow> True | Inr None \<Rightarrow> False | Inr (Some t') \<Rightarrow> look t' = look t)"

definition replaced :: "task_env \<Rightarrow> task \<Rightarrow> memory \<Rightarrow> memory \<Rightarrow> bool" where
  "replaced env t m m' \<longleftrightarrow> same_env m m' \<and> records_ok env m' \<and>
     (\<forall>ws i. (ws, i) \<noteq> (t_workspace t, t_id t) \<longrightarrow> task_get env m' ws i = task_get env m ws i) \<and>
     reads_as t (task_get env m' (t_workspace t) (t_id t))"

lemma look_eqD:
  "look t = look t' \<Longrightarrow> t_id t = t_id t' \<and> t_workspace t = t_workspace t' \<and> is_typed t = is_typed t'
     \<and> hush (t_state t) = hush (t_state t') \<and> t_graph t = t_graph t'"
  by (simp add: look_def)

lemma decode_written:
  assumes "faithful env"
  shows "\<not> is_typed t \<Longrightarrow> decode_v1_record env (Json (ev_enc env t)) l = Inr t' \<Longrightarrow> look t' = look t"
    and "decode_typed_record env (Json (jstruct [(''record_format'', Some (JStr record_format)),
      (''task'', Some (ev_enc env t))])) l = Inr t' \<Longrightarrow> look t' = look t"
  using assms
  by (auto simp: decode_v1_record_def decode_typed_record_def Let_def record_fields faithful_def
      split: option.splits if_splits)

lemma other_slot:
  assumes "replaceable env m t" "good_slots env m" "validate_key (slot_key t) = Inr ()"
  shows "is_typed t \<Longrightarrow> kv_get m (t_workspace t) (task_prefix @ t_id t) = Inr None"
    and "\<not> is_typed t \<Longrightarrow> kv_get m (t_workspace t) (typed_task_prefix @ t_id t) \<noteq> Inr (Some w)"
proof -
  from assms(1) consider
      (none) "validate_key (task_prefix @ t_id t) = Inr () \<Longrightarrow> kv_get m (t_workspace t) (task_prefix @ t_id t) = Inr None"
        "validate_key (typed_task_prefix @ t_id t) = Inr () \<Longrightarrow> kv_get m (t_workspace t) (typed_task_prefix @ t_id t) = Inr None"
    | (some) t0 where "task_get env m (t_workspace t) (t_id t) = Inr (Some t0)" "is_typed t0 = is_typed t"
    by (auto simp: replaceable_def Let_def)
  then show "is_typed t \<Longrightarrow> kv_get m (t_workspace t) (task_prefix @ t_id t) = Inr None"
  proof cases
    case none
    then show ?thesis if "is_typed t" using assms(3) that shorter_key by (simp add: slot_key_def)
  next
    case some
    then show ?thesis if "is_typed t" using that by (auto simp: task_get_Some dest: decode_v1_untyped)
  qed
  from assms(1) show "\<not> is_typed t \<Longrightarrow> kv_get m (t_workspace t) (typed_task_prefix @ t_id t) \<noteq> Inr (Some w)"
    using good_slotsD(2) [OF assms(2)]
    by (auto simp: replaceable_def Let_def task_get_Some dest: decode_typed_typed got_key)
qed

lemma replacedI:
  assumes w: "writes K m m'" and K: "\<And>ws k. (ws, k) \<in> K \<Longrightarrow> foreign k \<or> (ws, k) = (t_workspace t, slot_key t)"
    and slot: "task_slot env t = Inr (k, v)" and stored: "kv_get m' (t_workspace t) k = Inr (Some (Json v))"
    and ok: "records_ok env m" "faithful env" "replaceable env m t"
  shows "replaced env t m m'"
proof -
  let ?ws = "t_workspace t" and ?i = "t_id t"
  have gs: "good_slots env m" using ok(1) by (simp add: records_ok_def)
  note slot = slot [unfolded task_slot_Inr]
  note other = other_slot [OF ok(3) gs slot [THEN conjunct1]]
  have same: "kv_get m' ws k' = kv_get m ws k'" if "(ws, k') \<noteq> (?ws, slot_key t)" "\<not> foreign k'" for ws k'
    using w K that unfolding writes_def by blast
  have prefixed: "\<not> foreign (task_prefix @ i)" "\<not> foreign (typed_task_prefix @ i)" for i
    by (auto simp: foreign_def)
  have rest: "task_get env m' ws i = task_get env m ws i" if "(ws, i) \<noteq> (?ws, ?i)" for ws i
    by (rule task_get_cong; rule same)
      (use that prefixed slots_differ slots_differ [symmetric] in \<open>auto simp: slot_key_def\<close>)
  have env: "same_env m m'" using w by (simp add: writes_def)
  show ?thesis
  proof (cases "is_typed t")
    case True
    let ?v = "Json (jstruct [(''record_format'', Some (JStr record_format)), (''task'', Some (ev_enc env t))])"
    have k1: "kv_get m' ws (task_prefix @ i) = kv_get m ws (task_prefix @ i)" for ws i
      using same slots_differ prefixed True by (simp add: slot_key_def)
    have k2: "kv_get m' ws (typed_task_prefix @ i) =
        (if (ws, i) = (?ws, ?i) then Inr (Some ?v) else kv_get m ws (typed_task_prefix @ i))" for ws i
      using same [of ws "typed_task_prefix @ i"] prefixed stored slot True by (auto simp: slot_key_def)
    have "good_slots env m'"
      unfolding good_slots_def k1 k2
      using other(1) [OF True] gs decode_written(2) [OF ok(2)]
      by (auto simp: good_slots_def dest!: look_eqD split: if_splits)
    then have "records_ok env m'"
      using w ok(1) env by (auto simp: records_ok_def writes_def text_stable_def same_env_def)
    moreover have "reads_as t (task_get env m' ?ws ?i)"
      using True slot other(1) [OF True] shorter_key decode_written(2) [OF ok(2)]
      by (auto simp: reads_as_def task_get_eq sbind_def slot_key_def key_oks k1 k2
          split: sum.split option.split)
    ultimately show ?thesis using rest env by (simp add: replaced_def)
  next
    case False
    have k1: "kv_get m' ws (task_prefix @ i) =
        (if (ws, i) = (?ws, ?i) then Inr (Some (Json (ev_enc env t))) else kv_get m ws (task_prefix @ i))" for ws i
      using same [of ws "task_prefix @ i"] prefixed stored slot False by (auto simp: slot_key_def)
    have k2: "kv_get m' ws (typed_task_prefix @ i) = kv_get m ws (typed_task_prefix @ i)" for ws i
      using same slots_differ [symmetric] prefixed False by (simp add: slot_key_def)
    have "good_slots env m'"
      unfolding good_slots_def k1 k2
      using other(2) [OF False] gs decode_written(1) [OF ok(2) False]
      by (auto simp: good_slots_def dest!: look_eqD split: if_splits)
    then have "records_ok env m'"
      using w ok(1) env by (auto simp: records_ok_def writes_def text_stable_def same_env_def)
    moreover have "reads_as t (task_get env m' ?ws ?i)"
      using False slot decode_written(1) [OF ok(2) False]
      by (auto simp: reads_as_def task_get_eq sbind_def slot_key_def key_oks k1 split: sum.split option.split)
    ultimately show ?thesis using rest env by (simp add: replaced_def)
  qed
qed

section \<open>Storing a task\<close>

lemma slot_not_foreign: "\<not> foreign (slot_key t)"
  by (auto simp: foreign_def slot_key_def)

text \<open>Whether storing \<open>t\<close> ends it: it has ended and the record it replaces had not.\<close>

definition ends_now :: "task_env \<Rightarrow> memory \<Rightarrow> task \<Rightarrow> agent_error + bool" where
  "ends_now env m t =
     (if is_terminal (t_state t)
      then sbind (task_get env m (t_workspace t) (t_id t)) (\<lambda>old.
        Inr (case old of None \<Rightarrow> True | Some o' \<Rightarrow> \<not> is_terminal (t_state o')))
      else Inr False)"

definition notice_of :: "task_env \<Rightarrow> task_store \<Rightarrow> task \<Rightarrow> nat option \<Rightarrow> json" where
  "notice_of env s t rv = notice_json (ev_render env)
     \<lparr>tn_schema = 1, tn_id = ev_uuid env (ts_drawn s), tn_task = terminal_task_of t,
      tn_revision = of_nat (Suc (case rv of None \<Rightarrow> 0 | Some n \<Rightarrow> n))\<rparr>"

lemma task_put_Inr:
  assumes "task_put env t s = (Inr u, s')"
  obtains (ends) k v rv outs where "task_slot env t = Inr (k, v)" "ends_now env (ts_mem s) t = Inr True"
      "revision (ts_mem s) (t_workspace t) (t_id t) = Inr rv"
      "write_batch Atomic [Put (ev_owner env) (Workspace (t_workspace t)) k (Json v) default_put,
         Put (ev_owner env) (Workspace (t_workspace t)) (terminal_prefix @ ev_uuid env (ts_drawn s))
           (Json (notice_of env s t rv)) default_put] (ts_mem s) = (Inr outs, ts_mem s')"
      "ts_seq s' = ts_seq s"
  | (stays) k v where "task_slot env t = Inr (k, v)" "ends_now env (ts_mem s) t = Inr False"
      "kv_put (ev_owner env) (t_workspace t) k v (ts_mem s) = (Inr (), ts_mem s')" "ts_seq s' = ts_seq s"
proof -
  from assms obtain k v where slot: "task_slot env t = Inr (k, v)"
    by (auto simp: task_put_def Let_def pure_of_def map_err_ok elim!: bnd_InrE)
  have asked: "(if is_terminal (t_state t)
           then read_mem (\<lambda>m. sbind (task_get env m (t_workspace t) (t_id t)) (\<lambda>old.
                  Inr (case old of None \<Rightarrow> True | Some o' \<Rightarrow> \<not> is_terminal (t_state o'))))
           else ret False) s = (map_err Failing (ends_now env (ts_mem s) t), s)"
    by (simp add: ends_now_def read_mem_def ret_def map_err_def)
  from assms slot obtain b where b: "ends_now env (ts_mem s) t = Inr b"
    and rest: "(if b then bnd (read_mem (\<lambda>m. revision m (t_workspace t) (t_id t))) (\<lambda>rv.
             put_terminal env (t_workspace t) k v t (Suc (case rv of None \<Rightarrow> 0 | Some n \<Rightarrow> n)))
          else on_mem (kv_put (ev_owner env) (t_workspace t) k v)) s = (Inr u, s')"
    by (auto simp: task_put_def Let_def pure_of_def bnd_def asked map_err_def split: sum.splits)
  show ?thesis
  proof (cases b)
    case True
    then have yes: "ends_now env (ts_mem s) t = Inr True" using b by simp
    from True rest obtain rv where rv: "revision (ts_mem s) (t_workspace t) (t_id t) = Inr rv"
      and put: "put_terminal env (t_workspace t) k v t (Suc (case rv of None \<Rightarrow> 0 | Some n \<Rightarrow> n)) s = (Inr u, s')"
      by (auto simp: read_mem_def map_err_ok elim!: bnd_InrE)
    from put obtain outs where
      "write_batch Atomic [Put (ev_owner env) (Workspace (t_workspace t)) k (Json v) default_put,
         Put (ev_owner env) (Workspace (t_workspace t)) (terminal_prefix @ ev_uuid env (ts_drawn s))
           (Json (notice_of env s t rv)) default_put] (ts_mem s) = (Inr outs, ts_mem s')" "ts_seq s' = ts_seq s"
      by (auto simp: put_terminal_def Let_def notice_of_def split: prod.splits sum.splits)
    then show ?thesis by (rule ends [OF slot yes rv])
  next
    case False
    then have "ends_now env (ts_mem s) t = Inr False" using b by simp
    with False rest show ?thesis
      by (intro stays [OF slot]) (auto simp: on_mem_def map_err_ok split: prod.splits)
  qed
qed

lemma task_put_Inl:
  assumes "task_put env t s = (Inl e, s')"
  shows "ts_mem s' = ts_mem s" "ts_seq s' = ts_seq s"
proof -
  have batch: "write_batch Atomic [Put owner (Workspace ws) k1 (Json v1) default_put,
      Put owner (Workspace ws) k2 (Json v2) default_put] m = (Inr outs, m') \<Longrightarrow> collect (\<lambda>o'. o') outs \<noteq> Inl err"
    for owner ws k1 v1 k2 v2 m outs m' err using batch_of_two(2) [OF _ refl] by blast
  have "ts_mem s' = ts_mem s \<and> ts_seq s' = ts_seq s"
    using assms batch batch_of_two(1) [OF _ refl] kv_put_err
    unfolding task_put_def Let_def put_terminal_def
    by (auto elim!: bnd_InlE simp: pure_of_def read_mem_def on_mem_def map_err_def ret_def
        split: sum.splits prod.splits if_splits)
  then show "ts_mem s' = ts_mem s" "ts_seq s' = ts_seq s" by simp_all
qed

lemma task_put_replaced:
  assumes put: "task_put env t s = (Inr u, s')"
    and ok: "records_ok env (ts_mem s)" "faithful env" "replaceable env (ts_mem s) t"
  shows "replaced env t (ts_mem s) (ts_mem s')" "ts_seq s' = ts_seq s"
proof -
  have stable: "text_stable (ts_mem s) v" for v using ok(1) by (simp add: records_ok_def)
  from put have "replaced env t (ts_mem s) (ts_mem s') \<and> ts_seq s' = ts_seq s"
  proof (cases rule: task_put_Inr)
    case (ends k v rv outs)
    let ?n = "terminal_prefix @ ev_uuid env (ts_drawn s)"
    have "k = slot_key t" using ends(1) by (simp add: task_slot_Inr)
    then have "k \<noteq> ?n" using slot_not_foreign foreign_keys(1) by metis
    note two = batch_of_two_writes [OF ends(4) stable this]
    have "replaced env t (ts_mem s) (ts_mem s')"
      by (rule replacedI [OF two(1) _ ends(1) two(2) ok]) (auto simp: foreign_keys(1) \<open>k = slot_key t\<close>)
    with ends(5) show ?thesis by simp
  next
    case (stays k v)
    have "k = slot_key t" using stays(1) by (simp add: task_slot_Inr)
    then have "replaced env t (ts_mem s) (ts_mem s')"
      by (intro replacedI [OF kv_put_writes [OF stays(3)] _ stays(1) kv_put_get [OF stays(3) stable] ok]) auto
    with stays(4) show ?thesis by simp
  qed
  then show "replaced env t (ts_mem s) (ts_mem s')" "ts_seq s' = ts_seq s" by simp_all
qed

text \<open>C11. A task that ends is stored together with the notice of its end, or not at all: when the call
  fails the memory is what it was; when it succeeds the record reads as the task, the notice names the
  task, its state and the next revision of its record, and no other record has changed.\<close>

theorem terminal_put_atomic:
  assumes "task_put env t s = (r, s')" "records_ok env (ts_mem s)" "faithful env" "is_terminal (t_state t)"
    and "task_get env (ts_mem s) (t_workspace t) (t_id t) = Inr (Some t0)" "is_typed t0 = is_typed t"
    and "\<not> is_terminal (t_state t0)"
  shows "case r of
       Inl e \<Rightarrow> ts_mem s' = ts_mem s
     | Inr _ \<Rightarrow> \<exists>rv. revision (ts_mem s) (t_workspace t) (t_id t) = Inr rv
         \<and> kv_get (ts_mem s') (t_workspace t) (terminal_prefix @ ev_uuid env (ts_drawn s)) =
             Inr (Some (Json (notice_of env s t rv)))
         \<and> replaced env t (ts_mem s) (ts_mem s')"
proof (cases r)
  case (Inl e)
  with assms(1) task_put_Inl(1) [of env t s e s'] show ?thesis by simp
next
  case (Inr u)
  have stable: "text_stable (ts_mem s) v" for v using assms(2) by (simp add: records_ok_def)
  have "replaceable env (ts_mem s) t" using assms(5,6) by (auto simp: replaceable_def)
  then have rep: "replaced env t (ts_mem s) (ts_mem s')"
    using task_put_replaced(1) assms(1,2,3) Inr by blast
  from assms(1) [unfolded Inr] show ?thesis
  proof (cases rule: task_put_Inr)
    case (ends k v rv outs)
    have "k \<noteq> terminal_prefix @ ev_uuid env (ts_drawn s)"
      using ends(1) slot_not_foreign foreign_keys(1) by (metis task_slot_Inr)
    from batch_of_two_writes(3) [OF ends(4) stable this] ends(3) rep show ?thesis by (simp add: Inr)
  next
    case (stays k v)
    with assms(4,5,7) show ?thesis by (simp add: ends_now_def)
  qed
qed

end
