(* ===== verification/Task_Evolution.thy ===== *)
theory Task_Evolution
  imports Task_Put_Laws
begin

text \<open>
  How records change. \<open>edges\<close> is the graph of the states with the one move that a transition makes past
  \<open>TaskState::is_valid_transition\<close>; \<open>drifts\<close> what settling, fallbacks and reservations do to tasks
  that did not run yet; \<open>evolves_by\<close> what may become of a record, where the moves that are possible
  may depend on the task; \<open>keeps_by\<close> that an operation, whether it succeeds or fails on its way, only lets
  the records evolve. The rules prove it of the operations step by step.
\<close>

section \<open>Evolution of a record\<close>

definition edges :: "(task_state \<times> task_state) set" where
  "edges = {(st, st'). is_valid_transition st st' \<or> st = Ready \<and> is_failed st'}"

definition drifts :: "(task_state \<times> task_state) set" where
  "drifts = {(st, st'). (st \<in> {Waiting, Ready} \<or> (\<exists>why. st = Unknown why)) \<and> st' \<in> {Waiting, Ready, Skipped}}"

text \<open>The moves that are possible for the task of a workspace and an id.\<close>

type_synonym reach = "u32 \<times> string \<Rightarrow> (task_state \<times> task_state) set"

abbreviation drifting :: reach where
  "drifting \<equiv> \<lambda>_. drifts"

abbreviation resting :: reach where
  "resting \<equiv> \<lambda>_. {}"

definition edge_of :: "u32 \<Rightarrow> string \<Rightarrow> reach" where
  "edge_of ws i = (\<lambda>k. if k = (ws, i) then edges else {})"

text \<open>One edge for the task, then what drifts; for another task only that.\<close>

definition moving :: "u32 \<Rightarrow> string \<Rightarrow> reach" where
  "moving ws i = (\<lambda>k. (if k = (ws, i) then edges \<union> edges O drifts else {}) \<union> drifts)"

definition composes :: "reach \<Rightarrow> reach \<Rightarrow> reach \<Rightarrow> bool" where
  "composes S1 S2 S \<longleftrightarrow> (\<forall>k. S1 k \<subseteq> S k \<and> S2 k \<subseteq> S k \<and> S1 k O S2 k \<subseteq> S k)"

lemma composes_rules:
  "composes drifting drifting drifting" "composes resting S S" "composes S resting S"
  "composes (edge_of ws i) drifting (moving ws i)" "composes (\<lambda>_. UNIV) (\<lambda>_. UNIV) (\<lambda>_. UNIV)"
  by (auto simp: composes_def edge_of_def moving_def) (auto simp: drifts_def)

lemma composesD: "composes S1 S2 S \<Longrightarrow> S1 k \<subseteq> S k" "composes S1 S2 S \<Longrightarrow> S2 k \<subseteq> S k"
  "composes S1 S2 S \<Longrightarrow> S1 k O S2 k \<subseteq> S k"
  unfolding composes_def by blast+

definition same_task :: "task_look \<Rightarrow> task_look \<Rightarrow> bool" where
  "same_task l l' \<longleftrightarrow> lk_id l' = lk_id l \<and> lk_workspace l' = lk_workspace l \<and> lk_name l' = lk_name l
     \<and> lk_depends_on l' = lk_depends_on l \<and> lk_created l' = lk_created l \<and> lk_graph l' = lk_graph l
     \<and> lk_typed l' = lk_typed l \<and> lk_routes l' = lk_routes l"

definition evolves_by :: "reach \<Rightarrow> task_look \<Rightarrow> task_look \<Rightarrow> bool" where
  "evolves_by S l l' \<longleftrightarrow> same_task l l'
     \<and> (lk_state l' = lk_state l \<or> (lk_state l, lk_state l') \<in> S (lk_workspace l, lk_id l))
     \<and> (is_terminal (lk_state l) \<longrightarrow> l' = l)"

abbreviation evolves :: "task_look \<Rightarrow> task_look \<Rightarrow> bool" where
  "evolves \<equiv> evolves_by drifting"

lemma evolves_refl [simp]: "evolves_by S l l"
  by (simp add: evolves_by_def same_task_def)

lemma evolves_trans:
  assumes "evolves_by S1 l l'" "evolves_by S2 l' l''" "composes S1 S2 S"
  shows "evolves_by S l l''"
proof -
  note c = composesD [OF assms(3)]
  have same: "same_task l l''" "lk_workspace l' = lk_workspace l" "lk_id l' = lk_id l"
    using assms(1,2) by (simp_all add: evolves_by_def same_task_def)
  show ?thesis
    using assms(1,2) same c [of "(lk_workspace l, lk_id l)"] unfolding evolves_by_def by auto
qed

lemma evolves_mono: "evolves_by S l l' \<Longrightarrow> (\<And>k. S k \<subseteq> S' k) \<Longrightarrow> evolves_by S' l l'"
  by (auto simp: evolves_by_def)

lemma hush_simps [simp]:
  "is_terminal (hush st) = is_terminal st" "is_failed (hush st) = is_failed st" "hush (hush st) = hush st"
  "(hush st = Succeeded) = (st = Succeeded)" "(hush st = Waiting) = (st = Waiting)"
  "(hush st = Ready) = (st = Ready)" "(hush st = Running) = (st = Running)" "(hush st = Skipped) = (st = Skipped)"
  by (cases st; simp add: is_terminal_def)+

lemma move_hush: "is_valid_transition st st' \<Longrightarrow> is_valid_transition (hush st) (hush st')"
  by (cases st; cases st') auto

lemma state_edges: "is_valid_transition st st' \<Longrightarrow> (hush st, hush st') \<in> edges" "(Ready, Failed e) \<in> edges"
  by (auto simp: edges_def move_hush)

lemma state_drifts:
  "(Ready, Waiting) \<in> drifts" "is_valid_transition st Skipped \<Longrightarrow> (hush st, Skipped) \<in> drifts"
  "is_valid_transition st Ready \<Longrightarrow> (hush st, Ready) \<in> drifts"
  by (cases st; simp add: drifts_def)+

lemma valid_not_terminal: "is_valid_transition st st' \<Longrightarrow> \<not> is_terminal st"
  by (cases st; cases st') auto

text \<open>A typed task that succeeded has an output and no failure, and a route when it declares one.\<close>

definition settled_right :: "task_look \<Rightarrow> bool" where
  "settled_right l \<longleftrightarrow> (lk_typed l \<and> lk_state l = Succeeded \<longrightarrow> lk_output l \<and> (lk_routes l \<longrightarrow> lk_route l \<noteq> None))"

section \<open>Stores whose records evolve\<close>

definition fine :: "task_env \<Rightarrow> memory \<Rightarrow> bool" where
  "fine env m \<longleftrightarrow> records_ok env m \<and> (\<forall>ws i t. task_get env m ws i = Inr (Some t) \<longrightarrow> settled_right (look t))"

text \<open>A record that is not readable stays so, one that is readable evolves or stops being readable.\<close>

definition kept_by :: "reach \<Rightarrow> task_env \<Rightarrow> memory \<Rightarrow> memory \<Rightarrow> bool" where
  "kept_by S env m m' \<longleftrightarrow> (\<forall>ws i.
     case task_get env m ws i of
       Inl e \<Rightarrow> \<exists>e'. task_get env m' ws i = Inl e'
     | Inr None \<Rightarrow> True
     | Inr (Some t) \<Rightarrow> (\<exists>e'. task_get env m' ws i = Inl e') \<or>
         (\<exists>t'. task_get env m' ws i = Inr (Some t') \<and> evolves_by S (look t) (look t')))"

lemma kept_same: "(\<And>ws i. task_get env m' ws i = task_get env m ws i) \<Longrightarrow> kept_by S env m m'"
  by (auto simp: kept_by_def split: sum.split option.split)

lemma kept_some:
  assumes "kept_by S env m m'" "task_get env m ws i = Inr (Some t)"
  shows "(\<exists>e'. task_get env m' ws i = Inl e') \<or>
    (\<exists>t'. task_get env m' ws i = Inr (Some t') \<and> evolves_by S (look t) (look t'))"
  using assms(1) [unfolded kept_by_def, THEN spec, THEN spec, of ws i] assms(2) by simp

lemma kept_err:
  assumes "kept_by S env m m'" "task_get env m ws i = Inl e"
  shows "\<exists>e'. task_get env m' ws i = Inl e'"
  using assms(1) [unfolded kept_by_def, THEN spec, THEN spec, of ws i] assms(2) by simp

lemma keptI:
  assumes "\<And>ws i e. task_get env m ws i = Inl e \<Longrightarrow> \<exists>e'. task_get env m' ws i = Inl e'"
    and "\<And>ws i t. task_get env m ws i = Inr (Some t) \<Longrightarrow> (\<exists>e'. task_get env m' ws i = Inl e') \<or>
      (\<exists>t'. task_get env m' ws i = Inr (Some t') \<and> evolves_by S (look t) (look t'))"
  shows "kept_by S env m m'"
  unfolding kept_by_def using assms by (auto split: sum.split option.split)

lemma kept_trans:
  assumes "kept_by S1 env m m1" "kept_by S2 env m1 m2" "composes S1 S2 S"
  shows "kept_by S env m m2"
proof (rule keptI)
  fix ws i e assume "task_get env m ws i = Inl e"
  from kept_err [OF assms(1) this] kept_err [OF assms(2)] show "\<exists>e'. task_get env m2 ws i = Inl e'" by blast
next
  fix ws i t assume "task_get env m ws i = Inr (Some t)"
  from kept_some [OF assms(1) this] show "(\<exists>e'. task_get env m2 ws i = Inl e') \<or>
      (\<exists>t'. task_get env m2 ws i = Inr (Some t') \<and> evolves_by S (look t) (look t'))"
    using kept_err [OF assms(2)] kept_some [OF assms(2)] evolves_trans [OF _ _ assms(3)] by blast
qed

lemma kept_mono:
  assumes "kept_by S env m m'" "\<And>k. S k \<subseteq> S' k"
  shows "kept_by S' env m m'"
proof (rule keptI)
  fix ws i t assume "task_get env m ws i = Inr (Some t)"
  from kept_some [OF assms(1) this] show "(\<exists>e'. task_get env m' ws i = Inl e') \<or>
      (\<exists>t'. task_get env m' ws i = Inr (Some t') \<and> evolves_by S' (look t) (look t'))"
    using evolves_mono [where S = S and S' = S', OF _ assms(2)] by blast
qed (rule kept_err [OF assms(1)])

section \<open>The rules\<close>

text \<open>
  \<open>keeps_by S env P f Q\<close>: run in a fine store that satisfies \<open>P\<close>, the operation \<open>f\<close> leaves a fine store
  in which the records have evolved, and its result, if it has one, satisfies \<open>Q\<close>.
\<close>

definition keeps_by :: "reach \<Rightarrow> task_env \<Rightarrow> (memory \<Rightarrow> bool) \<Rightarrow> 'a store_op \<Rightarrow> ('a \<Rightarrow> memory \<Rightarrow> bool) \<Rightarrow> bool" where
  "keeps_by S env P f Q \<longleftrightarrow> (faithful env \<longrightarrow> (\<forall>s r s'. fine env (ts_mem s) \<and> P (ts_mem s) \<and> f s = (r, s') \<longrightarrow>
     fine env (ts_mem s') \<and> kept_by S env (ts_mem s) (ts_mem s') \<and> (\<forall>x. r = Inr x \<longrightarrow> Q x (ts_mem s'))))"

lemma keepsI:
  assumes "\<And>s r s'. faithful env \<Longrightarrow> fine env (ts_mem s) \<Longrightarrow> P (ts_mem s) \<Longrightarrow> f s = (r, s') \<Longrightarrow>
     fine env (ts_mem s') \<and> kept_by S env (ts_mem s) (ts_mem s') \<and> (\<forall>x. r = Inr x \<longrightarrow> Q x (ts_mem s'))"
  shows "keeps_by S env P f Q"
  using assms unfolding keeps_by_def by blast

lemma keepsD:
  assumes "keeps_by S env P f Q" "faithful env" "fine env (ts_mem s)" "P (ts_mem s)" "f s = (r, s')"
  shows "fine env (ts_mem s')" "kept_by S env (ts_mem s) (ts_mem s')" "r = Inr x \<Longrightarrow> Q x (ts_mem s')"
  using assms unfolding keeps_by_def by blast+

abbreviation keeps :: "task_env \<Rightarrow> (memory \<Rightarrow> bool) \<Rightarrow> 'a store_op \<Rightarrow> ('a \<Rightarrow> memory \<Rightarrow> bool) \<Rightarrow> bool" where
  "keeps \<equiv> keeps_by drifting"

abbreviation stays :: "task_env \<Rightarrow> (memory \<Rightarrow> bool) \<Rightarrow> 'a store_op \<Rightarrow> ('a \<Rightarrow> memory \<Rightarrow> bool) \<Rightarrow> bool" where
  "stays \<equiv> keeps_by resting"

lemma keeps_by_bnd:
  assumes "keeps_by S1 env P f R" "\<And>x. keeps_by S2 env (R x) (g x) Q" "composes S1 S2 S"
  shows "keeps_by S env P (bnd f g) Q"
proof (rule keepsI)
  fix s r s'
  assume a: "faithful env" "fine env (ts_mem s)" "P (ts_mem s)" "bnd f g s = (r, s')"
  obtain r1 s1 where f: "f s = (r1, s1)" by fastforce
  note one = keepsD [OF assms(1) a(1-3) f]
  show "fine env (ts_mem s') \<and> kept_by S env (ts_mem s) (ts_mem s') \<and> (\<forall>x. r = Inr x \<longrightarrow> Q x (ts_mem s'))"
  proof (cases r1)
    case (Inl e)
    with a(4) f have "s' = s1" "r = Inl e" by (auto simp: bnd_def)
    with one kept_mono [OF one(2) composesD(1) [OF assms(3)]] show ?thesis by simp
  next
    case (Inr x)
    with a(4) f have "g x s1 = (r, s')" by (simp add: bnd_def)
    note two = keepsD [OF assms(2) a(1) one(1) one(3) [OF Inr] this]
    with kept_trans [OF one(2) two(2) assms(3)] show ?thesis by blast
  qed
qed

text \<open>What only drifts can be repeated; a step that moves no task can come before or after any.\<close>

lemma keeps_bnd: "keeps env P f R \<Longrightarrow> (\<And>x. keeps env (R x) (g x) Q) \<Longrightarrow> keeps env P (bnd f g) Q"
  by (rule keeps_by_bnd [OF _ _ composes_rules(1)])

lemma keeps_next: "stays env P f R \<Longrightarrow> (\<And>x. keeps_by S env (R x) (g x) Q) \<Longrightarrow> keeps_by S env P (bnd f g) Q"
  by (rule keeps_by_bnd [OF _ _ composes_rules(2)])

lemma keeps_last: "keeps_by S env P f R \<Longrightarrow> (\<And>x. stays env (R x) (g x) Q) \<Longrightarrow> keeps_by S env P (bnd f g) Q"
  by (rule keeps_by_bnd [OF _ _ composes_rules(3)])

lemma keeps_moved:
  "keeps_by (edge_of ws i) env P f R \<Longrightarrow> (\<And>x. keeps env (R x) (g x) Q) \<Longrightarrow>
     keeps_by (moving ws i) env P (bnd f g) Q"
  by (rule keeps_by_bnd [OF _ _ composes_rules(4)])

lemma keeps_mono:
  assumes "keeps_by S env P f Q" "\<And>k. S k \<subseteq> S' k"
  shows "keeps_by S' env P f Q"
proof (rule keepsI)
  fix s r s'
  assume "faithful env" "fine env (ts_mem s)" "P (ts_mem s)" "f s = (r, s')"
  note one = keepsD [OF assms(1) this]
  show "fine env (ts_mem s') \<and> kept_by S' env (ts_mem s) (ts_mem s') \<and> (\<forall>x. r = Inr x \<longrightarrow> Q x (ts_mem s'))"
    using one kept_mono [OF one(2) assms(2)] by blast
qed

lemma keeps_rest: "stays env P f Q \<Longrightarrow> keeps_by S env P f Q"
  by (rule keeps_mono) auto

lemma keeps_weaken:
  assumes "keeps_by S env P f Q" "\<And>m. fine env m \<Longrightarrow> P' m \<Longrightarrow> P m" "\<And>x m. fine env m \<Longrightarrow> Q x m \<Longrightarrow> Q' x m"
  shows "keeps_by S env P' f Q'"
  using assms unfolding keeps_by_def by blast

lemma keeps_pre: "keeps_by S env P f Q \<Longrightarrow> (\<And>m. P' m \<Longrightarrow> P m) \<Longrightarrow> keeps_by S env P' f Q"
  by (rule keeps_weaken)

lemma keeps_assume: "(A \<Longrightarrow> keeps_by S env P f Q) \<Longrightarrow> keeps_by S env (\<lambda>m. A \<and> P m) f Q"
  unfolding keeps_by_def by blast

lemma keeps_unchanged:
  assumes "\<And>s r s'. f s = (r, s') \<Longrightarrow> ts_mem s' = ts_mem s"
    and "\<And>s x s'. fine env (ts_mem s) \<Longrightarrow> P (ts_mem s) \<Longrightarrow> f s = (Inr x, s') \<Longrightarrow> Q x (ts_mem s)"
  shows "keeps_by S env P f Q"
proof (rule keepsI)
  fix s r s'
  assume a: "fine env (ts_mem s)" "P (ts_mem s)" "f s = (r, s')"
  from assms(1) [OF a(3)] assms(2) [OF a(1,2)] a(1,3)
  show "fine env (ts_mem s') \<and> kept_by S env (ts_mem s) (ts_mem s') \<and> (\<forall>x. r = Inr x \<longrightarrow> Q x (ts_mem s'))"
    by (auto intro: kept_same)
qed

lemma keeps_ret: "(\<And>m. P m \<Longrightarrow> Q x m) \<Longrightarrow> keeps_by S env P (ret x) Q"
  by (rule keeps_unchanged) (auto simp: ret_def)

lemma keeps_fail: "keeps_by S env P (fail e) Q"
  by (rule keeps_unchanged) (auto simp: fail_def)

lemma keeps_read:
  "(\<And>m x. fine env m \<Longrightarrow> P m \<Longrightarrow> f m = Inr x \<Longrightarrow> Q x m) \<Longrightarrow> keeps_by S env P (read_mem f) Q"
  by (rule keeps_unchanged) (auto simp: read_mem_def map_err_ok)

lemma keeps_pure: "(\<And>m x. P m \<Longrightarrow> r = Inr x \<Longrightarrow> Q x m) \<Longrightarrow> keeps_by S env P (pure_of r) Q"
  by (rule keeps_unchanged) (auto simp: pure_of_def map_err_ok)

lemma keeps_ended: "(\<And>m x. P m \<Longrightarrow> o' = Some x \<Longrightarrow> Q x m) \<Longrightarrow> keeps_by S env P (search_result o') Q"
  by (cases o') (simp_all add: search_result_def keeps_fail keeps_ret)

lemma keeps_need:
  "(\<And>m t. fine env m \<Longrightarrow> P m \<Longrightarrow> task_get env m ws i = Inr (Some t) \<Longrightarrow> Q t m) \<Longrightarrow> keeps_by S env P (need_task env ws i) Q"
  by (rule keeps_unchanged)
    (auto simp: need_task_def bnd_def read_mem_def ret_def fail_def map_err_ok split: prod.splits sum.splits option.splits)

lemma keeps_foreign:
  assumes "\<And>m r m'. f m = (r, m') \<Longrightarrow> writes {(ws, k)} m m'" "foreign k"
  shows "keeps_by S env P (on_mem f) (\<lambda>_ _. True)"
proof (rule keepsI)
  fix s r s'
  assume a: "fine env (ts_mem s)" "on_mem f s = (r, s')"
  then obtain r0 where "f (ts_mem s) = (r0, ts_mem s')" by (auto simp: on_mem_def split: prod.splits)
  note w = foreign_writes [OF assms(1) [OF this]]
  have "task_get env (ts_mem s') ws i = task_get env (ts_mem s) ws i" for ws i
    using w(2) assms(2) a(1) by (auto simp: fine_def)
  moreover have "records_ok env (ts_mem s')" using w(1) assms(2) a(1) by (auto simp: fine_def)
  ultimately show "fine env (ts_mem s') \<and> kept_by S env (ts_mem s) (ts_mem s') \<and> (\<forall>x. r = Inr x \<longrightarrow> True)"
    using a(1) by (auto simp: fine_def intro: kept_same)
qed

text \<open>A record is stored: what it replaces evolves into it.\<close>

definition may_put :: "reach \<Rightarrow> task_env \<Rightarrow> memory \<Rightarrow> task \<Rightarrow> bool" where
  "may_put S env m t \<longleftrightarrow> replaceable env m t \<and> settled_right (look t)
     \<and> (\<forall>t0. task_get env m (t_workspace t) (t_id t) = Inr (Some t0) \<longrightarrow> evolves_by S (look t0) (look t))
     \<and> ((\<exists>e. task_get env m (t_workspace t) (t_id t) = Inl e) \<longrightarrow> validate_key (slot_key t) \<noteq> Inr ())"

lemma may_put_replace:
  assumes "task_get env m (t_workspace t) (t_id t) = Inr (Some t0)" "evolves_by S (look t0) (look t)" "settled_right (look t)"
  shows "may_put S env m t"
  using assms by (auto simp: may_put_def replaceable_def evolves_by_def same_task_def look_def)

lemma keeps_put:
  assumes "\<And>m. fine env m \<Longrightarrow> P m \<Longrightarrow> may_put S env m t"
    and "\<And>m m'. fine env m \<Longrightarrow> P m \<Longrightarrow> fine env m' \<Longrightarrow> replaced env t m m' \<Longrightarrow> Q () m'"
  shows "keeps_by S env P (task_put env t) Q"
proof (rule keepsI)
  fix s r s'
  assume a: "faithful env" "fine env (ts_mem s)" "P (ts_mem s)" "task_put env t s = (r, s')"
  let ?m = "ts_mem s" and ?m' = "ts_mem s'"
  show "fine env ?m' \<and> kept_by S env ?m ?m' \<and> (\<forall>x. r = Inr x \<longrightarrow> Q x ?m')"
  proof (cases r)
    case (Inl e)
    with a task_put_Inl(1) show ?thesis by (auto intro: kept_same)
  next
    case (Inr u)
    note may = assms(1) [OF a(2,3)]
    have ok: "records_ok env ?m" using a(2) by (simp add: fine_def)
    have rep: "replaced env t ?m ?m'"
      using task_put_replaced(1) [OF a(4) [unfolded Inr] ok a(1)] may by (simp add: may_put_def)
    have valid: "validate_key (slot_key t) = Inr ()"
      using a(4) Inr by (auto simp: task_slot_Inr elim!: task_put_Inr)
    have other: "task_get env ?m' ws i = task_get env ?m ws i" if "(ws, i) \<noteq> (t_workspace t, t_id t)" for ws i
      using rep that by (simp add: replaced_def)
    have own: "(\<exists>e'. task_get env ?m' (t_workspace t) (t_id t) = Inl e') \<or>
        (\<exists>t'. task_get env ?m' (t_workspace t) (t_id t) = Inr (Some t') \<and> look t' = look t)"
      using rep by (auto simp: replaced_def reads_as_def split: sum.splits option.splits)
    have "kept_by S env ?m ?m'"
    proof (rule keptI)
      fix ws i e assume "task_get env ?m ws i = Inl e"
      then have "(ws, i) \<noteq> (t_workspace t, t_id t)" using may valid by (auto simp: may_put_def)
      from other [OF this] \<open>task_get env ?m ws i = Inl e\<close> show "\<exists>e'. task_get env ?m' ws i = Inl e'" by simp
    next
      fix ws i t0 assume get: "task_get env ?m ws i = Inr (Some t0)"
      show "(\<exists>e'. task_get env ?m' ws i = Inl e') \<or>
          (\<exists>t'. task_get env ?m' ws i = Inr (Some t') \<and> evolves_by S (look t0) (look t'))"
      proof (cases "(ws, i) = (t_workspace t, t_id t)")
        case True
        with get may have "evolves_by S (look t0) (look t)" by (simp add: may_put_def)
        with own True show ?thesis by auto
      next
        case False
        with other get show ?thesis by auto
      qed
    qed
    moreover have "fine env ?m'"
    proof -
      have "settled_right (look t')" if "task_get env ?m' ws i = Inr (Some t')" for ws i t'
        using that own other [of ws i] a(2) may
        by (cases "(ws, i) = (t_workspace t, t_id t)") (auto simp: fine_def may_put_def)
      with rep show ?thesis by (simp add: fine_def replaced_def)
    qed
    ultimately show ?thesis using assms(2) [OF a(2,3) _ rep] by simp
  qed
qed

lemma fine_put:
  assumes "faithful env" "fine env (ts_mem s)" "may_put S env (ts_mem s) t"
  shows "fine env (ts_mem (snd (task_put env t s)))"
proof -
  have "keeps_by S env (\<lambda>m. may_put S env m t) (task_put env t) (\<lambda>_ _. True)"
    by (rule keeps_put) simp_all
  from keepsD(1) [OF this assms, of "fst (task_put env t s)" "snd (task_put env t s)"] show ?thesis by simp
qed

end
