(* ===== verification/Task_Store_Laws.thy ===== *)
theory Task_Store_Laws
  imports Task_Evolution
begin

text \<open>
  The operations on stored tasks, one by one: each keeps the store fine and lets its records only
  evolve.
\<close>

section \<open>The task an operation is about\<close>

definition got :: "task_env \<Rightarrow> memory \<Rightarrow> task \<Rightarrow> bool" where
  "got env m t \<longleftrightarrow> task_get env m (t_workspace t) (t_id t) = Inr (Some t)"

lemma fine_got:
  assumes "fine env m" "task_get env m ws i = Inr (Some t)"
  shows "got env m t" "t_id t = i" "t_workspace t = ws" "settled_right (look t)"
  using assms got_task [of env m ws i t] by (auto simp: fine_def records_ok_def got_def)

lemma keeps_need_got:
  "(\<And>m t. P m \<Longrightarrow> got env m t \<Longrightarrow> t_id t = i \<Longrightarrow> t_workspace t = ws \<Longrightarrow> Q t m) \<Longrightarrow>
     keeps_by S env P (need_task env ws i) Q"
  by (rule keeps_need) (use fine_got in blast)

text \<open>A record is replaced by what it evolves into.\<close>

lemma keeps_update:
  assumes "settled_right (look t) \<Longrightarrow> evolves_by S (look t) (look t') \<and> settled_right (look t')"
  shows "keeps_by S env (\<lambda>m. got env m t) (task_put env t') (\<lambda>_ _. True)"
proof (rule keeps_put)
  fix m assume m: "fine env m" "got env m t"
  then have "settled_right (look t)" by (auto simp: fine_def got_def)
  with assms have step: "evolves_by S (look t) (look t')" "settled_right (look t')" by simp_all
  then have "t_id t' = t_id t \<and> t_workspace t' = t_workspace t"
    by (simp add: evolves_by_def same_task_def look_def)
  with m(2) step show "may_put S env m t'" by (intro may_put_replace) (simp_all add: got_def)
qed simp

lemma keeps_same_look:
  "look t' = look t \<Longrightarrow> keeps_by S env (\<lambda>m. got env m t) (task_put env t') (\<lambda>_ _. True)"
  by (rule keeps_update) simp

lemma look_update [simp]:
  "look (t\<lparr>t_reserved := b\<rparr>) = look t" "look (t\<lparr>t_snapshot := x\<rparr>) = look t"
  "look (t\<lparr>t_accepted := y\<rparr>) = look t" "look (t\<lparr>t_report_token := k\<rparr>) = look t"
  "look (t\<lparr>t_attempt := a\<rparr>) = look t" "look (t\<lparr>t_started := n\<rparr>) = look t"
  "look (t\<lparr>t_state := st\<rparr>) = (look t)\<lparr>lk_state := hush st\<rparr>"
  "look (t\<lparr>t_finished := n\<rparr>) = (look t)\<lparr>lk_finished := n\<rparr>"
  "look (t\<lparr>t_skip := sk\<rparr>) = (look t)\<lparr>lk_skip := sk\<rparr>" "look (t\<lparr>t_route := ro\<rparr>) = (look t)\<lparr>lk_route := ro\<rparr>"
  by (simp_all add: look_def is_typed_def)

lemma look_fields [simp]:
  "lk_state (look t) = hush (t_state t)" "lk_typed (look t) = is_typed t" "lk_route (look t) = t_route t"
  "lk_routes (look t) = (Option.bind (t_contract t) tk_transitions \<noteq> None)"
  by (simp_all add: look_def)

text \<open>A task that moves.\<close>

lemma evolves_move:
  assumes "same_task (look t) l'" "(hush (t_state t), lk_state l') \<in> S (t_workspace t, t_id t)" "\<not> is_terminal (t_state t)"
  shows "evolves_by S (look t) l'"
  using assms by (simp add: evolves_by_def) (simp add: look_def)

lemma same_task_update [simp]:
  "same_task l (l'\<lparr>lk_state := st\<rparr>) = same_task l l'" "same_task l (l'\<lparr>lk_finished := n\<rparr>) = same_task l l'"
  "same_task l (l'\<lparr>lk_skip := sk\<rparr>) = same_task l l'" "same_task l (l'\<lparr>lk_route := r\<rparr>) = same_task l l'"
  "same_task l l"
  by (simp_all add: same_task_def)

lemma settled_right_other [simp]: "lk_state l \<noteq> Succeeded \<Longrightarrow> settled_right l"
  by (simp add: settled_right_def)

lemma waiting_moves: "is_valid_transition Waiting st \<Longrightarrow> st = Ready \<or> st = Skipped \<or> st = Cancelled"
  by (cases st) auto

section \<open>Creation\<close>

lemma show_nat_bound: "0 < k \<Longrightarrow> n < 10 ^ k \<Longrightarrow> length (show_nat n) \<le> k"
proof (induction k arbitrary: n)
  case (Suc k)
  show ?case
  proof (cases "n < 10")
    case True
    then show ?thesis by (subst show_nat.simps) simp
  next
    case False
    with Suc.prems have "0 < k" by (cases k) auto
    moreover have "n div 10 < 10 ^ k" using Suc.prems(2) less_mult_imp_div_less [of n "10 ^ k" 10] by (simp add: mult.commute)
    ultimately show ?thesis using Suc.IH False by (subst show_nat.simps) simp
  qed
qed simp

lemma show_nat_chars: "list_all key_char_ok (show_nat n)"
  using show_nat_digits [of n] by (auto simp: list_all_iff key_char_ok_def)

lemma numbered_key: "validate_key (typed_task_prefix @ numbered CHR ''t'' now n) = Inr ()"
proof -
  have len: "length (show_nat (unat w)) \<le> 20" for w :: u64
  proof (rule show_nat_bound)
    have "unat w < 2 ^ LENGTH(64)" by (rule unsigned_less)
    then show "unat w < 10 ^ 20" by simp
  qed simp
  have "list_all key_char_ok (pad6 (show_nat (unat n)))"
    using show_nat_chars [of "unat n"] by (auto simp: pad6_def list_all_iff key_char_ok_def is_digit_def)
  moreover have "length (pad6 (show_nat (unat n))) \<le> 26" using len [of n] by (simp add: pad6_def)
  ultimately show ?thesis
    using len [of now] slot_prefix_chars(2) show_nat_chars [of "unat now"]
    by (simp add: validate_key_ok_iff numbered_def) (simp add: typed_task_prefix_def key_char_ok_def is_digit_def)
qed

lemma unused_free:
  "unused n CHR ''t'' now used s = (r, s') \<Longrightarrow> ts_mem s' = ts_mem s \<and>
     (\<forall>i. r = Inr i \<longrightarrow> i \<notin> set used \<and> validate_key (typed_task_prefix @ i) = Inr ())"
  by (induction n "CHR ''t''" now used s rule: unused.induct)
    (auto simp: Let_def numbered_key split: if_splits)

lemma look_new: "lk_state (look (new_task i opts c)) = Waiting"
  by (simp add: new_task_def)

lemma planned_new:
  assumes "plan_task env m existing t = Inr t1"
  shows "t_id t1 = t_id t" "t_workspace t1 = t_workspace t" "is_typed t1 = is_typed t"
    "t_state t \<noteq> Succeeded \<Longrightarrow> t_state t1 \<noteq> Succeeded"
  using assms
  by (auto simp: plan_task_def sbind_Inr_iff Let_def map_err_ok evaluate_readiness_def is_typed_def
      split: if_splits option.splits)

lemma may_put_new:
  assumes "fine env m" "task_list env m (t_workspace t) = Inr existing" "t_id t \<notin> t_id ` set existing"
    and "validate_key (typed_task_prefix @ t_id t) = Inr ()" "t_state t \<noteq> Succeeded"
  shows "may_put S env m t"
proof -
  have ok: "records_ok env m" using assms(1) by (simp add: fine_def)
  note free = unlisted [OF ok assms(2,3) shorter_key [OF assms(4)]]
  have "task_get env m (t_workspace t) (t_id t) = Inr None"
    using free assms(4) shorter_key [OF assms(4)] by (simp add: task_get_None)
  with free assms(4,5) show ?thesis by (auto simp: may_put_def replaceable_def Let_def)
qed

lemma keeps_release: "keeps env P (release_fallback env ws fb) (\<lambda>_ _. True)"
  unfolding release_fallback_def
proof (rule keeps_bnd)
  show "keeps env P (read_mem (\<lambda>m. task_get env m ws fb)) (\<lambda>o' m. \<forall>t. o' = Some t \<longrightarrow> got env m t)"
    by (rule keeps_read) (auto intro: fine_got)
  show "keeps env (\<lambda>m. \<forall>t. o' = Some t \<longrightarrow> got env m t)
     (case o' of None \<Rightarrow> ret () | Some fb \<Rightarrow>
         let fb1 = fb\<lparr>t_reserved := False, t_state := (if t_state fb = Ready then Waiting else t_state fb)\<rparr>
         in if t_reserved fb \<or> t_state fb = Ready then task_put env fb1 else ret ()) (\<lambda>_ _. True)" for o'
  proof (cases o')
    case (Some t)
    have "keeps env (\<lambda>m. got env m t)
        (task_put env (t\<lparr>t_reserved := False, t_state := (if t_state t = Ready then Waiting else t_state t)\<rparr>)) (\<lambda>_ _. True)"
    proof (rule keeps_update)
      assume "settled_right (look t)"
      then show "evolves (look t) (look (t\<lparr>t_reserved := False, t_state := (if t_state t = Ready then Waiting else t_state t)\<rparr>))
          \<and> settled_right (look (t\<lparr>t_reserved := False, t_state := (if t_state t = Ready then Waiting else t_state t)\<rparr>))"
        by (cases "t_state t = Ready") (auto intro: evolves_move state_drifts(1) simp: settled_right_def evolves_by_def same_task_def)
    qed
    then show ?thesis by (auto simp: Some Let_def intro: keeps_ret keeps_pre)
  qed (simp add: keeps_ret)
qed

lemma keeps_create: "keeps env P (create_with_contract env opts c) (\<lambda>_ _. True)"
proof -
  let ?ws = "co_workspace opts"
  let ?new = "\<lambda>ex i t m. task_list env m ?ws = Inr ex \<and> i \<notin> t_id ` set ex \<and> validate_key (typed_task_prefix @ i) = Inr ()
    \<and> t_id t = i \<and> t_workspace t = ?ws \<and> t_state t \<noteq> Succeeded"
  have put: "keeps env (?new ex i t) (bnd (task_put env t) (\<lambda>_. bnd (case t_on_failure t of
         Fallback (Some fb) _ \<Rightarrow> release_fallback env ?ws fb | _ \<Rightarrow> ret ()) (\<lambda>_. ret t))) (\<lambda>_ _. True)" for ex i t
  proof (rule keeps_bnd)
    show "keeps env (?new ex i t) (task_put env t) (\<lambda>_ _. True)"
      by (rule keeps_put) (auto intro: may_put_new)
    show "keeps env (\<lambda>_. True) (bnd (case t_on_failure t of
         Fallback (Some fb) _ \<Rightarrow> release_fallback env ?ws fb | _ \<Rightarrow> ret ()) (\<lambda>_. ret t)) (\<lambda>_ _. True)"
      by (rule keeps_bnd [where R = "\<lambda>_ _. True"])
        (auto intro: keeps_ret keeps_release split: on_failure.split option.split)
  qed
  have plan: "keeps env (\<lambda>m. task_list env m ?ws = Inr ex \<and> i \<notin> t_id ` set ex \<and> validate_key (typed_task_prefix @ i) = Inr ())
     (bnd (read_mem (\<lambda>m. plan_task env m ex (new_task i opts c))) (\<lambda>t.
      bnd (task_put env t) (\<lambda>_. bnd (case t_on_failure t of
         Fallback (Some fb) _ \<Rightarrow> release_fallback env ?ws fb | _ \<Rightarrow> ret ()) (\<lambda>_. ret t)))) (\<lambda>_ _. True)" for ex i
  proof (rule keeps_bnd [OF _ put])
    show "keeps env (\<lambda>m. task_list env m ?ws = Inr ex \<and> i \<notin> t_id ` set ex \<and> validate_key (typed_task_prefix @ i) = Inr ())
      (read_mem (\<lambda>m. plan_task env m ex (new_task i opts c))) (\<lambda>t. ?new ex i t)"
      by (rule keeps_read) (auto dest: planned_new simp: new_task_def)
  qed
  have checked: "keeps env (\<lambda>m. task_list env m ?ws = Inr ex \<and> i \<notin> t_id ` set ex \<and> validate_key (typed_task_prefix @ i) = Inr ())
     (bnd (pure_of (check_references (map t_id ex) opts)) (\<lambda>_.
      bnd (read_mem (\<lambda>m. plan_task env m ex (new_task i opts c))) (\<lambda>t.
      bnd (task_put env t) (\<lambda>_. bnd (case t_on_failure t of
         Fallback (Some fb) _ \<Rightarrow> release_fallback env ?ws fb | _ \<Rightarrow> ret ()) (\<lambda>_. ret t))))) (\<lambda>_ _. True)" for ex i
    by (rule keeps_bnd [OF _ plan]) (rule keeps_pure)
  have id: "keeps env (\<lambda>m. task_list env m ?ws = Inr ex) (unused_id (co_now opts) ex) (\<lambda>i m.
      task_list env m ?ws = Inr ex \<and> i \<notin> t_id ` set ex \<and> validate_key (typed_task_prefix @ i) = Inr ())" for ex
    unfolding unused_id_def
  proof (rule keeps_unchanged)
    show "ts_mem s' = ts_mem s" if "unused (Suc (length ex)) CHR ''t'' (co_now opts) (map t_id ex) s = (r, s')" for s r s'
      using unused_free [OF that] by simp
  qed (auto simp del: unused.simps dest!: unused_free)
  have "keeps env P (bnd (read_mem (\<lambda>m. task_list env m ?ws)) (\<lambda>ex. bnd (unused_id (co_now opts) ex) (\<lambda>i.
     bnd (pure_of (check_references (map t_id ex) opts)) (\<lambda>_.
      bnd (read_mem (\<lambda>m. plan_task env m ex (new_task i opts c))) (\<lambda>t.
      bnd (task_put env t) (\<lambda>_. bnd (case t_on_failure t of
         Fallback (Some fb) _ \<Rightarrow> release_fallback env ?ws fb | _ \<Rightarrow> ret ()) (\<lambda>_. ret t))))))) (\<lambda>_ _. True)"
    by (rule keeps_bnd [OF _ keeps_bnd [OF id checked]]) (rule keeps_read)
  then show ?thesis unfolding create_with_contract_def by (simp add: keeps_fail)
qed

section \<open>Settling\<close>

text \<open>The list a pass works on: the tasks of the workspace, those that wait as they are stored.\<close>

definition follows :: "task_env \<Rightarrow> u32 \<Rightarrow> task list \<Rightarrow> memory \<Rightarrow> bool" where
  "follows env ws all m \<longleftrightarrow> distinct (map t_id all) \<and> (\<forall>t \<in> set all. t_workspace t = ws) \<and>
     (\<forall>t \<in> set all. t_state t = Waiting \<longrightarrow> got env m t)"

lemma listed_follows: "fine env m \<Longrightarrow> task_list env m ws = Inr all \<Longrightarrow> follows env ws all m"
  using listed_ids listed_workspace stored_listed by (auto simp: follows_def fine_def got_def)

lemma settle_step_evolves:
  assumes "settle_step env inactive now all tid = Some (i, nt)"
  shows "evolves (look (all ! i)) (look nt)" "settled_right (look nt)" "t_id nt = t_id (all ! i)"
    "t_workspace nt = t_workspace (all ! i)"
proof -
  note d = settle_stepD [OF assms]
  from d(6) obtain sk where nt: "nt = (all ! i)\<lparr>t_finished := (if is_terminal (t_state nt) then Some now else t_finished (all ! i)),
      t_state := t_state nt, t_skip := sk\<rparr>" by blast
  have "hush (t_state nt) \<noteq> Succeeded" using waiting_moves [OF d(7)] by auto
  then show "settled_right (look nt)" by simp
  show "t_id nt = t_id (all ! i)" "t_workspace nt = t_workspace (all ! i)" by (subst nt; simp)+
  have "same_task (look (all ! i)) (look nt)" by (subst nt) simp
  moreover have "t_state nt \<in> {Ready, Skipped}"
    using d(4,6) by (auto simp: settle_target_def apply_on_failure_def split: option.splits verdict.splits on_failure.splits if_splits)
  then have "(hush (t_state (all ! i)), lk_state (look nt)) \<in> drifts" by (auto simp: d(3) drifts_def)
  ultimately show "evolves (look (all ! i)) (look nt)" by (rule evolves_move) (simp add: d(3))
qed

lemma keeps_settle_put:
  assumes "settle_step env inactive now all tid = Some (i, nt)"
  shows "keeps env (follows env ws all) (task_put env nt) (\<lambda>_. follows env ws (all[i := nt]))"
proof (rule keeps_put)
  note d = settle_stepD [OF assms] and e = settle_step_evolves [OF assms]
  show "may_put drifting env m nt" if "follows env ws all m" for m
    using that d(1,3) e by (intro may_put_replace [of env m nt "all ! i"]) (auto simp: follows_def got_def)
  show "follows env ws (all[i := nt]) m'" if f: "follows env ws all m" and rep: "replaced env nt m m'" for m m'
  proof -
    have ids: "map t_id (all[i := nt]) = map t_id all"
      using d(1) e(3) by (intro nth_equalityI) (auto simp: nth_list_update)
    have "got env m' t" if t: "t \<in> set (all[i := nt])" "t_state t = Waiting" for t
    proof -
      obtain j where j: "j < length all" "t = all[i := nt] ! j" using t(1) by (auto simp: in_set_conv_nth)
      with t(2) d(4) have ne: "j \<noteq> i" using d(1) by auto
      with j have tj: "t = all ! j" by simp
      have "t_id t \<noteq> t_id nt"
        using f ne j(1) d(1) e(3) tj by (auto simp: follows_def distinct_conv_nth)
      moreover have "got env m t" using f tj j(1) t(2) by (simp add: follows_def)
      ultimately show ?thesis using rep by (simp add: replaced_def got_def)
    qed
    moreover have "t_workspace t = ws" if "t \<in> set (all[i := nt])" for t
      using f that d(1) e(4) set_update_subset_insert [of all i nt] by (auto simp: follows_def)
    ultimately show ?thesis using f ids by (simp add: follows_def)
  qed
qed

lemma keeps_settle_pass:
  "keeps env (follows env ws all) (settle_pass env inactive now tids all updated changed)
     (\<lambda>p. follows env ws (fst p))"
proof (induction tids arbitrary: all updated changed)
  case (Cons tid tids)
  show ?case
  proof (cases "settle_step env inactive now all tid")
    case (Some p)
    obtain i nt where p: "p = (i, nt)" by fastforce
    have "keeps env (follows env ws all)
      (bnd (task_put env nt) (\<lambda>_. settle_pass env inactive now tids (all[i := nt]) (updated @ [nt]) True))
      (\<lambda>p. follows env ws (fst p))"
      by (rule keeps_bnd [OF keeps_settle_put [OF Some [unfolded p]] Cons.IH])
    then show ?thesis by (simp add: Some p)
  qed (simp add: Cons.IH)
qed (simp add: keeps_ret)

lemma keeps_settle_loop: "keeps env (follows env ws all) (settle_loop env inactive now tids all updated) (\<lambda>_ _. True)"
proof (rule keepsI)
  fix s r s'
  assume "faithful env" "fine env (ts_mem s)" "follows env ws all (ts_mem s)"
    and "settle_loop env inactive now tids all updated s = (r, s')"
  then show "fine env (ts_mem s') \<and> kept_by drifting env (ts_mem s) (ts_mem s') \<and> (\<forall>x. r = Inr x \<longrightarrow> True)"
  proof (induction env inactive now tids all updated s rule: settle_loop.induct)
    case (1 env inactive now tids all updated s)
    obtain r1 s1 where pass: "settle_pass env inactive now tids all updated False s = (r1, s1)" by fastforce
    note one = keepsD [OF keeps_settle_pass 1(2,3,4) pass]
    show ?case
    proof (cases r1)
      case (Inl e)
      with 1(5) pass one show ?thesis by (simp add: settle_loop.simps)
    next
      case (Inr x)
      obtain all' upd ch where x: "x = (all', upd, ch)" by (cases x)
      show ?thesis
      proof (cases ch)
        case True
        have follow: "follows env ws all' (ts_mem s1)" using one(3) [OF Inr] x by simp
        have rest: "settle_loop env inactive now tids all' upd s1 = (r, s')"
          using 1(5) pass Inr x True by (subst (asm) settle_loop.simps) simp
        note 1(1) [OF pass [symmetric] Inr x [symmetric] refl True 1(2) one(1) follow rest]
        with one(2) kept_trans [OF _ _ composes_rules(1)] show ?thesis by blast
      next
        case False
        with 1(5) pass Inr x one show ?thesis by (auto simp: settle_loop.simps)
      qed
    qed
  qed
qed

lemma keeps_settle_waiting: "keeps env (follows env ws all) (settle_waiting env ws all tids now) (\<lambda>_ _. True)"
  unfolding settle_waiting_def
  by (rule keeps_bnd [OF _ keeps_settle_loop]) (rule keeps_read)

lemma keeps_list:
  "keeps_by S env P (read_mem (\<lambda>m. task_list env m ws)) (\<lambda>all. follows env ws all)"
  by (rule keeps_read) (rule listed_follows)

lemma keeps_cascade: "keeps env P (cascade_downstream env ws tid now) (\<lambda>_ _. True)"
  unfolding cascade_downstream_def
  by (rule keeps_bnd [OF keeps_list keeps_bnd [OF keeps_ended keeps_settle_waiting]])

lemma keeps_cascade_each: "keeps env P (cascade_each env ws now ids) (\<lambda>_ _. True)"
proof (induction ids arbitrary: P)
  case (Cons i ids)
  have "keeps env (\<lambda>_. True) (bnd (cascade_each env ws now ids) (\<lambda>us. ret (ts @ us))) (\<lambda>_ _. True)" for ts
    by (rule keeps_bnd [OF Cons.IH keeps_ret])
  then show ?case by (simp add: keeps_bnd [OF keeps_cascade])
qed (simp add: keeps_ret)

section \<open>Fallbacks\<close>

lemma evaluated_state: "evaluate_readiness g i = Some st \<Longrightarrow> st = Ready \<or> st = Skipped"
  by (auto simp: evaluate_readiness_def split: if_splits)

lemma keeps_get:
  "keeps_by S env P (read_mem (\<lambda>m. task_get env m ws i)) (\<lambda>o' m. \<forall>t. o' = Some t \<longrightarrow> got env m t)"
  by (rule keeps_read) (auto intro: fine_got)

lemma keeps_move:
  assumes "is_valid_transition (t_state t) st" "st = Ready \<or> st = Skipped"
  shows "keeps env (\<lambda>m. got env m t) (task_put env (t\<lparr>t_state := st\<rparr>)) (\<lambda>_ _. True)"
  by (rule keeps_update) (use assms state_drifts(2,3) [of "t_state t"] in \<open>auto intro!: evolves_move simp: valid_not_terminal\<close>)

lemma keeps_advance: "keeps env P (advance_existing_fallback env ws fb) (\<lambda>_ _. True)"
  unfolding advance_existing_fallback_def
proof (rule keeps_bnd [OF keeps_get])
  fix o'
  show "keeps env (\<lambda>m. \<forall>t. o' = Some t \<longrightarrow> got env m t)
    (case o' of None \<Rightarrow> ret None
     | Some t \<Rightarrow>
         bnd (read_mem (\<lambda>m. task_list env m ws)) (\<lambda>all.
         bnd (read_mem (\<lambda>m. readiness_graph env m ws all)) (\<lambda>g.
         case evaluate_readiness g fb of
           None \<Rightarrow> ret None
         | Some target \<Rightarrow>
             if target = Waiting \<or> \<not> is_valid_transition (t_state t) target then ret None
             else bnd (task_put env (t\<lparr>t_state := target\<rparr>)) (\<lambda>_. ret (Some (t\<lparr>t_state := target\<rparr>)))))) (\<lambda>_ _. True)"
  proof (cases o')
    case (Some t)
    have put: "keeps env (\<lambda>m. got env m t) (case evaluate_readiness g fb of
           None \<Rightarrow> ret None
         | Some target \<Rightarrow>
             if target = Waiting \<or> \<not> is_valid_transition (t_state t) target then ret None
             else bnd (task_put env (t\<lparr>t_state := target\<rparr>)) (\<lambda>_. ret (Some (t\<lparr>t_state := target\<rparr>)))) (\<lambda>_ _. True)" for g
      by (auto split: option.split intro!: keeps_ret keeps_bnd [OF keeps_move keeps_ret] dest: evaluated_state)
    have "keeps env (\<lambda>m. got env m t) (bnd (read_mem (\<lambda>m. task_list env m ws)) (\<lambda>all.
         bnd (read_mem (\<lambda>m. readiness_graph env m ws all)) (\<lambda>g.
         case evaluate_readiness g fb of
           None \<Rightarrow> ret None
         | Some target \<Rightarrow>
             if target = Waiting \<or> \<not> is_valid_transition (t_state t) target then ret None
             else bnd (task_put env (t\<lparr>t_state := target\<rparr>)) (\<lambda>_. ret (Some (t\<lparr>t_state := target\<rparr>)))))) (\<lambda>_ _. True)"
      by (rule keeps_bnd [OF keeps_read keeps_bnd [OF keeps_read put]])
    then show ?thesis by (simp add: Some)
  qed (simp add: keeps_ret)
qed

lemma keeps_materialize: "keeps env P (materialize_inline_fallback env ws t spec now) (\<lambda>_ _. True)"
proof -
  have "keeps env Q (create env opts) (\<lambda>_ _. True)" for Q opts
    unfolding create_def by (rule keeps_create)
  then have "keeps env (\<lambda>_. True) (if b then ret None else bnd (create env opts) (\<lambda>t. ret (Some t))) (\<lambda>_ _. True)" for b opts
    by (auto intro: keeps_ret keeps_bnd [where R = "\<lambda>_ _. True"])
  then show ?thesis
    unfolding materialize_inline_fallback_def by (intro keeps_bnd [where R = "\<lambda>_ _. True"]) (simp_all add: keeps_read)
qed

lemma keeps_start: "keeps env P (start_fallback env ws t now) (\<lambda>_ _. True)"
  unfolding start_fallback_def
  by (auto split: on_failure.split option.split
      intro!: keeps_ret keeps_bnd [where R = "\<lambda>_ _. True"] keeps_advance keeps_materialize)

lemma keeps_drop:
  assumes "\<And>fb. keeps env (\<lambda>_. True) (skip fb) (\<lambda>_ _. True)"
  shows "keeps env P (drop_fallback env skip ws t) (\<lambda>_ _. True)"
  unfolding drop_fallback_def
  by (auto split: on_failure.split option.split
      intro!: keeps_ret keeps_bnd [where R = "\<lambda>_ _. True"] keeps_read assms)

lemma keeps_parents: "keeps env P (settle_parents env ws t now) (\<lambda>_ _. True)"
  unfolding settle_parents_def by (auto intro!: keeps_ret keeps_bnd [where R = "\<lambda>_ _. True"] keeps_read keeps_cascade_each)

lemma keeps_propagate:
  assumes "\<And>fb. keeps env (\<lambda>_. True) (skip fb) (\<lambda>_ _. True)"
  shows "keeps env P (propagate env skip ws t now) (\<lambda>_ _. True)"
  unfolding propagate_def
  by (intro keeps_bnd [where R = "\<lambda>_ _. True"] keeps_start keeps_drop keeps_cascade keeps_parents keeps_ret assms) simp

section \<open>Transitions\<close>

text \<open>What settling the end of a task leaves as it was, and what it puts right.\<close>

lemma settled_terminal:
  assumes "settle_route env m (settle_typed_terminal t st) = (st', t')"
  shows "same_task (look t) (look t')" "t_state t' = t_state t" "t_finished t' = t_finished t"
    and "st' = st \<or> st = Succeeded \<and> is_failed st'"
    and "st' = Succeeded \<Longrightarrow> is_typed t' \<Longrightarrow> lk_output (look t') \<and> (lk_routes (look t') \<longrightarrow> t_route t' \<noteq> None)"
proof -
  obtain st1 t1 where one: "settle_typed_terminal t st = (st1, t1)" by fastforce
  have a: "same_task (look t) (look t1)" "t_state t1 = t_state t" "t_finished t1 = t_finished t" "is_typed t1 = is_typed t"
      "st1 = st \<or> st = Succeeded \<and> is_failed st1" "st1 = Succeeded \<Longrightarrow> is_typed t1 \<Longrightarrow> lk_output (look t1)"
    using one
    by (auto simp: settle_typed_terminal_def set_failure_result_def Let_def same_task_def look_def is_typed_def
        split: if_splits task_state.splits option.splits)
  have two: "settle_route env m (st1, t1) = (st', t')" using assms one by simp
  have b: "same_task (look t1) (look t')" "t_state t' = t_state t1" "t_finished t' = t_finished t1"
      "st' = st1 \<or> st1 = Succeeded \<and> is_failed st'"
      "st' = Succeeded \<Longrightarrow> is_typed t' \<Longrightarrow> lk_output (look t') = lk_output (look t1) \<and> (lk_routes (look t') \<longrightarrow> t_route t' \<noteq> None)"
    using two
    by (auto simp: settle_route_def Let_def same_task_def look_def is_typed_def decide_route_def sbind_Inr_iff
        split: if_splits sum.splits option.splits)
  from a b show "same_task (look t) (look t')" "t_state t' = t_state t" "t_finished t' = t_finished t"
    "st' = st \<or> st = Succeeded \<and> is_failed st'"
    by (auto simp: same_task_def)
  show "lk_output (look t') \<and> (lk_routes (look t') \<longrightarrow> t_route t' \<noteq> None)" if "st' = Succeeded" "is_typed t'"
    using a b that by (auto simp: same_task_def)
qed

lemma look_close [simp]: "look (close_phase t) = look t"
  by (simp add: close_phase_def)

lemma entered_look:
  "same_task (look t) (look (enter_state now (st, t)))" "lk_state (look (enter_state now (st, t))) = hush st"
  "lk_output (look (enter_state now (st, t))) = lk_output (look t)"
  "st \<noteq> Running \<Longrightarrow> lk_route (look (enter_state now (st, t))) = lk_route (look t)"
  by (simp_all add: enter_state_def Let_def) (simp_all add: look_def same_task_def close_phase_def is_typed_def)

lemma entered_right:
  assumes "is_valid_transition (t_state t) st"
    and "t' = enter_state now (settle_route env m (settle_typed_terminal t st))"
    and "edges \<subseteq> S (t_workspace t, t_id t) \<or> st = Skipped \<and> drifts \<subseteq> S (t_workspace t, t_id t)"
  shows "evolves_by S (look t) (look t')" "settled_right (look t')"
proof -
  obtain st1 t1 where one: "settle_route env m (settle_typed_terminal t st) = (st1, t1)" by fastforce
  note a = settled_terminal [OF one]
  have t': "t' = enter_state now (st1, t1)" using assms(2) one by simp
  have same: "same_task (look t) (look t')"
    using a(1) entered_look(1) [of t1 now st1] by (simp add: t' same_task_def)
  have valid: "is_valid_transition (t_state t) st1"
    using a(4) assms(1) by (cases "t_state t"; cases st1) auto
  have "(hush (t_state t), hush st1) \<in> S (t_workspace t, t_id t)"
    using assms(3) a(4) state_edges(1) [OF valid] state_drifts(2) [of "t_state t"] valid by auto
  then have "(hush (t_state t), lk_state (look t')) \<in> S (t_workspace t, t_id t)"
    unfolding t' entered_look(2) .
  then show "evolves_by S (look t) (look t')" by (rule evolves_move [OF same]) (use valid_not_terminal [OF assms(1)] in simp)
  show "settled_right (look t')"
  proof (cases "st1 = Succeeded")
    case True
    with a(5) show ?thesis
      using entered_look [where t = t1 and now = now and st = st1] by (auto simp: settled_right_def t' same_task_def)
  next
    case False
    then have "lk_state (look t') \<noteq> Succeeded" unfolding t' entered_look(2) by simp
    then show ?thesis by (rule settled_right_other)
  qed
qed

text \<open>
  A transition of a task: one edge of the task, then what drifts. The transition of a fallback to
  \<open>Skipped\<close> is a drift by itself, so a chain of them is one.
\<close>

lemma keeps_step:
  assumes skip: "\<And>fb. keeps env (\<lambda>_. True) (set_state_within n env ws fb Skipped now) (\<lambda>_ _. True)"
    and comp: "composes S1 drifting S"
    and reach: "edges \<subseteq> S1 (ws, tid) \<or> st = Skipped \<and> drifts \<subseteq> S1 (ws, tid)"
  shows "keeps_by S env P (set_state_within (Suc n) env ws tid st now) (\<lambda>_ _. True)"
proof -
  let ?skip = "\<lambda>fb. set_state_within n env ws fb Skipped now"
  let ?step = "\<lambda>t large. if large
             then ret (t\<lparr>t_state := Failed (msg refused_to_start), t_finished := Some now\<rparr>)
             else read_mem (\<lambda>m. Inr (enter_state now (settle_route env m (settle_typed_terminal t st))))"
  let ?may = "\<lambda>t t1. settled_right (look t) \<longrightarrow> evolves_by S1 (look t) (look t1) \<and> settled_right (look t1)"
  have rest: "keeps_by S env (\<lambda>m. got env m t \<and> ?may t t1)
      (bnd (task_put env t1) (\<lambda>_. bnd (propagate env ?skip ws t1 now) (\<lambda>more. ret (t1, more)))) (\<lambda>_ _. True)" for t t1
  proof (rule keeps_by_bnd [OF _ _ comp])
    show "keeps_by S1 env (\<lambda>m. got env m t \<and> ?may t t1) (task_put env t1) (\<lambda>_ _. True)"
    proof (rule keeps_pre)
      show "keeps_by S1 env (\<lambda>m. ?may t t1 \<and> got env m t) (task_put env t1) (\<lambda>_ _. True)"
        by (rule keeps_assume, rule keeps_update) blast
    qed simp
    show "keeps env (\<lambda>_. True) (bnd (propagate env ?skip ws t1 now) (\<lambda>more. ret (t1, more))) (\<lambda>_ _. True)"
      by (intro keeps_bnd [where R = "\<lambda>_ _. True"] keeps_propagate keeps_ret skip) simp
  qed
  have mid: "keeps_by S env (\<lambda>m. got env m t) (bnd (?step t large)
      (\<lambda>t1. bnd (task_put env t1) (\<lambda>_. bnd (propagate env ?skip ws t1 now) (\<lambda>more. ret (t1, more))))) (\<lambda>_ _. True)"
    if valid: "is_valid_transition (t_state t) st" and large: "large \<Longrightarrow> st = Running"
      and t: "t_workspace t = ws" "t_id t = tid" for t large
  proof (rule keeps_next [OF _ rest])
    show "stays env (\<lambda>m. got env m t) (?step t large) (\<lambda>t1 m. got env m t \<and> ?may t t1)"
    proof (cases large)
      case True
      with large valid have ready: "t_state t = Ready" by (cases "t_state t") auto
      have "(Ready, Failed []) \<in> S1 (ws, tid)" using reach large True state_edges(2) by auto
      with ready True t show ?thesis by (auto intro!: keeps_ret evolves_move)
    next
      case False
      then show ?thesis using entered_right [OF valid refl, of S1] reach t by (auto intro!: keeps_read)
    qed
  qed
  have sized: "keeps_by S env (\<lambda>m. got env m t) (bnd (read_mem (\<lambda>m. Inr (st = Running \<and> check_record env m t ''the definition'' \<noteq> Inr ()))) (\<lambda>large.
       bnd (?step t large) (\<lambda>t1. bnd (task_put env t1) (\<lambda>_. bnd (propagate env ?skip ws t1 now) (\<lambda>more. ret (t1, more)))))) (\<lambda>_ _. True)"
    if valid: "is_valid_transition (t_state t) st" and t: "t_workspace t = ws" "t_id t = tid" for t
  proof (rule keeps_next)
    show "stays env (\<lambda>m. got env m t) (read_mem (\<lambda>m. Inr (st = Running \<and> check_record env m t ''the definition'' \<noteq> Inr ())))
      (\<lambda>large m. (large \<longrightarrow> st = Running) \<and> got env m t)"
      by (rule keeps_read) auto
    show "keeps_by S env (\<lambda>m. (large \<longrightarrow> st = Running) \<and> got env m t)
      (bnd (?step t large) (\<lambda>t1. bnd (task_put env t1) (\<lambda>_. bnd (propagate env ?skip ws t1 now) (\<lambda>more. ret (t1, more))))) (\<lambda>_ _. True)" for large
      by (rule keeps_assume) (rule mid [OF valid _ t]; blast)
  qed
  have "keeps_by S env P (bnd (need_task env ws tid) (\<lambda>t.
      if \<not> is_valid_transition (t_state t) st then refuse (InvalidTransition (state_name (t_state t)) (state_name st))
      else bnd (read_mem (\<lambda>m. Inr (st = Running \<and> check_record env m t ''the definition'' \<noteq> Inr ()))) (\<lambda>large.
       bnd (?step t large) (\<lambda>t1. bnd (task_put env t1) (\<lambda>_. bnd (propagate env ?skip ws t1 now) (\<lambda>more. ret (t1, more))))))) (\<lambda>_ _. True)"
  proof (rule keeps_next [OF keeps_need_got [where Q = "\<lambda>t m. (t_workspace t = ws \<and> t_id t = tid) \<and> got env m t"]])
    show "keeps_by S env (\<lambda>m. (t_workspace t = ws \<and> t_id t = tid) \<and> got env m t)
      (if \<not> is_valid_transition (t_state t) st then refuse (InvalidTransition (state_name (t_state t)) (state_name st))
      else bnd (read_mem (\<lambda>m. Inr (st = Running \<and> check_record env m t ''the definition'' \<noteq> Inr ()))) (\<lambda>large.
       bnd (?step t large) (\<lambda>t1. bnd (task_put env t1) (\<lambda>_. bnd (propagate env ?skip ws t1 now) (\<lambda>more. ret (t1, more)))))) (\<lambda>_ _. True)" for t
      by (rule keeps_assume, cases "is_valid_transition (t_state t) st") (use sized in \<open>simp_all add: keeps_fail\<close>)
  qed simp
  then show ?thesis by (simp add: Let_def)
qed

lemma keeps_skip: "keeps env P (set_state_within n env ws tid Skipped now) (\<lambda>_ _. True)"
proof (induction n arbitrary: P tid)
  case (Suc n)
  show ?case by (rule keeps_step [OF Suc.IH composes_rules(1)]) simp
qed (simp add: keeps_fail)

lemma keeps_set_state: "keeps_by (moving ws tid) env P (set_state_within n env ws tid st now) (\<lambda>_ _. True)"
proof (cases n)
  case (Suc k)
  show ?thesis
    unfolding Suc by (rule keeps_step [OF keeps_skip composes_rules(4)]) (simp add: edge_of_def)
qed (simp add: keeps_fail)

end
