(* ===== verification/Task_Lifecycle.thy ===== *)
theory Task_Lifecycle
  imports Task_Store_Laws Task_Demo
begin

text \<open>
  The life of a task over sequences of the operations of \<open>store_command\<close>: an operation moves a record
  along the graph of the states only, a record that ended is final, and a typed task that succeeded has
  its output.
\<close>

section \<open>Operations on one task\<close>

lemma keeps_state_dep: "(\<And>n. keeps_by S env P (f n) Q) \<Longrightarrow> keeps_by S env P (\<lambda>s. f (b s) s) Q"
  unfolding keeps_by_def by blast

lemma keeps_set: "keeps_by (moving ws tid) env P (set_state env ws tid st now) (\<lambda>_ _. True)"
  unfolding set_state_def [abs_def] by (rule keeps_state_dep) (rule keeps_set_state)

lemma keeps_propagated: "keeps env P (propagate_transition env ws t now) (\<lambda>_ _. True)"
  unfolding propagate_transition_def [abs_def]
  by (rule keeps_state_dep [where f = "\<lambda>n. propagate env (\<lambda>fb. set_state_within n env ws fb Skipped now) ws t now"])
    (rule keeps_propagate, rule keeps_skip)

lemma keeps_cancel: "keeps_by (moving ws tid) env P (cancel env ws tid now) (\<lambda>_ _. True)"
  unfolding cancel_def
  by (rule keeps_next [OF keeps_need_got [where Q = "\<lambda>_ _. True"]]) (simp_all add: keeps_fail keeps_set)

text \<open>The operations that store the task they found with a field that no law speaks of.\<close>

lemma keeps_snapshot: "keeps env P (set_input_snapshot env ws tid sn) (\<lambda>_ _. True)"
proof -
  have "keeps env (\<lambda>m. got env m t) (bnd (read_mem (\<lambda>m. Inr (check_record env m (t\<lparr>t_snapshot := Some sn\<rparr>) ''the resolved input''))) (\<lambda>chk.
       let t1 = (case chk of
                   Inr _ \<Rightarrow> t\<lparr>t_snapshot := Some sn\<rparr>
                 | Inl why \<Rightarrow> t\<lparr>t_snapshot := Some (sn\<lparr>is_value := TVNull, is_execution := no_execution,
                     is_failure := Some ((failure_new StageInput (msg why))\<lparr>tf_location := Some ''/bindings''\<rparr>)\<rparr>)\<rparr>)
       in bnd (task_put env t1) (\<lambda>_. ret t1))) (\<lambda>_ _. True)" for t
    by (rule keeps_bnd [where R = "\<lambda>_ m. got env m t"])
      (auto simp: Let_def split: sum.split intro!: keeps_read keeps_bnd [OF keeps_same_look keeps_ret])
  then show ?thesis
    unfolding set_input_snapshot_def
    by (intro keeps_bnd [OF keeps_need_got [where Q = "\<lambda>t m. got env m t"]]) (auto intro: keeps_fail)
qed

lemma keeps_accepted: "keeps env P (set_accepted env ws tid x) (\<lambda>_ _. True)"
  unfolding set_accepted_def Let_def
  by (rule keeps_bnd [OF keeps_need_got [where Q = "\<lambda>t m. got env m t"]])
    (auto intro: keeps_fail keeps_bnd [OF keeps_same_look keeps_ret])

lemma keeps_token: "keeps env P (issue_report_token env ws tid k) (\<lambda>_ _. True)"
  unfolding issue_report_token_def Let_def
  by (rule keeps_bnd [OF keeps_need_got [where Q = "\<lambda>t m. got env m t"]])
    (auto intro: keeps_fail keeps_bnd [OF keeps_same_look keeps_ret])

lemma keeps_link: "keeps env P (set_agent_link env ws tid a l) (\<lambda>_ _. True)"
  unfolding set_agent_link_def
  by (rule keeps_bnd [OF keeps_need_got [where Q = "\<lambda>t m. got env m t"]])
    (auto split: option.split intro: keeps_ret keeps_bnd [OF keeps_same_look keeps_ret])

lemma look_progress [simp]: "look (with_progress p t) = look t"
  by (simp add: with_progress_def)

lemma keeps_begin: "keeps env P (begin_postprocess_run env ws tid a run now) (\<lambda>_ _. True)"
  unfolding begin_postprocess_run_def Let_def
  by (rule keeps_bnd [OF keeps_need_got [where Q = "\<lambda>t m. got env m t"]])
    (auto split: option.split intro: keeps_fail keeps_bnd [OF keeps_same_look keeps_ret])

section \<open>Completion\<close>

definition step_left :: "task_env \<Rightarrow> task \<Rightarrow> pp_step \<Rightarrow> memory \<Rightarrow> bool" where
  "step_left env t ps m \<longleftrightarrow>
     (case ps of
        ContinueWith _ \<Rightarrow> True
      | NotApplicable \<Rightarrow> got env m t
      | FinalizeWith t1 \<Rightarrow> got env m t \<and> same_task (look t) (look t1) \<and> t_state t1 = t_state t)"

lemma step_left_simps [simp]:
  "step_left env t NotApplicable = (\<lambda>m. got env m t)" "step_left env t (ContinueWith r) = (\<lambda>m. True)"
  "step_left env t (FinalizeWith t1) = (\<lambda>m. (same_task (look t) (look t1) \<and> t_state t1 = t_state t) \<and> got env m t)"
  by (auto simp: step_left_def)

lemma keeps_running: "stays env (\<lambda>m. got env m t) (keep_running env t p dup) (step_left env t)"
proof -
  have "stays env (\<lambda>m. got env m t) (bnd (task_put env (with_progress p t)) (\<lambda>_.
      ret (ContinueWith \<lparr>rc_task = with_progress p t, rc_transitioned = [], rc_duplicate = False\<rparr>))) (step_left env t)"
    by (rule keeps_next [OF keeps_same_look keeps_ret]) (simp_all add: step_left_def)
  then show ?thesis by (auto simp: keep_running_def Let_def step_left_def intro: keeps_ret)
qed

lemma with_progress_fields: "t_state (with_progress p t) = t_state t" "t_contract (with_progress p t) = t_contract t"
  by (simp_all add: with_progress_def)

lemma keeps_run_report: "stays env (\<lambda>m. got env m t) (run_report env t c spec p cm rp now) (step_left env t)"
proof (cases "next_run spec rp")
  case None
  let ?p1 = "if cm_main_dropped cm then p\<lparr>pg_execution := (pg_execution p)\<lparr>res_output := None\<rparr>\<rparr> else p"
  have "stays env (\<lambda>m. got env m t)
     (bnd (read_mem (\<lambda>m. Inr (finalize_postprocessed (m_text m) (ev_ptr env) t c spec ?p1 rp))) (\<lambda>typed.
             ret (FinalizeWith ((with_progress (?p1\<lparr>pg_phase := PhaseFinished (rp_run rp)\<rparr>) t)
               \<lparr>t_result := Some (project_v1 typed), t_typed_result := Some typed, t_accepted := None\<rparr>))))
     (step_left env t)"
    by (rule keeps_next [where R = "\<lambda>_ m. got env m t"])
      (auto simp: same_task_def look_def with_progress_def is_typed_def intro!: keeps_read keeps_ret)
  then show ?thesis by (simp add: run_report_def None Let_def)
next
  case (Some run)
  then show ?thesis by (auto simp: run_report_def Let_def keeps_running)
qed

lemma keeps_postprocess: "stays env (\<lambda>m. got env m t) (postprocess_step env t cm now) (step_left env t)"
proof (cases "t_contract t")
  case None
  then show ?thesis by (simp add: postprocess_step_def keeps_ret step_left_def)
next
  case (Some c)
  show ?thesis
  proof (cases "tk_postprocess c")
    case None
    then show ?thesis by (simp add: postprocess_step_def Some keeps_ret step_left_def)
  next
    case (Some spec)
    have "stays env (\<lambda>m. got env m t) (bnd (read_mem (\<lambda>m. Inr (completion_digest env m cm, m_text m))) f) (step_left env t)"
      if "\<And>p. stays env (\<lambda>m. got env m t) (f p) (step_left env t)" for f
      by (rule keeps_next [OF keeps_read that]) simp
    note first = this
    show ?thesis
      by (simp add: postprocess_step_def \<open>t_contract t = Some c\<close> Some, rule first)
        (auto split: option.split intro!: keeps_ret keeps_fail keeps_running keeps_run_report)
  qed
qed

lemma recorded_look: "same_task (look t) (look (record_result jt t r))" "t_state (record_result jt t r) = t_state t"
  by (auto simp: record_result_def Let_def same_task_def look_def is_typed_def split: option.split)

lemma end_right:
  assumes "same_task (look t) (look t1)" "t_state t1 = t_state t" "is_valid_transition (t_state t) st"
    and "edges \<subseteq> S (t_workspace t, t_id t)"
  shows "evolves_by S (look t) (look (end_task env m t1 st dg now))" "settled_right (look (end_task env m t1 st dg now))"
proof -
  obtain st2 t2 where two: "settle_route env m (settle_typed_terminal t1 st) = (st2, t2)" by fastforce
  note a = settled_terminal [OF two]
  have look: "look (end_task env m t1 st dg now) = (look t2)\<lparr>lk_state := hush st2, lk_finished := Some now\<rparr>"
    by (simp add: end_task_def two look_def is_typed_def)
  have same: "same_task (look t) (look (end_task env m t1 st dg now))"
    using assms(1) a(1) by (simp add: look) (simp add: same_task_def)
  have "is_valid_transition (t_state t) st2" using a(4) assms(3) by (cases "t_state t"; cases st2) auto
  from state_edges(1) [OF this] assms(4) show "evolves_by S (look t) (look (end_task env m t1 st dg now))"
    by (intro evolves_move [OF same]) (auto simp: look valid_not_terminal [OF assms(3)])
  show "settled_right (look (end_task env m t1 st dg now))"
    using a(5) unfolding look by (cases "st2 = Succeeded") (auto simp: settled_right_def)
qed

lemma keeps_receipt: "keeps env P (finish_receipt env ws t now dup) (\<lambda>_ _. True)"
  unfolding finish_receipt_def by (rule keeps_bnd [OF keeps_propagated keeps_ret]) simp

lemma keeps_complete_running:
  assumes "t_state t = Running" "t_workspace t = ws" "t_id t = tid" "\<forall>r. cm_outcome cm \<noteq> OutLost r"
  shows "keeps_by (moving ws tid) env (\<lambda>m. got env m t) (complete_running env ws t cm dg now) (\<lambda>_ _. True)"
proof -
  let ?st = "outcome_state (cm_outcome cm)"
  let ?rest = "\<lambda>f. bnd (read_mem (\<lambda>m. Inr (end_task env m (f m) ?st dg now))) (\<lambda>t2.
     bnd (task_put env t2) (\<lambda>_. finish_receipt env ws t2 now False))"
  let ?S = "edge_of ws tid"
  have edge: "edges \<subseteq> ?S (t_workspace t, t_id t)" using assms by (simp add: edge_of_def)
  have valid: "is_valid_transition (t_state t) ?st" using assms by (cases "cm_outcome cm") auto
  have rest: "keeps_by (moving ws tid) env (\<lambda>m. got env m t) (?rest f) (\<lambda>_ _. True)"
    if f: "\<And>m. same_task (look t) (look (f m)) \<and> t_state (f m) = t_state t" for f
  proof (rule keeps_next)
    show "stays env (\<lambda>m. got env m t) (read_mem (\<lambda>m. Inr (end_task env m (f m) ?st dg now)))
        (\<lambda>t2 m. (evolves_by ?S (look t) (look t2) \<and> settled_right (look t2)) \<and> got env m t)"
      by (rule keeps_read) (use f end_right [where S = ?S, OF _ _ valid edge] in auto)
    show "keeps_by (moving ws tid) env (\<lambda>m. (evolves_by ?S (look t) (look t2) \<and> settled_right (look t2)) \<and> got env m t)
        (bnd (task_put env t2) (\<lambda>_. finish_receipt env ws t2 now False)) (\<lambda>_ _. True)" for t2
      by (rule keeps_assume, rule keeps_moved [OF keeps_update keeps_receipt]) blast
  qed
  have each: "keeps_by (moving ws tid) env (step_left env t ps) (case ps of ContinueWith r \<Rightarrow> ret r | _ \<Rightarrow>
      ?rest (\<lambda>m. case ps of FinalizeWith t1 \<Rightarrow> t1 | _ \<Rightarrow> record_result (m_text m) t (cm_result cm))) (\<lambda>_ _. True)" for ps
  proof (cases ps)
    case NotApplicable
    with rest [of "\<lambda>m. record_result (m_text m) t (cm_result cm)"] show ?thesis
      by (simp add: recorded_look)
  next
    case (ContinueWith r)
    then show ?thesis by (simp add: keeps_ret)
  next
    case (FinalizeWith t1)
    have "keeps_by (moving ws tid) env (\<lambda>m. (same_task (look t) (look t1) \<and> t_state t1 = t_state t) \<and> got env m t) (?rest (\<lambda>m. t1)) (\<lambda>_ _. True)"
      by (rule keeps_assume, rule rest) blast
    then show ?thesis by (simp add: FinalizeWith)
  qed
  show ?thesis unfolding complete_running_def by (rule keeps_next [OF keeps_postprocess each])
qed

text \<open>The completion of an untyped task: its result is stored, then the task moves.\<close>

lemma keeps_result:
  assumes "\<not> is_typed t" "\<not> is_terminal (t_state t)" "t_id t = tid" "t_workspace t = ws"
  shows "stays env (\<lambda>m. got env m t) (set_result env ws tid r) (\<lambda>_ _. True)"
  unfolding set_result_def
proof (rule keeps_next)
  show "stays env (\<lambda>m. got env m t) (need_task env ws tid) (\<lambda>t' m. t' = t \<and> got env m t)"
    by (rule keeps_need_got) (use assms in \<open>auto simp: got_def\<close>)
  have "stays env (\<lambda>m. got env m t) (bnd (read_mem (\<lambda>m. Inr (record_result (m_text m) t r)))
      (\<lambda>t1. bnd (task_put env t1) (\<lambda>_. ret t1))) (\<lambda>_ _. True)"
  proof (rule keeps_next)
    show "stays env (\<lambda>m. got env m t) (read_mem (\<lambda>m. Inr (record_result (m_text m) t r)))
        (\<lambda>t1 m. (evolves_by resting (look t) (look t1) \<and> settled_right (look t1)) \<and> got env m t)"
      by (rule keeps_read)
        (use assms(1,2) in \<open>auto simp: record_result_def is_typed_def evolves_by_def same_task_def look_def settled_right_def\<close>)
    show "stays env (\<lambda>m. (evolves_by resting (look t) (look t1) \<and> settled_right (look t1)) \<and> got env m t)
        (bnd (task_put env t1) (\<lambda>_. ret t1)) (\<lambda>_ _. True)" for t1
      by (rule keeps_assume, rule keeps_next [OF keeps_update keeps_ret]) auto
  qed
  then show "stays env (\<lambda>m. t' = t \<and> got env m t) (bnd (read_mem (\<lambda>m. Inr (record_result (m_text m) t' r)))
      (\<lambda>t1. bnd (task_put env t1) (\<lambda>_. ret t1))) (\<lambda>_ _. True)" for t'
    by (intro keeps_assume) simp
qed

lemma keeps_drift: "keeps env P f Q \<Longrightarrow> keeps_by (moving ws tid) env P f Q"
  by (rule keeps_mono) (auto simp: moving_def)

lemma keeps_complete: "keeps_by (moving ws tid) env P (complete env ws tid cm now) (\<lambda>_ _. True)"
proof -
  let ?st = "outcome_state (cm_outcome cm)"
  have v1: "keeps_by (moving ws tid) env (\<lambda>m. got env m t) (bnd (set_result env ws tid (cm_result cm)) (\<lambda>_.
       bnd (set_state env ws tid ?st now) (\<lambda>(t1, more).
         ret \<lparr>rc_task = t1, rc_transitioned = more, rc_duplicate = False\<rparr>))) (\<lambda>_ _. True)"
    if "\<not> is_typed t" "is_valid_transition (t_state t) ?st" "t_id t = tid" "t_workspace t = ws" for t
    by (rule keeps_next [OF keeps_result [OF that(1) valid_not_terminal [OF that(2)] that(3,4)]
          keeps_last [OF keeps_set]]) (simp add: keeps_ret split: prod.split)
  have lost: "keeps_by (moving ws tid) env (\<lambda>m. got env m t) (bnd (task_put env (close_phase (t\<lparr>t_state := Unknown (Some r)\<rparr>))) (\<lambda>_. ret x)) (\<lambda>_ _. True)"
    if "t_state t = Running" "t_id t = tid" "t_workspace t = ws" for t r and x :: receipt
    by (rule keeps_last [OF keeps_update keeps_ret])
      (use that state_edges(1) [of Running "Unknown (Some r)"] in \<open>auto intro!: evolves_move simp: moving_def\<close>)
  have again: "keeps_by (moving ws tid) env Q (complete_again env ws t cm dg now) (\<lambda>_ _. True)" for Q t dg
    unfolding complete_again_def by (auto split: option.split intro: keeps_fail keeps_drift keeps_receipt)
  have v2: "keeps_by (moving ws tid) env (\<lambda>m. got env m t) (bnd (read_mem (\<lambda>m. Inr (completion_digest env m cm))) (\<lambda>dg.
       if is_terminal (t_state t) then complete_again env ws t cm dg now
       else if t_state t \<noteq> Running then refuse (InvalidTransition (state_name (t_state t)) (state_name ?st))
       else case cm_outcome cm of
         OutLost _ \<Rightarrow> bnd (task_put env (close_phase (t\<lparr>t_state := ?st\<rparr>)))
             (\<lambda>_. ret \<lparr>rc_task = close_phase (t\<lparr>t_state := ?st\<rparr>), rc_transitioned = [], rc_duplicate = False\<rparr>)
       | _ \<Rightarrow> complete_running env ws t cm dg now)) (\<lambda>_ _. True)"
    if "t_id t = tid" "t_workspace t = ws" for t
    by (rule keeps_next [where R = "\<lambda>_ m. got env m t"])
      (auto simp: that split: completion_outcome.split intro: keeps_read keeps_fail again lost keeps_complete_running)
  show ?thesis
    unfolding complete_def Let_def
  proof (rule keeps_next [OF keeps_need_got [where Q = "\<lambda>t m. (t_id t = tid \<and> t_workspace t = ws) \<and> got env m t"]], goal_cases)
    case (2 t)
    show ?case by (rule keeps_assume) (simp add: keeps_fail v1 v2)
  qed simp
qed

section \<open>Notes and the remaining operations\<close>

lemma keeps_resettle: "keeps env P (resettle_waiting env ws now) (\<lambda>_ _. True)"
proof -
  have "keeps env (\<lambda>_. True) (bnd (cascade_each env ws now ids) (\<lambda>more. ret (ts @ more))) (\<lambda>_ _. True)" for ids ts
    by (rule keeps_bnd [OF keeps_cascade_each keeps_ret]) simp
  then show ?thesis
    unfolding resettle_waiting_def by (intro keeps_bnd [OF keeps_list keeps_bnd [OF keeps_settle_waiting]])
qed

lemma keeps_block: "keeps env P (put_report_block env ws tid b) (\<lambda>_ _. True)"
  unfolding put_report_block_def
proof (rule keeps_bnd)
  show "keeps env P (pure_of (report_key tid (rb_attempt b))) (\<lambda>k _. foreign k)"
  proof (rule keeps_pure)
    fix k assume "report_key tid (rb_attempt b) = Inr k"
    then have "k = ''tasty.agent.task_report.'' @ (tid @ ''.'' @ show_nat (unat (rb_attempt b)))"
      by (simp only: report_key_def agent_key_ok)
    then show "foreign k" by (simp only: foreign_keys)
  qed
  show "keeps env (\<lambda>_. foreign k) (on_mem (kv_put (ev_owner env) ws k (ev_enc_block env b))) (\<lambda>_ _. True)" for k
  proof (rule keeps_pre)
    show "keeps env (\<lambda>_. foreign k \<and> True) (on_mem (kv_put (ev_owner env) ws k (ev_enc_block env b))) (\<lambda>_ _. True)"
      by (rule keeps_assume) (rule keeps_foreign [OF kv_put_writes])
  qed simp
qed

lemma keeps_open_block: "keeps env P (open_report_block env a may) (\<lambda>_ _. True)"
  unfolding open_report_block_def Let_def
  by (intro keeps_bnd [where R = "\<lambda>_ _. True"] keeps_need)
    (auto split: option.split intro!: keeps_fail keeps_ret keeps_bnd [where R = "\<lambda>_ _. True"] keeps_read)

lemma keeps_append: "keeps env P (append_report env a note limits now) (\<lambda>_ _. True)"
  unfolding append_report_def append_report_by_def Let_def
  by (intro keeps_bnd [where R = "\<lambda>_ _. True"] keeps_open_block)
    (auto split: prod.split intro!: keeps_ret keeps_bnd [where R = "\<lambda>_ _. True"] keeps_block)

section \<open>Any sequence of operations\<close>

datatype store_command =
    DoCreate create_opts
  | DoCreateTyped create_opts task_contract
  | DoSetState u32 string task_state u64
  | DoCancel u32 string u64
  | DoSnapshot u32 string input_snapshot
  | DoAccepted u32 string capped_json
  | DoBeginRun u32 string string u32 u64
  | DoComplete u32 string completion u64
  | DoResettle u32 u64
  | DoLink u32 string string agent_link
  | DoToken u32 string report_token
  | DoNote report_address string report_limits u64
  | DoTick int

fun exec_command :: "task_env \<Rightarrow> store_command \<Rightarrow> task_store \<Rightarrow> task_store" where
  "exec_command env (DoCreate opts) s = snd (create env opts s)"
| "exec_command env (DoCreateTyped opts c) s = snd (create_typed env opts c s)"
| "exec_command env (DoSetState ws i st now) s = snd (set_state env ws i st now s)"
| "exec_command env (DoCancel ws i now) s = snd (cancel env ws i now s)"
| "exec_command env (DoSnapshot ws i sn) s = snd (set_input_snapshot env ws i sn s)"
| "exec_command env (DoAccepted ws i x) s = snd (set_accepted env ws i x s)"
| "exec_command env (DoBeginRun ws i a run now) s = snd (begin_postprocess_run env ws i a run now s)"
| "exec_command env (DoComplete ws i cm now) s = snd (complete env ws i cm now s)"
| "exec_command env (DoResettle ws now) s = snd (resettle_waiting env ws now s)"
| "exec_command env (DoLink ws i a l) s = snd (set_agent_link env ws i a l s)"
| "exec_command env (DoToken ws i k) s = snd (issue_report_token env ws i k s)"
| "exec_command env (DoNote a note limits now) s = snd (append_report env a note limits now s)"
| "exec_command env (DoTick now) s = s\<lparr>ts_mem := (ts_mem s)\<lparr>m_now := now\<rparr>\<rparr>"

fun exec_all :: "task_env \<Rightarrow> store_command list \<Rightarrow> task_store \<Rightarrow> task_store" where
  "exec_all env [] s = s"
| "exec_all env (c # cs) s = exec_all env cs (exec_command env c s)"

definition new_store :: "json_text \<Rightarrow> mem_config \<Rightarrow> int \<Rightarrow> task_store" where
  "new_store jt cfg now = \<lparr>ts_mem = open_in_memory jt cfg now, ts_seq = 0, ts_drawn = 0\<rparr>"

text \<open>What an operation may do to the state of a task: only what is asked of the task it names.\<close>

fun reach_of :: "store_command \<Rightarrow> reach" where
  "reach_of (DoSetState ws i st now) = moving ws i"
| "reach_of (DoCancel ws i now) = moving ws i"
| "reach_of (DoComplete ws i cm now) = moving ws i"
| "reach_of _ = drifting"

lemma keeps_run:
  assumes "keeps_by S env (\<lambda>_. True) f (\<lambda>_ _. True)" "faithful env" "fine env (ts_mem s)"
  shows "fine env (ts_mem (snd (f s))) \<and> kept_by S env (ts_mem s) (ts_mem (snd (f s)))"
  using keepsD(1,2) [OF assms, of "fst (f s)" "snd (f s)"] by simp

lemma clock_get: "rows_plain m \<Longrightarrow> task_get env (m\<lparr>m_now := n\<rparr>) ws i = task_get env m ws i"
  by (rule task_get_cong) (simp_all add: kv_get_clock)

lemma fine_clock: "fine env m \<Longrightarrow> fine env (m\<lparr>m_now := n\<rparr>) \<and> kept_by S env m (m\<lparr>m_now := n\<rparr>)"
  by (auto simp: fine_def records_ok_def clock_get good_slots_def kv_get_clock text_stable_def intro: kept_same)

lemma exec_keeps:
  assumes "faithful env" "fine env (ts_mem s)"
  shows "fine env (ts_mem (exec_command env c s)) \<and> kept_by (reach_of c) env (ts_mem s) (ts_mem (exec_command env c s))"
proof (cases c)
  case (DoTick now)
  then show ?thesis using fine_clock [OF assms(2)] by simp
qed (simp_all only: exec_command.simps reach_of.simps create_def create_typed_def,
    (rule keeps_run [OF _ assms], rule keeps_set keeps_cancel keeps_snapshot keeps_accepted keeps_begin
      keeps_complete keeps_resettle keeps_link keeps_token keeps_append keeps_create)+)

text \<open>Over several operations any move is possible, up to the first one that ends the task.\<close>

abbreviation anyhow :: reach where
  "anyhow \<equiv> \<lambda>_. UNIV"

lemma exec_all_keeps:
  "faithful env \<Longrightarrow> fine env (ts_mem s) \<Longrightarrow>
     fine env (ts_mem (exec_all env cs s)) \<and> kept_by anyhow env (ts_mem s) (ts_mem (exec_all env cs s))"
proof (induction cs arbitrary: s)
  case (Cons c cs)
  have one: "fine env (ts_mem (exec_command env c s))" "kept_by anyhow env (ts_mem s) (ts_mem (exec_command env c s))"
    using exec_keeps [OF Cons.prems, of c] by (auto intro: kept_mono)
  from Cons.IH [OF Cons.prems(1) one(1)] kept_trans [OF one(2) _ composes_rules(5)] show ?case by simp
qed (simp add: kept_same)

lemma fine_new: "(\<And>v. readable jt (Json v)) \<Longrightarrow> fine env (ts_mem (new_store jt cfg now))"
  by (simp add: fine_def records_ok_def new_store_def good_slots_def text_stable_def task_get_Some)

text \<open>C1. Over any sequence of creations, transitions, cancellations, completions, settlings, inputs and
  acceptances stored, runs of post-processing begun, links and tokens set and notes appended, failed
  ones included and at any times, a stored task keeps its id, workspace, name, dependencies, creation
  time, graph and kind and whether it routes, and once it has ended its state, its finish time, whether
  it has an output, its route and the reason it was skipped do not change any more; no record
  vanishes. Retries, which take an ended task back on purpose, results set without a completion,
  reserved fallbacks, deletions and submissions of graphs are not among the operations.\<close>

theorem ended_tasks_final:
  assumes "faithful env" "fine env (ts_mem s)" "s' = exec_all env cmds s"
    and "task_get env (ts_mem s) ws i = Inr (Some t)"
  shows "(\<exists>e. task_get env (ts_mem s') ws i = Inl e) \<or>
    (\<exists>t'. task_get env (ts_mem s') ws i = Inr (Some t') \<and> same_task (look t) (look t')
       \<and> (is_terminal (t_state t) \<longrightarrow> look t' = look t))"
proof -
  have "kept_by anyhow env (ts_mem s) (ts_mem s')" using exec_all_keeps [OF assms(1,2)] by (simp add: assms(3))
  from kept_some [OF this assms(4)] show ?thesis by (auto simp: evolves_by_def)
qed




text \<open>C3. Over any sequence of operations the store stays in order, and in it a typed task that is
  stored as succeeded has an output and no failure, and the route it decided when its contract declares
  transitions.\<close>

theorem succeeded_tasks_have_output:
  assumes "faithful env" "fine env (ts_mem s)" "s' = exec_all env cmds s"
    and "task_get env (ts_mem s') ws i = Inr (Some t)" "t_contract t = Some c" "t_state t = Succeeded"
  shows "fine env (ts_mem s') \<and> (\<exists>r. t_typed_result t = Some r \<and> tr_has_output r \<and> tr_error r = None
    \<and> (tk_transitions c \<noteq> None \<longrightarrow> t_route t \<noteq> None))"
proof -
  have fine: "fine env (ts_mem s')" using exec_all_keeps [OF assms(1,2)] by (simp add: assms(3))
  with assms(4) have "settled_right (look t)" by (auto simp: fine_def)
  with assms(5,6) fine show ?thesis
    by (auto simp: settled_right_def look_def is_typed_def split: option.splits)
qed

end
