(* ===== verification/Task_Termination.thy ===== *)
theory Task_Termination
  imports Task_Lifecycle Task_Graph_Laws
begin

text \<open>
  The operations return. \<open>Endless\<close> is what the model gives when a loop has used up its bound, or a
  search has not ended; here none of the transitions of a task gives it: the worklists end, the
  settling ends, an unused identifier is found, and a chain of fallbacks is no longer than the tasks
  that wait.
\<close>

section \<open>Operations that return in every store\<close>

definition returns :: "'a store_op \<Rightarrow> bool" where
  "returns f \<longleftrightarrow> (\<forall>s. fst (f s) \<noteq> Inl Endless)"

lemma returns_bnd: "returns f \<Longrightarrow> (\<And>x. returns (g x)) \<Longrightarrow> returns (bnd f g)"
  unfolding returns_def by (auto simp: bnd_def split: prod.split sum.split) (metis fst_conv)

lemma returns_ret [simp]: "returns (ret x)"
  by (simp add: returns_def ret_def)

lemma returns_refuse [simp]: "returns (refuse e)"
  by (simp add: returns_def fail_def)

lemma map_err_Failing: "map_err Failing r \<noteq> Inl Endless"
  by (cases r) (simp_all add: map_err_def)

lemma returns_read [simp]: "returns (read_mem f)"
  by (simp add: returns_def read_mem_def map_err_Failing)

lemma returns_pure [simp]: "returns (pure_of r)"
  by (simp add: returns_def pure_of_def map_err_Failing)

lemma returns_mem [simp]: "returns (on_mem f)"
  by (simp add: returns_def on_mem_def map_err_Failing split: prod.split)

lemma returns_need [simp]: "returns (need_task env ws i)"
  unfolding need_task_def by (rule returns_bnd) (auto split: option.split)

lemma returns_put [simp]: "returns (task_put env t)"
proof -
  have "returns (put_terminal env ws k v t rv)" for ws k v rv
    by (auto simp: returns_def put_terminal_def Let_def split: prod.split sum.split)
  then show ?thesis
    unfolding task_put_def Let_def by (auto intro!: returns_bnd split: prod.split)
qed

lemma returns_settle_pass: "returns (settle_pass env inactive now tids all updated changed)"
  by (induction tids arbitrary: all updated changed) (auto intro!: returns_bnd split: option.split)

lemma returns_settle_loop: "returns (settle_loop env inactive now tids all updated)"
proof -
  have "fst (settle_loop env inactive now tids all updated s) \<noteq> Inl Endless" for s
  proof (induction env inactive now tids all updated s rule: settle_loop.induct)
    case (1 env inactive now tids all updated s)
    obtain r1 s1 where pass: "settle_pass env inactive now tids all updated False s = (r1, s1)" by fastforce
    have "r1 \<noteq> Inl Endless"
      using returns_settle_pass [unfolded returns_def, THEN spec, of env inactive now tids all updated False s] pass
      by simp
    with 1 [OF pass [symmetric]] pass show ?case
      by (subst settle_loop.simps) (auto split: sum.split)
  qed
  then show ?thesis by (simp add: returns_def)
qed

lemma returns_settle [simp]: "returns (settle_waiting env ws all tids now)"
  unfolding settle_waiting_def by (intro returns_bnd returns_settle_loop) simp

lemma returns_cascade [simp]: "returns (cascade_downstream env ws tid now)"
proof -
  have "returns (search_result (transitive_downstream g tid))" for g
    using down.closure_total [of g tid] by (auto simp: transitive_downstream_def search_result_def)
  then show ?thesis unfolding cascade_downstream_def by (intro returns_bnd) simp_all
qed

lemma returns_cascade_each [simp]: "returns (cascade_each env ws now ids)"
  by (induction ids) (auto intro!: returns_bnd)

lemma returns_advance [simp]: "returns (advance_existing_fallback env ws fb)"
  unfolding advance_existing_fallback_def by (auto intro!: returns_bnd split: option.split)

lemma returns_parents [simp]: "returns (settle_parents env ws t now)"
  unfolding settle_parents_def by (auto intro!: returns_bnd)

lemma returns_release [simp]: "returns (release_fallback env ws fb)"
  unfolding release_fallback_def Let_def by (auto intro!: returns_bnd split: option.split)

section \<open>Identifiers\<close>

lemma digits_value_zeros: "digits_value (replicate k CHR ''0'' @ ds) = digits_value ds"
  by (induction k) (simp_all add: digits_value_def)

lemma numbered_inj: "numbered c now a = numbered c now b \<Longrightarrow> a = b"
proof -
  assume "numbered c now a = numbered c now b"
  then have "pad6 (show_nat (unat a)) = pad6 (show_nat (unat b))" by (simp add: numbered_def)
  then have "digits_value (pad6 (show_nat (unat a))) = digits_value (pad6 (show_nat (unat b)))" by simp
  then show ?thesis 
    by (simp add: pad6_def digits_value_zeros show_nat_value word_unat_eq_iff)
qed

text \<open>The loop ends when one of the numbers it may try is unused.\<close>

lemma unused_finds:
  "k < n \<Longrightarrow> numbered c now (ts_seq s + of_nat k) \<notin> set used \<Longrightarrow> \<exists>i s'. unused n c now used s = (Inr i, s')"
proof (induction n c now used s arbitrary: k rule: unused.induct)
  case (2 n c now used s)
  show ?case
  proof (cases "numbered c now (ts_seq s) \<in> set used")
    case True
    with 2(3) have "k \<noteq> 0" by (cases k) auto
    then obtain j where k: "k = Suc j" by (cases k) auto
    have "\<exists>i s'. unused n c now used (s\<lparr>ts_seq := ts_seq s + 1\<rparr>) = (Inr i, s')"
      by (rule 2(1) [OF refl refl True, where k = j]) (use 2(2,3) k in \<open>simp_all add: add.assoc\<close>)
    with True show ?thesis by (simp add: Let_def)
  qed (simp add: Let_def)
qed simp

lemma unused_total:
  assumes "length used < 2 ^ 64"
  shows "\<exists>i s'. unused (Suc (length used)) c now used s = (Inr i, s')"
proof -
  let ?f = "\<lambda>k. numbered c now (ts_seq s + of_nat k)"
  have "inj_on ?f {..length used}"
  proof (rule inj_onI)
    fix a b assume "a \<in> {..length used}" "b \<in> {..length used}" "?f a = ?f b"
    then have "(of_nat a :: u64) = of_nat b" "a < 2 ^ 64" "b < 2 ^ 64"
      using assms numbered_inj [of c now "ts_seq s + of_nat a" "ts_seq s + of_nat b"] by auto
    moreover have "unat (of_nat k :: u64) = k" if "k < 2 ^ 64" for k
      using that by (simp add: unsigned_of_nat take_bit_nat_eq_self)
    ultimately show "a = b" by metis
  qed
  then have "card (?f ` {..length used}) = Suc (length used)" by (simp add: card_image)
  moreover have "card (set used) \<le> length used" by (rule card_length)
  ultimately have "\<not> ?f ` {..length used} \<subseteq> set used"
    by (metis List.finite_set Suc_n_not_le_n card_mono le_trans)
  then obtain k where "k \<in> {..length used}" "?f k \<notin> set used" by blast
  then show ?thesis by (intro unused_finds [of k]) simp_all
qed

section \<open>How many tasks there are\<close>

definition row_keys :: "memory \<Rightarrow> string set" where
  "row_keys m = r_key ` set (regular m)"

lemma row_keys_card: "finite (row_keys m)" "card (row_keys m) \<le> length (regular m)"
proof -
  show "finite (row_keys m)" by (simp add: row_keys_def)
  have "card (r_key ` set (regular m)) \<le> card (set (regular m))" by (rule card_image_le) simp
  also have "\<dots> \<le> length (regular m)" by (rule card_length)
  finally show "card (row_keys m) \<le> length (regular m)" by (simp add: row_keys_def)
qed

lemma stored_row: "kv_get m ws k = Inr (Some v) \<Longrightarrow> k \<in> row_keys m"
  by (auto simp: kv_get_def mem_get_def sbind_Inr_iff map_err_ok row_keys_def dest!: find_row_SomeD
      split: option.splits if_splits)

text \<open>Different readable tasks of a workspace have rows under different keys.\<close>

definition id_key :: "task_env \<Rightarrow> memory \<Rightarrow> u32 \<Rightarrow> string \<Rightarrow> string" where
  "id_key env m ws i =
     (if task_prefix @ i \<in> row_keys m then task_prefix @ i else typed_task_prefix @ i)"

lemma id_key_inj: "inj_on (id_key env m ws) UNIV"
  using slots_differ slots_differ [symmetric] by (auto simp: inj_on_def id_key_def)

lemma readable_row:
  assumes "task_get env m ws i = Inr (Some t)"
  shows "id_key env m ws i \<in> row_keys m"
  using assms stored_row by (auto simp: task_get_Some id_key_def)

lemma readable_finite:
  assumes "\<And>i. i \<in> A \<Longrightarrow> \<exists>t. task_get env m ws i = Inr (Some t)"
  shows "finite A" "card A \<le> card (row_keys m)"
proof -
  have sub: "id_key env m ws ` A \<subseteq> row_keys m" using assms readable_row by blast
  have inj: "inj_on (id_key env m ws) A" using id_key_inj by (rule inj_on_subset) simp
  show "finite A" using finite_imageD [OF finite_subset [OF sub row_keys_card(1)] inj] .
  show "card A \<le> card (row_keys m)" using card_inj_on_le [OF inj sub row_keys_card(1)] .
qed

lemma listed_length:
  assumes "records_ok env m" "task_list env m ws = Inr ts"
  shows "length ts \<le> card (row_keys m)"
proof -
  have "card (t_id ` set ts) = length ts"
    using listed_ids [OF assms] by (metis distinct_card length_map list.set_map)
  moreover have "card (t_id ` set ts) \<le> card (row_keys m)"
    by (rule readable_finite(2)) (use stored_listed [OF assms] in auto)
  ultimately show ?thesis by simp
qed

lemma row_keys_unit: "row_keys (begin_unit m) = row_keys m" "row_keys (commit_unit m) = row_keys m"
  by (auto simp: row_keys_def begin_unit_def commit_unit_def split: option.split)

text \<open>A task that is stored adds at most two keys.\<close>

lemma put_adds_keys:
  assumes "task_put env t s = (r, s')"
  shows "card (row_keys (ts_mem s')) \<le> card (row_keys (ts_mem s)) + 2"
proof (cases r)
  case (Inl e)
  with assms task_put_Inl(1) show ?thesis by fastforce
next
  case (Inr u)
  have sub: "row_keys (ts_mem s') \<subseteq> {k1, k2} \<union> row_keys (ts_mem s) \<Longrightarrow> ?thesis" for k1 k2
  proof -
    assume "row_keys (ts_mem s') \<subseteq> {k1, k2} \<union> row_keys (ts_mem s)"
    then have "card (row_keys (ts_mem s')) \<le> card ({k1, k2} \<union> row_keys (ts_mem s))"
      by (rule card_mono [rotated]) (simp add: row_keys_card)
    also have "\<dots> \<le> card {k1, k2} + card (row_keys (ts_mem s))" by (rule card_Un_le)
    also have "card {k1, k2} \<le> 2" by (simp add: card_insert_if)
    finally show ?thesis by simp
  qed
  from assms [unfolded Inr] show ?thesis
  proof (cases rule: task_put_Inr)
    case (ends k v rv outs)
    from batch_of_two(2) [OF ends(4) refl] obtain m1 m2 n where
      "kv_put (ev_owner env) (t_workspace t) k v (if m_unit (ts_mem s) = None then begin_unit (ts_mem s) else ts_mem s) = (Inr (), m1)"
      "kv_put (ev_owner env) (t_workspace t) (terminal_prefix @ ev_uuid env (ts_drawn s)) n m1 = (Inr (), m2)"
      "ts_mem s' = (if m_unit (ts_mem s) = None then commit_unit m2 else m2)" by blast
    from kv_put_keys [OF this(1)] kv_put_keys [OF this(2)] this(3)
    have "row_keys (ts_mem s') \<subseteq> insert (terminal_prefix @ ev_uuid env (ts_drawn s)) (insert k (row_keys (ts_mem s)))"
      unfolding row_keys_def [symmetric] by (auto simp: row_keys_unit split: if_splits)
    then show ?thesis by (intro sub [of k "terminal_prefix @ ev_uuid env (ts_drawn s)"]) auto
  next
    case (stays k v)
    from kv_put_keys [OF stays(3)] show ?thesis by (intro sub [of k k]) (auto simp: row_keys_def)
  qed
qed

section \<open>Transitions\<close>

text \<open>The tasks of a workspace that wait.\<close>

definition waiting_ids :: "task_env \<Rightarrow> memory \<Rightarrow> u32 \<Rightarrow> string set" where
  "waiting_ids env m ws = {i. \<exists>t. task_get env m ws i = Inr (Some t) \<and> t_state t = Waiting}"

lemma waiting_finite: "finite (waiting_ids env m ws)" "card (waiting_ids env m ws) \<le> length (regular m)"
proof -
  have a: "\<exists>t. task_get env m ws i = Inr (Some t)" if "i \<in> waiting_ids env m ws" for i
    using that by (auto simp: waiting_ids_def)
  show "finite (waiting_ids env m ws)" by (rule readable_finite(1) [OF a])
  show "card (waiting_ids env m ws) \<le> length (regular m)"
    using readable_finite(2) [OF a] row_keys_card(2) [of m] by (rule order_trans)
qed

text \<open>An operation returns from the state \<open>s\<close>.\<close>

lemma bnd_returns:
  assumes "fst (f s) \<noteq> Inl Endless" "\<And>x s'. f s = (Inr x, s') \<Longrightarrow> fst (g x s') \<noteq> Inl Endless"
  shows "fst (bnd f g s) \<noteq> Inl Endless"
  using assms by (auto simp: bnd_def split: prod.split sum.split)

lemma returnsD: "returns f \<Longrightarrow> fst (f s) \<noteq> Inl Endless"
  by (simp add: returns_def)

lemma create_returns:
  assumes "fine env (ts_mem s)" "card (row_keys (ts_mem s)) < 2 ^ 64"
  shows "fst (create_with_contract env opts c s) \<noteq> Inl Endless"
proof -
  have rest: "returns (bnd (pure_of r) (\<lambda>_. bnd (read_mem p) (\<lambda>t. bnd (task_put env t) (\<lambda>_.
        bnd (case t_on_failure t of Fallback (Some fb) _ \<Rightarrow> release_fallback env ws fb | _ \<Rightarrow> ret ()) (\<lambda>_. ret t)))))" for r p ws
    by (auto intro!: returns_bnd split: on_failure.split option.split)
  have "fst (bnd (read_mem (\<lambda>m. task_list env m (co_workspace opts))) (\<lambda>existing.
        bnd (unused_id (co_now opts) existing) (\<lambda>tid.
        bnd (pure_of (check_references (map t_id existing) opts)) (\<lambda>_.
        bnd (read_mem (\<lambda>m. plan_task env m existing (new_task tid opts c))) (\<lambda>t.
        bnd (task_put env t) (\<lambda>_.
        bnd (case t_on_failure t of
               Fallback (Some fb) _ \<Rightarrow> release_fallback env (co_workspace opts) fb
             | _ \<Rightarrow> ret ()) (\<lambda>_.
        ret t)))))) s) \<noteq> Inl Endless"
  proof (rule bnd_returns [OF _ bnd_returns [OF _ returnsD [OF rest]]])
    show "fst (read_mem (\<lambda>m. task_list env m (co_workspace opts)) s) \<noteq> Inl Endless"
      by (rule returnsD) simp
    fix ex s1 assume "read_mem (\<lambda>m. task_list env m (co_workspace opts)) s = (Inr ex, s1)"
    then have "task_list env (ts_mem s) (co_workspace opts) = Inr ex" by (auto simp: read_mem_def map_err_ok)
    then have "length ex \<le> card (row_keys (ts_mem s))"
      using assms(1) by (intro listed_length) (auto simp: fine_def)
    then have "length (map t_id ex) < 2 ^ 64" using assms(2) by simp
    from unused_total [OF this, of "CHR ''t''" "co_now opts" s1]
    show "fst (unused_id (co_now opts) ex s1) \<noteq> Inl Endless" by (auto simp: unused_id_def)
  qed
  then show ?thesis by (auto simp: create_with_contract_def fail_def)
qed

lemma advance_adds_keys:
  assumes "advance_existing_fallback env ws fb s = (r, s')"
  shows "card (row_keys (ts_mem s')) \<le> card (row_keys (ts_mem s)) + 2"
proof -
  have "s' = s \<or> (\<exists>t r'. task_put env t s = (r', s'))"
    using assms
    by (auto simp: advance_existing_fallback_def bnd_def read_mem_def ret_def
        split: prod.splits sum.splits option.splits if_splits)
  then show ?thesis using put_adds_keys by fastforce
qed

lemma start_returns:
  assumes "faithful env" "fine env (ts_mem s)" "is_failed (t_state t) \<Longrightarrow> card (row_keys (ts_mem s)) + 2 < 2 ^ 64"
  shows "fst (start_fallback env ws t now s) \<noteq> Inl Endless"
proof (cases "\<exists>fb spec. t_on_failure t = Fallback fb spec \<and> is_failed (t_state t)")
  case True
  then obtain fb spec where f: "t_on_failure t = Fallback fb spec" "is_failed (t_state t)" by blast
  let ?a = "case fb of None \<Rightarrow> ret None | Some i \<Rightarrow> advance_existing_fallback env ws i"
  let ?b = "case spec of None \<Rightarrow> ret None | Some sp \<Rightarrow> materialize_inline_fallback env ws t sp now"
  have "fst (bnd ?a (\<lambda>a. bnd ?b (\<lambda>b. ret (f a b))) s) \<noteq> Inl Endless" for f :: "task option \<Rightarrow> task option \<Rightarrow> task list"
  proof (rule bnd_returns [OF _ bnd_returns])
    show "fst (?a s) \<noteq> Inl Endless" by (rule returnsD) (simp split: option.split)
    fix a s1 assume a: "?a s = (Inr a, s1)"
    have "keeps env (\<lambda>_. True) ?a (\<lambda>_ _. True)" by (simp add: keeps_ret keeps_advance split: option.split)
    from keepsD(1) [OF this assms(1,2) _ a] have fine: "fine env (ts_mem s1)" by simp
    have "card (row_keys (ts_mem s1)) \<le> card (row_keys (ts_mem s)) + 2"
      using a advance_adds_keys by (cases fb) (auto simp: ret_def)
    then have room: "card (row_keys (ts_mem s1)) < 2 ^ 64" using assms(3) f(2) by simp
    show "fst (?b s1) \<noteq> Inl Endless"
    proof (cases spec)
      case (Some sp)
      have "fst (materialize_inline_fallback env ws t sp now s1) \<noteq> Inl Endless"
        unfolding materialize_inline_fallback_def
      proof (rule bnd_returns)
        fix ex s2 assume "read_mem (\<lambda>m. task_list env m ws) s1 = (Inr ex, s2)"
        then have "s2 = s1" by (simp add: read_mem_def)
        moreover have "fst (bnd (create env (inline_opts t ws now sp)) (\<lambda>t. ret (Some t)) s1) \<noteq> Inl Endless"
          by (rule bnd_returns) (use create_returns [OF fine room] in \<open>simp_all add: create_def ret_def\<close>)
        ultimately show "fst ((if \<exists>x\<in>set ex. fallback_of x = Some (t_id t) then ret None
            else bnd (create env (inline_opts t ws now sp)) (\<lambda>t. ret (Some t))) s2) \<noteq> Inl Endless"
          by (auto simp: ret_def)
      qed (rule returnsD, simp)
      with Some show ?thesis by simp
    qed (simp add: ret_def)
  qed (simp add: ret_def)
  then show ?thesis by (simp add: start_fallback_def f)
qed (auto simp: start_fallback_def ret_def split: on_failure.split)

text \<open>What is left of the waiting tasks when one is stored that does not wait.\<close>

lemma waiting_after:
  assumes "replaced env t m m'" "t_state t \<noteq> Waiting" "t_workspace t = ws"
  shows "waiting_ids env m' ws \<subseteq> waiting_ids env m ws - {t_id t}"
proof
  fix i assume "i \<in> waiting_ids env m' ws"
  then obtain t' where t': "task_get env m' ws i = Inr (Some t')" "t_state t' = Waiting" by (auto simp: waiting_ids_def)
  have "i \<noteq> t_id t"
  proof
    assume "i = t_id t"
    with assms t' have "look t' = look t" by (simp add: replaced_def reads_as_def)
    then have "hush (t_state t') = hush (t_state t)" by (simp add: look_def)
    with t'(2) assms(2) show False by (metis hush_simps(5))
  qed
  moreover from this have "task_get env m ws i = Inr (Some t')" using assms(1,3) t'(1) by (simp add: replaced_def)
  ultimately show "i \<in> waiting_ids env m ws - {t_id t}" using t'(2) by (auto simp: waiting_ids_def)
qed

lemma propagate_returns:
  assumes "faithful env" "fine env (ts_mem s)" "is_failed (t_state t) \<Longrightarrow> card (row_keys (ts_mem s)) + 2 < 2 ^ 64"
    and skip: "\<And>fb. fb \<in> waiting_ids env (ts_mem s) ws \<Longrightarrow> t_state t \<in> {Succeeded, Cancelled, Skipped} \<Longrightarrow>
      fst (skip fb s) \<noteq> Inl Endless"
  shows "fst (propagate env skip ws t now s) \<noteq> Inl Endless"
proof -
  have drop: "fst (drop_fallback env skip ws t s2) \<noteq> Inl Endless"
    if s2: "start_fallback env ws t now s = (Inr l, s2)" for l s2
  proof (cases "is_typed t \<or> t_state t \<notin> {Succeeded, Cancelled, Skipped}")
    case False
    then have "s2 = s" using s2 by (auto simp: start_fallback_def ret_def split: on_failure.splits)
    have each: "fst (bnd (skip fb) (\<lambda>(x, more). ret (x # more)) s) \<noteq> Inl Endless"
      if "fb \<in> waiting_ids env (ts_mem s) ws" for fb
      using skip [OF that] False by (intro bnd_returns) (auto simp: ret_def)
    show ?thesis
    proof (cases "\<exists>fb spec. t_on_failure t = Fallback (Some fb) spec")
      case True
      then obtain fb spec where "t_on_failure t = Fallback (Some fb) spec" by blast
      then have d: "drop_fallback env skip ws t = bnd (read_mem (\<lambda>m. task_get env m ws fb)) (\<lambda>o'.
          if map_option t_state o' = Some Waiting then bnd (skip fb) (\<lambda>(x, more). ret (x # more)) else ret [])"
        using False by (simp add: drop_fallback_def)
      show ?thesis
        unfolding d \<open>s2 = s\<close>
      proof (rule bnd_returns [OF returnsD [OF returns_read]])
        fix o' s3 assume "read_mem (\<lambda>m. task_get env m ws fb) s = (Inr o', s3)"
        then have o': "task_get env (ts_mem s) ws fb = Inr o'" "s3 = s" by (auto simp: read_mem_def map_err_ok)
        show "fst ((if map_option t_state o' = Some Waiting then bnd (skip fb) (\<lambda>(x, more). ret (x # more)) else ret []) s3)
            \<noteq> Inl Endless"
        proof (cases "map_option t_state o' = Some Waiting")
          case True
          with o'(1) have "fb \<in> waiting_ids env (ts_mem s) ws" by (auto simp: waiting_ids_def)
          from each [OF this] True o'(2) show ?thesis by simp
        qed (auto simp: ret_def)
      qed
    qed (auto simp: drop_fallback_def ret_def split: on_failure.split option.split)
  qed (auto simp: drop_fallback_def ret_def)
  have start: "fst (start_fallback env ws t now s) \<noteq> Inl Endless" using assms(1-3) by (rule start_returns)
  show ?thesis
    unfolding propagate_def
  proof (rule bnd_returns, rule start, rule bnd_returns)
    fix l s2 assume "start_fallback env ws t now s = (Inr l, s2)"
    then show "fst (drop_fallback env skip ws t s2) \<noteq> Inl Endless" by (rule drop)
  qed (rule returnsD, intro returns_bnd, simp_all)
qed

lemma set_state_bound:
  assumes "faithful env"
  shows "fine env (ts_mem s) \<Longrightarrow> st \<noteq> Skipped \<longrightarrow> card (row_keys (ts_mem s)) + 4 < 2 ^ 64 \<Longrightarrow>
     card (waiting_ids env (ts_mem s) ws) + (if tid \<in> waiting_ids env (ts_mem s) ws then 0 else 1) < n \<Longrightarrow>
     fst (set_state_within n env ws tid st now s) \<noteq> Inl Endless"
proof (induction n arbitrary: s tid st)
  case (Suc n)
  let ?skip = "\<lambda>fb. set_state_within n env ws fb Skipped now"
  let ?large = "\<lambda>t m. st = Running \<and> check_record env m t ''the definition'' \<noteq> Inr ()"
  let ?t1 = "\<lambda>t large m. if large then t\<lparr>t_state := Failed (msg refused_to_start), t_finished := Some now\<rparr>
     else enter_state now (settle_route env m (settle_typed_terminal t st))"
  have main: "fst (bnd (task_put env t1) (\<lambda>_. bnd (propagate env ?skip ws t1 now) (\<lambda>more. ret (t1, more))) s) \<noteq> Inl Endless"
    if get: "task_get env (ts_mem s) ws tid = Inr (Some t)" and valid: "is_valid_transition (t_state t) st"
      and large: "large \<longrightarrow> st = Running" and t1: "t1 = ?t1 t large (ts_mem s)" for t large t1
  proof (rule bnd_returns [OF returnsD [OF returns_put]], rule bnd_returns)
    fix u s1 assume put: "task_put env t1 s = (Inr u, s1)"
    note got = fine_got [OF Suc.prems(1) get]
    have right: "evolves_by anyhow (look t) (look t1) \<and> settled_right (look t1)"
    proof (cases large)
      case True
      then have "t_state t = Ready" using large valid by (cases "t_state t") auto
      then show ?thesis using True by (simp add: t1 evolves_move)
    qed (use entered_right [where S = anyhow, OF valid refl] t1 in auto)
    then have ids: "t_id t1 = tid" "t_workspace t1 = ws" using got(2,3) by (auto simp: evolves_by_def same_task_def look_def)
    have may: "may_put anyhow env (ts_mem s) t1" using get ids right by (intro may_put_replace) auto
    have fine: "fine env (ts_mem s1)" using fine_put [OF assms Suc.prems(1) may] put by simp
    have rep: "replaced env t1 (ts_mem s) (ts_mem s1)"
      using task_put_replaced(1) [OF put _ assms] Suc.prems(1) may by (simp add: fine_def may_put_def)
    have rows: "card (row_keys (ts_mem s1)) \<le> card (row_keys (ts_mem s)) + 2" by (rule put_adds_keys [OF put])
    have failed: "is_failed (t_state t1) \<Longrightarrow> st \<noteq> Skipped"
      using large by (auto simp: t1 settle_typed_terminal_def settle_route_def enter_state_def Let_def split: if_splits)
    have small: "card (waiting_ids env (ts_mem s1) ws) < n" if "t_state t1 \<noteq> Waiting"
    proof -
      have "card (waiting_ids env (ts_mem s1) ws) \<le> card (waiting_ids env (ts_mem s) ws - {tid})"
        using waiting_after [OF rep that ids(2)] ids(1) waiting_finite(1) [of env "ts_mem s" ws] by (intro card_mono) auto
      moreover have "card (waiting_ids env (ts_mem s) ws - {tid}) < n"
        using Suc.prems(3) card_Diff1_less [OF waiting_finite(1) [of env "ts_mem s" ws], of tid]
        by (cases "tid \<in> waiting_ids env (ts_mem s) ws") (simp_all del: card_Diff_insert)
      ultimately show ?thesis by simp
    qed
    show "fst (propagate env ?skip ws t1 now s1) \<noteq> Inl Endless"
    proof (rule propagate_returns [OF assms fine])
      show "card (row_keys (ts_mem s1)) + 2 < 2 ^ 64" if "is_failed (t_state t1)"
        using failed [OF that] rows Suc.prems(2) by simp
      show "fst (?skip fb s1) \<noteq> Inl Endless"
        if "fb \<in> waiting_ids env (ts_mem s1) ws" "t_state t1 \<in> {Succeeded, Cancelled, Skipped}" for fb
        using Suc.IH [OF fine, of Skipped fb] small that by auto
    qed
  qed (simp add: ret_def)
  show ?case
  proof (simp only: set_state_within.simps Let_def, rule bnd_returns [OF returnsD [OF returns_need]])
    fix t s0 assume "need_task env ws tid s = (Inr t, s0)"
    then have get: "task_get env (ts_mem s) ws tid = Inr (Some t)" and "s0 = s"
      by (auto simp: need_task_def bnd_def read_mem_def ret_def fail_def map_err_def split: sum.splits option.splits)
    show "fst ((if \<not> is_valid_transition (t_state t) st
      then refuse (InvalidTransition (state_name (t_state t)) (state_name st))
      else
        bnd (read_mem (\<lambda>m. Inr (?large t m))) (\<lambda>too_large.
        bnd (if too_large
             then ret (t\<lparr>t_state := Failed (msg refused_to_start), t_finished := Some now\<rparr>)
             else read_mem (\<lambda>m. Inr (enter_state now (settle_route env m (settle_typed_terminal t st))))) (\<lambda>t1.
        bnd (task_put env t1) (\<lambda>_.
        bnd (propagate env ?skip ws t1 now) (\<lambda>more. ret (t1, more)))))) s0) \<noteq> Inl Endless"
    proof (cases "is_valid_transition (t_state t) st")
      case True
      have "bnd (read_mem (\<lambda>m. Inr (?large t m))) (\<lambda>too_large.
        bnd (if too_large
             then ret (t\<lparr>t_state := Failed (msg refused_to_start), t_finished := Some now\<rparr>)
             else read_mem (\<lambda>m. Inr (enter_state now (settle_route env m (settle_typed_terminal t st))))) f) s =
        f (?t1 t (?large t (ts_mem s)) (ts_mem s)) s" for f :: "task \<Rightarrow> (task \<times> task list) store_op"
        by (simp add: bnd_def read_mem_def ret_def map_err_def)
      then show ?thesis using main [OF get True _ refl] True \<open>s0 = s\<close> by simp
    qed (simp add: fail_def)
  qed
qed simp

lemma set_state_returns:
  assumes "faithful env" "fine env (ts_mem s)" "card (row_keys (ts_mem s)) + 4 < 2 ^ 64"
  shows "fst (set_state env ws tid st now s) \<noteq> Inl Endless"
  unfolding set_state_def
  by (rule set_state_bound [OF assms(1,2)])
    (use assms(3) waiting_finite(2) [of env "ts_mem s" ws] in \<open>simp_all add: chain_bound_def\<close>)

lemma propagated_returns:
  assumes "faithful env" "fine env (ts_mem s)" "card (row_keys (ts_mem s)) + 4 < 2 ^ 64"
  shows "fst (propagate_transition env ws t now s) \<noteq> Inl Endless"
  unfolding propagate_transition_def
proof (rule propagate_returns [OF assms(1,2)])
  show "card (row_keys (ts_mem s)) + 2 < 2 ^ 64" using assms(3) by simp
  show "fst (set_state_within (chain_bound s) env ws fb Skipped now s) \<noteq> Inl Endless" for fb
    by (rule set_state_bound [OF assms(1,2)])
      (use assms(3) waiting_finite(2) [of env "ts_mem s" ws] in \<open>simp_all add: chain_bound_def\<close>)
qed

lemma need_same: "need_task env ws tid s = (Inr t, s1) \<Longrightarrow> s1 = s"
  by (auto simp: need_task_def bnd_def read_mem_def ret_def fail_def map_err_def split: sum.splits option.splits)

lemma cancel_returns:
  assumes "faithful env" "fine env (ts_mem s)" "card (row_keys (ts_mem s)) + 4 < 2 ^ 64"
  shows "fst (cancel env ws tid now s) \<noteq> Inl Endless"
  unfolding cancel_def
  by (rule bnd_returns [OF returnsD [OF returns_need]])
    (use set_state_returns [OF assms] in \<open>auto simp: fail_def dest!: need_same\<close>)

section \<open>Completion\<close>

text \<open>How many keys an operation adds at most.\<close>

definition adds :: "nat \<Rightarrow> 'a store_op \<Rightarrow> bool" where
  "adds k f \<longleftrightarrow> (\<forall>s r s'. f s = (r, s') \<longrightarrow> card (row_keys (ts_mem s')) \<le> card (row_keys (ts_mem s)) + k)"

lemma adds_bnd: "adds a f \<Longrightarrow> (\<And>x. adds b (g x)) \<Longrightarrow> adds (a + b) (bnd f g)"
  unfolding adds_def by (fastforce simp: bnd_def split: prod.splits sum.splits)

lemma adds_keeps_mem: "(\<And>s r s'. f s = (r, s') \<Longrightarrow> ts_mem s' = ts_mem s) \<Longrightarrow> adds k f"
  by (auto simp: adds_def)

lemma adds_simps [simp]:
  "adds k (ret x)" "adds k (refuse e)" "adds k (read_mem h)" "adds k (pure_of r)" "adds k (need_task env ws i)"
  by (rule adds_keeps_mem; auto simp: ret_def fail_def read_mem_def pure_of_def need_task_def bnd_def
      split: sum.splits option.splits)+

lemma adds_put: "adds 2 (task_put env t)"
  unfolding adds_def using put_adds_keys by blast

lemma adds_after: "adds 0 f \<Longrightarrow> (\<And>x. adds k (g x)) \<Longrightarrow> adds k (bnd f g)"
  by (rule adds_bnd [where a = 0 and b = k, simplified])

lemma adds_put_ret: "adds 2 (bnd (task_put env t) (\<lambda>_. ret x))"
  by (rule adds_bnd [OF adds_put, where b = 0, simplified]) simp

lemma adds_postprocess: "adds 2 (postprocess_step env t cm now)"
proof -
  have run: "adds 2 (run_report env t c spec p cm rp now)" for c spec p rp
    by (auto simp: run_report_def keep_running_def Let_def adds_put_ret split: option.split intro!: adds_after)
  show ?thesis
    unfolding postprocess_step_def
    by (auto simp: keep_running_def Let_def adds_put_ret run split: option.split prod.split intro!: adds_after)
qed

lemma returns_postprocess: "returns (postprocess_step env t cm now)"
  unfolding postprocess_step_def
  by (auto simp: keep_running_def run_report_def Let_def split: option.split prod.split intro!: returns_bnd)

lemma complete_running_returns:
  assumes "faithful env" "fine env (ts_mem s)" "got env (ts_mem s) t" "t_state t = Running"
    and "\<forall>r. cm_outcome cm \<noteq> OutLost r" "card (row_keys (ts_mem s)) + 8 < 2 ^ 64"
  shows "fst (complete_running env ws t cm dg now s) \<noteq> Inl Endless"
  unfolding complete_running_def
proof (rule bnd_returns [OF returnsD [OF returns_postprocess]])
  fix ps s1 assume run: "postprocess_step env t cm now s = (Inr ps, s1)"
  note k = keepsD [OF keeps_postprocess assms(1,2,3) run]
  have left: "step_left env t ps (ts_mem s1)" using k(3) by simp
  have rows1: "card (row_keys (ts_mem s1)) \<le> card (row_keys (ts_mem s)) + 2"
    using adds_postprocess run unfolding adds_def by blast
  have valid: "is_valid_transition (t_state t) (outcome_state (cm_outcome cm))"
    using assms(4,5) by (cases "cm_outcome cm") auto
  have rest: "fst (bnd (read_mem (\<lambda>m. Inr (end_task env m (f m) (outcome_state (cm_outcome cm)) dg now))) (\<lambda>t2.
       bnd (task_put env t2) (\<lambda>_. finish_receipt env ws t2 now False)) s1) \<noteq> Inl Endless"
    if f: "\<And>m. same_task (look t) (look (f m)) \<and> t_state (f m) = t_state t" and here: "got env (ts_mem s1) t" for f
  proof (rule bnd_returns [OF returnsD [OF returns_read]], rule bnd_returns [OF returnsD [OF returns_put]])
    fix t2 s2 u s3
    assume read: "read_mem (\<lambda>m. Inr (end_task env m (f m) (outcome_state (cm_outcome cm)) dg now)) s1 = (Inr t2, s2)"
      and put: "task_put env t2 s2 = (Inr u, s3)"
    from read have t2: "t2 = end_task env (ts_mem s1) (f (ts_mem s1)) (outcome_state (cm_outcome cm)) dg now" and "s2 = s1"
      by (auto simp: read_mem_def map_err_def)
    have "evolves_by anyhow (look t) (look t2) \<and> settled_right (look t2)"
      using end_right [where S = anyhow, OF _ _ valid] f by (simp add: t2)
    then have "keeps_by anyhow env (\<lambda>m. got env m t) (task_put env t2) (\<lambda>_ _. True)" by (intro keeps_update)
    from keepsD(1) [OF this assms(1) k(1) here put [unfolded \<open>s2 = s1\<close>]] have fine: "fine env (ts_mem s3)" .
    have "card (row_keys (ts_mem s3)) \<le> card (row_keys (ts_mem s1)) + 2"
      using put_adds_keys [OF put] \<open>s2 = s1\<close> by simp
    then have "card (row_keys (ts_mem s3)) + 4 < 2 ^ 64" using rows1 assms(6) by simp
    from propagated_returns [OF assms(1) fine this] show "fst (finish_receipt env ws t2 now False s3) \<noteq> Inl Endless"
      unfolding finish_receipt_def by (intro bnd_returns) (simp_all add: ret_def)
  qed
  show "fst ((case ps of ContinueWith r \<Rightarrow> ret r | _ \<Rightarrow>
     bnd (read_mem (\<lambda>m. Inr (end_task env m
            (case ps of FinalizeWith t1 \<Rightarrow> t1 | _ \<Rightarrow> record_result (m_text m) t (cm_result cm))
            (outcome_state (cm_outcome cm)) dg now))) (\<lambda>t2.
     bnd (task_put env t2) (\<lambda>_. finish_receipt env ws t2 now False))) s1) \<noteq> Inl Endless"
  proof (cases ps)
    case NotApplicable
    with left rest [of "\<lambda>m. record_result (m_text m) t (cm_result cm)"] show ?thesis by (simp add: recorded_look)
  next
    case (FinalizeWith t1)
    with left rest [of "\<lambda>m. t1"] show ?thesis by simp
  qed (simp add: ret_def)
qed

lemma v1_completion_returns:
  assumes "faithful env" "fine env (ts_mem s)" "got env (ts_mem s) t" "\<not> is_typed t" "\<not> is_terminal (t_state t)"
    and "t_id t = tid" "t_workspace t = ws" "card (row_keys (ts_mem s)) + 8 < 2 ^ 64"
  shows "fst (bnd (set_result env ws tid r) (\<lambda>_. bnd (set_state env ws tid st now) (\<lambda>(t1, more).
     ret \<lparr>rc_task = t1, rc_transitioned = more, rc_duplicate = False\<rparr>)) s) \<noteq> Inl Endless"
proof (rule bnd_returns)
  show "fst (set_result env ws tid r s) \<noteq> Inl Endless"
    by (rule returnsD) (auto simp: set_result_def intro!: returns_bnd)
  fix u s1 assume run: "set_result env ws tid r s = (Inr u, s1)"
  note k = keepsD [OF keeps_result [OF assms(4-7)] assms(1,2,3) run]
  have "adds 2 (set_result env ws tid r)"
    by (auto simp: set_result_def intro!: adds_after adds_put_ret)
  then have "card (row_keys (ts_mem s1)) \<le> card (row_keys (ts_mem s)) + 2" using run unfolding adds_def by blast
  then have "card (row_keys (ts_mem s1)) + 4 < 2 ^ 64" using assms(8) by simp
  from set_state_returns [OF assms(1) k(1) this]
  show "fst (bnd (set_state env ws tid st now) (\<lambda>(t1, more).
     ret \<lparr>rc_task = t1, rc_transitioned = more, rc_duplicate = False\<rparr>) s1) \<noteq> Inl Endless"
    by (intro bnd_returns) (auto simp: ret_def)
qed

lemma complete_returns:
  assumes "faithful env" "fine env (ts_mem s)" "card (row_keys (ts_mem s)) + 8 < 2 ^ 64"
  shows "fst (complete env ws tid cm now s) \<noteq> Inl Endless"
  unfolding complete_def Let_def
proof (rule bnd_returns [OF returnsD [OF returns_need]])
  fix t s1 assume "need_task env ws tid s = (Inr t, s1)"
  from need_same [OF this] this have "s1 = s" "task_get env (ts_mem s) ws tid = Inr (Some t)"
    by (auto simp: need_task_def bnd_def read_mem_def ret_def fail_def map_err_def split: sum.splits option.splits)
  note t = fine_got [OF assms(2) this(2)]
  have room: "card (row_keys (ts_mem s)) + 4 < 2 ^ 64" using assms(3) by simp
  have receipt: "fst (finish_receipt env ws t now d s) \<noteq> Inl Endless" for d
    unfolding finish_receipt_def
    by (rule bnd_returns, rule propagated_returns [OF assms(1,2) room]) (simp add: ret_def)
  have again: "fst (complete_again env ws t cm dg now s) \<noteq> Inl Endless" for dg
    using receipt by (auto simp: complete_again_def fail_def split: option.split)
  have typed: "fst (bnd (read_mem (\<lambda>m. Inr (completion_digest env m cm))) (\<lambda>dg.
       if is_terminal (t_state t) then complete_again env ws t cm dg now
       else if t_state t \<noteq> Running
       then refuse (InvalidTransition (state_name (t_state t)) (state_name (outcome_state (cm_outcome cm))))
       else case cm_outcome cm of
         OutLost _ \<Rightarrow> bnd (task_put env (close_phase (t\<lparr>t_state := outcome_state (cm_outcome cm)\<rparr>)))
           (\<lambda>_. ret \<lparr>rc_task = close_phase (t\<lparr>t_state := outcome_state (cm_outcome cm)\<rparr>), rc_transitioned = [], rc_duplicate = False\<rparr>)
       | _ \<Rightarrow> complete_running env ws t cm dg now) s) \<noteq> Inl Endless"
  proof (rule bnd_returns [OF returnsD [OF returns_read]])
    fix dg s2 assume "read_mem (\<lambda>m. Inr (completion_digest env m cm)) s = (Inr dg, s2)"
    then have "s2 = s" by (simp add: read_mem_def)
    then show "fst ((if is_terminal (t_state t) then complete_again env ws t cm dg now
       else if t_state t \<noteq> Running
       then refuse (InvalidTransition (state_name (t_state t)) (state_name (outcome_state (cm_outcome cm))))
       else case cm_outcome cm of
         OutLost _ \<Rightarrow> bnd (task_put env (close_phase (t\<lparr>t_state := outcome_state (cm_outcome cm)\<rparr>)))
           (\<lambda>_. ret \<lparr>rc_task = close_phase (t\<lparr>t_state := outcome_state (cm_outcome cm)\<rparr>), rc_transitioned = [], rc_duplicate = False\<rparr>)
       | _ \<Rightarrow> complete_running env ws t cm dg now) s2) \<noteq> Inl Endless"
      using again complete_running_returns [OF assms(1,2) t(1) _ _ assms(3)]
      by (auto simp: fail_def split: completion_outcome.split intro!: returnsD returns_bnd)
  qed
  show "fst ((if \<not> is_typed t
     then if \<not> is_valid_transition (t_state t) (outcome_state (cm_outcome cm))
          then refuse (InvalidTransition (state_name (t_state t)) (state_name (outcome_state (cm_outcome cm))))
          else bnd (set_result env ws tid (cm_result cm)) (\<lambda>_.
               bnd (set_state env ws tid (outcome_state (cm_outcome cm)) now) (\<lambda>(t1, more).
                 ret \<lparr>rc_task = t1, rc_transitioned = more, rc_duplicate = False\<rparr>))
     else if cm_attempt cm \<noteq> None \<and> cm_attempt cm \<noteq> map_option at_id (t_attempt t)
     then refuse (rejected t (cm_attempt cm) CompletionStale)
     else
       bnd (read_mem (\<lambda>m. Inr (completion_digest env m cm))) (\<lambda>dg.
       if is_terminal (t_state t) then complete_again env ws t cm dg now
       else if t_state t \<noteq> Running
       then refuse (InvalidTransition (state_name (t_state t)) (state_name (outcome_state (cm_outcome cm))))
       else case cm_outcome cm of
         OutLost _ \<Rightarrow> bnd (task_put env (close_phase (t\<lparr>t_state := outcome_state (cm_outcome cm)\<rparr>)))
           (\<lambda>_. ret \<lparr>rc_task = close_phase (t\<lparr>t_state := outcome_state (cm_outcome cm)\<rparr>), rc_transitioned = [], rc_duplicate = False\<rparr>)
       | _ \<Rightarrow> complete_running env ws t cm dg now)) s1) \<noteq> Inl Endless"
    using typed v1_completion_returns [OF assms(1,2) t(1) _ valid_not_terminal t(2,3) assms(3)] \<open>s1 = s\<close>
    by (simp add: fail_def)
qed

text \<open>C4. A transition, a cancellation and a report of an execution always return, whatever fallbacks
  they skip or make and whatever they settle below the task: the bound on a chain of fallbacks is never
  used up, the searches and the settling end, and an unused identifier is found. The store must be in
  order and its rows must leave numbers for identifiers.\<close>

theorem transitions_return:
  assumes "faithful env" "fine env (ts_mem s)" "length (regular (ts_mem s)) + 8 < 2 ^ 64"
  shows "fst (set_state env ws tid st now s) \<noteq> Inl Endless \<and> fst (cancel env ws tid now s) \<noteq> Inl Endless
     \<and> fst (complete env ws tid cm now s) \<noteq> Inl Endless"
proof -
  have "card (row_keys (ts_mem s)) + 8 < 2 ^ 64" using row_keys_card(2) [of "ts_mem s"] assms(3) by linarith
  then show ?thesis
    using set_state_returns [OF assms(1,2)] cancel_returns [OF assms(1,2)] complete_returns [OF assms(1,2)] by simp
qed

end
