(* ===== verification/Task_Runs.thy ===== *)
theory Task_Runs
  imports Task_Lifecycle Task_Termination
begin

text \<open>
  The theorems on stored tasks at concrete stores and sequences of operations.
\<close>

section \<open>A run\<close>

text \<open>An environment whose codec knows the tasks of a table and nothing else.\<close>

definition table_env :: "task list \<Rightarrow> task_env" where
  "table_env ts = demo_env
     \<lparr>ev_enc := (\<lambda>t. case find (\<lambda>(i, x). x = t) (enumerate 0 ts) of None \<Rightarrow> JNull | Some (i, _) \<Rightarrow> JStr (show_nat i)),
      ev_dec := (\<lambda>v. case v of
         JStr s \<Rightarrow> map_option snd (find (\<lambda>(i, x). show_nat i = s) (enumerate 0 ts)) | _ \<Rightarrow> None)\<rparr>"

lemma table_faithful: "faithful (table_env ts)"
proof -
  have "t' = t" if "find (\<lambda>(i, x). x = t) (enumerate 0 ts) = Some (n, y)"
    "find (\<lambda>(i, x). show_nat i = show_nat n) (enumerate 0 ts) = Some (k, t')" for t t' n y k
    using that by (auto simp: find_Some_iff show_nat_inj in_set_enumerate_eq nth_enumerate_eq)
  then show ?thesis
    by (auto simp: faithful_def table_env_def split: option.splits) blast
qed

lemma demo_faithful: "faithful demo_env"
  by (auto simp: faithful_def demo_env_def dest: demo_exact)

definition demo_new :: task_store where
  "demo_new = new_store sample_text default_config 0"

lemma new_may_put:
  assumes "settled_right (look t)" "validate_key (typed_task_prefix @ t_id t) = Inr ()"
  shows "may_put S env (ts_mem (new_store jt cfg now)) t"
proof -
  have "kv_get (open_in_memory jt cfg now) ws k = Inr None" if "validate_key k = Inr ()" for ws k
    using that by (simp add: kv_get_def mem_get_def open_in_memory_def find_row_def map_err_def)
  then show ?thesis
    using assms shorter_key [OF assms(2)]
    by (auto simp: may_put_def replaceable_def Let_def new_store_def task_get_eq task_keys sbind_def key_oks)
qed

lemma demo_new_fine: "fine env (ts_mem demo_new)"
  unfolding demo_new_def by (rule fine_new) (rule sample_text_readable)

text \<open>A task that was cancelled, and what others try with it.\<close>

definition demo_ended :: task where
  "demo_ended = plain_task ''t-0-000000'' ''sample'' [] Cancelled AbortOnFailure (Some 5) (Some 6)"

definition demo_stored :: task_store where
  "demo_stored = snd (task_put demo_env demo_ended demo_new)"

definition demo_after :: "store_command list" where
  "demo_after = [DoSetState 1 ''t-0-000000'' Ready 7, DoCancel 1 ''t-0-000000'' 8, DoResettle 1 9]"

lemma demo_stored_got: "task_get demo_env (ts_mem demo_stored) 1 ''t-0-000000'' = Inr (Some demo_ended)"
  by code_simp

lemma demo_after_readable:
  "task_lookup demo_env (ts_mem (exec_all demo_env demo_after demo_stored)) 1 ''t-0-000000'' \<noteq> None"
  by code_simp

text \<open>A typed task with its result, about to succeed.\<close>

definition typed_running :: task where
  "typed_running = (sample_task ''a'' [])
     \<lparr>t_state := Running, t_contract := Some sample_contract, t_typed_result := Some
        \<lparr>tr_has_output = True, tr_output = TVInt64 0,
         tr_raw = \<lparr>rw_exit = Some 0, rw_execution = None, rw_truncated = None, rw_postprocess = None, rw_accepted = None\<rparr>,
         tr_error = None, tr_provenance = \<lparr>pv_version = 2, pv_kind = ''run'', pv_source = ''run.exit_code''\<rparr>\<rparr>\<rparr>"

definition typed_done :: task where
  "typed_done = typed_running\<lparr>t_state := Succeeded, t_finished := Some 6\<rparr>"

definition typed_env :: task_env where
  "typed_env = table_env [typed_running, typed_done]"

definition typed_stored :: task_store where
  "typed_stored = snd (task_put typed_env typed_running demo_new)"

definition typed_end :: "store_command list" where
  "typed_end = [DoSetState 1 ''a'' Succeeded 6]"

lemma typed_done_got:
  "task_get typed_env (ts_mem (exec_all typed_env typed_end typed_stored)) 1 ''a'' = Inr (Some typed_done)"
  by code_simp

text \<open>The two theorems at these runs.\<close>

theorem ended_tasks_final_witness:
  "\<exists>t'. task_get demo_env (ts_mem (exec_all demo_env demo_after demo_stored)) 1 ''t-0-000000'' = Inr (Some t')
     \<and> look t' = look demo_ended"
proof -
  have "may_put resting demo_env (ts_mem demo_new) demo_ended"
    unfolding demo_new_def by (rule new_may_put; code_simp)
  from fine_put [OF demo_faithful demo_new_fine this] have "fine demo_env (ts_mem demo_stored)"
    by (simp add: demo_stored_def)
  from ended_tasks_final [OF demo_faithful this refl demo_stored_got, of demo_after] show ?thesis
    using demo_after_readable by (auto simp: task_lookup_def demo_ended_def plain_task_def)
qed

lemma typed_stored_facts:
  "faithful typed_env" "fine typed_env (ts_mem typed_stored)"
  "task_get typed_env (ts_mem typed_stored) 1 ''a'' = Inr (Some typed_running)"
proof -
  show faithful: "faithful typed_env" unfolding typed_env_def by (rule table_faithful)
  have "may_put resting typed_env (ts_mem demo_new) typed_running"
    unfolding demo_new_def by (rule new_may_put) (simp_all add: typed_running_def sample_task_def validate_key_ok_iff
      typed_task_prefix_def key_char_ok_def)
  from fine_put [OF faithful demo_new_fine this] show "fine typed_env (ts_mem typed_stored)"
    by (simp add: typed_stored_def)
  show "task_get typed_env (ts_mem typed_stored) 1 ''a'' = Inr (Some typed_running)" by code_simp
qed


theorem succeeded_tasks_have_output_witness:
  "\<exists>r. t_typed_result typed_done = Some r \<and> tr_has_output r \<and> tr_error r = None"
  using succeeded_tasks_have_output [OF typed_stored_facts(1,2) refl typed_done_got, of sample_contract]
  by (auto simp: typed_done_def typed_running_def sample_task_def)

text \<open>A task that runs, stored as succeeded: its notice is the first that is drawn.\<close>

definition plain_running :: task where
  "plain_running = plain_task ''a'' ''sample'' [] Running AbortOnFailure (Some 5) None"

definition plain_done :: task where
  "plain_done = plain_task ''a'' ''sample'' [] Succeeded AbortOnFailure (Some 5) (Some 6)"

definition running_stored :: task_store where
  "running_stored = snd (task_put demo_env plain_running demo_new)"

lemma running_stored_facts:
  "task_get demo_env (ts_mem running_stored) 1 ''a'' = Inr (Some plain_running)"
  "revision (ts_mem running_stored) 1 ''a'' = Inr (Some 1)"
  "fst (task_put demo_env plain_done running_stored) = Inr ()"
  by code_simp+

lemma running_stored_fine: "fine demo_env (ts_mem running_stored)"
proof -
  have "may_put resting demo_env (ts_mem demo_new) plain_running"
    unfolding demo_new_def by (rule new_may_put; code_simp)
  from fine_put [OF demo_faithful demo_new_fine this] show ?thesis by (simp add: running_stored_def)
qed

theorem terminal_put_atomic_witness:
  "kv_get (ts_mem (snd (task_put demo_env plain_done running_stored))) 1 (terminal_prefix @ ev_uuid demo_env (ts_drawn running_stored))
     = Inr (Some (Json (notice_of demo_env running_stored plain_done (Some 1))))"
proof -
  have ok: "records_ok demo_env (ts_mem running_stored)" using running_stored_fine by (simp add: fine_def)
  have fields: "is_terminal (t_state plain_done)" "t_workspace plain_done = 1" "t_id plain_done = ''a''"
    "is_typed plain_running = is_typed plain_done" "\<not> is_terminal (t_state plain_running)"
    by (simp_all add: plain_done_def plain_running_def plain_task_def sample_task_def is_typed_def)
  obtain s' where put: "task_put demo_env plain_done running_stored = (Inr (), s')"
    using running_stored_facts(3) by (cases "task_put demo_env plain_done running_stored") simp
  from terminal_put_atomic [OF put ok demo_faithful fields(1) _ fields(4,5)] show ?thesis
    using running_stored_facts(1,2) by (simp add: fields put)
qed

theorem transitions_return_witness:
  "fst (set_state demo_env 1 ''a'' Succeeded 6 running_stored) \<noteq> Inl Endless
   \<and> fst (cancel demo_env 1 ''a'' 6 running_stored) \<noteq> Inl Endless"
proof -
  have "length (regular (ts_mem running_stored)) = 1" by code_simp
  then show ?thesis using transitions_return [OF demo_faithful running_stored_fine] by simp
qed

end
