(* ===== verification/Task_Settle_Laws.thy ===== *)
theory Task_Settle_Laws
  imports Task_Store_Laws
begin

text \<open>
  What settling leaves: every task it was asked to settle that still waits has to wait, each task it
  moves is moved once and stored, and the tasks of a graph that is not active do not move.
\<close>

text \<open>The tasks with those of \<open>new\<close> put in the place of the ones they replace.\<close>

definition updates :: "task list \<Rightarrow> task list \<Rightarrow> task list" where
  "updates new all = foldl (\<lambda>ts nt. map (\<lambda>t. if t_id t = t_id nt then nt else t) ts) all new"

lemma updates_simps [simp]:
  "updates [] all = all"
  "updates (nt # new) all = updates new (map (\<lambda>t. if t_id t = t_id nt then nt else t) all)"
  by (simp_all add: updates_def)

lemma updates_append: "updates (a @ b) all = updates b (updates a all)"
  by (simp add: updates_def)

lemma one_update_ids: "map t_id (map (\<lambda>t. if t_id t = t_id nt then nt else t) all) = map t_id all"
  by (induction all) auto

lemma updates_ids [simp]: "map t_id (updates new all) = map t_id all"
proof (induction new arbitrary: all)
  case (Cons nt new)
  show ?case using Cons.IH one_update_ids by simp
qed simp

lemma update_index:
  assumes "distinct (map t_id all)" "last_index tid all = Some i" "t_id nt = tid"
  shows "all[i := nt] = map (\<lambda>t. if t_id t = t_id nt then nt else t) all"
proof (rule nth_equalityI)
  note i = last_index_Some [OF assms(2)]
  fix j assume "j < length (all[i := nt])"
  then have j: "j < length all" by simp
  have "t_id (all ! j) = tid \<longleftrightarrow> j = i"
    using assms(1) i j by (auto simp: distinct_conv_nth)
  then show "all[i := nt] ! j = map (\<lambda>t. if t_id t = t_id nt then nt else t) all ! j"
    using i j assms(3) by (auto simp: nth_list_update)
qed simp

section \<open>One pass and the loop\<close>

text \<open>What the tasks of \<open>new\<close>, moved one after the other from \<open>all\<close>, have in common.\<close>

fun moved :: "task_env \<Rightarrow> string list \<Rightarrow> u64 \<Rightarrow> string list \<Rightarrow> task list \<Rightarrow> task list \<Rightarrow> bool" where
  "moved env inactive now tids all [] \<longleftrightarrow> True"
| "moved env inactive now tids all (nt # new) \<longleftrightarrow>
     t_id nt \<in> set tids \<and> (\<exists>i. settle_step env inactive now all (t_id nt) = Some (i, nt))
     \<and> moved env inactive now tids (map (\<lambda>t. if t_id t = t_id nt then nt else t) all) new"

lemma moved_append:
  "moved env inactive now tids all (a @ b) \<longleftrightarrow>
     moved env inactive now tids all a \<and> moved env inactive now tids (updates a all) b"
  by (induction a arbitrary: all) auto

lemma moved_mono: "moved env inactive now tids all new \<Longrightarrow> set tids \<subseteq> set tids' \<Longrightarrow> moved env inactive now tids' all new"
  by (induction new arbitrary: all) auto

lemma pass_moves:
  "settle_pass env inactive now tids all updated changed s = (Inr (all', upd', ch'), s') \<Longrightarrow> distinct (map t_id all) \<Longrightarrow>
   \<exists>new. upd' = updated @ new \<and> all' = updates new all \<and> moved env inactive now tids all new \<and> (ch' \<longleftrightarrow> changed \<or> new \<noteq> [])
     \<and> (new = [] \<longrightarrow> (\<forall>tid \<in> set tids. settle_step env inactive now all tid = None))"
proof (induction tids arbitrary: all updated changed s)
  case Nil
  then show ?case by (auto simp: ret_def intro: exI [of _ "[]"])
next
  case (Cons tid tids)
  show ?case
  proof (cases "settle_step env inactive now all tid")
    case None
    with Cons.prems have "settle_pass env inactive now tids all updated changed s = (Inr (all', upd', ch'), s')" by simp
    from Cons.IH [OF this Cons.prems(2)] obtain new where
      "upd' = updated @ new \<and> all' = updates new all \<and> moved env inactive now tids all new \<and> (ch' \<longleftrightarrow> changed \<or> new \<noteq> [])
       \<and> (new = [] \<longrightarrow> (\<forall>tid \<in> set tids. settle_step env inactive now all tid = None))" by blast
    with None moved_mono [of env inactive now tids all new "tid # tids"] show ?thesis by (intro exI [of _ new]) auto
  next
    case (Some p)
    obtain i nt where p: "p = (i, nt)" by fastforce
    note d = settle_stepD [OF Some [unfolded p]] and e = settle_step_evolves [OF Some [unfolded p]]
    have tid: "t_id nt = tid" using e(3) d(2) by simp
    have upd: "all[i := nt] = map (\<lambda>t. if t_id t = t_id nt then nt else t) all"
      by (rule update_index [OF Cons.prems(2) d(5) tid])
    obtain s1 where "settle_pass env inactive now tids (all[i := nt]) (updated @ [nt]) True s1 = (Inr (all', upd', ch'), s')"
      using Cons.prems(1) Some p by (auto elim: bnd_InrE)
    moreover have "distinct (map t_id (all[i := nt]))"
      unfolding upd one_update_ids by (rule Cons.prems(2))
    ultimately obtain new where new: "upd' = (updated @ [nt]) @ new" "all' = updates new (all[i := nt])"
      "moved env inactive now tids (all[i := nt]) new" "ch'"
      using Cons.IH by blast
    have "moved env inactive now (tid # tids) all (nt # new)"
      using new(3) moved_mono [of env inactive now tids "all[i := nt]" new "tid # tids"] Some p tid by (auto simp: upd)
    with new show ?thesis by (intro exI [of _ "nt # new"]) (simp add: upd)
  qed
qed

lemma loop_moves:
  "settle_loop env inactive now tids all updated s = (Inr upd', s') \<Longrightarrow> distinct (map t_id all) \<Longrightarrow>
   \<exists>new. upd' = updated @ new \<and> moved env inactive now tids all new
     \<and> (\<forall>tid \<in> set tids. settle_step env inactive now (updates new all) tid = None)"
proof (induction env inactive now tids all updated s rule: settle_loop.induct)
  case (1 env inactive now tids all updated s)
  obtain r1 s1 where pass: "settle_pass env inactive now tids all updated False s = (r1, s1)" by fastforce
  with 1(2) obtain all1 upd1 ch where r1: "r1 = Inr (all1, upd1, ch)"
    by (subst (asm) settle_loop.simps) (auto split: sum.splits)
  from pass_moves [OF pass [unfolded r1] 1(3)] obtain new where new: "upd1 = updated @ new" "all1 = updates new all"
    "moved env inactive now tids all new" "ch \<longleftrightarrow> new \<noteq> []"
    "new = [] \<longrightarrow> (\<forall>tid \<in> set tids. settle_step env inactive now all tid = None)" by auto
  show ?case
  proof (cases ch)
    case True
    have rest: "settle_loop env inactive now tids all1 upd1 s1 = (Inr upd', s')"
      using 1(2) pass r1 True by (subst (asm) settle_loop.simps) simp
    have "distinct (map t_id all1)" using 1(3) by (simp add: new(2))
    from 1(1) [OF pass [symmetric] r1 refl refl True rest this] obtain more where
      "upd' = upd1 @ more" "moved env inactive now tids all1 more"
      "\<forall>tid \<in> set tids. settle_step env inactive now (updates more all1) tid = None" by blast
    with new show ?thesis by (intro exI [of _ "new @ more"]) (simp add: moved_append updates_append)
  next
    case False
    then have "upd' = upd1" using 1(2) pass r1 by (subst (asm) settle_loop.simps) simp
    with False new show ?thesis by (intro exI [of _ new]) simp
  qed
qed

section \<open>What is moved\<close>

lemma target_states:
  assumes "settle_target g t = Some (st, sk)"
  shows "st = Ready \<or> st = Skipped"
  using assms by (auto simp: settle_target_def apply_on_failure_def split: option.splits verdict.splits on_failure.splits if_splits)

lemma unsettled_waits:
  assumes "settle_step env inactive now all (t_id t) = None" "distinct (map t_id all)" "t \<in> set all" "t_state t = Waiting"
  shows "settle_target (task_graph env inactive all) t = None"
proof -
  obtain i where i: "i < length all" "t = all ! i" using assms(3) by (auto simp: in_set_conv_nth)
  have "last_index (t_id t) all = Some i"
  proof -
    have "last_index k ts \<noteq> None" if "k \<in> t_id ` set ts" for k ts
      using that by (induction ts) (auto split: option.splits)
    then obtain j where j: "last_index (t_id t) all = Some j" using assms(3) by fastforce
    with last_index_Some [OF j] i assms(2) show ?thesis by (metis distinct_conv_nth length_map nth_map)
  qed
  then have "settle_step env inactive now all (t_id t) =
      (case settle_target (task_graph env inactive all) t of
            None \<Rightarrow> None
          | Some (next, skip) \<Rightarrow>
              if next \<noteq> Waiting \<and> is_valid_transition (t_state t) next
              then Some (i, t\<lparr>t_finished := (if is_terminal next then Some now else t_finished t),
                              t_state := next, t_skip := skip\<rparr>)
              else None)"
    using assms(4) by (simp add: settle_step_def Let_def i(2) [symmetric])
  with assms(1,4) show ?thesis
    by (cases "settle_target (task_graph env inactive all) t") (auto dest: target_states)
qed

text \<open>A task that is moved waited, and does not wait any more, so it is moved once; inactive tasks are not.\<close>

lemma inactive_waits: "i \<in> set inactive \<Longrightarrow> readiness (task_graph env inactive all) i = None"
  by (simp add: readiness_def task_graph_def with_inactive_def split: option.split)

lemma moved_facts:
  "moved env inactive now tids all new \<Longrightarrow> distinct (map t_id all) \<Longrightarrow>
   distinct (map t_id new) \<and>
   (\<forall>nt \<in> set new. t_id nt \<in> set tids \<and> t_id nt \<notin> set inactive \<and> t_state nt \<in> {Ready, Skipped} \<and>
     (\<exists>t \<in> set all. t_id t = t_id nt \<and> t_state t = Waiting))"
proof (induction new arbitrary: all)
  case (Cons nt new)
  let ?all = "map (\<lambda>t. if t_id t = t_id nt then nt else t) all"
  from Cons.prems(1) obtain i where st: "settle_step env inactive now all (t_id nt) = Some (i, nt)"
    and tid: "t_id nt \<in> set tids" and rest: "moved env inactive now tids ?all new" by auto
  note d = settle_stepD [OF st]
  have "distinct (map t_id ?all)" unfolding one_update_ids by (rule Cons.prems(2))
  note ih = Cons.IH [OF rest this]
  have waits: "\<exists>t \<in> set all. t_id t = t_id nt \<and> t_state t = Waiting" using d(1-3) by (auto intro: bexI [of _ "all ! i"])
  from d(6) obtain sk where target: "settle_target (task_graph env inactive all) (all ! i) = Some (t_state nt, sk)" by blast
  then have "t_id nt \<notin> set inactive"
    using inactive_waits [of "t_id nt" inactive env all] d(2) by (auto simp: settle_target_def)
  moreover have "t_id nt \<notin> set (map t_id new)"
  proof
    assume "t_id nt \<in> set (map t_id new)"
    then obtain x where "x \<in> set new" "t_id x = t_id nt" by auto
    with ih obtain t where "t \<in> set ?all" "t_id t = t_id nt" "t_state t = Waiting" by fastforce
    with d(4) show False by (auto split: if_splits)
  qed
  moreover have "\<exists>t \<in> set all. t_id t = t_id x \<and> t_state t = Waiting" if "x \<in> set new" for x
  proof -
    from ih that obtain t where "t \<in> set ?all" "t_id t = t_id x" "t_state t = Waiting" by blast
    with d(4) show ?thesis by (auto split: if_splits)
  qed
  ultimately show ?case using ih tid waits target_states [OF target] by auto
qed simp

lemma moved_workspace:
  "moved env inactive now tids all new \<Longrightarrow> \<forall>t \<in> set all. t_workspace t = ws \<Longrightarrow> \<forall>nt \<in> set new. t_workspace nt = ws"
proof (induction new arbitrary: all)
  case (Cons nt new)
  from Cons.prems(1) obtain i where st: "settle_step env inactive now all (t_id nt) = Some (i, nt)"
    and rest: "moved env inactive now tids (map (\<lambda>t. if t_id t = t_id nt then nt else t) all) new" by auto
  have "t_workspace nt = ws"
    using settle_step_evolves(4) [OF st] settle_stepD(1) [OF st] Cons.prems(2) by simp
  moreover have "\<forall>t \<in> set (map (\<lambda>t. if t_id t = t_id nt then nt else t) all). t_workspace t = ws"
    using Cons.prems(2) calculation by auto
  ultimately show ?case using Cons.IH [OF rest] by simp
qed simp

section \<open>What is stored\<close>

fun stored :: "task_env \<Rightarrow> task list \<Rightarrow> memory \<Rightarrow> memory \<Rightarrow> bool" where
  "stored env [] m m' \<longleftrightarrow> m' = m"
| "stored env (nt # new) m m' \<longleftrightarrow> (\<exists>m1. replaced env nt m m1 \<and> stored env new m1 m')"

lemma stored_append: "stored env (a @ b) m m' \<longleftrightarrow> (\<exists>m1. stored env a m m1 \<and> stored env b m1 m')"
  by (induction a arbitrary: m) auto

lemma stored_facts:
  "stored env new m m' \<Longrightarrow> distinct (map t_id new) \<Longrightarrow> \<forall>nt \<in> set new. t_workspace nt = ws \<Longrightarrow>
   (\<forall>nt \<in> set new. reads_as nt (task_get env m' ws (t_id nt))) \<and>
   (\<forall>ws' i. ws' \<noteq> ws \<or> i \<notin> t_id ` set new \<longrightarrow> task_get env m' ws' i = task_get env m ws' i)"
proof (induction new arbitrary: m)
  case (Cons nt new)
  from Cons.prems(1) obtain m1 where rep: "replaced env nt m m1" and rest: "stored env new m1 m'" by auto
  have "distinct (map t_id new)" "\<forall>x \<in> set new. t_workspace x = ws" using Cons.prems by auto
  note ih = Cons.IH [OF rest this]
  have first: "t_workspace nt = ws" "t_id nt \<notin> t_id ` set new" using Cons.prems(2,3) by auto
  then have "task_get env m' ws (t_id nt) = task_get env m1 ws (t_id nt)" using ih by blast
  with rep first(1) have "reads_as nt (task_get env m' ws (t_id nt))" by (simp add: replaced_def)
  moreover have "task_get env m' ws' i = task_get env m ws' i"
    if "ws' \<noteq> ws \<or> i \<notin> t_id ` set (nt # new)" for ws' i
  proof -
    have "task_get env m' ws' i = task_get env m1 ws' i" using ih that by auto
    moreover have "(ws', i) \<noteq> (t_workspace nt, t_id nt)" using that first(1) by auto
    ultimately show ?thesis using rep by (simp add: replaced_def)
  qed
  ultimately show ?case using ih by auto
qed simp

lemma pass_stores:
  "faithful env \<Longrightarrow> fine env (ts_mem s) \<Longrightarrow> follows env ws all (ts_mem s) \<Longrightarrow>
   settle_pass env inactive now tids all updated changed s = (Inr (all', upd', ch'), s') \<Longrightarrow>
   \<exists>new. upd' = updated @ new \<and> stored env new (ts_mem s) (ts_mem s')"
proof (induction tids arbitrary: all updated changed s)
  case Nil
  then show ?case by (auto simp: ret_def intro: exI [of _ "[]"])
next
  case (Cons tid tids)
  show ?case
  proof (cases "settle_step env inactive now all tid")
    case None
    with Cons show ?thesis by simp
  next
    case (Some p)
    obtain i nt where p: "p = (i, nt)" by fastforce
    note st = Some [unfolded p]
    obtain u s1 where put: "task_put env nt s = (Inr u, s1)"
      and rest: "settle_pass env inactive now tids (all[i := nt]) (updated @ [nt]) True s1 = (Inr (all', upd', ch'), s')"
      using Cons.prems(4) st by (auto elim: bnd_InrE)
    note k = keepsD [OF keeps_settle_put [OF st] Cons.prems(1-3) put]
    have "may_put drifting env (ts_mem s) nt"
      using Cons.prems(3) settle_stepD(1,3) [OF st] settle_step_evolves [OF st]
      by (intro may_put_replace [of env "ts_mem s" nt "all ! i"]) (auto simp: follows_def got_def)
    then have rep: "replaced env nt (ts_mem s) (ts_mem s1)"
      using task_put_replaced(1) [OF put _ Cons.prems(1)] Cons.prems(2) by (simp add: fine_def may_put_def)
    from Cons.IH [OF Cons.prems(1) k(1) k(3) [OF refl] rest] obtain new where
      "upd' = (updated @ [nt]) @ new" "stored env new (ts_mem s1) (ts_mem s')" by blast
    with rep show ?thesis by (intro exI [of _ "nt # new"]) auto
  qed
qed

lemma loop_stores:
  "settle_loop env inactive now tids all updated s = (Inr upd', s') \<Longrightarrow> faithful env \<Longrightarrow> fine env (ts_mem s) \<Longrightarrow>
   follows env ws all (ts_mem s) \<Longrightarrow> \<exists>new. upd' = updated @ new \<and> stored env new (ts_mem s) (ts_mem s')"
proof (induction env inactive now tids all updated s rule: settle_loop.induct)
  case (1 env inactive now tids all updated s)
  obtain r1 s1 where pass: "settle_pass env inactive now tids all updated False s = (r1, s1)" by fastforce
  with 1(2) obtain all1 upd1 ch where r1: "r1 = Inr (all1, upd1, ch)"
    by (subst (asm) settle_loop.simps) (auto split: sum.splits)
  from pass_stores [OF 1(3,4,5) pass [unfolded r1]] obtain new where new: "upd1 = updated @ new"
    "stored env new (ts_mem s) (ts_mem s1)" by blast
  note k = keepsD [OF keeps_settle_pass 1(3,4,5) pass]
  show ?case
  proof (cases ch)
    case True
    have rest: "settle_loop env inactive now tids all1 upd1 s1 = (Inr upd', s')"
      using 1(2) pass r1 True by (subst (asm) settle_loop.simps) simp
    have "follows env ws all1 (ts_mem s1)" using k(3) [OF r1] by simp
    from 1(1) [OF pass [symmetric] r1 refl refl True rest 1(3) k(1) this] obtain more where
      "upd' = upd1 @ more" "stored env more (ts_mem s1) (ts_mem s')" by blast
    with new show ?thesis by (intro exI [of _ "new @ more"]) (auto simp: stored_append)
  next
    case False
    then have "upd' = upd1 \<and> s' = s1" using 1(2) pass r1 by (subst (asm) settle_loop.simps) simp
    with new show ?thesis by blast
  qed
qed

text \<open>C5. When the tasks of a workspace are settled, each task that moves is moved once, from waiting to
  ready or skipped, and stored so; no other record changes; a task of a graph that is not active does
  not move; and afterwards no task that was to be settled still waits although its dependencies, its
  route or its failure policy have decided on it.\<close>

theorem settling_is_complete:
  assumes "faithful env" "fine env (ts_mem s)" "task_list env (ts_mem s) ws = Inr all"
    and "settle_waiting env ws all tids now s = (Inr new, s')"
    and "inactive_task_ids (ts_mem s) ws all = Inr inactive"
  shows "(\<forall>nt \<in> set new. t_id nt \<in> set tids - set inactive \<and> t_state nt \<in> {Ready, Skipped}
        \<and> (\<exists>t \<in> set all. t_id t = t_id nt \<and> t_state t = Waiting) \<and> reads_as nt (task_get env (ts_mem s') ws (t_id nt)))
     \<and> distinct (map t_id new)
     \<and> (\<forall>i. i \<notin> t_id ` set new \<longrightarrow> task_get env (ts_mem s') ws i = task_get env (ts_mem s) ws i)
     \<and> (\<forall>t \<in> set (updates new all). t_id t \<in> set tids \<and> t_state t = Waiting \<longrightarrow>
          settle_target (task_graph env inactive (updates new all)) t = None)"
proof -
  have follow: "follows env ws all (ts_mem s)" by (rule listed_follows [OF assms(2,3)])
  then have ids: "distinct (map t_id all)" by (simp add: follows_def)
  have loop: "settle_loop env inactive now tids all [] s = (Inr new, s')"
    using assms(4,5) by (auto simp: settle_waiting_def bnd_def read_mem_def map_err_def)
  from loop_moves [OF loop ids] have moved: "moved env inactive now tids all new"
    and none: "\<And>tid. tid \<in> set tids \<Longrightarrow> settle_step env inactive now (updates new all) tid = None" by auto
  note facts = moved_facts [OF moved ids]
  have ws: "\<forall>nt \<in> set new. t_workspace nt = ws"
    using moved_workspace [OF moved] follow by (simp add: follows_def)
  from loop_stores [OF loop assms(1,2) follow] have "stored env new (ts_mem s) (ts_mem s')" by auto
  from stored_facts [OF this _ ws] facts have st:
    "\<forall>nt \<in> set new. reads_as nt (task_get env (ts_mem s') ws (t_id nt))"
    "\<forall>i. i \<notin> t_id ` set new \<longrightarrow> task_get env (ts_mem s') ws i = task_get env (ts_mem s) ws i" by auto
  have "settle_target (task_graph env inactive (updates new all)) t = None"
    if "t \<in> set (updates new all)" "t_id t \<in> set tids" "t_state t = Waiting" for t
    by (rule unsettled_waits [OF none [OF that(2)] _ that(1,3)]) (simp add: ids)
  with st facts show ?thesis by blast
qed

end
