(* ===== verification/Task_Submit_Laws.thy ===== *)
theory Task_Submit_Laws
  imports Task_Records_Laws Task_Demo Task_Graph_Cycles
begin

text \<open>
  What a plan of a graph of tasks promises: it is checked as a whole before anything is stored.
\<close>

section \<open>The planned tasks\<close>

text \<open>The task made of a specification.\<close>

definition made_from :: "u32 \<Rightarrow> string \<Rightarrow> u64 \<Rightarrow> graph_spec \<Rightarrow> graph_task_spec \<Rightarrow> task \<Rightarrow> bool" where
  "made_from ws gid now spec gs t \<longleftrightarrow>
     t_id t = gs_id gs \<and> t_workspace t = ws \<and> t_command t = gs_command gs \<and> t_depends_on t = gs_depends_on gs
     \<and> t_on_failure t = gs_on_failure gs \<and> t_contract t = Some (spec_contract spec gs) \<and> t_graph t = Some gid
     \<and> t_state t = Waiting \<and> t_created t = now \<and> t_typed_result t = None \<and> t_attempt t = None"

lemma planned_made: "made_from ws gid now spec gs (planned_task ws gid now spec gs m)"
  by (simp add: made_from_def planned_task_def new_task_def)

lemma plan_node_Inr:
  assumes "plan_node ws gid now spec ex planned i gs = Inr p"
  shows "made_from ws gid now spec gs p" "gs_id gs \<notin> set ex" "gs_id gs \<notin> t_id ` set planned"
    "validate_key (typed_task_prefix @ gs_id gs) = Inr ()"
  using assms planned_made
  by (auto simp: plan_node_def sbind_Inr_iff task_keys split: sum.splits if_splits json.splits)

lemma plan_nodes_Inr:
  "plan_nodes ws gid now spec ex planned i gss = Inr ps \<Longrightarrow>
   \<exists>new. ps = planned @ new \<and> list_all2 (made_from ws gid now spec) gss new
     \<and> (distinct (map t_id planned) \<longrightarrow> distinct (map t_id ps)) \<and> t_id ` set new \<inter> set ex = {}
     \<and> (\<forall>t \<in> set new. validate_key (typed_task_prefix @ t_id t) = Inr ())"
proof (induction gss arbitrary: planned i)
  case (Cons gs gss)
  from Cons.prems obtain p where p: "plan_node ws gid now spec ex planned i gs = Inr p"
    and rest: "plan_nodes ws gid now spec ex (planned @ [p]) (Suc i) gss = Inr ps"
    by (auto simp: sbind_Inr_iff)
  note n = plan_node_Inr [OF p]
  from n(1) have pid: "t_id p = gs_id gs" by (simp add: made_from_def)
  from Cons.IH [OF rest] obtain new where new: "ps = (planned @ [p]) @ new" "list_all2 (made_from ws gid now spec) gss new"
    "distinct (map t_id (planned @ [p])) \<longrightarrow> distinct (map t_id ps)" "t_id ` set new \<inter> set ex = {}"
    "\<forall>t \<in> set new. validate_key (typed_task_prefix @ t_id t) = Inr ()" by blast
  have "distinct (map t_id planned) \<longrightarrow> distinct (map t_id (planned @ [p]))" using n(3) pid by auto
  with new n pid show ?case by (intro exI [of _ "p # new"]) auto
qed simp

section \<open>References and cycles\<close>

lemma found_Inr: "check_found lookup tid what loc ids = Inr () \<longleftrightarrow> (\<forall>i \<in> set ids. lookup i \<noteq> None)"
proof -
  have "find (\<lambda>(j, i). lookup i = None) (enumerate k ids) = None \<longleftrightarrow> (\<forall>i \<in> set ids. lookup i \<noteq> None)" for k
    by (induction ids arbitrary: k) auto
  from this [of 0] show ?thesis
    by (cases "find (\<lambda>(j, i). lookup i = None) (enumerate 0 ids)") (simp_all add: check_found_def split: prod.split)
qed

text \<open>What is checked of each planned task.\<close>

definition well_planned :: "task_env \<Rightarrow> memory \<Rightarrow> task list \<Rightarrow> task list \<Rightarrow> task \<Rightarrow> bool" where
  "well_planned env m existing planned t \<longleftrightarrow>
     (let lookup = find_planned planned existing in
      (\<forall>i \<in> set (t_depends_on t) \<union> set (reduce_inputs t). lookup i \<noteq> None)
      \<and> (\<forall>fb spec. t_on_failure t = Fallback (Some fb) spec \<longrightarrow> lookup fb \<noteq> None)
      \<and> record_size env m t \<le> record_limit m
      \<and> (\<exists>loc. check_task (m_text m) (ev_plugins env) t loc lookup = Inr ()
             \<and> check_transitions (m_text m) t loc planned lookup = Inr ()))"

lemma map_err_fine: "map_err g r = Inr x \<longleftrightarrow> r = Inr x"
  by (cases r) (simp_all add: map_err_def)

lemma check_planned_Inr:
  "check_planned env m planned (find_planned planned existing) (i, t) = Inr () \<Longrightarrow> well_planned env m existing planned t"
  by (auto simp: check_planned_def well_planned_def Let_def sbind_Inr_iff found_Inr map_err_fine check_record_def
      split: if_splits)

lemma find_planned_None: "find_planned planned existing i = None \<longleftrightarrow> i \<notin> t_id ` set (existing @ planned)"
proof (cases "find (\<lambda>t. t_id t = i) planned")
  case None
  then have "find_planned planned existing i = find (\<lambda>t. t_id t = i) existing" by (simp add: find_planned_def)
  moreover have "i \<notin> t_id ` set planned" using None by (auto simp: find_None_iff)
  ultimately show ?thesis by (auto simp: find_None_iff)
next
  case (Some t)
  then have "t \<in> set planned \<and> t_id t = i" by (auto simp: find_Some_iff)
  with Some show ?thesis by (auto simp: find_planned_def)
qed

lemma check_graph_Inr:
  assumes "check_graph env m existing planned = Inr ()" "listing (ev_tasks env)"
  shows "\<forall>t \<in> set planned. well_planned env m existing planned t"
    and "acyclic {(a, b). edge (build (ev_tasks env) (existing @ planned)) a b}
      \<or> (\<exists>t \<in> set existing. \<exists>d \<in> set (t_depends_on t). d \<notin> t_id ` set (existing @ planned))"
proof -
  let ?g = "build (ev_tasks env) (existing @ planned)"
  from assms(1) obtain us where each: "collect (check_planned env m planned (find_planned planned existing)) (enumerate 0 planned) = Inr us"
    and cyc: "\<And>c. detect_cycles ?g \<noteq> Inl (DependencyCycle c)"
    by (auto simp: check_graph_def sbind_Inr_iff split: sum.splits agent_error.splits)
  show planned: "\<forall>t \<in> set planned. well_planned env m existing planned t"
  proof
    fix t assume "t \<in> set planned"
    then obtain i where "i < length planned" "planned ! i = t" by (auto simp: in_set_conv_nth)
    then have "(i, t) \<in> set (enumerate 0 planned)" by (simp add: in_set_enumerate_eq)
    from list_all2_setD [OF collect_InrD [OF each] this]
    show "well_planned env m existing planned t" using check_planned_Inr by auto
  qed
  have members: "t_id ` set (g_tasks ?g) = t_id ` set (existing @ planned)" "set (g_tasks ?g) \<subseteq> set (existing @ planned)"
  proof -
    have eq: "set (g_tasks ?g) = set (keep_last (existing @ planned))"
      using assms(2) by (metis build_def graph.select_convs(1) listing_def mset_eq_setD)
    have sub: "set (keep_last ts) \<subseteq> set ts" for ts by (induction ts) auto
    show "t_id ` set (g_tasks ?g) = t_id ` set (existing @ planned)" unfolding eq by (rule keep_last_ids)
    show "set (g_tasks ?g) \<subseteq> set (existing @ planned)" unfolding eq by (rule sub)
  qed
  show "acyclic {(a, b). edge ?g a b} \<or> (\<exists>t \<in> set existing. \<exists>d \<in> set (t_depends_on t). d \<notin> t_id ` set (existing @ planned))"
  proof (cases "detect_cycles ?g")
    case (Inr u)
    with detect_cycles_cases [of ?g] show ?thesis by simp
  next
    case (Inl e)
    with detect_cycles_cases [of ?g] have "cycle_report ?g e" by simp
    with cyc Inl obtain d t where d: "g_find ?g d = None" "t \<in> set (g_tasks ?g)" "d \<in> set (t_depends_on t)"
      by (auto simp: cycle_report_def split: agent_error.splits)
    then have unknown: "d \<notin> t_id ` set (existing @ planned)"
      unfolding members(1) [symmetric] by (auto simp: g_find_def find_None_iff)
    have "t \<notin> set planned"
    proof
      assume "t \<in> set planned"
      with planned have "well_planned env m existing planned t" by blast
      then have "find_planned planned existing d \<noteq> None" using d(3) unfolding well_planned_def Let_def by blast
      with find_planned_None [of planned existing d] unknown show False by auto
    qed
    with d(2,3) members(2) unknown show ?thesis by auto
  qed
qed

section \<open>The plan\<close>

lemma unused_graph_mem:
  "unused n c now used s = (r, s') \<Longrightarrow> ts_mem s' = ts_mem s \<and> (\<forall>i. r = Inr i \<longrightarrow> i \<notin> set used)"
  by (induction n c now used s rule: unused.induct) (auto simp: Let_def split: if_splits)

text \<open>C6. A graph of tasks is planned as a whole, and planning stores nothing: the tasks are those of the
  submission, at most a thousand, typed, waiting and of one new graph, with ids of their own that no
  task of the workspace has; every task they depend on, reduce or fall back to is one of them or is there; each
  passes the checks of its contract, its inputs and its transitions and fits its record; and no cycle
  runs through the workspace with them in it, unless a task that was there before depends on one that is gone.\<close>

theorem plan_is_sound:
  assumes "plan_graph env ws spec now s = (Inr plan, s')" "task_list env (ts_mem s) ws = Inr existing"
    and "listing (ev_tasks env)"
  shows "ts_mem s' = ts_mem s \<and> pl_workspace plan = ws
     \<and> gp_tasks spec \<noteq> [] \<and> length (pl_tasks plan) \<le> 1000
     \<and> list_all2 (made_from ws (pl_graph plan) now spec) (gp_tasks spec) (pl_tasks plan)
     \<and> Some (pl_graph plan) \<notin> t_graph ` set existing
     \<and> distinct (map t_id (pl_tasks plan)) \<and> t_id ` set (pl_tasks plan) \<inter> t_id ` set existing = {}
     \<and> (\<forall>t \<in> set (pl_tasks plan). well_planned env (ts_mem s) existing (pl_tasks plan) t)
     \<and> (acyclic {(a, b). edge (build (ev_tasks env) (existing @ pl_tasks plan)) a b}
        \<or> (\<exists>t \<in> set existing. \<exists>d \<in> set (t_depends_on t). d \<notin> t_id ` set (existing @ pl_tasks plan)))"
proof -
  from assms(1,2) obtain gid s1 planned where size: "check_spec_size spec = Inr ()"
    and gid: "unused_graph_id now existing s = (Inr gid, s1)"
    and nodes: "plan_nodes ws gid now spec (map t_id existing) [] 0 (gp_tasks spec) = Inr planned"
    and graph: "check_graph env (ts_mem s1) existing planned = Inr ()" and s': "s' = s1"
    and plan: "plan = \<lparr>pl_workspace = ws, pl_graph = gid, pl_tasks = planned, pl_durability = gp_durability spec\<rparr>"
    by (auto simp: plan_graph_def pure_of_def read_mem_def map_err_fine ret_def elim!: bnd_InrE)
  from plan_nodes_Inr [OF nodes] have made: "list_all2 (made_from ws gid now spec) (gp_tasks spec) planned"
    and ids: "distinct (map t_id planned)" "t_id ` set planned \<inter> t_id ` set existing = {}" by auto
  from unused_graph_mem [OF gid [unfolded unused_graph_id_def]] have mem: "ts_mem s1 = ts_mem s"
    and new: "gid \<notin> set (List.map_filter t_graph existing)" by auto
  have "Some gid \<notin> t_graph ` set existing"
  proof
    assume "Some gid \<in> t_graph ` set existing"
    then obtain t where "t \<in> set existing" "t_graph t = Some gid" by auto
    then have "gid \<in> set (List.map_filter t_graph existing)" by (auto simp: List.map_filter_def image_iff intro!: bexI [of _ t])
    with new show False by simp
  qed
  moreover have "length planned \<le> 1000" "gp_tasks spec \<noteq> []"
    using size list_all2_lengthD [OF made] by (auto simp: check_spec_size_def max_graph_tasks_def split: if_splits)
  ultimately show ?thesis
    using made ids mem check_graph_Inr [OF graph assms(3)] unfolding s' plan by simp
qed

end
