(* ===== verification/Task_Plan_Runs.thy ===== *)
theory Task_Plan_Runs
  imports Task_Runs Task_Settle_Laws Task_Submit_Laws
begin

text \<open>
  A graph that is planned in a new store, and the settling of a task whose dependency has succeeded.
\<close>

section \<open>A plan\<close>

definition demo_node :: "string \<Rightarrow> string list \<Rightarrow> graph_task_spec" where
  "demo_node i deps =
     \<lparr>gs_id = i, gs_name = None, gs_command = Run [''true''] 1 None, gs_depends_on = deps, gs_on_failure = AbortOnFailure,
      gs_metadata = JNull, gs_input = None, gs_output = Some (TypeSchema KInt64 False), gs_bindings = [], gs_mapping = None,
      gs_exit_codes = None, gs_merge_conflict = None, gs_postprocess = None, gs_transitions = None\<rparr>"

definition demo_graph :: graph_spec where
  "demo_graph = \<lparr>gp_version = 2, gp_types = [], gp_tasks = [demo_node ''a'' [''b''], demo_node ''b'' []],
     gp_durability = BestEffort\<rparr>"

lemma demo_planned:
  "case fst (plan_graph demo_env 1 demo_graph 5 demo_new) of
     Inr p \<Rightarrow> map t_id (pl_tasks p) = [''a'', ''b''] | Inl _ \<Rightarrow> False"
  by code_simp

lemma demo_new_empty: "task_list demo_env (ts_mem demo_new) 1 = Inr []"
  by code_simp

theorem plan_is_sound_witness:
  "\<exists>plan. fst (plan_graph demo_env 1 demo_graph 5 demo_new) = Inr plan \<and> map t_id (pl_tasks plan) = [''a'', ''b'']
     \<and> list_all2 (made_from 1 (pl_graph plan) 5 demo_graph) (gp_tasks demo_graph) (pl_tasks plan)
     \<and> acyclic {(a, b). edge (build (ev_tasks demo_env) (pl_tasks plan)) a b}"
proof -
  obtain plan s' where plan: "plan_graph demo_env 1 demo_graph 5 demo_new = (Inr plan, s')"
    "map t_id (pl_tasks plan) = [''a'', ''b'']"
    using demo_planned by (cases "plan_graph demo_env 1 demo_graph 5 demo_new") (auto split: sum.splits)
  from plan_is_sound [OF plan(1) demo_new_empty] plan show ?thesis by (simp add: listing_def demo_env_def)
qed

section \<open>Settling\<close>

text \<open>A task that has succeeded, and one that waits for it.\<close>

definition first_done :: task where
  "first_done = plain_task ''a'' ''sample'' [] Succeeded AbortOnFailure (Some 5) (Some 6)"

definition next_waiting :: task where
  "next_waiting = plain_task ''b'' ''sample'' [''a''] Waiting AbortOnFailure None None"

definition first_stored :: task_store where
  "first_stored = snd (task_put demo_env first_done demo_new)"

definition settle_start :: task_store where
  "settle_start = snd (task_put demo_env next_waiting first_stored)"

lemma next_free:
  "task_get demo_env (ts_mem first_stored) 1 ''b'' = Inr None"
  "kv_get (ts_mem first_stored) 1 (task_prefix @ ''b'') = Inr None"
  "kv_get (ts_mem first_stored) 1 (typed_task_prefix @ ''b'') = Inr None"
  by code_simp+

lemma settle_start_listed: "task_list demo_env (ts_mem settle_start) 1 = Inr [first_done, next_waiting]"
  by code_simp

lemma settle_start_active: "inactive_task_ids (ts_mem settle_start) 1 [first_done, next_waiting] = Inr []"
  by code_simp

lemma settle_start_settled:
  "fst (settle_waiting demo_env 1 [first_done, next_waiting] [''b''] 7 settle_start) = Inr [next_waiting\<lparr>t_state := Ready\<rparr>]"
  by code_simp

lemma settle_start_fine: "fine demo_env (ts_mem settle_start)"
proof -
  have "may_put resting demo_env (ts_mem demo_new) first_done"
    unfolding demo_new_def by (rule new_may_put; code_simp)
  from fine_put [OF demo_faithful demo_new_fine this] have first: "fine demo_env (ts_mem first_stored)"
    by (simp add: first_stored_def)
  have "may_put resting demo_env (ts_mem first_stored) next_waiting"
    using next_free by (auto simp: may_put_def replaceable_def settled_right_def look_def next_waiting_def plain_task_def sample_task_def)
  from fine_put [OF demo_faithful first this] show ?thesis by (simp add: settle_start_def)
qed

theorem settling_is_complete_witness:
  "\<exists>s'. settle_waiting demo_env 1 [first_done, next_waiting] [''b''] 7 settle_start = (Inr [next_waiting\<lparr>t_state := Ready\<rparr>], s')
     \<and> reads_as (next_waiting\<lparr>t_state := Ready\<rparr>) (task_get demo_env (ts_mem s') 1 ''b'')"
proof -
  obtain s' where s': "settle_waiting demo_env 1 [first_done, next_waiting] [''b''] 7 settle_start = (Inr [next_waiting\<lparr>t_state := Ready\<rparr>], s')"
    using settle_start_settled by (cases "settle_waiting demo_env 1 [first_done, next_waiting] [''b''] 7 settle_start") auto
  from settling_is_complete [OF demo_faithful settle_start_fine settle_start_listed s' settle_start_active] s' show ?thesis
    by (auto simp: next_waiting_def plain_task_def sample_task_def)
qed

end
