(* ===== verification/Runner.thy ===== *)
theory Runner
  imports Task_Attempt_Laws
begin

text \<open>
  The loop that drives the tasks of a workspace (\<open>runner.rs\<close>). In one tick it takes in the tasks that ended
  outside of it, goes on with runs whose start was not confirmed, polls the running tasks and
  reports what came of them, and starts the ready ones. What runs a task is the executor, an
  interface of the code; where states and reports are recorded is what the caller of a tick passes
  in. Both are parameters with a state of their own.
\<close>

section \<open>Handles\<close>

datatype dispatch_handle =
    PolledDispatch u32 string json string "string list" "string list" u64 "u64 option"
  | ShellProcess u32
  | ReduceImmediate task_result
  | CustomImmediate task_result
  | ImmediateFail message
  | AwaitDispatchAnswer u32 string string
  | BarrierPoll u32 string
  | AwaitExternal string u64
  | PostprocessPending u32 u64
  | PostprocessProcess u32 u32
  | PostprocessResolved pp_report
  | AgentTurnHandle u32 string string string u32 bool "u64 option" "string option" string

fun is_postprocess :: "dispatch_handle \<Rightarrow> bool" where
  "is_postprocess (PostprocessPending _ _) = True"
| "is_postprocess (PostprocessProcess _ _) = True"
| "is_postprocess (PostprocessResolved _) = True"
| "is_postprocess _ = False"

datatype poll_outcome =
    Active
  | Done task_result
  | PollFailed message
  | Exited task_result
  | Lost message
  | Postprocessed pp_report

datatype dispatch_outcome = Started dispatch_handle | Deferred | PermanentFail message

text \<open>\<open>TaskExecutor\<close>.\<close>

record 'e executor =
  ex_maintain :: "'e \<Rightarrow> 'e"
  ex_dispatch :: "task \<Rightarrow> 'e \<Rightarrow> dispatch_outcome \<times> 'e"
  ex_poll_task :: "string \<Rightarrow> dispatch_handle \<Rightarrow> 'e \<Rightarrow> poll_outcome \<times> 'e"
  ex_release_permit :: "string \<Rightarrow> 'e \<Rightarrow> 'e"
  ex_start_postprocess :: "task \<Rightarrow> string \<Rightarrow> u32 \<Rightarrow> 'e \<Rightarrow> dispatch_handle \<times> 'e"

text \<open>The two calls that record, with how an error and a message are printed.\<close>

record 's recorder =
  rd_set_state :: "u32 \<Rightarrow> string \<Rightarrow> task_state \<Rightarrow> u64 \<Rightarrow> 's \<Rightarrow> (agent_error + unit) \<times> 's"
  rd_complete :: "u32 \<Rightarrow> string \<Rightarrow> completion \<Rightarrow> u64 \<Rightarrow> 's \<Rightarrow> (agent_error + unit) \<times> 's"
  rd_show :: "agent_error \<Rightarrow> string"
  rd_render :: "message \<Rightarrow> string"

record spawned =
  sp_handle :: dispatch_handle
  sp_attempt :: "string option"

record ('e, 's) runner =
  rn_executor :: 'e
  rn_running :: "string \<rightharpoonup> dispatch_handle"
  rn_pending :: "string \<rightharpoonup> completion"
  rn_spawned :: "string \<rightharpoonup> spawned"
  rn_recorded :: 's

definition runner_new :: "'e \<Rightarrow> 's \<Rightarrow> ('e, 's) runner" where
  "runner_new e s = \<lparr>rn_executor = e, rn_running = Map.empty, rn_pending = Map.empty, rn_spawned = Map.empty,
     rn_recorded = s\<rparr>"

section \<open>Reports\<close>

fun completion_retryable :: "agent_error \<Rightarrow> bool" where
  "completion_retryable (CompletionRejected _ _ _ _) = False"
| "completion_retryable (InvalidTransition _ _) = False"
| "completion_retryable (TaskNotFound _) = False"
| "completion_retryable (AlreadyTerminal _) = False"
| "completion_retryable _ = True"

text \<open>A message that is a plain text is that text; what the parts of others read like is the parameter.\<close>

fun message_text :: "(message \<Rightarrow> string) \<Rightarrow> message \<Rightarrow> string" where
  "message_text render [Lit s] = s"
| "message_text render m = render m"

fun is_value_too_large :: "agent_error \<Rightarrow> bool" where
  "is_value_too_large (MemoryErr (ValueTooLarge _ _)) = True"
| "is_value_too_large _ = False"

definition carries_bulk :: "(message \<Rightarrow> string) \<Rightarrow> completion \<Rightarrow> bool" where
  "carries_bulk render c \<longleftrightarrow>
     res_output (cm_result c) \<noteq> None
     \<or> (case res_error (cm_result c) of None \<Rightarrow> False | Some m \<Rightarrow> shrunk_error_limit < length (message_text render m))"

definition shrink_too_large_completion :: "'s recorder \<Rightarrow> agent_error \<Rightarrow> completion \<Rightarrow> completion option" where
  "shrink_too_large_completion rd e c =
     (if is_value_too_large e \<and> cm_postprocess c \<noteq> None then postprocess_too_large (rd_show rd e) c
      else if is_value_too_large e \<and> carries_bulk (rd_render rd) c \<and> cm_postprocess c = None
      then Some (too_large_to_store (message_text (rd_render rd)) (rd_show rd e) c)
      else None)"

text \<open>How often a report can still be replaced by a shorter one.\<close>

definition report_weight :: "(message \<Rightarrow> string) \<Rightarrow> completion \<Rightarrow> nat" where
  "report_weight render c =
     (if cm_postprocess c = None then of_bool (carries_bulk render c) else shrinks_left c)"

lemma shortened_not_bulk: "\<not> carries_bulk render (too_large_to_store r why c)"
proof -
  have "length (head_within s shrunk_error_limit) \<le> shrunk_error_limit" for s by (rule head_within_le)
  then show ?thesis
    by (auto simp: carries_bulk_def too_large_to_store_def Let_def completed_def error_result_def not_less)
qed

lemma shrink_weight:
  assumes "shrink_too_large_completion rd e c = Some c'"
  shows "report_weight (rd_render rd) c' < report_weight (rd_render rd) c"
proof (cases "cm_postprocess c = None")
  case True
  then have "carries_bulk (rd_render rd) c" "c' = too_large_to_store (message_text (rd_render rd)) (rd_show rd e) c"
    using assms by (auto simp: shrink_too_large_completion_def split: if_splits)
  moreover have "cm_postprocess (too_large_to_store r why c) = None" for r why
    by (simp add: too_large_to_store_def Let_def completed_def)
  ultimately show ?thesis using True shortened_not_bulk by (simp add: report_weight_def)
next
  case False
  then have shrunk: "postprocess_too_large (rd_show rd e) c = Some c'"
    using assms by (auto simp: shrink_too_large_completion_def split: if_splits)
  have "cm_postprocess c' \<noteq> None" using shrunk by (rule shrink_step) auto
  then show ?thesis using False shrinks_less [OF shrunk] by (simp only: report_weight_def if_False)
qed

datatype reported = Recorded completion | Rejected | Kept

definition unrecorded :: "string \<Rightarrow> completion \<Rightarrow> agent_error \<Rightarrow> ('e, 's) runner \<Rightarrow> reported \<times> ('e, 's) runner" where
  "unrecorded tid c e r =
     (if completion_retryable e then (Kept, r\<lparr>rn_pending := (rn_pending r)(tid \<mapsto> c)\<rparr>)
      else (Rejected, r\<lparr>rn_pending := (rn_pending r)(tid := None)\<rparr>))"

function report ::
  "'s recorder \<Rightarrow> u32 \<Rightarrow> string \<Rightarrow> u64 \<Rightarrow> completion \<Rightarrow> ('e, 's) runner \<Rightarrow> reported \<times> ('e, 's) runner" where
  "report rd ws tid now c r =
     (case rd_complete rd ws tid c now (rn_recorded r) of
        (Inr _, s) \<Rightarrow> (Recorded c, r\<lparr>rn_pending := (rn_pending r)(tid := None), rn_recorded := s\<rparr>)
      | (Inl e, s) \<Rightarrow>
          (case shrink_too_large_completion rd e c of
             Some c' \<Rightarrow> report rd ws tid now c' (r\<lparr>rn_recorded := s\<rparr>)
           | None \<Rightarrow> unrecorded tid c e (r\<lparr>rn_recorded := s\<rparr>)))"
  by pat_completeness auto
termination
  by (relation "measure (\<lambda>(rd, ws, tid, now, c, r). report_weight (rd_render rd) c)") (auto dest: shrink_weight)

declare report.simps [simp del]

section \<open>Going on after a report\<close>

definition continuation :: "task \<Rightarrow> completion \<Rightarrow> u64 \<Rightarrow> dispatch_handle option" where
  "continuation t c now =
     (case Option.bind (t_contract t) tk_postprocess of
        None \<Rightarrow> None
      | Some spec \<Rightarrow>
          (case cm_postprocess c of
             None \<Rightarrow> if cm_outcome c = OutSucceeded then Some (PostprocessPending 1 now) else None
           | Some rep \<Rightarrow>
               map_option (\<lambda>run. PostprocessPending run (sat_add now (retry_delay spec))) (next_run spec rep)))"

definition start_postprocess :: "'e executor \<Rightarrow> task \<Rightarrow> u32 \<Rightarrow> ('e, 's) runner \<Rightarrow> ('e, 's) runner" where
  "start_postprocess ex t run r =
     (case t_attempt t of
        None \<Rightarrow> r
      | Some a \<Rightarrow>
          (case ex_start_postprocess ex t (at_id a) run (rn_executor r) of
             (h, e) \<Rightarrow> r\<lparr>rn_executor := e, rn_running := (rn_running r)(t_id t \<mapsto> h)\<rparr>))"

definition release_permit :: "'e executor \<Rightarrow> string \<Rightarrow> ('e, 's) runner \<Rightarrow> ('e, 's) runner" where
  "release_permit ex tid r = r\<lparr>rn_executor := ex_release_permit ex tid (rn_executor r)\<rparr>"

section \<open>A tick\<close>

text \<open>Tasks that ended outside of the loop. One whose report is kept is left for the next tick.\<close>

definition take_in_ended ::
  "'e executor \<Rightarrow> 's recorder \<Rightarrow> u32 \<Rightarrow> u64 \<Rightarrow> task \<Rightarrow> ('e, 's) runner \<Rightarrow> ('e, 's) runner" where
  "take_in_ended ex rd ws now t r =
     (if \<not> is_terminal (t_state t) then r
      else
        let (kept, r1) = (case rn_pending r (t_id t) of
                            None \<Rightarrow> (False, r)
                          | Some c \<Rightarrow> (case report rd ws (t_id t) now c r of (outcome, r1) \<Rightarrow> (outcome = Kept, r1)))
        in if kept then r1
           else
             let r2 = r1\<lparr>rn_running := (rn_running r1)(t_id t := None), rn_spawned := (rn_spawned r1)(t_id t := None)\<rparr>
             in if rn_running r1 (t_id t) \<noteq> None \<or> rn_spawned r1 (t_id t) \<noteq> None
                then release_permit ex (t_id t) r2 else r2)"

definition resume_spawned_task ::
  "'e executor \<Rightarrow> 's recorder \<Rightarrow> u32 \<Rightarrow> u64 \<Rightarrow> task \<Rightarrow> ('e, 's) runner \<Rightarrow> ('e, 's) runner" where
  "resume_spawned_task ex rd ws now t r =
     (case rn_spawned r (t_id t) of
        None \<Rightarrow> r
      | Some entry \<Rightarrow>
          let same_attempt =
                (if t_state t = Running then map_option at_id (t_attempt t) = sp_attempt entry
                 else if t_state t = Ready then map_option at_id (next_attempt t now) = sp_attempt entry
                 else False);
              gone = (rn_spawned r)(t_id t := None);
              watched = (\<lambda>r. r\<lparr>rn_spawned := (rn_spawned r)(t_id t := None),
                               rn_running := (rn_running r)(t_id t \<mapsto> sp_handle entry)\<rparr>)
          in if \<not> same_attempt then release_permit ex (t_id t) (r\<lparr>rn_spawned := gone\<rparr>)
             else if t_state t = Ready
             then (case rd_set_state rd ws (t_id t) Running now (rn_recorded r) of
                     (Inl _, s) \<Rightarrow> r\<lparr>rn_recorded := s\<rparr>
                   | (Inr _, s) \<Rightarrow> watched (r\<lparr>rn_recorded := s\<rparr>))
             else watched r)"

text \<open>What a poll says as a report; \<open>None\<close> when the run goes on.\<close>

fun completion_of :: "string option \<Rightarrow> poll_outcome \<Rightarrow> completion option" where
  "completion_of a Active = None"
| "completion_of a (Done x) = Some (completion_succeeded a x)"
| "completion_of a (PollFailed e) = Some (completion_failed a e)"
| "completion_of a (Exited x) = Some (completion_exited a x)"
| "completion_of a (Lost why) = Some (completion_lost a why)"
| "completion_of a (Postprocessed rep) = Some (completion_postprocessed a rep)"

text \<open>The phase of post-processing in the snapshot, where the loop looks at the scheduled one only.\<close>

definition scheduled :: "task \<Rightarrow> (u32 \<times> u64) option" where
  "scheduled t =
     (case Option.bind (t_attempt t) at_postprocess of
        None \<Rightarrow> None
      | Some p \<Rightarrow> (case pg_phase p of PhasePending run not_before \<Rightarrow> Some (run, not_before) | _ \<Rightarrow> None))"

definition watched_handle :: "task \<Rightarrow> dispatch_handle \<Rightarrow> ('e, 's) runner \<Rightarrow> dispatch_handle" where
  "watched_handle t h r =
     (case scheduled t of
        Some (run, not_before) \<Rightarrow>
          if \<not> is_postprocess h \<and> rn_pending r (t_id t) = None then PostprocessPending run not_before else h
      | None \<Rightarrow> h)"

text \<open>The report to be made on a task that runs; \<open>None\<close> when there is none in this tick.\<close>

definition next_report ::
  "'e executor \<Rightarrow> u64 \<Rightarrow> task \<Rightarrow> dispatch_handle \<Rightarrow> ('e, 's) runner \<Rightarrow> completion option \<times> ('e, 's) runner" where
  "next_report ex now t h r =
     (let attempt = map_option at_id (t_attempt t) in
      case rn_pending r (t_id t) of
        Some c \<Rightarrow> (Some c, r)
      | None \<Rightarrow>
          (case h of
             PostprocessPending run not_before \<Rightarrow>
               (None, if not_before \<le> now then start_postprocess ex t run r else r)
           | PostprocessResolved rep \<Rightarrow> (completion_of attempt (Postprocessed rep), r)
           | _ \<Rightarrow>
               (case ex_poll_task ex (t_id t) h (rn_executor r) of
                  (out, e) \<Rightarrow> (completion_of attempt out, r\<lparr>rn_executor := e\<rparr>))))"

definition settle_report ::
  "'e executor \<Rightarrow> u64 \<Rightarrow> task \<Rightarrow> reported \<Rightarrow> ('e, 's) runner \<Rightarrow> ('e, 's) runner" where
  "settle_report ex now t outcome r =
     (let dropped = release_permit ex (t_id t) (r\<lparr>rn_running := (rn_running r)(t_id t := None)\<rparr>) in
      case outcome of
        Kept \<Rightarrow> r
      | Rejected \<Rightarrow> dropped
      | Recorded c \<Rightarrow>
          (case continuation t c now of
             None \<Rightarrow> dropped
           | Some (PostprocessPending run not_before) \<Rightarrow>
               if not_before \<le> now then start_postprocess ex t run r
               else r\<lparr>rn_running := (rn_running r)(t_id t \<mapsto> PostprocessPending run not_before)\<rparr>
           | Some h \<Rightarrow> r\<lparr>rn_running := (rn_running r)(t_id t \<mapsto> h)\<rparr>))"

definition poll_running ::
  "'e executor \<Rightarrow> 's recorder \<Rightarrow> u32 \<Rightarrow> u64 \<Rightarrow> task \<Rightarrow> ('e, 's) runner \<Rightarrow> ('e, 's) runner" where
  "poll_running ex rd ws now t r =
     (if t_state t \<noteq> Running then r
      else case rn_running r (t_id t) of
        None \<Rightarrow> r
      | Some h0 \<Rightarrow>
          let h = watched_handle t h0 r; r0 = r\<lparr>rn_running := (rn_running r)(t_id t \<mapsto> h)\<rparr>
          in case next_report ex now t h r0 of
               (None, r1) \<Rightarrow> r1
             | (Some c, r1) \<Rightarrow> (case report rd ws (t_id t) now c r1 of (outcome, r2) \<Rightarrow> settle_report ex now t outcome r2))"

definition dispatch_ready ::
  "'e executor \<Rightarrow> 's recorder \<Rightarrow> u32 \<Rightarrow> u64 \<Rightarrow> task \<Rightarrow> ('e, 's) runner \<Rightarrow> ('e, 's) runner" where
  "dispatch_ready ex rd ws now t r =
     (if t_state t \<noteq> Ready \<or> rn_running r (t_id t) \<noteq> None \<or> rn_spawned r (t_id t) \<noteq> None then r
      else case ex_dispatch ex t (rn_executor r) of (out, e) \<Rightarrow>
        let r1 = r\<lparr>rn_executor := e\<rparr>;
            watch = (\<lambda>h.
              case rd_set_state rd ws (t_id t) Running now (rn_recorded r1) of
                (Inr _, s) \<Rightarrow> r1\<lparr>rn_recorded := s, rn_running := (rn_running r1)(t_id t \<mapsto> h)\<rparr>
              | (Inl _, s) \<Rightarrow> r1\<lparr>rn_recorded := s, rn_spawned := (rn_spawned r1)(t_id t \<mapsto>
                    \<lparr>sp_handle = h, sp_attempt = map_option at_id (next_attempt t now)\<rparr>)\<rparr>)
        in case out of
             Started h \<Rightarrow> watch h
           | Deferred \<Rightarrow> r1
           | PermanentFail why \<Rightarrow> watch (ImmediateFail why))"

definition tick ::
  "'e executor \<Rightarrow> 's recorder \<Rightarrow> u32 \<Rightarrow> u64 \<Rightarrow> task list \<Rightarrow> ('e, 's) runner \<Rightarrow> ('e, 's) runner" where
  "tick ex rd ws now tasks r =
     (let r0 = r\<lparr>rn_executor := ex_maintain ex (rn_executor r)\<rparr>;
          r1 = fold (take_in_ended ex rd ws now) tasks r0;
          r2 = fold (resume_spawned_task ex rd ws now) tasks r1;
          r3 = fold (poll_running ex rd ws now) tasks r2
      in fold (dispatch_ready ex rd ws now) tasks r3)"

end
