(* ===== verification/Runner_Laws.thy ===== *)
theory Runner_Laws
  imports Runner
begin

text \<open>
  What the loop does with the executor, over any sequence of ticks, any snapshots and anything that
  happens to what is recorded in between: a task is started only while it holds no permit, and
  polled, taken further and released only while it does.
\<close>

section \<open>What an executor is asked to do\<close>

datatype exec_event = Began string | PutOff string | Polled string | Postprocessing string u32 | Freed string

text \<open>An executor that keeps a log of the calls, a start it puts off among them.\<close>

definition traced :: "'e executor \<Rightarrow> ('e \<times> exec_event list) executor" where
  "traced ex =
     \<lparr>ex_maintain = (\<lambda>(e, l). (ex_maintain ex e, l)),
      ex_dispatch = (\<lambda>t (e, l). case ex_dispatch ex t e of (out, e') \<Rightarrow>
        (out, e', l @ [if out = Deferred then PutOff (t_id t) else Began (t_id t)])),
      ex_poll_task = (\<lambda>i h (e, l). case ex_poll_task ex i h e of (out, e') \<Rightarrow> (out, e', l @ [Polled i])),
      ex_release_permit = (\<lambda>i (e, l). (ex_release_permit ex i e, l @ [Freed i])),
      ex_start_postprocess = (\<lambda>t a run (e, l). case ex_start_postprocess ex t a run e of (h, e') \<Rightarrow>
        (h, e', l @ [Postprocessing (t_id t) run]))\<rparr>"

text \<open>The tasks that hold a permit after a log; \<open>None\<close> when a call came at the wrong time.\<close>

fun permits :: "string set \<Rightarrow> exec_event list \<Rightarrow> string set option" where
  "permits H [] = Some H"
| "permits H (Began i # l) = (if i \<in> H then None else permits (insert i H) l)"
| "permits H (PutOff i # l) = (if i \<in> H then None else permits H l)"
| "permits H (Freed i # l) = (if i \<in> H then permits (H - {i}) l else None)"
| "permits H (Polled i # l) = (if i \<in> H then permits H l else None)"
| "permits H (Postprocessing i run # l) = (if i \<in> H then permits H l else None)"

lemma permits_append: "permits H (l @ l') = Option.bind (permits H l) (\<lambda>H'. permits H' l')"
  by (induction H l rule: permits.induct) auto

definition held :: "('e, 's) runner \<Rightarrow> string set" where
  "held r = {i. rn_running r i \<noteq> None \<or> rn_spawned r i \<noteq> None}"

definition log_of :: "('e \<times> exec_event list, 's) runner \<Rightarrow> exec_event list" where
  "log_of r = snd (rn_executor r)"

definition permits_right :: "string set \<Rightarrow> ('e \<times> exec_event list, 's) runner \<Rightarrow> bool" where
  "permits_right H r \<longleftrightarrow> permits H (log_of r) = Some (held r)
     \<and> (\<forall>i h. rn_running r i = Some h \<longrightarrow> rn_spawned r i = None)
     \<and> (\<forall>i. rn_running r i = None \<longrightarrow> rn_pending r i = None)"

lemma permits_rightD:
  assumes "permits_right H r"
  shows "rn_running r i = Some h \<Longrightarrow> rn_spawned r i = None"
    and "rn_spawned r i = Some entry \<Longrightarrow> rn_running r i = None"
    and "rn_running r i = None \<Longrightarrow> rn_pending r i = None"
  using assms by (fastforce simp: permits_right_def)+

section \<open>Reports\<close>

lemma unrecorded_frame:
  assumes "unrecorded tid c e r = (out, r')"
  shows "rn_executor r' = rn_executor r \<and> rn_running r' = rn_running r \<and> rn_spawned r' = rn_spawned r
    \<and> rn_recorded r' = rn_recorded r \<and> (\<forall>i. i \<noteq> tid \<longrightarrow> rn_pending r' i = rn_pending r i)
    \<and> (out = Kept \<longleftrightarrow> rn_pending r' tid \<noteq> None)"
  using assms by (auto simp: unrecorded_def split: if_splits)

lemma report_frame:
  "report rd ws tid now c r = (out, r') \<Longrightarrow>
   rn_executor r' = rn_executor r \<and> rn_running r' = rn_running r \<and> rn_spawned r' = rn_spawned r
    \<and> (\<forall>i. i \<noteq> tid \<longrightarrow> rn_pending r' i = rn_pending r i) \<and> (out = Kept \<longleftrightarrow> rn_pending r' tid \<noteq> None)"
proof (induction rd ws tid now c r rule: report.induct)
  case (1 rd ws tid now c r)
  obtain res s where call: "rd_complete rd ws tid c now (rn_recorded r) = (res, s)" by fastforce
  show ?case
  proof (cases res)
    case (Inr u)
    with 1(2) call show ?thesis by (subst (asm) report.simps) auto
  next
    case (Inl e)
    show ?thesis
    proof (cases "shrink_too_large_completion rd e c")
      case None
      then have "unrecorded tid c e (r\<lparr>rn_recorded := s\<rparr>) = (out, r')"
        using 1(2) call Inl by (subst (asm) report.simps) simp
      from unrecorded_frame [OF this] show ?thesis by simp
    next
      case (Some c')
      then have "report rd ws tid now c' (r\<lparr>rn_recorded := s\<rparr>) = (out, r')"
        using 1(2) call Inl by (subst (asm) report.simps) simp
      from 1(1) [OF call [symmetric] Inl Some this] show ?thesis by simp
    qed
  qed
qed

section \<open>The steps of a tick\<close>

lemma permits_snoc: "permits H l = Some K \<Longrightarrow> permits H (l @ [ev]) = permits K [ev]"
  by (simp add: permits_append)

lemma right_release:
  assumes "permits_right H r" "i \<in> held r" "rn_pending r i = None"
    and "r' = r\<lparr>rn_running := (rn_running r)(i := None), rn_spawned := (rn_spawned r)(i := None)\<rparr>"
  shows "permits_right H (release_permit (traced ex) i r')"
  using assms
  by (auto simp: permits_right_def release_permit_def traced_def log_of_def held_def permits_append split: prod.splits)

lemma right_start:
  assumes "permits_right H r" "rn_running r (t_id t) \<noteq> None"
  shows "permits_right H (start_postprocess (traced ex) t run r)"
  using assms
  by (auto simp: permits_right_def start_postprocess_def traced_def log_of_def held_def permits_append
      split: option.splits prod.splits)

lemma right_frame:
  assumes "permits_right H r" "log_of r' = log_of r" "\<And>i. rn_running r' i = None \<longleftrightarrow> rn_running r i = None"
    "\<And>i. rn_spawned r' i = None \<longleftrightarrow> rn_spawned r i = None" "\<And>i. rn_running r i = None \<Longrightarrow> rn_pending r' i = None"
  shows "permits_right H r'"
proof -
  have "held r' = held r" using assms(3,4) by (simp add: held_def)
  moreover have "rn_spawned r' i = None" if "rn_running r' i = Some h" for i h
  proof -
    from that assms(3) [of i] obtain h' where "rn_running r i = Some h'" by fastforce
    then show ?thesis using permits_rightD(1) [OF assms(1)] assms(4) by simp
  qed
  ultimately show ?thesis using assms by (simp add: permits_right_def)
qed

lemma right_report:
  assumes "permits_right H r" "rn_running r i \<noteq> None" "report rd ws i now c r = (out, r')"
  shows "permits_right H r'"
proof -
  note f = report_frame [OF assms(3)]
  have "rn_running r x = None \<Longrightarrow> rn_pending r' x = None" for x
    using f assms(1,2) by (cases "x = i") (auto simp: permits_right_def)
  with f show ?thesis by (intro right_frame [OF assms(1)]) (simp_all add: log_of_def)
qed

lemma right_ended:
  assumes "permits_right H r"
  shows "permits_right H (take_in_ended (traced ex) rd ws now t r)"
proof (cases "is_terminal (t_state t)")
  case True
  obtain kept r1 where r1: "(case rn_pending r (t_id t) of
                            None \<Rightarrow> (False, r)
                          | Some c \<Rightarrow> (case report rd ws (t_id t) now c r of (outcome, r1) \<Rightarrow> (outcome = Kept, r1))) = (kept, r1)"
    by fastforce
  have right: "permits_right H r1 \<and> (kept \<or> rn_pending r1 (t_id t) = None)"
  proof (cases "rn_pending r (t_id t)")
    case None
    with r1 assms show ?thesis by simp
  next
    case (Some c)
    with assms have "rn_running r (t_id t) \<noteq> None" by (auto simp: permits_right_def)
    with Some r1 right_report [OF assms, of "t_id t"] report_frame [of rd ws "t_id t" now c r] show ?thesis
      by (auto split: prod.splits)
  qed
  let ?r2 = "r1\<lparr>rn_running := (rn_running r1)(t_id t := None), rn_spawned := (rn_spawned r1)(t_id t := None)\<rparr>"
  show ?thesis
  proof (cases "kept \<or> t_id t \<notin> held r1")
    case True
    then have "take_in_ended (traced ex) rd ws now t r = (if kept then r1 else ?r2)"
      using r1 \<open>is_terminal (t_state t)\<close> by (auto simp: take_in_ended_def Let_def held_def dom_def)
    moreover have "t_id t \<notin> held r1 \<Longrightarrow> ?r2 = r1"
      by (auto simp: held_def dom_def fun_upd_idem)
    ultimately show ?thesis using right True by (auto split: if_splits)
  next
    case False
    then have "take_in_ended (traced ex) rd ws now t r = release_permit (traced ex) (t_id t) ?r2"
      using r1 \<open>is_terminal (t_state t)\<close> by (auto simp: take_in_ended_def Let_def held_def dom_def)
    with right_release [OF _ _ _ refl, of H r1 "t_id t" ex] right False show ?thesis by simp
  qed
qed (simp add: take_in_ended_def assms)

lemma right_watched:
  assumes "permits_right H r" "rn_spawned r i = Some entry"
  shows "permits_right H (r\<lparr>rn_spawned := (rn_spawned r)(i := None), rn_running := (rn_running r)(i \<mapsto> h)\<rparr>)"
proof -
  have "rn_running r i = None" using assms by (auto simp: permits_right_def)
  with assms show ?thesis by (auto simp: permits_right_def log_of_def held_def insert_absorb)
qed

lemma right_recorded: "permits_right H r \<Longrightarrow> permits_right H (r\<lparr>rn_recorded := s\<rparr>)"
  by (simp add: permits_right_def log_of_def held_def)

lemma right_resumed:
  assumes "permits_right H r"
  shows "permits_right H (resume_spawned_task (traced ex) rd ws now t r)"
proof (cases "rn_spawned r (t_id t)")
  case (Some entry)
  then have none: "rn_running r (t_id t) = None" "rn_pending r (t_id t) = None"
    using permits_rightD(2,3) [OF assms] by auto
  have drop: "permits_right H (release_permit (traced ex) (t_id t) (r\<lparr>rn_spawned := (rn_spawned r)(t_id t := None)\<rparr>))"
    using right_release [OF assms _ none(2) refl, of ex] Some none(1)
    by (simp add: held_def fun_upd_idem domI)
  have watch: "permits_right H (r'\<lparr>rn_spawned := (rn_spawned r')(t_id t := None),
      rn_running := (rn_running r')(t_id t \<mapsto> sp_handle entry)\<rparr>)" if "permits_right H r'" "rn_spawned r' = rn_spawned r" for r'
    using right_watched [OF that(1), of "t_id t" entry] that(2) Some by simp
  obtain res s where set: "rd_set_state rd ws (t_id t) Running now (rn_recorded r) = (res, s)" by fastforce
  have "permits_right H (r\<lparr>rn_recorded := s\<rparr>)" "rn_spawned (r\<lparr>rn_recorded := s\<rparr>) = rn_spawned r"
    using right_recorded [OF assms] by simp_all
  note after = this(1) watch [OF this]
  show ?thesis
    unfolding resume_spawned_task_def Some Let_def option.case set prod.case
    using drop after watch [OF assms refl] by (cases res; simp only: sum.case split: if_split; simp)
qed (simp add: resume_spawned_task_def assms)

lemma right_next_report:
  assumes "permits_right H r" "rn_running r (t_id t) \<noteq> None" "next_report (traced ex) now t h r = (c, r')"
  shows "permits_right H r' \<and> rn_running r' (t_id t) \<noteq> None"
proof -
  have polled: "permits_right H (r\<lparr>rn_executor := e\<rparr>)"
    if "ex_poll_task (traced ex) (t_id t) h (rn_executor r) = (out, e)" for out e
    using that assms(1,2)
    by (auto simp: permits_right_def traced_def log_of_def held_def permits_append split: prod.splits)
  have running: "rn_running (start_postprocess (traced ex) t run r) (t_id t) \<noteq> None" for run
    using assms(2) by (auto simp: start_postprocess_def split: option.splits prod.splits)
  show ?thesis
    using assms polled running right_start [OF assms(1,2), of ex]
    by (auto simp: next_report_def Let_def split: option.splits dispatch_handle.splits prod.splits if_splits)
qed

lemma right_settled:
  assumes "permits_right H r" "rn_running r (t_id t) \<noteq> None" "out = Kept \<longleftrightarrow> rn_pending r (t_id t) \<noteq> None"
  shows "permits_right H (settle_report (traced ex) now t out r)"
proof -
  have disjoint: "rn_spawned r (t_id t) = None" using assms(1,2) by (auto simp: permits_right_def)
  have drop: "permits_right H (release_permit (traced ex) (t_id t) (r\<lparr>rn_running := (rn_running r)(t_id t := None)\<rparr>))"
    if "out \<noteq> Kept"
    using right_release [OF assms(1) _ _ refl, of "t_id t" ex] assms(2,3) that disjoint
    by (simp add: held_def fun_upd_idem)
  have watch: "permits_right H (r\<lparr>rn_running := (rn_running r)(t_id t \<mapsto> h)\<rparr>)" for h
    using assms(1,2) by (intro right_frame [OF assms(1)]) (auto simp: log_of_def permits_right_def)
  show ?thesis
    using drop watch right_start [OF assms(1,2)] assms(1)
    by (auto simp: settle_report_def Let_def split: reported.splits option.splits dispatch_handle.splits)
qed

lemma right_polled:
  assumes "permits_right H r"
  shows "permits_right H (poll_running (traced ex) rd ws now t r)"
proof (cases "t_state t = Running \<and> rn_running r (t_id t) \<noteq> None")
  case True
  then obtain h0 where h0: "rn_running r (t_id t) = Some h0" by blast
  let ?r = "r\<lparr>rn_running := (rn_running r)(t_id t \<mapsto> watched_handle t h0 r)\<rparr>"
  obtain c r1 where next_eq: "next_report (traced ex) now t (watched_handle t h0 r) ?r = (c, r1)" by fastforce
  have right: "permits_right H ?r" "rn_running ?r (t_id t) \<noteq> None"
    using assms h0 by (intro right_frame [OF assms]) (auto simp: log_of_def permits_right_def)
  note n = right_next_report [OF right next_eq]
  show ?thesis
  proof (cases c)
    case None
    with n True h0 next_eq show ?thesis by (simp add: poll_running_def Let_def)
  next
    case (Some c')
    obtain out r2 where rep: "report rd ws (t_id t) now c' r1 = (out, r2)" by fastforce
    have "permits_right H r2" using right_report [OF _ _ rep] n by blast
    moreover note f = report_frame [OF rep]
    ultimately have "permits_right H (settle_report (traced ex) now t out r2)"
      using n by (intro right_settled) auto
    with Some True h0 next_eq rep show ?thesis by (simp add: poll_running_def Let_def)
  qed
qed (auto simp: poll_running_def assms)

lemma right_dispatched:
  assumes "permits_right H r"
  shows "permits_right H (dispatch_ready (traced ex) rd ws now t r)"
proof (cases "t_state t \<noteq> Ready \<or> rn_running r (t_id t) \<noteq> None \<or> rn_spawned r (t_id t) \<noteq> None")
  case False
  then have free: "t_id t \<notin> held r" by (auto simp: held_def)
  obtain e l where el: "rn_executor r = (e, l)" by fastforce
  obtain out e' where out: "ex_dispatch ex t e = (out, e')" by fastforce
  let ?l = "l @ [if out = Deferred then PutOff (t_id t) else Began (t_id t)]"
  let ?r = "r\<lparr>rn_executor := (e', ?l)\<rparr>"
  have began: "permits_right H (?r\<lparr>rn_recorded := s, rn_running := (rn_running r)(t_id t \<mapsto> h)\<rparr>)"
     "permits_right H (?r\<lparr>rn_recorded := s, rn_spawned := (rn_spawned r)(t_id t \<mapsto> h')\<rparr>)" if "out \<noteq> Deferred" for s h h'
    using assms free that el by (auto simp: permits_right_def log_of_def held_def permits_append)
  have deferred: "permits_right H ?r" if "out = Deferred"
    using assms free that el by (auto simp: permits_right_def log_of_def held_def permits_append)
  show ?thesis
    using False began deferred
    by (auto simp: dispatch_ready_def traced_def el out Let_def split: dispatch_outcome.splits sum.splits prod.splits)
qed (auto simp: dispatch_ready_def assms)

lemma right_fold: "(\<And>t r. permits_right H r \<Longrightarrow> permits_right H (f t r)) \<Longrightarrow> permits_right H r \<Longrightarrow> permits_right H (fold f ts r)"
  by (induction ts arbitrary: r) auto

lemma right_tick:
  assumes "permits_right H r"
  shows "permits_right H (tick (traced ex) rd ws now tasks r)"
proof -
  have "permits_right H (r\<lparr>rn_executor := ex_maintain (traced ex) (rn_executor r)\<rparr>)"
    by (rule right_frame [OF assms])
      (use assms in \<open>auto simp: permits_right_def log_of_def traced_def split: prod.splits\<close>)
  then show ?thesis
    unfolding tick_def Let_def
    by (intro right_fold right_ended right_resumed right_polled right_dispatched)
qed

section \<open>A run of the loop\<close>

text \<open>One tick of a run: the workspace, the time, the snapshot, and what happened to what is recorded since.\<close>

type_synonym 's tick_input = "u32 \<times> u64 \<times> task list \<times> ('s \<Rightarrow> 's)"

definition run_tick :: "'e executor \<Rightarrow> 's recorder \<Rightarrow> 's tick_input \<Rightarrow> ('e, 's) runner \<Rightarrow> ('e, 's) runner" where
  "run_tick ex rd = (\<lambda>(ws, now, tasks, meanwhile) r.
     tick ex rd ws now tasks (r\<lparr>rn_recorded := meanwhile (rn_recorded r)\<rparr>))"

definition run_ticks :: "'e executor \<Rightarrow> 's recorder \<Rightarrow> 's tick_input list \<Rightarrow> ('e, 's) runner \<Rightarrow> ('e, 's) runner" where
  "run_ticks ex rd = fold (run_tick ex rd)"

text \<open>A loop that starts with the handles the host restored.\<close>

definition restored :: "'e \<Rightarrow> 's \<Rightarrow> (string \<rightharpoonup> dispatch_handle) \<Rightarrow> ('e \<times> exec_event list, 's) runner" where
  "restored e s handles = (runner_new (e, []) s)\<lparr>rn_running := handles\<rparr>"

lemma right_ticks: "permits_right H r \<Longrightarrow> permits_right H (run_ticks (traced ex) rd ticks r)"
  unfolding run_ticks_def run_tick_def
  by (rule right_fold) (auto intro!: right_tick right_recorded)

lemma right_restored: "permits_right (dom handles) (restored e s handles)"
  by (auto simp: permits_right_def restored_def runner_new_def log_of_def held_def dom_def)

text \<open>C7. Whatever the executor does, whatever the recording of states and reports answers and whatever
  snapshots the loop is given: a task is started only when it does not hold a permit, and is polled,
  post-processed and released only while it does, so nothing runs twice and no permit is released
  twice or before its run; the tasks that hold one are those the loop watches or has to confirm, and
  a report is kept for watched tasks only.\<close>

theorem permits_follow_runs:
  "let r = run_ticks (traced ex) rd ticks (restored e s handles) in
   permits (dom handles) (log_of r) = Some (dom (rn_running r) \<union> dom (rn_spawned r))
   \<and> dom (rn_running r) \<inter> dom (rn_spawned r) = {} \<and> dom (rn_pending r) \<subseteq> dom (rn_running r)"
proof -
  let ?r = "run_ticks (traced ex) rd ticks (restored e s handles)"
  have right: "permits_right (dom handles) ?r" by (intro right_ticks right_restored)
  then have "permits (dom handles) (log_of ?r) = Some (dom (rn_running ?r) \<union> dom (rn_spawned ?r))"
    by (simp add: permits_right_def held_def dom_def Un_def)
  moreover have "dom (rn_running ?r) \<inter> dom (rn_spawned ?r) = {}" using permits_rightD(1) [OF right] by fastforce
  moreover have "dom (rn_pending ?r) \<subseteq> dom (rn_running ?r)" using permits_rightD(3) [OF right] by fastforce
  ultimately show ?thesis by (simp add: Let_def)
qed

section \<open>One task in a tick\<close>

text \<open>A recorder that keeps a log of the reports it was given.\<close>

definition noted :: "'s recorder \<Rightarrow> ('s \<times> (string \<times> completion) list) recorder" where
  "noted rd =
     \<lparr>rd_set_state = (\<lambda>ws i st now (s, l). case rd_set_state rd ws i st now s of (x, s') \<Rightarrow> (x, s', l)),
      rd_complete = (\<lambda>ws i c now (s, l). case rd_complete rd ws i c now s of (x, s') \<Rightarrow> (x, s', l @ [(i, c)])),
      rd_show = rd_show rd, rd_render = rd_render rd\<rparr>"

type_synonym ('e, 's) observed = "('e \<times> exec_event list, 's \<times> (string \<times> completion) list) runner"

text \<open>The reports made on a task.\<close>

definition reports :: "string \<Rightarrow> ('e, 's) observed \<Rightarrow> completion list" where
  "reports i r = map snd (filter (\<lambda>(j, c). i = j) (snd (rn_recorded r)))"

lemma report_noted:
  "report (noted rd) ws tid now c r = (out, r') \<Longrightarrow>
   \<exists>more. snd (rn_recorded r') = snd (rn_recorded r) @ map (Pair tid) (c # more)"
proof (induction "noted rd" ws tid now c r rule: report.induct)
  case (1 ws tid now c r)
  obtain s l where sl: "rn_recorded r = (s, l)" by fastforce
  obtain res s1 where call: "rd_complete rd ws tid c now s = (res, s1)" by fastforce
  then have noted: "rd_complete (noted rd) ws tid c now (rn_recorded r) = (res, s1, l @ [(tid, c)])"
    by (simp add: noted_def sl)
  show ?case
  proof (cases res)
    case (Inr u)
    with 1(2) noted sl show ?thesis by (subst (asm) report.simps) auto
  next
    case (Inl e)
    show ?thesis
    proof (cases "shrink_too_large_completion (noted rd) e c")
      case None
      then have "unrecorded tid c e (r\<lparr>rn_recorded := (s1, l @ [(tid, c)])\<rparr>) = (out, r')"
        using 1(2) noted Inl by (subst (asm) report.simps) simp
      then have "snd (rn_recorded r') = l @ [(tid, c)]" by (auto simp: unrecorded_def split: if_splits)
      then show ?thesis using sl by (auto intro: exI [of _ "[]"])
    next
      case (Some c')
      then have again: "report (noted rd) ws tid now c' (r\<lparr>rn_recorded := (s1, l @ [(tid, c)])\<rparr>) = (out, r')"
        using 1(2) noted Inl by (subst (asm) report.simps) simp
      from 1(1) [OF noted [symmetric] Inl Some this] obtain more
        where "snd (rn_recorded r') = (l @ [(tid, c)]) @ map (Pair tid) (c' # more)" by auto
      then show ?thesis using sl by (auto intro: exI [of _ "c' # more"])
    qed
  qed
qed

text \<open>What the executor was asked about a task.\<close>

fun about :: "string \<Rightarrow> exec_event \<Rightarrow> bool" where
  "about i (Began j) \<longleftrightarrow> i = j"
| "about i (PutOff j) \<longleftrightarrow> i = j"
| "about i (Polled j) \<longleftrightarrow> i = j"
| "about i (Postprocessing j run) \<longleftrightarrow> i = j"
| "about i (Freed j) \<longleftrightarrow> i = j"

definition calls :: "string \<Rightarrow> ('e \<times> exec_event list, 's) runner \<Rightarrow> exec_event list" where
  "calls i r = filter (about i) (log_of r)"

text \<open>What a step for another task leaves alone.\<close>

definition same_for :: "string \<Rightarrow> ('e, 's) observed \<Rightarrow> ('e, 's) observed \<Rightarrow> bool" where
  "same_for i r r' \<longleftrightarrow> rn_running r' i = rn_running r i \<and> rn_pending r' i = rn_pending r i
     \<and> rn_spawned r' i = rn_spawned r i \<and> calls i r' = calls i r
     \<and> reports i r' = reports i r"

lemma same_for_refl [simp]: "same_for i r r"
  by (simp add: same_for_def)

lemma same_for_trans: "same_for i r r' \<Longrightarrow> same_for i r' r'' \<Longrightarrow> same_for i r r''"
  by (simp add: same_for_def)

lemma release_other: "i \<noteq> j \<Longrightarrow> calls i (release_permit (traced ex) j r) = calls i r"
  by (cases "rn_executor r") (simp add: calls_def log_of_def release_permit_def traced_def)

lemma release_fields [simp]:
  "rn_running (release_permit ex j r) = rn_running r" "rn_pending (release_permit ex j r) = rn_pending r"
  "rn_spawned (release_permit ex j r) = rn_spawned r"
  by (simp_all add: release_permit_def)

lemma reports_updates [simp]:
  "reports i (r\<lparr>rn_running := a\<rparr>) = reports i r" "reports i (r\<lparr>rn_pending := b\<rparr>) = reports i r"
  "reports i (r\<lparr>rn_spawned := c\<rparr>) = reports i r" "reports i (r\<lparr>rn_executor := d\<rparr>) = reports i r"
  "reports i (release_permit ex j r) = reports i r"
  by (simp_all add: reports_def release_permit_def)

lemma set_state_noted:
  "rd_set_state (noted rd) ws i st now (rn_recorded r) = (x, s) \<Longrightarrow> reports j (r'\<lparr>rn_recorded := s\<rparr>) = reports j r"
  by (cases "rn_recorded r") (auto simp: noted_def reports_def split: prod.splits)

lemma calls_updates [simp]:
  "calls i (r\<lparr>rn_running := a\<rparr>) = calls i r" "calls i (r\<lparr>rn_pending := b\<rparr>) = calls i r"
  "calls i (r\<lparr>rn_spawned := c\<rparr>) = calls i r" "calls i (r\<lparr>rn_recorded := d\<rparr>) = calls i r"
  by (simp_all add: calls_def log_of_def)

lemma report_other:
  assumes "report (noted rd) ws tid now c r = (out, r')" "i \<noteq> tid"
  shows "same_for i r r'"
proof -
  have "reports i r' = reports i r"
    using report_noted [OF assms(1)] assms(2) by (auto simp: reports_def filter_empty_conv)
  then show ?thesis using report_frame [OF assms(1)] assms(2) by (simp add: same_for_def calls_def log_of_def)
qed

lemma report_own:
  assumes "report (noted rd) ws tid now c r = (out, r')"
  shows "\<exists>more. reports tid r' = reports tid r @ c # more"
proof -
  obtain more where "snd (rn_recorded r') = snd (rn_recorded r) @ map (Pair tid) (c # more)"
    using report_noted [OF assms] by blast
  moreover have "filter (\<lambda>(j, c). tid = j) (map (Pair tid) cs) = map (Pair tid) cs" for cs :: "completion list"
    by (simp add: filter_id_conv)
  ultimately have "reports tid r' = reports tid r @ c # more" by (simp add: reports_def comp_def)
  then show ?thesis ..
qed

lemma start_other: "i \<noteq> t_id t \<Longrightarrow> same_for i r (start_postprocess (traced ex) t run r)"
  by (cases "rn_executor r")
    (auto simp: same_for_def start_postprocess_def calls_def log_of_def traced_def split: option.split prod.split)

lemma ended_other:
  assumes "i \<noteq> t_id t"
  shows "same_for i r (take_in_ended (traced ex) (noted rd) ws now t r)"
proof -
  obtain kept r1 where r1: "(case rn_pending r (t_id t) of
                            None \<Rightarrow> (False, r)
                          | Some c \<Rightarrow> (case report (noted rd) ws (t_id t) now c r of (outcome, r1) \<Rightarrow> (outcome = Kept, r1))) = (kept, r1)"
    by fastforce
  then have "same_for i r r1"
    using report_other [of rd ws "t_id t" now _ r _ _ i] assms by (auto split: option.splits prod.splits)
  then show ?thesis
    using r1 assms by (auto simp: take_in_ended_def Let_def same_for_def release_other)
qed

lemma resumed_other: "i \<noteq> t_id t \<Longrightarrow> same_for i r (resume_spawned_task (traced ex) (noted rd) ws now t r)"
  by (auto simp: resume_spawned_task_def Let_def same_for_def release_other set_state_noted
      split: option.split prod.split sum.split)

lemma next_report_other:
  "i \<noteq> t_id t \<Longrightarrow> next_report (traced ex) now t h r = (c, r') \<Longrightarrow> same_for i r r'"
  using start_other [of i t r ex]
  by (cases "rn_executor r")
    (auto simp: next_report_def Let_def same_for_def calls_def log_of_def traced_def
      split: option.splits dispatch_handle.splits prod.splits if_splits)

lemma settled_other: "i \<noteq> t_id t \<Longrightarrow> same_for i r (settle_report (traced ex) now t out r)"
  using start_other [of i t r ex]
  by (auto simp: settle_report_def Let_def same_for_def release_other
      split: option.split dispatch_handle.split reported.split)

lemma polled_other:
  assumes "i \<noteq> t_id t"
  shows "same_for i r (poll_running (traced ex) (noted rd) ws now t r)"
proof (cases "t_state t = Running \<and> rn_running r (t_id t) \<noteq> None")
  case True
  then obtain h0 where h0: "rn_running r (t_id t) = Some h0" by blast
  let ?r = "r\<lparr>rn_running := (rn_running r)(t_id t \<mapsto> watched_handle t h0 r)\<rparr>"
  obtain c r1 where next_eq: "next_report (traced ex) now t (watched_handle t h0 r) ?r = (c, r1)" by fastforce
  have "same_for i r ?r" using assms by (simp add: same_for_def)
  from same_for_trans [OF this next_report_other [OF assms next_eq]] have first: "same_for i r r1" .
  show ?thesis
  proof (cases c)
    case None
    with first True h0 next_eq show ?thesis by (simp add: poll_running_def Let_def)
  next
    case (Some c')
    obtain out r2 where rep: "report (noted rd) ws (t_id t) now c' r1 = (out, r2)" by fastforce
    from Some True h0 next_eq rep
    have "poll_running (traced ex) (noted rd) ws now t r = settle_report (traced ex) now t out r2"
      by (simp add: poll_running_def Let_def)
    with same_for_trans [OF first same_for_trans [OF report_other [OF rep assms] settled_other [OF assms]]]
    show ?thesis by simp
  qed
qed (auto simp: poll_running_def)

lemma dispatched_other: "i \<noteq> t_id t \<Longrightarrow> same_for i r (dispatch_ready (traced ex) (noted rd) ws now t r)"
  by (cases "rn_executor r")
    (auto simp: dispatch_ready_def Let_def same_for_def calls_def log_of_def traced_def set_state_noted
      split: option.split prod.split sum.split dispatch_outcome.split)

text \<open>In a pass over a snapshot a task changes in its own step only.\<close>

lemma fold_others: "(\<And>t r. i \<noteq> t_id t \<Longrightarrow> same_for i r (f t r)) \<Longrightarrow> i \<notin> t_id ` set ts \<Longrightarrow> same_for i r (fold f ts r)"
  by (induction ts arbitrary: r) (auto intro: same_for_trans)

lemma fold_own:
  assumes "\<And>t r. i \<noteq> t_id t \<Longrightarrow> same_for i r (f t r)" "distinct (map t_id ts)" "t \<in> set ts" "t_id t = i"
  obtains r1 where "same_for i r r1" "same_for i (f t r1) (fold f ts r)"
proof -
  from split_list [OF assms(3)] obtain xs ys where ts: "ts = xs @ t # ys" by blast
  with assms(2,4) have out: "i \<notin> t_id ` set xs" "i \<notin> t_id ` set ys" by auto
  show thesis
    by (rule that [of "fold f xs r"]) (use fold_others [OF assms(1)] out in \<open>auto simp: ts\<close>)
qed

text \<open>The four steps of a tick for one task of the snapshot.\<close>

lemma tick_own:
  assumes "distinct (map t_id tasks)" "t \<in> set tasks"
  obtains r1 r2 r3 r4 where "same_for (t_id t) r r1"
    "same_for (t_id t) (take_in_ended (traced ex) (noted rd) ws now t r1) r2"
    "same_for (t_id t) (resume_spawned_task (traced ex) (noted rd) ws now t r2) r3"
    "same_for (t_id t) (poll_running (traced ex) (noted rd) ws now t r3) r4"
    "same_for (t_id t) (dispatch_ready (traced ex) (noted rd) ws now t r4) (tick (traced ex) (noted rd) ws now tasks r)"
proof -
  let ?r0 = "r\<lparr>rn_executor := ex_maintain (traced ex) (rn_executor r)\<rparr>"
  have start: "same_for (t_id t) r ?r0"
    by (cases "rn_executor r") (simp add: same_for_def calls_def log_of_def traced_def)
  note own = fold_own [OF _ assms refl]
  obtain a where a: "same_for (t_id t) ?r0 a"
    "same_for (t_id t) (take_in_ended (traced ex) (noted rd) ws now t a) (fold (take_in_ended (traced ex) (noted rd) ws now) tasks ?r0)"
    by (rule own [OF ended_other])
  obtain b where b: "same_for (t_id t) (fold (take_in_ended (traced ex) (noted rd) ws now) tasks ?r0) b"
    "same_for (t_id t) (resume_spawned_task (traced ex) (noted rd) ws now t b)
       (fold (resume_spawned_task (traced ex) (noted rd) ws now) tasks (fold (take_in_ended (traced ex) (noted rd) ws now) tasks ?r0))"
    by (rule own [OF resumed_other])
  obtain c where c: "same_for (t_id t)
       (fold (resume_spawned_task (traced ex) (noted rd) ws now) tasks (fold (take_in_ended (traced ex) (noted rd) ws now) tasks ?r0)) c"
    "same_for (t_id t) (poll_running (traced ex) (noted rd) ws now t c)
       (fold (poll_running (traced ex) (noted rd) ws now) tasks
         (fold (resume_spawned_task (traced ex) (noted rd) ws now) tasks (fold (take_in_ended (traced ex) (noted rd) ws now) tasks ?r0)))"
    by (rule own [OF polled_other])
  obtain d where d: "same_for (t_id t)
       (fold (poll_running (traced ex) (noted rd) ws now) tasks
         (fold (resume_spawned_task (traced ex) (noted rd) ws now) tasks (fold (take_in_ended (traced ex) (noted rd) ws now) tasks ?r0))) d"
    "same_for (t_id t) (dispatch_ready (traced ex) (noted rd) ws now t d) (tick (traced ex) (noted rd) ws now tasks r)"
    unfolding tick_def Let_def by (rule own [OF dispatched_other])
  show thesis
    by (rule that [OF same_for_trans [OF start a(1)] same_for_trans [OF a(2) b(1)] same_for_trans [OF b(2) c(1)]
          same_for_trans [OF c(2) d(1)] d(2)])
qed

section \<open>What a tick settles\<close>

lemma ended_settled:
  assumes "is_terminal (t_state t)" "rn_pending (take_in_ended ex rd ws now t r) (t_id t) = None"
  shows "t_id t \<notin> held (take_in_ended ex rd ws now t r)"
proof -
  obtain kept r1 where r1: "(case rn_pending r (t_id t) of
                            None \<Rightarrow> (False, r)
                          | Some c \<Rightarrow> (case report rd ws (t_id t) now c r of (outcome, r1) \<Rightarrow> (outcome = Kept, r1))) = (kept, r1)"
    by fastforce
  then have "kept \<longleftrightarrow> rn_pending r1 (t_id t) \<noteq> None"
    using report_frame [of rd ws "t_id t" now _ r] by (auto split: option.splits prod.splits)
  with assms r1 show ?thesis by (auto simp: take_in_ended_def Let_def held_def split: if_splits)
qed

lemma held_cong: "same_for i r r' \<Longrightarrow> i \<in> held r' \<longleftrightarrow> i \<in> held r"
  by (simp add: same_for_def held_def)

lemma terminal_idle:
  assumes "is_terminal (t_state t)" "rn_spawned r (t_id t) = None"
  shows "resume_spawned_task ex rd ws now t r = r" "poll_running ex rd ws now t r = r" "dispatch_ready ex rd ws now t r = r"
  using assms by (auto simp: resume_spawned_task_def poll_running_def dispatch_ready_def)

lemma terminal_pending:
  assumes "is_terminal (t_state t)"
  shows "rn_pending (resume_spawned_task ex rd ws now t r) = rn_pending r" "poll_running ex rd ws now t r = r"
    "dispatch_ready ex rd ws now t r = r"
  using assms
  by (auto simp: resume_spawned_task_def poll_running_def dispatch_ready_def Let_def split: option.split prod.split sum.split)

text \<open>The calls on a task only grow.\<close>

definition grows :: "string \<Rightarrow> ('e, 's) observed \<Rightarrow> ('e, 's) observed \<Rightarrow> bool" where
  "grows i r r' \<longleftrightarrow> (\<exists>evs. calls i r' = calls i r @ evs)"

lemma grows_trans: "grows i r r' \<Longrightarrow> grows i r' r'' \<Longrightarrow> grows i r r''"
  by (auto simp: grows_def)

lemma grows_same: "calls i r' = calls i r \<Longrightarrow> grows i r r'"
  by (simp add: grows_def)

lemma grows_updates [simp]:
  "grows i r (r'\<lparr>rn_running := a\<rparr>) = grows i r r'" "grows i r (r'\<lparr>rn_pending := b\<rparr>) = grows i r r'"
  "grows i r (r'\<lparr>rn_spawned := c\<rparr>) = grows i r r'" "grows i r (r'\<lparr>rn_recorded := d\<rparr>) = grows i r r'" "grows i r r"
  by (simp_all add: grows_def)

lemma grows_call:
  "grows i r r' \<Longrightarrow> grows i r (release_permit (traced ex) j r')"
  "grows i r r' \<Longrightarrow> grows i r (start_postprocess (traced ex) t run r')"
  by (cases "rn_executor r'"; auto simp: grows_def release_permit_def start_postprocess_def traced_def calls_def log_of_def
      split: option.split prod.split)+

lemma grows_report: "report rd' ws tid now c r = (out, r') \<Longrightarrow> grows i r r'"
  using report_frame by (intro grows_same) (fastforce simp: calls_def log_of_def)

lemma ended_grows: "grows i r (take_in_ended (traced ex) rd' ws now t r)"
proof -
  obtain kept r1 where r1: "(case rn_pending r (t_id t) of
                            None \<Rightarrow> (False, r)
                          | Some c \<Rightarrow> (case report rd' ws (t_id t) now c r of (outcome, r1) \<Rightarrow> (outcome = Kept, r1))) = (kept, r1)"
    by fastforce
  then have "grows i r r1" using grows_report by (auto split: option.splits prod.splits)
  with r1 show ?thesis by (auto simp: take_in_ended_def Let_def intro: grows_call)
qed

lemma resumed_grows: "grows i r (resume_spawned_task (traced ex) rd' ws now t r)"
  by (auto simp: resume_spawned_task_def Let_def intro: grows_call split: option.split prod.split sum.split)

lemma next_report_grows: "next_report (traced ex) now t h r = (c, r') \<Longrightarrow> grows i r r'"
  using grows_call(2) [of i r r]
  by (cases "rn_executor r")
    (auto simp: next_report_def Let_def grows_def calls_def log_of_def traced_def
      split: option.splits dispatch_handle.splits prod.splits if_splits)

lemma settled_grows: "grows i r (settle_report (traced ex) now t out r)"
  by (auto simp: settle_report_def Let_def intro: grows_call split: option.split dispatch_handle.split reported.split)

lemma polled_grows: "grows i r (poll_running (traced ex) rd' ws now t r)"
proof (cases "t_state t = Running \<and> rn_running r (t_id t) \<noteq> None")
  case True
  then obtain h0 where h0: "rn_running r (t_id t) = Some h0" by blast
  let ?r = "r\<lparr>rn_running := (rn_running r)(t_id t \<mapsto> watched_handle t h0 r)\<rparr>"
  obtain c r1 where next_eq: "next_report (traced ex) now t (watched_handle t h0 r) ?r = (c, r1)" by fastforce
  have "grows i r ?r" by simp
  note one = grows_trans [OF this next_report_grows [OF next_eq]]
  show ?thesis
  proof (cases c)
    case None
    with one True h0 next_eq show ?thesis by (simp add: poll_running_def Let_def)
  next
    case (Some c')
    obtain out r2 where rep: "report rd' ws (t_id t) now c' r1 = (out, r2)" by fastforce
    from grows_trans [OF one grows_trans [OF grows_report [OF rep] settled_grows]] True h0 next_eq Some rep
    show ?thesis by (simp add: poll_running_def Let_def)
  qed
qed (auto simp: poll_running_def)

lemma put_off:
  assumes "t_state t = Ready" "t_id t \<notin> held (dispatch_ready (traced ex) rd' ws now t r)"
  shows "calls (t_id t) (dispatch_ready (traced ex) rd' ws now t r) = calls (t_id t) r @ [PutOff (t_id t)]"
proof -
  obtain e l where el: "rn_executor r = (e, l)" by fastforce
  obtain out e' where out: "ex_dispatch ex t e = (out, e')" by fastforce
  have "t_id t \<notin> held r" using assms(2) by (cases "t_id t \<in> held r") (auto simp: dispatch_ready_def held_def)
  then show ?thesis
    using assms el out
    by (cases out)
      (auto simp: dispatch_ready_def held_def traced_def Let_def calls_def log_of_def split: prod.splits sum.splits)
qed

text \<open>C8. After a tick over a snapshot, no task that ended in it holds a permit, unless its report still has to
  be recorded, and every ready task in it holds one, unless the executor was asked to start it in this
  very tick and put it off: no permit is left behind, and no ready task is passed over, however often it
  was put off before.\<close>

theorem tick_settles_snapshot:
  assumes "distinct (map t_id tasks)" "t \<in> set tasks"
  shows "let r' = tick (traced ex) (noted rd) ws now tasks r in
    (is_terminal (t_state t) \<longrightarrow> t_id t \<in> dom (rn_pending r') \<or> t_id t \<notin> held r')
    \<and> (t_state t = Ready \<longrightarrow> t_id t \<in> held r' \<or>
        (\<exists>evs. calls (t_id t) r' = calls (t_id t) r @ evs @ [PutOff (t_id t)]))"
proof -
  let ?r' = "tick (traced ex) (noted rd) ws now tasks r"
  obtain r1 r2 r3 r4 where steps: "same_for (t_id t) r r1"
    "same_for (t_id t) (take_in_ended (traced ex) (noted rd) ws now t r1) r2"
    "same_for (t_id t) (resume_spawned_task (traced ex) (noted rd) ws now t r2) r3"
    "same_for (t_id t) (poll_running (traced ex) (noted rd) ws now t r3) r4"
    "same_for (t_id t) (dispatch_ready (traced ex) (noted rd) ws now t r4) ?r'"
    by (rule tick_own [OF assms])
  have "t_id t \<notin> held ?r'" if ended: "is_terminal (t_state t)" and none: "rn_pending ?r' (t_id t) = None"
  proof -
    have "rn_pending r2 (t_id t) = rn_pending ?r' (t_id t)"
      using steps by (simp add: same_for_def terminal_pending [OF ended])
    with none steps(2) have "rn_pending (take_in_ended (traced ex) (noted rd) ws now t r1) (t_id t) = None"
      by (simp add: same_for_def)
    then have out: "t_id t \<notin> held r2"
      using ended_settled [OF ended] held_cong [OF steps(2)] by simp
    then have free: "rn_spawned r2 (t_id t) = None" by (simp add: held_def)
    have "t_id t \<notin> held r3" using out held_cong [OF steps(3)] by (simp add: terminal_idle [OF ended free])
    then show ?thesis using held_cong [OF steps(4)] held_cong [OF steps(5)] by (simp add: terminal_pending [OF ended])
  qed
  moreover have "\<exists>evs. calls (t_id t) ?r' = calls (t_id t) r @ evs @ [PutOff (t_id t)]"
    if ready: "t_state t = Ready" "t_id t \<notin> held ?r'"
  proof -
    have same: "same_for (t_id t) a b \<Longrightarrow> grows (t_id t) a b" for a b :: "('a, 'b) observed"
      by (simp add: grows_def same_for_def)
    have "grows (t_id t) r r4"
      using same [OF steps(1)] grows_trans [OF ended_grows same [OF steps(2)]]
        grows_trans [OF resumed_grows same [OF steps(3)]] grows_trans [OF polled_grows same [OF steps(4)]] grows_trans by blast
    moreover have "calls (t_id t) ?r' = calls (t_id t) r4 @ [PutOff (t_id t)]"
      using put_off [OF ready(1)] ready(2) held_cong [OF steps(5)] steps(5) by (simp add: same_for_def)
    ultimately show ?thesis by (auto simp: grows_def)
  qed
  ultimately show ?thesis by (auto simp: Let_def)
qed

section \<open>A report that could not be recorded\<close>

lemma unpolled_start: "\<exists>evs. calls i (start_postprocess (traced ex) t run r) = calls i r @ evs \<and> Polled i \<notin> set evs"
  by (cases "rn_executor r")
    (auto simp: start_postprocess_def calls_def log_of_def traced_def split: option.split prod.split)

lemma unpolled_release: "\<exists>evs. calls i (release_permit (traced ex) j r) = calls i r @ evs \<and> Polled i \<notin> set evs"
  by (cases "rn_executor r") (auto simp: release_permit_def calls_def log_of_def traced_def)

lemma unpolled_settle: "\<exists>evs. calls i (settle_report (traced ex) now t out r) = calls i r @ evs \<and> Polled i \<notin> set evs"
  using unpolled_start [of i ex t _ r] unpolled_release [of i ex "t_id t" "r\<lparr>rn_running := (rn_running r)(t_id t := None)\<rparr>"]
  by (auto simp: settle_report_def Let_def split: reported.split option.split dispatch_handle.split)

lemma offered_again:
  assumes "t_state t = Running" "rn_pending r (t_id t) = Some c" "rn_running r (t_id t) \<noteq> None"
  shows "poll_running ex rd ws now t r =
    (case report rd ws (t_id t) now c r of (outcome, r2) \<Rightarrow> settle_report ex now t outcome r2)"
proof -
  obtain h where h: "rn_running r (t_id t) = Some h" using assms(3) by blast
  have "watched_handle t h r = h" using assms(2) by (simp add: watched_handle_def split: option.split)
  moreover have "r\<lparr>rn_running := (rn_running r)(t_id t \<mapsto> h)\<rparr> = r" using h by (simp add: fun_upd_idem)
  moreover have "next_report ex now t h r = (Some c, r)" using assms(2) by (simp add: next_report_def)
  ultimately show ?thesis using assms(1) h by (simp add: poll_running_def Let_def)
qed

lemma settled_reports: "reports i (settle_report ex now t out r) = reports i r"
  by (auto simp: settle_report_def Let_def start_postprocess_def reports_def release_permit_def
      split: reported.split option.split dispatch_handle.split prod.split)

text \<open>C9. When the outcome of a running task is known but could not be recorded, the task is not polled in
  the next tick: the recorder is given the same report again, as the first report on the task in the
  tick, and as long as the recording fails for a passing reason that is all that is reported, and the
  report, the handle and the permit are kept as they are.\<close>

theorem known_outcome_kept:
  assumes "permits_right H r" "distinct (map t_id tasks)" "t \<in> set tasks" "t_state t = Running"
    and "rn_pending r (t_id t) = Some c"
  shows "let r' = tick (traced ex) (noted rd) ws now tasks r in
    (\<exists>evs. calls (t_id t) r' = calls (t_id t) r @ evs \<and> Polled (t_id t) \<notin> set evs)
    \<and> (\<exists>more. reports (t_id t) r' = reports (t_id t) r @ c # more)
    \<and> ((\<forall>s. \<exists>e. fst (rd_complete rd ws (t_id t) c now s) = Inl e \<and> completion_retryable e \<and> \<not> is_value_too_large e) \<longrightarrow>
        rn_pending r' (t_id t) = Some c \<and> rn_running r' (t_id t) = rn_running r (t_id t)
        \<and> calls (t_id t) r' = calls (t_id t) r \<and> reports (t_id t) r' = reports (t_id t) r @ [c])"
proof -
  let ?i = "t_id t" and ?r' = "tick (traced ex) (noted rd) ws now tasks r"
  obtain r1 r2 r3 r4 where steps: "same_for ?i r r1" "same_for ?i (take_in_ended (traced ex) (noted rd) ws now t r1) r2"
    "same_for ?i (resume_spawned_task (traced ex) (noted rd) ws now t r2) r3"
    "same_for ?i (poll_running (traced ex) (noted rd) ws now t r3) r4"
    "same_for ?i (dispatch_ready (traced ex) (noted rd) ws now t r4) ?r'"
    by (rule tick_own [OF assms(2,3)])
  have "rn_running r ?i \<noteq> None" using permits_rightD(3) [OF assms(1), of ?i] assms(5) by auto
  then have watched: "rn_running r ?i \<noteq> None" "rn_spawned r ?i = None" using permits_rightD(1) [OF assms(1)] by auto
  have idle: "take_in_ended (traced ex) (noted rd) ws now t r1 = r1" "dispatch_ready (traced ex) (noted rd) ws now t r4 = r4"
    using assms(4) by (simp_all add: take_in_ended_def dispatch_ready_def)
  with steps(1,2) have r2: "same_for ?i r r2" using same_for_trans by fastforce
  then have "resume_spawned_task (traced ex) (noted rd) ws now t r2 = r2"
    using watched by (simp add: same_for_def resume_spawned_task_def)
  with steps(3) r2 have r3: "same_for ?i r r3" using same_for_trans by fastforce
  then have "rn_pending r3 ?i = Some c" "rn_running r3 ?i \<noteq> None" using watched assms(5) by (simp_all add: same_for_def)
  note again = offered_again [OF assms(4) this, of "traced ex" "noted rd" ws now]
  obtain out r5 where rep: "report (noted rd) ws ?i now c r3 = (out, r5)" by fastforce
  note f = report_frame [OF rep]
  have last: "same_for ?i (settle_report (traced ex) now t out r5) ?r'"
    using again rep same_for_trans [OF steps(4)] steps(5) idle(2) by simp
  have calls: "calls ?i r5 = calls ?i r" using f r3 by (simp add: same_for_def calls_def log_of_def)
  have made: "reports ?i ?r' = reports ?i r5"
    using last settled_reports [of ?i "traced ex" now t out r5] by (simp add: same_for_def)
  have "\<exists>evs. calls ?i ?r' = calls ?i r @ evs \<and> Polled ?i \<notin> set evs"
    using unpolled_settle [of ?i ex now t out r5] last calls by (simp add: same_for_def)
  moreover have "\<exists>more. reports ?i ?r' = reports ?i r @ c # more"
    using report_own [OF rep] made r3 by (simp add: same_for_def)
  moreover have "rn_pending ?r' ?i = Some c \<and> rn_running ?r' ?i = rn_running r ?i \<and> calls ?i ?r' = calls ?i r
      \<and> reports ?i ?r' = reports ?i r @ [c]"
    if fails: "\<forall>s. \<exists>e. fst (rd_complete rd ws ?i c now s) = Inl e \<and> completion_retryable e \<and> \<not> is_value_too_large e"
  proof -
    obtain s0 l where sl: "rn_recorded r3 = (s0, l)" by fastforce
    obtain e s where call: "rd_complete rd ws ?i c now s0 = (Inl e, s)" "completion_retryable e"
      "\<not> is_value_too_large e" using fails [rule_format, of s0] by (metis prod.collapse)
    then have "report (noted rd) ws ?i now c r3 = unrecorded ?i c e (r3\<lparr>rn_recorded := (s, l @ [(?i, c)])\<rparr>)"
      by (subst report.simps) (simp add: shrink_too_large_completion_def noted_def sl)
    with rep call(2) sl have "out = Kept" "rn_pending r5 ?i = Some c" "reports ?i r5 = reports ?i r3 @ [c]"
      by (auto simp: unrecorded_def reports_def)
    then show ?thesis using last f r3 calls made by (simp add: settle_report_def same_for_def)
  qed
  ultimately show ?thesis by (simp add: Let_def)
qed

end
