(* ===== verification/Runner_Store.thy ===== *)
theory Runner_Store
  imports Runner_Laws Task_Lifecycle Task_Termination
begin

text \<open>
  The loop over the task store: states and completion reports are recorded by the store's own operations,
  which is what the host passes in, without its queue to the thread of the store and the notices it
  sends on. A call that does not return would have no answer; in a store in order there is no such
  call.
\<close>

definition answer :: "halted + 'a \<Rightarrow> agent_error + unit" where
  "answer r = (case r of Inr _ \<Rightarrow> Inr () | Inl (Failing e) \<Rightarrow> Inl e | Inl Endless \<Rightarrow> Inl SerdeErr)"

definition store_recorder :: "task_env \<Rightarrow> (agent_error \<Rightarrow> string) \<Rightarrow> task_store recorder" where
  "store_recorder env say =
     \<lparr>rd_set_state = (\<lambda>ws i st now s. case set_state env ws i st now s of (r, s') \<Rightarrow> (answer r, s')),
      rd_complete = (\<lambda>ws i c now s. case complete env ws i c now s of (r, s') \<Rightarrow> (answer r, s')),
      rd_show = say, rd_render = ev_render env\<rparr>"

section \<open>What the loop records\<close>

text \<open>The commands of a tick: the start of a task of the snapshot, and a report on one.\<close>

fun loop_command :: "u32 \<Rightarrow> u64 \<Rightarrow> task list \<Rightarrow> store_command \<Rightarrow> bool" where
  "loop_command ws now tasks (DoSetState w i st n) \<longleftrightarrow>
     w = ws \<and> n = now \<and> st = Running \<and> (\<exists>t \<in> set tasks. t_id t = i \<and> t_state t = Ready)"
| "loop_command ws now tasks (DoComplete w i c n) \<longleftrightarrow>
     w = ws \<and> n = now \<and> (\<exists>t \<in> set tasks. t_id t = i \<and> (t_state t = Running \<or> is_terminal (t_state t)))"
| "loop_command ws now tasks _ \<longleftrightarrow> False"

definition recorded_by :: "task_env \<Rightarrow> (store_command \<Rightarrow> bool) \<Rightarrow> ('e, task_store) runner \<Rightarrow> ('e, task_store) runner \<Rightarrow> bool" where
  "recorded_by env ok r r' \<longleftrightarrow> (\<exists>cs. list_all ok cs \<and> rn_recorded r' = exec_all env cs (rn_recorded r))"

lemma exec_all_append: "exec_all env (a @ b) s = exec_all env b (exec_all env a s)"
  by (induction a arbitrary: s) auto

lemma recorded_same: "rn_recorded r' = rn_recorded r \<Longrightarrow> recorded_by env ok r r'"
  unfolding recorded_by_def by (rule exI [of _ "[]"]) simp

lemma recorded_trans [trans]: "recorded_by env ok r r' \<Longrightarrow> recorded_by env ok r' r'' \<Longrightarrow> recorded_by env ok r r''"
  unfolding recorded_by_def using exec_all_append by (metis list_all_append)

lemma recorded_then: "recorded_by env ok r r' \<Longrightarrow> rn_recorded r'' = rn_recorded r' \<Longrightarrow> recorded_by env ok r r''"
  by (simp add: recorded_by_def)

lemma recorded_one: "ok c \<Longrightarrow> rn_recorded r' = exec_command env c (rn_recorded r) \<Longrightarrow> recorded_by env ok r r'"
  unfolding recorded_by_def by (rule exI [of _ "[c]"]) simp

lemma recorded_fold:
  "(\<And>t r. t \<in> set ts \<Longrightarrow> recorded_by env ok r (f t r)) \<Longrightarrow> recorded_by env ok r (fold f ts r)"
proof (induction ts arbitrary: r)
  case (Cons t ts)
  have "recorded_by env ok r (f t r)" "recorded_by env ok (f t r) (fold f ts (f t r))" using Cons by simp_all
  then show ?case using recorded_trans by simp
qed (simp add: recorded_same)

lemma recorded_report:
  "report rd ws tid now c r = (out, r') \<Longrightarrow> rd = store_recorder env say \<Longrightarrow>
     (\<And>c. ok (DoComplete ws tid c now)) \<Longrightarrow> recorded_by env ok r r'"
proof (induction rd ws tid now c r rule: report.induct)
  case (1 rd ws tid now c r)
  obtain res s where run: "complete env ws tid c now (rn_recorded r) = (res, s)" by fastforce
  then have call: "rd_complete rd ws tid c now (rn_recorded r) = (answer res, s)" by (simp add: 1(3) store_recorder_def)
  have first: "recorded_by env ok r (r\<lparr>rn_recorded := s\<rparr>)"
    by (rule recorded_one [of ok "DoComplete ws tid c now"]) (simp_all add: run 1(4))
  show ?case
  proof (cases "answer res")
    case (Inr u)
    with 1(2) call first show ?thesis by (subst (asm) report.simps) (auto intro: recorded_then)
  next
    case (Inl e)
    show ?thesis
    proof (cases "shrink_too_large_completion rd e c")
      case None
      then have "unrecorded tid c e (r\<lparr>rn_recorded := s\<rparr>) = (out, r')"
        using 1(2) call Inl by (subst (asm) report.simps) simp
      from unrecorded_frame [OF this] first show ?thesis by (auto intro: recorded_then)
    next
      case (Some c')
      then have "report rd ws tid now c' (r\<lparr>rn_recorded := s\<rparr>) = (out, r')"
        using 1(2) call Inl by (subst (asm) report.simps) simp
      from 1(1) [OF call [symmetric] Inl Some this 1(3,4)] first show ?thesis by (rule recorded_trans [rotated])
    qed
  qed
qed

lemma recorded_fields [simp]:
  "rn_recorded (release_permit ex i r) = rn_recorded r" "rn_recorded (start_postprocess ex t run r) = rn_recorded r"
  by (auto simp: release_permit_def start_postprocess_def split: option.split prod.split)

lemma settle_recorded: "rn_recorded (settle_report ex now t out r) = rn_recorded r"
  by (auto simp: settle_report_def Let_def split: reported.split option.split dispatch_handle.split)

lemma next_report_recorded: "next_report ex now t h r = (c, r') \<Longrightarrow> rn_recorded r' = rn_recorded r"
  by (auto simp: next_report_def Let_def split: option.splits dispatch_handle.splits prod.splits if_splits)

lemma set_state_recorded:
  assumes "rd_set_state (store_recorder env say) ws i st now s = (res, s')"
  shows "s' = exec_command env (DoSetState ws i st now) s"
  using assms by (auto simp: store_recorder_def split: prod.splits)

lemma ended_recorded:
  assumes snapshot: "t \<in> set tasks"
  shows "recorded_by env (loop_command ws now tasks) r (take_in_ended ex (store_recorder env say) ws now t r)"
proof (cases "is_terminal (t_state t)")
  case True
  obtain kept r1 where r1: "(case rn_pending r (t_id t) of
                            None \<Rightarrow> (False, r)
                          | Some c \<Rightarrow> (case report (store_recorder env say) ws (t_id t) now c r of
                              (outcome, r1) \<Rightarrow> (outcome = Kept, r1))) = (kept, r1)"
    by fastforce
  have "recorded_by env (loop_command ws now tasks) r r1"
    using r1 recorded_report [of "store_recorder env say" ws "t_id t" now _ r _ r1 env say "loop_command ws now tasks"]
      True snapshot by (auto simp: recorded_same split: option.splits prod.splits)
  then show ?thesis
    by (rule recorded_then) (use True r1 in \<open>simp add: take_in_ended_def Let_def\<close>)
qed (simp add: take_in_ended_def recorded_same)

lemma resumed_recorded:
  assumes snapshot: "t \<in> set tasks"
  shows "recorded_by env (loop_command ws now tasks) r (resume_spawned_task ex (store_recorder env say) ws now t r)"
proof (cases "t_state t = Ready")
  case True
  obtain res s where set: "rd_set_state (store_recorder env say) ws (t_id t) Running now (rn_recorded r) = (res, s)" by fastforce
  have "recorded_by env (loop_command ws now tasks) r (r\<lparr>rn_recorded := s\<rparr>)"
    by (rule recorded_one [of _ "DoSetState ws (t_id t) Running now"])
      (use True snapshot set_state_recorded [OF set] in auto)
  then have "recorded_by env (loop_command ws now tasks) r r'" if "rn_recorded r' \<in> {rn_recorded r, s}" for r'
    using that recorded_then [of env _ r "r\<lparr>rn_recorded := s\<rparr>" r'] recorded_same by auto
  then show ?thesis
    by (auto simp: resume_spawned_task_def Let_def set split: option.split sum.split)
qed (auto simp: resume_spawned_task_def Let_def intro!: recorded_same split: option.split)

lemma polled_recorded:
  assumes snapshot: "t \<in> set tasks"
  shows "recorded_by env (loop_command ws now tasks) r (poll_running ex (store_recorder env say) ws now t r)"
proof (cases "t_state t = Running \<and> rn_running r (t_id t) \<noteq> None")
  case True
  then obtain h0 where h0: "rn_running r (t_id t) = Some h0" by blast
  let ?r = "r\<lparr>rn_running := (rn_running r)(t_id t \<mapsto> watched_handle t h0 r)\<rparr>"
  obtain c r1 where next_eq: "next_report ex now t (watched_handle t h0 r) ?r = (c, r1)" by fastforce
  have same: "rn_recorded r1 = rn_recorded r" using next_report_recorded [OF next_eq] by simp
  show ?thesis
  proof (cases c)
    case None
    with same True h0 next_eq show ?thesis by (simp add: poll_running_def Let_def recorded_same)
  next
    case (Some c')
    obtain out r2 where rep: "report (store_recorder env say) ws (t_id t) now c' r1 = (out, r2)" by fastforce
    have "recorded_by env (loop_command ws now tasks) r1 r2"
      by (rule recorded_report [OF rep refl]) (use True snapshot in auto)
    then have "recorded_by env (loop_command ws now tasks) r r2" using same by (simp add: recorded_by_def)
    then show ?thesis
      by (rule recorded_then) (use Some True h0 next_eq rep in \<open>simp add: poll_running_def Let_def settle_recorded\<close>)
  qed
qed (auto simp: poll_running_def recorded_same)

lemma dispatched_recorded:
  assumes snapshot: "t \<in> set tasks"
  shows "recorded_by env (loop_command ws now tasks) r (dispatch_ready ex (store_recorder env say) ws now t r)"
proof (cases "t_state t = Ready")
  case True
  obtain res s where set: "rd_set_state (store_recorder env say) ws (t_id t) Running now (rn_recorded r) = (res, s)" by fastforce
  have "recorded_by env (loop_command ws now tasks) r (r\<lparr>rn_recorded := s\<rparr>)"
    by (rule recorded_one [of _ "DoSetState ws (t_id t) Running now"])
      (use True snapshot set_state_recorded [OF set] in auto)
  then have "recorded_by env (loop_command ws now tasks) r r'" if "rn_recorded r' \<in> {rn_recorded r, s}" for r'
    using that recorded_then [of env _ r "r\<lparr>rn_recorded := s\<rparr>" r'] recorded_same by auto
  then show ?thesis
    by (auto simp: dispatch_ready_def Let_def set split: option.split sum.split prod.split dispatch_outcome.split)
qed (simp add: dispatch_ready_def recorded_same)

lemma tick_recorded:
  "recorded_by env (loop_command ws now tasks) r (tick ex (store_recorder env say) ws now tasks r)"
proof -
  let ?rd = "store_recorder env say"
  let ?r0 = "r\<lparr>rn_executor := ex_maintain ex (rn_executor r)\<rparr>"
  let ?ok = "loop_command ws now tasks"
  have "recorded_by env ?ok r ?r0" by (rule recorded_same) simp
  also have "recorded_by env ?ok ?r0 (fold (take_in_ended ex ?rd ws now) tasks ?r0)"
    by (rule recorded_fold) (rule ended_recorded)
  also have "recorded_by env ?ok \<dots> (fold (resume_spawned_task ex ?rd ws now) tasks \<dots>)"
    by (rule recorded_fold) (rule resumed_recorded)
  also have "recorded_by env ?ok \<dots> (fold (poll_running ex ?rd ws now) tasks \<dots>)"
    by (rule recorded_fold) (rule polled_recorded)
  also have "recorded_by env ?ok \<dots> (fold (dispatch_ready ex ?rd ws now) tasks \<dots>)"
    by (rule recorded_fold) (rule dispatched_recorded)
  finally show ?thesis unfolding tick_def Let_def .
qed

lemma ticks_recorded:
  "\<exists>cs. rn_recorded (run_ticks ex (store_recorder env say) (map (\<lambda>(ws, now, tasks, cs). (ws, now, tasks, exec_all env cs)) inputs) r)
     = exec_all env cs (rn_recorded r)"
proof (induction inputs arbitrary: r)
  case (Cons x inputs)
  obtain ws now tasks cs where x: "x = (ws, now, tasks, cs)" by (cases x)
  let ?r = "tick ex (store_recorder env say) ws now tasks (r\<lparr>rn_recorded := exec_all env cs (rn_recorded r)\<rparr>)"
  obtain cs1 where one: "rn_recorded ?r = exec_all env cs1 (exec_all env cs (rn_recorded r))"
    using tick_recorded [of env ws now tasks "r\<lparr>rn_recorded := exec_all env cs (rn_recorded r)\<rparr>" ex say]
    by (auto simp: recorded_by_def)
  obtain cs2 where rest: "rn_recorded (run_ticks ex (store_recorder env say)
      (map (\<lambda>(ws, now, tasks, cs). (ws, now, tasks, exec_all env cs)) inputs) ?r) = exec_all env cs2 (rn_recorded ?r)"
    using Cons.IH [of ?r] by blast
  show ?case
    by (rule exI [of _ "cs @ cs1 @ cs2"]) (use one rest in \<open>simp add: x run_ticks_def run_tick_def exec_all_append\<close>)
qed (auto simp: run_ticks_def intro: exI [of _ "[]"])

text \<open>What a tick of the loop does to the task store is a sequence of the store's operations, of
  two kinds only, at the workspace and the time of the tick: the start of a task that is ready in the
  snapshot, and a completion reported on a task that runs or has ended in it. So what is shown of any
  sequence of operations holds of the loop, whatever the executor does.\<close>

theorem tick_operates_store:
  "\<exists>cs. rn_recorded (tick ex (store_recorder env say) ws now tasks r) = exec_all env cs (rn_recorded r)
     \<and> list_all (\<lambda>c.
         (\<exists>t \<in> set tasks. t_state t = Ready \<and> c = DoSetState ws (t_id t) Running now)
         \<or> (\<exists>t \<in> set tasks. \<exists>report. (t_state t = Running \<or> is_terminal (t_state t))
              \<and> c = DoComplete ws (t_id t) report now)) cs"
proof -
  have "loop_command ws now tasks c \<Longrightarrow> (\<exists>t \<in> set tasks. t_state t = Ready \<and> c = DoSetState ws (t_id t) Running now)
      \<or> (\<exists>t \<in> set tasks. \<exists>report. (t_state t = Running \<or> is_terminal (t_state t)) \<and> c = DoComplete ws (t_id t) report now)" for c
    by (cases c) auto
  with tick_recorded [of env ws now tasks r ex say] show ?thesis
    unfolding recorded_by_def list_all_iff by metis
qed

section \<open>The loop and the store agree on post-processing\<close>

lemma ended_not_running:
  assumes "is_valid_transition Running st"
  shows "t_state (end_task env m t st dg now) \<noteq> Running"
proof -
  obtain st' t' where one: "settle_route env m (settle_typed_terminal t st) = (st', t')" by fastforce
  with settled_terminal(4) [OF one] assms show ?thesis by (cases st; cases st') (auto simp: end_task_def)
qed

lemma propagated_receipt:
  assumes "finish_receipt env ws t now d s = (Inr rc, s')"
  shows "rc_task rc = t" "rc_duplicate rc = d"
  using assms by (auto simp: finish_receipt_def ret_def elim!: bnd_InrE)

lemma complete_typed_running:
  assumes "complete env ws i cm now s = (Inr rc, s')" "task_get env (ts_mem s) ws i = Inr (Some t)"
    and "is_typed t" "t_state t = Running" "\<forall>why. cm_outcome cm \<noteq> OutLost why"
  obtains dg where "complete_running env ws t cm dg now s = (Inr rc, s')"
proof -
  have need: "need_task env ws i s = (Inr t, s)"
    using assms(2) by (simp add: need_task_def bnd_def read_mem_def ret_def map_err_def)
  have same: "\<not> (cm_attempt cm \<noteq> None \<and> cm_attempt cm \<noteq> map_option at_id (t_attempt t))"
    using assms(1,3) need by (auto simp: complete_def bnd_def Let_def fail_def split: if_splits)
  have "complete_running env ws t cm (completion_digest env (ts_mem s) cm) now s = (Inr rc, s')"
    using assms(1,3,4,5) need same
    by (cases "cm_outcome cm") (auto simp: complete_def bnd_def Let_def read_mem_def map_err_def split: if_splits)
  then show thesis by (rule that)
qed

lemma lost_completion:
  assumes "complete env ws i cm now s = (Inr rc, s')" "task_get env (ts_mem s) ws i = Inr (Some t)"
    and "is_typed t" "t_state t = Running" "cm_outcome cm = OutLost why"
  shows "t_state (rc_task rc) = Unknown (Some why)"
proof -
  have need: "need_task env ws i s = (Inr t, s)"
    using assms(2) by (simp add: need_task_def bnd_def read_mem_def ret_def map_err_def)
  show ?thesis
    using assms need
    by (auto simp: complete_def bnd_def Let_def read_mem_def map_err_def ret_def fail_def close_phase_def
        split: if_splits prod.splits sum.splits)
qed

text \<open>What the store's step for post-processing leaves.\<close>

definition agrees :: "task \<Rightarrow> dispatch_handle option \<Rightarrow> bool" where
  "agrees t h \<longleftrightarrow>
     (case h of
        None \<Rightarrow> t_state t \<noteq> Running
      | Some (PostprocessPending run not_before) \<Rightarrow> t_state t = Running \<and> scheduled t = Some (run, not_before)
      | _ \<Rightarrow> False)"

lemma step_agrees:
  assumes "postprocess_step env t cm now s = (Inr ps, s')" "t_attempt t \<noteq> None" "t_state t = Running"
    and "\<not> response_too_large (m_text (ts_mem s)) t (cm_result cm)" "\<forall>why. cm_outcome cm \<noteq> OutLost why"
  shows "(case ps of
      NotApplicable \<Rightarrow> continuation t cm now = None
    | FinalizeWith t1 \<Rightarrow> continuation t cm now = None
    | ContinueWith rc \<Rightarrow> rc_duplicate rc \<or> agrees (rc_task rc) (continuation t cm now))"
proof -
  obtain a where a: "t_attempt t = Some a" using assms(2) by blast
  have progress: "t_state (with_progress p t) = Running \<and> scheduled (with_progress p t) =
      (case pg_phase p of PhasePending run nb \<Rightarrow> Some (run, nb) | _ \<Rightarrow> None)" for p
    using assms(3) a by (simp add: with_progress_def scheduled_def)
  show ?thesis
    using assms(1,4,5) progress
    by (auto simp: postprocess_step_def keep_running_def run_report_def continuation_def agrees_def Let_def read_mem_def
        map_err_def ret_def fail_def split: option.splits if_splits prod.splits elim!: bnd_InrE)
qed

lemma ended_receipt:
  assumes "bnd (read_mem (\<lambda>m. Inr (end_task env m (f m) st dg now))) (\<lambda>t2.
      bnd (task_put env t2) (\<lambda>_. finish_receipt env ws t2 now False)) s = (Inr rc, s')" "is_valid_transition Running st"
  shows "t_state (rc_task rc) \<noteq> Running"
proof -
  from assms(1) have "rc_task rc = end_task env (ts_mem s) (f (ts_mem s)) st dg now"
    by (auto simp: read_mem_def map_err_def elim!: bnd_InrE dest: propagated_receipt(1))
  then show ?thesis using ended_not_running [OF assms(2)] by simp
qed

lemma complete_agrees:
  assumes "complete env ws i cm now s = (Inr rc, s')" "task_get env (ts_mem s) ws i = Inr (Some t)"
    and "is_typed t" "t_state t = Running" "t_attempt t \<noteq> None"
    and "\<not> response_too_large (m_text (ts_mem s)) t (cm_result cm)" "\<forall>why. cm_outcome cm \<noteq> OutLost why"
  shows "rc_duplicate rc \<or> agrees (rc_task rc) (continuation t cm now)"
proof -
  obtain dg where "complete_running env ws t cm dg now s = (Inr rc, s')"
    by (rule complete_typed_running [OF assms(1-4,7)])
  then obtain ps s1 where step: "postprocess_step env t cm now s = (Inr ps, s1)"
    and rest: "(case ps of ContinueWith r \<Rightarrow> ret r | _ \<Rightarrow>
       bnd (read_mem (\<lambda>m. Inr (end_task env m
              (case ps of FinalizeWith t1 \<Rightarrow> t1 | _ \<Rightarrow> record_result (m_text m) t (cm_result cm))
              (outcome_state (cm_outcome cm)) dg now))) (\<lambda>t2.
       bnd (task_put env t2) (\<lambda>_. finish_receipt env ws t2 now False))) s1 = (Inr rc, s')"
    unfolding complete_running_def by (elim bnd_InrE)
  note a = step_agrees [OF step assms(5,4,6,7)]
  have "is_valid_transition Running (outcome_state (cm_outcome cm))" using assms(7) by (cases "cm_outcome cm") auto
  note ended = ended_receipt [OF _ this]
  show ?thesis
  proof (cases ps)
    case NotApplicable
    from ended [OF rest [unfolded NotApplicable pp_step.case]] a NotApplicable show ?thesis by (simp add: agrees_def)
  next
    case (FinalizeWith t1)
    from ended [OF rest [unfolded FinalizeWith pp_step.case]] a FinalizeWith show ?thesis by (simp add: agrees_def)
  next
    case (ContinueWith r)
    with a rest show ?thesis by (simp add: ret_def)
  qed
qed

text \<open>C10. After the store recorded a report on a typed task that runs, and answered it as no duplicate, the
  loop goes on exactly as the store does, if the main response was not too large to be post-processed
  and the report is not one of a run of post-processing whose outcome was lost: it schedules the run
  of post-processing that the stored task has pending, at the same time, and drops the handle exactly
  when the task is not running any more, because it has ended or its outcome is unknown. Where the
  response was too large the two do diverge, as the next theorem shows.\<close>

theorem continuation_agrees:
  assumes "complete env ws i cm now s = (Inr rc, s')" "task_get env (ts_mem s) ws i = Inr (Some t)"
    and "is_typed t" "t_state t = Running" "t_attempt t \<noteq> None"
    and "\<not> response_too_large (m_text (ts_mem s)) t (cm_result cm)" "\<not> rc_duplicate rc"
    and "cm_postprocess cm = None \<or> (\<forall>why. cm_outcome cm \<noteq> OutLost why)"
  shows "agrees (rc_task rc) (continuation t cm now)"
proof (cases "cm_outcome cm")
  case (OutLost why)
  with assms(8) have "continuation t cm now = None" by (auto simp: continuation_def split: option.split)
  with lost_completion [OF assms(1-4) OutLost] show ?thesis by (simp add: agrees_def)
qed (use complete_agrees [OF assms(1-6)] assms(7) in simp_all)

text \<open>A main response that is too large to be post-processed ends the task in the store, while the loop
  still schedules the first run of post-processing for it.\<close>

theorem oversized_response_diverges:
  assumes "complete env ws i cm now s = (Inr rc, s')" "task_get env (ts_mem s) ws i = Inr (Some t)"
    and "is_typed t" "t_state t = Running" "Option.bind (t_contract t) tk_postprocess = Some spec"
    and "response_too_large (m_text (ts_mem s)) t (cm_result cm)" "cm_outcome cm = OutSucceeded"
    and "cm_postprocess cm = None" "Option.bind (t_attempt t) at_postprocess = None"
  shows "t_state (rc_task rc) \<noteq> Running \<and> continuation t cm now = Some (PostprocessPending 1 now)"
proof -
  have "\<forall>why. cm_outcome cm \<noteq> OutLost why" using assms(7) by simp
  from complete_typed_running [OF assms(1-4) this]
  obtain dg where run: "complete_running env ws t cm dg now s = (Inr rc, s')" .
  have "postprocess_step env t cm now s = (Inr NotApplicable, s)"
    using assms(5-9)
    by (auto simp: postprocess_step_def read_mem_def bnd_def map_err_def ret_def split: option.splits)
  with run have "bnd (read_mem (\<lambda>m. Inr (end_task env m (record_result (m_text m) t (cm_result cm)) Succeeded dg now))) (\<lambda>t2.
      bnd (task_put env t2) (\<lambda>_. finish_receipt env ws t2 now False)) s = (Inr rc, s')"
    using assms(7) unfolding complete_running_def by (subst (asm) bnd_def) simp
  then have "t_state (rc_task rc) \<noteq> Running" by (rule ended_receipt) simp
  then show ?thesis using assms(5,7,8) by (simp add: continuation_def)
qed

end
