(* ===== verification/Runner_Runs.thy ===== *)
theory Runner_Runs
  imports Runner_Store Task_Runs
begin

text \<open>
  The theorems on the loop at concrete executors, snapshots and stores.
\<close>

definition demo_executor :: "unit executor" where
  "demo_executor =
     \<lparr>ex_maintain = (\<lambda>e. e), ex_dispatch = (\<lambda>t e. (Started (ShellProcess 7), e)),
      ex_poll_task = (\<lambda>i h e. (Active, e)), ex_release_permit = (\<lambda>i e. e),
      ex_start_postprocess = (\<lambda>t a run e. (PostprocessProcess 8 run, e))\<rparr>"

definition failing_recorder :: "unit recorder" where
  "failing_recorder =
     \<lparr>rd_set_state = (\<lambda>ws i st now s. (Inr (), s)), rd_complete = (\<lambda>ws i c now s. (Inl (StoreNotDurable ''busy''), s)),
      rd_show = (\<lambda>e. []), rd_render = (\<lambda>m. [])\<rparr>"

definition ready_task :: task where
  "ready_task = (sample_task ''a'' [])\<lparr>t_state := Ready\<rparr>"

definition ended_task :: task where
  "ended_task = (sample_task ''b'' [])\<lparr>t_state := Cancelled\<rparr>"

definition demo_loop :: "(unit, unit) observed" where
  "demo_loop = restored () ((), []) [''b'' \<mapsto> ShellProcess 3]"

lemma snapshot_facts:
  "distinct (map t_id [ready_task, ended_task])" "t_id ready_task = ''a''" "t_id ended_task = ''b''"
  "t_state ready_task = Ready" "t_state ended_task = Cancelled"
  by (simp_all add: ready_task_def ended_task_def sample_task_def)

lemma demo_ticked:
  "rn_pending (tick (traced demo_executor) (noted failing_recorder) 1 5 [ready_task, ended_task] demo_loop) = Map.empty"
  "log_of (tick (traced demo_executor) (noted failing_recorder) 1 5 [ready_task, ended_task] demo_loop)
     = [Freed ''b'', Began ''a'']"
  by (simp_all add: tick_def take_in_ended_def resume_spawned_task_def poll_running_def dispatch_ready_def release_permit_def
      Let_def demo_loop_def restored_def runner_new_def snapshot_facts traced_def demo_executor_def failing_recorder_def
      noted_def log_of_def)

theorem tick_settles_snapshot_witness:
  "''a'' \<in> held (tick (traced demo_executor) (noted failing_recorder) 1 5 [ready_task, ended_task] demo_loop)
   \<and> ''b'' \<notin> held (tick (traced demo_executor) (noted failing_recorder) 1 5 [ready_task, ended_task] demo_loop)"
  using tick_settles_snapshot [OF snapshot_facts(1), of ready_task demo_executor failing_recorder 1 5 demo_loop]
    tick_settles_snapshot [OF snapshot_facts(1), of ended_task demo_executor failing_recorder 1 5 demo_loop]
  by (simp add: snapshot_facts demo_ticked Let_def calls_def)

text \<open>A report that waits to be recorded.\<close>

definition running_task :: task where
  "running_task = (sample_task ''b'' [])\<lparr>t_state := Running\<rparr>"

definition known_report :: completion where
  "known_report = completion_succeeded None (error_result (Some 0) None)"

definition reporting_loop :: "(unit, unit) observed" where
  "reporting_loop = demo_loop\<lparr>rn_pending := [''b'' \<mapsto> known_report]\<rparr>"

theorem known_outcome_kept_witness:
  "rn_pending (tick (traced demo_executor) (noted failing_recorder) 1 5 [running_task] reporting_loop) ''b'' = Some known_report
   \<and> reports ''b'' (tick (traced demo_executor) (noted failing_recorder) 1 5 [running_task] reporting_loop) = [known_report]"
proof -
  have "permits_right {''b''} reporting_loop"
    by (auto simp: permits_right_def reporting_loop_def demo_loop_def restored_def runner_new_def log_of_def held_def)
  moreover have "t_id running_task = ''b''" "t_state running_task = Running"
    by (simp_all add: running_task_def sample_task_def)
  moreover have "rn_pending reporting_loop ''b'' = Some known_report" by (simp add: reporting_loop_def)
  ultimately show ?thesis
    using known_outcome_kept [of "{''b''}" reporting_loop "[running_task]" running_task known_report demo_executor failing_recorder 1 5]
    by (simp add: Let_def failing_recorder_def reports_def [of _ reporting_loop])
      (simp add: reporting_loop_def demo_loop_def restored_def runner_new_def)
qed

section \<open>Post-processing\<close>

text \<open>A typed task with post-processing whose main run succeeds.\<close>

definition demo_pp :: pp_spec where
  "demo_pp = \<lparr>pp_command = [''judge''], pp_cwd = None, pp_stdin = [], pp_stdout = \<lparr>so_format = FormatJson, so_pointer = None\<rparr>,
     pp_timeout = 1000, pp_retry = None\<rparr>"

definition judged_task :: task where
  "judged_task = (sample_task ''a'' [])
     \<lparr>t_state := Running, t_contract := Some (sample_contract\<lparr>tk_postprocess := Some demo_pp\<rparr>),
      t_attempt := Some \<lparr>at_id = ''a#1'', at_number = 1, at_started = 5, at_completion = None, at_postprocess = None,
        at_agent = None\<rparr>\<rparr>"

definition judged_env :: task_env where
  "judged_env = table_env [judged_task]"

definition judged_stored :: task_store where
  "judged_stored = snd (task_put judged_env judged_task demo_new)"

definition main_report :: completion where
  "main_report = completion_succeeded (Some ''a#1'') (error_result (Some 0) None)"

definition judged_progress :: "string \<Rightarrow> pp_progress" where
  "judged_progress dg = \<lparr>pg_execution = error_result (Some 0) None, pg_digest = dg, pg_phase = PhasePending 1 6, pg_failed_runs = []\<rparr>"

lemma judged_got: "task_get judged_env (ts_mem judged_stored) 1 ''a'' = Inr (Some judged_task)"
  by code_simp

lemma judged_scheduled: "fst (task_put judged_env (with_progress (judged_progress dg) judged_task) judged_stored) = Inr ()"
  by code_simp

lemma judged_fields:
  "is_typed judged_task" "t_state judged_task = Running" "t_attempt judged_task \<noteq> None"
  "\<exists>a. t_attempt judged_task = Some a \<and> at_id a = ''a#1''" "Option.bind (t_attempt judged_task) at_postprocess = None"
  "Option.bind (t_contract judged_task) tk_postprocess = Some demo_pp" "\<not> response_too_large jt judged_task (cm_result main_report)"
  "cm_outcome main_report = OutSucceeded" "cm_postprocess main_report = None" "cm_attempt main_report = Some ''a#1''"
  "cm_result main_report = error_result (Some 0) None"
  by (simp_all add: judged_task_def sample_task_def is_typed_def response_too_large_def main_report_def
      completion_succeeded_def completed_def)

theorem continuation_agrees_witness:
  "\<exists>rc. fst (complete judged_env 1 ''a'' main_report 6 judged_stored) = Inr rc
     \<and> agrees (rc_task rc) (continuation judged_task main_report 6)
     \<and> continuation judged_task main_report 6 = Some (PostprocessPending 1 6)"
proof -
  let ?dg = "completion_digest judged_env (ts_mem judged_stored) main_report"
  let ?t = "with_progress (judged_progress ?dg) judged_task"
  let ?rc = "\<lparr>rc_task = ?t, rc_transitioned = [], rc_duplicate = False\<rparr>"
  obtain s' where put: "task_put judged_env ?t judged_stored = (Inr (), s')"
    using judged_scheduled [of ?dg] by (cases "task_put judged_env ?t judged_stored") simp
  have need: "need_task judged_env 1 ''a'' judged_stored = (Inr judged_task, judged_stored)"
    using judged_got by (simp add: need_task_def bnd_def read_mem_def ret_def map_err_def)
  obtain a where att: "t_attempt judged_task = Some a" "at_id a = ''a#1''" using judged_fields(4) by blast
  have pp: "\<exists>c. t_contract judged_task = Some c \<and> tk_postprocess c = Some demo_pp"
    using judged_fields(6) by (cases "t_contract judged_task") auto
  have "postprocess_step judged_env judged_task main_report 6 judged_stored = (Inr (ContinueWith ?rc), s')"
    using pp put judged_fields
    by (auto simp: postprocess_step_def keep_running_def bnd_def read_mem_def map_err_def ret_def judged_progress_def Let_def)
  then have "complete judged_env 1 ''a'' main_report 6 judged_stored = (Inr ?rc, s')"
    using need judged_fields(1,2,8,10) att
    by (simp add: complete_def complete_running_def bnd_def read_mem_def map_err_def ret_def Let_def)
  from continuation_agrees [OF this judged_got judged_fields(1-3)] judged_fields this show ?thesis
    by (simp add: continuation_def)
qed

end
