(* ===== verification/Reducer.thy ===== *)
theory Reducer
  imports Task_Attempt
begin

text \<open>
  How a reduce task puts the results of its inputs together (\<open>reducer.rs\<close>): the untyped strategies and
  the typed ones. What a JSON pointer finds and what the shell of a custom strategy prints are
  parameters. The warning about a pointer that finds nothing keeps what its text is made of; the error for
  an output of a custom command that is not one JSON value does not say where the parser stopped.
\<close>

section \<open>Untyped inputs\<close>

record reducer_input =
  ri_succeeded :: bool
  ri_task :: string
  ri_output :: json

text \<open>The warnings: which input, its task and the pointer.\<close>

definition extract_paths ::
  "(json \<Rightarrow> string \<Rightarrow> json option) \<Rightarrow> reducer_input list \<Rightarrow> string option \<Rightarrow>
   reducer_input list \<times> (nat \<times> string \<times> string) list" where
  "extract_paths ptr inputs extract_path =
     (case extract_path of
        None \<Rightarrow> (inputs, [])
      | Some path \<Rightarrow>
          (map (\<lambda>i. i\<lparr>ri_output := (case ptr (ri_output i) path of Some v \<Rightarrow> v | None \<Rightarrow> JNull)\<rparr>) inputs,
           List.map_filter (\<lambda>(n, i). if ptr (ri_output i) path = None then Some (n, ri_task i, path) else None)
             (enumerate 0 inputs)))"

fun type_name :: "json \<Rightarrow> string" where
  "type_name JNull = ''null''"
| "type_name (JBool _) = ''bool''"
| "type_name (JNum _) = ''number''"
| "type_name (JStr _) = ''string''"
| "type_name (JArr _) = ''array''"
| "type_name (JObj _) = ''object''"

definition first_success :: "reducer_input list \<Rightarrow> agent_error + json" where
  "first_success inputs =
     (case find ri_succeeded inputs of
        Some i \<Rightarrow> Inr (ri_output i)
      | None \<Rightarrow> Inl (invalid ''no successful input for first_success''))"

function deep_merge :: "jobject \<Rightarrow> jobject \<Rightarrow> jobject" where
  "deep_merge dst [] = dst"
| "deep_merge dst ((k, v) # src) =
     deep_merge
       (case (map_of dst k, v) of
          (Some (JObj d), JObj s) \<Rightarrow> obj_insert k (JObj (deep_merge d s)) dst
        | _ \<Rightarrow> obj_insert k v dst) src"
  by pat_completeness auto
termination
  by (relation "measure (\<lambda>(dst, src). size (JObj src))") (auto simp: size_prod_simp)

fun merge_json :: "jobject \<Rightarrow> nat \<Rightarrow> reducer_input list \<Rightarrow> agent_error + json" where
  "merge_json acc n [] = Inr (JObj acc)"
| "merge_json acc n (i # is') =
     (case ri_output i of
        JObj m \<Rightarrow> merge_json (deep_merge acc m) (Suc n) is'
      | JNull \<Rightarrow> merge_json acc (Suc n) is'
      | v \<Rightarrow> Inl (invalid (''merge_json: input #'' @ show_nat n @ '' is not a JSON object (got '' @ type_name v @ '')'')))"

fun concat_text :: "json_text \<Rightarrow> reducer_input list \<Rightarrow> agent_error + string" where
  "concat_text jt [] = Inr []"
| "concat_text jt (i # is') =
     sbind (case ri_output i of
              JStr s \<Rightarrow> Inr s
            | JNull \<Rightarrow> Inr []
            | v \<Rightarrow> (case jt_print jt v of Some s \<Rightarrow> Inr s | None \<Rightarrow> Inl SerdeErr)) (\<lambda>s.
     sbind (concat_text jt is') (\<lambda>r. Inr (s @ r)))"

definition reduce_in_process :: "json_text \<Rightarrow> reducer_strategy \<Rightarrow> reducer_input list \<Rightarrow> agent_error + json" where
  "reduce_in_process jt strategy inputs =
     (case strategy of
        FirstSuccess \<Rightarrow> first_success inputs
      | ReduceAll \<Rightarrow> Inr (JArr (map ri_output inputs))
      | MergeJson \<Rightarrow> merge_json [] 0 inputs
      | ConcatText \<Rightarrow> sbind (concat_text jt inputs) (\<lambda>s. Inr (JStr s))
      | ReduceCustom _ \<Rightarrow>
          Inl (invalid ''Custom reducer requires host-side shell bridge; use `reduce_with_custom`''))"

text \<open>\<open>runner command stdin\<close> is what the command prints, or the error it failed with.\<close>

definition reduce_with_custom ::
  "json_text \<Rightarrow> (string \<Rightarrow> string \<Rightarrow> string + string) \<Rightarrow> reducer_strategy \<Rightarrow> reducer_input list \<Rightarrow> agent_error + json" where
  "reduce_with_custom jt runner strategy inputs =
     (case strategy of
        ReduceCustom command \<Rightarrow>
          (case jt_print jt (JArr (map ri_output inputs)) of
             None \<Rightarrow> Inl SerdeErr
           | Some stdin \<Rightarrow>
               (case runner command stdin of
                  Inl e \<Rightarrow> Inl (invalid (''custom reducer command failed: '' @ e))
                | Inr stdout \<Rightarrow>
                    (case jt_parse jt (trim stdout) of Some v \<Rightarrow> Inr v | None \<Rightarrow> Inr (JStr stdout))))
      | _ \<Rightarrow> reduce_in_process jt strategy inputs)"

section \<open>Equality of JSON values\<close>

text \<open>\<open>1.7e38\<close> as an \<open>f64\<close>: the one nearest to it.\<close>

definition i128_room :: u64 where
  "i128_room = f64_of_int (17 * 10 ^ 37)"

text \<open>The integer a number is, when it is one that fits.\<close>

definition num_exact :: "jnumber \<Rightarrow> int option" where
  "num_exact n =
     (case num_as_i64 n of
        Some i \<Rightarrow> Some i
      | None \<Rightarrow>
          (case n of
             PosInt u \<Rightarrow> Some (int (unat u))
           | _ \<Rightarrow>
               let f = num_as_f64 n
               in if f64_integral f \<and> \<bar>f64_scaled f\<bar> < f64_scaled i128_room
                  then Some (f64_scaled f div 2 ^ 1074) else None))"

definition number_equal :: "jnumber \<Rightarrow> jnumber \<Rightarrow> bool" where
  "number_equal a b \<longleftrightarrow>
     (case (num_exact a, num_exact b) of
        (Some x, Some y) \<Rightarrow> x = y
      | _ \<Rightarrow> f64_scaled (num_as_f64 a) = f64_scaled (num_as_f64 b))"

lemma size_in_zip: "(p, q) \<in> set (zip x y) \<Longrightarrow> size p < Suc (size_list size x)"
  unfolding less_Suc_eq_le by (rule size_list_estimation' [OF set_zip_leftD]) auto

function json_equal :: "json \<Rightarrow> json \<Rightarrow> bool" where
  "json_equal a b \<longleftrightarrow>
     (case (a, b) of
        (JNum x, JNum y) \<Rightarrow> number_equal x y
      | (JArr x, JArr y) \<Rightarrow> length x = length y \<and> (\<forall>(p, q) \<in> set (zip x y). json_equal p q)
      | (JObj x, JObj y) \<Rightarrow> length x = length y \<and>
          (\<forall>(k, p) \<in> set x. case map_of y k of None \<Rightarrow> False | Some q \<Rightarrow> json_equal p q)
      | _ \<Rightarrow> json_eq a b)"
  by pat_completeness auto
termination
  by (relation "measure (\<lambda>(a, b). size a)") (auto simp: size_in_obj size_in_zip)

declare json_equal.simps [simp del]

section \<open>Typed inputs\<close>

record typed_reducer_input =
  ti_task :: string
  ti_state :: string
  ti_has_output :: bool
  ti_output :: typed_value
  ti_attempt :: "string option"

definition input_from_task :: "task \<Rightarrow> typed_reducer_input" where
  "input_from_task t =
     (let succeeded = (t_state t = Succeeded);
          (has_output, output) =
            (case (t_typed_result t, t_result t) of
               (Some r, _) \<Rightarrow> (succeeded \<and> tr_has_output r, tr_output r)
             | (None, Some r) \<Rightarrow>
                 (case res_output r of Some v \<Rightarrow> if succeeded then (True, TVJson v) else (False, TVNull)
                  | None \<Rightarrow> (False, TVNull))
             | (None, None) \<Rightarrow> (False, TVNull))
      in \<lparr>ti_task = t_id t, ti_state = state_name (t_state t), ti_has_output = has_output,
          ti_output = (if has_output then output else TVNull), ti_attempt = map_option at_id (t_attempt t)\<rparr>)"

definition input_record :: "typed_reducer_input \<Rightarrow> json" where
  "input_record i = jstruct
     [(''task_id'', Some (JStr (ti_task i))), (''state'', Some (JStr (ti_state i))),
      (''has_output'', Some (JBool (ti_has_output i))), (''attempt_id'', map_option JStr (ti_attempt i)),
      (''output'', if ti_has_output i then Some (to_wire (ti_output i)) else None)]"

definition require_output :: "typed_reducer_input \<Rightarrow> string + json" where
  "require_output i =
     (if ti_has_output i then Inr (to_internal (ti_output i))
      else Inl (''input '' @ ti_task i @ '' has no output (state '' @ ti_state i @ '')''))"

text \<open>The object with the fields of another merged in; what the values read like is the text codec's.\<close>

function merge_typed :: "json_text \<Rightarrow> merge_conflict \<Rightarrow> string \<Rightarrow> jobject \<Rightarrow> jobject \<Rightarrow> string + jobject" where
  "merge_typed jt conflict path dst [] = Inr dst"
| "merge_typed jt conflict path dst ((k, v) # src) =
     (let here = path @ ''/'' @ k in
      sbind (case map_of dst k of
               None \<Rightarrow> Inr (obj_insert k v dst)
             | Some existing \<Rightarrow>
                 (case (existing, v) of
                    (JObj d, JObj s) \<Rightarrow> sbind (merge_typed jt conflict here d s) (\<lambda>d'. Inr (obj_insert k (JObj d') dst))
                  | _ \<Rightarrow>
                      if json_equal existing v then Inr dst
                      else (case conflict of
                              MergeOverwrite \<Rightarrow> Inr (obj_insert k v dst)
                            | MergeError \<Rightarrow> Inl (''merge_json: conflicting values at '' @ here @ '': '' @
                                json_string jt existing @ '' vs '' @ json_string jt v))))
        (\<lambda>dst'. merge_typed jt conflict path dst' src))"
  by pat_completeness auto
termination
  by (relation "measure (\<lambda>(jt, conflict, path, dst, src). size (JObj src))") (auto simp: size_prod_simp)

fun merge_inputs ::
  "json_text \<Rightarrow> merge_conflict \<Rightarrow> jobject \<Rightarrow> typed_reducer_input list \<Rightarrow> string + json" where
  "merge_inputs jt conflict acc [] = Inr (JObj acc)"
| "merge_inputs jt conflict acc (i # is') =
     sbind (require_output i) (\<lambda>output.
     case output of
       JObj m \<Rightarrow> sbind (merge_typed jt conflict [] acc m) (\<lambda>acc'. merge_inputs jt conflict acc' is')
     | _ \<Rightarrow> Inl (''merge_json: input '' @ ti_task i @ '' output is '' @ type_name output @ '', not an object''))"

fun concat_inputs :: "typed_reducer_input list \<Rightarrow> string + string" where
  "concat_inputs [] = Inr []"
| "concat_inputs (i # is') =
     sbind (require_output i) (\<lambda>output.
     case output of
       JStr s \<Rightarrow> sbind (concat_inputs is') (\<lambda>r. Inr (s @ r))
     | _ \<Rightarrow> Inl (''concat_text: input '' @ ti_task i @ '' output is '' @ type_name output @
              '', not a string; convert it explicitly''))"

definition reduce_typed ::
  "json_text \<Rightarrow> (string \<Rightarrow> string \<Rightarrow> string + string) \<Rightarrow> merge_conflict \<Rightarrow> reducer_strategy \<Rightarrow>
   typed_reducer_input list \<Rightarrow> string + json" where
  "reduce_typed jt runner conflict strategy inputs =
     (case strategy of
        FirstSuccess \<Rightarrow>
          (case find ti_has_output inputs of
             Some i \<Rightarrow> Inr (to_internal (ti_output i))
           | None \<Rightarrow> Inl ''first_success: no input succeeded with an output'')
      | ReduceAll \<Rightarrow> Inr (JArr (map input_record inputs))
      | MergeJson \<Rightarrow> merge_inputs jt conflict [] inputs
      | ConcatText \<Rightarrow> sbind (concat_inputs inputs) (\<lambda>s. Inr (JStr s))
      | ReduceCustom command \<Rightarrow>
          (case runner command (json_string jt (JArr (map input_record inputs))) of
             Inl e \<Rightarrow> Inl (''custom reducer command failed: '' @ e)
           | Inr stdout \<Rightarrow>
               (case jt_parse jt (trim stdout) of
                  Some v \<Rightarrow> Inr v
                | None \<Rightarrow> Inl ''custom reducer stdout is not one JSON value'')))"

end
