(* ===== verification/Reducer_Laws.thy ===== *)
theory Reducer_Laws
  imports Reducer
begin

text \<open>
  Numbers of a JSON value are compared as the numbers they are, and a merge under the policy that
  refuses conflicts keeps what every input has and makes nothing up.
\<close>

section \<open>Rounding an integer\<close>

lemma bit_len_bounds: "n \<noteq> 0 \<Longrightarrow> 2 ^ (bit_len n - 1) \<le> n \<and> n < 2 ^ bit_len n \<and> bit_len n \<noteq> 0"
proof (induction n rule: bit_len.induct)
  case (1 n)
  show ?case
  proof (cases "n div 2 = 0")
    case True
    then have "n = 1" using 1(2) by auto
    then show ?thesis by (simp add: bit_len.simps)
  next
    case False
    note ih = 1(1) [OF 1(2) False]
    have len: "bit_len n = Suc (bit_len (n div 2))" using 1(2) by (simp add: bit_len.simps)
    obtain j where j: "bit_len (n div 2) = Suc j" using ih by (cases "bit_len (n div 2)") auto
    from ih j have "2 ^ j \<le> n div 2" "n div 2 < 2 ^ Suc j" by simp_all
    then have "2 ^ Suc j \<le> n" "n < 2 ^ Suc (Suc j)" by auto
    then show ?thesis by (simp add: len j)
  qed
qed

lemma bit_len_le: "n < 2 ^ k \<Longrightarrow> n \<noteq> 0 \<Longrightarrow> bit_len n \<le> k"
proof -
  assume "n < 2 ^ k" "n \<noteq> 0"
  with bit_len_bounds [of n] have "(2::nat) ^ (bit_len n - 1) < 2 ^ k" by linarith
  then show ?thesis by (simp add: power_strict_increasing_iff)
qed

lemma round_bounds:
  assumes "a * d \<le> n" "n \<le> b * d" "0 < d"
  shows "a \<le> round_half_even n d \<and> round_half_even n d \<le> b"
proof -
  have "a \<le> n div d" using assms by (simp add: less_eq_div_iff_mult_less_eq)
  moreover have "n div d \<le> b" using assms(2,3) by (metis div_le_mono div_mult_self_is_m)
  moreover have "n div d < b" if "n mod d \<noteq> 0"
  proof -
    have "n div d * d < n" using that by (metis div_mult_mod_eq less_add_same_cancel1 not_gr_zero)
    then have "n div d * d < b * d" using assms(2) by linarith
    then show ?thesis by simp
  qed
  ultimately show ?thesis using assms(3) by (auto simp: round_half_even_def Let_def)
qed

text \<open>The parts of a bit pattern built from a value below the sign bit.\<close>

lemma pattern_parts:
  assumes "w < 2 ^ 63" "b = (of_nat (w + (if neg then 2 ^ 63 else 0)) :: u64)"
  shows "f64_exp b = w div 2 ^ 52" "f64_mant b = w mod 2 ^ 52" "bit b 63 \<longleftrightarrow> neg"
proof -
  let ?u = "w + (if neg then 2 ^ 63 else 0)"
  have "?u < 2 ^ 64" using assms(1) by simp
  then have u: "unat b = ?u" unfolding assms(2) by (subst unat_of_nat) simp
  have "?u div 2 ^ 52 mod 2 ^ 11 = w div 2 ^ 52"
  proof -
    have "(w + 2 ^ 11 * 2 ^ 52) div 2 ^ 52 = 2 ^ 11 + w div 2 ^ 52" by (rule div_mult_self1) simp
    moreover have "(2::nat) ^ 11 * 2 ^ 52 = 2 ^ 63" by simp
    ultimately have "?u div 2 ^ 52 = w div 2 ^ 52 + (if neg then 2 ^ 11 else 0)" by (simp only:) simp
    moreover have "w div 2 ^ 52 < 2 ^ 11" using assms(1) by (simp add: less_mult_imp_div_less)
    ultimately show ?thesis by simp
  qed
  then show "f64_exp b = w div 2 ^ 52"
    unfolding f64_exp_def unsigned_take_bit_eq unat_drop_bit_eq u by (simp only: take_bit_eq_mod drop_bit_eq_div)
  have "(w + 2 ^ 11 * 2 ^ 52) mod 2 ^ 52 = w mod 2 ^ 52" by (rule mod_mult_self1)
  moreover have "(2::nat) ^ 11 * 2 ^ 52 = 2 ^ 63" by simp
  ultimately have "?u mod 2 ^ 52 = w mod 2 ^ 52" by (cases neg) (simp_all only: if_True if_False add_0_right)
  then show "f64_mant b = w mod 2 ^ 52"
    unfolding f64_mant_def unsigned_take_bit_eq u by (simp only: take_bit_eq_mod)
  show "bit b 63 \<longleftrightarrow> neg"
  proof -
    have "bit b 63 \<longleftrightarrow> bit (unat b) 63" by (simp add: bit_unsigned_iff)
    also have "\<dots> \<longleftrightarrow> odd (?u div 2 ^ 63)" by (simp only: u bit_iff_odd)
    also have "?u div 2 ^ 63 = (if neg then 1 else 0)"
    proof -
      have "(w + 1 * 2 ^ 63) div 2 ^ 63 = 1 + w div 2 ^ 63" by (rule div_mult_self1) simp
      moreover have "w div 2 ^ 63 = 0" using assms(1) by (rule div_less)
      ultimately show ?thesis by (cases neg) (simp_all only: if_True if_False add_0_right mult_1)
    qed
    finally show ?thesis by simp
  qed
qed

lemma block_parts: "r < d \<Longrightarrow> (a * d + r) div d = (a :: nat) \<and> (a * d + r) mod d = r"
  by simp

lemma rounded_value:
  assumes "x \<noteq> 0" "\<bar>x\<bar> < 2 ^ 1023"
  shows "\<exists>m. 2 ^ 52 \<le> m \<and> m \<le> 2 ^ 53 \<and> (bit_len (nat \<bar>x\<bar>) \<le> 53 \<longrightarrow> m = nat \<bar>x\<bar> * 2 ^ (53 - bit_len (nat \<bar>x\<bar>)))
    \<and> f64_scaled (f64_of_int x) = sgn x * int (m * 2 ^ (bit_len (nat \<bar>x\<bar>) + 1021))"
proof -
  define n where "n = nat \<bar>x\<bar>"
  define k where "k = bit_len n"
  define m where "m = (if k \<le> 53 then n * 2 ^ (53 - k) else round_half_even n (2 ^ (k - 53)))"
  have n: "n \<noteq> 0" "n < 2 ^ 1023" using assms by (simp_all add: n_def nat_less_iff)
  note b = bit_len_bounds [OF n(1), folded k_def]
  have k: "k \<le> 1023" using bit_len_le [OF n(2,1)] by (simp add: k_def)
  have m: "2 ^ 52 \<le> m \<and> m \<le> 2 ^ 53"
  proof (cases "k \<le> 53")
    case True
    have "(2::nat) ^ 52 = 2 ^ (k - 1) * 2 ^ (53 - k)" "(2::nat) ^ 53 = 2 ^ k * 2 ^ (53 - k)"
      using True b by (simp_all flip: power_add)
    moreover have "2 ^ (k - 1) * 2 ^ (53 - k) \<le> n * 2 ^ (53 - k)" "n * 2 ^ (53 - k) \<le> 2 ^ k * 2 ^ (53 - k)"
      using b by (intro mult_le_mono1; simp)+
    ultimately show ?thesis using True by (simp only: m_def if_True) 
  next
    case False
    have "k - 1 = 52 + (k - 53)" "k = 53 + (k - 53)" using False by simp_all
    then have "(2::nat) ^ 52 * 2 ^ (k - 53) = 2 ^ (k - 1)" "(2::nat) ^ 53 * 2 ^ (k - 53) = 2 ^ k" by (metis power_add)+
    with round_bounds [of "2 ^ 52" "2 ^ (k - 53)" n "2 ^ 53"] b False show ?thesis by (simp add: m_def)
  qed
  define w where "w = (k + 1022) * 2 ^ 52 + (m - 2 ^ 52)"
  have w: "w < 2 ^ 63" using k m by (simp add: w_def)
  have "f64_of_int x = of_nat (w + (if x < 0 then 2 ^ 63 else 0))"
    by (simp only: f64_of_int_def Let_def n_def [symmetric] k_def [symmetric] m_def [symmetric] w_def n(1) if_False)
  note p = pattern_parts [OF w this]
  have "(if f64_exp (f64_of_int x) = 0 then f64_mant (f64_of_int x)
      else (2 ^ 52 + f64_mant (f64_of_int x)) * 2 ^ (f64_exp (f64_of_int x) - 1)) = m * 2 ^ (k + 1021)"
  proof (cases "m = 2 ^ 53")
    case True
    then have "w = (k + 1023) * 2 ^ 52" by (simp add: w_def)
    then have "w div 2 ^ 52 = k + 1023" "w mod 2 ^ 52 = 0" by simp_all
    with p True show ?thesis by (simp add: power_add)
  next
    case False
    with m have "m < 2 ^ 53" by linarith
    then have "m - 2 ^ 52 < 2 ^ 52" by simp
    from block_parts [OF this, of "k + 1022"] have "w div 2 ^ 52 = k + 1022" "w mod 2 ^ 52 = m - 2 ^ 52"
      by (simp_all only: w_def)
    with p m show ?thesis by simp
  qed
  then have "f64_scaled (f64_of_int x) = sgn x * int (m * 2 ^ (k + 1021))"
    using p(3) assms(1) by (simp add: f64_scaled_def Let_def)
  with m show ?thesis by (auto simp: k_def n_def m_def)
qed

text \<open>A rounded integer is an integer, of the same order of magnitude.\<close>

lemma rounded_integral:
  assumes "\<bar>x\<bar> < 2 ^ 64"
  shows "2 ^ 1074 dvd f64_scaled (f64_of_int x)" "\<bar>f64_scaled (f64_of_int x)\<bar> \<le> 2 ^ 64 * 2 ^ 1074"
proof -
  have "2 ^ 1074 dvd f64_scaled (f64_of_int x) \<and> \<bar>f64_scaled (f64_of_int x)\<bar> \<le> 2 ^ 64 * 2 ^ 1074"
  proof (cases "x = 0")
    case True
    then show ?thesis by (simp add: f64_of_int_def f64_scaled_def f64_exp_def f64_mant_def)
  next
    case False
    let ?k = "bit_len (nat \<bar>x\<bar>)"
    have "\<bar>x\<bar> < 2 ^ 1023" using assms by (rule less_le_trans) simp
    from rounded_value [OF False this] obtain m where m: "m \<le> 2 ^ 53" "?k \<le> 53 \<longrightarrow> m = nat \<bar>x\<bar> * 2 ^ (53 - ?k)"
      "f64_scaled (f64_of_int x) = sgn x * int (m * 2 ^ (?k + 1021))" by blast
    have k: "?k \<le> 64" by (rule bit_len_le) (use False assms in auto)
    have "2 ^ 1074 dvd m * 2 ^ (?k + 1021)"
    proof (cases "?k \<le> 53")
      case True
      then have "m * 2 ^ (?k + 1021) = nat \<bar>x\<bar> * 2 ^ 1074" using m(2) by (simp flip: power_add)
      then show ?thesis by simp
    next
      case False
      then have "(2::nat) ^ 1074 dvd 2 ^ (?k + 1021)" by (intro le_imp_power_dvd) simp
      then show ?thesis by simp
    qed
    then have "int (2 ^ 1074) dvd int (m * 2 ^ (?k + 1021))" by (simp only: of_nat_dvd_iff)
    moreover have "m * 2 ^ (?k + 1021) \<le> 2 ^ 53 * 2 ^ (64 + 1021)"
      using m(1) k by (intro mult_mono power_increasing) simp_all
    then have "int (m * 2 ^ (?k + 1021)) \<le> int (2 ^ 53 * 2 ^ (64 + 1021))" by (simp only: of_nat_le_iff)
    ultimately show ?thesis
      using False m(3) by (simp add: abs_mult abs_sgn_eq dvd_mult)
  qed
  then show "2 ^ 1074 dvd f64_scaled (f64_of_int x)" "\<bar>f64_scaled (f64_of_int x)\<bar> \<le> 2 ^ 64 * 2 ^ 1074" by auto
qed

lemma i128_room_large: "2 ^ 64 * 2 ^ 1074 < f64_scaled i128_room"
proof -
  let ?x = "17 * 10 ^ 37 :: int"
  let ?k = "bit_len (nat \<bar>?x\<bar>)"
  obtain m where m: "2 ^ 52 \<le> m" "f64_scaled i128_room = sgn ?x * int (m * 2 ^ (?k + 1021))"
    using rounded_value [of ?x] by (auto simp: i128_room_def)
  have "\<not> ?k \<le> 126"
  proof
    assume "?k \<le> 126"
    then have "(2::nat) ^ ?k \<le> 2 ^ 126" by (intro power_increasing) simp_all
    with bit_len_bounds [of "nat \<bar>?x\<bar>"] show False by simp
  qed
  then have "(2::nat) ^ 52 * 2 ^ (127 + 1021) \<le> m * 2 ^ (?k + 1021)"
    using m(1) by (intro mult_mono power_increasing) simp_all
  then have "int (2 ^ 52 * 2 ^ (127 + 1021)) \<le> int (m * 2 ^ (?k + 1021))" by (simp only: of_nat_le_iff)
  moreover have "f64_scaled i128_room = int (m * 2 ^ (?k + 1021))" unfolding m(2) by simp
  moreover have "(2::int) ^ 64 * 2 ^ 1074 < int (2 ^ 52 * 2 ^ (127 + 1021))" by simp
  ultimately show ?thesis by linarith
qed

section \<open>Numbers\<close>

text \<open>The number a JSON number is, in units of \<open>2 ^ - 1074\<close>.\<close>

fun num_value :: "jnumber \<Rightarrow> int" where
  "num_value (PosInt n) = int (unat n) * 2 ^ 1074"
| "num_value (NegInt i) = i * 2 ^ 1074"
| "num_value (FloatBits b) = f64_scaled b"

text \<open>A number as \<open>serde_json\<close> makes it: a \<open>NegInt\<close> holds an \<open>i64\<close>.\<close>

fun num_ok :: "jnumber \<Rightarrow> bool" where
  "num_ok (NegInt i) \<longleftrightarrow> in_i64 i"
| "num_ok _ \<longleftrightarrow> True"

lemma exact_value: "num_ok n \<Longrightarrow> num_exact n = Some x \<Longrightarrow> num_value n = x * 2 ^ 1074"
  by (cases n) (auto simp: num_exact_def Let_def f64_integral_def split: if_splits)

lemma exact_int:
  assumes "num_ok n" "\<forall>b. n \<noteq> FloatBits b"
  obtains x where "num_exact n = Some x" "\<bar>x\<bar> < 2 ^ 64" "num_as_f64 n = f64_of_int x"
proof (cases n)
  case (PosInt u)
  have "uint u < 2 ^ 64" using unsigned_less [where 'a = int, of u] by simp
  then have "\<bar>int (unat u)\<bar> < 2 ^ 64" by simp
  then show thesis using PosInt by (intro that [of "int (unat u)"]) (auto simp: num_exact_def)
next
  case (NegInt i)
  with assms(1) have "num_exact n = Some i" "\<bar>i\<bar> < 2 ^ 64" by (auto simp: num_exact_def in_i64_def)
  with NegInt show thesis by (intro that [of i]) simp_all
qed (use assms(2) in simp)

lemma float_value: "f64_scaled (num_as_f64 (FloatBits b)) = num_value (FloatBits b)"
  by simp

text \<open>An integer never equals a float that is no integer in range, before and after rounding.\<close>

lemma int_not_float:
  assumes "num_ok n" "\<forall>b. n \<noteq> FloatBits b" "num_exact (FloatBits b) = None"
  shows "f64_scaled (num_as_f64 n) \<noteq> f64_scaled b" "num_value n \<noteq> f64_scaled b"
proof -
  obtain x where x: "num_exact n = Some x" "\<bar>x\<bar> < 2 ^ 64" "num_as_f64 n = f64_of_int x"
    by (rule exact_int [OF assms(1,2)])
  have none: "\<not> (2 ^ 1074 dvd f64_scaled b \<and> \<bar>f64_scaled b\<bar> < f64_scaled i128_room)"
    using assms(3) by (auto simp: num_exact_def Let_def f64_integral_def split: if_splits)
  have r: "2 ^ 1074 dvd f64_scaled (f64_of_int x)" "\<bar>f64_scaled (f64_of_int x)\<bar> < f64_scaled i128_room"
    using rounded_integral [OF x(2)] i128_room_large by linarith+
  with none x(3) show "f64_scaled (num_as_f64 n) \<noteq> f64_scaled b" by auto
  have "\<bar>x * 2 ^ 1074\<bar> < f64_scaled i128_room"
  proof -
    have "\<bar>x\<bar> * 2 ^ 1074 \<le> 2 ^ 64 * 2 ^ 1074" using x(2) by (intro mult_right_mono) simp_all
    then show ?thesis using i128_room_large by (simp only: abs_mult abs_power2 abs_numeral power_abs)
  qed
  moreover have "2 ^ 1074 dvd x * 2 ^ 1074" by simp
  ultimately show "num_value n \<noteq> f64_scaled b"
    using none unfolding exact_value [OF assms(1) x(1)] by metis
qed

lemma number_equal_value:
  assumes "num_ok a" "num_ok b"
  shows "number_equal a b \<longleftrightarrow> num_value a = num_value b"
proof -
  consider (both) x y where "num_exact a = Some x" "num_exact b = Some y"
    | (left) "num_exact a = None" | (right) "num_exact b = None" by fastforce
  then show ?thesis
  proof cases
    case both
    with exact_value [OF assms(1)] exact_value [OF assms(2)] show ?thesis by (simp add: number_equal_def)
  next
    case left
    then obtain f where f: "a = FloatBits f" using exact_int [OF assms(1)] by (metis option.distinct(1))
    have "number_equal a b \<longleftrightarrow> f64_scaled f = f64_scaled (num_as_f64 b)" using left f by (simp add: number_equal_def)
    moreover have "f64_scaled f = f64_scaled (num_as_f64 b) \<longleftrightarrow> f64_scaled f = num_value b"
    proof (cases "\<exists>g. b = FloatBits g")
      case False
      with int_not_float [OF assms(2) _ left [unfolded f]] show ?thesis by auto
    qed auto
    ultimately show ?thesis using f by simp
  next
    case right
    then obtain g where g: "b = FloatBits g" using exact_int [OF assms(2)] by (metis option.distinct(1))
    have "number_equal a b \<longleftrightarrow> f64_scaled (num_as_f64 a) = f64_scaled g"
      using right g by (simp add: number_equal_def split: option.split)
    moreover have "f64_scaled (num_as_f64 a) = f64_scaled g \<longleftrightarrow> num_value a = f64_scaled g"
    proof (cases "\<exists>f. a = FloatBits f")
      case False
      with int_not_float [OF assms(1) _ right [unfolded g]] show ?thesis by auto
    qed auto
    ultimately show ?thesis using g by simp
  qed
qed

text \<open>Two numbers of a JSON value are taken as equal exactly when they are the same number, however
  they are written and however large they are: integers beyond \<open>2 ^ 53\<close> are not confused by rounding,
  and an integer equals the float of the same value.\<close>

theorem number_equal_exact:
  assumes "num_ok a" "num_ok b"
  shows "number_equal a b \<longleftrightarrow> num_value a = num_value b"
  by (rule number_equal_value [OF assms])

text \<open>An integer beyond \<open>2 ^ 53\<close> next to the float it rounds to, and \<open>1\<close> next to \<open>1.0\<close>.\<close>

lemma number_equal_exact_witness:
  "\<not> number_equal (PosInt 9007199254740993) (FloatBits 0x4340000000000000) \<and>
   number_equal (PosInt 1) (FloatBits 0x3FF0000000000000)"
proof
  have "num_value (PosInt 9007199254740993) \<noteq> num_value (FloatBits 0x4340000000000000)"
    by (simp add: f64_scaled_def f64_exp_def f64_mant_def)
  then show "\<not> number_equal (PosInt 9007199254740993) (FloatBits 0x4340000000000000)"
    using number_equal_exact [of "PosInt 9007199254740993" "FloatBits 0x4340000000000000"] by (simp only: num_ok.simps simp_thms)
  have "num_value (PosInt 1) = num_value (FloatBits 0x3FF0000000000000)"
    by (simp add: f64_scaled_def f64_exp_def f64_mant_def)
  then show "number_equal (PosInt 1) (FloatBits 0x3FF0000000000000)"
    using number_equal_exact [of "PosInt 1" "FloatBits 0x3FF0000000000000"] by (simp only: num_ok.simps simp_thms)
qed

section \<open>Merging\<close>

text \<open>What stands at a path of keys.\<close>

fun node :: "json \<Rightarrow> string list \<Rightarrow> json option" where
  "node v [] = Some v"
| "node (JObj m) (k # ks) = (case map_of m k of Some v \<Rightarrow> node v ks | None \<Rightarrow> None)"
| "node _ (k # ks) = None"

text \<open>Two values that may stand at one place of a merge.\<close>

definition alike :: "json \<Rightarrow> json \<Rightarrow> bool" where
  "alike a b \<longleftrightarrow> (is_object a \<and> is_object b) \<or> (\<not> is_object a \<and> \<not> is_object b \<and> json_equal a b)"

text \<open>A value as \<open>serde_json\<close> holds it: the keys of an object are distinct and the numbers are made, all the way down.\<close>

fun well_made :: "json \<Rightarrow> bool" where
  "well_made (JObj m) \<longleftrightarrow> distinct (map fst m) \<and> (\<forall>e \<in> set m. well_made (snd e))"
| "well_made (JArr xs) \<longleftrightarrow> (\<forall>x \<in> set xs. well_made x)"
| "well_made (JNum n) \<longleftrightarrow> num_ok n"
| "well_made _ \<longleftrightarrow> True"

lemma num_eq_refl [simp]: "number_equal n n"
  by (simp add: number_equal_def split: option.split)

lemma json_equal_refl: "well_made v \<Longrightarrow> json_equal v v"
proof (induction v rule: well_made.induct)
  case (1 m)
  have "map_of m k = Some p \<and> json_equal p p" if "(k, p) \<in> set m" for k p
    using 1 that by force
  then show ?case by (auto simp: json_equal.simps [of "JObj m"])
next
  case (2 xs)
  then show ?case by (auto simp: json_equal.simps [of "JArr xs"] zip_same_conv_map)
qed (simp_all add: json_equal.simps)

lemma json_equal_object: "json_equal a b \<Longrightarrow> is_object a = is_object b"
  by (cases a; cases b) (auto simp: json_equal.simps)

lemma node_append: "node v (p @ q) = (case node v p of Some w \<Rightarrow> node w q | None \<Rightarrow> None)"
  by (induction v p rule: node.induct) (auto split: option.split)

text \<open>The merge that refuses conflicts, without the paths and texts of its errors.\<close>

inductive merged :: "jobject \<Rightarrow> jobject \<Rightarrow> jobject \<Rightarrow> bool" where
  nothing: "merged dst [] dst"
| fresh: "map_of dst k = None \<Longrightarrow> merged (obj_insert k v dst) src dst' \<Longrightarrow> merged dst ((k, v) # src) dst'"
| deeper: "map_of dst k = Some (JObj d) \<Longrightarrow> merged d s d' \<Longrightarrow> merged (obj_insert k (JObj d') dst) src dst'
    \<Longrightarrow> merged dst ((k, JObj s) # src) dst'"
| same: "map_of dst k = Some e \<Longrightarrow> \<not> is_object e \<Longrightarrow> \<not> is_object v \<Longrightarrow> json_equal e v \<Longrightarrow> merged dst src dst'
    \<Longrightarrow> merged dst ((k, v) # src) dst'"

text \<open>A merge goes through its fields in order and stops at the first refusal.\<close>

lemma merge_typed_merged:
  "merge_typed jt cf path dst src = Inr dst' \<Longrightarrow> cf = MergeError \<Longrightarrow> merged dst src dst'"
proof (induction jt cf path dst src arbitrary: dst' rule: merge_typed.induct)
  case (2 jt cf path dst k v src)
  show ?case
  proof (cases "map_of dst k")
    case None
    with 2 show ?thesis by (auto simp: Let_def sbind_def intro: merged.fresh)
  next
    case (Some e)
    show ?thesis
    proof (cases "is_object e \<and> is_object v")
      case True
      then obtain d s where ds: "e = JObj d" "v = JObj s" by (cases e; cases v) auto
      with 2(3) Some obtain d' where d': "merge_typed jt cf (path @ ''/'' @ k) d s = Inr d'"
        "merge_typed jt cf path (obj_insert k (JObj d') dst) src = Inr dst'"
        by (auto simp: Let_def sbind_def split: sum.splits)
      have "merged d s d'" using 2(1) [OF refl Some refl ds d'(1) 2(4)] .
      moreover have "merged (obj_insert k (JObj d') dst) src dst'"
        by (rule 2(2) [OF refl _ d'(2) 2(4)]) (use Some ds d' in \<open>auto simp: sbind_def\<close>)
      ultimately show ?thesis using Some ds by (auto intro: merged.deeper)
    next
      case False
      then have plain: "(case (e, v) of (JObj d, JObj s) \<Rightarrow> x d s | _ \<Rightarrow> y) = y"
        for x and y :: "string + jobject" by (auto split: json.split)
      with 2(3,4) Some have "json_equal e v" "merge_typed jt cf path dst src = Inr dst'"
        by (auto simp: Let_def sbind_def split: if_splits)
      moreover have "merged dst src dst'"
        by (rule 2(2) [OF refl _ calculation(2) 2(4)]) (use Some plain calculation(1) in simp)
      ultimately show ?thesis using Some False json_equal_object by (blast intro: merged.same)
    qed
  qed
qed (simp add: merged.nothing)

lemma merge_typed_refused:
  "merge_typed jt cf path dst src = Inl m \<Longrightarrow> cf = MergeError \<Longrightarrow> well_made (JObj src) \<Longrightarrow>
   \<exists>p a b. node (JObj dst) p = Some a \<and> node (JObj src) p = Some b \<and> \<not> alike a b"
proof (induction jt cf path dst src arbitrary: m rule: merge_typed.induct)
  case (2 jt cf path dst k v src)
  have rest: ?case if dst1: "\<And>k'. k' \<noteq> k \<Longrightarrow> map_of dst1 k' = map_of dst k'"
    and ih: "\<exists>p a b. node (JObj dst1) p = Some a \<and> node (JObj src) p = Some b \<and> \<not> alike a b" for dst1
  proof -
    obtain p a b where p: "node (JObj dst1) p = Some a" "node (JObj src) p = Some b" "\<not> alike a b" using ih by blast
    then obtain k' q where q: "p = k' # q" by (cases p) (auto simp: alike_def)
    with p(2) have "map_of src k' \<noteq> None" by (auto split: option.splits)
    then have "k' \<in> fst ` set src" by (simp add: map_of_eq_None_iff)
    with 2(5) have "k' \<noteq> k" by auto
    with p q dst1 show ?thesis by (intro exI [of _ p] exI [of _ a] exI [of _ b]) simp
  qed
  have here: ?case if "map_of dst k = Some e" "node e p = Some a" "node v p = Some b" "\<not> alike a b" for e p a b
    using that by (intro exI [of _ "k # p"] exI [of _ a] exI [of _ b]) simp
  have src: "well_made (JObj src)" "well_made v" using 2(5) by auto
  show ?case
  proof (cases "map_of dst k")
    case None
    with 2(3) have m: "merge_typed jt cf path (obj_insert k v dst) src = Inl m" by (auto simp: Let_def sbind_def)
    show ?thesis by (rule rest [OF _ 2(2) [OF refl _ m 2(4) src(1)]]) (use None in auto)
  next
    case (Some e)
    show ?thesis
    proof (cases "is_object e \<and> is_object v")
      case True
      then obtain d s where ds: "e = JObj d" "v = JObj s" by (cases e; cases v) auto
      show ?thesis
      proof (cases "merge_typed jt cf (path @ ''/'' @ k) d s")
        case (Inl m')
        from 2(1) [OF refl Some refl ds Inl 2(4)] src(2) ds Some show ?thesis using here by blast
      next
        case (Inr d')
        with 2(3) Some ds have m: "merge_typed jt cf path (obj_insert k (JObj d') dst) src = Inl m"
          by (auto simp: Let_def sbind_def)
        show ?thesis by (rule rest [OF _ 2(2) [OF refl _ m 2(4) src(1)]]) (use Some ds Inr in \<open>auto simp: sbind_def\<close>)
      qed
    next
      case False
      then have plain: "(case (e, v) of (JObj d, JObj s) \<Rightarrow> x d s | _ \<Rightarrow> y) = y"
        for x and y :: "string + jobject" by (auto split: json.split)
      show ?thesis
      proof (cases "json_equal e v")
        case True
        with 2(3) Some plain have m: "merge_typed jt cf path dst src = Inl m" by (simp add: Let_def sbind_def)
        show ?thesis by (rule rest [OF _ 2(2) [OF refl _ m 2(4) src(1)]]) (use Some plain True in simp_all)
      next
        case ne: False
        show ?thesis by (rule here [OF Some, of "[]"]) (use ne False in \<open>auto simp: alike_def\<close>)
      qed
    qed
  qed
qed simp

text \<open>A merge keeps what is there, takes in what comes, and makes nothing up.\<close>

lemma well_made_node: "node v p = Some w \<Longrightarrow> well_made v \<Longrightarrow> well_made w"
  by (induction v p rule: node.induct) (auto split: option.splits dest: map_of_SomeD)

lemma alike_refl: "well_made v \<Longrightarrow> alike v v"
  by (simp add: alike_def json_equal_refl)

definition kept :: "json \<Rightarrow> json \<Rightarrow> bool" where
  "kept a b \<longleftrightarrow> a = b \<or> (is_object a \<and> is_object b)"

lemma kept_in_trans: "kept a b \<Longrightarrow> kept b c \<Longrightarrow> kept a c"
  by (auto simp: kept_def)

lemma kept_alike: "kept a b \<Longrightarrow> alike b c \<Longrightarrow> alike a c" "alike a b \<Longrightarrow> kept b c \<Longrightarrow> alike a c"
  by (auto simp: kept_def alike_def)

lemma node_nil_kept: "kept (JObj m) (JObj n)"
  by (simp add: kept_def)

lemma node_tail:
  assumes "well_made (JObj ((k, v) # src))" "node (JObj src) p = Some b"
  shows "\<exists>b'. node (JObj ((k, v) # src)) p = Some b' \<and> kept b b'"
proof (cases p)
  case (Cons k' q)
  with assms(2) have "k' \<in> fst ` set src" by (auto split: option.splits dest!: map_of_SomeD intro: rev_image_eqI)
  with assms(1) have "k' \<noteq> k" by auto
  with assms(2) Cons show ?thesis by (simp add: kept_def)
qed (use assms(2) in \<open>auto simp: kept_def\<close>)

lemma merged_keeps:
  "merged dst src dst' \<Longrightarrow> node (JObj dst) p = Some a \<Longrightarrow> \<exists>a'. node (JObj dst') p = Some a' \<and> kept a' a"
proof (induction arbitrary: p a rule: merged.induct)
  case (fresh dst k v src dst')
  show ?case
  proof (cases p)
    case (Cons k' q)
    with fresh.prems fresh.hyps(1) have "node (JObj (obj_insert k v dst)) p = Some a" by (auto split: option.splits)
    then show ?thesis by (rule fresh.IH)
  qed (use fresh.prems in \<open>auto simp: kept_def\<close>)
next
  case (deeper dst k d s d' src dst')
  show ?case
  proof (cases p)
    case (Cons k' q)
    have "\<exists>a1. node (JObj (obj_insert k (JObj d') dst)) p = Some a1 \<and> kept a1 a"
      using deeper.prems deeper.hyps(1) deeper.IH(1) [of q a] Cons by (cases "k' = k") (auto simp: kept_def)
    then show ?thesis using deeper.IH(2) kept_in_trans by blast
  qed (use deeper.prems in \<open>auto simp: kept_def\<close>)
qed (auto simp: kept_def)

lemma merged_takes:
  "merged dst src dst' \<Longrightarrow> well_made (JObj src) \<Longrightarrow> node (JObj src) p = Some b \<Longrightarrow>
   \<exists>a. node (JObj dst') p = Some a \<and> alike a b"
proof (induction arbitrary: p b rule: merged.induct)
  case (nothing dst)
  then show ?case by (cases p) (auto simp: alike_def)
next
  case (fresh dst k v src dst')
  show ?case
  proof (cases "\<exists>q. p = k # q")
    case True
    with fresh.prems(2) have "node (JObj (obj_insert k v dst)) p = Some b" by auto
    moreover have "alike b b" using well_made_node [OF fresh.prems(2,1)] by (rule alike_refl)
    ultimately show ?thesis using merged_keeps [OF fresh.hyps(2)] kept_alike(1) by blast
  next
    case False
    with fresh.prems have "node (JObj src) p = Some b \<or> p = []" by (cases p) auto
    with fresh.IH [of p b] fresh.prems show ?thesis by (auto simp: alike_def)
  qed
next
  case (deeper dst k d s d' src dst')
  show ?case
  proof (cases "\<exists>q. p = k # q")
    case True
    then obtain q where q: "p = k # q" by blast
    with deeper.prems(2) have "node (JObj s) q = Some b" by simp
    moreover have "well_made (JObj s)" using deeper.prems(1) by simp
    ultimately obtain a where "node (JObj d') q = Some a" "alike a b" using deeper.IH(1) by blast
    moreover from this q have "node (JObj (obj_insert k (JObj d') dst)) p = Some a" by simp
    ultimately show ?thesis using merged_keeps [OF deeper.hyps(3)] kept_alike(1) by blast
  next
    case False
    with deeper.prems have "node (JObj src) p = Some b \<or> p = []" by (cases p) auto
    with deeper.IH(2) [of p b] deeper.prems show ?thesis by (auto simp: alike_def)
  qed
next
  case (same dst k e v src dst')
  show ?case
  proof (cases "\<exists>q. p = k # q")
    case True
    then obtain q where q: "p = k # q" by blast
    with same.prems(2) same.hyps(3) have "q = []" "b = v" by (cases q; cases v; simp)+
    moreover have "node (JObj dst) [k] = Some e" using same.hyps(1) by simp
    from merged_keeps [OF same.hyps(5) this] obtain a where "node (JObj dst') [k] = Some a" "kept a e" by blast
    moreover have "alike e v" using same.hyps by (simp add: alike_def)
    ultimately show ?thesis using kept_alike(1) q by blast
  next
    case False
    with same.prems have "node (JObj src) p = Some b \<or> p = []" by (cases p) auto
    with same.IH [of p b] same.prems show ?thesis by (auto simp: alike_def)
  qed
qed

lemma merged_only:
  "merged dst src dst' \<Longrightarrow> well_made (JObj src) \<Longrightarrow> node (JObj dst') p = Some a \<Longrightarrow>
   \<exists>b. (node (JObj dst) p = Some b \<or> node (JObj src) p = Some b) \<and> kept a b"
proof (induction arbitrary: p a rule: merged.induct)
  case (nothing dst)
  then show ?case by (auto simp: kept_def)
next
  case (fresh dst k v src dst')
  have "well_made (JObj src)" using fresh.prems(1) by simp
  from fresh.IH [OF this fresh.prems(2)]
  obtain b where b: "node (JObj (obj_insert k v dst)) p = Some b \<or> node (JObj src) p = Some b" "kept a b" by blast
  have "\<exists>c. (node (JObj dst) p = Some c \<or> node (JObj ((k, v) # src)) p = Some c) \<and> kept b c"
    if "node (JObj (obj_insert k v dst)) p = Some b" using that by (cases p) (auto simp: kept_def split: if_splits)
  with b node_tail [OF fresh.prems(1)] show ?case using kept_in_trans by blast
next
  case (deeper dst k d s d' src dst')
  have own: "well_made (JObj src)" "well_made (JObj s)" using deeper.prems(1) by auto
  from deeper.IH(2) [OF own(1) deeper.prems(2)]
  obtain b where b: "node (JObj (obj_insert k (JObj d') dst)) p = Some b \<or> node (JObj src) p = Some b" "kept a b" by blast
  have "\<exists>c. (node (JObj dst) p = Some c \<or> node (JObj ((k, JObj s) # src)) p = Some c) \<and> kept b c"
    if "node (JObj (obj_insert k (JObj d') dst)) p = Some b"
  proof (cases "\<exists>q. p = k # q")
    case True
    then obtain q where q: "p = k # q" by blast
    with that have "node (JObj d') q = Some b" by simp
    from deeper.IH(1) [OF own(2) this] q deeper.hyps(1) show ?thesis by simp
  next
    case False
    with that show ?thesis by (cases p) (auto simp: kept_def)
  qed
  with b node_tail [OF deeper.prems(1)] show ?case using kept_in_trans by blast
next
  case (same dst k e v src dst')
  have "well_made (JObj src)" using same.prems(1) by simp
  from same.IH [OF this same.prems(2)]
  obtain b where "node (JObj dst) p = Some b \<or> node (JObj src) p = Some b" "kept a b" by blast
  with node_tail [OF same.prems(1)] kept_in_trans show ?case by blast
qed

text \<open>Whatever equals one value is equal, on values as they are made.\<close>

lemma keys_back:
  assumes "distinct (map fst x)" "distinct (map fst y)" "length x = length y" "fst ` set x \<subseteq> fst ` set y"
  shows "fst ` set x = fst ` set y"
proof (rule card_subset_eq)
  show "card (fst ` set x) = card (fst ` set y)"
    using assms(1-3) by (metis distinct_card length_map list.set_map)
qed (use assms in auto)

lemma json_equal_objD:
  assumes "json_equal (JObj x) (JObj y)" "well_made (JObj x)" "well_made (JObj y)"
  shows "length x = length y" "\<And>k q. map_of y k = Some q \<Longrightarrow> \<exists>p. map_of x k = Some p \<and> json_equal p q"
proof -
  have eq: "length x = length y" "\<And>k p. (k, p) \<in> set x \<Longrightarrow> \<exists>q. map_of y k = Some q \<and> json_equal p q"
    using assms(1) by (auto simp: json_equal.simps [of "JObj x"] split: option.splits)
  then have "fst ` set x \<subseteq> fst ` set y" by (force dest: map_of_SomeD)
  with keys_back [of x y] assms(2,3) eq(1) have keys: "fst ` set x = fst ` set y" by simp
  show "length x = length y" by (rule eq(1))
  fix k q
  assume q: "map_of y k = Some q"
  then have "k \<in> fst ` set x" unfolding keys by (force dest: map_of_SomeD)
  then obtain p where "map_of x k = Some p" by (metis map_of_eq_None_iff not_None_eq)
  with eq(2) [OF map_of_SomeD [OF this]] q show "\<exists>p. map_of x k = Some p \<and> json_equal p q" by auto
qed

lemma json_equal_arr:
  "json_equal (JArr x) (JArr y) \<longleftrightarrow> length x = length y \<and> (\<forall>i < length x. json_equal (x ! i) (y ! i))"
  by (force simp: json_equal.simps [of "JArr x"] set_zip)

lemma json_equal_euclid:
  "json_equal c a \<Longrightarrow> json_equal c b \<Longrightarrow> well_made c \<Longrightarrow> well_made a \<Longrightarrow> well_made b \<Longrightarrow> json_equal a b"
proof (induction "size c" arbitrary: a b c rule: less_induct)
  case less
  show ?case
  proof (cases c)
    case (JNum n)
    with less.prems obtain x y where xy: "a = JNum x" "b = JNum y" "number_equal n x" "number_equal n y"
      by (cases a; cases b) (auto simp: json_equal.simps)
    with less.prems JNum have "number_equal x y" by (simp add: number_equal_value)
    with xy show ?thesis by (simp add: json_equal.simps)
  next
    case (JArr u)
    with less.prems obtain x y where xy: "a = JArr x" "b = JArr y"
      by (cases a; cases b) (auto simp: json_equal.simps)
    have len: "length u = length x" "length u = length y"
      and "\<And>i. i < length u \<Longrightarrow> json_equal (u ! i) (x ! i) \<and> json_equal (u ! i) (y ! i)"
      using less.prems(1,2) by (auto simp: JArr xy json_equal_arr)
    moreover have "size (u ! i) < size c \<and> well_made (u ! i) \<and> well_made (x ! i) \<and> well_made (y ! i)" if "i < length u" for i
      using that less.prems(3-5) len by (auto simp: JArr xy size_list_estimation' less_Suc_eq_le intro!: size_list_estimation')
    ultimately have "\<And>i. i < length u \<Longrightarrow> json_equal (x ! i) (y ! i)" using less.hyps by blast
    with len show ?thesis by (simp add: xy json_equal_arr)
  next
    case (JObj u)
    with less.prems obtain x y where xy: "a = JObj x" "b = JObj y"
      by (cases a; cases b) (auto simp: json_equal.simps)
    note dx = json_equal_objD [OF less.prems(1,3,4) [unfolded JObj xy]]
    note dy = less.prems(2) [unfolded JObj xy]
    have "\<exists>q. map_of y k = Some q \<and> json_equal p q" if p: "(k, p) \<in> set x" for k p
    proof -
      have m: "map_of x k = Some p" using p less.prems(4) xy by simp
      with dx(2) obtain r where r: "map_of u k = Some r" "json_equal r p" by blast
      note ru = map_of_SomeD [OF r(1)]
      with dy obtain q where q: "map_of y k = Some q" "json_equal r q"
        by (auto simp: json_equal.simps [of "JObj u"] split: option.splits)
      have "size r < size c" using size_in_obj [OF ru] by (simp add: JObj)
      moreover have "well_made r" "well_made p" "well_made q"
        using ru p map_of_SomeD [OF q(1)] less.prems(3-5) by (auto simp: JObj xy)
      ultimately show ?thesis using less.hyps r(2) q by blast
    qed
    moreover have "length x = length y" using dx(1) dy by (simp add: json_equal.simps [of "JObj u"])
    ultimately show ?thesis by (force simp: xy json_equal.simps [of "JObj x"])
  qed (use less.prems in \<open>cases a; cases b; auto simp: json_equal.simps\<close>)+
qed

lemma alike_euclid:
  "alike c a \<Longrightarrow> alike c b \<Longrightarrow> well_made c \<Longrightarrow> well_made a \<Longrightarrow> well_made b \<Longrightarrow> alike a b"
  using json_equal_euclid by (auto simp: alike_def)

section \<open>Merging the outputs of the inputs\<close>

abbreviation out_of :: "typed_reducer_input \<Rightarrow> json" where
  "out_of i \<equiv> to_internal (ti_output i)"

abbreviation has_object :: "typed_reducer_input \<Rightarrow> bool" where
  "has_object i \<equiv> ti_has_output i \<and> is_object (out_of i)"

lemma merge_inputs_step:
  assumes "has_object i"
  obtains m where "out_of i = JObj m"
    "merge_inputs jt cf acc (i # is') = sbind (merge_typed jt cf [] acc m) (\<lambda>acc'. merge_inputs jt cf acc' is')"
  using assms by (cases "out_of i") (auto simp: require_output_def sbind_def)

lemma merge_inputs_no_object: "\<not> has_object i \<Longrightarrow> \<exists>e. merge_inputs jt cf acc (i # is') = Inl e"
  by (cases "out_of i") (auto simp: require_output_def sbind_def)

lemma merge_inputs_done:
  "merge_inputs jt MergeError acc inputs = Inr r \<Longrightarrow> \<forall>i \<in> set inputs. well_made (out_of i) \<Longrightarrow>
   (\<forall>i \<in> set inputs. has_object i) \<and>
   (\<forall>p a. node (JObj acc) p = Some a \<longrightarrow> (\<exists>a'. node r p = Some a' \<and> kept a' a)) \<and>
   (\<forall>i \<in> set inputs. \<forall>p b. node (out_of i) p = Some b \<longrightarrow> (\<exists>a. node r p = Some a \<and> alike a b)) \<and>
   (\<forall>p a. node r p = Some a \<longrightarrow>
      (\<exists>b. (node (JObj acc) p = Some b \<or> (\<exists>i \<in> set inputs. node (out_of i) p = Some b)) \<and> kept a b))"
proof (induction inputs arbitrary: acc)
  case (Cons i inputs)
  have obj: "has_object i"
  proof (rule ccontr)
    assume "\<not> has_object i"
    from merge_inputs_no_object [OF this] Cons.prems(1) show False by (metis sum.distinct(1))
  qed
  then obtain m where m: "out_of i = JObj m"
    "merge_inputs jt MergeError acc (i # inputs) = sbind (merge_typed jt MergeError [] acc m) (\<lambda>acc'. merge_inputs jt MergeError acc' inputs)"
    by (rule merge_inputs_step)
  with Cons.prems(1) obtain acc' where acc': "merge_typed jt MergeError [] acc m = Inr acc'"
    "merge_inputs jt MergeError acc' inputs = Inr r"
    by (cases "merge_typed jt MergeError [] acc m") (simp_all add: sbind_def del: merge_inputs.simps)
  have made: "well_made (JObj m)" "\<forall>i \<in> set inputs. well_made (out_of i)" using Cons.prems(2) m(1) by auto
  note merged = merge_typed_merged [OF acc'(1) refl]
  note ih = Cons.IH [OF acc'(2) made(2)]
  have keeps: "\<exists>a'. node r p = Some a' \<and> kept a' a" if "node (JObj acc) p = Some a" for p a
    using merged_keeps [OF merged that] ih kept_in_trans by blast
  have takes: "\<exists>a. node r p = Some a \<and> alike a b" if "node (JObj m) p = Some b" for p b
    using merged_takes [OF merged made(1) that] ih kept_alike(1) by blast
  have only: "\<exists>b. (node (JObj acc) p = Some b \<or> (\<exists>i \<in> set (i # inputs). node (out_of i) p = Some b)) \<and> kept a b"
    if r: "node r p = Some a" for p a
  proof -
    from ih r obtain b where b: "node (JObj acc') p = Some b \<or> (\<exists>i \<in> set inputs. node (out_of i) p = Some b)" "kept a b" by blast
    from b(1) show ?thesis
    proof
      assume "node (JObj acc') p = Some b"
      from merged_only [OF merged made(1) this] b(2) m(1) kept_in_trans show ?thesis by (metis list.set_intros(1))
    qed (use b(2) in auto)
  qed
  show ?case using obj ih keeps takes only m(1) by (intro conjI) (auto 0 3)
qed (auto simp: kept_def)

lemma merge_inputs_refused:
  "merge_inputs jt MergeError acc inputs = Inl e \<Longrightarrow> \<forall>i \<in> set inputs. well_made (out_of i) \<Longrightarrow> \<forall>i \<in> set inputs. has_object i \<Longrightarrow>
   \<exists>i \<in> set inputs. \<exists>p a b. node (out_of i) p = Some b \<and> \<not> alike a b \<and>
     (node (JObj acc) p = Some a \<or> (\<exists>j \<in> set inputs. node (out_of j) p = Some a))"
proof (induction inputs arbitrary: acc)
  case (Cons i inputs)
  have "has_object i" using Cons.prems(3) by simp
  then obtain m where m: "out_of i = JObj m"
    "merge_inputs jt MergeError acc (i # inputs) = sbind (merge_typed jt MergeError [] acc m) (\<lambda>acc'. merge_inputs jt MergeError acc' inputs)"
    by (rule merge_inputs_step)
  have made: "well_made (JObj m)" "\<forall>i \<in> set inputs. well_made (out_of i)" using Cons.prems(2) m(1) by auto
  show ?case
  proof (cases "merge_typed jt MergeError [] acc m")
    case (Inl e')
    from merge_typed_refused [OF this refl made(1)] m(1) show ?thesis by auto
  next
    case (Inr acc')
    with Cons.prems(1) m(2) have "merge_inputs jt MergeError acc' inputs = Inl e"
      by (simp add: sbind_def del: merge_inputs.simps)
    from Cons.IH [OF this made(2)] Cons.prems(3) obtain k p a b where c: "k \<in> set inputs" "node (out_of k) p = Some b" "\<not> alike a b"
      "node (JObj acc') p = Some a \<or> (\<exists>j \<in> set inputs. node (out_of j) p = Some a)"
      by (metis list.set_intros(2))
    from c(4) show ?thesis
    proof
      assume "node (JObj acc') p = Some a"
      from merged_only [OF merge_typed_merged [OF Inr refl] made(1) this] obtain a'
        where a': "node (JObj acc) p = Some a' \<or> node (out_of i) p = Some a'" "kept a a'" unfolding m(1) by blast
      then have "\<not> alike a' b" using c(3) kept_alike(1) by blast
      with a'(1) c(1,2) show ?thesis by (metis list.set_intros)
    next
      assume "\<exists>j \<in> set inputs. node (out_of j) p = Some a"
      with c(1-3) show ?thesis by (metis list.set_intros(2))
    qed
  qed
qed simp

text \<open>C40. A merge that refuses conflicts succeeds exactly when every input has an object as its output and
  any two of them have, at every path of keys that leads somewhere in both, either two objects or two
  values that are equal, numbers compared as numbers.\<close>

theorem merge_refuses_conflicts:
  assumes "\<forall>i \<in> set inputs. well_made (to_internal (ti_output i))"
  shows "(\<exists>r. reduce_typed jt runner MergeError MergeJson inputs = Inr r) \<longleftrightarrow>
    (\<forall>i \<in> set inputs. ti_has_output i \<and> is_object (to_internal (ti_output i))) \<and>
    (\<forall>i \<in> set inputs. \<forall>j \<in> set inputs. \<forall>p a b.
       node (to_internal (ti_output i)) p = Some a \<longrightarrow> node (to_internal (ti_output j)) p = Some b \<longrightarrow> alike a b)"
    (is "?done \<longleftrightarrow> ?objects \<and> ?agree")
proof
  assume ?done
  then obtain r where "merge_inputs jt MergeError [] inputs = Inr r" by (auto simp: reduce_typed_def)
  note facts = merge_inputs_done [OF this assms]
  show "?objects \<and> ?agree"
  proof (intro conjI ballI allI impI)
    fix i j p a b
    assume ij: "i \<in> set inputs" "j \<in> set inputs" "node (out_of i) p = Some a" "node (out_of j) p = Some b"
    with facts obtain c where c: "node r p = Some c" "alike c a" "alike c b" by (metis option.inject)
    with facts obtain d where d: "node (JObj []) p = Some d \<or> (\<exists>i \<in> set inputs. node (out_of i) p = Some d)" "kept c d" by blast
    have "is_object c \<or> well_made c"
    proof (cases "is_object c")
      case False
      with d have "c = d" by (simp add: kept_def)
      moreover from d(1) this have "(\<exists>i \<in> set inputs. node (out_of i) p = Some d) \<or> d = JObj []" by (cases p) auto
      moreover have "well_made d" if "i \<in> set inputs" "node (out_of i) p = Some d" for i
        using well_made_node [OF that(2)] assms that(1) by blast
      ultimately show ?thesis by auto
    qed simp
    moreover have "well_made a" "well_made b" using ij assms well_made_node by blast+
    moreover have "alike a b" if "is_object c" using c(2,3) that by (simp add: alike_def)
    ultimately show "alike a b" using alike_euclid [OF c(2,3)] by blast
  qed (use facts in auto)
next
  assume agree: "?objects \<and> ?agree"
  show ?done
  proof (rule ccontr)
    assume "\<not> ?done"
    then obtain e where "merge_inputs jt MergeError [] inputs = Inl e"
      by (cases "merge_inputs jt MergeError [] inputs") (auto simp: reduce_typed_def)
    from merge_inputs_refused [OF this assms] agree obtain i p a b
      where c: "i \<in> set inputs" "node (out_of i) p = Some b" "\<not> alike a b"
        "node (JObj []) p = Some a \<or> (\<exists>j \<in> set inputs. node (out_of j) p = Some a)" by blast
    from c(4) show False
    proof
      assume a: "node (JObj []) p = Some a"
      then have "p = []" "is_object a" by (cases p; auto)+
      moreover have "is_object b" using \<open>p = []\<close> c(1,2) agree by auto
      ultimately show False using c(3) by (simp add: alike_def)
    next
      assume "\<exists>j \<in> set inputs. node (out_of j) p = Some a"
      with agree c(1-3) show False by blast
    qed
  qed
qed

text \<open>What such a merge returns is the union of its inputs: every value of an input is in the result
  at its path, as an object or as an equal value, and every value of the result is that of some input at
  that path, an object put together from them excepted.\<close>

theorem merge_is_union:
  assumes "\<forall>i \<in> set inputs. well_made (to_internal (ti_output i))"
    and "reduce_typed jt runner MergeError MergeJson inputs = Inr r"
  shows "(\<forall>i \<in> set inputs. \<forall>p b. node (to_internal (ti_output i)) p = Some b \<longrightarrow> (\<exists>a. node r p = Some a \<and> alike a b)) \<and>
    (\<forall>p a. p \<noteq> [] \<longrightarrow> node r p = Some a \<longrightarrow>
       (\<exists>i \<in> set inputs. \<exists>b. node (to_internal (ti_output i)) p = Some b \<and> (a = b \<or> is_object a \<and> is_object b)))"
proof -
  have "merge_inputs jt MergeError [] inputs = Inr r" using assms(2) by (simp add: reduce_typed_def)
  note facts = merge_inputs_done [OF this assms(1)]
  have "\<exists>i \<in> set inputs. \<exists>b. node (out_of i) p = Some b \<and> kept a b" if "p \<noteq> []" "node r p = Some a" for p a
  proof -
    have "node (JObj []) p = None" using that(1) by (cases p) auto
    with facts that(2) show ?thesis by (metis option.distinct(1))
  qed
  with facts show ?thesis by (simp add: kept_def)
qed

text \<open>Two reports about one item, and a third that disagrees with the first.\<close>

definition silent_text :: json_text where
  "silent_text = \<lparr>jt_print = (\<lambda>_. None), jt_parse = (\<lambda>_. None)\<rparr>"

definition sample_input :: "string \<Rightarrow> json \<Rightarrow> typed_reducer_input" where
  "sample_input t v = \<lparr>ti_task = t, ti_state = ''succeeded'', ti_has_output = True, ti_output = TVJson v, ti_attempt = None\<rparr>"

definition first_report :: json where
  "first_report = JObj [(''item'', JObj [(''name'', JStr ''disk'')]), (''ok'', JBool True)]"

definition second_report :: json where
  "second_report = JObj [(''item'', JObj [(''size'', JNum (PosInt 3))]), (''ok'', JBool True)]"

definition third_report :: json where
  "third_report = JObj [(''item'', JObj [(''name'', JStr ''tape'')])]"

lemma merge_refuses_conflicts_witness:
  "\<not> (\<exists>r. reduce_typed silent_text (\<lambda>_ _. Inr []) MergeError MergeJson
     [sample_input ''a'' first_report, sample_input ''b'' second_report, sample_input ''c'' third_report] = Inr r)"
proof -
  have "node first_report [''item'', ''name''] = Some (JStr ''disk'')" "node third_report [''item'', ''name''] = Some (JStr ''tape'')"
    by (simp_all add: first_report_def third_report_def)
  moreover have "\<not> alike (JStr ''disk'') (JStr ''tape'')" by (simp add: alike_def json_equal.simps)
  moreover have "\<forall>i \<in> set [sample_input ''a'' first_report, sample_input ''b'' second_report, sample_input ''c'' third_report].
      well_made (to_internal (ti_output i))"
    by (simp add: sample_input_def first_report_def second_report_def third_report_def)
  note merge_refuses_conflicts [OF this, of silent_text "\<lambda>_ _. Inr []"]
  ultimately show ?thesis by (auto simp: sample_input_def)
qed

lemma merge_is_union_witness:
  "\<exists>r. reduce_typed silent_text (\<lambda>_ _. Inr []) MergeError MergeJson
     [sample_input ''a'' first_report, sample_input ''b'' second_report] = Inr r \<and>
   (\<exists>a. node r [''item'', ''size''] = Some a \<and> alike a (JNum (PosInt 3)))"
proof -
  let ?is = "[sample_input ''a'' first_report, sample_input ''b'' second_report]"
  let ?r = "JObj [(''item'', JObj [(''name'', JStr ''disk''), (''size'', JNum (PosInt 3))]), (''ok'', JBool True)]"
  have made: "\<forall>i \<in> set ?is. well_made (to_internal (ti_output i))"
    by (simp add: sample_input_def first_report_def second_report_def)
  have r: "reduce_typed silent_text (\<lambda>_ _. Inr []) MergeError MergeJson ?is = Inr ?r" by code_simp
  have "node (to_internal (ti_output (sample_input ''b'' second_report))) [''item'', ''size''] = Some (JNum (PosInt 3))"
    by (simp add: sample_input_def second_report_def)
  with conjunct1 [OF merge_is_union [OF made r]] have "\<exists>a. node ?r [''item'', ''size''] = Some a \<and> alike a (JNum (PosInt 3))" by (meson list.set_intros)
  with r show ?thesis by blast
qed

end
