(* ===== verification/Task_Dag.thy ===== *)
theory Task_Dag
  imports Task_Result Task_Graph
begin

text \<open>
  The view of the tasks of a workspace as DAGs (\<open>task/dag.rs\<close>): tasks with the same key
  \<open>metadata.dag\<close> belong together, the others by the references between them, found with a union-find. A
  summary counts the states of a group and rolls them up. \<open>None\<close> is a panic: an index out of range, an
  empty component.
\<close>

section \<open>Counting states\<close>

record dag_counts =
  dc_waiting :: nat
  dc_ready :: nat
  dc_running :: nat
  dc_succeeded :: nat
  dc_failed :: nat
  dc_cancelled :: nat
  dc_skipped :: nat
  dc_unknown :: nat
  dc_not_selected :: nat
  dc_recovered :: nat
  dc_blocked :: nat
  dc_succeeded_ends :: nat
  dc_awaiting_input :: nat

definition no_counts :: dag_counts where
  "no_counts = \<lparr>dc_waiting = 0, dc_ready = 0, dc_running = 0, dc_succeeded = 0, dc_failed = 0, dc_cancelled = 0,
     dc_skipped = 0, dc_unknown = 0, dc_not_selected = 0, dc_recovered = 0, dc_blocked = 0,
     dc_succeeded_ends = 0, dc_awaiting_input = 0\<rparr>"

definition counts_add :: "task \<Rightarrow> dag_counts \<Rightarrow> dag_counts" where
  "counts_add t c =
     (let c1 = (if is_not_selected t then c\<lparr>dc_not_selected := dc_not_selected c + 1\<rparr> else c);
          c2 = (if task_phase t = Some ''awaiting_input'' then c1\<lparr>dc_awaiting_input := dc_awaiting_input c1 + 1\<rparr> else c1)
      in case t_state t of
           Waiting \<Rightarrow> c2\<lparr>dc_waiting := dc_waiting c2 + 1\<rparr>
         | Ready \<Rightarrow> c2\<lparr>dc_ready := dc_ready c2 + 1\<rparr>
         | Running \<Rightarrow> c2\<lparr>dc_running := dc_running c2 + 1\<rparr>
         | Succeeded \<Rightarrow> c2\<lparr>dc_succeeded := dc_succeeded c2 + 1\<rparr>
         | Failed _ \<Rightarrow> c2\<lparr>dc_failed := dc_failed c2 + 1\<rparr>
         | Cancelled \<Rightarrow> c2\<lparr>dc_cancelled := dc_cancelled c2 + 1\<rparr>
         | Skipped \<Rightarrow> c2\<lparr>dc_skipped := dc_skipped c2 + 1\<rparr>
         | Unknown _ \<Rightarrow> c2\<lparr>dc_unknown := dc_unknown c2 + 1\<rparr>)"

definition rollup :: "dag_counts \<Rightarrow> string" where
  "rollup c =
     (if dc_running c > 0 then ''running''
      else if dc_ready c > 0 then ''ready''
      else if dc_waiting c > dc_blocked c then ''waiting''
      else if dc_failed c > dc_recovered c
      then (if dc_succeeded_ends c > 0 then ''partially_failed'' else ''failed'')
      else if dc_blocked c > 0 \<or> dc_unknown c > 0 then ''waiting''
      else if dc_cancelled c = 0 \<and> dc_skipped c \<le> dc_not_selected c then ''succeeded''
      else ''skipped'')"

section \<open>The union-find\<close>

text \<open>\<open>find\<close> halves the path: it returns the root and the changed parents. \<open>None\<close> also where it does not end.\<close>

partial_function (option) find_root :: "nat list \<Rightarrow> nat \<Rightarrow> (nat \<times> nat list) option" where
  "find_root p x =
     (if length p \<le> x then None
      else if p ! x = x then Some (x, p)
      else if length p \<le> p ! x then None
      else let p' = p[x := p ! (p ! x)] in find_root p' (p' ! x))"

definition unite :: "nat list \<Rightarrow> nat \<Rightarrow> nat \<Rightarrow> nat list option" where
  "unite p a b =
     Option.bind (find_root p a) (\<lambda>(ra, p1).
     Option.bind (find_root p1 b) (\<lambda>(rb, p2).
     Some (if ra \<noteq> rb then p2[max ra rb := min ra rb] else p2)))"

fun unite_all :: "nat list \<Rightarrow> (nat \<times> nat) list \<Rightarrow> nat list option" where
  "unite_all p [] = Some p"
| "unite_all p ((a, b) # es) = Option.bind (unite p a b) (\<lambda>p'. unite_all p' es)"

fun find_all :: "nat list \<Rightarrow> nat list \<Rightarrow> nat list option" where
  "find_all p [] = Some []"
| "find_all p (x # xs) =
     Option.bind (find_root p x) (\<lambda>(r, p'). Option.bind (find_all p' xs) (\<lambda>rs. Some (r # rs)))"

section \<open>Grouping\<close>

text \<open>The entries of a \<open>BTreeMap\<close> from a key to what has it.\<close>

definition grouped :: "('a \<Rightarrow> 'k :: linorder) \<Rightarrow> 'a list \<Rightarrow> ('k \<times> 'a list) list" where
  "grouped key xs = map (\<lambda>k. (k, filter (\<lambda>x. key x = k) xs)) (sort (remdups (map key xs)))"

definition meta_text :: "task \<Rightarrow> string \<Rightarrow> string option" where
  "meta_text t k =
     (case jget (t_metadata t) k of
        Some (JStr s) \<Rightarrow> (if trim s = [] then None else Some (trim s))
      | _ \<Rightarrow> None)"

definition explicit_dag_key :: "task \<Rightarrow> string option" where
  "explicit_dag_key t = meta_text t ''dag''"

definition pool_index :: "task list \<Rightarrow> string \<Rightarrow> nat option" where
  "pool_index pool i = map_option fst (find (\<lambda>(n, t). t_id t = i) (rev (enumerate 0 pool)))"

text \<open>The pairs that are united, in this order: references, then the main task of a fallback.\<close>

definition pool_edges :: "task list \<Rightarrow> (nat \<times> nat) list" where
  "pool_edges pool =
     concat (map (\<lambda>(n, t). List.map_filter (\<lambda>i. map_option (Pair n) (pool_index pool i))
         (referenced_task_ids t @ (case fallback_of t of Some main \<Rightarrow> [main] | None \<Rightarrow> [])))
       (enumerate 0 pool))"

definition weakly_connected_components :: "task list \<Rightarrow> task list list option" where
  "weakly_connected_components pool =
     Option.bind (unite_all [0..<length pool] (pool_edges pool)) (\<lambda>p.
     Option.bind (find_all p [0..<length pool]) (\<lambda>roots.
     Some (map (\<lambda>(_, es). map snd es) (grouped fst (zip roots pool)))))"

section \<open>Recovery and ends\<close>

text \<open>The fallback of a task within its members.\<close>

definition group_fallback :: "task list \<Rightarrow> task \<Rightarrow> task option" where
  "group_fallback members t =
     (case t_on_failure t of
        Fallback (Some i) _ \<Rightarrow> find (\<lambda>u. t_id u = i) members
      | Fallback None (Some _) \<Rightarrow> find (\<lambda>u. fallback_of u = Some (t_id t)) members
      | _ \<Rightarrow> None)"

lemma group_fallback_mem: "group_fallback members t = Some u \<Longrightarrow> u \<in> set members"
  by (auto simp: group_fallback_def find_Some_iff split: on_failure.splits option.splits)

function recovered_by_fallback :: "task list \<Rightarrow> string list \<Rightarrow> task \<Rightarrow> bool" where
  "recovered_by_fallback members seen t =
     (if \<not> is_failed (t_state t) \<or> t_id t \<in> set seen then False
      else case group_fallback members t of
             Some fb \<Rightarrow> if t_state fb = Succeeded then True else recovered_by_fallback members (seen @ [t_id t]) fb
           | None \<Rightarrow> False)"
  by pat_completeness simp

termination
proof (relation "measure (\<lambda>(members, seen, t). card (insert (t_id t) (t_id ` set members) - set seen))", goal_cases)
  case (2 members seen t fb)
  then have "t_id fb \<in> t_id ` set members" by (auto dest: group_fallback_mem)
  then have ids: "insert (t_id fb) (t_id ` set members) = t_id ` set members" by (rule insert_absorb)
  have "t_id t \<notin> set seen" using 2 by blast
  then have "t_id ` set members - set (seen @ [t_id t]) \<subset> insert (t_id t) (t_id ` set members) - set seen" by auto
  then have "card (t_id ` set members - set (seen @ [t_id t])) < card (insert (t_id t) (t_id ` set members) - set seen)"
    by (intro psubset_card_mono) simp_all
  then show ?case by (simp only: in_measure prod.case ids)
qed simp

declare recovered_by_fallback.simps [simp del]

text \<open>Where the flow goes from a task: its transitions and its fallback.\<close>

definition forward_refs :: "task \<Rightarrow> string list" where
  "forward_refs t =
     transition_targets t @ (case t_on_failure t of Fallback (Some fb) _ \<Rightarrow> [fb] | _ \<Rightarrow> [])"

definition is_end :: "task list \<Rightarrow> string list \<Rightarrow> task \<Rightarrow> bool" where
  "is_end members fallback_ids t \<longleftrightarrow>
     t_id t \<notin> set fallback_ids \<and>
     \<not> (\<exists>i \<in> set (transition_targets t). i \<in> t_id ` set members \<and>
          (\<exists>m \<in> set members. t_id m = i \<and> \<not> is_not_selected m)) \<and>
     \<not> (\<exists>m \<in> set members. t_id m \<noteq> t_id t \<and> \<not> is_not_selected m \<and>
          t_id t \<in> set (referenced_task_ids m) \<and> t_id t \<notin> set (forward_refs m))"

section \<open>Blocked tasks\<close>

definition awaited_ids :: "task list \<Rightarrow> task \<Rightarrow> string list" where
  "awaited_ids all t =
     t_depends_on t @ reduce_inputs t @ binding_task_ids t
     @ map t_id (filter (\<lambda>m. t_id m \<noteq> t_id t \<and> t_id t \<in> set (forward_refs m)) all)
     @ (case fallback_of t of Some main \<Rightarrow> [main] | None \<Rightarrow> [])"

fun is_unknown :: "task_state \<Rightarrow> bool" where
  "is_unknown (Unknown _) \<longleftrightarrow> True"
| "is_unknown _ \<longleftrightarrow> False"

fun is_unavailable :: "verdict option \<Rightarrow> bool" where
  "is_unavailable (Some (Unavailable _)) \<longleftrightarrow> True"
| "is_unavailable _ \<longleftrightarrow> False"

text \<open>One pass over the waiting tasks with what they wait for.\<close>

fun blocked_pass :: "string list \<Rightarrow> (string \<times> string list) list \<Rightarrow> string list \<Rightarrow> string list" where
  "blocked_pass unknown [] blocked = blocked"
| "blocked_pass unknown ((i, awaited) # ws) blocked =
     blocked_pass unknown ws
       (if i \<notin> set blocked \<and> (\<exists>a \<in> set awaited. a \<in> set blocked \<or> a \<in> set unknown)
        then i # blocked else blocked)"

lemma blocked_pass_keeps: "set blocked \<subseteq> set (blocked_pass unknown ws blocked)"
  by (induction unknown ws blocked rule: blocked_pass.induct) (auto split: if_splits)

lemma blocked_pass_adds:
  "length (blocked_pass unknown ws blocked) \<noteq> length blocked \<Longrightarrow>
   \<exists>i \<in> fst ` set ws. i \<in> set (blocked_pass unknown ws blocked) \<and> i \<notin> set blocked"
proof (induction unknown ws blocked rule: blocked_pass.induct)
  case (2 unknown i awaited ws blocked)
  show ?case
  proof (cases "i \<notin> set blocked \<and> (\<exists>a \<in> set awaited. a \<in> set blocked \<or> a \<in> set unknown)")
    case True
    then have "i \<in> set (blocked_pass unknown ws (i # blocked))" using blocked_pass_keeps by fastforce
    with True show ?thesis by auto
  next
    case False
    with 2 show ?thesis by (auto split: if_splits)
  qed
qed simp

function blocked_loop :: "string list \<Rightarrow> (string \<times> string list) list \<Rightarrow> string list \<Rightarrow> string list" where
  "blocked_loop unknown ws blocked =
     (let blocked' = blocked_pass unknown ws blocked
      in if length blocked' = length blocked then blocked' else blocked_loop unknown ws blocked')"
  by pat_completeness auto

termination
proof (relation "measure (\<lambda>(unknown, ws, blocked). card (fst ` set ws - set blocked))", goal_cases)
  case (2 unknown ws blocked blocked')
  with blocked_pass_adds [of unknown ws blocked] blocked_pass_keeps [of blocked unknown ws]
  show ?case by (auto intro!: psubset_card_mono)
qed simp

declare blocked_loop.simps [simp del]

definition blocked_task_ids :: "(task list \<Rightarrow> task list) \<Rightarrow> task list \<Rightarrow> string list" where
  "blocked_task_ids order all =
     (let g = build order all
      in blocked_loop (map t_id (filter (\<lambda>t. is_unknown (t_state t)) all))
           (map (\<lambda>t. (t_id t, awaited_ids all t)) (filter (\<lambda>t. t_state t = Waiting) all))
           (remdups (map t_id (filter (\<lambda>t. t_state t = Waiting \<and> is_unavailable (readiness g (t_id t))) all))))"

section \<open>Summaries\<close>

record dag_summary =
  ds_id :: string
  ds_workspace :: u32
  ds_name :: string
  ds_source :: string
  ds_task_count :: nat
  ds_counts :: dag_counts
  ds_rollup :: string
  ds_created :: u64
  ds_updated :: u64
  ds_roots :: "string list"
  ds_cycle :: bool
  ds_tasks :: "string list"

definition task_age :: "task \<Rightarrow> u64 \<times> string" where
  "task_age t = (t_created t, t_id t)"

definition fallbacks_of_members :: "task list \<Rightarrow> string list" where
  "fallbacks_of_members members =
     map t_id (filter (\<lambda>t. case fallback_of t of Some main \<Rightarrow> main \<in> t_id ` set members | None \<Rightarrow> False) members)"

definition fallback_task_ids :: "task list \<Rightarrow> string list" where
  "fallback_task_ids members =
     List.map_filter (\<lambda>t. case t_on_failure t of Fallback (Some fb) _ \<Rightarrow> Some fb | _ \<Rightarrow> None) members
     @ fallbacks_of_members members"

definition count_group :: "string list \<Rightarrow> task list \<Rightarrow> dag_counts" where
  "count_group blocked members =
     foldl (\<lambda>c t.
         let c1 = counts_add t c;
             c2 = (if recovered_by_fallback members [] t then c1\<lparr>dc_recovered := dc_recovered c1 + 1\<rparr> else c1)
         in if t_id t \<in> set blocked then c2\<lparr>dc_blocked := dc_blocked c2 + 1\<rparr> else c2) no_counts members"

definition end_count :: "task list \<Rightarrow> nat" where
  "end_count members =
     length (filter (\<lambda>t. is_end members (fallback_task_ids members) t \<and>
       (t_state t = Succeeded \<or> recovered_by_fallback members [] t)) members)"

definition group_roots :: "task list \<Rightarrow> string list" where
  "group_roots members =
     map t_id (filter (\<lambda>t.
       t_id t \<notin> set (concat (map forward_refs members) @ fallbacks_of_members members) \<and>
       \<not> (\<exists>r \<in> set (referenced_task_ids t). r \<in> t_id ` set members \<and> r \<notin> set (forward_refs t))) members)"

definition group_has_cycle :: "(task list \<Rightarrow> task list) \<Rightarrow> task list \<Rightarrow> bool" where
  "group_has_cycle order members =
     (case detect_cycles (build order members) of Inl (DependencyCycle _) \<Rightarrow> True | _ \<Rightarrow> False)"

definition group_name :: "string option \<Rightarrow> task list \<Rightarrow> string" where
  "group_name explicit_key members =
     (case List.map_filter (\<lambda>t. meta_text t ''dag_name'') members of
        n # _ \<Rightarrow> n
      | [] \<Rightarrow> (case explicit_key of
                 Some k \<Rightarrow> k
               | None \<Rightarrow> (case members of t # _ \<Rightarrow> t_name t | [] \<Rightarrow> [])))"

definition summarize ::
  "(task list \<Rightarrow> task list) \<Rightarrow> string list \<Rightarrow> u32 \<Rightarrow> string \<Rightarrow> string \<Rightarrow> string option \<Rightarrow> task list \<Rightarrow> dag_summary" where
  "summarize order blocked ws i source explicit_key members =
     (let sorted = sort_key task_age members;
          counts = (count_group blocked sorted)\<lparr>dc_succeeded_ends := end_count sorted\<rparr>;
          created = foldl (\<lambda>m t. min m (t_created t)) (- 1) sorted;
          updated = foldl (\<lambda>m t. max (max (max m (case t_finished t of Some x \<Rightarrow> x | None \<Rightarrow> 0))
            (case t_started t of Some x \<Rightarrow> x | None \<Rightarrow> 0)) (t_created t)) 0 sorted
      in \<lparr>ds_id = i, ds_workspace = ws, ds_name = group_name explicit_key sorted, ds_source = source,
          ds_task_count = length sorted, ds_counts = counts, ds_rollup = rollup counts,
          ds_created = (if created = - 1 then 0 else created), ds_updated = updated,
          ds_roots = group_roots sorted, ds_cycle = group_has_cycle order sorted, ds_tasks = map t_id sorted\<rparr>)"

definition derived_summary ::
  "(task list \<Rightarrow> task list) \<Rightarrow> string list \<Rightarrow> u32 \<Rightarrow> task list \<Rightarrow> dag_summary option" where
  "derived_summary order blocked ws members =
     (case sort_key task_age members of
        [] \<Rightarrow> None
      | root # _ \<Rightarrow> Some (summarize order blocked ws (''c:'' @ t_id root) ''derived'' None members))"

definition group_within_workspace ::
  "(task list \<Rightarrow> task list) \<Rightarrow> u32 \<Rightarrow> task list \<Rightarrow> dag_summary list option" where
  "group_within_workspace order ws tasks =
     (let explicit = grouped (\<lambda>t. the (explicit_dag_key t)) (filter (\<lambda>t. explicit_dag_key t \<noteq> None) tasks);
          pool = filter (\<lambda>t. explicit_dag_key t = None) tasks;
          blocked = blocked_task_ids order tasks
      in Option.bind (weakly_connected_components pool) (\<lambda>groups.
         Option.bind (those (map (derived_summary order blocked ws) groups)) (\<lambda>derived.
         Some (sort_key ds_id
           (map (\<lambda>(k, members). summarize order blocked ws (''d:'' @ k) ''explicit'' (Some k) members) explicit
            @ derived)))))"

definition group_tasks_into_dags :: "(task list \<Rightarrow> task list) \<Rightarrow> task list \<Rightarrow> dag_summary list option" where
  "group_tasks_into_dags order tasks =
     map_option concat (those (map (\<lambda>(ws, ts). group_within_workspace order ws ts) (grouped t_workspace tasks)))"

end
