(* ===== verification/Task_Dag_Laws.thy ===== *)
theory Task_Dag_Laws
  imports Task_Dag
begin

text \<open>
  The grouping of tasks: the union-find returns and computes the connected components, every task is in
  exactly one group, and the blocked tasks are a least set.
\<close>

section \<open>The union-find\<close>

text \<open>Parents lie below, so every path ends in a root.\<close>

definition uf_ok :: "nat list \<Rightarrow> bool" where
  "uf_ok p \<longleftrightarrow> (\<forall>x < length p. p ! x \<le> x)"

function root_of :: "nat list \<Rightarrow> nat \<Rightarrow> nat" where
  "root_of p x = (if x < length p \<and> p ! x < x then root_of p (p ! x) else x)"
  by pat_completeness auto
termination by (relation "measure snd") auto

declare root_of.simps [simp del]

lemma root_stop: "p ! x = x \<Longrightarrow> root_of p x = x"
  by (simp add: root_of.simps)

lemma root_step: "uf_ok p \<Longrightarrow> x < length p \<Longrightarrow> root_of p (p ! x) = root_of p x"
  by (cases "p ! x = x") (simp, subst (2) root_of.simps, auto simp: uf_ok_def dest: le_neq_implies_less)

lemma uf_le:
  assumes "uf_ok p" "x < length p"
  shows "p ! x \<le> x" "p ! x < length p" "p ! (p ! x) \<le> p ! x"
proof -
  show le: "p ! x \<le> x" using assms by (simp add: uf_ok_def)
  with assms(2) show "p ! x < length p" by simp
  with assms(1) show "p ! (p ! x) \<le> p ! x" by (simp add: uf_ok_def)
qed

lemma root_bounds: "uf_ok p \<Longrightarrow> x < length p \<Longrightarrow> root_of p x \<le> x \<and> p ! root_of p x = root_of p x"
proof (induction x rule: less_induct)
  case (less x)
  show ?case
  proof (cases "p ! x < x")
    case True
    with less.IH [OF True less.prems(1)] less.prems show ?thesis by (subst root_of.simps, subst (2) root_of.simps, subst (3) root_of.simps) auto
  next
    case False
    with less.prems have "p ! x = x" by (auto simp: uf_ok_def dest: le_neq_implies_less)
    then show ?thesis by (simp add: root_stop)
  qed
qed

lemma root_halved:
  assumes "uf_ok p" "x < length p"
  shows "root_of (p[x := p ! (p ! x)]) y = root_of p y"
proof (induction y rule: less_induct)
  case (less y)
  let ?q = "p[x := p ! (p ! x)]"
  note le = uf_le(1,3) [OF assms]
  show ?case
  proof (cases "y = x")
    case True
    show ?thesis
    proof (cases "p ! (p ! x) < x")
      case True
      then have "root_of ?q x = root_of ?q (p ! (p ! x))" using assms(2) by (subst root_of.simps) simp
      also have "\<dots> = root_of p (p ! (p ! x))" using less.IH True \<open>y = x\<close> by simp
      also have "\<dots> = root_of p x" using root_step [OF assms(1)] assms(2) le by simp
      finally show ?thesis using \<open>y = x\<close> by simp
    next
      case False
      with le have "p ! x = x" by simp
      then show ?thesis using \<open>y = x\<close> assms(2) by (simp add: list_update_id root_stop)
    qed
  next
    case False
    with less.IH show ?thesis by (subst (1 2) root_of.simps) auto
  qed
qed

lemma find_root_exact:
  assumes "uf_ok p" "x < length p"
  shows "\<exists>p'. find_root p x = Some (root_of p x, p') \<and> uf_ok p' \<and> length p' = length p \<and> root_of p' = root_of p"
  using assms
proof (induction x arbitrary: p rule: less_induct)
  case (less x)
  show ?case
  proof (cases "p ! x = x")
    case True
    with less.prems show ?thesis by (subst find_root.simps) (simp add: root_stop)
  next
    case False
    let ?q = "p[x := p ! (p ! x)]"
    have le: "p ! x < x" "p ! (p ! x) \<le> p ! x" using uf_le [OF less.prems] False by simp_all
    have q: "uf_ok ?q" "?q ! x = p ! (p ! x)"
      using less.prems le_trans [OF le(2) less_imp_le [OF le(1)]] by (auto simp: uf_ok_def nth_list_update)
    have roots: "root_of ?q = root_of p" using root_halved [OF less.prems] by blast
    have "root_of p (p ! (p ! x)) = root_of p x" using root_step less.prems le by simp
    moreover have "find_root p x = find_root ?q (?q ! x)"
      using less.prems False le by (subst find_root.simps) (simp add: Let_def)
    ultimately show ?thesis using less.IH [OF _ q(1), of "p ! (p ! x)"] le less.prems q(2) by (simp add: roots)
  qed
qed

lemma root_linked:
  assumes "uf_ok p" "hi < length p" "p ! hi = hi" "p ! lo = lo" "lo < hi"
  shows "root_of (p[hi := lo]) y = (if root_of p y = hi then lo else root_of p y)"
proof (induction y rule: less_induct)
  case (less y)
  let ?q = "p[hi := lo]"
  consider "y = hi" | "y \<noteq> hi" "y < length p" "p ! y < y" | "y \<noteq> hi" "\<not> (y < length p \<and> p ! y < y)" by blast
  then show ?case
  proof cases
    case 1
    have "root_of ?q hi = root_of ?q lo" using assms by (subst root_of.simps) simp
    moreover have "root_of ?q lo = lo" using assms by (intro root_stop) simp
    ultimately show ?thesis using 1 assms(3) by (simp add: root_stop)
  next
    case 2
    then have "root_of ?q y = root_of ?q (p ! y)" "root_of p y = root_of p (p ! y)"
      by (subst root_of.simps, simp)+
    with less.IH [OF 2(3)] show ?thesis by simp
  next
    case 3
    then have "root_of ?q y = y" "root_of p y = y" by (subst root_of.simps; auto)+
    with 3 show ?thesis by simp
  qed
qed

lemma unite_exact:
  assumes "uf_ok p" "a < length p" "b < length p"
  shows "\<exists>p'. unite p a b = Some p' \<and> uf_ok p' \<and> length p' = length p \<and>
    (\<forall>y. root_of p' y = (if root_of p y \<in> {root_of p a, root_of p b}
       then min (root_of p a) (root_of p b) else root_of p y))"
proof -
  obtain p1 where p1: "find_root p a = Some (root_of p a, p1)" "uf_ok p1" "length p1 = length p" "root_of p1 = root_of p"
    using find_root_exact [OF assms(1,2)] by blast
  obtain p2 where p2: "find_root p1 b = Some (root_of p b, p2)" "uf_ok p2" "length p2 = length p" "root_of p2 = root_of p"
    using find_root_exact [OF p1(2), of b] assms(3) p1(3,4) by auto
  let ?ra = "root_of p a" and ?rb = "root_of p b"
  show ?thesis
  proof (cases "?ra = ?rb")
    case True
    with p1 p2 show ?thesis by (simp add: unite_def)
  next
    case False
    let ?hi = "max ?ra ?rb" and ?lo = "min ?ra ?rb"
    have r: "root_of p2 a = ?ra" "root_of p2 b = ?rb" using p2 by simp_all
    have ok: "?ra < length p" "?rb < length p" "p2 ! ?ra = ?ra" "p2 ! ?rb = ?rb"
      using root_bounds [OF p2(2), of a] root_bounds [OF p2(2), of b] assms p2(3) r by auto
    have bounds: "?hi < length p2" "p2 ! ?hi = ?hi" "p2 ! ?lo = ?lo" "?lo < ?hi"
      using ok False p2(3) by (auto simp: max_def min_def)
    have "uf_ok (p2[?hi := ?lo])" using p2(2) bounds by (auto simp: uf_ok_def nth_list_update)
    moreover have "root_of (p2[?hi := ?lo]) y = (if root_of p y \<in> {?ra, ?rb} then ?lo else root_of p y)" for y
      unfolding root_linked [OF p2(2) bounds] p2(4) by (auto simp: max_def min_def)
    moreover have "unite p a b = Some (p2[?hi := ?lo])" using p1(1) p2(1) False by (simp add: unite_def)
    ultimately show ?thesis using p2(3) by auto
  qed
qed

text \<open>What has been united has one root, and one root means a path of pairs.\<close>

definition joined :: "(nat \<times> nat) list \<Rightarrow> nat \<Rightarrow> nat \<Rightarrow> bool" where
  "joined es = equivclp (\<lambda>a b. (a, b) \<in> set es)"

definition uniting :: "nat list \<Rightarrow> (nat \<times> nat) list \<Rightarrow> nat list \<Rightarrow> bool" where
  "uniting p es p' \<longleftrightarrow> uf_ok p' \<and> length p' = length p \<and>
    (\<forall>x y. root_of p x = root_of p y \<longrightarrow> root_of p' x = root_of p' y) \<and>
    (\<forall>(a, b) \<in> set es. root_of p' a = root_of p' b) \<and>
    (\<forall>R y. equivp R \<longrightarrow> (\<forall>(a, b) \<in> set es. R a b) \<longrightarrow> (\<forall>x. R x (root_of p x)) \<longrightarrow> R y (root_of p' y))"

lemma unite_all_exact:
  assumes "uf_ok p" "\<forall>(a, b) \<in> set es. a < length p \<and> b < length p"
  shows "\<exists>p'. unite_all p es = Some p' \<and> uniting p es p'"
  using assms
proof (induction es arbitrary: p)
  case (Cons e es)
  obtain a b where e: "e = (a, b)" by (cases e)
  obtain p1 where p1: "unite p a b = Some p1" "uf_ok p1" "length p1 = length p"
    and roots: "\<And>y. root_of p1 y = (if root_of p y \<in> {root_of p a, root_of p b}
       then min (root_of p a) (root_of p b) else root_of p y)"
    using unite_exact [OF Cons.prems(1), of a b] Cons.prems(2) e by auto
  have "\<forall>(a, b) \<in> set es. a < length p1 \<and> b < length p1" using Cons.prems(2) p1(3) by simp
  from Cons.IH [OF p1(2) this] obtain p' where all: "unite_all p1 es = Some p'" and "uniting p1 es p'" by blast
  then have p': "uf_ok p'" "length p' = length p1"
    "\<And>x y. root_of p1 x = root_of p1 y \<Longrightarrow> root_of p' x = root_of p' y"
    "\<forall>(a, b) \<in> set es. root_of p' a = root_of p' b"
    "\<And>R y. equivp R \<Longrightarrow> \<forall>(a, b) \<in> set es. R a b \<Longrightarrow> \<forall>x. R x (root_of p1 x) \<Longrightarrow> R y (root_of p' y)"
    unfolding uniting_def by blast+
  have "R x (root_of p1 x)" if R: "equivp R" "R a b" "\<forall>x. R x (root_of p x)" for R x
  proof -
    have "R (root_of p a) (root_of p b)" "R (root_of p b) (root_of p a)"
      using R by (meson equivp_symp equivp_transp)+
    then have "R x (min (root_of p a) (root_of p b))" if "root_of p x = root_of p a \<or> root_of p x = root_of p b"
      using that R(3) [rule_format, of x] R(1) by (auto simp: min_def intro: equivp_transp)
    with R(3) show ?thesis by (auto simp: roots)
  qed
  note keeps = this
  have merge: "root_of p' x = root_of p' y" if "root_of p x = root_of p y" for x y
    using that by (intro p'(3)) (simp add: roots)
  have "root_of p' a = root_of p' b" by (rule p'(3)) (simp add: roots)
  with p'(4) e have edges: "\<forall>(a, b) \<in> set (e # es). root_of p' a = root_of p' b" by simp
  have only: "R y (root_of p' y)" if "equivp R" "\<forall>(a, b) \<in> set (e # es). R a b" "\<forall>x. R x (root_of p x)" for R y
  proof (rule p'(5) [OF that(1)])
    show "\<forall>(a, b) \<in> set es. R a b" using that(2) by simp
    have "R a b" using that(2) e by simp
    then show "\<forall>x. R x (root_of p1 x)" using keeps [OF that(1) _ that(3)] by blast
  qed
  have "length p' = length p" using p'(2) p1(3) by simp
  then have "uniting p (e # es) p'"
    unfolding uniting_def by (intro conjI allI impI p'(1) edges) (assumption | erule merge | erule (2) only)+
  with all p1(1) e show ?case by simp
qed (auto simp: uniting_def)

lemma find_all_exact:
  "uf_ok p \<Longrightarrow> \<forall>x \<in> set xs. x < length p \<Longrightarrow> find_all p xs = Some (map (root_of p) xs)"
proof (induction xs arbitrary: p)
  case (Cons x xs)
  then obtain p' where "find_root p x = Some (root_of p x, p')" "uf_ok p'" "length p' = length p" "root_of p' = root_of p"
    using find_root_exact [of p x] by auto
  with Cons show ?case by simp
qed simp

lemma joined_root:
  assumes "uniting [0..<n] es p"
  shows "root_of p x = root_of p y \<longleftrightarrow> joined es x y"
proof
  have self: "root_of [0..<n] x = x" for x by (cases "x < n") (auto simp: root_of.simps)
  have only: "joined es y (root_of p y)" for y
  proof -
    have "equivp (joined es)" unfolding joined_def by simp
    moreover have "\<forall>(a, b) \<in> set es. joined es a b" unfolding joined_def by (clarify, rule r_into_equivclp)
    moreover have "\<forall>x. joined es x (root_of [0..<n] x)" unfolding self joined_def by simp
    ultimately show ?thesis using assms unfolding uniting_def by blast
  qed
  show "joined es x y" if "root_of p x = root_of p y"
  proof -
    have "joined es x (root_of p x)" by (rule only)
    moreover have "joined es (root_of p x) y" unfolding that using only unfolding joined_def by (rule equivclp_sym)
    ultimately show ?thesis unfolding joined_def by (rule equivclp_trans)
  qed
  show "root_of p x = root_of p y" if "joined es x y"
    using that unfolding joined_def
  proof (induction rule: equivclp_induct)
    case (step y z)
    have "\<forall>(a, b) \<in> set es. root_of p a = root_of p b" using assms unfolding uniting_def by blast
    with step.hyps(2) have "root_of p y = root_of p z" by auto
    with step.IH show ?case by simp
  qed simp
qed

section \<open>Groups\<close>

lemma grouped_mem:
  "(k, g) \<in> set (grouped key xs) \<longleftrightarrow> k \<in> key ` set xs \<and> g = filter (\<lambda>x. key x = k) xs"
  by (auto simp: grouped_def)

lemma grouped_nonempty: "(k, g) \<in> set (grouped key xs) \<Longrightarrow> g \<noteq> []"
  by (auto simp: grouped_mem filter_empty_conv)

lemma grouped_keys: "map fst (grouped key xs) = sort (remdups (map key xs))"
  by (simp add: grouped_def comp_def)

lemma mset_filter_keys:
  "distinct ks \<Longrightarrow> mset (concat (map (\<lambda>k. filter (\<lambda>x. key x = k) xs) ks)) = filter_mset (\<lambda>x. key x \<in> set ks) (mset xs)"
proof (induction ks)
  case (Cons k ks)
  have "filter_mset (\<lambda>x. key x = k) m + filter_mset (\<lambda>x. key x \<in> set ks) m = filter_mset (\<lambda>x. key x = k \<or> key x \<in> set ks) m" for m
    using Cons.prems by (induction m) auto
  with Cons show ?case by simp
qed simp

lemma grouped_mset: "mset (concat (map snd (grouped key xs))) = mset xs"
proof -
  have "mset (concat (map snd (grouped key xs)))
      = mset (concat (map (\<lambda>k. filter (\<lambda>x. key x = k) xs) (sort (remdups (map key xs)))))"
    by (simp add: grouped_def comp_def)
  also have "\<dots> = filter_mset (\<lambda>x. key x \<in> set (sort (remdups (map key xs)))) (mset xs)"
    by (rule mset_filter_keys) simp
  also have "\<dots> = filter_mset (\<lambda>x. True) (mset xs)" by (rule filter_mset_cong) auto
  finally show ?thesis by simp
qed

lemma those_map: "(\<And>x. x \<in> set xs \<Longrightarrow> f x = Some (g x)) \<Longrightarrow> those (map f xs) = Some (map g xs)"
  by (induction xs) auto

text \<open>The references that make one group, between tasks of a list.\<close>

definition refers :: "task \<Rightarrow> task \<Rightarrow> bool" where
  "refers a b \<longleftrightarrow> t_id b \<in> set (referenced_task_ids a) \<or> fallback_of a = Some (t_id b)"

definition linked :: "task list \<Rightarrow> task \<Rightarrow> task \<Rightarrow> bool" where
  "linked pool = equivclp (\<lambda>a b. a \<in> set pool \<and> b \<in> set pool \<and> refers a b)"

lemma find_mem: "find P xs = Some x \<Longrightarrow> x \<in> set xs \<and> P x"
  by (auto simp: find_Some_iff)

lemma pool_index_exact:
  assumes "distinct (map t_id pool)"
  shows "pool_index pool i = Some n \<longleftrightarrow> n < length pool \<and> t_id (pool ! n) = i"
proof -
  have "find (\<lambda>(n, t). t_id t = i) (rev (enumerate 0 pool)) = Some (m, t) \<longleftrightarrow> m < length pool \<and> t = pool ! m \<and> t_id t = i" for m t
  proof
    assume "find (\<lambda>(n, t). t_id t = i) (rev (enumerate 0 pool)) = Some (m, t)"
    then have "(m, t) \<in> set (rev (enumerate 0 pool))" "t_id t = i"
      by (auto dest: find_mem)
    then show "m < length pool \<and> t = pool ! m \<and> t_id t = i" by (auto simp: in_set_enumerate_eq)
  next
    assume t: "m < length pool \<and> t = pool ! m \<and> t_id t = i"
    then have "(m, t) \<in> set (rev (enumerate 0 pool))" by (auto simp: in_set_enumerate_eq)
    with t obtain k u where ku: "find (\<lambda>(n, t). t_id t = i) (rev (enumerate 0 pool)) = Some (k, u)"
      by (cases "find (\<lambda>(n, t). t_id t = i) (rev (enumerate 0 pool))") (auto simp: find_None_iff)
    then have "(k, u) \<in> set (rev (enumerate 0 pool))" "t_id u = i"
      by (auto dest: find_mem)
    then have "k < length pool" "u = pool ! k" "t_id (pool ! k) = i" by (auto simp: in_set_enumerate_eq)
    with t assms have "k = m" by (auto simp: distinct_conv_nth)
    with ku t \<open>u = pool ! k\<close> show "find (\<lambda>(n, t). t_id t = i) (rev (enumerate 0 pool)) = Some (m, t)" by simp
  qed
  then show ?thesis by (auto simp: pool_index_def)
qed

lemma set_mapped: "y \<in> set (List.map_filter f xs) \<longleftrightarrow> (\<exists>x \<in> set xs. f x = Some y)"
  by (force simp: List.map_filter_def)

lemma pool_edge:
  assumes "distinct (map t_id pool)"
  shows "(a, b) \<in> set (pool_edges pool) \<longleftrightarrow> a < length pool \<and> b < length pool \<and> refers (pool ! a) (pool ! b)"
proof -
  have "(a, b) \<in> set (pool_edges pool) \<longleftrightarrow> a < length pool \<and>
      (\<exists>i. (i \<in> set (referenced_task_ids (pool ! a)) \<or> fallback_of (pool ! a) = Some i) \<and> pool_index pool i = Some b)"
  proof -
    have "(a, b) \<in> set (pool_edges pool) \<longleftrightarrow> (\<exists>n t i. (n, t) \<in> set (enumerate 0 pool) \<and>
        (i \<in> set (referenced_task_ids t) \<or> fallback_of t = Some i) \<and> map_option (Pair n) (pool_index pool i) = Some (a, b))"
    proof -
      have "i \<in> set (case m of Some main \<Rightarrow> [main] | None \<Rightarrow> []) \<longleftrightarrow> m = Some i" for i and m :: "string option"
        by (auto split: option.split)
      then show ?thesis by (simp add: pool_edges_def set_mapped case_prod_unfold Bex_def) blast
    qed
    then show ?thesis by (auto simp: in_set_enumerate_eq)
  qed
  then show ?thesis by (auto simp: pool_index_exact [OF assms] refers_def)
qed

lemma joined_linked:
  assumes "distinct (map t_id pool)" "i < length pool" "j < length pool"
  shows "joined (pool_edges pool) i j \<longleftrightarrow> linked pool (pool ! i) (pool ! j)"
proof
  have step: "(a, b) \<in> set (pool_edges pool) \<longleftrightarrow> a < length pool \<and> b < length pool \<and> refers (pool ! a) (pool ! b)" for a b
    by (rule pool_edge [OF assms(1)])
  assume "joined (pool_edges pool) i j"
  then have "equivclp (\<lambda>a b. (a, b) \<in> set (pool_edges pool)) i j" by (simp add: joined_def)
  then show "linked pool (pool ! i) (pool ! j)"
  proof (induction rule: equivclp_induct)
    case (step y z)
    have "linked pool (pool ! y) (pool ! z)" unfolding linked_def
      using step.hyps(2)
    proof
      assume "(y, z) \<in> set (pool_edges pool)"
      then show "equivclp (\<lambda>a b. a \<in> set pool \<and> b \<in> set pool \<and> refers a b) (pool ! y) (pool ! z)"
        by (intro r_into_equivclp) (simp add: pool_edge [OF assms(1)])
    next
      assume "(z, y) \<in> set (pool_edges pool)"
      then show "equivclp (\<lambda>a b. a \<in> set pool \<and> b \<in> set pool \<and> refers a b) (pool ! y) (pool ! z)"
        by (intro converse_r_into_equivclp) (simp add: pool_edge [OF assms(1)])
    qed
    with step.IH show ?case unfolding linked_def by (rule equivclp_trans)
  qed (simp add: linked_def)
next
  assume "linked pool (pool ! i) (pool ! j)"
  then have "equivclp (\<lambda>a b. a \<in> set pool \<and> b \<in> set pool \<and> refers a b) (pool ! i) (pool ! j)" by (simp add: linked_def)
  then have "\<exists>k < length pool. pool ! k = pool ! j \<and> joined (pool_edges pool) i k"
  proof (induction rule: equivclp_induct)
    case base
    show ?case using assms(2) by (auto simp: joined_def)
  next
    case (step b c)
    then obtain k where k: "k < length pool" "pool ! k = b" "joined (pool_edges pool) i k" by blast
    have "c \<in> set pool" using step.hyps(2) by blast
    then obtain m where m: "m < length pool" "pool ! m = c" by (auto simp: in_set_conv_nth)
    have "joined (pool_edges pool) k m" unfolding joined_def
      using step.hyps(2)
    proof
      assume "b \<in> set pool \<and> c \<in> set pool \<and> refers b c"
      with k m show "equivclp (\<lambda>a b. (a, b) \<in> set (pool_edges pool)) k m"
        by (intro r_into_equivclp) (simp add: pool_edge [OF assms(1)])
    next
      assume "c \<in> set pool \<and> b \<in> set pool \<and> refers c b"
      with k m show "equivclp (\<lambda>a b. (a, b) \<in> set (pool_edges pool)) k m"
        by (intro converse_r_into_equivclp) (simp add: pool_edge [OF assms(1)])
    qed
    with k(3) have "joined (pool_edges pool) i m" unfolding joined_def by (rule equivclp_trans)
    with m show ?case by blast
  qed
  then obtain k where k: "k < length pool" "pool ! k = pool ! j" "joined (pool_edges pool) i k" by blast
  with assms have "k = j" by (metis distinct_map nth_eq_iff_index_eq)
  with k(3) show "joined (pool_edges pool) i j" by simp
qed

lemma components_exact:
  assumes "distinct (map t_id pool)"
  shows "\<exists>gs. weakly_connected_components pool = Some gs \<and> [] \<notin> set gs \<and> mset (concat gs) = mset pool \<and>
    (\<forall>s \<in> set pool. \<forall>t \<in> set pool. (\<exists>g \<in> set gs. s \<in> set g \<and> t \<in> set g) \<longleftrightarrow> linked pool s t)"
proof -
  let ?n = "length pool"
  have "\<forall>(a, b) \<in> set (pool_edges pool). a < ?n \<and> b < ?n" using pool_edge [OF assms] by auto
  moreover have "uf_ok [0..<?n]" by (simp add: uf_ok_def)
  ultimately obtain p where p: "unite_all [0..<?n] (pool_edges pool) = Some p" "uniting [0..<?n] (pool_edges pool) p"
    using unite_all_exact [of "[0..<?n]" "pool_edges pool"] by auto
  then have ok: "uf_ok p" "length p = ?n" by (simp_all add: uniting_def)
  define z where "z = zip (map (root_of p) [0..<?n]) pool"
  have z: "z = map (\<lambda>i. (root_of p i, pool ! i)) [0..<?n]" by (auto simp: z_def intro: nth_equalityI)
  define gs where "gs = map (\<lambda>(_, es). map snd es) (grouped fst z)"
  have "find_all p [0..<?n] = Some (map (root_of p) [0..<?n])" using ok by (intro find_all_exact) auto
  then have "weakly_connected_components pool = Some gs"
    by (simp add: weakly_connected_components_def p(1) gs_def z_def)
  moreover have "[] \<notin> set gs" by (auto simp: gs_def dest: grouped_nonempty)
  moreover have "mset (concat gs) = mset pool"
  proof -
    have "concat gs = map snd (concat (map snd (grouped fst z)))" by (simp add: gs_def map_concat case_prod_unfold comp_def)
    then have "mset (concat gs) = image_mset snd (mset (concat (map snd (grouped fst z))))" by simp
    also have "\<dots> = mset (map snd z)" by (simp only: grouped_mset mset_map)
    also have "map snd z = pool" by (simp add: z_def)
    finally show ?thesis .
  qed
  moreover have "(\<exists>g \<in> set gs. s \<in> set g \<and> t \<in> set g) \<longleftrightarrow> linked pool s t" if st: "s \<in> set pool" "t \<in> set pool" for s t
  proof -
    obtain i j where ij: "i < ?n" "j < ?n" "s = pool ! i" "t = pool ! j" using st by (auto simp: in_set_conv_nth)
    have at: "(k, pool ! i) \<in> set z \<longleftrightarrow> k = root_of p i" if "i < ?n" for k i
      using that assms by (auto simp: z nth_eq_iff_index_eq distinct_map)
    have "(\<exists>g \<in> set gs. s \<in> set g \<and> t \<in> set g) \<longleftrightarrow> (\<exists>k. (k, s) \<in> set z \<and> (k, t) \<in> set z)"
    proof -
      have "set gs = (\<lambda>k. map snd (filter (\<lambda>e. fst e = k) z)) ` fst ` set z"
        by (auto simp: gs_def grouped_def)
      moreover have "x \<in> set (map snd (filter (\<lambda>e. fst e = k) z)) \<longleftrightarrow> (k, x) \<in> set z" for x k by force
      moreover have "k \<in> fst ` set z" if "(k, x) \<in> set z" for k x using that by force
      ultimately show ?thesis by (simp only: bex_simps) blast
    qed
    also have "\<dots> \<longleftrightarrow> root_of p i = root_of p j" using at ij by auto
    also have "\<dots> \<longleftrightarrow> linked pool s t" using joined_root [OF p(2)] joined_linked [OF assms ij(1,2)] ij by simp
    finally show ?thesis .
  qed
  ultimately show ?thesis by blast
qed

text \<open>The groups of one workspace.\<close>

lemma summarize_simps [simp]:
  "ds_id (summarize order blocked ws i src k g) = i"
  "ds_workspace (summarize order blocked ws i src k g) = ws"
  "ds_source (summarize order blocked ws i src k g) = src"
  "ds_tasks (summarize order blocked ws i src k g) = map t_id (sort_key task_age g)"
  by (simp_all add: summarize_def Let_def)

definition keyless :: "task list \<Rightarrow> task list" where
  "keyless tasks = filter (\<lambda>t. explicit_dag_key t = None) tasks"

definition same_group :: "task list \<Rightarrow> task \<Rightarrow> task \<Rightarrow> bool" where
  "same_group tasks s t \<longleftrightarrow> explicit_dag_key s = explicit_dag_key t \<and>
     (explicit_dag_key s = None \<longrightarrow> linked (keyless tasks) s t)"

lemma distinct_heads:
  "distinct (map f (concat gs)) \<Longrightarrow> \<forall>g \<in> set gs. h g \<in> f ` set g \<Longrightarrow> distinct (map h gs)"
proof (induction gs)
  case (Cons g gs)
  have "h g' \<noteq> h g" if "g' \<in> set gs" for g'
  proof -
    have "f ` set g \<inter> f ` set (concat gs) = {}" using Cons.prems(1) by (auto simp: image_image)
    moreover have "h g \<in> f ` set g" "h g' \<in> f ` set g'" using Cons.prems(2) that by simp_all
    moreover have "f ` set g' \<subseteq> f ` set (concat gs)" using that by (intro image_mono) auto
    ultimately show ?thesis by (metis IntI empty_iff subsetD)
  qed
  then show ?case using Cons by auto
qed simp

lemma sort_age_mem [simp]: "sort_key task_age g = [] \<longleftrightarrow> g = []"
  by (metis set_empty set_sort)

text \<open>What a summary is told apart by: its id and its tasks, both given by the tasks of the group.\<close>

definition label :: "task list \<Rightarrow> string \<times> string list" where
  "label g =
     (let sorted = sort_key task_age g
      in ((case explicit_dag_key (hd sorted) of Some k \<Rightarrow> ''d:'' @ k | None \<Rightarrow> ''c:'' @ t_id (hd sorted)),
          map t_id sorted))"

definition groups_of :: "task list \<Rightarrow> dag_summary list \<Rightarrow> task list list \<Rightarrow> bool" where
  "groups_of tasks ds gs \<longleftrightarrow> mset (map (\<lambda>d. (ds_id d, ds_tasks d)) ds) = mset (map label gs) \<and>
     mset (concat gs) = mset tasks \<and> [] \<notin> set gs"

lemma groups_of_tasks:
  assumes "groups_of tasks ds gs"
  shows "mset (map ds_tasks ds) = mset (map (\<lambda>g. map t_id (sort_key task_age g)) gs)"
proof -
  have "mset (map snd (map (\<lambda>d. (ds_id d, ds_tasks d)) ds)) = mset (map snd (map label gs))"
    using assms unfolding groups_of_def by (metis mset_map)
  then show ?thesis by (simp add: comp_def label_def Let_def)
qed

lemma explicit_groups:
  assumes "s \<in> set tasks" "t \<in> set tasks"
  shows "(\<exists>(k, g) \<in> set (grouped (\<lambda>t. the (explicit_dag_key t)) (filter (\<lambda>t. explicit_dag_key t \<noteq> None) tasks)). s \<in> set g \<and> t \<in> set g)
    \<longleftrightarrow> explicit_dag_key s \<noteq> None \<and> explicit_dag_key s = explicit_dag_key t"
proof -
  have "(\<exists>(k, g) \<in> set (grouped key xs). s \<in> set g \<and> t \<in> set g) \<longleftrightarrow> s \<in> set xs \<and> t \<in> set xs \<and> key s = key t"
    for key :: "task \<Rightarrow> string" and xs by (auto simp: grouped_def)
  then show ?thesis using assms by (cases "explicit_dag_key s"; cases "explicit_dag_key t") auto
qed

lemma within_exact:
  assumes "distinct (map t_id tasks)"
  shows "\<exists>ds gs. group_within_workspace order ws tasks = Some ds \<and> groups_of tasks ds gs \<and>
    (\<forall>d \<in> set ds. ds_workspace d = ws) \<and> sorted_wrt (<) (map ds_id ds) \<and>
    (\<forall>s \<in> set tasks. \<forall>t \<in> set tasks. (\<exists>g \<in> set gs. s \<in> set g \<and> t \<in> set g) \<longleftrightarrow> same_group tasks s t)"
proof -
  let ?key = "\<lambda>t. the (explicit_dag_key t)" and ?keyed = "filter (\<lambda>t. explicit_dag_key t \<noteq> None) tasks"
  let ?E = "grouped ?key ?keyed"
  let ?blocked = "blocked_task_ids order tasks"
  let ?head = "\<lambda>g. ''c:'' @ t_id (hd (sort_key task_age g))"
  let ?D = "\<lambda>g. summarize order ?blocked ws (?head g) ''derived'' None g"
  let ?X = "\<lambda>(k, g). summarize order ?blocked ws (''d:'' @ k) ''explicit'' (Some k) g"
  have "distinct (map t_id (keyless tasks))" using assms by (simp add: keyless_def distinct_map_filter_key)
  from components_exact [OF this] obtain gs where gs: "weakly_connected_components (keyless tasks) = Some gs"
    "[] \<notin> set gs" "mset (concat gs) = mset (keyless tasks)"
    "\<And>s t. s \<in> set (keyless tasks) \<Longrightarrow> t \<in> set (keyless tasks) \<Longrightarrow>
       (\<exists>g \<in> set gs. s \<in> set g \<and> t \<in> set g) \<longleftrightarrow> linked (keyless tasks) s t" by blast
  define ds where "ds = sort_key ds_id (map ?X ?E @ map ?D gs)"
  have "derived_summary order ?blocked ws g = Some (?D g)" if "g \<in> set gs" for g
    using that gs(2) by (cases "sort_key task_age g") (auto simp: derived_summary_def)
  then have "those (map (derived_summary order ?blocked ws) gs) = Some (map ?D gs)" by (rule those_map)
  with gs(1) have ds: "group_within_workspace order ws tasks = Some ds"
    by (simp add: group_within_workspace_def ds_def keyless_def Let_def)
  have "distinct (map ds_id (map ?X ?E @ map ?D gs))"
  proof -
    have ids: "map ds_id (map ?X ?E) = map ((@) ''d:'') (map fst ?E)"
      "map ds_id (map ?D gs) = map ((@) ''c:'') (map (\<lambda>g. t_id (hd (sort_key task_age g))) gs)"
      by (simp_all add: case_prod_unfold comp_def)
    have inj: "distinct (map ((@) p) xs) \<longleftrightarrow> distinct xs" for p :: string and xs
      by (simp add: distinct_map inj_on_def)
    have "distinct (map fst ?E)" by (simp add: grouped_keys)
    moreover have "distinct (map (\<lambda>g. t_id (hd (sort_key task_age g))) gs)"
    proof (rule distinct_heads [where f = t_id])
      have "mset (map t_id (concat gs)) = mset (map t_id (keyless tasks))" using gs(3) by (simp only: mset_map)
      with \<open>distinct (map t_id (keyless tasks))\<close> show "distinct (map t_id (concat gs))" by (metis mset_eq_imp_distinct_iff)
      show "\<forall>g \<in> set gs. t_id (hd (sort_key task_age g)) \<in> t_id ` set g"
        using gs(2) by (metis imageI list.set_sel(1) set_sort sort_age_mem)
    qed
    ultimately show ?thesis unfolding map_append distinct_append ids inj by auto
  qed
  moreover have "mset (map ds_id ds) = mset (map ds_id (map ?X ?E @ map ?D gs))"
    unfolding ds_def by (simp only: mset_map mset_sort)
  ultimately have "distinct (map ds_id ds)" using mset_eq_imp_distinct_iff by blast
  then have strict: "sorted_wrt (<) (map ds_id ds)"
    by (simp add: ds_def strict_sorted_iff)
  define all where "all = map snd ?E @ gs"
  have "groups_of tasks ds all"
  proof -
    have first: "hd (sort_key task_age g) \<in> set g" if "g \<noteq> []" for g
      using that by (metis list.set_sel(1) set_sort sort_age_mem)
    have "(\<lambda>d. (ds_id d, ds_tasks d)) (?X e) = label (snd e)" if "e \<in> set ?E" for e
    proof -
      obtain k g where e: "e = (k, g)" by (cases e)
      with that have "(k, g) \<in> set ?E" by simp
      then have g: "g = filter (\<lambda>t. ?key t = k) ?keyed" "g \<noteq> []" by (simp only: grouped_mem, rule grouped_nonempty)
      with first [OF g(2)] have "explicit_dag_key (hd (sort_key task_age g)) = Some k" by auto
      with e show ?thesis by (simp add: label_def Let_def)
    qed
    then have "map (\<lambda>d. (ds_id d, ds_tasks d)) (map ?X ?E) = map label (map snd ?E)" by simp
    moreover have "(\<lambda>d. (ds_id d, ds_tasks d)) (?D g) = label g" if g: "g \<in> set gs" for g
    proof -
      have "hd (sort_key task_age g) \<in> set (concat gs)" using first [of g] g gs(2) by auto
      then have "hd (sort_key task_age g) \<in> set (keyless tasks)" using gs(3) by (metis set_mset_mset)
      then show ?thesis by (simp add: label_def keyless_def Let_def)
    qed
    then have "map (\<lambda>d. (ds_id d, ds_tasks d)) (map ?D gs) = map label gs" by simp
    ultimately have "map (\<lambda>d. (ds_id d, ds_tasks d)) (map ?X ?E @ map ?D gs) = map label all"
      unfolding all_def map_append by (simp only:)
    moreover have "mset (map (\<lambda>d. (ds_id d, ds_tasks d)) ds) = mset (map (\<lambda>d. (ds_id d, ds_tasks d)) (map ?X ?E @ map ?D gs))"
      unfolding ds_def by (simp only: mset_map mset_sort)
    ultimately have labels: "mset (map (\<lambda>d. (ds_id d, ds_tasks d)) ds) = mset (map label all)" by (simp only:)
    have "[] \<notin> set all" using gs(2) by (auto simp: all_def dest: grouped_nonempty)
    moreover have "mset (concat all) = mset ?keyed + mset (keyless tasks)"
      by (simp only: all_def concat_append mset_append grouped_mset gs(3))
    moreover have "mset ?keyed + mset (keyless tasks) = mset tasks"
      unfolding keyless_def mset_filter by (subst add.commute, rule multiset_partition [symmetric])
    ultimately show ?thesis using labels by (simp add: groups_of_def)
  qed
  moreover have "(\<exists>g \<in> set all. s \<in> set g \<and> t \<in> set g) \<longleftrightarrow> same_group tasks s t"
    if st: "s \<in> set tasks" "t \<in> set tasks" for s t
  proof -
    have sub: "set g \<subseteq> set (keyless tasks)" if "g \<in> set gs" for g
      using that gs(3) by (metis UN_I set_concat set_mset_mset subsetI)
    have "(\<exists>g \<in> set all. s \<in> set g \<and> t \<in> set g) \<longleftrightarrow>
        (\<exists>(k, g) \<in> set ?E. s \<in> set g \<and> t \<in> set g) \<or> (\<exists>g \<in> set gs. s \<in> set g \<and> t \<in> set g)"
      by (force simp: all_def)
    also have "(\<exists>g \<in> set gs. s \<in> set g \<and> t \<in> set g) \<longleftrightarrow>
        explicit_dag_key s = None \<and> explicit_dag_key t = None \<and> linked (keyless tasks) s t"
    proof -
      have "s \<in> set (keyless tasks) \<longleftrightarrow> explicit_dag_key s = None" "t \<in> set (keyless tasks) \<longleftrightarrow> explicit_dag_key t = None"
        using st by (simp_all add: keyless_def)
      then show ?thesis using sub gs(4) [of s t] by blast
    qed
    finally show ?thesis using explicit_groups [OF st] by (auto simp: same_group_def)
  qed
  moreover have "\<forall>d \<in> set ds. ds_workspace d = ws" by (auto simp: ds_def)
  ultimately show ?thesis using ds strict by blast
qed

lemma groups_of_ids: "groups_of tasks ds gs \<Longrightarrow> mset (concat (map ds_tasks ds)) = mset (map t_id tasks)"
proof -
  assume g: "groups_of tasks ds gs"
  have flat: "mset (concat xss) = sum_mset (image_mset mset (mset xss))" for xss :: "'b list list"
    by (induction xss) auto
  have "mset (concat (map ds_tasks ds)) = mset (concat (map (\<lambda>g. map t_id (sort_key task_age g)) gs))"
    using groups_of_tasks [OF g] unfolding flat by simp
  also have "\<dots> = mset (map t_id (concat gs))" by (induction gs) auto
  also have "\<dots> = mset (map t_id tasks)" using g by (simp add: groups_of_def)
  finally show ?thesis .
qed

lemma groups_of_share:
  assumes "groups_of ts ds gs" "distinct (map t_id tasks)" "set ts \<subseteq> set tasks" "s \<in> set tasks" "t \<in> set tasks"
  shows "(\<exists>d \<in> set ds. t_id s \<in> set (ds_tasks d) \<and> t_id t \<in> set (ds_tasks d)) \<longleftrightarrow> (\<exists>g \<in> set gs. s \<in> set g \<and> t \<in> set g)"
proof -
  have ds: "ds_tasks ` set ds = (\<lambda>g. map t_id (sort_key task_age g)) ` set gs"
    using groups_of_tasks [OF assms(1)] by (metis mset_eq_setD set_map)
  have "set (concat gs) = set ts" using assms(1) unfolding groups_of_def by (metis mset_eq_setD)
  then have sub: "set g \<subseteq> set tasks" if "g \<in> set gs" for g using that assms(3) by auto
  have inj: "inj_on t_id (set tasks)" using assms(2) by (simp add: distinct_map)
  have mem: "t_id u \<in> t_id ` set g \<longleftrightarrow> u \<in> set g" if "g \<in> set gs" "u \<in> set tasks" for g u
    using inj_on_image_mem_iff [OF inj that(2) sub [OF that(1)]] .
  have "(\<exists>d \<in> set ds. t_id s \<in> set (ds_tasks d) \<and> t_id t \<in> set (ds_tasks d)) \<longleftrightarrow>
      (\<exists>l \<in> ds_tasks ` set ds. t_id s \<in> set l \<and> t_id t \<in> set l)" by simp
  also have "\<dots> \<longleftrightarrow> (\<exists>g \<in> set gs. t_id s \<in> t_id ` set g \<and> t_id t \<in> t_id ` set g)" unfolding ds by simp
  finally show ?thesis using mem assms(4,5) by auto
qed

lemma sorted_blocks:
  assumes "sorted_wrt (<) ks" "\<And>k. k \<in> set ks \<Longrightarrow> sorted_wrt R (f k)"
    "\<And>k l x y. k \<in> set ks \<Longrightarrow> l \<in> set ks \<Longrightarrow> k < l \<Longrightarrow> x \<in> set (f k) \<Longrightarrow> y \<in> set (f l) \<Longrightarrow> R x y"
  shows "sorted_wrt R (concat (map f ks))"
  using assms
proof (induction ks)
  case (Cons k ks)
  have "sorted_wrt R (concat (map f ks))"
    by (rule Cons.IH) (use Cons.prems in \<open>auto intro: Cons.prems(3)\<close>)
  moreover have "sorted_wrt R (f k)" using Cons.prems(2) by simp
  moreover have "R x y" if "x \<in> set (f k)" "y \<in> set (concat (map f ks))" for x y
    using that Cons.prems(1) by (auto intro: Cons.prems(3) [of k])
  ultimately show ?case by (simp add: sorted_wrt_append)
qed simp

definition in_workspace :: "u32 \<Rightarrow> task list \<Rightarrow> task list" where
  "in_workspace ws tasks = filter (\<lambda>t. t_workspace t = ws) tasks"

definition one_group :: "task list \<Rightarrow> task \<Rightarrow> task \<Rightarrow> bool" where
  "one_group tasks s t \<longleftrightarrow> t_workspace s = t_workspace t \<and> same_group (in_workspace (t_workspace s) tasks) s t"

text \<open>The label of a group from the set of its tasks.\<close>

lemma sort_age_unique:
  assumes "set g = set h" "distinct g" "distinct h" "inj_on t_id (set g)"
  shows "sort_key task_age g = sort_key task_age h"
proof (rule sort_key_inj_key_eq)
  show "mset g = mset (sort_key task_age h)" using assms(1-3) by (simp add: set_eq_iff_mset_eq_distinct)
  show "inj_on task_age (set g)" using assms(4) by (auto simp: inj_on_def task_age_def)
qed simp

definition class_label :: "task list \<Rightarrow> task \<Rightarrow> string \<times> string list" where
  "class_label tasks s = label (filter (one_group tasks s) tasks)"

lemma one_group_refl: "one_group tasks s s"
  by (simp add: one_group_def same_group_def linked_def)

lemma group_class:
  assumes "mset (concat gs) = mset ts" "distinct ts" "g \<in> set gs" "s \<in> set g"
    "\<forall>s \<in> set ts. \<forall>t \<in> set ts. (\<exists>g \<in> set gs. s \<in> set g \<and> t \<in> set g) \<longleftrightarrow> R s t"
  shows "distinct g" "set g = {t \<in> set ts. R s t}"
proof -
  have d: "distinct (concat gs)" using assms(1,2) by (metis mset_eq_imp_distinct_iff)
  then show "distinct g" using assms(3) by (simp add: distinct_concat_iff)
  have sub: "set h \<subseteq> set ts" if "h \<in> set gs" for h using assms(1) that by (metis UN_I set_concat set_mset_mset subsetI)
  have same: "h = g" if "h \<in> set gs" "s \<in> set h" for h
    using d that assms(3,4) by (auto simp: distinct_concat_iff)
  have s: "s \<in> set ts" using sub assms(3,4) by blast
  show "set g = {t \<in> set ts. R s t}"
  proof (rule set_eqI)
    fix t
    have "t \<in> set g \<longleftrightarrow> t \<in> set ts \<and> (\<exists>h \<in> set gs. s \<in> set h \<and> t \<in> set h)"
      using assms(3,4) same sub by blast
    then show "t \<in> set g \<longleftrightarrow> t \<in> {t \<in> set ts. R s t}" using assms(5) s by blast
  qed
qed

lemma groups_exact_aux:
  assumes "distinct (map t_id tasks)"
  shows "\<exists>ds. group_tasks_into_dags order tasks = Some ds \<and>
    sorted_wrt (\<lambda>d e. (ds_workspace d, ds_id d) < (ds_workspace e, ds_id e)) ds \<and>
    mset (concat (map ds_tasks ds)) = mset (map t_id tasks) \<and>
    (\<forall>s \<in> set tasks. \<forall>t \<in> set tasks.
       (\<exists>d \<in> set ds. t_id s \<in> set (ds_tasks d) \<and> t_id t \<in> set (ds_tasks d)) \<longleftrightarrow> one_group tasks s t) \<and>
    (\<lambda>d. (ds_workspace d, ds_id d, ds_tasks d)) ` set ds = (\<lambda>s. (t_workspace s, class_label tasks s)) ` set tasks"
proof -
  let ?K = "sort (remdups (map t_workspace tasks))"
  let ?W = "\<lambda>ws. in_workspace ws tasks"
  have "\<exists>ds gs. group_within_workspace order ws (?W ws) = Some ds \<and> groups_of (?W ws) ds gs \<and>
      (\<forall>d \<in> set ds. ds_workspace d = ws) \<and> sorted_wrt (<) (map ds_id ds) \<and>
      (\<forall>s \<in> set (?W ws). \<forall>t \<in> set (?W ws). (\<exists>g \<in> set gs. s \<in> set g \<and> t \<in> set g) \<longleftrightarrow> same_group (?W ws) s t)" for ws
    by (rule within_exact) (simp add: in_workspace_def distinct_map_filter_key assms)
  then obtain DS GS where DS: "\<And>ws. group_within_workspace order ws (?W ws) = Some (DS ws)" "\<And>ws. groups_of (?W ws) (DS ws) (GS ws)"
    "\<And>ws d. d \<in> set (DS ws) \<Longrightarrow> ds_workspace d = ws" "\<And>ws. sorted_wrt (<) (map ds_id (DS ws))"
    "\<And>ws s t. s \<in> set (?W ws) \<Longrightarrow> t \<in> set (?W ws) \<Longrightarrow>
       (\<exists>g \<in> set (GS ws). s \<in> set g \<and> t \<in> set g) \<longleftrightarrow> same_group (?W ws) s t" by metis
  define ds where "ds = concat (map DS ?K)"
  have "those (map (\<lambda>(ws, ts). group_within_workspace order ws ts) (grouped t_workspace tasks)) = Some (map DS ?K)"
  proof -
    have "map (\<lambda>(ws, ts). group_within_workspace order ws ts) (grouped t_workspace tasks) = map (\<lambda>ws. Some (DS ws)) ?K"
      using DS(1) by (simp add: grouped_def in_workspace_def)
    then show ?thesis by (simp add: those_map)
  qed
  then have "group_tasks_into_dags order tasks = Some ds" by (simp add: group_tasks_into_dags_def ds_def)
  moreover have "sorted_wrt (\<lambda>d e. (ds_workspace d, ds_id d) < (ds_workspace e, ds_id e)) ds"
    unfolding ds_def
  proof (rule sorted_blocks)
    show "sorted_wrt (<) ?K" by (simp add: strict_sorted_iff)
    show "sorted_wrt (\<lambda>d e. (ds_workspace d, ds_id d) < (ds_workspace e, ds_id e)) (DS k)" for k
      using DS(4) [of k, unfolded sorted_wrt_map] by (rule sorted_wrt_mono_rel [rotated]) (simp add: DS(3))
  qed (simp add: DS(3))
  moreover have "mset (concat (map ds_tasks ds)) = mset (map t_id tasks)"
  proof -
    have "mset (concat (map ds_tasks (concat (map DS ks)))) = mset (map t_id (concat (map ?W ks)))" for ks
      by (induction ks) (simp_all add: groups_of_ids [OF DS(2)] flip: mset_map)
    moreover have "mset (concat (map ?W ?K)) = mset tasks"
      using grouped_mset [of t_workspace tasks] by (simp add: grouped_def in_workspace_def comp_def)
    ultimately show ?thesis by (simp add: ds_def)
  qed
  moreover have "(\<exists>d \<in> set ds. t_id s \<in> set (ds_tasks d) \<and> t_id t \<in> set (ds_tasks d)) \<longleftrightarrow> one_group tasks s t"
    if st: "s \<in> set tasks" "t \<in> set tasks" for s t
  proof -
    have "(\<exists>d \<in> set (DS ws). t_id s \<in> set (ds_tasks d) \<and> t_id t \<in> set (ds_tasks d)) \<longleftrightarrow>
        ws = t_workspace s \<and> one_group tasks s t" for ws
    proof -
      have sub: "set (?W ws) \<subseteq> set tasks" by (auto simp: in_workspace_def)
      have only: "u \<in> set (?W ws)" if "g \<in> set (GS ws)" "u \<in> set g" for g u
        using DS(2) [of ws] that unfolding groups_of_def by (metis UN_I set_concat set_mset_mset)
      have "u \<in> set (?W ws) \<longleftrightarrow> t_workspace u = ws" if "u \<in> set tasks" for u
        using that by (simp add: in_workspace_def)
      note in_ws = this [OF st(1)] this [OF st(2)] and share = groups_of_share [OF DS(2) assms sub st]
      show ?thesis
      proof (cases "t_workspace s = ws \<and> t_workspace t = ws")
        case True
        with DS(5) [of s ws t] in_ws show ?thesis unfolding share one_group_def by auto
      next
        case False
        with in_ws only have "\<not> (\<exists>g \<in> set (GS ws). s \<in> set g \<and> t \<in> set g)" by blast
        with False show ?thesis unfolding share one_group_def by auto
      qed
    qed
    then show ?thesis using st(1) by (auto simp: ds_def)
  qed
  moreover have "(\<lambda>d. (ds_workspace d, ds_id d, ds_tasks d)) ` set ds = (\<lambda>s. (t_workspace s, class_label tasks s)) ` set tasks"
  proof -
    have inj: "inj_on t_id (set tasks)" using assms by (simp add: distinct_map)
    have of_class: "label g = class_label tasks s" if g: "g \<in> set (GS ws)" "s \<in> set g" for ws g s
    proof -
      have gs: "mset (concat (GS ws)) = mset (?W ws)" using DS(2) unfolding groups_of_def by blast
      have "distinct (?W ws)" using assms by (simp add: in_workspace_def distinct_map)
      from group_class [OF gs this g, of "same_group (?W ws)"] DS(5)
      have cls: "distinct g" "set g = {t \<in> set (?W ws). same_group (?W ws) s t}" by blast+
      have "s \<in> set (?W ws)" using cls(2) g(2) by blast
      then have "t_workspace s = ws" by (simp add: in_workspace_def)
      then have set_g: "set g = {t \<in> set tasks. one_group tasks s t}"
        unfolding cls(2) by (auto simp: in_workspace_def one_group_def)
      have "sort_key task_age g = sort_key task_age (filter (one_group tasks s) tasks)"
        by (rule sort_age_unique) (use set_g cls(1) assms inj in \<open>auto simp: distinct_map inj_on_def\<close>)
      then show ?thesis by (simp add: class_label_def label_def)
    qed
    have labels: "(\<lambda>d. (ds_id d, ds_tasks d)) ` set (DS ws) = label ` set (GS ws)" for ws
      using DS(2) [of ws] unfolding groups_of_def by (metis mset_eq_setD set_map)
    have members: "set (concat (GS ws)) = set (?W ws)" "[] \<notin> set (GS ws)" for ws
      using DS(2) [of ws] unfolding groups_of_def by (metis mset_eq_setD, blast)
    have "label ` set (GS ws) = class_label tasks ` set (?W ws)" for ws
    proof -
      have "label ` set (GS ws) = (\<Union>g \<in> set (GS ws). class_label tasks ` set g)"
        using of_class members(2) [of ws] by (auto simp: image_iff) (metis list.set_intros(1) neq_Nil_conv)+
      also have "\<dots> = class_label tasks ` set (concat (GS ws))" by (simp add: image_UN)
      finally show ?thesis unfolding members(1) .
    qed
    note eq = this
    have blocks: "(\<lambda>d. (ds_workspace d, ds_id d, ds_tasks d)) ` set (DS ws) = (\<lambda>s. (t_workspace s, class_label tasks s)) ` set (?W ws)" for ws
    proof -
      have "(\<lambda>d. (ds_workspace d, ds_id d, ds_tasks d)) ` set (DS ws) = Pair ws ` (\<lambda>d. (ds_id d, ds_tasks d)) ` set (DS ws)"
        unfolding image_image by (rule image_cong) (simp_all add: DS(3))
      also have "\<dots> = Pair ws ` class_label tasks ` set (?W ws)" by (simp only: labels eq)
      also have "\<dots> = (\<lambda>s. (t_workspace s, class_label tasks s)) ` set (?W ws)"
        unfolding image_image by (rule image_cong) (simp_all add: in_workspace_def)
      finally show ?thesis .
    qed
    have "set ds = (\<Union>ws \<in> set ?K. set (DS ws))" by (simp add: ds_def)
    moreover have "set tasks = (\<Union>ws \<in> set ?K. set (?W ws))" by (auto simp: in_workspace_def)
    ultimately show ?thesis by (simp only: image_UN blocks)
  qed
  ultimately show ?thesis by blast
qed

text \<open>C39. The grouping returns, and for tasks with distinct ids puts each into exactly one group: two tasks are
  in the same one exactly when they are of the same workspace and either have the same key \<open>dag\<close> or
  have none and are connected, in either direction and through any number of tasks without a key, by a
  reference or by the mark of a fallback. A group is named by its key or its oldest task and lists its tasks by
  age, and the groups are listed by workspace and name, no two of them alike.\<close>

theorem groups_exact:
  assumes "distinct (map t_id tasks)"
  shows "\<exists>ds. group_tasks_into_dags order tasks = Some ds \<and>
    sorted_wrt (\<lambda>d e. (ds_workspace d, ds_id d) < (ds_workspace e, ds_id e)) ds \<and>
    mset (concat (map ds_tasks ds)) = mset (map t_id tasks) \<and>
    (\<forall>s \<in> set tasks. \<forall>t \<in> set tasks.
       (\<exists>d \<in> set ds. t_id s \<in> set (ds_tasks d) \<and> t_id t \<in> set (ds_tasks d)) \<longleftrightarrow> one_group tasks s t) \<and>
    (\<lambda>d. (ds_workspace d, ds_id d, ds_tasks d)) ` set ds = (\<lambda>s. (t_workspace s, class_label tasks s)) ` set tasks"
  by (rule groups_exact_aux [OF assms])

text \<open>Two tasks of which one waits for the other, and one on its own.\<close>

definition dag_sample :: "task list" where
  "dag_sample = [sample_task ''b'' [''a''], sample_task ''a'' [], sample_task ''c'' []]"

theorem groups_exact_witness:
  "\<exists>ds. group_tasks_into_dags rev dag_sample = Some ds \<and> mset (concat (map ds_tasks ds)) = {#''a'', ''b'', ''c''#}"
proof -
  have "distinct (map t_id dag_sample)" by (simp add: dag_sample_def sample_task_def)
  from groups_exact [OF this, of rev] obtain ds where ds: "group_tasks_into_dags rev dag_sample = Some ds"
    "mset (concat (map ds_tasks ds)) = mset (map t_id dag_sample)" by blast
  have "mset (map t_id dag_sample) = {#''a'', ''b'', ''c''#}" by (simp add: dag_sample_def sample_task_def add_mset_commute)
  with ds show ?thesis by metis
qed

section \<open>Blocked tasks\<close>

text \<open>A waiting task that will not run by itself: its inputs are out of reach, or it waits for a task in an
  unknown state or for one that will not run by itself.\<close>

inductive stuck :: "graph \<Rightarrow> task list \<Rightarrow> string \<Rightarrow> bool" for g all where
  out_of_reach: "t \<in> set all \<Longrightarrow> t_state t = Waiting \<Longrightarrow> is_unavailable (readiness g (t_id t)) \<Longrightarrow> stuck g all (t_id t)"
| waits_unknown: "t \<in> set all \<Longrightarrow> t_state t = Waiting \<Longrightarrow> t_id u \<in> set (awaited_ids all t) \<Longrightarrow> u \<in> set all \<Longrightarrow>
    is_unknown (t_state u) \<Longrightarrow> stuck g all (t_id t)"
| waits_stuck: "t \<in> set all \<Longrightarrow> t_state t = Waiting \<Longrightarrow> i \<in> set (awaited_ids all t) \<Longrightarrow> stuck g all i \<Longrightarrow> stuck g all (t_id t)"

lemma blocked_pass_only:
  assumes "\<And>i aw a. (i, aw) \<in> set ws \<Longrightarrow> a \<in> set aw \<Longrightarrow> a \<in> set unknown \<or> P a \<Longrightarrow> P i"
  shows "\<forall>i \<in> set blocked. P i \<Longrightarrow> \<forall>i \<in> set (blocked_pass unknown ws blocked). P i"
  using assms
proof (induction unknown ws blocked rule: blocked_pass.induct)
  case (2 unknown i aw ws blocked)
  let ?b = "if i \<notin> set blocked \<and> (\<exists>a \<in> set aw. a \<in> set blocked \<or> a \<in> set unknown) then i # blocked else blocked"
  have "\<forall>j \<in> set ?b. P j" using 2(2) 2(3) [of i aw] by auto
  moreover have "\<And>i aw a. (i, aw) \<in> set ws \<Longrightarrow> a \<in> set aw \<Longrightarrow> a \<in> set unknown \<or> P a \<Longrightarrow> P i"
    using 2(3) by (meson list.set_intros(2))
  ultimately have "\<forall>j \<in> set (blocked_pass unknown ws ?b). P j" by (rule 2(1))
  then show ?case by simp
qed simp

lemma blocked_pass_grows: "length blocked \<le> length (blocked_pass unknown ws blocked)"
  by (induction unknown ws blocked rule: blocked_pass.induct) (auto split: if_splits)

lemma blocked_pass_suffix: "\<exists>new. blocked_pass unknown ws blocked = new @ blocked"
proof (induction unknown ws blocked rule: blocked_pass.induct)
  case (2 unknown i aw ws blocked)
  let ?hit = "i \<notin> set blocked \<and> (\<exists>a \<in> set aw. a \<in> set blocked \<or> a \<in> set unknown)"
  from 2 obtain new where new: "blocked_pass unknown ws (if ?hit then i # blocked else blocked) = new @ (if ?hit then i # blocked else blocked)" ..
  show ?case
  proof (cases ?hit)
    case True
    from new have "blocked_pass unknown ((i, aw) # ws) blocked = (new @ [i]) @ blocked"
      unfolding blocked_pass.simps if_P [OF True] by simp
    then show ?thesis ..
  next
    case False
    from new have "blocked_pass unknown ((i, aw) # ws) blocked = new @ blocked"
      unfolding blocked_pass.simps if_not_P [OF False] .
    then show ?thesis ..
  qed
qed simp

lemma blocked_pass_closed:
  "length (blocked_pass unknown ws blocked) = length blocked \<Longrightarrow> (i, aw) \<in> set ws \<Longrightarrow> a \<in> set aw \<Longrightarrow>
   a \<in> set blocked \<or> a \<in> set unknown \<Longrightarrow> i \<in> set blocked"
proof (induction unknown ws blocked rule: blocked_pass.induct)
  case (2 unknown j bw ws blocked)
  show ?case
  proof (cases "j \<notin> set blocked \<and> (\<exists>a \<in> set bw. a \<in> set blocked \<or> a \<in> set unknown)")
    case True
    with 2(2) blocked_pass_grows [of "j # blocked" unknown ws] show ?thesis by simp
  next
    case False
    then have "(if j \<notin> set blocked \<and> (\<exists>a \<in> set bw. a \<in> set blocked \<or> a \<in> set unknown) then j # blocked else blocked) = blocked"
      by (rule if_not_P)
    with 2 False show ?thesis by auto
  qed
qed simp

lemma blocked_loop_only:
  assumes "\<And>i aw a. (i, aw) \<in> set ws \<Longrightarrow> a \<in> set aw \<Longrightarrow> a \<in> set unknown \<or> P a \<Longrightarrow> P i" "\<forall>i \<in> set blocked. P i"
  shows "\<forall>i \<in> set (blocked_loop unknown ws blocked). P i"
  using assms
proof (induction unknown ws blocked rule: blocked_loop.induct)
  case (1 unknown ws blocked)
  have P: "\<forall>i \<in> set (blocked_pass unknown ws blocked). P i" using 1(2,3) by (rule blocked_pass_only)
  show ?case
  proof (cases "length (blocked_pass unknown ws blocked) = length blocked")
    case True
    with P show ?thesis by (simp add: blocked_loop.simps [of unknown ws blocked] Let_def)
  next
    case False
    have "\<forall>i \<in> set (blocked_loop unknown ws (blocked_pass unknown ws blocked)). P i"
      by (rule 1(1) [OF refl False _ P]) (rule 1(2))
    with False show ?thesis by (subst blocked_loop.simps) (simp add: Let_def)
  qed
qed

lemma blocked_loop_closed:
  "set blocked \<subseteq> set (blocked_loop unknown ws blocked) \<and>
   ((i, aw) \<in> set ws \<longrightarrow> a \<in> set aw \<longrightarrow> a \<in> set (blocked_loop unknown ws blocked) \<or> a \<in> set unknown \<longrightarrow>
    i \<in> set (blocked_loop unknown ws blocked))"
proof (induction unknown ws blocked rule: blocked_loop.induct)
  case (1 unknown ws blocked)
  let ?b = "blocked_pass unknown ws blocked"
  show ?case
  proof (cases "length ?b = length blocked")
    case True
    have "?b = blocked" using True blocked_pass_suffix [of unknown ws blocked] by auto
    with True blocked_pass_closed [OF True] show ?thesis by (simp add: blocked_loop.simps [of unknown ws blocked] Let_def)
  next
    case False
    note ih = 1 [OF refl False]
    have "set blocked \<subseteq> set (blocked_loop unknown ws ?b)" using ih blocked_pass_keeps [of blocked unknown ws] by blast
    with ih False show ?thesis by (simp add: blocked_loop.simps [of unknown ws blocked] Let_def)
  qed
qed

lemma blocked_ids_exact: "i \<in> set (blocked_task_ids order all) \<longleftrightarrow> stuck (build order all) all i"
proof -
  let ?g = "build order all"
  let ?u = "map t_id (filter (\<lambda>t. is_unknown (t_state t)) all)"
  let ?ws = "map (\<lambda>t. (t_id t, awaited_ids all t)) (filter (\<lambda>t. t_state t = Waiting) all)"
  let ?b = "remdups (map t_id (filter (\<lambda>t. t_state t = Waiting \<and> is_unavailable (readiness ?g (t_id t))) all))"
  have loop: "blocked_task_ids order all = blocked_loop ?u ?ws ?b" by (simp add: blocked_task_ids_def Let_def)
  show ?thesis
  proof
    have "\<forall>i \<in> set (blocked_loop ?u ?ws ?b). stuck ?g all i"
      by (rule blocked_loop_only) (auto intro: stuck.intros)
    then show "i \<in> set (blocked_task_ids order all) \<Longrightarrow> stuck ?g all i" by (simp only: loop)
  next
    assume "stuck ?g all i"
    then show "i \<in> set (blocked_task_ids order all)"
      unfolding loop
    proof (induction rule: stuck.induct)
      case (out_of_reach t)
      then have "t_id t \<in> set ?b" by auto
      with blocked_loop_closed show ?case by blast
    next
      case (waits_unknown t u)
      then have "(t_id t, awaited_ids all t) \<in> set ?ws" "t_id u \<in> set ?u" by auto
      with waits_unknown blocked_loop_closed show ?case by blast
    next
      case (waits_stuck t i)
      then have "(t_id t, awaited_ids all t) \<in> set ?ws" by auto
      with waits_stuck blocked_loop_closed show ?case by blast
    qed
  qed
qed

end
