(* ===== verification/Spec2Isabelle.thy ===== *)
theory Spec2Isabelle
  imports Memory_Queries Semaphore_Laws Barrier Lease_Laws Task_Types_Codec Task_Graph_Laws
    Task_Inputs_Laws Task_Check Task_Attempt_Laws Task_Conditions_Laws Task_Sweep_Laws Task_Plan_Runs
    Runner_Runs Reducer_Laws Task_Dag_Laws
begin

text \<open>
  A verification development for tasty, a terminal multiplexer written in Rust whose host keeps
  shared state for the agents that work in its panes.

  \<^bold>\<open>The parts.\<close> \<open>src/crates/tasty-memory\<close> is a key-value store over SQLite. It keeps regular rows,
  shared by all owners, and secret rows, private to an owner, and it groups writes into units and
  batches. \<open>src/crates/tasty-agent\<close> builds coordination objects on it: semaphores, barriers and leases,
  each a JSON value under a key of the store. It also keeps the tasks of a workspace there, with their
  types, references, routes and results, and runs the loop that starts and ends them.

  \<^bold>\<open>Theories.\<close>
  \<^item> \<open>Prelude\<close>: saturating words, the state-passing operations (\<open>ret\<close>, \<open>fail\<close>, \<open>bnd\<close>, \<open>reads\<close>) every
    store is written with, decimal numbers, lists with distinct keys.
  \<^item> \<open>Json\<close>: \<open>serde_json::Value\<close>, objects with sorted keys, field readers, \<open>lookup_dot_path\<close>.
  \<^item> \<open>Memory_Scope\<close>: \<open>scope.rs\<close>, scope tokens and keys.
  \<^item> \<open>Memory\<close>, \<open>Memory_Write\<close>, \<open>Memory_Read\<close>: \<open>lib.rs\<close>, \<open>write.rs\<close> and \<open>batch.rs\<close>. A table is a list of rows,
    a write is a body over both tables that returns a value and an effect, as \<open>put_regular_rows\<close> and
    its like do; \<open>step\<close>, \<open>in_unit\<close> and \<open>write_batch\<close> run bodies under savepoints and units.
  \<^item> \<open>Memory_Laws\<close>, \<open>Memory_Owners\<close>, \<open>Memory_Queries\<close>: the stores reached through public operations, their
    invariant, reads after writes, ownership, secrecy, quotas, batches, listings, pruning.
  \<^item> \<open>Agent_Store\<close>: the errors of the agent crate and the interface of a record store as locales:
    \<open>record_store\<close> (a put and a get over the memory store), \<open>good_store\<close> (its laws) and \<open>json_store\<close>
    (a record with a JSON form, from which the laws follow by \<open>sublocale\<close>).
  \<^item> \<open>Semaphore\<close>, \<open>Semaphore_Laws\<close>, \<open>Barrier\<close>, \<open>Lease\<close>, \<open>Lease_Laws\<close>: \<open>semaphore.rs\<close>, \<open>barrier.rs\<close>,
    \<open>lease.rs\<close>, each with an interpretation of \<open>json_store\<close> on its own record, and the theorems over
    arbitrary sequences of its commands.
  \<^item> \<open>F64\<close>: the exact value of a bit pattern as a multiple of \<open>2 ^ - 1074\<close>, comparison, rounding of an
    integer, the numbers of a JSON value.
  \<^item> \<open>Task_Types\<close>, \<open>Task_Types_Laws\<close>, \<open>Task_Types_Codec\<close>: \<open>task/types.rs\<close> with \<open>assign.rs\<close> and \<open>value.rs\<close>. The
    checks stop at 32 levels of a schema and 64 of a value, which is what ends their recursion here
    as there; what the laws show is that validation is the relation \<open>valid\<close>, that assignability is
    sound for it, and that typed values and schemas survive their JSON forms.
  \<^item> \<open>Task_Failure\<close>, \<open>Task_Model\<close>: the failures and the record of a task, from \<open>task.rs\<close> and the declarations
    of \<open>contract.rs\<close>, \<open>binding.rs\<close>, \<open>route.rs\<close>, \<open>postprocess.rs\<close>, \<open>attempt.rs\<close>.
  \<^item> \<open>Task_Binding\<close>, \<open>Task_Route\<close>, \<open>Task_Graph\<close>: pointers and the types at them; the status of an edge and
    the tasks that may be left out; the graph of the tasks, its cycle check, downstream and
    referring tasks, readiness. A \<open>HashMap\<close> is listed in an order that is a parameter (\<open>listing\<close>).
  \<^item> \<open>Task_Graph_Cycles\<close>, \<open>Task_Graph_Laws\<close>: the depth-first search finds a cycle exactly when there is
    one; the worklist searches (locale \<open>worklist\<close>, interpreted for both of them) end with the
    transitive closure; readiness is what the states of the awaited tasks say, in every order unless
    two tasks share a fallback.
  \<^item> \<open>Task_Inputs\<close>, \<open>Task_Inputs_Laws\<close>: the check and the resolution of bindings and mappings (\<open>binding.rs\<close>,
    \<open>binding/mapping.rs\<close>); the types of pointers are right, so a checked task whose sources have
    succeeded gets its input and its arguments, and never makes the store panic.
  \<^item> \<open>Task_Check\<close>: the checks of \<open>contract.rs\<close> and \<open>postprocess.rs\<close> when a task is made.
  \<^item> \<open>Task_Conditions\<close>, \<open>Task_Conditions_Laws\<close>: the conditions of \<open>route.rs\<close>, checked and evaluated. A checked
    task that has succeeded gets a route, and exclusive cases over the same place exclude each other.
  \<^item> \<open>Utf8_Text\<close>, \<open>Task_Result\<close>, \<open>Task_Attempt\<close>, \<open>Task_Attempt_Laws\<close>: texts cut at character boundaries, the
    settling of results, attempts with their reports, the notes of an attempt.
  \<^item> \<open>Task_Report\<close>, \<open>Task_Records\<close>: what is shown of a task, and how tasks are kept: records, the notices
    of tasks that ended, the limit of a record, the notes of attempts (\<open>task/report.rs\<close>, \<open>terminal.rs\<close>,
    \<open>record_limit.rs\<close>, \<open>store/report.rs\<close>).
  \<^item> \<open>Task_Store\<close>, \<open>Task_Submit\<close>: the operations of \<open>task/store.rs\<close> and \<open>task/store/\<close>: creation, transitions
    and what they cause, completion, retry, deletion and sweeps, the submission of a graph.
  \<^item> \<open>Task_Records_Laws\<close>, \<open>Task_Put_Laws\<close>: the records as a map from workspaces and ids, what a write of one
    does to the others; a task that ends is stored with its notice or not at all.
  \<^item> \<open>Task_Evolution\<close>, \<open>Task_Store_Laws\<close>, \<open>Task_Lifecycle\<close>: the rules (\<open>keeps\<close>) by which each operation is
    shown to let the records only evolve, and what follows over any sequence of operations
    (\<open>exec_all\<close>): records that ended are final, typed tasks that succeeded have their output. A record
    is compared by its \<open>look\<close>, the fields that survive its JSON form whatever the messages in it read
    like; the command, the contract, the failure policy and the metadata are not among them. Such a
    sequence has creations, transitions, cancellations, completions, settlings, inputs, acceptances,
    runs of post-processing, links, tokens and notes. \<open>retry\<close>, \<open>set_result\<close>,
    \<open>create_reserved_for_fallback\<close>, deletion, sweeps and the submission of a graph are not in it: the
    first three take a task out of its end or write past the checks, the next two remove it, and
    the last, which is what makes a task with transitions, is covered by the laws of its plan. An
    evolution carries a set of edges of the state graph (\<open>edges\<close>): \<open>evolves\<close> allows what settling does
    by itself, \<open>drifts\<close>, and one edge for the task an operation names, so one operation moves a task
    along at most one edge and what settling adds to it.
  \<^item> \<open>Task_Termination\<close>: transitions and what they cause return. Each of them puts a task into an end
    that it does not leave, so the number of rows bounds the chain (\<open>chain_bound\<close>), and an unused id is
    found among one more candidates than there are ids (\<open>unused\<close>).
  \<^item> \<open>Task_Settle_Laws\<close>, \<open>Task_Submit_Laws\<close>, \<open>Task_Sweep_Laws\<close>: settling leaves no task waiting on which
    something has decided; a graph is planned as a whole, checked and without cycles; a sweep takes
    the largest set that nothing else refers to.
  \<^item> \<open>Task_Dag\<close>, \<open>Task_Dag_Laws\<close>: \<open>task/dag.rs\<close>, the tasks shown as groups, with the counts and the state of
    a group. The union-find computes the connected components, so two tasks share a group exactly
    when they have the same key or are connected; the blocked tasks are the least set that contains
    what a failed task, itself blocked or not, holds up.
  \<^item> \<open>Reducer\<close>, \<open>Reducer_Laws\<close>: \<open>reducer.rs\<close>, the untyped and the typed strategies. Numbers are compared as
    the numbers they are; a merge that refuses conflicts succeeds exactly when its inputs agree, and
    is then their union.
  \<^item> \<open>Runner\<close>, \<open>Runner_Laws\<close>: the loop of \<open>runner.rs\<close> that starts, polls and reports tasks, over any executor and
    any recording. Its calls are logged (\<open>traced\<close>), the starts that are put off too, and so are the reports
    that the recorder is given (\<open>noted\<close>); the log is that of a permit per run (\<open>permits\<close>): no task
    runs twice, no permit is released twice or left behind, a known outcome is not polled again. A
    report is shortened at most twice, which ends the recursion of \<open>report\<close> (\<open>report_weight\<close>).
  \<^item> \<open>Runner_Store\<close>, \<open>Runner_Runs\<close>: the loop over the task store. It records by commands of the store only,
    so what holds over any sequence of them holds over its ticks; and it goes on after a report as the
    store does.
  \<^item> \<open>Sample_Codec\<close>, \<open>Task_Demo\<close>, \<open>Task_Runs\<close>, \<open>Task_Plan_Runs\<close>: an executable JSON text codec, and the runs
    of the stores that the theorems are applied to.

  \<^bold>\<open>State.\<close> \<open>memory\<close> is \<open>MemoryStore\<close> with its two tables, the byte counter, the pending changes and the
  stage of an open unit. It also holds the clock that \<open>unix_ms_now\<close> reads and the codec that
  \<open>serde_json::to_vec\<close> and \<open>from_slice\<close> are. An operation is a function from the state to an error or a
  value and the state it leaves, so what a failed operation already wrote is visible.

  \<^bold>\<open>Conventions.\<close> A Rust string is the list of its UTF-8 bytes. \<open>u32\<close> and \<open>u64\<close> values are words, with
  saturation where the code saturates. The \<open>i64\<close> times are integers. The texts of a type error keep
  what is put into them (a schema, a value) instead of its rendering. Versions are natural numbers.

  \<^bold>\<open>Not modelled.\<close> SQLite is taken to work: the \<open>Db\<close> errors, the marking of a unit as broken, and the
  maintenance steps are left out, as are file paths and migrations. Of serde, objects are modelled;
  the array form of a struct is not, and neither are where a parser stopped and the rendering of its
  errors. Of the agent crate, the token buckets of \<open>rate_limit.rs\<close>, the reading of a submitted graph in
  \<open>graph_parse.rs\<close> and the shell that runs a custom reducer are not modelled. The rest of the host is not modelled: rendering, terminals,
  networking, plugins and the user interface.
\<close>

end
